(* ===== verification/Js_Prelude.thy ===== *)
theory Js_Prelude
  imports Main "HOL-Library.AList"
begin

text \<open>
  Shared vocabulary of the development: errors as values and the insertion-ordered
  \<open>Map\<close> and \<open>Set\<close> of JavaScript.

  A JavaScript \<open>Map\<close> remembers insertion order: \<open>set\<close> on a present key replaces the value in
  place, on an absent key appends; iteration follows that order.  Association lists with
  \<open>AList.update\<close> and \<open>AList.delete\<close> behave exactly so, and they evaluate.
\<close>

named_theorems js_map_simps "lookups and key sets of updated JavaScript maps"
named_theorems js_wf_intros "operations that keep the keys of a JavaScript map distinct"

section \<open>Errors as values\<close>

text \<open>The exceptions the modelled code throws or catches, with the message where the code
  (or its caller) uses it.\<close>

datatype js_error =
    TypeError string
  | RangeError
  | SyntaxError string
  | JsError string

type_synonym 'a res = "js_error + 'a"

text \<open>Sequencing: an exception skips the rest.\<close>

definition rbind :: "'a res \<Rightarrow> ('a \<Rightarrow> 'b res) \<Rightarrow> 'b res" where
  "rbind r f = (case r of Inl e \<Rightarrow> Inl e | Inr x \<Rightarrow> f x)"

lemma rbind_Inl [simp]: "rbind (Inl e) f = Inl e"
  and rbind_Inr [simp]: "rbind (Inr x) f = f x"
  by (simp_all add: rbind_def)

lemma rbind_eq_Inr: "rbind r f = Inr y \<longleftrightarrow> (\<exists>x. r = Inr x \<and> f x = Inr y)"
  by (cases r) auto

lemma rbind_cong [fundef_cong]:
  "r = r' \<Longrightarrow> (\<And>x. r' = Inr x \<Longrightarrow> f x = g x) \<Longrightarrow> rbind r f = rbind r' g"
  by (cases r') auto

section \<open>JavaScript Map\<close>

type_synonym ('k, 'v) js_map = "('k \<times> 'v) list"

abbreviation map_get :: "('k, 'v) js_map \<Rightarrow> 'k \<Rightarrow> 'v option" where
  "map_get m k \<equiv> map_of m k"

abbreviation map_set :: "('k, 'v) js_map \<Rightarrow> 'k \<Rightarrow> 'v \<Rightarrow> ('k, 'v) js_map" where
  "map_set m k v \<equiv> AList.update k v m"

abbreviation map_delete :: "('k, 'v) js_map \<Rightarrow> 'k \<Rightarrow> ('k, 'v) js_map" where
  "map_delete m k \<equiv> AList.delete k m"

abbreviation map_has :: "('k, 'v) js_map \<Rightarrow> 'k \<Rightarrow> bool" where
  "map_has m k \<equiv> k \<in> set (map fst m)"

abbreviation map_keys :: "('k, 'v) js_map \<Rightarrow> 'k list" where
  "map_keys m \<equiv> map fst m"

abbreviation map_wf :: "('k, 'v) js_map \<Rightarrow> bool" where
  "map_wf m \<equiv> distinct (map fst m)"

lemma map_get_set [js_map_simps]:
  "map_get (map_set m k v) k' = (if k' = k then Some v else map_get m k')"
  by (simp add: update_conv')

lemma map_get_delete [js_map_simps]:
  "map_get (map_delete m k) k' = (if k' = k then None else map_get m k')"
  by (simp add: delete_conv')

lemma map_has_get: "map_has m k \<longleftrightarrow> map_get m k \<noteq> None"
  by (metis map_of_eq_None_iff set_map)

lemma keys_map_set [js_map_simps]:
  "set (map_keys (map_set m k v)) = insert k (set (map_keys m))"
  by (simp add: dom_update)

lemma keys_map_delete [js_map_simps]:
  "set (map_keys (map_delete m k)) = set (map_keys m) - {k}"
  by (auto simp: delete_keys)

lemma map_wf_set [js_wf_intros]: "map_wf m \<Longrightarrow> map_wf (map_set m k v)"
  by (rule distinct_update)

lemma map_wf_delete [js_wf_intros]: "map_wf m \<Longrightarrow> map_wf (map_delete m k)"
  by (rule distinct_delete)

lemma map_wf_filter [js_wf_intros]: "map_wf m \<Longrightarrow> map_wf (filter P m)"
  by (simp add: distinct_map_filter)

lemma map_get_filter [js_map_simps]:
  "map_wf m \<Longrightarrow> map_get (filter P m) k =
     (case map_get m k of None \<Rightarrow> None | Some v \<Rightarrow> if P (k, v) then Some v else None)"
proof (induction m)
  case Nil
  then show ?case by simp
next
  case (Cons a m)
  then show ?case
    by (cases a) (force split: option.splits simp: map_of_eq_None_iff)
qed

lemma map_get_mem: "map_get m k = Some v \<Longrightarrow> (k, v) \<in> set m"
  by (rule map_of_SomeD)

lemma map_mem_get: "map_wf m \<Longrightarrow> (k, v) \<in> set m \<Longrightarrow> map_get m k = Some v"
  by simp

lemma map_keysE:
  assumes "k \<in> set (map_keys m)"
  obtains v where "map_get m k = Some v"
  using assms map_has_get [of k m] by auto

section \<open>JavaScript Set\<close>

definition set_add :: "'a list \<Rightarrow> 'a \<Rightarrow> 'a list" where
  "set_add s x = (if x \<in> set s then s else s @ [x])"

definition set_delete :: "'a list \<Rightarrow> 'a \<Rightarrow> 'a list" where
  "set_delete s x = filter (\<lambda>y. y \<noteq> x) s"

lemma set_set_add [js_map_simps]: "set (set_add s x) = insert x (set s)"
  by (auto simp: set_add_def)

lemma set_set_delete [js_map_simps]: "set (set_delete s x) = set s - {x}"
  by (auto simp: set_delete_def)

lemma distinct_set_add [js_wf_intros]: "distinct s \<Longrightarrow> distinct (set_add s x)"
  by (auto simp: set_add_def)

lemma distinct_set_delete [js_wf_intros]: "distinct s \<Longrightarrow> distinct (set_delete s x)"
  by (simp add: set_delete_def)

text \<open>\<open>new Set(xs)\<close>: the distinct elements in the order of their first occurrence.\<close>

definition set_of_list :: "'a list \<Rightarrow> 'a list" where
  "set_of_list xs = fold (\<lambda>x s. set_add s x) xs []"

lemma set_fold_set_add:
  "set (fold (\<lambda>x s. set_add s x) xs s) = set s \<union> set xs"
  by (induction xs arbitrary: s) (auto simp: js_map_simps)

lemma distinct_fold_set_add:
  "distinct s \<Longrightarrow> distinct (fold (\<lambda>x s. set_add s x) xs s)"
  by (induction xs arbitrary: s) (auto intro: js_wf_intros)

lemma set_set_of_list [js_map_simps]: "set (set_of_list xs) = set xs"
  by (simp add: set_of_list_def set_fold_set_add)

lemma distinct_set_of_list [js_wf_intros]: "distinct (set_of_list xs)"
  by (simp add: set_of_list_def distinct_fold_set_add)

section \<open>Numbers in templates\<close>

text \<open>The decimal form a number takes in a string concatenation.\<close>

fun show_nat :: "nat \<Rightarrow> string" where
  "show_nat n = (if n < 10 then [char_of (48 + n)]
                 else show_nat (n div 10) @ [char_of (48 + n mod 10)])"

declare show_nat.simps [simp del]

section \<open>Folding an invariant along a loop\<close>

text \<open>A \<open>for\<close> loop whose body keeps a property keeps it overall.\<close>

lemma fold_invariant:
  assumes "P s" and "\<And>x s. x \<in> set xs \<Longrightarrow> P s \<Longrightarrow> P (f x s)"
  shows "P (fold f xs s)"
  using assms by (induction xs arbitrary: s) auto

end
