(* ===== verification/Js_Bytes.thy ===== *)
theory Js_Bytes
  imports Js_Prelude "HOL-Library.Word"
begin

text \<open>
  Byte buffers: \<open>Uint8Array\<close> as a list of 8-bit words, the little-endian accessors of
  \<open>DataView\<close> with their \<open>RangeError\<close>, and the bytes of a number.
\<close>

unbundle bit_operations_syntax

type_synonym byte = "8 word"
type_synonym bytes = "byte list"

section \<open>Numbers from bytes\<close>

text \<open>The bit expressions of the code, evaluated as JavaScript does, on 32-bit integers:
  \<open>b0 | (b1 << 8)\<close> and \<open>(b0 | (b1 << 8) | (b2 << 16) | (b3 << 24)) >>> 0\<close>.\<close>

definition or_bytes2 :: "byte \<Rightarrow> byte \<Rightarrow> nat" where
  "or_bytes2 b0 b1 = unat ((ucast b0 :: 32 word) OR push_bit 8 (ucast b1))"

definition or_bytes4 :: "byte \<Rightarrow> byte \<Rightarrow> byte \<Rightarrow> byte \<Rightarrow> nat" where
  "or_bytes4 b0 b1 b2 b3 =
     unat ((ucast b0 :: 32 word) OR push_bit 8 (ucast b1) OR push_bit 16 (ucast b2)
           OR push_bit 24 (ucast b3))"

definition le_nat :: "bytes \<Rightarrow> nat" where
  "le_nat bs = foldr (\<lambda>b n. unat b + 256 * n) bs 0"

lemma le_nat_simps [simp]:
  "le_nat [] = 0"
  "le_nat (b # bs) = unat b + 256 * le_nat bs"
  by (simp_all add: le_nat_def)

lemma byte_lt: "unat (b :: byte) < 256"
  using unsigned_less [where ?'a = nat, of b] by simp

lemma le_nat_bound: "le_nat bs < 256 ^ length bs"
proof (induction bs)
  case Nil
  then show ?case by simp
next
  case (Cons b bs)
  with byte_lt [of b] show ?case by simp
qed

lemma or_shift_add:
  fixes x y :: nat
  assumes "x < 2 ^ n"
  shows "x OR push_bit n y = x + 2 ^ n * y"
proof -
  have "\<not> bit x i \<or> \<not> bit (push_bit n y) i" for i
  proof (cases "i < n")
    case True
    then show ?thesis by (simp add: bit_push_bit_iff)
  next
    case False
    with assms have "\<not> bit (take_bit n x) i" by (simp add: bit_take_bit_iff)
    with assms show ?thesis by (simp add: take_bit_nat_eq_self)
  qed
  then have "x + push_bit n y = x OR push_bit n y" by (rule disjunctive_add)
  then show ?thesis by (simp add: push_bit_eq_mult mult.commute)
qed

lemma unat_ucast_byte [simp]: "unat (ucast (b :: byte) :: 32 word) = unat b"
  using byte_lt [of b] by (simp add: unsigned_ucast_eq take_bit_nat_eq_self)

lemma unat_push_byte:
  fixes b :: byte
  assumes "n \<le> 24"
  shows "unat (push_bit n (ucast b) :: 32 word) = push_bit n (unat b)"
proof -
  have "2 ^ n * unat b < 2 ^ n * 256" by (simp add: byte_lt)
  also have "\<dots> \<le> (2::nat) ^ 24 * 256"
    using assms by (intro mult_right_mono power_increasing) auto
  finally have "push_bit n (unat b) < (2::nat) ^ 32"
    by (simp add: push_bit_eq_mult mult.commute)
  then show ?thesis
    by (simp add: unsigned_push_bit_eq take_bit_nat_eq_self)
qed

lemma or_bytes2_eq: "or_bytes2 b0 b1 = le_nat [b0, b1]"
  using byte_lt [of b0]
  by (simp add: or_bytes2_def unsigned_or_eq unat_push_byte or_shift_add)

lemma or_bytes4_eq: "or_bytes4 b0 b1 b2 b3 = le_nat [b0, b1, b2, b3]"
proof -
  let ?d = "unat b3" and ?c = "unat b2" and ?b = "unat b1" and ?a = "unat b0"
  have "push_bit 16 ?c OR push_bit 24 ?d = push_bit 16 (?c OR push_bit 8 ?d)"
    by (simp add: push_bit_or)
  moreover have "push_bit 8 ?b OR push_bit 16 n = push_bit 8 (?b OR push_bit 8 n)" for n
    by (simp add: push_bit_or)
  ultimately show ?thesis
    by (simp add: or_bytes4_def unsigned_or_eq unat_push_byte or_shift_add byte_lt)
qed

section \<open>DataView\<close>

definition view_bytes :: "bytes \<Rightarrow> nat \<Rightarrow> nat \<Rightarrow> bytes res" where
  "view_bytes bs off n =
     (if off + n \<le> length bs then Inr (take n (drop off bs)) else Inl RangeError)"

definition getUint8 :: "bytes \<Rightarrow> nat \<Rightarrow> nat res" where
  "getUint8 bs off = rbind (view_bytes bs off 1) (\<lambda>v. Inr (le_nat v))"

definition getUint16 :: "bytes \<Rightarrow> nat \<Rightarrow> nat res" where
  "getUint16 bs off = rbind (view_bytes bs off 2) (\<lambda>v. Inr (le_nat v))"

definition getUint32 :: "bytes \<Rightarrow> nat \<Rightarrow> nat res" where
  "getUint32 bs off = rbind (view_bytes bs off 4) (\<lambda>v. Inr (le_nat v))"

definition getInt8 :: "bytes \<Rightarrow> nat \<Rightarrow> int res" where
  "getInt8 bs off = rbind (view_bytes bs off 1) (\<lambda>v. Inr (sint (word_of_nat (le_nat v) :: 8 word)))"

definition getInt32 :: "bytes \<Rightarrow> nat \<Rightarrow> int res" where
  "getInt32 bs off = rbind (view_bytes bs off 4) (\<lambda>v. Inr (sint (word_of_nat (le_nat v) :: 32 word)))"

text \<open>The bytes \<open>setUint16\<close> and \<open>setUint32\<close> store: the value modulo the width.\<close>

definition le16 :: "nat \<Rightarrow> bytes" where
  "le16 n = [word_of_nat n, word_of_nat (n div 256)]"

definition le32 :: "nat \<Rightarrow> bytes" where
  "le32 n = [word_of_nat n, word_of_nat (n div 256), word_of_nat (n div 65536),
             word_of_nat (n div 16777216)]"

lemma unat_byte_of_nat [simp]: "unat (word_of_nat n :: byte) = n mod 256"
  by (simp add: unsigned_of_nat take_bit_eq_mod)

lemma length_le16 [simp]: "length (le16 n) = 2"
  and length_le32 [simp]: "length (le32 n) = 4"
  by (simp_all add: le16_def le32_def)

lemma mod_256_step: "n mod 256 + 256 * (n div 256 mod m) = n mod (256 * m)" for n m :: nat
  by (simp only: mod_mult2_eq [of n 256 m])

lemma le_nat_le16 [simp]: "le_nat (le16 n) = n mod 65536"
  using mod_256_step [of n 256] by (simp add: le16_def)

lemma le_nat_le32 [simp]: "le_nat (le32 n) = n mod 4294967296"
proof -
  have "n div 65536 = n div 256 div 256" "n div 16777216 = n div 256 div 256 div 256"
    by (simp_all only: div_mult2_eq [symmetric]) simp_all
  then show ?thesis
    using mod_256_step [of "n div 256 div 256" 256] mod_256_step [of "n div 256" 65536]
      mod_256_step [of n 16777216]
    by (simp add: le32_def)
qed

lemma view_bytes_append:
  "length v = n \<Longrightarrow> view_bytes (pre @ v @ post) (length pre) n = Inr v"
  by (simp add: view_bytes_def)

lemma getUint16_le16: "getUint16 (pre @ le16 n @ post) (length pre) = Inr (n mod 65536)"
  by (simp add: getUint16_def view_bytes_append)

lemma getUint32_le32: "getUint32 (pre @ le32 n @ post) (length pre) = Inr (n mod 4294967296)"
  by (simp add: getUint32_def view_bytes_append)

lemma byte_word_unat: "(word_of_nat (unat b) :: byte) = b"
  by simp

end
