(* ===== verification/Base64.thy ===== *)
theory Base64
  imports Js_Bytes
begin

text \<open>
  \<open>addon/js/utils/base64.js\<close>: the \<open>Uint8Array\<close> base64 helpers every Native Messaging
  payload and every descriptor blob goes through.  The encoder and the decoder are
  translated loop by loop (the decoder's \<open>while (true)\<close> over an index, its chunk of up to
  four characters, its three treatments of a partial last chunk); the round trip is proved
  for both alphabets, with and without padding.
\<close>

section \<open>Alphabets and options\<close>

definition commonAlphabet :: string where
  "commonAlphabet = ''ABCDEFGHIJKLMNOPQRSTUVWXYZabcdefghijklmnopqrstuvwxyz0123456789''"

definition base64Alphabet :: string where "base64Alphabet = commonAlphabet @ ''+/''"
definition base64UrlAlphabet :: string where "base64UrlAlphabet = commonAlphabet @ ''-_''"

text \<open>\<open>inverse\<close>: the position of every character, later positions winning.\<close>

definition inverse_alphabet :: "string \<Rightarrow> (char \<times> nat) list" where
  "inverse_alphabet characters =
     fold (\<lambda>index result. map_set result (characters ! index) index) [0..<64] []"

definition c2i :: "(char \<times> nat) list" where "c2i = inverse_alphabet base64Alphabet"
definition c2iUrl :: "(char \<times> nat) list" where "c2iUrl = inverse_alphabet base64UrlAlphabet"

record b64_options =
  opt_alphabet :: "string option"
  opt_lastChunkHandling :: "string option"
  opt_omitPadding :: bool

definition no_options :: b64_options where
  "no_options = \<lparr>opt_alphabet = None, opt_lastChunkHandling = None, opt_omitPadding = False\<rparr>"

definition getAlphabetOption :: "b64_options \<Rightarrow> string res" where
  "getAlphabetOption options =
     (case opt_alphabet options of
        None \<Rightarrow> Inr ''base64''
      | Some alphabet \<Rightarrow>
          if alphabet = ''base64'' \<or> alphabet = ''base64url'' then Inr alphabet
          else Inl (TypeError ''Incorrect `alphabet` option''))"

section \<open>Encoding\<close>

definition charAtLookup :: "string \<Rightarrow> nat \<Rightarrow> nat \<Rightarrow> char" where
  "charAtLookup lookup triplet shift = lookup ! (drop_bit (6 * shift) triplet AND 63)"

fun toBase64_loop :: "string \<Rightarrow> bool \<Rightarrow> bytes \<Rightarrow> string" where
  "toBase64_loop lookup omitPadding (a # b # c # rest) =
     (let triplet = push_bit 16 (unat a) + push_bit 8 (unat b) + unat c
      in [charAtLookup lookup triplet 3, charAtLookup lookup triplet 2,
          charAtLookup lookup triplet 1, charAtLookup lookup triplet 0]
         @ toBase64_loop lookup omitPadding rest)"
| "toBase64_loop lookup omitPadding [a, b] =
     (let triplet = push_bit 16 (unat a) + push_bit 8 (unat b)
      in [charAtLookup lookup triplet 3, charAtLookup lookup triplet 2,
          charAtLookup lookup triplet 1] @ (if omitPadding then '''' else ''=''))"
| "toBase64_loop lookup omitPadding [a] =
     (let triplet = push_bit 16 (unat a)
      in [charAtLookup lookup triplet 3, charAtLookup lookup triplet 2]
         @ (if omitPadding then '''' else ''==''))"
| "toBase64_loop lookup omitPadding [] = ''''"

definition toBase64 :: "b64_options \<Rightarrow> bytes \<Rightarrow> string res" where
  "toBase64 options bs =
     rbind (getAlphabetOption options) (\<lambda>alphabet.
       Inr (toBase64_loop (if alphabet = ''base64'' then base64Alphabet else base64UrlAlphabet)
              (opt_omitPadding options) bs))"

section \<open>Decoding\<close>

definition is_ascii_ws :: "char \<Rightarrow> bool" where
  "is_ascii_ws c \<longleftrightarrow> c \<in> {CHR '' '', CHR 0x09, CHR 0x0A, CHR 0x0C, CHR 0x0D}"

function skipAsciiWhitespace :: "string \<Rightarrow> nat \<Rightarrow> nat" where
  "skipAsciiWhitespace s index =
     (if index < length s \<and> is_ascii_ws (s ! index) then skipAsciiWhitespace s (index + 1)
      else index)"
  by pat_completeness auto
termination
  by (relation "measure (\<lambda>(s, index). length s - index)") auto

declare skipAsciiWhitespace.simps [simp del]

text \<open>The digit of a character.  The decoder only looks up characters it has found in the
  alphabet, and the padding \<open>A\<close>.\<close>

definition digit :: "(char \<times> nat) list \<Rightarrow> char \<Rightarrow> nat" where
  "digit alphabet c = (case map_get alphabet c of Some i \<Rightarrow> i | None \<Rightarrow> 0)"

definition decodeBase64Chunk :: "string \<Rightarrow> (char \<times> nat) list \<Rightarrow> bool \<Rightarrow> bytes res" where
  "decodeBase64Chunk chunk alphabet throwOnExtraBits =
     (let chunkLength = length chunk;
          chunk' = (if chunkLength < 4 then chunk @ (if chunkLength = 2 then ''AA'' else ''A'')
                    else chunk);
          triplet = push_bit 18 (digit alphabet (chunk' ! 0)) + push_bit 12 (digit alphabet (chunk' ! 1))
                    + push_bit 6 (digit alphabet (chunk' ! 2)) + digit alphabet (chunk' ! 3);
          b0 = drop_bit 16 triplet AND 255;
          b1 = drop_bit 8 triplet AND 255;
          b2 = triplet AND 255
      in if chunkLength = 2 then
           (if throwOnExtraBits \<and> b1 \<noteq> 0 then Inl (SyntaxError ''Extra bits'')
            else Inr [word_of_nat b0])
         else if chunkLength = 3 then
           (if throwOnExtraBits \<and> b2 \<noteq> 0 then Inl (SyntaxError ''Extra bits'')
            else Inr [word_of_nat b0, word_of_nat b1])
         else Inr [word_of_nat b0, word_of_nat b1, word_of_nat b2])"

text \<open>The result \<open>{bytes, read, written}\<close>; the code writes at \<open>written\<close>, the end of what it
  has written, so \<open>written\<close> is the number of bytes.\<close>

record b64_result =
  res_bytes :: bytes
  res_read :: nat

lemma skipAsciiWhitespace_ge: "index \<le> skipAsciiWhitespace s index"
proof (induction s index rule: skipAsciiWhitespace.induct)
  case (1 s index)
  then show ?case by (subst skipAsciiWhitespace.simps) auto
qed

function fromBase64_loop ::
  "string \<Rightarrow> (char \<times> nat) list \<Rightarrow> string \<Rightarrow> nat \<Rightarrow> nat \<Rightarrow> string \<Rightarrow> bytes \<Rightarrow> nat \<Rightarrow> b64_result res" where
  "fromBase64_loop s alphabet lastChunkHandling maxLength index0 chunk bs read =
     (let index = skipAsciiWhitespace s index0
      in if index \<ge> length s then
           (if chunk \<noteq> [] then
              (if lastChunkHandling = ''stop-before-partial'' then
                 Inr \<lparr>res_bytes = bs, res_read = read\<rparr>
               else if lastChunkHandling = ''loose'' then
                 (if length chunk = 1 then
                    Inl (SyntaxError ''Malformed padding: exactly one additional character'')
                  else rbind (decodeBase64Chunk chunk alphabet False) (\<lambda>b.
                    Inr \<lparr>res_bytes = bs @ b, res_read = length s\<rparr>))
               else Inl (SyntaxError ''Missing padding''))
            else Inr \<lparr>res_bytes = bs, res_read = length s\<rparr>)
         else
           (let chr = s ! index; index1 = index + 1
            in if chr = CHR ''='' then
                 (if length chunk < 2 then Inl (SyntaxError ''Padding is too early'')
                  else
                    (let index2 = skipAsciiWhitespace s index1
                     in if length chunk = 2 \<and> index2 = length s then
                          (if lastChunkHandling = ''stop-before-partial'' then
                             Inr \<lparr>res_bytes = bs, res_read = read\<rparr>
                           else Inl (SyntaxError ''Malformed padding: only one =''))
                        else
                          (let index3 = (if length chunk = 2 \<and> s ! index2 = CHR ''=''
                                         then skipAsciiWhitespace s (index2 + 1) else index2)
                           in if index3 < length s then
                                Inl (SyntaxError ''Unexpected character after padding'')
                              else rbind (decodeBase64Chunk chunk alphabet
                                            (lastChunkHandling = ''strict'')) (\<lambda>b.
                                Inr \<lparr>res_bytes = bs @ b, res_read = length s\<rparr>))))
               else if \<not> map_has alphabet chr then Inl (SyntaxError ''Unexpected character'')
               else
                 (let remainingBytes = maxLength - length bs
                  in if (remainingBytes = 1 \<and> length chunk = 2) \<or> (remainingBytes = 2 \<and> length chunk = 3)
                     then Inr \<lparr>res_bytes = bs, res_read = read\<rparr>
                     else
                       (let chunk1 = chunk @ [chr]
                        in if length chunk1 = 4 then
                             rbind (decodeBase64Chunk chunk1 alphabet False) (\<lambda>b.
                               (let bs1 = bs @ b
                                in if length bs1 = maxLength
                                   then Inr \<lparr>res_bytes = bs1, res_read = index1\<rparr>
                                   else fromBase64_loop s alphabet lastChunkHandling maxLength index1
                                          [] bs1 index1))
                           else fromBase64_loop s alphabet lastChunkHandling maxLength index1
                                  chunk1 bs read))))"
  by pat_completeness auto
termination
proof (relation "measure (\<lambda>(s, _, _, _, index, _). length s - index)", goal_cases)
  case 1
  show ?case by simp
next
  case (2 s alphabet lch maxLength index0 chunk bs read)
  then show ?case using skipAsciiWhitespace_ge [of index0 s] by simp
next
  case (3 s alphabet lch maxLength index0 chunk bs read)
  then show ?case using skipAsciiWhitespace_ge [of index0 s] by simp
qed

declare fromBase64_loop.simps [simp del]

definition fromBase64_core :: "string \<Rightarrow> b64_options \<Rightarrow> nat \<Rightarrow> b64_result res" where
  "fromBase64_core s options maxLength =
     rbind (getAlphabetOption options) (\<lambda>name.
       (let alphabet = (if name = ''base64'' then c2i else c2iUrl);
            lastChunkHandling = (case opt_lastChunkHandling options of
                                   None \<Rightarrow> ''loose'' | Some h \<Rightarrow> h)
        in if lastChunkHandling \<notin> {''loose'', ''strict'', ''stop-before-partial''}
           then Inl (TypeError ''Incorrect `lastChunkHandling` option'')
           else if maxLength = 0 then Inr \<lparr>res_bytes = [], res_read = 0\<rparr>
           else fromBase64_loop s alphabet lastChunkHandling maxLength 0 [] [] 0))"

definition MAX_SAFE_INTEGER :: nat where "MAX_SAFE_INTEGER = 2 ^ 53 - 1"

definition fromBase64 :: "string \<Rightarrow> b64_options \<Rightarrow> bytes res" where
  "fromBase64 s options =
     rbind (fromBase64_core s options MAX_SAFE_INTEGER) (\<lambda>r. Inr (res_bytes r))"

section \<open>Digits and bytes\<close>

lemma triples_induct [case_names Nil One Two Three]:
  assumes "P []" and "\<And>a. P [a]" and "\<And>a b. P [a, b]"
    and "\<And>a b c rest. P rest \<Longrightarrow> P (a # b # c # rest)"
  shows "P xs"
  using assms by (induction_schema) (pat_completeness, lexicographic_order)

lemma and_63: "n AND 63 = n mod 64" and and_255: "n AND 255 = n mod 256" for n :: nat
  using take_bit_eq_mask [of 6 n] take_bit_eq_mask [of 8 n]
  by (simp_all add: take_bit_eq_mod mask_eq_exp_minus_1)

lemma mod_64_step: "n mod 64 + 64 * (n div 64 mod m) = n mod (64 * m)" for n m :: nat
  by (simp only: mod_mult2_eq [of n 64 m])

text \<open>The four digits of a 24-bit number determine it.\<close>

lemma recombine_digits:
  fixes t :: nat
  assumes "t < 2 ^ 24"
  shows "push_bit 18 (drop_bit 18 t AND 63) + push_bit 12 (drop_bit 12 t AND 63)
       + push_bit 6 (drop_bit 6 t AND 63) + (t AND 63) = t"
proof -
  have d: "t div 4096 = t div 64 div 64" "t div 262144 = t div 64 div 64 div 64"
    by (simp_all only: div_mult2_eq [symmetric]) simp_all
  have "t mod 64 + 64 * (t div 64 mod 64) + 4096 * (t div 4096 mod 64)
      + 262144 * (t div 262144 mod 64) = t mod 16777216"
    using mod_64_step [of "t div 64 div 64" 64] mod_64_step [of "t div 64" 4096]
      mod_64_step [of t 262144]
    by (simp add: d)
  with assms show ?thesis
    by (simp add: push_bit_eq_mult drop_bit_eq_div and_63 mult.commute)
qed

text \<open>The bytes of a triplet.\<close>

lemma triplet_bytes:
  fixes a b c :: byte
  defines "t \<equiv> push_bit 16 (unat a) + push_bit 8 (unat b) + unat c"
  shows "t < 2 ^ 24" "drop_bit 16 t AND 255 = unat a" "drop_bit 8 t AND 255 = unat b"
    "t AND 255 = unat c"
proof -
  have t: "t = (unat a * 256 + unat b) * 256 + unat c"
    by (simp add: t_def push_bit_eq_mult)
  show "t < 2 ^ 24" unfolding t using byte_lt [of a] byte_lt [of b] byte_lt [of c] by simp
  have "t mod 256 = unat c mod 256" unfolding t by (simp only: mod_mult_self3)
  with byte_lt [of c] have 1: "t div 256 = unat a * 256 + unat b" "t mod 256 = unat c"
    unfolding t by simp_all
  have 2: "t div 65536 = t div 256 div 256"
    by (simp only: div_mult2_eq [symmetric]) simp
  show "drop_bit 16 t AND 255 = unat a"
    using byte_lt [of a] byte_lt [of b] by (simp add: drop_bit_eq_div and_255 2 1)
  show "drop_bit 8 t AND 255 = unat b"
    using byte_lt [of b] by (simp add: drop_bit_eq_div and_255 1)
  show "t AND 255 = unat c" by (simp add: and_255 1)
qed

section \<open>The interface of an alphabet\<close>

text \<open>What the encoder's table and the decoder's table promise each other.\<close>

locale base64_alphabet =
  fixes lookup :: string and alphabet :: "(char \<times> nat) list"
  assumes decode_digit: "i < 64 \<Longrightarrow> map_get alphabet (lookup ! i) = Some i"
    and not_space: "i < 64 \<Longrightarrow> \<not> is_ascii_ws (lookup ! i)"
    and not_pad: "i < 64 \<Longrightarrow> lookup ! i \<noteq> CHR ''=''"
    and decode_A: "map_get alphabet (CHR ''A'') = Some 0"
begin

lemma has_digit: "i < 64 \<Longrightarrow> map_has alphabet (lookup ! i)"
  by (simp only: map_has_get decode_digit) simp

lemma digit_lookup [simp]: "i < 64 \<Longrightarrow> digit alphabet (lookup ! i) = i"
  by (simp add: digit_def decode_digit)

lemma digit_char [simp]:
  "digit alphabet (charAtLookup lookup t n) = drop_bit (6 * n) t AND 63"
  by (simp add: charAtLookup_def and_63)

lemma digit_A [simp]: "digit alphabet (CHR ''A'') = 0"
  by (simp add: digit_def decode_A)

text \<open>Decoding the four, three or two characters of an encoded triplet.\<close>

lemma decode_chunk4:
  fixes a b c :: byte
  defines "t \<equiv> push_bit 16 (unat a) + push_bit 8 (unat b) + unat c"
  shows "decodeBase64Chunk [charAtLookup lookup t 3, charAtLookup lookup t 2,
           charAtLookup lookup t 1, charAtLookup lookup t 0] alphabet extra = Inr [a, b, c]"
  using recombine_digits [of t] triplet_bytes [of a b c]
  by (simp add: decodeBase64Chunk_def t_def)

lemma low_digit_0: "t AND 255 = 0 \<Longrightarrow> t AND 63 = 0" for t :: nat
  using mod_mod_cancel [of 64 256 t] by (simp add: and_63 and_255)

lemma decode_chunk3:
  fixes a b :: byte
  defines "t \<equiv> push_bit 16 (unat a) + push_bit 8 (unat b)"
  shows "decodeBase64Chunk [charAtLookup lookup t 3, charAtLookup lookup t 2,
           charAtLookup lookup t 1] alphabet extra = Inr [a, b]"
proof -
  have t: "t = push_bit 16 (unat a) + push_bit 8 (unat b) + unat (0 :: byte)"
    by (simp add: t_def)
  have b: "t < 2 ^ 24" "drop_bit 16 t AND 255 = unat a" "drop_bit 8 t AND 255 = unat b"
    "t AND 255 = 0"
    using triplet_bytes [of a b 0] unfolding t [symmetric] by simp_all
  show ?thesis
    using recombine_digits [OF b(1)] low_digit_0 [OF b(4)] b
    by (simp add: decodeBase64Chunk_def)
qed

lemma decode_chunk2:
  fixes a :: byte
  defines "t \<equiv> push_bit 16 (unat a)"
  shows "decodeBase64Chunk [charAtLookup lookup t 3, charAtLookup lookup t 2] alphabet extra
       = Inr [a]"
proof -
  have t: "t = push_bit 16 (unat a) + push_bit 8 (unat (0 :: byte)) + unat (0 :: byte)"
    by (simp add: t_def)
  have b: "t < 2 ^ 24" "drop_bit 16 t AND 255 = unat a" "drop_bit 8 t AND 255 = 0"
    "t AND 255 = 0"
    using triplet_bytes [of a 0 0] unfolding t [symmetric] by simp_all
  have "drop_bit 6 t AND 63 = 0"
  proof -
    have "t = 4096 * (16 * unat a)" by (simp add: t_def push_bit_eq_mult)
    then have "t div 64 = 64 * (16 * unat a)" by simp
    then show ?thesis by (simp add: drop_bit_eq_div and_63)
  qed
  then show ?thesis
    using recombine_digits [OF b(1)] low_digit_0 [OF b(4)] b
    by (simp add: decodeBase64Chunk_def)
qed

section \<open>The decoder on encoded text\<close>

lemma skip_none: "index < length s \<Longrightarrow> \<not> is_ascii_ws (s ! index) \<Longrightarrow> skipAsciiWhitespace s index = index"
  "skipAsciiWhitespace s (length s) = length s"
  by (simp_all add: skipAsciiWhitespace.simps)

text \<open>One turn of the loop on an alphabet character.\<close>

lemma loop_char:
  assumes "drop index s = lookup ! i # rest" "i < 64" "length chunk < 4"
    and "length bs + 3 < maxLength"
  shows "fromBase64_loop s alphabet lch maxLength index chunk bs read =
    (if length chunk = 3
     then rbind (decodeBase64Chunk (chunk @ [lookup ! i]) alphabet False) (\<lambda>b.
       if length (bs @ b) = maxLength then Inr \<lparr>res_bytes = bs @ b, res_read = Suc index\<rparr>
       else fromBase64_loop s alphabet lch maxLength (Suc index) [] (bs @ b) (Suc index))
     else fromBase64_loop s alphabet lch maxLength (Suc index) (chunk @ [lookup ! i]) bs read)"
proof -
  have i: "index < length s" "s ! index = lookup ! i"
    using assms(1) by (metis drop_all list.distinct(1) not_le, metis assms(1) hd_drop_conv_nth
        list.sel(1) drop_all list.distinct(1) not_le)
  then have "skipAsciiWhitespace s index = index"
    using not_space [OF assms(2)] by (simp add: skip_none)
  moreover have "maxLength - length bs \<noteq> 1" "maxLength - length bs \<noteq> 2"
    and "Suc (length chunk) = 4 \<longleftrightarrow> length chunk = 3"
    using assms(4) by auto
  ultimately show ?thesis
    using i not_pad [OF assms(2)] has_digit [OF assms(2)]
    by (subst fromBase64_loop.simps) (simp add: Let_def)
qed

text \<open>The same for a character of an encoded triplet, then four of them.\<close>

lemma loop_digit:
  assumes "drop index s = charAtLookup lookup t n # rest" "length chunk < 4"
    and "length bs + 3 < maxLength"
  shows "fromBase64_loop s alphabet lch maxLength index chunk bs read =
    (if length chunk = 3
     then rbind (decodeBase64Chunk (chunk @ [charAtLookup lookup t n]) alphabet False) (\<lambda>b.
       if length (bs @ b) = maxLength then Inr \<lparr>res_bytes = bs @ b, res_read = Suc index\<rparr>
       else fromBase64_loop s alphabet lch maxLength (Suc index) [] (bs @ b) (Suc index))
     else fromBase64_loop s alphabet lch maxLength (Suc index)
            (chunk @ [charAtLookup lookup t n]) bs read)"
  unfolding charAtLookup_def
  by (rule loop_char) (use assms in \<open>simp_all add: charAtLookup_def and_63\<close>)

lemma drop_Suc_Cons: "drop index s = x # xs \<Longrightarrow> drop (Suc index) s = xs"
  by (metis drop_Suc list.sel(3) tl_drop)

lemma loop_triplet:
  fixes a b c :: byte
  defines "t \<equiv> push_bit 16 (unat a) + push_bit 8 (unat b) + unat c"
  assumes d: "drop index s = charAtLookup lookup t 3 # charAtLookup lookup t 2 #
      charAtLookup lookup t 1 # charAtLookup lookup t 0 # rest"
    and m: "length bs + 3 < maxLength"
  shows "fromBase64_loop s alphabet lch maxLength index [] bs read =
     fromBase64_loop s alphabet lch maxLength (index + 4) [] (bs @ [a, b, c]) (index + 4)"
proof -
  note d1 = drop_Suc_Cons [OF d] note d2 = drop_Suc_Cons [OF d1] note d3 = drop_Suc_Cons [OF d2]
  have "decodeBase64Chunk [charAtLookup lookup t 3, charAtLookup lookup t 2,
           charAtLookup lookup t 1, charAtLookup lookup t 0] alphabet False = Inr [a, b, c]"
    unfolding t_def by (rule decode_chunk4)
  then show ?thesis
    using m by (simp add: loop_digit [OF d _ m] loop_digit [OF d1 _ m] loop_digit [OF d2 _ m]
        loop_digit [OF d3 _ m] eval_nat_numeral)
qed

lemma loop_end:
  assumes "length chunk \<noteq> 1" "chunk \<noteq> [] \<Longrightarrow> lch = ''loose''"
    "decodeBase64Chunk chunk alphabet False = Inr b" "chunk = [] \<Longrightarrow> b = []"
  shows "fromBase64_loop s alphabet lch maxLength (length s) chunk bs read =
    Inr \<lparr>res_bytes = bs @ b, res_read = length s\<rparr>"
  using assms by (cases "chunk = []") (simp_all add: fromBase64_loop.simps skip_none)

lemma loop_pad:
  assumes "drop index s = pad" "pad = (if length chunk = 2 then ''=='' else ''='')"
    and "length chunk \<in> {2, 3}" "decodeBase64Chunk chunk alphabet (lch = ''strict'') = Inr b"
  shows "fromBase64_loop s alphabet lch maxLength index chunk bs read =
    Inr \<lparr>res_bytes = bs @ b, res_read = length s\<rparr>"
proof -
  have len: "length s = index + length pad"
    using assms(1,2) by (metis add_diff_inverse_nat drop_all length_drop less_imp_le list.distinct(1))
  have "s ! (index + k) = pad ! k" if "k < length pad" for k
    using assms(1) len that by (metis le_add1 nth_drop)
  from this [of 0] this [of 1] have nth: "s ! index = CHR ''=''"
    "length chunk = 2 \<Longrightarrow> s ! Suc index = CHR ''=''"
    using assms(2) by (auto split: if_splits)
  have sk: "skipAsciiWhitespace s index = index"
    using nth len assms(2) by (intro skip_none) (auto simp: is_ascii_ws_def split: if_splits)
  have sk1: "length chunk = 2 \<Longrightarrow> skipAsciiWhitespace s (Suc index) = Suc index"
    using nth len assms(2) by (intro skip_none) (auto simp: is_ascii_ws_def split: if_splits)
  show ?thesis
  proof (cases "length chunk = 2")
    case True
    moreover from this have "length s = Suc (Suc index)" using len assms(2) by simp
    moreover from this have "skipAsciiWhitespace s (Suc (Suc index)) = Suc (Suc index)"
      using skip_none(2) [of s] by simp
    ultimately show ?thesis
      using assms(4) nth sk sk1 by (subst fromBase64_loop.simps) (simp add: Let_def)
  next
    case False
    moreover from this have "length s = Suc index" using len assms(2) by simp
    moreover from this have "skipAsciiWhitespace s (Suc index) = Suc index"
      using skip_none(2) [of s] by simp
    ultimately show ?thesis
      using assms(3,4) nth sk by (subst fromBase64_loop.simps) (simp add: Let_def)
  qed
qed

text \<open>The loop on the rest of an encoded text returns the rest of the bytes.\<close>

lemma loop_roundtrip:
  assumes "drop index s = toBase64_loop lookup omitPadding xs"
    and "length bs + length xs + 3 < maxLength"
    and "omitPadding \<Longrightarrow> lch = ''loose''" and "index \<le> length s"
  shows "fromBase64_loop s alphabet lch maxLength index [] bs read =
    Inr \<lparr>res_bytes = bs @ xs, res_read = length s\<rparr>"
  using assms

proof (induction xs arbitrary: index bs read rule: triples_induct)
  case Nil
  then have "index = length s" by simp
  then show ?case by (simp add: fromBase64_loop.simps skip_none)
next
  case (One a)
  let ?t = "push_bit 16 (unat a)"
  let ?pad = "if omitPadding then '''' else ''==''"
  have m: "length bs + 3 < maxLength" using One by simp
  have d: "drop index s = charAtLookup lookup ?t 3 # charAtLookup lookup ?t 2 # ?pad"
    using One by (simp add: Let_def)
  note d1 = drop_Suc_Cons [OF d] note d2 = drop_Suc_Cons [OF d1]
  have i: "index + 2 \<le> length s" using arg_cong [where f = length, OF d] by simp
  show ?case
  proof (cases omitPadding)
    case True
    with d2 i have "length s = Suc (Suc index)" by simp
    with True One.prems(3) m show ?thesis
      using loop_end [of "[charAtLookup lookup ?t 3, charAtLookup lookup ?t 2]" lch "[a]" s]
      by (simp add: loop_digit [OF d _ m] loop_digit [OF d1 _ m] decode_chunk2)
  next
    case False
    with d2 m show ?thesis
      by (simp add: loop_digit [OF d _ m] loop_digit [OF d1 _ m] loop_pad decode_chunk2)
  qed
next
  case (Two a b)
  let ?t = "push_bit 16 (unat a) + push_bit 8 (unat b)"
  let ?pad = "if omitPadding then '''' else ''=''"
  have m: "length bs + 3 < maxLength" using Two by simp
  have d: "drop index s = charAtLookup lookup ?t 3 # charAtLookup lookup ?t 2
      # charAtLookup lookup ?t 1 # ?pad"
    using Two by (simp add: Let_def)
  note d1 = drop_Suc_Cons [OF d] note d2 = drop_Suc_Cons [OF d1] note d3 = drop_Suc_Cons [OF d2]
  have i: "index + 3 \<le> length s" using arg_cong [where f = length, OF d] by simp
  note steps = loop_digit [OF d _ m] loop_digit [OF d1 _ m] loop_digit [OF d2 _ m]
  show ?case
  proof (cases omitPadding)
    case True
    with d3 i have "length s = Suc (Suc (Suc index))" by simp
    with True Two.prems(3) m show ?thesis
      using loop_end [of "[charAtLookup lookup ?t 3, charAtLookup lookup ?t 2,
          charAtLookup lookup ?t 1]" lch "[a, b]" s] decode_chunk3 [of a b]
      by (simp add: steps)
  next
    case False
    with d3 m show ?thesis using decode_chunk3 [of a b] by (simp add: steps loop_pad)
  qed
next
  case (Three a b c rest)
  let ?t = "push_bit 16 (unat a) + push_bit 8 (unat b) + unat c"
  have d: "drop index s = charAtLookup lookup ?t 3 # charAtLookup lookup ?t 2 #
      charAtLookup lookup ?t 1 # charAtLookup lookup ?t 0 # toBase64_loop lookup omitPadding rest"
    using Three by (simp add: Let_def)
  have "drop (index + 4) s = toBase64_loop lookup omitPadding rest"
    using drop_Suc_Cons [OF drop_Suc_Cons [OF drop_Suc_Cons [OF drop_Suc_Cons [OF d]]]]
    by (simp add: numeral_eq_Suc)
  moreover have "index + 4 \<le> length s" using arg_cong [where f = length, OF d] by simp
  ultimately show ?case
    using Three.prems Three.IH [of "index + 4" "bs @ [a, b, c]" "index + 4"]
    by (simp add: loop_triplet [OF d])
qed

end

section \<open>The two alphabets\<close>

text \<open>The facts the interface asks of a table, as a check over its 64 positions.\<close>

definition alphabet_check :: "string \<Rightarrow> (char \<times> nat) list \<Rightarrow> bool" where
  "alphabet_check lookup alphabet \<longleftrightarrow>
     list_all (\<lambda>i. map_get alphabet (lookup ! i) = Some i \<and> \<not> is_ascii_ws (lookup ! i)
                   \<and> lookup ! i \<noteq> CHR ''='') [0..<64]
     \<and> map_get alphabet (CHR ''A'') = Some 0"

lemma alphabet_checkD: "alphabet_check lookup alphabet \<Longrightarrow> base64_alphabet lookup alphabet"
  by unfold_locales (auto simp: alphabet_check_def list_all_iff)

lemma check_standard: "alphabet_check base64Alphabet c2i"
  by code_simp

lemma check_url: "alphabet_check base64UrlAlphabet c2iUrl"
  by code_simp

interpretation std: base64_alphabet base64Alphabet c2i
  by (rule alphabet_checkD) (rule check_standard)

interpretation url: base64_alphabet base64UrlAlphabet c2iUrl
  by (rule alphabet_checkD) (rule check_url)

lemma core_roundtrip:
  assumes "toBase64 enc bs = Inr s" and "opt_alphabet dec = opt_alphabet enc"
    and "opt_lastChunkHandling dec \<in> {None, Some ''loose'', Some ''strict'', Some ''stop-before-partial''}"
    and "opt_omitPadding enc \<Longrightarrow> opt_lastChunkHandling dec \<in> {None, Some ''loose''}"
    and "length bs + 3 < maxLength"
  shows "fromBase64_core s dec maxLength = Inr \<lparr>res_bytes = bs, res_read = length s\<rparr>"
proof -
  obtain name where name: "getAlphabetOption enc = Inr name" "getAlphabetOption dec = Inr name"
    and s: "s = toBase64_loop (if name = ''base64'' then base64Alphabet else base64UrlAlphabet)
                  (opt_omitPadding enc) bs"
    using assms(1,2) by (auto simp: toBase64_def rbind_eq_Inr getAlphabetOption_def
        split: option.splits if_splits)
  have loose: "opt_omitPadding enc \<Longrightarrow>
      (case opt_lastChunkHandling dec of None \<Rightarrow> ''loose'' | Some h \<Rightarrow> h) = ''loose''"
    using assms(4) by auto
  have m: "length ([] :: bytes) + length bs + 3 < maxLength" using assms(5) by simp
  note std' = std.loop_roundtrip [OF _ m loose, where index = 0]
    and url' = url.loop_roundtrip [OF _ m loose, where index = 0]
  show ?thesis
  proof (cases "name = ''base64''")
    case True
    then show ?thesis using name s assms(3,5) std' by (auto simp: fromBase64_core_def)
  next
    case False
    then show ?thesis using name s assms(3,5) url' by (auto simp: fromBase64_core_def)
  qed
qed

section \<open>Properties\<close>

text \<open>C26: Decoding what was encoded returns the bytes, for both alphabets and every length the code can
  hold: with padding in every mode of the last chunk, and without padding in the loose mode, which is
  the default.  (Without padding the other two modes need not take back what was written.)\<close>

theorem base64_roundtrip:
  assumes "toBase64 enc bs = Inr s" and "opt_alphabet dec = opt_alphabet enc"
    and "opt_lastChunkHandling dec \<in> {None, Some ''loose'', Some ''strict'', Some ''stop-before-partial''}"
    and "opt_omitPadding enc \<Longrightarrow> opt_lastChunkHandling dec \<in> {None, Some ''loose''}"
    and "length bs + 3 < MAX_SAFE_INTEGER"
  shows "fromBase64 s dec = Inr bs"
  using core_roundtrip [OF assms] by (simp add: fromBase64_def)

theorem base64_roundtrip_witness:
  "toBase64 no_options [0xFB, 0xFF, 1, 2] = Inr ''+/8BAg==''
   \<and> fromBase64 ''+/8BAg=='' no_options = Inr [0xFB, 0xFF, 1, 2]"
proof -
  have "toBase64 no_options [0xFB, 0xFF, 1, 2] = Inr ''+/8BAg==''"
    by (simp add: toBase64_def no_options_def getAlphabetOption_def charAtLookup_def
        base64Alphabet_def commonAlphabet_def push_bit_eq_mult drop_bit_eq_div and_63)
  moreover from base64_roundtrip [OF this, of no_options]
  have "fromBase64 ''+/8BAg=='' no_options = Inr [0xFB, 0xFF, 1, 2]"
    by (simp add: no_options_def MAX_SAFE_INTEGER_def)
  ultimately show ?thesis by simp
qed

end
