(* ===== verification/Bootstrap_Gate.thy ===== *)
theory Bootstrap_Gate
  imports Js_Prelude "HOL-Library.Multiset"
begin

text \<open>
  The bootstrap gate of the bridge (\<open>content/isolated/bootstrap-lifetime.js\<close>): how a
  \<open>MessagePort\<close> posted by a window becomes the channel of the document in it.  A transition holds
  the candidates of one window; a candidate is probed with a challenge, and the first live one is
  promoted when the document it replaces is cleaned up and the browser still gives the window the
  same identity.  The dependencies \<open>bridge.js\<close> passes in are modelled with it: the maps of
  reservations and contexts, \<open>acceptBootstrapPort\<close>, the synchronous part of
  \<open>destroyFrameContext\<close>, \<open>hasBrowserLifetime\<close> and \<open>sameBrowserLifetime\<close>.  What the browser
  decides at an event (identities, the challenge, a post that throws) is the event's \<open>gate_env\<close>.
\<close>

section \<open>Identities, candidates, transitions\<close>

type_synonym port_id = nat
type_synonym window_id = nat

record identity =
  id_frameId :: "nat option"
  id_documentId :: "string option"

definition hasBrowserLifetime :: "identity \<Rightarrow> bool" where
  "hasBrowserLifetime i \<longleftrightarrow> id_frameId i \<noteq> None \<and> id_documentId i \<noteq> None"

definition sameBrowserLifetime :: "identity \<Rightarrow> identity \<Rightarrow> bool" where
  "sameBrowserLifetime c i \<longleftrightarrow>
     id_frameId c \<noteq> None \<and> id_documentId c \<noteq> None
     \<and> id_frameId c = id_frameId i \<and> id_documentId c = id_documentId i"

record candidate =
  cd_sequence :: nat
  cd_port :: port_id
  cd_origin :: string
  cd_identity :: identity
  cd_challenge :: string
  cd_live :: bool
  cd_expired :: bool
  cd_closed :: bool

text \<open>\<open>tr_id\<close> stands for the identity of the transition object, \<open>tr_previous\<close> for the context it
  replaces.\<close>

record transition =
  tr_id :: nat
  tr_previous :: "nat option"
  tr_target :: identity
  tr_cleanupComplete :: bool
  tr_candidates :: "candidate list"
  tr_nextSequence :: nat

record gate_context =
  gc_generation :: nat
  gc_port :: port_id
  gc_origin :: string
  gc_identity :: identity

text \<open>What the gate did: the history its guarantees are stated on.\<close>

datatype gate_log =
    Received port_id window_id string
  | Started nat "nat option"
  | Probed port_id string
  | Proved port_id string
  | CleanedUp nat
  | Promoted nat port_id window_id string identity identity

record gate =
  gt_reservations :: "(window_id, transition) js_map"
  gt_contexts :: "(window_id, gate_context) js_map"
  gt_nextTransition :: nat
  gt_nextGeneration :: nat
  gt_received :: "port_id list"
  gt_rejected :: "port_id list"
  gt_accepted :: "port_id list"
  gt_log :: "gate_log list"

definition initial_gate :: gate where
  "initial_gate = \<lparr>gt_reservations = [], gt_contexts = [], gt_nextTransition = 0, gt_nextGeneration = 0,
     gt_received = [], gt_rejected = [], gt_accepted = [], gt_log = []\<rparr>"

text \<open>The browser at one event: the identity it gives a window, the challenge it draws, which posts
  throw.\<close>

record gate_env =
  identityOf :: "window_id \<Rightarrow> identity"
  drawnChallenge :: string
  probeThrows :: bool
  acceptedThrows :: bool

definition gate_note :: "gate_log \<Rightarrow> gate \<Rightarrow> gate" where
  "gate_note x s = s\<lparr>gt_log := gt_log s @ [x]\<rparr>"

definition rejectBootstrapPort :: "port_id \<Rightarrow> gate \<Rightarrow> gate" where
  "rejectBootstrapPort p s = s\<lparr>gt_rejected := gt_rejected s @ [p]\<rparr>"

definition closeCandidate :: "candidate \<Rightarrow> gate \<Rightarrow> gate" where
  "closeCandidate c s = (if cd_closed c then s else rejectBootstrapPort (cd_port c) s)"

definition closeCandidates :: "candidate list \<Rightarrow> gate \<Rightarrow> gate" where
  "closeCandidates cs s = fold closeCandidate cs s"

definition setReservation :: "window_id \<Rightarrow> transition \<Rightarrow> gate \<Rightarrow> gate" where
  "setReservation source tr s = s\<lparr>gt_reservations := map_set (gt_reservations s) source tr\<rparr>"

definition deleteReservation :: "window_id \<Rightarrow> gate \<Rightarrow> gate" where
  "deleteReservation source s = s\<lparr>gt_reservations := map_delete (gt_reservations s) source\<rparr>"

text \<open>A failed transition has no candidates left and is no longer the reservation of its source.\<close>

definition failTransition :: "window_id \<Rightarrow> candidate list \<Rightarrow> gate \<Rightarrow> gate" where
  "failTransition source cs s = deleteReservation source (closeCandidates cs s)"

definition acceptBootstrapPort ::
    "port_id \<Rightarrow> window_id \<Rightarrow> string \<Rightarrow> identity \<Rightarrow> gate \<Rightarrow> gate" where
  "acceptBootstrapPort p source origin i s =
     (let n = gt_nextGeneration s + 1
      in s\<lparr>gt_nextGeneration := n,
           gt_contexts := map_set (gt_contexts s) source
             \<lparr>gc_generation = n, gc_port = p, gc_origin = origin, gc_identity = i\<rparr>\<rparr>)"

text \<open>The synchronous part of \<open>destroyFrameContext\<close>: the window has no context any more.\<close>

definition destroyContext :: "window_id \<Rightarrow> gate \<Rightarrow> gate" where
  "destroyContext source s = s\<lparr>gt_contexts := map_delete (gt_contexts s) source\<rparr>"

section \<open>Promotion\<close>

text \<open>The loop of \<open>tryPromote\<close> over the candidates of the transition.\<close>

primrec promote_loop ::
    "gate_env \<Rightarrow> window_id \<Rightarrow> transition \<Rightarrow> candidate list \<Rightarrow> gate \<Rightarrow> gate" where
  "promote_loop env source tr [] s = setReservation source (tr\<lparr>tr_candidates := []\<rparr>) s"
| "promote_loop env source tr (head # rest) s =
     (if cd_expired head then promote_loop env source tr rest (closeCandidate head s)
      else if \<not> cd_live head \<or> \<not> tr_cleanupComplete tr
      then setReservation source (tr\<lparr>tr_candidates := head # rest\<rparr>) s
      else let current = identityOf env source
           in if \<not> hasBrowserLifetime current then failTransition source (head # rest) s
              else if \<not> sameBrowserLifetime (tr_target tr) current
              then setReservation source (tr\<lparr>tr_candidates := [], tr_target := current\<rparr>)
                     (closeCandidates (head # rest) s)
              else if \<not> sameBrowserLifetime (cd_identity head) (tr_target tr)
              then promote_loop env source tr rest (closeCandidate head s)
              else if acceptedThrows env
              then failTransition source rest (rejectBootstrapPort (cd_port head)
                     (destroyContext source
                       (acceptBootstrapPort (cd_port head) source (cd_origin head) (cd_identity head) s)))
              else let s1 = acceptBootstrapPort (cd_port head) source (cd_origin head) (cd_identity head) s;
                       s2 = gate_note (Promoted (tr_id tr) (cd_port head) source (cd_origin head)
                              (cd_identity head) current)
                              (s1\<lparr>gt_accepted := gt_accepted s1 @ [cd_port head]\<rparr>)
                   in deleteReservation source (closeCandidates rest s2))"

definition tryPromote :: "gate_env \<Rightarrow> window_id \<Rightarrow> nat \<Rightarrow> gate \<Rightarrow> gate" where
  "tryPromote env source tid s =
     (case map_get (gt_reservations s) source of
        None \<Rightarrow> s
      | Some tr \<Rightarrow> if tr_id tr = tid then promote_loop env source tr (tr_candidates tr) s else s)"

section \<open>Candidates\<close>

text \<open>The candidate of a sequence number is changed in place.\<close>

definition update_candidate :: "nat \<Rightarrow> (candidate \<Rightarrow> candidate) \<Rightarrow> transition \<Rightarrow> transition" where
  "update_candidate n f tr =
     tr\<lparr>tr_candidates := map (\<lambda>c. if cd_sequence c = n then f c else c) (tr_candidates tr)\<rparr>"

definition addCandidate ::
    "gate_env \<Rightarrow> window_id \<Rightarrow> transition \<Rightarrow> port_id \<Rightarrow> string \<Rightarrow> identity \<Rightarrow> gate \<Rightarrow> gate" where
  "addCandidate env source tr p origin i s =
     (let n = tr_nextSequence tr;
          c = \<lparr>cd_sequence = n, cd_port = p, cd_origin = origin, cd_identity = i,
               cd_challenge = drawnChallenge env, cd_live = False, cd_expired = False, cd_closed = False\<rparr>;
          tr1 = tr\<lparr>tr_nextSequence := n + 1, tr_candidates := tr_candidates tr @ [c]\<rparr>
      in if probeThrows env
         then tryPromote env source (tr_id tr)
                (setReservation source (update_candidate n (\<lambda>c. c\<lparr>cd_expired := True, cd_closed := True\<rparr>) tr1)
                  (closeCandidate c s))
         else setReservation source tr1 (gate_note (Probed p (drawnChallenge env)) s))"

definition startTransition ::
    "gate_env \<Rightarrow> window_id \<Rightarrow> port_id \<Rightarrow> string \<Rightarrow> identity \<Rightarrow> gate_context option \<Rightarrow> gate \<Rightarrow> gate" where
  "startTransition env source p origin i previous s =
     (let tid = gt_nextTransition s;
          tr = \<lparr>tr_id = tid, tr_previous = map_option gc_generation previous, tr_target = i,
                tr_cleanupComplete = (previous = None), tr_candidates = [], tr_nextSequence = 0\<rparr>;
          s1 = gate_note (Started tid (map_option gc_generation previous)) (s\<lparr>gt_nextTransition := tid + 1\<rparr>);
          s2 = addCandidate env source tr p origin i (setReservation source tr s1)
      in if previous = None then s2 else destroyContext source s2)"

section \<open>The events of the gate\<close>

record bootstrap_message =
  bm_dataIsNull :: bool
  bm_ports :: "port_id list"
  bm_source :: "window_id option"
  bm_origin :: string

definition handleBootstrap :: "gate_env \<Rightarrow> bootstrap_message \<Rightarrow> gate \<Rightarrow> gate" where
  "handleBootstrap env m s0 =
     (let s = s0\<lparr>gt_received := gt_received s0 @ bm_ports m\<rparr>
      in case (bm_ports m, bm_source m) of
           ([p], Some source) \<Rightarrow>
             if \<not> bm_dataIsNull m then rejectBootstrapPort p s
             else
               let i = identityOf env source;
                   s1 = gate_note (Received p source (bm_origin m)) s
               in if \<not> hasBrowserLifetime i then rejectBootstrapPort p s1
                  else (case map_get (gt_reservations s1) source of
                          Some tr \<Rightarrow>
                            if sameBrowserLifetime (tr_target tr) i
                            then if \<exists>c \<in> set (tr_candidates tr). cd_live c then rejectBootstrapPort p s1
                                 else addCandidate env source tr p (bm_origin m) i s1
                            else addCandidate env source (tr\<lparr>tr_candidates := [], tr_target := i\<rparr>)
                                   p (bm_origin m) i (closeCandidates (tr_candidates tr) s1)
                        | None \<Rightarrow>
                            (case map_get (gt_contexts s1) source of
                               Some previous \<Rightarrow>
                                 if sameBrowserLifetime (gc_identity previous) i
                                    \<or> \<not> hasBrowserLifetime (gc_identity previous)
                                 then rejectBootstrapPort p s1
                                 else startTransition env source p (bm_origin m) i (Some previous) s1
                             | None \<Rightarrow> startTransition env source p (bm_origin m) i None s1))
         | _ \<Rightarrow> fold rejectBootstrapPort (bm_ports m) s)"

text \<open>A message on the port of an open candidate, the deadline of a candidate, the end of the cleanup
  of the previous context.  A closed candidate has neither handler nor deadline.\<close>

definition probeAnswered :: "gate_env \<Rightarrow> window_id \<Rightarrow> nat \<Rightarrow> nat \<Rightarrow> string \<Rightarrow> gate \<Rightarrow> gate" where
  "probeAnswered env source tid n answer s =
     (case map_get (gt_reservations s) source of
        None \<Rightarrow> s
      | Some tr \<Rightarrow>
          if tr_id tr \<noteq> tid then s
          else (case find (\<lambda>c. cd_sequence c = n) (tr_candidates tr) of
                  None \<Rightarrow> s
                | Some c \<Rightarrow>
                    if \<not> cd_closed c \<and> \<not> cd_expired c \<and> answer = cd_challenge c
                    then tryPromote env source tid
                           (setReservation source (update_candidate n (\<lambda>c. c\<lparr>cd_live := True\<rparr>) tr)
                             (gate_note (Proved (cd_port c) answer) s))
                    else s))"

definition probeTimedOut :: "gate_env \<Rightarrow> window_id \<Rightarrow> nat \<Rightarrow> nat \<Rightarrow> gate \<Rightarrow> gate" where
  "probeTimedOut env source tid n s =
     (case map_get (gt_reservations s) source of
        None \<Rightarrow> s
      | Some tr \<Rightarrow>
          if tr_id tr \<noteq> tid then s
          else (case find (\<lambda>c. cd_sequence c = n) (tr_candidates tr) of
                  None \<Rightarrow> s
                | Some c \<Rightarrow>
                    if cd_expired c \<or> cd_live c \<or> cd_closed c then s
                    else tryPromote env source tid
                           (setReservation source
                             (update_candidate n (\<lambda>c. c\<lparr>cd_expired := True, cd_closed := True\<rparr>) tr)
                             (closeCandidate c s))))"

definition cleanupDone :: "gate_env \<Rightarrow> window_id \<Rightarrow> nat \<Rightarrow> bool \<Rightarrow> gate \<Rightarrow> gate" where
  "cleanupDone env source tid ok s =
     (case map_get (gt_reservations s) source of
        None \<Rightarrow> s
      | Some tr \<Rightarrow>
          if tr_id tr \<noteq> tid then s
          else if ok
          then tryPromote env source tid
                 (setReservation source (tr\<lparr>tr_cleanupComplete := True\<rparr>) (gate_note (CleanedUp tid) s))
          else failTransition source (tr_candidates tr) s)"

datatype gate_event =
    Bootstrap gate_env bootstrap_message
  | ProbeAnswer gate_env window_id nat nat string
  | ProbeTimeout gate_env window_id nat nat
  | Cleanup gate_env window_id nat bool
  | ContextGone window_id

fun gate_step :: "gate_event \<Rightarrow> gate \<Rightarrow> gate" where
  "gate_step (Bootstrap env m) s = handleBootstrap env m s"
| "gate_step (ProbeAnswer env source tid n answer) s = probeAnswered env source tid n answer s"
| "gate_step (ProbeTimeout env source tid n) s = probeTimedOut env source tid n s"
| "gate_step (Cleanup env source tid ok) s = cleanupDone env source tid ok s"
| "gate_step (ContextGone source) s = destroyContext source s"

section \<open>The invariant\<close>

definition open_of :: "candidate list \<Rightarrow> port_id list" where
  "open_of cs = map cd_port (filter (\<lambda>c. \<not> cd_closed c) cs)"

definition open_ports :: "(window_id, transition) js_map \<Rightarrow> port_id list" where
  "open_ports m = concat (map (\<lambda>e. open_of (tr_candidates (snd e))) m)"

definition cand_ok :: "gate_log set \<Rightarrow> window_id \<Rightarrow> candidate \<Rightarrow> bool" where
  "cand_ok L w c \<longleftrightarrow>
     cd_closed c = cd_expired c \<and> Received (cd_port c) w (cd_origin c) \<in> L
     \<and> (cd_expired c \<or> Probed (cd_port c) (cd_challenge c) \<in> L)
     \<and> (cd_live c \<longrightarrow> \<not> cd_expired c \<and> Proved (cd_port c) (cd_challenge c) \<in> L)"

definition tr_ok :: "gate_log set \<Rightarrow> window_id \<Rightarrow> transition \<Rightarrow> bool" where
  "tr_ok L w tr \<longleftrightarrow>
     (\<forall>c \<in> set (tr_candidates tr). cand_ok L w c \<and> cd_sequence c < tr_nextSequence tr)
     \<and> distinct (map cd_sequence (tr_candidates tr))
     \<and> Started (tr_id tr) (tr_previous tr) \<in> L
     \<and> (tr_cleanupComplete tr \<longrightarrow> tr_previous tr = None \<or> CleanedUp (tr_id tr) \<in> L)"

text \<open>What a promotion in the history rests on.\<close>

fun promoted_ok :: "gate_log set \<Rightarrow> gate_log \<Rightarrow> bool" where
  "promoted_ok L (Promoted tid p w origin i current) \<longleftrightarrow>
     sameBrowserLifetime i current \<and> Received p w origin \<in> L
     \<and> (\<exists>c. Probed p c \<in> L \<and> Proved p c \<in> L)
     \<and> (\<exists>previous. Started tid previous \<in> L \<and> (previous = None \<or> CleanedUp tid \<in> L))"
| "promoted_ok L _ \<longleftrightarrow> True"

text \<open>\<open>X\<close>: the windows that may have a transition and a context at once.\<close>

definition gate_inv :: "window_id set \<Rightarrow> gate \<Rightarrow> bool" where
  "gate_inv X s \<longleftrightarrow>
     map_wf (gt_reservations s) \<and> map_wf (gt_contexts s)
     \<and> (\<forall>w tr. map_get (gt_reservations s) w = Some tr \<longrightarrow> tr_ok (set (gt_log s)) w tr)
     \<and> (\<forall>x \<in> set (gt_log s). promoted_ok (set (gt_log s)) x)
     \<and> set (map_keys (gt_reservations s)) \<inter> set (map_keys (gt_contexts s)) \<subseteq> X
     \<and> mset (gt_received s) = mset (gt_rejected s) + mset (gt_accepted s) + mset (open_ports (gt_reservations s))"

text \<open>The same while an operation holds the transition of one window, with the open ports in hand.\<close>

definition gate_hand :: "window_id set \<Rightarrow> window_id \<Rightarrow> port_id list \<Rightarrow> gate \<Rightarrow> bool" where
  "gate_hand X w ps s \<longleftrightarrow>
     map_wf (gt_reservations s) \<and> map_wf (gt_contexts s)
     \<and> (\<forall>v tr. v \<noteq> w \<and> map_get (gt_reservations s) v = Some tr \<longrightarrow> tr_ok (set (gt_log s)) v tr)
     \<and> (\<forall>x \<in> set (gt_log s). promoted_ok (set (gt_log s)) x)
     \<and> (set (map_keys (gt_reservations s)) - {w}) \<inter> set (map_keys (gt_contexts s)) \<subseteq> X
     \<and> mset (gt_received s) = mset (gt_rejected s) + mset (gt_accepted s) + mset ps
         + mset (open_ports (map_delete (gt_reservations s) w))"

lemma tr_ok_mono: "tr_ok L w tr \<Longrightarrow> L \<subseteq> M \<Longrightarrow> tr_ok M w tr"
  unfolding tr_ok_def cand_ok_def by blast

lemma promoted_ok_mono: "promoted_ok L x \<Longrightarrow> L \<subseteq> M \<Longrightarrow> promoted_ok M x"
  by (cases x) (simp_all, blast)

lemma open_of_simps [simp]: "open_of [] = []"
  "open_of (c # cs) = (if cd_closed c then open_of cs else cd_port c # open_of cs)"
  "open_of (cs @ ds) = open_of cs @ open_of ds"
  by (simp_all add: open_of_def)

lemma open_ports_delete:
  "map_wf m \<Longrightarrow> map_get m w = Some tr \<Longrightarrow>
   mset (open_ports m) = mset (open_of (tr_candidates tr)) + mset (open_ports (map_delete m w))"
proof (induction m)
  case (Cons e m)
  show ?case
  proof (cases "fst e = w")
    case True
    with Cons.prems have "map_delete m w = m" by (auto simp: delete_idem)
    with True Cons.prems show ?thesis by (cases e) (auto simp: AList.delete_eq open_ports_def)
  next
    case False
    with Cons show ?thesis by (cases e) (auto simp: AList.delete_eq open_ports_def)
  qed
qed simp

lemma delete_set: "map_delete (map_set m k v) k = map_delete m k"
  by (induction m) auto

lemma open_ports_set:
  assumes "map_wf m"
  shows "mset (open_ports (map_set m w tr)) = mset (open_of (tr_candidates tr)) + mset (open_ports (map_delete m w))"
proof -
  have "map_get (map_set m w tr) w = Some tr" by (simp add: js_map_simps)
  then show ?thesis
    using open_ports_delete [of "map_set m w tr" w tr] map_wf_set [OF assms, of w tr] by (simp add: delete_set)
qed

lemma hand_of_inv:
  assumes "gate_inv X s"
  shows "map_get (gt_reservations s) w = Some tr \<Longrightarrow> gate_hand X w (open_of (tr_candidates tr)) s"
    and "map_get (gt_reservations s) w = Some tr \<Longrightarrow> tr_ok (set (gt_log s)) w tr"
    and "map_get (gt_reservations s) w = None \<Longrightarrow> gate_hand X w [] s"
proof -
  have wf: "map_wf (gt_reservations s)" using assms by (simp add: gate_inv_def)
  show "gate_hand X w (open_of (tr_candidates tr)) s" if "map_get (gt_reservations s) w = Some tr"
    using assms open_ports_delete [OF wf that] by (auto simp: gate_inv_def gate_hand_def)
  show "tr_ok (set (gt_log s)) w tr" if "map_get (gt_reservations s) w = Some tr"
    using assms that by (simp add: gate_inv_def)
  show "gate_hand X w [] s" if "map_get (gt_reservations s) w = None"
  proof -
    from that have "map_delete (gt_reservations s) w = gt_reservations s"
      by (simp add: delete_idem map_of_eq_None_iff)
    with assms show ?thesis by (auto simp: gate_inv_def gate_hand_def)
  qed
qed

lemma inv_setReservation:
  assumes "gate_hand X w (open_of (tr_candidates tr)) s" "tr_ok (set (gt_log s)) w tr"
    "w \<in> set (map_keys (gt_contexts s)) \<longrightarrow> w \<in> X"
  shows "gate_inv X (setReservation w tr s)"
proof -
  have wf: "map_wf (gt_reservations s)" using assms by (simp add: gate_hand_def)
  have "set (map_keys (map_set (gt_reservations s) w tr)) \<inter> set (map_keys (gt_contexts s)) \<subseteq> X"
    using assms(1,3) unfolding keys_map_set gate_hand_def by blast
  then show ?thesis
    using assms(1,2) open_ports_set [OF wf, of w tr] map_wf_set [OF wf, of w tr]
    by (simp add: gate_inv_def gate_hand_def setReservation_def js_map_simps)
qed

lemma inv_deleteReservation:
  assumes "gate_hand X w [] s"
  shows "gate_inv X (deleteReservation w s)"
proof -
  have "set (map_keys (map_delete (gt_reservations s) w)) \<inter> set (map_keys (gt_contexts s)) \<subseteq> X"
    using assms unfolding keys_map_delete gate_hand_def by blast
  then show ?thesis
    using assms map_wf_delete [of "gt_reservations s" w]
    by (simp add: gate_inv_def gate_hand_def deleteReservation_def js_map_simps)
qed

lemma hand_reject:
  "gate_hand X w (p # ps) s \<Longrightarrow> gate_hand X w ps (rejectBootstrapPort p s)"
  by (simp add: gate_hand_def rejectBootstrapPort_def)

lemma hand_close:
  "gate_hand X w (open_of (c # cs)) s \<Longrightarrow> gate_hand X w (open_of cs) (closeCandidate c s)"
  using hand_reject [of X w "cd_port c" "open_of cs" s] by (simp add: closeCandidate_def split: if_splits)

lemma log_close [simp]: "gt_log (rejectBootstrapPort p s) = gt_log s" "gt_log (closeCandidate c s) = gt_log s"
  "gt_contexts (rejectBootstrapPort p s) = gt_contexts s" "gt_contexts (closeCandidate c s) = gt_contexts s"
  "gt_reservations (rejectBootstrapPort p s) = gt_reservations s"
  "gt_reservations (closeCandidate c s) = gt_reservations s"
  by (simp_all add: closeCandidate_def rejectBootstrapPort_def)

lemma log_closes [simp]: "gt_log (closeCandidates cs s) = gt_log s"
  "gt_contexts (closeCandidates cs s) = gt_contexts s"
  "gt_reservations (closeCandidates cs s) = gt_reservations s"
  unfolding closeCandidates_def by (induction cs arbitrary: s) simp_all

lemma hand_closes: "gate_hand X w (open_of cs) s \<Longrightarrow> gate_hand X w [] (closeCandidates cs s)"
  unfolding closeCandidates_def
proof (induction cs arbitrary: s)
  case (Cons c cs)
  from Cons.IH [OF hand_close [OF Cons.prems]] show ?case by simp
qed simp

lemma hand_closes_more:
  "gate_hand X w (open_of cs @ ps) s \<Longrightarrow> gate_hand X w ps (closeCandidates cs s)"
  unfolding closeCandidates_def
proof (induction cs arbitrary: s)
  case (Cons c cs)
  have "gate_hand X w (open_of cs @ ps) (closeCandidate c s)"
    using Cons.prems hand_reject [of X w "cd_port c" "open_of cs @ ps" s]
    by (simp add: closeCandidate_def split: if_splits)
  from Cons.IH [OF this] show ?case by simp
qed simp

lemma inv_failTransition: "gate_hand X w (open_of cs) s \<Longrightarrow> gate_inv X (failTransition w cs s)"
  unfolding failTransition_def by (intro inv_deleteReservation hand_closes)

lemma hand_note:
  "gate_hand X w ps s \<Longrightarrow> promoted_ok (insert x (set (gt_log s))) x \<Longrightarrow> gate_hand X w ps (gate_note x s)"
  unfolding gate_hand_def gate_note_def
  by (auto intro: tr_ok_mono [of "set (gt_log s)"] promoted_ok_mono [of "set (gt_log s)"])

lemma hand_accept: "gate_hand X w ps s \<Longrightarrow> gate_hand X w ps (acceptBootstrapPort p w origin i s)"
  using map_wf_set [of "gt_contexts s" w]
  by (auto simp add: gate_hand_def acceptBootstrapPort_def Let_def keys_map_set simp del: set_map)

lemma hand_destroy: "gate_hand X w ps s \<Longrightarrow> gate_hand X w ps (destroyContext w s)"
  using map_wf_delete [of "gt_contexts s" w]
  by (auto simp add: gate_hand_def destroyContext_def keys_map_delete simp del: set_map)

lemma sameBrowserLifetime_trans:
  "sameBrowserLifetime a b \<Longrightarrow> sameBrowserLifetime b c \<Longrightarrow> sameBrowserLifetime a c"
  by (auto simp: sameBrowserLifetime_def)

lemma tr_ok_tail: "tr_ok L w (tr\<lparr>tr_candidates := c # cs\<rparr>) \<Longrightarrow> tr_ok L w (tr\<lparr>tr_candidates := cs\<rparr>)"
  "tr_ok L w (tr\<lparr>tr_candidates := cs\<rparr>) \<Longrightarrow> tr_ok L w (tr\<lparr>tr_candidates := [], tr_target := i\<rparr>)"
  by (simp_all add: tr_ok_def)

lemma inv_promote_loop:
  assumes "gate_hand X w (open_of cs) s" "tr_ok (set (gt_log s)) w (tr\<lparr>tr_candidates := cs\<rparr>)"
    "w \<in> set (map_keys (gt_contexts s)) \<longrightarrow> w \<in> X"
  shows "gate_inv X (promote_loop env w tr cs s)"
  using assms
proof (induction cs arbitrary: s)
  case Nil
  then show ?case by (simp add: inv_setReservation)
next
  case (Cons c cs)
  have skip: "gate_inv X (promote_loop env w tr cs (closeCandidate c s))"
    using Cons.IH [of "closeCandidate c s"] hand_close [OF Cons.prems(1)] tr_ok_tail(1) [OF Cons.prems(2)]
      Cons.prems(3) by simp
  have wait: "gate_inv X (setReservation w (tr\<lparr>tr_candidates := c # cs\<rparr>) s)"
    by (rule inv_setReservation) (use Cons.prems in simp_all)
  have fresh: "gate_inv X (setReservation w (tr\<lparr>tr_candidates := [], tr_target := i\<rparr>) (closeCandidates (c # cs) s))" for i
    by (rule inv_setReservation)
      (use Cons.prems tr_ok_tail(2) [OF Cons.prems(2)] hand_closes [OF Cons.prems(1)] in simp_all)
  have cand: "cand_ok (set (gt_log s)) w c" using Cons.prems(2) by (simp add: tr_ok_def)
  have promoted: "gate_inv X (promote_loop env w tr (c # cs) s)"
    if "\<not> cd_expired c" "cd_live c" "tr_cleanupComplete tr" "hasBrowserLifetime (identityOf env w)"
      "sameBrowserLifetime (tr_target tr) (identityOf env w)" "sameBrowserLifetime (cd_identity c) (tr_target tr)"
  proof -
    have "\<not> cd_closed c" using cand that(1) by (simp add: cand_ok_def)
    with Cons.prems(1) have hand: "gate_hand X w (cd_port c # open_of cs) s" by simp
    define s1 where "s1 = acceptBootstrapPort (cd_port c) w (cd_origin c) (cd_identity c) s"
    have log: "gt_log s1 = gt_log s" by (simp add: s1_def acceptBootstrapPort_def Let_def)
    have s1: "gate_hand X w (cd_port c # open_of cs) s1" unfolding s1_def by (rule hand_accept [OF hand])
    show ?thesis
    proof (cases "acceptedThrows env")
      case True
      have "gate_inv X (failTransition w cs (rejectBootstrapPort (cd_port c) (destroyContext w s1)))"
        by (intro inv_failTransition hand_reject hand_destroy s1)
      with True that show ?thesis by (simp add: s1_def Let_def)
    next
      case False
      let ?x = "Promoted (tr_id tr) (cd_port c) w (cd_origin c) (cd_identity c) (identityOf env w)"
      have "gate_hand X w (open_of cs) (s1\<lparr>gt_accepted := gt_accepted s1 @ [cd_port c]\<rparr>)"
        using s1 by (simp add: gate_hand_def)
      moreover have "promoted_ok (insert ?x (set (gt_log s))) ?x"
        using cand that Cons.prems(2) sameBrowserLifetime_trans [OF that(6,5)]
        by (auto simp: cand_ok_def tr_ok_def)
      ultimately have "gate_hand X w (open_of cs) (gate_note ?x (s1\<lparr>gt_accepted := gt_accepted s1 @ [cd_port c]\<rparr>))"
        by (intro hand_note) (simp_all add: log)
      from inv_deleteReservation [OF hand_closes [OF this]] False that show ?thesis
        by (simp add: s1_def Let_def)
    qed
  qed
  show ?case
    using skip wait fresh promoted inv_failTransition [OF Cons.prems(1)] by (auto simp: Let_def)
qed

lemma inv_tryPromote: "gate_inv X s \<Longrightarrow> w \<in> set (map_keys (gt_contexts s)) \<longrightarrow> w \<in> X \<Longrightarrow>
    gate_inv X (tryPromote env w tid s)"
  using inv_promote_loop hand_of_inv(1,2) by (fastforce simp: tryPromote_def split: option.split)

lemma reserved_context:
  "gate_inv X s \<Longrightarrow> map_get (gt_reservations s) w = Some tr \<Longrightarrow> w \<in> set (map_keys (gt_contexts s)) \<longrightarrow> w \<in> X"
  using map_has_get [of w "gt_reservations s"] unfolding gate_inv_def by blast

lemma tr_ok_add:
  assumes "tr_ok L w tr" "cand_ok L w c" "cd_sequence c = tr_nextSequence tr"
  shows "tr_ok L w (tr\<lparr>tr_nextSequence := tr_nextSequence tr + 1, tr_candidates := tr_candidates tr @ [c]\<rparr>)"
  using assms by (auto simp: tr_ok_def less_Suc_eq)

lemma map_others: "n \<notin> cd_sequence ` set cs \<Longrightarrow> map (\<lambda>c. if cd_sequence c = n then f c else c) cs = cs"
  by (induction cs) auto

lemma cand_map:
  assumes "distinct (map cd_sequence cs)" "find (\<lambda>c. cd_sequence c = n) cs = Some c" "cd_closed (f c) = cd_closed c"
    "cd_port (f c) = cd_port c"
  shows "open_of (map (\<lambda>c. if cd_sequence c = n then f c else c) cs) = open_of cs"
  using assms
proof (induction cs)
  case (Cons d cs)
  show ?case
  proof (cases "cd_sequence d = n")
    case True
    with Cons.prems have "d = c" by simp
    moreover have "map (\<lambda>c. if cd_sequence c = n then f c else c) cs = cs"
      using True Cons.prems(1) by (intro map_others) auto
    ultimately show ?thesis using Cons.prems True by simp
  qed (use Cons in simp)
qed simp

lemma cand_map_close:
  assumes "distinct (map cd_sequence cs)" "find (\<lambda>c. cd_sequence c = n) cs = Some c" "\<not> cd_closed c"
    "cd_closed (f c)"
  shows "mset (open_of cs) = add_mset (cd_port c) (mset (open_of (map (\<lambda>c. if cd_sequence c = n then f c else c) cs)))"
  using assms
proof (induction cs)
  case (Cons d cs)
  show ?case
  proof (cases "cd_sequence d = n")
    case True
    with Cons.prems have "d = c" by simp
    moreover have "map (\<lambda>c. if cd_sequence c = n then f c else c) cs = cs"
      using True Cons.prems(1) by (intro map_others) auto
    ultimately show ?thesis using Cons.prems True by simp
  next
    case False
    with Cons show ?thesis by simp
  qed
qed simp

lemma find_mem: "find P xs = Some x \<Longrightarrow> x \<in> set xs \<and> P x"
  by (induction xs) (auto split: if_splits)

lemma tr_ok_update:
  assumes "tr_ok L w tr" "\<And>c. c \<in> set (tr_candidates tr) \<Longrightarrow> cd_sequence c = n \<Longrightarrow> cand_ok L w (f c)"
    "\<And>c. cd_sequence (f c) = cd_sequence c"
  shows "tr_ok L w (update_candidate n f tr)"
proof -
  have "map cd_sequence (map (\<lambda>c. if cd_sequence c = n then f c else c) cs) = map cd_sequence cs" for cs
    by (induction cs) (simp_all add: assms(3))
  with assms show ?thesis unfolding tr_ok_def update_candidate_def by (simp del: map_map) auto
qed

lemma find_unique:
  assumes "tr_ok L w tr" "find (\<lambda>c. cd_sequence c = n) (tr_candidates tr) = Some c"
    "d \<in> set (tr_candidates tr)" "cd_sequence d = n"
  shows "d = c"
  using find_mem [OF assms(2)] assms(1,3,4) unfolding tr_ok_def distinct_map by (metis inj_onD)

lemma hand_perm: "mset ps = mset qs \<Longrightarrow> gate_hand X w ps s = gate_hand X w qs s"
  by (simp add: gate_hand_def)

lemma inv_addCandidate:
  assumes hand: "gate_hand X w (p # open_of (tr_candidates tr)) s" and tr: "tr_ok (set (gt_log s)) w tr"
    and received: "Received p w origin \<in> set (gt_log s)"
    and ctx: "w \<in> set (map_keys (gt_contexts s)) \<longrightarrow> w \<in> X"
  shows "gate_inv X (addCandidate env w tr p origin i s)"
proof -
  let ?n = "tr_nextSequence tr"
  let ?c = "\<lparr>cd_sequence = ?n, cd_port = p, cd_origin = origin, cd_identity = i,
    cd_challenge = drawnChallenge env, cd_live = False, cd_expired = False, cd_closed = False\<rparr>"
  let ?tr = "tr\<lparr>tr_nextSequence := ?n + 1, tr_candidates := tr_candidates tr @ [?c]\<rparr>"
  let ?d = "?c\<lparr>cd_expired := True, cd_closed := True\<rparr>"
  let ?tr' = "tr\<lparr>tr_nextSequence := ?n + 1, tr_candidates := tr_candidates tr @ [?d]\<rparr>"
  have others: "map (\<lambda>c. if cd_sequence c = ?n then f c else c) (tr_candidates tr) = tr_candidates tr" for f
    using tr by (intro map_others) (auto simp: tr_ok_def)
  have closed: "update_candidate ?n (\<lambda>c. c\<lparr>cd_expired := True, cd_closed := True\<rparr>) ?tr = ?tr'"
    by (simp add: update_candidate_def others)
  show ?thesis
  proof (cases "probeThrows env")
    case True
    let ?s = "setReservation w ?tr' (closeCandidate ?c s)"
    have "gate_hand X w (open_of (tr_candidates ?tr')) (closeCandidate ?c s)"
      using hand_reject [OF hand] by (simp add: closeCandidate_def)
    moreover have "tr_ok (set (gt_log s)) w ?tr'"
      by (rule tr_ok_add [OF tr]) (simp_all add: cand_ok_def received)
    ultimately have "gate_inv X ?s" by (intro inv_setReservation) (simp_all add: ctx [simplified])
    from inv_tryPromote [OF this] ctx True show ?thesis
      unfolding addCandidate_def Let_def closed by (simp add: setReservation_def)
  next
    case False
    let ?s = "gate_note (Probed p (drawnChallenge env)) s"
    have "gate_hand X w (open_of (tr_candidates ?tr)) ?s"
    proof -
      have "gate_hand X w (open_of (tr_candidates ?tr)) s"
        using hand by (subst hand_perm [where qs = "p # open_of (tr_candidates tr)"]) simp_all
      then show ?thesis by (rule hand_note) simp
    qed
    moreover have "tr_ok (set (gt_log ?s)) w ?tr"
      by (rule tr_ok_add)
        (use tr_ok_mono [OF tr, of "set (gt_log ?s)"] received in \<open>auto simp: cand_ok_def gate_note_def\<close>)
    ultimately have "gate_inv X (setReservation w ?tr ?s)"
      by (intro inv_setReservation) (use ctx in \<open>simp_all add: gate_note_def\<close>)
    with False show ?thesis by (simp add: addCandidate_def Let_def)
  qed
qed

lemma inv_note:
  "gate_inv X s \<Longrightarrow> promoted_ok (insert x (set (gt_log s))) x \<Longrightarrow> gate_inv X (gate_note x s)"
  unfolding gate_inv_def gate_note_def
  by (auto intro: tr_ok_mono [of "set (gt_log s)"] promoted_ok_mono [of "set (gt_log s)"])

lemma inv_destroyContext:
  assumes "gate_inv X s"
  shows "gate_inv (X - {w}) (destroyContext w s)"
  using assms map_wf_delete [of "gt_contexts s" w]
  by (auto simp add: gate_inv_def destroyContext_def keys_map_delete simp del: set_map)

lemma inv_weaken: "gate_inv X s \<Longrightarrow> X \<subseteq> Y \<Longrightarrow> gate_inv Y s"
  by (auto simp: gate_inv_def)

text \<open>A received port in hand.\<close>

lemma hand_received:
  assumes "gate_hand X w ps s"
  shows "gate_hand X w (p # ps) (s\<lparr>gt_received := gt_received s @ [p]\<rparr>)"
  using assms by (simp add: gate_hand_def)

lemma inv_reject_received:
  assumes "gate_inv X s"
  shows "gate_inv X (rejectBootstrapPort p (s\<lparr>gt_received := gt_received s @ [p]\<rparr>))"
  using assms by (simp add: gate_inv_def rejectBootstrapPort_def)

lemma inv_reject_all:
  assumes "gate_inv X s"
  shows "gate_inv X (fold rejectBootstrapPort ps (s\<lparr>gt_received := gt_received s @ ps\<rparr>))"
proof -
  have "fold rejectBootstrapPort ps t = t\<lparr>gt_rejected := gt_rejected t @ ps\<rparr>" for t
    by (induction ps arbitrary: t) (simp_all add: rejectBootstrapPort_def)
  with assms show ?thesis by (simp add: gate_inv_def)
qed

lemma inv_startTransition:
  assumes "gate_hand X w [p] s" "map_get (gt_reservations s) w = None" "Received p w origin \<in> set (gt_log s)"
    "w \<in> set (map_keys (gt_contexts s)) \<longrightarrow> w \<in> X"
  shows "gate_inv X (addCandidate env w \<lparr>tr_id = tid, tr_previous = previous, tr_target = i,
      tr_cleanupComplete = (previous = None), tr_candidates = [], tr_nextSequence = 0\<rparr> p origin i
      (setReservation w \<lparr>tr_id = tid, tr_previous = previous, tr_target = i,
        tr_cleanupComplete = (previous = None), tr_candidates = [], tr_nextSequence = 0\<rparr>
        (gate_note (Started tid previous) (s\<lparr>gt_nextTransition := n\<rparr>))))"
    (is "gate_inv X (addCandidate env w ?tr p origin i (setReservation w ?tr ?s))")
proof (rule inv_addCandidate)
  have "gate_hand X w [p] (s\<lparr>gt_nextTransition := n\<rparr>)" using assms(1) by (simp add: gate_hand_def)
  from hand_note [OF this, of "Started tid previous"] have "gate_hand X w [p] ?s" by simp
  moreover have "map_delete (map_set (gt_reservations s) w ?tr) w = map_delete (gt_reservations s) w"
    by (rule delete_set)
  ultimately show "gate_hand X w (p # open_of (tr_candidates ?tr)) (setReservation w ?tr ?s)"
    using map_wf_set [of "gt_reservations s" w ?tr]
    by (auto simp: gate_hand_def setReservation_def gate_note_def js_map_simps simp del: set_map)
  show "tr_ok (set (gt_log (setReservation w ?tr ?s))) w ?tr"
    by (simp add: tr_ok_def setReservation_def gate_note_def)
qed (use assms in \<open>simp_all add: setReservation_def gate_note_def\<close>)

lemma contexts_addCandidate_new:
  "tr_candidates tr = [] \<Longrightarrow> gt_contexts (addCandidate env w tr p origin i s) = gt_contexts s"
  by (simp add: addCandidate_def Let_def tryPromote_def setReservation_def update_candidate_def gate_note_def
      js_map_simps closeCandidate_def rejectBootstrapPort_def)

lemma inv_handleBootstrap:
  assumes "gate_inv {} s"
  shows "gate_inv {} (handleBootstrap env m s)"
proof (cases "\<exists>p source. bm_ports m = [p] \<and> bm_source m = Some source \<and> bm_dataIsNull m")
  case False
  then show ?thesis
    using inv_reject_all [OF assms, of "bm_ports m"]
    by (auto simp: handleBootstrap_def Let_def split: list.split option.split)
next
  case True
  then obtain p w where m: "bm_ports m = [p]" "bm_source m = Some w" "bm_dataIsNull m" by blast
  define s1 where "s1 = gate_note (Received p w (bm_origin m)) s"
  define s2 where "s2 = gate_note (Received p w (bm_origin m)) (s\<lparr>gt_received := gt_received s @ [p]\<rparr>)"
  have s2: "s2 = s1\<lparr>gt_received := gt_received s1 @ [p]\<rparr>"
    by (cases s) (simp add: s1_def s2_def gate_note_def)
  have s1: "gate_inv {} s1" unfolding s1_def by (rule inv_note [OF assms]) simp
  have res: "gt_reservations s2 = gt_reservations s1" "gt_contexts s2 = gt_contexts s1" "gt_log s2 = gt_log s1"
    by (simp_all add: s2)
  have received: "Received p w (bm_origin m) \<in> set (gt_log s2)" by (simp add: s2_def gate_note_def)
  have reject: "gate_inv {} (rejectBootstrapPort p s2)" unfolding s2 by (rule inv_reject_received [OF s1])
  let ?i = "identityOf env w"
  have body: "handleBootstrap env m s =
      (if \<not> hasBrowserLifetime ?i then rejectBootstrapPort p s2
       else case map_get (gt_reservations s2) w of
              Some tr \<Rightarrow>
                if sameBrowserLifetime (tr_target tr) ?i
                then if \<exists>c \<in> set (tr_candidates tr). cd_live c then rejectBootstrapPort p s2
                     else addCandidate env w tr p (bm_origin m) ?i s2
                else addCandidate env w (tr\<lparr>tr_candidates := [], tr_target := ?i\<rparr>) p (bm_origin m) ?i
                       (closeCandidates (tr_candidates tr) s2)
            | None \<Rightarrow>
                (case map_get (gt_contexts s2) w of
                   Some previous \<Rightarrow>
                     if sameBrowserLifetime (gc_identity previous) ?i \<or> \<not> hasBrowserLifetime (gc_identity previous)
                     then rejectBootstrapPort p s2
                     else startTransition env w p (bm_origin m) ?i (Some previous) s2
                 | None \<Rightarrow> startTransition env w p (bm_origin m) ?i None s2))"
    unfolding handleBootstrap_def Let_def m s2_def by (simp add: m)
  show ?thesis
  proof (cases "map_get (gt_reservations s2) w")
    case (Some tr)
    have tr: "tr_ok (set (gt_log s2)) w tr" and hand: "gate_hand {} w (p # open_of (tr_candidates tr)) s2"
      using hand_of_inv(1,2) [OF s1] hand_received [of "{}" w "open_of (tr_candidates tr)" s1 p] Some res
      by (simp_all add: s2)
    have ctx: "w \<in> set (map_keys (gt_contexts s2)) \<longrightarrow> w \<in> {}"
      using reserved_context [OF s1] Some res by simp
    have "gate_inv {} (addCandidate env w tr p (bm_origin m) ?i s2)"
      by (rule inv_addCandidate [OF hand tr received ctx])
    moreover have "gate_inv {} (addCandidate env w (tr\<lparr>tr_candidates := [], tr_target := ?i\<rparr>) p (bm_origin m) ?i
        (closeCandidates (tr_candidates tr) s2))"
    proof (rule inv_addCandidate)
      have "gate_hand {} w (open_of (tr_candidates tr) @ [p]) s2"
        using hand by (subst hand_perm [where qs = "p # open_of (tr_candidates tr)"]) simp_all
      from hand_closes_more [OF this]
      show "gate_hand {} w (p # open_of (tr_candidates (tr\<lparr>tr_candidates := [], tr_target := ?i\<rparr>)))
          (closeCandidates (tr_candidates tr) s2)" by simp
    qed (use tr received ctx in \<open>simp_all add: tr_ok_def\<close>)
    ultimately show ?thesis using reject Some by (simp add: body)
  next
    case None
    have hand: "gate_hand {} w [p] s2"
      using hand_received [OF hand_of_inv(3) [OF s1], of w p] None res by (simp add: s2)
    have start: "gate_inv {} (startTransition env w p (bm_origin m) ?i None s2)" if "map_get (gt_contexts s2) w = None"
    proof -
      have "w \<notin> set (map_keys (gt_contexts s2))" using that by (simp add: map_of_eq_None_iff)
      from inv_startTransition [OF hand None received, of env "gt_nextTransition s2" None ?i] this
      show ?thesis by (simp add: startTransition_def Let_def)
    qed
    have restart: "gate_inv {} (startTransition env w p (bm_origin m) ?i (Some c) s2)" for c
    proof -
      have "gate_hand {w} w [p] s2" using hand by (auto simp: gate_hand_def)
      from inv_destroyContext [OF inv_startTransition [OF this None received, of env "gt_nextTransition s2"
          "Some (gc_generation c)" ?i "gt_nextTransition s2 + 1"], of w]
      show ?thesis by (simp add: startTransition_def Let_def)
    qed
    show ?thesis using None reject start restart by (simp add: body split: option.split)
  qed
qed

lemma inv_probeAnswered:
  assumes "gate_inv {} s"
  shows "gate_inv {} (probeAnswered env w tid n answer s)"
proof (cases "map_get (gt_reservations s) w")
  case (Some tr)
  have wf: "tr_ok (set (gt_log s)) w tr" and hand: "gate_hand {} w (open_of (tr_candidates tr)) s"
    using hand_of_inv(2,1) [OF assms Some] .
  have ctx: "w \<in> set (map_keys (gt_contexts s)) \<longrightarrow> w \<in> {}" by (rule reserved_context [OF assms Some])
  show ?thesis
  proof (cases "find (\<lambda>c. cd_sequence c = n) (tr_candidates tr)")
    case found: (Some c)
    let ?s = "gate_note (Proved (cd_port c) answer) s"
    let ?tr = "update_candidate n (\<lambda>c. c\<lparr>cd_live := True\<rparr>) tr"
    have "gate_inv {} (setReservation w ?tr ?s)" if ok: "\<not> cd_expired c" "answer = cd_challenge c"
    proof (rule inv_setReservation)
      have "gate_hand {} w (open_of (tr_candidates tr)) ?s" by (rule hand_note [OF hand]) simp
      moreover have "open_of (tr_candidates ?tr) = open_of (tr_candidates tr)"
        using wf cand_map [OF _ found, of "\<lambda>c. c\<lparr>cd_live := True\<rparr>"] by (simp add: tr_ok_def update_candidate_def)
      ultimately show "gate_hand {} w (open_of (tr_candidates ?tr)) ?s" by simp
      have "tr_ok (set (gt_log ?s)) w tr" by (rule tr_ok_mono [OF wf]) (auto simp: gate_note_def)
      then show "tr_ok (set (gt_log ?s)) w ?tr"
      proof (rule tr_ok_update)
        fix d assume "d \<in> set (tr_candidates tr)" "cd_sequence d = n"
        then have "d = c" by (rule find_unique [OF wf found])
        moreover have "cand_ok (set (gt_log s)) w c" using find_mem [OF found] wf by (simp add: tr_ok_def)
        ultimately show "cand_ok (set (gt_log ?s)) w (d\<lparr>cd_live := True\<rparr>)"
          using ok by (simp add: cand_ok_def gate_note_def)
      qed simp
      show "w \<in> set (map_keys (gt_contexts ?s)) \<longrightarrow> w \<in> {}" using ctx by (simp add: gate_note_def)
    qed
    then have "gate_inv {} (tryPromote env w tid (setReservation w ?tr ?s))" if "\<not> cd_expired c" "answer = cd_challenge c"
      using that ctx by (intro inv_tryPromote) (simp_all add: setReservation_def gate_note_def)
    with assms Some found show ?thesis by (simp add: probeAnswered_def)
  qed (use assms Some in \<open>simp add: probeAnswered_def\<close>)
qed (use assms in \<open>simp add: probeAnswered_def\<close>)

lemma inv_probeTimedOut:
  assumes "gate_inv {} s"
  shows "gate_inv {} (probeTimedOut env w tid n s)"
proof (cases "map_get (gt_reservations s) w")
  case (Some tr)
  have wf: "tr_ok (set (gt_log s)) w tr" and hand: "gate_hand {} w (open_of (tr_candidates tr)) s"
    using hand_of_inv(2,1) [OF assms Some] .
  have ctx: "w \<in> set (map_keys (gt_contexts s)) \<longrightarrow> w \<in> {}" by (rule reserved_context [OF assms Some])
  show ?thesis
  proof (cases "find (\<lambda>c. cd_sequence c = n) (tr_candidates tr)")
    case found: (Some c)
    let ?f = "\<lambda>c. c\<lparr>cd_expired := True, cd_closed := True\<rparr>"
    let ?tr = "update_candidate n ?f tr"
    have c: "cand_ok (set (gt_log s)) w c" using find_mem [OF found] wf by (simp add: tr_ok_def)
    have "gate_inv {} (setReservation w ?tr (closeCandidate c s))" if ok: "\<not> cd_closed c" "\<not> cd_live c"
    proof (rule inv_setReservation)
      have "mset (open_of (tr_candidates tr)) = mset (cd_port c # open_of (tr_candidates ?tr))"
        using wf cand_map_close [OF _ found ok(1), of ?f] by (simp add: tr_ok_def update_candidate_def)
      from hand_perm [OF this] hand have "gate_hand {} w (cd_port c # open_of (tr_candidates ?tr)) s" by blast
      from hand_reject [OF this] show "gate_hand {} w (open_of (tr_candidates ?tr)) (closeCandidate c s)"
        using ok by (simp add: closeCandidate_def)
      show "tr_ok (set (gt_log (closeCandidate c s))) w ?tr"
        unfolding log_close
      proof (rule tr_ok_update [OF wf])
        fix d assume "d \<in> set (tr_candidates tr)" "cd_sequence d = n"
        then have "d = c" by (rule find_unique [OF wf found])
        with c ok show "cand_ok (set (gt_log s)) w (?f d)" by (simp add: cand_ok_def)
      qed simp
    qed (use ctx in simp)
    then have "gate_inv {} (tryPromote env w tid (setReservation w ?tr (closeCandidate c s)))"
      if "\<not> cd_closed c" "\<not> cd_live c"
      using that ctx by (intro inv_tryPromote) (simp_all add: setReservation_def)
    with assms Some found show ?thesis by (simp add: probeTimedOut_def)
  qed (use assms Some in \<open>simp add: probeTimedOut_def\<close>)
qed (use assms in \<open>simp add: probeTimedOut_def\<close>)

lemma inv_cleanupDone:
  assumes "gate_inv {} s"
  shows "gate_inv {} (cleanupDone env w tid ok s)"
proof (cases "map_get (gt_reservations s) w")
  case (Some tr)
  have wf: "tr_ok (set (gt_log s)) w tr" and hand: "gate_hand {} w (open_of (tr_candidates tr)) s"
    using hand_of_inv(2,1) [OF assms Some] .
  have ctx: "w \<in> set (map_keys (gt_contexts s)) \<longrightarrow> w \<in> {}" by (rule reserved_context [OF assms Some])
  let ?s = "gate_note (CleanedUp (tr_id tr)) s" and ?tr = "tr\<lparr>tr_cleanupComplete := True\<rparr>"
  have "gate_inv {} (setReservation w ?tr ?s)"
  proof (rule inv_setReservation)
    show "gate_hand {} w (open_of (tr_candidates ?tr)) ?s" using hand_note [OF hand] by simp
    have "tr_ok (set (gt_log ?s)) w tr" by (rule tr_ok_mono [OF wf]) (auto simp: gate_note_def)
    then show "tr_ok (set (gt_log ?s)) w ?tr" by (simp add: tr_ok_def gate_note_def)
  qed (use ctx in \<open>simp add: gate_note_def\<close>)
  then have "gate_inv {} (tryPromote env w tid (setReservation w ?tr ?s))"
    using ctx by (intro inv_tryPromote) (simp_all add: setReservation_def gate_note_def)
  with assms Some inv_failTransition [OF hand] show ?thesis by (auto simp: cleanupDone_def)
qed (use assms in \<open>simp add: cleanupDone_def\<close>)

lemma inv_gate_step: "gate_inv {} s \<Longrightarrow> gate_inv {} (gate_step e s)"
  by (cases e) (use inv_destroyContext [of "{}"] in
    \<open>simp_all add: inv_handleBootstrap inv_probeAnswered inv_probeTimedOut inv_cleanupDone\<close>)

lemma inv_gate_initial: "gate_inv {} initial_gate"
  by (simp add: gate_inv_def initial_gate_def open_ports_def)

lemma inv_gate_run: "gate_inv {} (fold gate_step es initial_gate)"
  by (rule fold_invariant) (simp_all add: inv_gate_step inv_gate_initial)

section \<open>What a run of the gate guarantees\<close>

text \<open>C13: A port becomes the channel of a document only if the window posted it as a bootstrap message
  from the origin recorded, it was probed with a challenge and the challenge came back on it, the
  browser still gives the window the identity of that document, and the cleanup of the document it
  replaces is complete.\<close>

theorem bootstrap_promotes_proven:
  "let L = set (gt_log (fold gate_step es initial_gate))
   in {(tid, p, w, origin, i, current). Promoted tid p w origin i current \<in> L}
      \<subseteq> {(tid, p, w, origin, i, current). sameBrowserLifetime i current \<and> Received p w origin \<in> L
          \<and> (\<exists>c. Probed p c \<in> L \<and> Proved p c \<in> L)
          \<and> (\<exists>previous. Started tid previous \<in> L \<and> (previous = None \<or> CleanedUp tid \<in> L))}"
  using inv_gate_run [of es] unfolding gate_inv_def by (auto simp: Let_def)

text \<open>C18: Whatever happens to a bootstrap, no port is lost: each received port is a waiting candidate,
  was closed once, or was accepted once, and no two of these; a window never has a document
  context while one of its bootstraps is under way.\<close>

theorem bootstrap_ports_accounted:
  "let s = fold gate_step es initial_gate
   in mset (gt_received s) = mset (gt_rejected s) + mset (gt_accepted s) + mset (open_ports (gt_reservations s))
      \<and> fst ` set (gt_reservations s) \<inter> fst ` set (gt_contexts s) = {}"
  using inv_gate_run [of es] by (simp add: gate_inv_def Let_def)

text \<open>A sample run: a frame posts its port, answers the challenge, and is promoted; it navigates, its
  new document posts a port and answers before the old context is cleaned up, and waits for it.\<close>

definition sample_gate_env :: "string \<Rightarrow> gate_env" where
  "sample_gate_env doc =
     \<lparr>identityOf = (\<lambda>_. \<lparr>id_frameId = Some 3, id_documentId = Some doc\<rparr>), drawnChallenge = ''u1'',
      probeThrows = False, acceptedThrows = False\<rparr>"

definition sample_gate_run :: "gate_event list" where
  "sample_gate_run =
     [Bootstrap (sample_gate_env ''d1'') \<lparr>bm_dataIsNull = True, bm_ports = [7], bm_source = Some 1, bm_origin = ''https://a''\<rparr>,
      ProbeAnswer (sample_gate_env ''d1'') 1 0 0 ''u1'',
      Bootstrap (sample_gate_env ''d2'') \<lparr>bm_dataIsNull = True, bm_ports = [8], bm_source = Some 1, bm_origin = ''https://a''\<rparr>,
      ProbeAnswer (sample_gate_env ''d2'') 1 1 0 ''u1'']"

lemma sample_gate_waits:
  "gt_accepted (fold gate_step sample_gate_run initial_gate) = [7]"
  "gt_accepted (fold gate_step (sample_gate_run @ [Cleanup (sample_gate_env ''d2'') 1 1 True]) initial_gate) = [7, 8]"
  by code_simp+

end
