(* ===== verification/Requests.thy ===== *)
theory Requests
  imports Js_Prelude "HOL-Library.Multiset" "HOL-Library.Sublist"
begin

text \<open>
  Two interfaces several components rely on.

  \<open>requests\<close>: a component that accepts requests and settles them later (the Native Messaging
  client, the data worker).  Its contract is that of a promise: a request that was issued is
  waiting or settled, never both, it is settled once, and its answer never changes.

  \<open>backoff\<close>: a reconnection delay that is doubled up to a bound and reset on success (Native
  Messaging, the WebSocket and WebTransport transports).
\<close>

section \<open>Requests that are settled once\<close>

locale requests =
  fixes step :: "'e \<Rightarrow> 's \<Rightarrow> 's"
    and issued :: "'s \<Rightarrow> nat list"
    and waiting :: "'s \<Rightarrow> nat list"
    and settled :: "'s \<Rightarrow> (nat \<times> 'r) list"
    and inv :: "'s \<Rightarrow> bool"
  assumes inv_step: "inv s \<Longrightarrow> inv (step e s)"
    and conserved: "inv s \<Longrightarrow> mset (issued s) = mset (waiting s) + mset (map fst (settled s))"
    and issued_distinct: "inv s \<Longrightarrow> distinct (issued s)"
    and issued_grow: "inv s \<Longrightarrow> prefix (issued s) (issued (step e s))"
    and settled_grow: "inv s \<Longrightarrow> prefix (settled s) (settled (step e s))"
begin

lemma inv_run: "inv s \<Longrightarrow> inv (fold step es s)"
  by (induction es arbitrary: s) (auto intro: inv_step)

lemma issued_run: "inv s \<Longrightarrow> prefix (issued s) (issued (fold step es s))"
proof (induction es arbitrary: s)
  case (Cons e es)
  show ?case
    using prefix_order.trans [OF issued_grow [OF Cons.prems, of e] Cons.IH [OF inv_step [OF Cons.prems]]]
    by simp
qed simp

lemma settled_run: "inv s \<Longrightarrow> prefix (settled s) (settled (fold step es s))"
proof (induction es arbitrary: s)
  case (Cons e es)
  show ?case
    using prefix_order.trans [OF settled_grow [OF Cons.prems, of e] Cons.IH [OF inv_step [OF Cons.prems]]]
    by simp
qed simp

text \<open>Never settled twice, never settled and still waiting.\<close>

lemma settled_once: "inv s \<Longrightarrow> distinct (map fst (settled s))"
  and waiting_once: "inv s \<Longrightarrow> distinct (waiting s)"
  and waiting_not_settled: "inv s \<Longrightarrow> set (waiting s) \<inter> fst ` set (settled s) = {}"
proof -
  have all: "distinct (waiting s @ map fst (settled s))" if "inv s"
  proof -
    have "mset (waiting s @ map fst (settled s)) = mset (issued s)" using conserved [OF that] by simp
    with issued_distinct [OF that] show ?thesis by (metis mset_eq_imp_distinct_iff)
  qed
  then show "inv s \<Longrightarrow> distinct (map fst (settled s))" "inv s \<Longrightarrow> distinct (waiting s)"
    "inv s \<Longrightarrow> set (waiting s) \<inter> fst ` set (settled s) = {}" by auto
qed

lemma issued_waiting_or_settled:
  "inv s \<Longrightarrow> set (issued s) = set (waiting s) \<union> fst ` set (settled s)"
  using conserved [of s] by (metis image_set mset_append set_append set_mset_mset)

text \<open>An answer is final, and every other request is still waiting or got its own.\<close>

lemma answer_final:
  assumes "inv s" "(p, r) \<in> set (settled s)" "(p, r') \<in> set (settled (fold step es s))"
  shows "r' = r"
proof -
  have "(p, r) \<in> set (settled (fold step es s))"
    using settled_run [OF assms(1), of es] assms(2) by (auto simp: prefix_def)
  then show ?thesis
    using settled_once [OF inv_run [OF assms(1)], of es] assms(3) by (metis eq_key_imp_eq_value)
qed

lemma issued_later:
  assumes "inv s" "p \<in> set (issued s)"
  shows "p \<in> set (waiting (fold step es s)) \<or> (\<exists>r. (p, r) \<in> set (settled (fold step es s)))"
proof -
  have "p \<in> set (issued (fold step es s))"
    using issued_run [OF assms(1), of es] assms(2) by (auto simp: prefix_def)
  then show ?thesis using issued_waiting_or_settled [OF inv_run [OF assms(1)], of es] by force
qed

end

section \<open>Tables of pending requests\<close>

lemma map_set_new: "k \<notin> set (map_keys m) \<Longrightarrow> map_set m k v = m @ [(k, v)]"
  by (induction m) auto

lemma map_delete_new: "k \<notin> set (map_keys m) \<Longrightarrow> map_delete (m @ [(k, v)]) k = m"
  by (simp add: AList.delete_eq filter_id_conv) force

lemma removeAll_neq: "removeAll x xs = filter (\<lambda>y. y \<noteq> x) xs"
  by (induction xs) auto

lemma mset_map_delete:
  "map_wf m \<Longrightarrow> map_get m k = Some v \<Longrightarrow> mset (map snd m) = add_mset v (mset (map snd (map_delete m k)))"
proof (induction m)
  case (Cons e m)
  show ?case
  proof (cases "fst e = k")
    case True
    with Cons.prems have "map_delete m k = m" by (auto simp: delete_idem)
    with True Cons.prems show ?thesis by (cases e) (auto simp: AList.delete_eq)
  next
    case False
    with Cons show ?thesis by (cases e) (auto simp: AList.delete_eq)
  qed
qed simp

text \<open>A table of pending requests under the ids handed out so far, each with its deadline.\<close>

definition table_wf :: "(nat, 'v) js_map \<Rightarrow> nat list \<Rightarrow> nat \<Rightarrow> bool" where
  "table_wf pending timers nextId \<longleftrightarrow>
     map_wf pending \<and> distinct timers \<and> set timers = set (map_keys pending)
     \<and> (\<forall>reqId \<in> set timers. reqId < nextId)"

lemma table_wf_empty: "table_wf [] [] n"
  by (simp add: table_wf_def)

lemma table_wf_insert:
  assumes "table_wf pending timers nextId"
  shows "map_set pending nextId v = pending @ [(nextId, v)]"
    and "table_wf (map_set pending nextId v) (timers @ [nextId]) (nextId + 1)"
    and "map_delete (map_set pending nextId v) nextId = pending"
    and "removeAll nextId (timers @ [nextId]) = timers"
    and "table_wf pending timers (nextId + 1)"
proof -
  have timers: "nextId \<notin> set timers" using assms by (auto simp: table_wf_def)
  then have keys: "nextId \<notin> set (map_keys pending)" using assms by (simp add: table_wf_def)
  show new: "map_set pending nextId v = pending @ [(nextId, v)]" by (rule map_set_new [OF keys])
  show "map_delete (map_set pending nextId v) nextId = pending"
    unfolding new by (rule map_delete_new [OF keys])
  show "removeAll nextId (timers @ [nextId]) = timers" using timers by simp
  show "table_wf pending timers (nextId + 1)"
    using assms by (auto simp: table_wf_def less_Suc_eq)
  show "table_wf (map_set pending nextId v) (timers @ [nextId]) (nextId + 1)"
    unfolding new using assms timers keys by (auto simp: table_wf_def less_Suc_eq)
qed

lemma table_wf_remove:
  "table_wf pending timers nextId \<Longrightarrow> table_wf (map_delete pending reqId) (removeAll reqId timers) nextId"
  using keys_map_delete [of reqId pending] map_wf_delete [of pending reqId]
  by (simp add: table_wf_def distinct_removeAll set_removeAll del: set_map)

section \<open>Back-off\<close>

locale backoff =
  fixes delay :: "'s \<Rightarrow> nat"
    and bump :: "'s \<Rightarrow> 's"
    and reset :: "'s \<Rightarrow> 's"
    and lo :: nat
    and hi :: nat
  assumes bumped: "delay (bump s) = min (delay s * 2) hi"
    and was_reset: "delay (reset s) = lo"
    and positive: "0 < lo" and ordered: "lo \<le> hi"
begin

definition in_range :: "'s \<Rightarrow> bool" where
  "in_range s \<longleftrightarrow> lo \<le> delay s \<and> delay s \<le> hi"

lemma reset_in_range: "in_range (reset s)"
  using ordered by (simp add: in_range_def was_reset)

lemma bump_in_range: "in_range s \<Longrightarrow> in_range (bump s)"
  using ordered by (simp add: in_range_def bumped)

lemma bump_grows: "in_range s \<Longrightarrow> delay s \<le> delay (bump s)"
  by (simp add: in_range_def bumped)

text \<open>The delay after a number of failures in a row.\<close>

lemma after_failures:
  assumes "in_range s"
  shows "delay ((bump ^^ n) s) = min (delay s * 2 ^ n) hi"
proof (induction n)
  case 0
  then show ?case using assms by (simp add: in_range_def)
next
  case (Suc n)
  then show ?case by (simp add: bumped)
qed

lemma reset_failures: "delay ((bump ^^ n) (reset s)) = min (lo * 2 ^ n) hi"
  by (simp add: after_failures [OF reset_in_range] was_reset)

lemma saturates:
  assumes "in_range s" "hi \<le> 2 ^ n"
  shows "delay ((bump ^^ n) s) = hi"
proof -
  have "1 \<le> delay s" using assms(1) positive by (auto simp: in_range_def)
  then have "2 ^ n \<le> delay s * 2 ^ n" by simp
  with assms(2) have "hi \<le> delay s * 2 ^ n" by (rule le_trans)
  then show ?thesis by (simp add: after_failures [OF assms(1)])
qed

end

end
