(* ===== verification/Js_String.thy ===== *)
theory Js_String
  imports Js_Prelude "HOL-Library.Sublist"
begin

text \<open>
  The string operations the header code uses, on strings of Latin-1 code units (header values are
  byte strings): \<open>trim\<close>, \<open>toLowerCase\<close>, \<open>split\<close> on a character and on \<open>/\s+/\<close>, \<open>join\<close>,
  \<open>indexOf\<close> and \<open>includes\<close>, and the string keys made of numbers and colons.
\<close>

section \<open>Characters\<close>

definition is_ws :: "char \<Rightarrow> bool" where
  "is_ws c \<longleftrightarrow> of_char c \<in> {9, 10, 11, 12, 13, 32, 160 :: nat}"

definition lower_char :: "char \<Rightarrow> char" where
  "lower_char c =
     (let n = of_char c :: nat
      in if 65 \<le> n \<and> n \<le> 90 \<or> 192 \<le> n \<and> n \<le> 222 \<and> n \<noteq> 215 then char_of (n + 32) else c)"

definition toLowerCase :: "string \<Rightarrow> string" where
  "toLowerCase s = map lower_char s"

section \<open>Trimming and splitting\<close>

definition trim_left :: "string \<Rightarrow> string" where "trim_left s = dropWhile is_ws s"

definition trim :: "string \<Rightarrow> string" where "trim s = rev (trim_left (rev (trim_left s)))"

fun split_on :: "char \<Rightarrow> string \<Rightarrow> string list" where
  "split_on c [] = [[]]"
| "split_on c (x # xs) =
     (if x = c then [] # split_on c xs
      else case split_on c xs of [] \<Rightarrow> [[x]] | w # ws \<Rightarrow> (x # w) # ws)"

fun join_with :: "string \<Rightarrow> string list \<Rightarrow> string" where
  "join_with sep [] = []"
| "join_with sep [w] = w"
| "join_with sep (w # v # ws) = w @ sep @ join_with sep (v # ws)"

text \<open>\<open>split(/\s+/)\<close>: a leading or trailing run of white space leaves an empty word.\<close>

function split_ws :: "string \<Rightarrow> string list" where
  "split_ws s =
     (case dropWhile (\<lambda>c. \<not> is_ws c) s of
        [] \<Rightarrow> [s]
      | rest \<Rightarrow> takeWhile (\<lambda>c. \<not> is_ws c) s # split_ws (dropWhile is_ws rest))"
  by pat_completeness auto
termination
proof (relation "measure length", simp)
  fix s c rest
  assume *: "dropWhile (\<lambda>c. \<not> is_ws c) s = c # rest"
  then have "is_ws c" using hd_dropWhile [of "\<lambda>c. \<not> is_ws c" s] by simp
  then have "length (dropWhile is_ws (c # rest)) \<le> length rest"
    by (simp add: length_dropWhile_le)
  moreover have "length (c # rest) \<le> length s"
    using * length_dropWhile_le [of "\<lambda>c. \<not> is_ws c" s] by simp
  ultimately show "(dropWhile is_ws (c # rest), s) \<in> measure length" by simp
qed

declare split_ws.simps [simp del]

fun includes_str :: "string \<Rightarrow> string \<Rightarrow> bool" where
  "includes_str [] t \<longleftrightarrow> t = []"
| "includes_str (c # s) t \<longleftrightarrow> prefix t (c # s) \<or> includes_str s t"

text \<open>\<open>indexOf\<close> of a character; \<open>None\<close> is -1.\<close>

definition index_of :: "char \<Rightarrow> string \<Rightarrow> nat option" where
  "index_of c s = (if c \<in> set s then Some (length (takeWhile (\<lambda>x. x \<noteq> c) s)) else None)"

lemma includes_iff: "includes_str s t \<longleftrightarrow> sublist t s"
proof (induction s)
  case Nil
  then show ?case by simp
next
  case (Cons c s)
  then show ?case by (auto simp: sublist_Cons_right)
qed

section \<open>Splitting undone by joining\<close>

lemma split_on_nonempty [simp]: "split_on c s \<noteq> []"
  by (induction s) (auto split: list.split)

lemma join_split: "join_with [c] (split_on c s) = s"
proof (induction s)
  case Nil
  then show ?case by simp
next
  case (Cons x xs)
  obtain w ws where "split_on c xs = w # ws" by (cases "split_on c xs") auto
  with Cons show ?case by (cases ws) auto
qed

lemma split_on_word: "c \<notin> set w \<Longrightarrow> split_on c w = [w]"
  by (induction w) auto

lemma split_on_append: "c \<notin> set w \<Longrightarrow> split_on c (w @ c # s) = w # split_on c s"
  by (induction w) auto

lemma split_join:
  "ws \<noteq> [] \<Longrightarrow> (\<And>w. w \<in> set ws \<Longrightarrow> c \<notin> set w) \<Longrightarrow> split_on c (join_with [c] ws) = ws"
  by (induction "[c]" ws rule: join_with.induct) (auto simp: split_on_word split_on_append)

lemma split_on_no_sep: "w \<in> set (split_on c s) \<Longrightarrow> c \<notin> set w"
proof (induction s arbitrary: w)
  case Nil
  then show ?case by simp
next
  case (Cons x xs)
  then show ?case by (cases "split_on c xs") (auto split: if_splits)
qed

section \<open>Words\<close>

lemma split_ws_nonempty [simp]: "split_ws s \<noteq> []"
  by (subst split_ws.simps) (simp split: list.split)

lemma split_ws_word: "\<forall>c \<in> set w. \<not> is_ws c \<Longrightarrow> split_ws w = [w]"
  by (subst split_ws.simps) (simp add: dropWhile_eq_Nil_conv [THEN iffD2])

lemma split_ws_Nil [simp]: "split_ws [] = [[]]"
  by (simp add: split_ws_word)

lemma split_ws_space:
  assumes "\<forall>c \<in> set w. \<not> is_ws c" "is_ws d"
  shows "split_ws (w @ d # s) = w # split_ws (dropWhile is_ws s)"
proof -
  have "dropWhile (\<lambda>c. \<not> is_ws c) (w @ d # s) = d # s"
    using assms by (simp add: dropWhile_append2)
  moreover have "takeWhile (\<lambda>c. \<not> is_ws c) (w @ d # s) = w"
    using assms by (simp add: takeWhile_append2)
  ultimately show ?thesis
    using assms(2) by (subst split_ws.simps) simp
qed

lemma split_ws_no_ws: "w \<in> set (split_ws s) \<Longrightarrow> c \<in> set w \<Longrightarrow> \<not> is_ws c"
proof (induction s arbitrary: w rule: split_ws.induct)
  case (1 s)
  show ?case
  proof (cases "dropWhile (\<lambda>c. \<not> is_ws c) s")
    case Nil
    with 1 show ?thesis
      by (subst (asm) (2) split_ws.simps) (auto simp: dropWhile_eq_Nil_conv)
  next
    case (Cons d rest)
    with "1.prems" have "w = takeWhile (\<lambda>c. \<not> is_ws c) s \<or> w \<in> set (split_ws (dropWhile is_ws (d # rest)))"
      by (subst (asm) split_ws.simps) auto
    with "1.IH" [OF Cons] "1.prems"(2) show ?thesis by (auto dest: set_takeWhileD)
  qed
qed

section \<open>Numbers and keys\<close>

lemma of_char_char_of_small: "n < 256 \<Longrightarrow> of_char (char_of n :: char) = (n :: nat)"
  by simp

lemma digit_inj: "a < 10 \<Longrightarrow> b < 10 \<Longrightarrow> (char_of (48 + a) :: char) = char_of (48 + b) \<Longrightarrow> a = (b :: nat)"
  by (drule arg_cong [where f = "of_char :: char \<Rightarrow> nat"]) simp

lemma show_nat_nonempty [simp]: "show_nat n \<noteq> []"
  by (subst show_nat.simps) simp

lemma show_nat_nonempty' [simp]: "[] \<noteq> show_nat n"
  using show_nat_nonempty [of n] by metis

lemma show_nat_inj: "show_nat m = show_nat n \<Longrightarrow> m = n"
proof (induction m arbitrary: n rule: less_induct)
  case (less m)
  show ?case
  proof (cases "m < 10 \<or> n < 10")
    case True
    with less.prems show ?thesis
      by (subst (asm) (1 2) show_nat.simps) (auto split: if_splits dest: digit_inj)
  next
    case False
    with less.prems have "show_nat (m div 10) = show_nat (n div 10)"
      and last: "(char_of (48 + m mod 10) :: char) = char_of (48 + n mod 10)"
      by (subst (asm) (1 2) show_nat.simps, simp)+
    from less.IH [OF _ this(1)] False have "m div 10 = n div 10" by simp
    moreover have "m mod 10 = n mod 10" using digit_inj [OF _ _ last] by simp
    ultimately show ?thesis by (metis div_mult_mod_eq)
  qed
qed

lemma show_nat_digits: "c \<in> set (show_nat n) \<Longrightarrow> \<exists>d :: nat. d < 10 \<and> c = char_of (48 + d)"
proof (induction n rule: show_nat.induct)
  case (1 n)
  show ?case
  proof (cases "n < 10")
    case True
    with "1.prems" show ?thesis by (subst (asm) show_nat.simps) auto
  next
    case False
    with "1.prems" have "c \<in> set (show_nat (n div 10)) \<or> c = char_of (48 + n mod 10)"
      by (subst (asm) show_nat.simps) auto
    with False "1.IH" show ?thesis by (auto intro: exI [of _ "n mod 10"])
  qed
qed

lemma colon_not_in_show_nat [simp]: "CHR '':'' \<notin> set (show_nat n)"
proof
  assume "CHR '':'' \<in> set (show_nat n)"
  from show_nat_digits [OF this] obtain d :: nat where "d < 10" "CHR '':'' = char_of (48 + d)" by blast
  then have "of_char CHR '':'' = 48 + d" by (simp add: of_char_char_of_small)
  then show False using \<open>d < 10\<close> by simp
qed

lemma append_sep_inj:
  "c \<notin> set a \<Longrightarrow> c \<notin> set b \<Longrightarrow> a @ c # s = b @ c # t \<longleftrightarrow> a = b \<and> s = t"
proof (induction a arbitrary: b)
  case Nil
  then show ?case by (cases b) auto
next
  case (Cons x a)
  then show ?case by (cases b) auto
qed

lemma prefix_append_sep:
  "c \<notin> set a \<Longrightarrow> c \<notin> set b \<Longrightarrow> prefix (a @ c # s) (b @ c # t) \<longleftrightarrow> a = b \<and> prefix s t"
  by (auto simp: prefix_def append_sep_inj)

end
