(* ===== verification/Bridge_Channel.thy ===== *)
theory Bridge_Channel
  imports Requests Js_String
begin

text \<open>
  The control port of the tab bridge (\<open>content/isolated/bridge.js\<close>): the queue of requests to the
  background, the handshakes that do not wait in it, the messages of the background and the
  disconnection of the port.  Each \<open>new Promise\<close> of the code is a number; a settled promise is an
  entry of a log.  The posts are logged, \<open>throws q\<close> says that posting the request throws.
\<close>

section \<open>The control port\<close>

text \<open>Every request of the bridge to the background is a promise with a number; requests to the
  background wait in a queue, one of them is outstanding, handshakes wait under their own id.\<close>

datatype 'r channel_outcome = Answered 'r | Failed

datatype 'e channel_effect =
    GlobalResetSeen
  | AllowedDevicesSeen string "nat list"
  | DeviceEventSeen 'e

record ('q, 'e, 'r) channel =
  ch_queue :: "('q \<times> nat) list"
  ch_pending :: "nat option"
  ch_handshakes :: "(string, nat) js_map"
  ch_nextHandshake :: nat
  ch_promises :: nat
  ch_issued :: "nat list"
  ch_settled :: "(nat \<times> 'r channel_outcome) list"
  ch_posted :: "(nat \<times> 'q) list"  \<comment> \<open>the queued requests posted on the port, in order\<close>
  ch_handshakes_posted :: "string list"
  ch_effects :: "'e channel_effect list"

definition initial_channel :: "('q, 'e, 'r) channel" where
  "initial_channel = \<lparr>ch_queue = [], ch_pending = None, ch_handshakes = [], ch_nextHandshake = 0,
     ch_promises = 0, ch_issued = [], ch_settled = [], ch_posted = [], ch_handshakes_posted = [],
     ch_effects = []\<rparr>"

definition ch_settle :: "nat \<Rightarrow> 'r channel_outcome \<Rightarrow> ('q, 'e, 'r) channel \<Rightarrow> ('q, 'e, 'r) channel" where
  "ch_settle p x s = s\<lparr>ch_settled := ch_settled s @ [(p, x)]\<rparr>"

definition ch_effect :: "'e channel_effect \<Rightarrow> ('q, 'e, 'r) channel \<Rightarrow> ('q, 'e, 'r) channel" where
  "ch_effect x s = s\<lparr>ch_effects := ch_effects s @ [x]\<rparr>"

text \<open>\<open>throws q\<close>: posting the request throws, as it does for any request once the port is
  disconnected.\<close>

function pumpControlQueue :: "('q \<Rightarrow> bool) \<Rightarrow> ('q, 'e, 'r) channel \<Rightarrow> ('q, 'e, 'r) channel" where
  "pumpControlQueue throws s =
     (if ch_pending s \<noteq> None then s
      else case ch_queue s of
             [] \<Rightarrow> s
           | (q, p) # rest \<Rightarrow>
               if throws q
               then pumpControlQueue throws (ch_settle p Failed (s\<lparr>ch_queue := rest\<rparr>))
               else s\<lparr>ch_queue := rest, ch_pending := Some p, ch_posted := ch_posted s @ [(p, q)]\<rparr>)"
  by pat_completeness auto

termination
  by (relation "measure (\<lambda>(_, s). length (ch_queue s))") (auto simp: ch_settle_def)

declare pumpControlQueue.simps [simp del]

definition new_channel_promise :: "('q, 'e, 'r) channel \<Rightarrow> nat \<times> ('q, 'e, 'r) channel" where
  "new_channel_promise s =
     (ch_promises s, s\<lparr>ch_promises := ch_promises s + 1, ch_issued := ch_issued s @ [ch_promises s]\<rparr>)"

definition sendBackgroundRequest ::
    "('q \<Rightarrow> bool) \<Rightarrow> 'q \<Rightarrow> ('q, 'e, 'r) channel \<Rightarrow> nat \<times> ('q, 'e, 'r) channel" where
  "sendBackgroundRequest throws q s =
     (let (p, s1) = new_channel_promise s
      in (p, pumpControlQueue throws (s1\<lparr>ch_queue := ch_queue s1 @ [(q, p)]\<rparr>)))"

definition handshake_id :: "nat \<Rightarrow> string" where
  "handshake_id n = ''handshake:'' @ show_nat n"

definition sendHandshakeRequest :: "bool \<Rightarrow> ('q, 'e, 'r) channel \<Rightarrow> nat \<times> ('q, 'e, 'r) channel" where
  "sendHandshakeRequest throws s =
     (let (p, s1) = new_channel_promise s;
          n = ch_nextHandshake s1 + 1;
          reqId = handshake_id n;
          s2 = s1\<lparr>ch_nextHandshake := n, ch_handshakes := map_set (ch_handshakes s1) reqId p\<rparr>
      in (p, if throws then ch_settle p Failed (s2\<lparr>ch_handshakes := map_delete (ch_handshakes s2) reqId\<rparr>)
             else s2\<lparr>ch_handshakes_posted := ch_handshakes_posted s2 @ [reqId]\<rparr>))"

text \<open>A message of the background: absent strings are empty.\<close>

record ('e, 'r) channel_message =
  cm_action :: string
  cm_origin :: string
  cm_deviceIds :: "nat list"
  cm_event :: "'e option"
  cm_reqId :: "string option"
  cm_body :: 'r

text \<open>The answer to the outstanding request, and the next request.\<close>

definition answer_pending ::
    "('q \<Rightarrow> bool) \<Rightarrow> 'r \<Rightarrow> ('q, 'e, 'r) channel \<Rightarrow> ('q, 'e, 'r) channel" where
  "answer_pending throws body s =
     (case ch_pending s of
        None \<Rightarrow> s
      | Some p \<Rightarrow> pumpControlQueue throws (ch_settle p (Answered body) (s\<lparr>ch_pending := None\<rparr>)))"

definition controlMessage ::
    "string \<Rightarrow> ('q \<Rightarrow> bool) \<Rightarrow> ('e, 'r) channel_message \<Rightarrow> ('q, 'e, 'r) channel \<Rightarrow> ('q, 'e, 'r) channel" where
  "controlMessage windowOrigin throws m s =
     (if cm_action m = ''globalReset'' then ch_effect GlobalResetSeen s
      else if cm_action m = ''allowedDevicesChanged''
      then ch_effect (AllowedDevicesSeen (if cm_origin m = [] then windowOrigin else cm_origin m) (cm_deviceIds m)) s
      else case (cm_action m = ''webhidDeviceEvent'', cm_event m) of
             (True, Some ev) \<Rightarrow> ch_effect (DeviceEventSeen ev) s
           | _ \<Rightarrow>
               (case Option.bind (cm_reqId m) (map_get (ch_handshakes s)) of
                  Some p \<Rightarrow>
                    ch_settle p (Answered (cm_body m))
                      (s\<lparr>ch_handshakes := map_delete (ch_handshakes s) (the (cm_reqId m))\<rparr>)
                | None \<Rightarrow> answer_pending throws (cm_body m) s))"

text \<open>The disconnection of the port rejects everything that waits.\<close>

definition controlDisconnected :: "('q, 'e, 'r) channel \<Rightarrow> ('q, 'e, 'r) channel" where
  "controlDisconnected s =
     (let s1 = fold (\<lambda>e. ch_settle (snd e) Failed) (ch_handshakes s) s;
          s2 = (case ch_pending s1 of None \<Rightarrow> s1 | Some p \<Rightarrow> (ch_settle p Failed s1)\<lparr>ch_pending := None\<rparr>);
          s3 = fold (\<lambda>e. ch_settle (snd e) Failed) (ch_queue s2) (s2\<lparr>ch_handshakes := []\<rparr>)
      in ch_effect GlobalResetSeen (s3\<lparr>ch_queue := []\<rparr>))"

datatype ('q, 'e, 'r) channel_event =
    BackgroundRequest "'q \<Rightarrow> bool" 'q
  | HandshakeRequest bool
  | ControlMessage string "'q \<Rightarrow> bool" "('e, 'r) channel_message"
  | ControlGone

fun channel_step :: "('q, 'e, 'r) channel_event \<Rightarrow> ('q, 'e, 'r) channel \<Rightarrow> ('q, 'e, 'r) channel" where
  "channel_step (BackgroundRequest throws q) s = snd (sendBackgroundRequest throws q s)"
| "channel_step (HandshakeRequest throws) s = snd (sendHandshakeRequest throws s)"
| "channel_step (ControlMessage windowOrigin throws m) s = controlMessage windowOrigin throws m s"
| "channel_step ControlGone s = controlDisconnected s"

section \<open>The channel keeps the contract of requests\<close>

definition channel_waiting :: "('q, 'e, 'r) channel \<Rightarrow> nat list" where
  "channel_waiting s = map snd (ch_handshakes s) @ (case ch_pending s of None \<Rightarrow> [] | Some p \<Rightarrow> [p]) @ map snd (ch_queue s)"

text \<open>The posted requests among the settled ones, in the order they were settled.\<close>

definition answered_of :: "nat list \<Rightarrow> nat list \<Rightarrow> nat list" where
  "answered_of posted settled = filter (\<lambda>p. p \<in> set posted) settled"

lemma answered_of_append: "answered_of P (S @ T) = answered_of P S @ answered_of P T"
  by (simp add: answered_of_def)

lemma answered_of_others: "set P \<inter> set S = {} \<Longrightarrow> answered_of P S = []"
  by (auto simp: answered_of_def filter_empty_conv)

lemma answered_of_one: "p \<in> set P \<Longrightarrow> answered_of P [p] = [p]"
  by (simp add: answered_of_def)

lemma answered_of_new: "p \<notin> set S \<Longrightarrow> answered_of (P @ [p]) S = answered_of P S"
  by (auto simp: answered_of_def intro!: filter_cong)

lemma set_answered_of: "set (answered_of P S) \<subseteq> set S"
  by (auto simp: answered_of_def)

text \<open>Its invariant: every promise waits in one place or was settled once; an outstanding request is
  there whenever the queue is not empty; the requests posted were answered in the order they were
  posted, the last of them may be outstanding; a posted request was queued before those that wait.\<close>

definition channel_core :: "('q, 'e, 'r) channel \<Rightarrow> bool" where
  "channel_core s \<longleftrightarrow>
     mset (ch_issued s) = mset (channel_waiting s) + mset (map fst (ch_settled s))
     \<and> distinct (ch_issued s) \<and> (\<forall>p \<in> set (ch_issued s). p < ch_promises s)
     \<and> map_wf (ch_handshakes s) \<and> (\<forall>k \<in> set (map_keys (ch_handshakes s)). \<exists>n \<le> ch_nextHandshake s. k = handshake_id n)
     \<and> answered_of (map fst (ch_posted s)) (map fst (ch_settled s))
         @ (case ch_pending s of None \<Rightarrow> [] | Some p \<Rightarrow> [p]) = map fst (ch_posted s)
     \<and> sorted (map fst (ch_posted s) @ map snd (ch_queue s))"

definition channel_wf :: "('q, 'e, 'r) channel \<Rightarrow> bool" where
  "channel_wf s \<longleftrightarrow> channel_core s \<and> (ch_pending s = None \<longrightarrow> ch_queue s = [])"

text \<open>The pump in closed form: the requests that cannot be posted are rejected, the first one that
  can becomes the outstanding one.\<close>

lemma pump_eq:
  "pumpControlQueue throws s =
     (if ch_pending s \<noteq> None then s
      else let bad = takeWhile (\<lambda>e. throws (fst e)) (ch_queue s);
               s1 = s\<lparr>ch_settled := ch_settled s @ map (\<lambda>e. (snd e, Failed)) bad\<rparr>
           in case dropWhile (\<lambda>e. throws (fst e)) (ch_queue s) of
                [] \<Rightarrow> s1\<lparr>ch_queue := []\<rparr>
              | (q, p) # rest \<Rightarrow> s1\<lparr>ch_queue := rest, ch_pending := Some p, ch_posted := ch_posted s @ [(p, q)]\<rparr>)"
proof (induction throws s rule: pumpControlQueue.induct)
  case (1 throws s)
  show ?case
  proof (cases "ch_pending s \<noteq> None \<or> ch_queue s = []")
    case True
    then show ?thesis by (auto simp: pumpControlQueue.simps [of throws s] Let_def)
  next
    case False
    then obtain q p rest where q: "ch_queue s = (q, p) # rest" "ch_pending s = None"
      by (cases "ch_queue s") auto
    show ?thesis
    proof (cases "throws q")
      case True
      have "pumpControlQueue throws s = pumpControlQueue throws (ch_settle p Failed (s\<lparr>ch_queue := rest\<rparr>))"
        using q True by (simp add: pumpControlQueue.simps [of throws s])
      moreover obtain ys where "dropWhile (\<lambda>e. throws (fst e)) rest = ys" by simp
      ultimately show ?thesis using 1 [OF _ q(1) refl True] q True
        by (cases ys) (auto simp: ch_settle_def Let_def simp del: dropWhile_eq_Nil_conv)
    next
      case False
      with q show ?thesis by (simp add: pumpControlQueue.simps [of throws s] Let_def)
    qed
  qed
qed

lemma core_distinct:
  assumes "channel_core s"
  shows "distinct (channel_waiting s @ map fst (ch_settled s))"
    "set (ch_issued s) = set (channel_waiting s) \<union> set (map fst (ch_settled s))"
    "set (map fst (ch_posted s)) \<subseteq> set (map fst (ch_settled s)) \<union> set_option (ch_pending s)"
proof -
  have m: "mset (channel_waiting s @ map fst (ch_settled s)) = mset (ch_issued s)" "distinct (ch_issued s)"
    using assms by (simp_all add: channel_core_def)
  then show "distinct (channel_waiting s @ map fst (ch_settled s))" by (metis mset_eq_imp_distinct_iff)
  show "set (ch_issued s) = set (channel_waiting s) \<union> set (map fst (ch_settled s))"
    using m(1) by (metis set_append set_mset_mset)
  have "answered_of (map fst (ch_posted s)) (map fst (ch_settled s))
      @ (case ch_pending s of None \<Rightarrow> [] | Some p \<Rightarrow> [p]) = map fst (ch_posted s)"
    using assms by (simp add: channel_core_def)
  from arg_cong [OF this, of set]
  show "set (map fst (ch_posted s)) \<subseteq> set (map fst (ch_settled s)) \<union> set_option (ch_pending s)"
    using set_answered_of [of "map fst (ch_posted s)" "map fst (ch_settled s)"]
    by (cases "ch_pending s") (simp_all, blast+)
qed

lemma posted_issued:
  assumes "channel_core s"
  shows "set (map fst (ch_posted s)) \<subseteq> set (ch_issued s)"
proof -
  have "set_option (ch_pending s) \<subseteq> set (channel_waiting s)"
    by (cases "ch_pending s") (simp_all add: channel_waiting_def)
  with core_distinct(2,3) [OF assms] show ?thesis by blast
qed

lemma core_reject:
  assumes "channel_core s" "ch_pending s = None" "ch_queue s = (q, p) # rest"
  shows "channel_core (ch_settle p Failed (s\<lparr>ch_queue := rest\<rparr>))"
proof -
  have "p \<notin> set (map fst (ch_posted s))"
    using core_distinct [OF assms(1)] assms(2,3) by (auto simp: channel_waiting_def)
  with assms show ?thesis
    by (simp add: channel_core_def channel_waiting_def ch_settle_def sorted_append answered_of_append
        answered_of_others)
qed

lemma core_post:
  assumes "channel_core s" "ch_pending s = None" "ch_queue s = (q, p) # rest"
  shows "channel_core (s\<lparr>ch_queue := rest, ch_pending := Some p, ch_posted := ch_posted s @ [(p, q)]\<rparr>)"
proof -
  have "p \<notin> set (map fst (ch_settled s))"
    using core_distinct [OF assms(1)] assms(2,3) by (auto simp: channel_waiting_def)
  with assms show ?thesis
    by (auto simp: channel_core_def channel_waiting_def sorted_append answered_of_new)
qed

lemma pump_wf:
  assumes "channel_core s"
  shows "channel_wf (pumpControlQueue throws s)"
  using assms
proof (induction throws s rule: pumpControlQueue.induct)
  case (1 throws s)
  show ?case
  proof (cases "ch_pending s \<noteq> None \<or> ch_queue s = []")
    case True
    then show ?thesis using 1(2) by (auto simp: pumpControlQueue.simps [of throws s] channel_wf_def)
  next
    case False
    then obtain q p rest where q: "ch_queue s = (q, p) # rest" "ch_pending s = None"
      by (cases "ch_queue s") auto
    show ?thesis
    proof (cases "throws q")
      case True
      with 1(1) [OF _ q(1) refl True core_reject [OF 1(2) q(2,1)]] q show ?thesis
        by (simp add: pumpControlQueue.simps [of throws s])
    next
      case False
      with q core_post [OF 1(2) q(2,1)] show ?thesis
        by (simp add: pumpControlQueue.simps [of throws s] channel_wf_def)
    qed
  qed
qed

lemma pump_grows:
  "prefix (ch_settled s) (ch_settled (pumpControlQueue throws s))" "ch_issued (pumpControlQueue throws s) = ch_issued s"
  "ch_promises (pumpControlQueue throws s) = ch_promises s"
  by (simp_all add: pump_eq Let_def split: list.split)

lemma core_new_promise:
  assumes "channel_core s"
  shows "channel_core (s\<lparr>ch_promises := ch_promises s + 1, ch_issued := ch_issued s @ [ch_promises s],
      ch_queue := ch_queue s @ [(q, ch_promises s)]\<rparr>)"
    and "channel_core (s\<lparr>ch_promises := ch_promises s + 1, ch_issued := ch_issued s @ [ch_promises s],
      ch_settled := ch_settled s @ [(ch_promises s, x)]\<rparr>)"
proof -
  have less: "\<forall>p \<in> set (ch_issued s). p < ch_promises s" using assms by (simp add: channel_core_def)
  have posted: "p < ch_promises s" if "p \<in> set (map fst (ch_posted s))" for p
    using posted_issued [OF assms] that less by blast
  have queue: "p < ch_promises s" if "p \<in> set (map snd (ch_queue s))" for p
    using core_distinct(2) [OF assms] that less by (auto simp: channel_waiting_def)
  show "channel_core (s\<lparr>ch_promises := ch_promises s + 1, ch_issued := ch_issued s @ [ch_promises s],
      ch_queue := ch_queue s @ [(q, ch_promises s)]\<rparr>)"
    using assms less posted queue
    by (auto simp: channel_core_def channel_waiting_def sorted_append less_Suc_eq less_imp_le)
  have "ch_promises s \<notin> set (map fst (ch_posted s))" using posted by blast
  then show "channel_core (s\<lparr>ch_promises := ch_promises s + 1, ch_issued := ch_issued s @ [ch_promises s],
      ch_settled := ch_settled s @ [(ch_promises s, x)]\<rparr>)"
    using assms less by (auto simp: channel_core_def channel_waiting_def less_Suc_eq answered_of_append answered_of_others)
qed

lemma handshake_id_inj: "handshake_id m = handshake_id n \<longleftrightarrow> m = n"
  by (auto simp: handshake_id_def dest: show_nat_inj)

lemma core_new_handshake:
  assumes "channel_core s" and k: "k = handshake_id (ch_nextHandshake s + 1)"
  shows "channel_core (s\<lparr>ch_promises := ch_promises s + 1, ch_issued := ch_issued s @ [ch_promises s],
      ch_nextHandshake := ch_nextHandshake s + 1, ch_handshakes := ch_handshakes s @ [(k, ch_promises s)]\<rparr>)"
    "k \<notin> set (map_keys (ch_handshakes s))"
proof -
  have ids: "\<forall>k \<in> set (map_keys (ch_handshakes s)). \<exists>n \<le> ch_nextHandshake s. k = handshake_id n"
    using assms by (simp add: channel_core_def)
  then show new: "k \<notin> set (map_keys (ch_handshakes s))"
    unfolding k by (fastforce simp: handshake_id_inj simp del: set_map)
  have "ch_promises s \<notin> set (ch_issued s)" using assms(1) by (auto simp: channel_core_def)
  moreover have "\<forall>k' \<in> set (map_keys (ch_handshakes s @ [(k, ch_promises s)])).
      \<exists>n \<le> ch_nextHandshake s + 1. k' = handshake_id n"
    using ids k by (auto intro: le_SucI)
  ultimately show "channel_core (s\<lparr>ch_promises := ch_promises s + 1, ch_issued := ch_issued s @ [ch_promises s],
      ch_nextHandshake := ch_nextHandshake s + 1, ch_handshakes := ch_handshakes s @ [(k, ch_promises s)]\<rparr>)"
    using assms(1) new unfolding channel_core_def channel_waiting_def
    by (simp add: less_Suc_eq)
qed

lemma core_handshake_answer:
  assumes "channel_core s" "map_get (ch_handshakes s) k = Some p"
  shows "channel_core (s\<lparr>ch_handshakes := map_delete (ch_handshakes s) k, ch_settled := ch_settled s @ [(p, x)]\<rparr>)"
proof -
  have in_table: "p \<in> snd ` set (ch_handshakes s)" using assms(2) by (force dest: map_of_SomeD)
  have dist: "distinct (channel_waiting s @ map fst (ch_settled s))" by (rule core_distinct [OF assms(1)])
  have "p \<notin> set_option (ch_pending s)" "p \<notin> set (map fst (ch_settled s))"
    using in_table dist by (cases "ch_pending s"; auto simp: channel_waiting_def)+
  then have fresh: "p \<notin> set (map fst (ch_posted s))" using core_distinct(3) [OF assms(1)] by blast
  have wf: "map_wf (ch_handshakes s)" using assms(1) by (simp add: channel_core_def)
  have "set (map_keys (map_delete (ch_handshakes s) k)) \<subseteq> set (map_keys (ch_handshakes s))"
    unfolding keys_map_delete by auto
  then show ?thesis
    using assms(1) mset_map_delete [OF wf assms(2)] map_wf_delete [OF wf, of k] fresh
    unfolding channel_core_def channel_waiting_def
    by (simp add: answered_of_append answered_of_others del: set_map) blast
qed

lemma core_pending_answer:
  assumes "channel_core s" "ch_pending s = Some p"
  shows "channel_core (s\<lparr>ch_pending := None, ch_settled := ch_settled s @ [(p, x)]\<rparr>)"
proof -
  have "answered_of (map fst (ch_posted s)) (map fst (ch_settled s)) @ [p] = map fst (ch_posted s)"
    using assms by (simp add: channel_core_def)
  from arg_cong [OF this, of set] have "p \<in> set (map fst (ch_posted s))" by auto
  with assms show ?thesis
    by (simp add: channel_core_def channel_waiting_def answered_of_append answered_of_one del: set_map)
qed

lemma fold_settle_failed:
  "fold (\<lambda>e. ch_settle (snd e) Failed) es s = s\<lparr>ch_settled := ch_settled s @ map (\<lambda>e. (snd e, Failed)) es\<rparr>"
  by (induction es arbitrary: s) (simp_all add: ch_settle_def)

lemma controlDisconnected_eq:
  "controlDisconnected s = s\<lparr>ch_settled := ch_settled s @ map (\<lambda>p. (p, Failed)) (channel_waiting s),
     ch_handshakes := [], ch_pending := None, ch_queue := [], ch_effects := ch_effects s @ [GlobalResetSeen]\<rparr>"
  by (simp add: controlDisconnected_def fold_settle_failed channel_waiting_def ch_effect_def ch_settle_def
      Let_def split: option.split)

lemma core_disconnected:
  assumes "channel_core s"
  shows "channel_core (controlDisconnected s)"
proof -
  let ?H = "map snd (ch_handshakes s)" and ?Q = "map snd (ch_queue s)" and ?P = "map fst (ch_posted s)"
  let ?W = "case ch_pending s of None \<Rightarrow> [] | Some p \<Rightarrow> [p]"
  have dist: "distinct (?H @ ?W @ ?Q @ map fst (ch_settled s))"
    using core_distinct(1) [OF assms] by (simp only: channel_waiting_def append_assoc)
  moreover have "set ?P \<subseteq> set (map fst (ch_settled s)) \<union> set ?W"
    using core_distinct(3) [OF assms] by (cases "ch_pending s") simp_all
  ultimately have "set ?P \<inter> set ?H = {}" "set ?P \<inter> set ?Q = {}"
    unfolding distinct_append set_append by blast+
  then have "answered_of ?P (channel_waiting s) = answered_of ?P (case ch_pending s of None \<Rightarrow> [] | Some p \<Rightarrow> [p])"
    by (simp add: channel_waiting_def answered_of_append answered_of_others)
  also have "\<dots> = (case ch_pending s of None \<Rightarrow> [] | Some p \<Rightarrow> [p])"
  proof (cases "ch_pending s")
    case (Some p)
    then have "answered_of ?P (map fst (ch_settled s)) @ [p] = ?P" using assms by (simp add: channel_core_def)
    from arg_cong [OF this, of set] have "p \<in> set ?P" by auto
    with Some show ?thesis by (simp add: answered_of_one)
  qed (simp add: answered_of_def)
  finally have pend: "answered_of ?P (channel_waiting s) = (case ch_pending s of None \<Rightarrow> [] | Some p \<Rightarrow> [p])" .
  have q: "sorted ?P" using assms by (simp add: channel_core_def sorted_append)
  show ?thesis
    using assms pend q unfolding controlDisconnected_eq channel_core_def
    by (simp add: answered_of_append channel_waiting_def [of "_\<lparr>ch_effects := _\<rparr>"] comp_def)
qed

lemma channel_core_effect [simp]: "channel_core (ch_effect x s) = channel_core s"
  "channel_wf (ch_effect x s) = channel_wf s"
  by (simp_all add: channel_core_def channel_wf_def channel_waiting_def ch_effect_def)

lemma channel_core_handshakes_posted [simp]:
  "channel_core (s\<lparr>ch_handshakes_posted := x\<rparr>) = channel_core s"
  by (simp add: channel_core_def channel_waiting_def)

lemma background_request_wf:
  assumes "channel_wf s"
  shows "channel_wf (snd (sendBackgroundRequest throws q s))"
proof -
  have "channel_core s" using assms by (simp add: channel_wf_def)
  from pump_wf [OF core_new_promise(1) [OF this]] show ?thesis
    by (simp add: sendBackgroundRequest_def new_channel_promise_def)
qed

lemma handshake_request_eq:
  assumes "channel_core s"
  shows "snd (sendHandshakeRequest throws s) =
     (let k = handshake_id (ch_nextHandshake s + 1);
          s1 = s\<lparr>ch_promises := ch_promises s + 1, ch_issued := ch_issued s @ [ch_promises s]\<rparr>
      in if throws then s1\<lparr>ch_settled := ch_settled s @ [(ch_promises s, Failed)], ch_nextHandshake := ch_nextHandshake s + 1\<rparr>
         else s1\<lparr>ch_nextHandshake := ch_nextHandshake s + 1, ch_handshakes := ch_handshakes s @ [(k, ch_promises s)],
                 ch_handshakes_posted := ch_handshakes_posted s @ [k]\<rparr>)"
  using map_set_new [OF core_new_handshake(2) [OF assms refl]] map_delete_new [OF core_new_handshake(2) [OF assms refl]]
  by (simp add: sendHandshakeRequest_def new_channel_promise_def ch_settle_def Let_def)

lemma core_next_handshake: "channel_core s \<Longrightarrow> channel_core (s\<lparr>ch_nextHandshake := ch_nextHandshake s + 1\<rparr>)"
proof -
  assume core: "channel_core s"
  then have "\<forall>k \<in> set (map_keys (ch_handshakes s)). \<exists>n \<le> ch_nextHandshake s + 1. k = handshake_id n"
    unfolding channel_core_def by (metis trans_le_add1)
  with core show ?thesis by (simp add: channel_core_def channel_waiting_def del: set_map)
qed

lemma handshake_request_wf:
  assumes "channel_wf s"
  shows "channel_wf (snd (sendHandshakeRequest throws s))"
proof -
  have core: "channel_core s" and idle: "ch_pending s = None \<longrightarrow> ch_queue s = []"
    using assms by (simp_all add: channel_wf_def)
  have "channel_core (snd (sendHandshakeRequest throws s))"
    using core_next_handshake [OF core_new_promise(2) [OF core]] core_new_handshake(1) [OF core refl]
    by (cases throws) (simp_all add: handshake_request_eq [OF core] Let_def)
  with idle show ?thesis by (simp add: channel_wf_def handshake_request_eq [OF core] Let_def)
qed

lemma answer_pending_wf:
  assumes "channel_wf s"
  shows "channel_wf (answer_pending throws body s)"
proof (cases "ch_pending s")
  case None
  with assms show ?thesis by (simp add: answer_pending_def)
next
  case (Some p)
  have core: "channel_core s" using assms by (simp add: channel_wf_def)
  from Some pump_wf [OF core_pending_answer [OF core Some]] show ?thesis
    by (simp add: answer_pending_def ch_settle_def)
qed

lemma control_message_wf:
  assumes "channel_wf s"
  shows "channel_wf (controlMessage windowOrigin throws m s)"
proof (cases "Option.bind (cm_reqId m) (map_get (ch_handshakes s))")
  case None
  with answer_pending_wf [OF assms] assms show ?thesis
    by (simp add: controlMessage_def split: option.split bool.split)
next
  case (Some p)
  then obtain k where k: "cm_reqId m = Some k" "map_get (ch_handshakes s) k = Some p"
    by (cases "cm_reqId m") auto
  have core: "channel_core s" and idle: "ch_pending s = None \<longrightarrow> ch_queue s = []"
    using assms by (simp_all add: channel_wf_def)
  from core_handshake_answer [OF core k(2)] idle
  have "channel_wf (ch_settle p (Answered (cm_body m)) (s\<lparr>ch_handshakes := map_delete (ch_handshakes s) k\<rparr>))"
    by (simp add: channel_wf_def ch_settle_def)
  with k assms show ?thesis by (simp add: controlMessage_def split: option.split bool.split)
qed

lemma channel_step_wf: "channel_wf s \<Longrightarrow> channel_wf (channel_step e s)"
proof (cases e)
  case ControlGone
  assume "channel_wf s"
  then have "channel_core s" by (simp add: channel_wf_def)
  from core_disconnected [OF this] ControlGone show ?thesis
    by (simp add: channel_wf_def controlDisconnected_eq)
qed (simp_all add: background_request_wf handshake_request_wf control_message_wf)

lemma channel_step_grows:
  assumes "channel_wf s"
  shows "prefix (ch_settled s) (ch_settled (channel_step e s))" "prefix (ch_issued s) (ch_issued (channel_step e s))"
proof -
  have core: "channel_core s" using assms by (simp add: channel_wf_def)
  show "prefix (ch_settled s) (ch_settled (channel_step e s))"
  proof (cases e)
    case (ControlMessage w throws m)
    show ?thesis
    proof (cases "ch_pending s")
      case None
      with ControlMessage show ?thesis
        by (simp add: controlMessage_def answer_pending_def ch_effect_def ch_settle_def split: option.split bool.split)
    next
      case (Some p)
      then have "prefix (ch_settled s) (ch_settled (answer_pending throws (cm_body m) s))"
        using pump_grows(1) [of "ch_settle p (Answered (cm_body m)) (s\<lparr>ch_pending := None\<rparr>)" throws]
        by (auto simp: answer_pending_def ch_settle_def prefix_def)
      with ControlMessage show ?thesis
        by (simp add: controlMessage_def ch_effect_def ch_settle_def split: option.split bool.split)
    qed
  next
    case (BackgroundRequest throws q)
    show ?thesis
      using pump_grows(1) [of "s\<lparr>ch_promises := ch_promises s + 1, ch_issued := ch_issued s @ [ch_promises s],
          ch_queue := ch_queue s @ [(q, ch_promises s)]\<rparr>" throws] BackgroundRequest
      by (simp add: sendBackgroundRequest_def new_channel_promise_def)
  qed (simp_all add: handshake_request_eq [OF core] controlDisconnected_eq Let_def)
  show "prefix (ch_issued s) (ch_issued (channel_step e s))"
    by (cases e) (simp_all add: sendBackgroundRequest_def new_channel_promise_def Let_def pump_grows
      handshake_request_eq [OF core] controlDisconnected_eq controlMessage_def answer_pending_def
      ch_effect_def ch_settle_def split: option.split bool.split)
qed

lemma channel_conserved:
  "channel_wf s \<Longrightarrow> mset (ch_issued s) = mset (channel_waiting s) + mset (map fst (ch_settled s))"
  "channel_wf s \<Longrightarrow> distinct (ch_issued s)"
  by (simp_all add: channel_wf_def channel_core_def)

interpretation channel: requests channel_step ch_issued channel_waiting ch_settled channel_wf
  by unfold_locales (auto intro: channel_step_wf channel_step_grows dest: channel_conserved)

lemma initial_channel_wf: "channel_wf initial_channel"
  by (simp add: initial_channel_def channel_wf_def channel_core_def channel_waiting_def answered_of_def)

section \<open>What a run of the control port guarantees\<close>

text \<open>C17: Whatever the bridge asks and the background answers, no promise of the control port is
  settled twice, none is both waiting and settled, every promise is one of the two, and its answer
  is final; the queued requests are posted in the order they were made and answered in the order
  they were posted, at most one of them is outstanding, and one is whenever any waits.\<close>

theorem control_port_in_order:
  fixes es fs :: "('q, 'e, 'r) channel_event list"
  shows "let s = fold channel_step es initial_channel; t = fold channel_step (es @ fs) initial_channel
    in distinct (channel_waiting s @ map fst (ch_settled s))
       \<and> set (ch_issued s) = set (channel_waiting s) \<union> fst ` set (ch_settled s)
       \<and> prefix (ch_settled s) (ch_settled t)
       \<and> sorted (map fst (ch_posted s) @ map snd (ch_queue s))
       \<and> filter (\<lambda>p. p \<in> fst ` set (ch_posted s)) (map fst (ch_settled s))
           @ (case ch_pending s of None \<Rightarrow> [] | Some p \<Rightarrow> [p]) = map fst (ch_posted s)
       \<and> (ch_queue s = [] \<or> (\<exists>p. ch_pending s = Some p))"
proof -
  define s :: "('q, 'e, 'r) channel" where "s = fold channel_step es initial_channel"
  have wf: "channel_wf s" unfolding s_def by (rule channel.inv_run [OF initial_channel_wf])
  then have core: "channel_core s" and idle: "ch_queue s = [] \<or> (\<exists>p. ch_pending s = Some p)"
    by (auto simp: channel_wf_def)
  have "prefix (ch_settled s) (ch_settled (fold channel_step (es @ fs) initial_channel))"
    using channel.settled_run [OF wf, of fs] by (simp add: s_def)
  with idle core core_distinct(1) [OF core] channel.issued_waiting_or_settled [OF wf] show ?thesis
    unfolding s_def [symmetric] by (simp add: channel_core_def answered_of_def Let_def del: distinct_append)
qed

text \<open>Posting never loops: the pump returns for every queue, rejects in order exactly the
  requests in front that cannot be posted, makes the first one that can outstanding, and leaves the
  rest in the queue.\<close>

theorem pump_posts_first_sendable:
  "pumpControlQueue throws s =
     (if ch_pending s \<noteq> None then s
      else let bad = takeWhile (\<lambda>e. throws (fst e)) (ch_queue s);
               s1 = s\<lparr>ch_settled := ch_settled s @ map (\<lambda>e. (snd e, Failed)) bad\<rparr>
           in case dropWhile (\<lambda>e. throws (fst e)) (ch_queue s) of
                [] \<Rightarrow> s1\<lparr>ch_queue := []\<rparr>
              | (q, p) # rest \<Rightarrow> s1\<lparr>ch_queue := rest, ch_pending := Some p, ch_posted := ch_posted s @ [(p, q)]\<rparr>)"
  by (rule pump_eq)

end
