(* ===== verification/Js_Store.thy ===== *)
theory Js_Store
  imports Js_Prelude
begin

text \<open>
  The interface through which the components use a keyed store, as a locale, and its two
  providers: the \<open>Map\<close> of JavaScript and the two-level \<open>Map\<close> of \<open>Map\<close>s that the background
  page keeps for tabs, sessions and frames (an inner map is created on demand and removed with
  its last entry).
\<close>

section \<open>The interface\<close>

locale store =
  fixes get :: "'s \<Rightarrow> 'k \<Rightarrow> 'v option"
    and put :: "'s \<Rightarrow> 'k \<Rightarrow> 'v \<Rightarrow> 's"
    and remove :: "'s \<Rightarrow> 'k \<Rightarrow> 's"
    and inv :: "'s \<Rightarrow> bool"
  assumes get_put: "inv s \<Longrightarrow> get (put s k v) k' = (if k' = k then Some v else get s k')"
    and get_remove: "inv s \<Longrightarrow> get (remove s k) k' = (if k' = k then None else get s k')"
    and inv_put: "inv s \<Longrightarrow> inv (put s k v)"
    and inv_remove: "inv s \<Longrightarrow> inv (remove s k)"
begin

lemma inv_remove_all: "inv s \<Longrightarrow> inv (fold (\<lambda>k s. remove s k) ks s)"
  by (induction ks arbitrary: s) (auto intro: inv_remove)

lemma get_remove_all:
  "inv s \<Longrightarrow> get (fold (\<lambda>k s. remove s k) ks s) k = (if k \<in> set ks then None else get s k)"
  by (induction ks arbitrary: s) (auto simp: get_remove inv_remove)

lemma inv_put_all: "inv s \<Longrightarrow> inv (fold (\<lambda>(k, v) s. put s k v) kvs s)"
  by (induction kvs arbitrary: s) (auto intro: inv_put)

lemma get_put_all:
  "inv s \<Longrightarrow> get (fold (\<lambda>(k, v) s. put s k v) kvs s) k =
     (case map_of (rev kvs) k of Some v \<Rightarrow> Some v | None \<Rightarrow> get s k)"
  by (induction kvs arbitrary: s)
    (auto simp: get_put inv_put map_add_def split: option.splits)

end

interpretation flat: store map_get map_set map_delete map_wf
  by unfold_locales (auto simp: js_map_simps intro: js_wf_intros)

section \<open>Maps of maps\<close>

type_synonym ('a, 'b, 'v) js_map2 = "('a, ('b, 'v) js_map) js_map"

definition map2_inner :: "('a, 'b, 'v) js_map2 \<Rightarrow> 'a \<Rightarrow> ('b, 'v) js_map" where
  "map2_inner m a = (case map_get m a of Some inner \<Rightarrow> inner | None \<Rightarrow> [])"

definition map2_get :: "('a, 'b, 'v) js_map2 \<Rightarrow> 'a \<times> 'b \<Rightarrow> 'v option" where
  "map2_get m k = map_get (map2_inner m (fst k)) (snd k)"

definition map2_set :: "('a, 'b, 'v) js_map2 \<Rightarrow> 'a \<times> 'b \<Rightarrow> 'v \<Rightarrow> ('a, 'b, 'v) js_map2" where
  "map2_set m k v = map_set m (fst k) (map_set (map2_inner m (fst k)) (snd k) v)"

text \<open>Replaces an inner map, or removes it when it became empty.\<close>

definition map2_replace :: "('a, 'b, 'v) js_map2 \<Rightarrow> 'a \<Rightarrow> ('b, 'v) js_map \<Rightarrow> ('a, 'b, 'v) js_map2" where
  "map2_replace m a inner = (if inner = [] then map_delete m a else map_set m a inner)"

definition map2_delete :: "('a, 'b, 'v) js_map2 \<Rightarrow> 'a \<times> 'b \<Rightarrow> ('a, 'b, 'v) js_map2" where
  "map2_delete m k =
     (case map_get m (fst k) of
        None \<Rightarrow> m
      | Some inner \<Rightarrow> map2_replace m (fst k) (map_delete inner (snd k)))"

text \<open>Removes from one inner map the entries that satisfy \<open>P\<close>.\<close>

definition map2_purge :: "('a, 'b, 'v) js_map2 \<Rightarrow> 'a \<Rightarrow> ('b \<Rightarrow> 'v \<Rightarrow> bool) \<Rightarrow> ('a, 'b, 'v) js_map2" where
  "map2_purge m a P =
     (case map_get m a of
        None \<Rightarrow> m
      | Some inner \<Rightarrow> map2_replace m a (filter (\<lambda>(b, v). \<not> P b v) inner))"

definition map2_wf :: "('a, 'b, 'v) js_map2 \<Rightarrow> bool" where
  "map2_wf m \<longleftrightarrow> map_wf m \<and> (\<forall>(a, inner) \<in> set m. map_wf inner \<and> inner \<noteq> [])"

lemma map2_wf_iff:
  "map2_wf m \<longleftrightarrow>
     map_wf m \<and> (\<forall>a inner. map_get m a = Some inner \<longrightarrow> map_wf inner \<and> inner \<noteq> [])"
  unfolding map2_wf_def using map_get_mem [of m] map_mem_get [of m] by fast
lemma map2_inner_wf: "map2_wf m \<Longrightarrow> map_wf (map2_inner m a)"
  by (auto simp: map2_wf_def map2_inner_def dest: map_get_mem split: option.splits)

lemma map2_wf_replace:
  "map2_wf m \<Longrightarrow> map_wf inner \<Longrightarrow> map2_wf (map2_replace m a inner)"
  by (auto simp: map2_wf_iff map2_replace_def js_map_simps split: if_splits intro: js_wf_intros)

lemma map2_inner_replace:
  "map2_inner (map2_replace m a inner) a' = (if a' = a then inner else map2_inner m a')"
  by (simp add: map2_inner_def map2_replace_def js_map_simps)

lemma update_not_Nil: "map_set m k v \<noteq> []"
  by (induction m) auto

lemma map2_set_replace:
  "map2_set m k v = map2_replace m (fst k) (map_set (map2_inner m (fst k)) (snd k) v)"
  by (simp add: map2_set_def map2_replace_def update_not_Nil)

lemma map2_delete_inner:
  "map2_inner (map2_delete m k) a =
     (if a = fst k then map_delete (map2_inner m a) (snd k) else map2_inner m a)"
  by (cases "map_get m (fst k)")
    (auto simp: map2_delete_def map2_inner_replace, auto simp: map2_inner_def)

lemma map2_purge_inner:
  "map2_inner (map2_purge m a P) a' =
     (if a' = a then filter (\<lambda>(b, v). \<not> P b v) (map2_inner m a') else map2_inner m a')"
  by (cases "map_get m a")
    (auto simp: map2_purge_def map2_inner_replace, auto simp: map2_inner_def)

lemma map2_wf_delete: "map2_wf m \<Longrightarrow> map2_wf (map2_delete m k)"
  using map2_inner_wf [of m "fst k"]
  by (auto simp: map2_delete_def map2_inner_def intro!: map2_wf_replace js_wf_intros
      split: option.splits)

lemma map2_wf_purge [js_wf_intros]: "map2_wf m \<Longrightarrow> map2_wf (map2_purge m a P)"
  using map2_inner_wf [of m a]
  by (auto simp: map2_purge_def map2_inner_def intro!: map2_wf_replace js_wf_intros
      split: option.splits)

lemma map2_get_purge:
  "map2_wf m \<Longrightarrow> map2_get (map2_purge m a P) (a', b) =
     (case map2_get m (a', b) of
        None \<Rightarrow> None | Some v \<Rightarrow> if a' = a \<and> P b v then None else Some v)"
  by (simp add: map2_get_def map2_purge_inner map_get_filter map2_inner_wf split: option.split)

interpretation nested: store map2_get map2_set map2_delete map2_wf
proof unfold_locales
  fix m :: "('a, 'b, 'c) js_map2" and k k' v
  assume wf: "map2_wf m"
  show "map2_get (map2_set m k v) k' = (if k' = k then Some v else map2_get m k')"
    by (auto simp: map2_get_def map2_set_replace map2_inner_replace js_map_simps prod_eq_iff)
  show "map2_get (map2_delete m k) k' = (if k' = k then None else map2_get m k')"
    by (auto simp: map2_get_def map2_delete_inner js_map_simps prod_eq_iff)
  show "map2_wf (map2_set m k v)"
    using wf by (simp add: map2_set_replace map2_wf_replace map2_inner_wf js_wf_intros)
  show "map2_wf (map2_delete m k)"
    using wf by (rule map2_wf_delete)
qed

lemma map2_get_deleteall:
  "map2_get (map_delete m a) (a', b) = (if a' = a then None else map2_get m (a', b))"
  by (simp add: map2_get_def map2_inner_def js_map_simps)

lemma map2_wf_deleteall [js_wf_intros]: "map2_wf m \<Longrightarrow> map2_wf (map_delete m a)"
  by (auto simp: map2_wf_iff js_map_simps split: if_splits intro: js_wf_intros)

lemma map2_wf_Nil [js_wf_intros]: "map2_wf []"
  by (simp add: map2_wf_def)

lemma map2_get_Nil [js_map_simps]: "map2_get [] k = None"
  by (simp add: map2_get_def map2_inner_def)

text \<open>An entry is found in the inner list and the other way round.\<close>

lemma map2_get_iff:
  "map2_wf m \<Longrightarrow> map2_get m (a, b) = Some v \<longleftrightarrow> (b, v) \<in> set (map2_inner m a)"
  using map2_inner_wf [of m a] by (simp add: map2_get_def)

lemma map2_get_outer: "map2_get m (a, b) = Some v \<Longrightarrow> a \<in> set (map_keys m)"
  by (force simp: map2_get_def map2_inner_def split: option.splits dest: map_get_mem)

lemmas map2_simps = nested.get_put nested.get_remove map2_get_deleteall map2_get_purge

end
