(* ===== verification/State_Ops.thy ===== *)
theory State_Ops
  imports Js_Store "HOL-Library.Sublist"
begin

text \<open>
  \<open>addon/js/background/state_ops.js\<close> over the maps of \<open>state.js\<close>: which tab may use which
  device, which document owns which daemon session, which documents are alive, and which
  sessions are still to be closed.

  \<open>closeForCleanup\<close> is asynchronous: it looks up the owner, sends the close, and acts on the
  answer later, when other operations may have run.  It is two operations here, the start
  (which yields a \<open>close_request\<close>) and the finish; the purges return the closes they start.
  Owners are compared with \<open>===\<close>, that is by object identity: every registration makes a new
  object, so an owner carries the number of its creation.  Absent ids (\<open>null\<close> or
  \<open>undefined\<close> tabs) are \<open>None\<close>, a falsy key, token or origin is the empty string, a falsy
  device id is 0.
\<close>

section \<open>State\<close>

record session_owner =
  owner_ref :: nat
  owner_tabId :: nat
  owner_origin :: string
  owner_frameKey :: string
  owner_bridgeInstanceId :: string
  owner_clientKey :: string

record orphan_entry =
  orphan_device :: nat
  orphan_attempts :: nat

record bg_state =
  deviceTabMap :: "(nat, nat, nat) js_map2"
  deviceSessions :: "(nat, string, session_owner) js_map2"
  frameLifetimes :: "(nat, string, nat) js_map2"
  orphanCleanup :: "(string, orphan_entry) js_map"
  next_ref :: nat

definition initial_bg_state :: bg_state where
  "initial_bg_state = \<lparr>deviceTabMap = [], deviceSessions = [], frameLifetimes = [],
     orphanCleanup = [], next_ref = 0\<rparr>"

abbreviation session_of :: "bg_state \<Rightarrow> nat \<Rightarrow> string \<Rightarrow> session_owner option" where
  "session_of s dev tok \<equiv> map2_get (deviceSessions s) (dev, tok)"

abbreviation tab_count :: "bg_state \<Rightarrow> nat \<Rightarrow> nat \<Rightarrow> nat option" where
  "tab_count s dev tab \<equiv> map2_get (deviceTabMap s) (dev, tab)"

abbreviation frame_gen :: "bg_state \<Rightarrow> nat \<Rightarrow> string \<Rightarrow> nat option" where
  "frame_gen s tab key \<equiv> map2_get (frameLifetimes s) (tab, key)"

section \<open>Frames\<close>

definition registerFrameLifetime :: "nat option \<Rightarrow> string \<Rightarrow> bg_state \<Rightarrow> bool \<times> bg_state" where
  "registerFrameLifetime tabId frameKey s =
     (case tabId of
        None \<Rightarrow> (False, s)
      | Some tab \<Rightarrow>
          if frameKey = [] then (False, s)
          else case frame_gen s tab frameKey of
                 None \<Rightarrow> (True, s\<lparr>frameLifetimes := map2_set (frameLifetimes s) (tab, frameKey) 1\<rparr>)
               | Some gen \<Rightarrow>
                   if gen = 0 then (False, s)
                   else (True, s\<lparr>frameLifetimes :=
                           map2_set (frameLifetimes s) (tab, frameKey) (gen + 1)\<rparr>))"

definition isFrameLifetimeActive :: "nat option \<Rightarrow> string \<Rightarrow> bg_state \<Rightarrow> bool" where
  "isFrameLifetimeActive tabId frameKey s =
     (case tabId of
        None \<Rightarrow> False
      | Some tab \<Rightarrow> frameKey \<noteq> [] \<and>
          (case frame_gen s tab frameKey of None \<Rightarrow> False | Some gen \<Rightarrow> gen > 0))"

definition retireFrameLifetime :: "nat option \<Rightarrow> string \<Rightarrow> bg_state \<Rightarrow> bg_state" where
  "retireFrameLifetime tabId frameKey s =
     (case tabId of
        None \<Rightarrow> s
      | Some tab \<Rightarrow>
          if frameKey = [] then s
          else s\<lparr>frameLifetimes := map2_set (frameLifetimes s) (tab, frameKey) 0\<rparr>)"

section \<open>Tabs\<close>

definition tabsForEvent :: "nat \<Rightarrow> bg_state \<Rightarrow> nat list option" where
  "tabsForEvent dev s =
     (if dev = 0 then None
      else case map_get (deviceTabMap s) dev of
             None \<Rightarrow> None
           | Some tabs \<Rightarrow> if tabs = [] then None else Some (map_keys tabs))"

definition registerDeviceTab :: "nat \<Rightarrow> nat option \<Rightarrow> bg_state \<Rightarrow> bg_state" where
  "registerDeviceTab dev tabId s =
     (case tabId of
        None \<Rightarrow> s
      | Some tab \<Rightarrow>
          if dev = 0 then s
          else s\<lparr>deviceTabMap := map2_set (deviceTabMap s) (dev, tab)
                  ((case tab_count s dev tab of None \<Rightarrow> 0 | Some n \<Rightarrow> n) + 1)\<rparr>)"

definition unregisterDeviceTab :: "nat \<Rightarrow> nat option \<Rightarrow> bg_state \<Rightarrow> bg_state" where
  "unregisterDeviceTab dev tabId s =
     (case tabId of
        None \<Rightarrow> s
      | Some tab \<Rightarrow>
          if dev = 0 then s
          else
            let remaining = (case tab_count s dev tab of None \<Rightarrow> 0 | Some n \<Rightarrow> n) - 1
            in if remaining > 0
               then s\<lparr>deviceTabMap := map2_set (deviceTabMap s) (dev, tab) remaining\<rparr>
               else s\<lparr>deviceTabMap := map2_delete (deviceTabMap s) (dev, tab)\<rparr>)"

definition clearDeviceTab :: "nat \<Rightarrow> nat option \<Rightarrow> bg_state \<Rightarrow> bg_state" where
  "clearDeviceTab dev tabId s =
     (case tabId of
        None \<Rightarrow> s
      | Some tab \<Rightarrow>
          if dev = 0 then s
          else s\<lparr>deviceTabMap := map2_delete (deviceTabMap s) (dev, tab)\<rparr>)"

definition isTabAuthorizedForDevice :: "nat option \<Rightarrow> nat \<Rightarrow> bg_state \<Rightarrow> bool" where
  "isTabAuthorizedForDevice tabId dev s =
     (case tabId of
        None \<Rightarrow> False
      | Some tab \<Rightarrow> (case tab_count s dev tab of None \<Rightarrow> False | Some n \<Rightarrow> n > 0))"

section \<open>Sessions\<close>

text \<open>The owner a caller describes; \<open>frameKey\<close> may be absent, and then stands for the whole
  tab.\<close>

record owner_request =
  req_tabId :: "nat option"
  req_origin :: string
  req_frameKey :: string
  req_bridgeInstanceId :: string
  req_clientKey :: string

definition registerDeviceSession ::
    "nat \<Rightarrow> string \<Rightarrow> owner_request \<Rightarrow> bg_state \<Rightarrow> bool \<times> bg_state" where
  "registerDeviceSession dev tok owner s =
     (case req_tabId owner of
        None \<Rightarrow> (False, s)
      | Some tab \<Rightarrow>
          if dev = 0 \<or> tok = [] \<or> req_origin owner = [] then (False, s)
          else
            let frameKey = (if req_frameKey owner = [] then ''tab:'' @ show_nat tab
                            else req_frameKey owner);
                (alive, s') = (if isFrameLifetimeActive (Some tab) frameKey s then (True, s)
                               else registerFrameLifetime (Some tab) frameKey s)
            in if alive then
                 (True, s'\<lparr>deviceSessions := map2_set (deviceSessions s') (dev, tok)
                            \<lparr>owner_ref = next_ref s', owner_tabId = tab,
                             owner_origin = req_origin owner, owner_frameKey = frameKey,
                             owner_bridgeInstanceId = req_bridgeInstanceId owner,
                             owner_clientKey = req_clientKey owner\<rparr>,
                           next_ref := next_ref s' + 1\<rparr>)
               else (False, s'))"

definition unregisterDeviceSession :: "nat \<Rightarrow> string \<Rightarrow> bg_state \<Rightarrow> bg_state" where
  "unregisterDeviceSession dev tok s =
     (if dev = 0 \<or> tok = [] then s
      else s\<lparr>deviceSessions := map2_delete (deviceSessions s) (dev, tok)\<rparr>)"

definition collectDeviceSessionsForOrigin :: "nat \<Rightarrow> string \<Rightarrow> bg_state \<Rightarrow> string list" where
  "collectDeviceSessionsForOrigin dev origin s =
     (if origin = [] then []
      else [tok. (tok, owner) \<leftarrow> map2_inner (deviceSessions s) dev, owner_origin owner = origin])"

definition collectDeviceSessionsForTab :: "nat \<Rightarrow> nat option \<Rightarrow> bg_state \<Rightarrow> string list" where
  "collectDeviceSessionsForTab dev tabId s =
     (case tabId of
        None \<Rightarrow> []
      | Some tab \<Rightarrow>
          [tok. (tok, owner) \<leftarrow> map2_inner (deviceSessions s) dev, owner_tabId owner = tab])"

definition getDeviceSessionOwner :: "nat \<Rightarrow> string \<Rightarrow> bg_state \<Rightarrow> session_owner option" where
  "getDeviceSessionOwner dev tok s = session_of s dev tok"

definition collectDeviceSessionsForFrame ::
    "nat \<Rightarrow> nat option \<Rightarrow> string \<Rightarrow> bg_state \<Rightarrow> string list" where
  "collectDeviceSessionsForFrame dev tabId frameKey s =
     (case tabId of
        None \<Rightarrow> []
      | Some tab \<Rightarrow>
          if frameKey = [] then []
          else [tok. (tok, owner) \<leftarrow> map2_inner (deviceSessions s) dev,
                     owner_tabId owner = tab \<and> owner_frameKey owner = frameKey])"

definition collectDeviceSessions :: "nat \<Rightarrow> bg_state \<Rightarrow> string list" where
  "collectDeviceSessions dev s = map_keys (map2_inner (deviceSessions s) dev)"

definition clearDeviceSessionsForOrigin :: "nat \<Rightarrow> string \<Rightarrow> bg_state \<Rightarrow> bg_state" where
  "clearDeviceSessionsForOrigin dev origin s =
     (if origin = [] then s
      else s\<lparr>deviceSessions :=
              map2_purge (deviceSessions s) dev (\<lambda>_ owner. owner_origin owner = origin)\<rparr>)"

definition clearDeviceSessionsForTab :: "nat \<Rightarrow> nat option \<Rightarrow> bg_state \<Rightarrow> bg_state" where
  "clearDeviceSessionsForTab dev tabId s =
     (case tabId of
        None \<Rightarrow> s
      | Some tab \<Rightarrow>
          s\<lparr>deviceSessions :=
             map2_purge (deviceSessions s) dev (\<lambda>_ owner. owner_tabId owner = tab)\<rparr>)"

definition clearDeviceSessions :: "nat \<Rightarrow> bg_state \<Rightarrow> bg_state" where
  "clearDeviceSessions dev s = s\<lparr>deviceSessions := map_delete (deviceSessions s) dev\<rparr>"

definition isSessionOwnedBy ::
    "nat \<Rightarrow> string \<Rightarrow> string \<Rightarrow> nat option \<Rightarrow> string option \<Rightarrow> string option \<Rightarrow> bg_state \<Rightarrow> bool"
where
  "isSessionOwnedBy dev tok origin tabId frameKey clientKey s =
     (case session_of s dev tok of
        None \<Rightarrow> False
      | Some owner \<Rightarrow>
          owner_origin owner = origin
          \<and> (case tabId of None \<Rightarrow> True | Some tab \<Rightarrow> owner_tabId owner = tab)
          \<and> (case frameKey of None \<Rightarrow> True | Some key \<Rightarrow> owner_frameKey owner = key)
          \<and> (case clientKey of None \<Rightarrow> True | Some key \<Rightarrow> owner_clientKey owner = key))"

section \<open>Closing sessions\<close>

definition CLEANUP_ALREADY_GONE :: nat where "CLEANUP_ALREADY_GONE = 404"

text \<open>The answer to a close: the promise rejected, or a response with or without a status.\<close>

datatype close_result = CloseRejected | CloseResponse "nat option"

definition isCleanupConfirmed :: "nat option \<Rightarrow> bool" where
  "isCleanupConfirmed status =
     (case status of
        None \<Rightarrow> False
      | Some n \<Rightarrow> (n \<ge> 200 \<and> n < 300) \<or> n = CLEANUP_ALREADY_GONE)"

record close_request =
  close_device :: nat
  close_token :: string
  close_owner :: "session_owner option"  \<comment> \<open>\<open>ownerAtStart\<close>\<close>

abbreviation same_owner :: "session_owner option \<Rightarrow> session_owner option \<Rightarrow> bool" where
  "same_owner a b \<equiv> map_option owner_ref a = map_option owner_ref b"

definition retainOrphanCleanup ::
    "nat \<Rightarrow> string \<Rightarrow> session_owner option \<Rightarrow> bg_state \<Rightarrow> bg_state" where
  "retainOrphanCleanup dev tok expectedOwner s =
     (let s' = (if expectedOwner \<noteq> None \<and> same_owner (session_of s dev tok) expectedOwner
                then unregisterDeviceSession dev tok s else s)
      in if map_has (orphanCleanup s') tok then s'
         else s'\<lparr>orphanCleanup :=
                 map_set (orphanCleanup s') tok \<lparr>orphan_device = dev, orphan_attempts = 0\<rparr>\<rparr>)"

definition start_close :: "nat \<Rightarrow> string \<Rightarrow> bg_state \<Rightarrow> close_request" where
  "start_close dev tok s =
     \<lparr>close_device = dev, close_token = tok, close_owner = session_of s dev tok\<rparr>"

definition finish_close :: "close_request \<Rightarrow> close_result \<Rightarrow> bg_state \<Rightarrow> bool \<times> bg_state" where
  "finish_close cr result s =
     (let dev = close_device cr; tok = close_token cr; ownerAtStart = close_owner cr;
          failed = (False, retainOrphanCleanup dev tok ownerAtStart s)
      in case result of
           CloseRejected \<Rightarrow> failed
         | CloseResponse status \<Rightarrow>
             if isCleanupConfirmed status then
               let s' = (if ownerAtStart \<noteq> None \<and> same_owner (session_of s dev tok) ownerAtStart
                         then unregisterDeviceSession dev tok s else s)
               in (True, s'\<lparr>orphanCleanup := map_delete (orphanCleanup s') tok\<rparr>)
             else failed)"

text \<open>The devices a purge visits: \<open>new Set([...deviceSessions.keys(), ...deviceTabMap.keys()])\<close>.\<close>

definition known_devices :: "bg_state \<Rightarrow> nat list" where
  "known_devices s = set_of_list (map_keys (deviceSessions s) @ map_keys (deviceTabMap s))"

definition drop_empty_tabs :: "nat \<Rightarrow> bg_state \<Rightarrow> bg_state" where
  "drop_empty_tabs dev s =
     (if map_get (deviceTabMap s) dev = Some []
      then s\<lparr>deviceTabMap := map_delete (deviceTabMap s) dev\<rparr> else s)"

text \<open>One round of the inner loop: one open less for the tab, and a close is started.\<close>

definition purge_token ::
    "nat \<Rightarrow> nat \<Rightarrow> string \<Rightarrow> bg_state \<times> close_request list \<Rightarrow> bg_state \<times> close_request list" where
  "purge_token dev tab tok = (\<lambda>(s, pending).
     let s' = unregisterDeviceTab dev (Some tab) s in (s', pending @ [start_close dev tok s']))"

definition purge_device ::
    "nat \<Rightarrow> (bg_state \<Rightarrow> string list) \<Rightarrow> nat \<Rightarrow> bg_state \<times> close_request list
       \<Rightarrow> bg_state \<times> close_request list" where
  "purge_device tab tokens dev = (\<lambda>(s, pending).
     let (s', pending') = fold (purge_token dev tab) (tokens s) (s, pending)
     in (drop_empty_tabs dev s', pending'))"

definition purgeFrame :: "nat option \<Rightarrow> string \<Rightarrow> bg_state \<Rightarrow> bg_state \<times> close_request list" where
  "purgeFrame tabId frameKey s =
     (case tabId of
        None \<Rightarrow> (s, [])
      | Some tab \<Rightarrow>
          if frameKey = [] then (s, [])
          else
            let s' = retireFrameLifetime tabId frameKey s
            in fold (\<lambda>dev. purge_device tab (collectDeviceSessionsForFrame dev tabId frameKey) dev)
                 (known_devices s') (s', []))"

definition collectDeviceSessionsForBridge :: "nat \<Rightarrow> nat \<Rightarrow> string \<Rightarrow> bg_state \<Rightarrow> string list" where
  "collectDeviceSessionsForBridge dev tab bridge s =
     [tok. (tok, owner) \<leftarrow> map2_inner (deviceSessions s) dev,
           owner_tabId owner = tab \<and> owner_bridgeInstanceId owner = bridge]"

definition retireBridgeFrames :: "nat \<Rightarrow> string \<Rightarrow> bg_state \<Rightarrow> bg_state" where
  "retireBridgeFrames tab bridge s =
     (case map_get (frameLifetimes s) tab of
        None \<Rightarrow> s
      | Some frames \<Rightarrow>
          s\<lparr>frameLifetimes := map_set (frameLifetimes s) tab
              (map (\<lambda>(key, gen). (key, if prefix (bridge @ ''/'') key then 0 else gen)) frames)\<rparr>)"

definition purgeBridge :: "nat option \<Rightarrow> string \<Rightarrow> bg_state \<Rightarrow> bg_state \<times> close_request list" where
  "purgeBridge tabId bridge s =
     (case tabId of
        None \<Rightarrow> (s, [])
      | Some tab \<Rightarrow>
          if bridge = [] then (s, [])
          else
            let s' = retireBridgeFrames tab bridge s
            in fold (\<lambda>dev. purge_device tab (collectDeviceSessionsForBridge dev tab bridge) dev)
                 (known_devices s') (s', []))"

definition enqueueOrphanCleanup :: "nat \<Rightarrow> string \<Rightarrow> bg_state \<Rightarrow> bg_state" where
  "enqueueOrphanCleanup dev tok s =
     retainOrphanCleanup dev tok None (unregisterDeviceSession dev tok s)"

definition retryOrphanCleanup :: "bg_state \<Rightarrow> bg_state \<times> close_request list" where
  "retryOrphanCleanup s =
     (s\<lparr>orphanCleanup :=
         map (\<lambda>(tok, e). (tok, e\<lparr>orphan_attempts := orphan_attempts e + 1\<rparr>)) (orphanCleanup s)\<rparr>,
      map (\<lambda>(tok, e). start_close (orphan_device e) tok s) (orphanCleanup s))"

definition purge_tab_device ::
    "nat \<Rightarrow> nat \<Rightarrow> bg_state \<times> close_request list \<Rightarrow> bg_state \<times> close_request list" where
  "purge_tab_device tab dev = (\<lambda>(s, pending).
     (s\<lparr>deviceTabMap := map2_delete (deviceTabMap s) (dev, tab)\<rparr>,
      pending @ map (\<lambda>tok. start_close dev tok s) (collectDeviceSessionsForTab dev (Some tab) s)))"

definition purgeTab :: "nat option \<Rightarrow> bg_state \<Rightarrow> bg_state \<times> close_request list" where
  "purgeTab tabId s =
     (case tabId of
        None \<Rightarrow> (s, [])
      | Some tab \<Rightarrow>
          let (s', pending) = fold (purge_tab_device tab) (known_devices s) (s, [])
          in (s'\<lparr>frameLifetimes := map_delete (frameLifetimes s') tab\<rparr>, pending))"

definition clearAuthorityOwnership :: "bg_state \<Rightarrow> bg_state" where
  "clearAuthorityOwnership s =
     s\<lparr>deviceTabMap := [], deviceSessions := [], frameLifetimes := [], orphanCleanup := []\<rparr>"

definition clearDeviceOwnership :: "nat \<Rightarrow> bg_state \<Rightarrow> bg_state" where
  "clearDeviceOwnership dev s =
     s\<lparr>deviceTabMap := map_delete (deviceTabMap s) dev,
       deviceSessions := map_delete (deviceSessions s) dev,
       orphanCleanup := filter (\<lambda>(tok, e). orphan_device e \<noteq> dev) (orphanCleanup s)\<rparr>"

section \<open>The whole as a system of events\<close>

text \<open>What the rest of the background page does with this state, one event per call: opens and
  their registration, closes and their answers in any order, the removal of frames, bridges
  and tabs, the retry timer, and the loss of the daemon or of a device.\<close>

datatype bg_event =
    BeginFrame "nat option" string
  | RetireFrame "nat option" string
  | RegisterSession nat string owner_request
  | RegisterTab nat "nat option"
  | UnregisterTab nat "nat option"
  | ClearTab nat "nat option"
  | CloseConfirmed nat "nat option" string
  | StartClose nat string
  | FinishClose nat close_result
  | PurgeFrame "nat option" string
  | PurgeBridge "nat option" string
  | PurgeTab "nat option"
  | EnqueueOrphan nat string
  | RetryOrphans
  | ClearAuthority
  | ClearDevice nat

record bg_world =
  bg_st :: bg_state
  bg_flight :: "close_request list"

definition initial_bg_world :: bg_world where
  "initial_bg_world = \<lparr>bg_st = initial_bg_state, bg_flight = []\<rparr>"

abbreviation starting :: "bg_world \<Rightarrow> bg_state \<times> close_request list \<Rightarrow> bg_world" where
  "starting w r \<equiv> \<lparr>bg_st = fst r, bg_flight = bg_flight w @ snd r\<rparr>"

fun bg_step :: "bg_event \<Rightarrow> bg_world \<Rightarrow> bg_world" where
  "bg_step (BeginFrame tab key) w = w\<lparr>bg_st := snd (registerFrameLifetime tab key (bg_st w))\<rparr>"
| "bg_step (RetireFrame tab key) w = w\<lparr>bg_st := retireFrameLifetime tab key (bg_st w)\<rparr>"
| "bg_step (RegisterSession dev tok owner) w =
     w\<lparr>bg_st := snd (registerDeviceSession dev tok owner (bg_st w))\<rparr>"
| "bg_step (RegisterTab dev tab) w = w\<lparr>bg_st := registerDeviceTab dev tab (bg_st w)\<rparr>"
| "bg_step (UnregisterTab dev tab) w = w\<lparr>bg_st := unregisterDeviceTab dev tab (bg_st w)\<rparr>"
| "bg_step (ClearTab dev tab) w = w\<lparr>bg_st := clearDeviceTab dev tab (bg_st w)\<rparr>"
| "bg_step (CloseConfirmed dev tab tok) w =
     w\<lparr>bg_st := unregisterDeviceSession dev tok (unregisterDeviceTab dev tab (bg_st w))\<rparr>"
| "bg_step (StartClose dev tok) w = starting w (bg_st w, [start_close dev tok (bg_st w)])"
| "bg_step (FinishClose i result) w =
     (if i < length (bg_flight w)
      then \<lparr>bg_st = snd (finish_close (bg_flight w ! i) result (bg_st w)),
            bg_flight = take i (bg_flight w) @ drop (Suc i) (bg_flight w)\<rparr>
      else w)"
| "bg_step (PurgeFrame tab key) w = starting w (purgeFrame tab key (bg_st w))"
| "bg_step (PurgeBridge tab bridge) w = starting w (purgeBridge tab bridge (bg_st w))"
| "bg_step (PurgeTab tab) w = starting w (purgeTab tab (bg_st w))"
| "bg_step (EnqueueOrphan dev tok) w = w\<lparr>bg_st := enqueueOrphanCleanup dev tok (bg_st w)\<rparr>"
| "bg_step RetryOrphans w = starting w (retryOrphanCleanup (bg_st w))"
| "bg_step ClearAuthority w = w\<lparr>bg_st := clearAuthorityOwnership (bg_st w)\<rparr>"
| "bg_step (ClearDevice dev) w = w\<lparr>bg_st := clearDeviceOwnership dev (bg_st w)\<rparr>"

inductive bg_steps :: "bg_world \<Rightarrow> bg_event list \<Rightarrow> bg_world \<Rightarrow> bool" where
  none: "bg_steps w [] w"
| more: "bg_steps (bg_step e w) es w' \<Longrightarrow> bg_steps w (e # es) w'"

inductive_cases bg_steps_NilE: "bg_steps w [] w'"
inductive_cases bg_steps_ConsE: "bg_steps w (e # es) w'"
inductive_simps bg_steps_simps: "bg_steps w [] w'" "bg_steps w (e # es) w'"

lemma bg_steps_run: "bg_steps w es (fold bg_step es w)"
  by (induction es arbitrary: w) (auto intro: bg_steps.intros)

section \<open>What the operations leave alone\<close>

definition tabs_only :: "bg_state \<Rightarrow> bg_state \<Rightarrow> bool" where
  "tabs_only s s' \<longleftrightarrow> s' = s\<lparr>deviceTabMap := deviceTabMap s'\<rparr>"

lemma tabs_only_simps:
  assumes "tabs_only s s'"
  shows "deviceSessions s' = deviceSessions s" "frameLifetimes s' = frameLifetimes s"
    "orphanCleanup s' = orphanCleanup s" "next_ref s' = next_ref s"
  using assms unfolding tabs_only_def by (metis bg_state.select_convs bg_state.surjective bg_state.update_convs)+

lemma tabs_only_refl: "tabs_only s s"
  by (simp add: tabs_only_def)

lemma tabs_only_trans: "tabs_only s s' \<Longrightarrow> tabs_only s' s'' \<Longrightarrow> tabs_only s s''"
  by (cases s; cases s'; cases s'') (simp add: tabs_only_def)

lemma tab_operations_tabs_only:
  "tabs_only s (registerDeviceTab dev tab s)"
  "tabs_only s (unregisterDeviceTab dev tab s)"
  "tabs_only s (clearDeviceTab dev tab s)"
  "tabs_only s (drop_empty_tabs dev s)"
  by (auto simp: tabs_only_def registerDeviceTab_def unregisterDeviceTab_def clearDeviceTab_def
      drop_empty_tabs_def Let_def split: option.split)

definition tabs_wf :: "bg_state \<Rightarrow> bool" where
  "tabs_wf s \<longleftrightarrow> map2_wf (deviceTabMap s) \<and> (\<forall>dev tab n. tab_count s dev tab = Some n \<longrightarrow> n > 0)"

lemma tab_operations_wf:
  assumes "tabs_wf s"
  shows "tabs_wf (registerDeviceTab dev tab s)"
    "tabs_wf (unregisterDeviceTab dev tab s)"
    "tabs_wf (clearDeviceTab dev tab s)"
    "tabs_wf (drop_empty_tabs dev s)"
  using assms
  by (auto simp: tabs_wf_def registerDeviceTab_def unregisterDeviceTab_def clearDeviceTab_def
      drop_empty_tabs_def Let_def map2_simps nested.inv_put nested.inv_remove map2_wf_deleteall
      split: option.split if_splits)

section \<open>What the purges do\<close>

lemma start_close_tabs_only: "tabs_only s s' \<Longrightarrow> start_close dev tok s' = start_close dev tok s"
  by (simp add: start_close_def tabs_only_simps)

definition tabs_change :: "bg_state \<Rightarrow> bg_state \<Rightarrow> bool" where
  "tabs_change s s' \<longleftrightarrow> tabs_only s s' \<and> (tabs_wf s \<longrightarrow> tabs_wf s')"

lemma tabs_change_refl: "tabs_change s s"
  by (simp add: tabs_change_def tabs_only_refl)

lemma tabs_change_trans: "tabs_change s s' \<Longrightarrow> tabs_change s' s'' \<Longrightarrow> tabs_change s s''"
  by (auto simp: tabs_change_def intro: tabs_only_trans)

lemma tabs_change_operations:
  "tabs_change s (unregisterDeviceTab dev tab s)" "tabs_change s (drop_empty_tabs dev s)"
  by (simp_all add: tabs_change_def tab_operations_tabs_only tab_operations_wf)

lemma purge_tokens:
  "\<exists>s'. fold (purge_token dev tab) toks (s, pending)
      = (s', pending @ map (\<lambda>tok. start_close dev tok s) toks) \<and> tabs_change s s'"
proof (induction toks arbitrary: s pending)
  case Nil
  then show ?case by (simp add: tabs_change_refl)
next
  case (Cons tok toks)
  let ?s = "unregisterDeviceTab dev (Some tab) s"
  have same: "start_close dev tok' ?s = start_close dev tok' s" for tok'
    by (intro start_close_tabs_only tab_operations_tabs_only)
  from Cons.IH [of ?s "pending @ [start_close dev tok ?s]"] show ?case
    using tabs_change_trans [OF tabs_change_operations(1)]
    by (auto simp: purge_token_def Let_def same)
qed

text \<open>A purge starts the closes of the tokens it selects, in the order of the devices, and
  otherwise changes only the tab counts.\<close>

definition selected_closes ::
    "(nat \<Rightarrow> bg_state \<Rightarrow> string list) \<Rightarrow> bg_state \<Rightarrow> nat list \<Rightarrow> close_request list" where
  "selected_closes tokens s devs =
     concat (map (\<lambda>dev. map (\<lambda>tok. start_close dev tok s) (tokens dev s)) devs)"

lemma selected_closes_tabs_only:
  assumes "\<And>dev s s'. tabs_only s s' \<Longrightarrow> tokens dev s' = tokens dev s" "tabs_only s s'"
  shows "selected_closes tokens s' devs = selected_closes tokens s devs"
  by (simp add: selected_closes_def assms(1) [OF assms(2)] start_close_tabs_only [OF assms(2)])

lemma purge_devices:
  assumes tokens: "\<And>dev s s'. tabs_only s s' \<Longrightarrow> tokens dev s' = tokens dev s"
  shows "\<exists>s'. fold (\<lambda>dev. purge_device tab (tokens dev) dev) devs (s, pending)
      = (s', pending @ selected_closes tokens s devs) \<and> tabs_change s s'"
proof (induction devs arbitrary: s pending)
  case Nil
  then show ?case by (simp add: selected_closes_def tabs_change_refl)
next
  case (Cons dev devs)
  let ?closes = "map (\<lambda>tok. start_close dev tok s) (tokens dev s)"
  obtain s1 where s1: "fold (purge_token dev tab) (tokens dev s) (s, pending) = (s1, pending @ ?closes)"
    "tabs_change s s1"
    using purge_tokens by blast
  let ?s2 = "drop_empty_tabs dev s1"
  have s2: "tabs_change s ?s2"
    using s1(2) tabs_change_operations(2) by (rule tabs_change_trans)
  then have "selected_closes tokens ?s2 devs = selected_closes tokens s devs"
    by (intro selected_closes_tabs_only tokens) (simp_all add: tabs_change_def)
  with Cons.IH [of ?s2 "pending @ ?closes"] show ?case
    using s1(1) tabs_change_trans [OF s2]
    by (auto simp: purge_device_def selected_closes_def)
qed

lemma collects_tabs_only:
  assumes "tabs_only s s'"
  shows "collectDeviceSessionsForFrame dev tab key s' = collectDeviceSessionsForFrame dev tab key s"
    "collectDeviceSessionsForBridge dev tb bridge s' = collectDeviceSessionsForBridge dev tb bridge s"
    "collectDeviceSessionsForTab dev tab s' = collectDeviceSessionsForTab dev tab s"
  by (simp_all add: collectDeviceSessionsForFrame_def collectDeviceSessionsForBridge_def
      collectDeviceSessionsForTab_def tabs_only_simps [OF assms]
      cong: option.case_cong if_cong)

lemma purgeFrame_eq:
  assumes "key \<noteq> []"
  shows "\<exists>s'. purgeFrame (Some tab) key s =
      (s', selected_closes (\<lambda>dev. collectDeviceSessionsForFrame dev (Some tab) key) s
             (known_devices s))
      \<and> tabs_change (retireFrameLifetime (Some tab) key s) s'"
proof -
  let ?s1 = "retireFrameLifetime (Some tab) key s"
  let ?tokens = "\<lambda>dev. collectDeviceSessionsForFrame dev (Some tab) key"
  have same: "deviceSessions ?s1 = deviceSessions s" "deviceTabMap ?s1 = deviceTabMap s"
    by (simp_all add: retireFrameLifetime_def)
  have "selected_closes ?tokens ?s1 (known_devices ?s1) = selected_closes ?tokens s (known_devices s)"
    by (simp add: selected_closes_def known_devices_def start_close_def same
        collectDeviceSessionsForFrame_def cong: option.case_cong if_cong)
  then show ?thesis
    using assms purge_devices [where tokens = ?tokens and tab = tab and devs = "known_devices ?s1" and s = ?s1
      and pending = "[]", OF collects_tabs_only(1)]
    by (auto simp: purgeFrame_def)
qed

lemma purgeBridge_eq:
  assumes "bridge \<noteq> []"
  shows "\<exists>s'. purgeBridge (Some tab) bridge s =
      (s', selected_closes (\<lambda>dev. collectDeviceSessionsForBridge dev tab bridge) s (known_devices s))
      \<and> tabs_change (retireBridgeFrames tab bridge s) s'"
proof -
  let ?s1 = "retireBridgeFrames tab bridge s"
  let ?tokens = "\<lambda>dev. collectDeviceSessionsForBridge dev tab bridge"
  have same: "deviceSessions ?s1 = deviceSessions s" "deviceTabMap ?s1 = deviceTabMap s"
    by (simp_all add: retireBridgeFrames_def split: option.split)
  have "selected_closes ?tokens ?s1 (known_devices ?s1) = selected_closes ?tokens s (known_devices s)"
    by (simp add: selected_closes_def known_devices_def start_close_def same
        collectDeviceSessionsForBridge_def)
  then show ?thesis
    using assms purge_devices [where tokens = ?tokens and tab = tab and devs = "known_devices ?s1" and s = ?s1
      and pending = "[]", OF collects_tabs_only(2)]
    by (auto simp: purgeBridge_def)
qed

lemma purge_tab_devices:
  "\<exists>s'. fold (purge_tab_device tab) devs (s, pending) = (s', pending @
        selected_closes (\<lambda>dev. collectDeviceSessionsForTab dev (Some tab)) s devs)
     \<and> tabs_change s s'
     \<and> (tabs_wf s \<longrightarrow> (\<forall>dev. tab_count s' dev tab \<noteq> None \<longrightarrow>
          dev \<notin> set devs \<and> tab_count s dev tab \<noteq> None))"
proof (induction devs arbitrary: s pending)
  case Nil
  then show ?case by (simp add: selected_closes_def tabs_change_refl)
next
  case (Cons dev devs)
  let ?s1 = "s\<lparr>deviceTabMap := map2_delete (deviceTabMap s) (dev, tab)\<rparr>"
  let ?closes = "map (\<lambda>tok. start_close dev tok s) (collectDeviceSessionsForTab dev (Some tab) s)"
  let ?tokens = "\<lambda>dev. collectDeviceSessionsForTab dev (Some tab)"
  have only: "tabs_only s ?s1" by (simp add: tabs_only_def)
  have s1: "tabs_change s ?s1"
    using only
    by (auto simp: tabs_change_def tabs_wf_def nested.get_remove nested.inv_remove split: if_splits)
  have gone: "tabs_wf s \<Longrightarrow> tab_count ?s1 d tab = (if d = dev then None else tab_count s d tab)" for d
    by (simp add: tabs_wf_def nested.get_remove)
  obtain s' where s': "fold (purge_tab_device tab) devs (?s1, pending @ ?closes) = (s', (pending @ ?closes) @
        selected_closes ?tokens ?s1 devs)" "tabs_change ?s1 s'"
    "tabs_wf ?s1 \<longrightarrow> (\<forall>dev. tab_count s' dev tab \<noteq> None \<longrightarrow>
          dev \<notin> set devs \<and> tab_count ?s1 dev tab \<noteq> None)"
    using Cons.IH [of ?s1 "pending @ ?closes"] by blast
  have sel: "selected_closes ?tokens ?s1 devs = selected_closes ?tokens s devs"
    by (intro selected_closes_tabs_only collects_tabs_only only)
  have "fold (purge_tab_device tab) (dev # devs) (s, pending) = (s', pending @ selected_closes ?tokens s (dev # devs))"
    using s'(1) sel by (simp add: purge_tab_device_def selected_closes_def)
  moreover have "tabs_wf s \<longrightarrow> (\<forall>d. tab_count s' d tab \<noteq> None \<longrightarrow>
          d \<notin> set (dev # devs) \<and> tab_count s d tab \<noteq> None)"
    using s'(3) s1 gone by (auto simp: tabs_change_def split: if_splits)
  ultimately show ?case using tabs_change_trans [OF s1 s'(2)] by blast
qed

lemma purgeTab_eq:
  "\<exists>s'. purgeTab (Some tab) s =
      (s'\<lparr>frameLifetimes := map_delete (frameLifetimes s) tab\<rparr>,
       selected_closes (\<lambda>dev. collectDeviceSessionsForTab dev (Some tab)) s (known_devices s))
     \<and> tabs_change s s' \<and> (tabs_wf s \<longrightarrow> (\<forall>dev. tab_count s' dev tab = None))"
proof -
  let ?tokens = "\<lambda>dev. collectDeviceSessionsForTab dev (Some tab)"
  obtain s' where s': "fold (purge_tab_device tab) (known_devices s) (s, [])
      = (s', [] @ selected_closes ?tokens s (known_devices s))" "tabs_change s s'"
    "tabs_wf s \<longrightarrow> (\<forall>dev. tab_count s' dev tab \<noteq> None \<longrightarrow>
          dev \<notin> set (known_devices s) \<and> tab_count s dev tab \<noteq> None)"
    using purge_tab_devices [of tab "known_devices s" s "[]"] by blast
  have "tab_count s dev tab \<noteq> None \<Longrightarrow> dev \<in> set (known_devices s)" for dev
    by (auto simp: known_devices_def js_map_simps dest: map2_get_outer)
  then have "tabs_wf s \<longrightarrow> (\<forall>dev. tab_count s' dev tab = None)" using s'(3) by blast
  moreover have "frameLifetimes s' = frameLifetimes s"
    using s'(2) by (simp add: tabs_change_def tabs_only_simps)
  ultimately show ?thesis using s'(1,2) by (auto simp: purgeTab_def)
qed

section \<open>Well-formed states\<close>

definition sessions_wf :: "bg_state \<Rightarrow> bool" where
  "sessions_wf s \<longleftrightarrow> map2_wf (deviceSessions s)
     \<and> (\<forall>dev tok o1. session_of s dev tok = Some o1 \<longrightarrow>
          dev \<noteq> 0 \<and> tok \<noteq> [] \<and> owner_origin o1 \<noteq> [] \<and> owner_frameKey o1 \<noteq> []
          \<and> owner_ref o1 < next_ref s
          \<and> (\<forall>dev' tok' o2. session_of s dev' tok' = Some o2 \<and> owner_ref o2 = owner_ref o1
               \<longrightarrow> dev' = dev \<and> tok' = tok))"

definition bg_wf :: "bg_state \<Rightarrow> bool" where
  "bg_wf s \<longleftrightarrow> tabs_wf s \<and> sessions_wf s \<and> map2_wf (frameLifetimes s) \<and> map_wf (orphanCleanup s)"

text \<open>The owner a close in flight remembers is the one its session still has, or is gone for
  good: its number is never given to another session.\<close>

definition close_wf :: "bg_state \<Rightarrow> close_request \<Rightarrow> bool" where
  "close_wf s cr \<longleftrightarrow>
     (\<forall>o1. close_owner cr = Some o1 \<longrightarrow>
        owner_ref o1 < next_ref s
        \<and> (\<forall>dev tok o2. session_of s dev tok = Some o2 \<and> owner_ref o2 = owner_ref o1
             \<longrightarrow> dev = close_device cr \<and> tok = close_token cr))"

definition world_wf :: "bg_world \<Rightarrow> bool" where
  "world_wf w \<longleftrightarrow> bg_wf (bg_st w) \<and> list_all (close_wf (bg_st w)) (bg_flight w)"

text \<open>Most operations only remove sessions.\<close>

definition shrinks :: "bg_state \<Rightarrow> bg_state \<Rightarrow> bool" where
  "shrinks s s' \<longleftrightarrow> map2_wf (deviceSessions s') \<and> next_ref s' = next_ref s
     \<and> (\<forall>dev tok o1. session_of s' dev tok = Some o1 \<longrightarrow> session_of s dev tok = Some o1)"

lemma shrinks_sessions_wf: "sessions_wf s \<Longrightarrow> shrinks s s' \<Longrightarrow> sessions_wf s'"
  unfolding sessions_wf_def shrinks_def by metis

lemma shrinks_close_wf: "close_wf s cr \<Longrightarrow> shrinks s s' \<Longrightarrow> close_wf s' cr"
  unfolding close_wf_def shrinks_def by metis

lemma shrinks_refl: "sessions_wf s \<Longrightarrow> shrinks s s"
  by (simp add: shrinks_def sessions_wf_def)

lemma shrinks_same:
  "map2_wf (deviceSessions s) \<Longrightarrow> deviceSessions s' = deviceSessions s \<Longrightarrow> next_ref s' = next_ref s
   \<Longrightarrow> shrinks s s'"
  by (simp add: shrinks_def)

text \<open>The effect of each operation on the frames, sessions and orphans.\<close>

lemma unregisterDeviceSession_simps [simp]:
  "deviceTabMap (unregisterDeviceSession dev tok s) = deviceTabMap s"
  "frameLifetimes (unregisterDeviceSession dev tok s) = frameLifetimes s"
  "orphanCleanup (unregisterDeviceSession dev tok s) = orphanCleanup s"
  "next_ref (unregisterDeviceSession dev tok s) = next_ref s"
  by (simp_all add: unregisterDeviceSession_def)

lemma retainOrphanCleanup_simps [simp]:
  "deviceTabMap (retainOrphanCleanup dev tok own s) = deviceTabMap s"
  "frameLifetimes (retainOrphanCleanup dev tok own s) = frameLifetimes s"
  "next_ref (retainOrphanCleanup dev tok own s) = next_ref s"
  by (simp_all add: retainOrphanCleanup_def Let_def)

lemma finish_close_simps [simp]:
  "deviceTabMap (snd (finish_close cr r s)) = deviceTabMap s"
  "frameLifetimes (snd (finish_close cr r s)) = frameLifetimes s"
  "next_ref (snd (finish_close cr r s)) = next_ref s"
  by (simp_all add: finish_close_def Let_def split: close_result.split)

lemma unregister_session_of:
  "map2_wf (deviceSessions s) \<Longrightarrow>
   session_of (unregisterDeviceSession dev tok s) dev' tok' =
     (if dev' = dev \<and> tok' = tok \<and> dev \<noteq> 0 \<and> tok \<noteq> [] then None else session_of s dev' tok')"
  by (simp add: unregisterDeviceSession_def nested.get_remove)

lemma unregister_shrinks:
  "map2_wf (deviceSessions s) \<Longrightarrow> shrinks s (unregisterDeviceSession dev tok s)"
  unfolding shrinks_def
  by (auto simp: unregister_session_of split: if_splits)
    (simp add: unregisterDeviceSession_def nested.inv_remove)

lemma retain_shrinks:
  "map2_wf (deviceSessions s) \<Longrightarrow> shrinks s (retainOrphanCleanup dev tok own s)"
  using unregister_shrinks [of s dev tok] by (auto simp: shrinks_def retainOrphanCleanup_def Let_def)

lemma finish_close_shrinks:
  "map2_wf (deviceSessions s) \<Longrightarrow> shrinks s (snd (finish_close cr r s))"
  using unregister_shrinks [of s "close_device cr" "close_token cr"]
    retain_shrinks [of s "close_device cr" "close_token cr" "close_owner cr"]
  by (auto simp: finish_close_def Let_def shrinks_def split: close_result.split)

lemma orphans_wf_steps:
  assumes "map_wf (orphanCleanup s)"
  shows "map_wf (orphanCleanup (retainOrphanCleanup dev tok own s))"
    "map_wf (orphanCleanup (snd (finish_close cr r s)))"
  using assms
  by (auto simp: retainOrphanCleanup_def finish_close_def Let_def intro: js_wf_intros
      split: close_result.split)

lemma registerFrameLifetime_simps [simp]:
  "deviceTabMap (snd (registerFrameLifetime tab key s)) = deviceTabMap s"
  "deviceSessions (snd (registerFrameLifetime tab key s)) = deviceSessions s"
  "orphanCleanup (snd (registerFrameLifetime tab key s)) = orphanCleanup s"
  "next_ref (snd (registerFrameLifetime tab key s)) = next_ref s"
  by (auto simp: registerFrameLifetime_def split: option.split)

lemma registerFrameLifetime_wf:
  "map2_wf (frameLifetimes s) \<Longrightarrow> map2_wf (frameLifetimes (snd (registerFrameLifetime tab key s)))"
  by (auto simp: registerFrameLifetime_def nested.inv_put split: option.split)

lemma retireFrameLifetime_simps [simp]:
  "deviceTabMap (retireFrameLifetime tab key s) = deviceTabMap s"
  "deviceSessions (retireFrameLifetime tab key s) = deviceSessions s"
  "orphanCleanup (retireFrameLifetime tab key s) = orphanCleanup s"
  "next_ref (retireFrameLifetime tab key s) = next_ref s"
  by (auto simp: retireFrameLifetime_def split: option.split)

lemma retireFrameLifetime_wf:
  "map2_wf (frameLifetimes s) \<Longrightarrow> map2_wf (frameLifetimes (retireFrameLifetime tab key s))"
  by (auto simp: retireFrameLifetime_def nested.inv_put split: option.split)

lemma retireBridgeFrames_simps [simp]:
  "deviceTabMap (retireBridgeFrames tab bridge s) = deviceTabMap s"
  "deviceSessions (retireBridgeFrames tab bridge s) = deviceSessions s"
  "orphanCleanup (retireBridgeFrames tab bridge s) = orphanCleanup s"
  "next_ref (retireBridgeFrames tab bridge s) = next_ref s"
  by (auto simp: retireBridgeFrames_def split: option.split)

lemma map_get_map_value:
  "map_get (map (\<lambda>(k, v). (k, f k v)) m) k = map_option (f k) (map_get m k)"
  by (induction m) auto

lemma retireBridgeFrames_frame_gen:
  "frame_gen (retireBridgeFrames tab bridge s) tab' key =
     map_option (\<lambda>gen. if tab' = tab \<and> prefix (bridge @ ''/'') key then 0 else gen)
       (frame_gen s tab' key)"
proof (cases "map_get (frameLifetimes s) tab")
  case None
  then show ?thesis
    by (cases "tab' = tab") (simp_all add: retireBridgeFrames_def map2_get_def map2_inner_def option.map_ident)
next
  case (Some frames)
  have "(\<lambda>gen. if prefix (bridge @ ''/'') key then 0 else gen) =
    (\<lambda>k gen. if prefix (bridge @ ''/'') k then 0 else gen) key" for key
    by simp
  moreover have "If False (0::nat) = (\<lambda>gen. gen)" by auto
  ultimately show ?thesis using Some
    by (cases "tab' = tab") (simp_all add: retireBridgeFrames_def map2_get_def map2_inner_def js_map_simps option.map_ident
        map_get_map_value)
qed

lemma retireBridgeFrames_wf:
  assumes "map2_wf (frameLifetimes s)"
  shows "map2_wf (frameLifetimes (retireBridgeFrames tab bridge s))"
proof (cases "map_get (frameLifetimes s) tab")
  case None
  with assms show ?thesis by (simp add: retireBridgeFrames_def)
next
  case (Some frames)
  have keys: "map_keys (map (\<lambda>(key, gen). (key, if prefix (bridge @ ''/'') key then 0 else gen)) frames)
      = map_keys frames"
    by auto
  with assms Some have frames: "map_wf frames" "frames \<noteq> []" by (auto simp: map2_wf_iff)
  with keys have "map_wf (map (\<lambda>(key, gen). (key, if prefix (bridge @ ''/'') key then 0 else gen)) frames)"
    by metis
  with assms Some frames(2) show ?thesis
    by (auto simp: retireBridgeFrames_def map2_wf_iff js_map_simps intro: js_wf_intros split: if_splits)
qed

text \<open>A registration either changes nothing or records the owner with a new number, on a frame
  that is alive.\<close>

definition effective_frameKey :: "owner_request \<Rightarrow> nat \<Rightarrow> string" where
  "effective_frameKey owner tab =
     (if req_frameKey owner = [] then ''tab:'' @ show_nat tab else req_frameKey owner)"

definition recorded_owner :: "nat \<Rightarrow> nat \<Rightarrow> owner_request \<Rightarrow> session_owner" where
  "recorded_owner ref tab owner =
     \<lparr>owner_ref = ref, owner_tabId = tab, owner_origin = req_origin owner,
      owner_frameKey = effective_frameKey owner tab,
      owner_bridgeInstanceId = req_bridgeInstanceId owner,
      owner_clientKey = req_clientKey owner\<rparr>"

lemma registerDeviceSession_cases:
  obtains "registerDeviceSession dev tok owner s = (False, s)"
  | tab s1 where "req_tabId owner = Some tab" "dev \<noteq> 0" "tok \<noteq> []" "req_origin owner \<noteq> []"
      "s1 = s \<or> s1 = snd (registerFrameLifetime (Some tab) (effective_frameKey owner tab) s)"
      "isFrameLifetimeActive (Some tab) (effective_frameKey owner tab) s
       \<or> fst (registerFrameLifetime (Some tab) (effective_frameKey owner tab) s)"
      "registerDeviceSession dev tok owner s =
        (True, s1\<lparr>deviceSessions := map2_set (deviceSessions s) (dev, tok)
                     (recorded_owner (next_ref s) tab owner),
                  next_ref := next_ref s + 1\<rparr>)"
proof (cases "req_tabId owner = None \<or> dev = 0 \<or> tok = [] \<or> req_origin owner = []")
  case True
  then show ?thesis
    by (intro that(1)) (auto simp: registerDeviceSession_def split: option.split)
next
  case False
  then obtain tab where tab: "req_tabId owner = Some tab" by auto
  let ?key = "effective_frameKey owner tab"
  have key: "(if req_frameKey owner = [] then ''tab:'' @ show_nat tab else req_frameKey owner) = ?key"
    by (simp add: effective_frameKey_def)
  show ?thesis
  proof (cases "isFrameLifetimeActive (Some tab) ?key s")
    case True
    with False tab show ?thesis
      by (intro that(2) [of tab s])
        (auto simp: registerDeviceSession_def key recorded_owner_def Let_def)
  next
    case inactive: False
    obtain ok s1 where reg: "registerFrameLifetime (Some tab) ?key s = (ok, s1)" by fastforce
    then have s1: "deviceSessions s1 = deviceSessions s" "next_ref s1 = next_ref s"
      using registerFrameLifetime_simps [of "Some tab" ?key s] by simp_all
    show ?thesis
    proof (cases ok)
      case True
      with False tab inactive reg s1 show ?thesis
        by (intro that(2) [of tab s1])
          (auto simp: registerDeviceSession_def key recorded_owner_def Let_def)
    next
      case failed: False
      with reg have "s1 = s"
        by (auto simp: registerFrameLifetime_def split: option.splits if_splits)
      with False tab inactive reg failed show ?thesis
        by (intro that(1)) (auto simp: registerDeviceSession_def key Let_def)
    qed
  qed
qed

lemma registerDeviceSession_simps [simp]:
  "deviceTabMap (snd (registerDeviceSession dev tok owner s)) = deviceTabMap s"
  "orphanCleanup (snd (registerDeviceSession dev tok owner s)) = orphanCleanup s"
  by (cases rule: registerDeviceSession_cases [of dev tok owner s]; fastforce)+

lemma registerDeviceSession_frames_wf:
  "map2_wf (frameLifetimes s) \<Longrightarrow>
   map2_wf (frameLifetimes (snd (registerDeviceSession dev tok owner s)))"
  by (cases rule: registerDeviceSession_cases [of dev tok owner s])
    (auto intro: registerFrameLifetime_wf)

lemma registerDeviceSession_wf:
  assumes "sessions_wf s"
  shows "sessions_wf (snd (registerDeviceSession dev tok owner s))"
proof (cases rule: registerDeviceSession_cases [of dev tok owner s])
  case 1
  with assms show ?thesis by simp
next
  case (2 tab s1)
  let ?o = "recorded_owner (next_ref s) tab owner"
  let ?s' = "snd (registerDeviceSession dev tok owner s)"
  have wf: "map2_wf (deviceSessions s)" using assms by (simp add: sessions_wf_def)
  have s': "session_of ?s' d t = (if (d, t) = (dev, tok) then Some ?o else session_of s d t)"
      "next_ref ?s' = next_ref s + 1" for d t
    using 2(7) wf by (simp_all add: nested.get_put)
  have "effective_frameKey owner tab \<noteq> []" by (simp add: effective_frameKey_def)
  with 2 wf assms show ?thesis
    unfolding sessions_wf_def s'
    by (auto simp: nested.inv_put recorded_owner_def split: if_splits) (metis less_irrefl less_SucI)+
qed

lemma registerDeviceSession_close_wf:
  assumes "sessions_wf s" "close_wf s cr"
  shows "close_wf (snd (registerDeviceSession dev tok owner s)) cr"
proof (cases rule: registerDeviceSession_cases [of dev tok owner s])
  case 1
  with assms show ?thesis by simp
next
  case (2 tab s1)
  have wf: "map2_wf (deviceSessions s)" using assms by (simp add: sessions_wf_def)
  with 2(7) assms(2) show ?thesis
    by (auto simp: close_wf_def nested.get_put recorded_owner_def split: if_splits)
qed

section \<open>Every event keeps the state well formed\<close>

definition step_ok :: "bg_state \<Rightarrow> bg_state \<times> close_request list \<Rightarrow> bool" where
  "step_ok s r \<longleftrightarrow> bg_wf (fst r) \<and> shrinks s (fst r) \<and> list_all (close_wf s) (snd r)"

lemma step_okI:
  "bg_wf s \<Longrightarrow> shrinks s s' \<Longrightarrow> tabs_wf s' \<Longrightarrow> map2_wf (frameLifetimes s') \<Longrightarrow>
   map_wf (orphanCleanup s') \<Longrightarrow> list_all (close_wf s) pending \<Longrightarrow> step_ok s (s', pending)"
  using shrinks_sessions_wf [of s s'] by (simp add: step_ok_def bg_wf_def)

lemma world_wf_starting:
  "world_wf w \<Longrightarrow> step_ok (bg_st w) r \<Longrightarrow> world_wf (starting w r)"
  by (auto simp: world_wf_def step_ok_def list_all_iff intro: shrinks_close_wf)

lemma world_wf_update:
  "world_wf w \<Longrightarrow> step_ok (bg_st w) (s', []) \<Longrightarrow> world_wf (w\<lparr>bg_st := s'\<rparr>)"
  by (auto simp: world_wf_def step_ok_def list_all_iff intro: shrinks_close_wf)

lemma start_close_wf: "sessions_wf s \<Longrightarrow> close_wf s (start_close dev tok s)"
  unfolding close_wf_def sessions_wf_def start_close_def by simp

lemma selected_closes_wf: "sessions_wf s \<Longrightarrow> list_all (close_wf s) (selected_closes tokens s devs)"
  by (auto simp: selected_closes_def list_all_iff start_close_wf)

lemma bg_wfD:
  assumes "bg_wf s"
  shows "tabs_wf s" "sessions_wf s" "map2_wf (frameLifetimes s)" "map_wf (orphanCleanup s)"
    "map2_wf (deviceSessions s)" "map2_wf (deviceTabMap s)"
  using assms by (auto simp: bg_wf_def sessions_wf_def tabs_wf_def)

lemma tabs_change_ok:
  assumes "bg_wf s" "deviceSessions s1 = deviceSessions s" "next_ref s1 = next_ref s"
    "deviceTabMap s1 = deviceTabMap s" "map2_wf (frameLifetimes s1)"
    "orphanCleanup s1 = orphanCleanup s" "tabs_change s1 s'" "list_all (close_wf s) pending"
  shows "step_ok s (s', pending)"
proof (rule step_okI)
  have only: "tabs_only s1 s'" using assms(7) by (simp add: tabs_change_def)
  show "shrinks s s'"
    using assms by (intro shrinks_same) (simp_all add: tabs_only_simps [OF only] bg_wfD)
  show "tabs_wf s'"
    using assms(7) assms(4) bg_wfD(1) [OF assms(1)] by (simp add: tabs_change_def tabs_wf_def)
  show "map2_wf (frameLifetimes s')" "map_wf (orphanCleanup s')" "list_all (close_wf s) pending"
    using assms bg_wfD [OF assms(1)] by (simp_all add: tabs_only_simps [OF only])
qed (rule assms(1))

lemma purgeFrame_ok:
  assumes "bg_wf s"
  shows "step_ok s (purgeFrame tabId key s)"
proof (cases "tabId = None \<or> key = []")
  case True
  with assms show ?thesis
    by (auto simp: purgeFrame_def step_ok_def bg_wfD intro: shrinks_refl split: option.split)
next
  case False
  then obtain tab where tab: "tabId = Some tab" by auto
  let ?sel = "selected_closes (\<lambda>dev. collectDeviceSessionsForFrame dev (Some tab) key) s (known_devices s)"
  obtain s' where s': "purgeFrame (Some tab) key s = (s', ?sel)"
    "tabs_change (retireFrameLifetime (Some tab) key s) s'"
    using purgeFrame_eq False by blast
  have "step_ok s (s', ?sel)"
    by (rule tabs_change_ok [OF assms _ _ _ _ _ s'(2)])
      (simp_all add: retireFrameLifetime_wf bg_wfD [OF assms] selected_closes_wf)
  with s'(1) tab show ?thesis by simp
qed

lemma purgeBridge_ok:
  assumes "bg_wf s"
  shows "step_ok s (purgeBridge tabId bridge s)"
proof (cases "tabId = None \<or> bridge = []")
  case True
  with assms show ?thesis
    by (auto simp: purgeBridge_def step_ok_def bg_wfD intro: shrinks_refl split: option.split)
next
  case False
  then obtain tab where tab: "tabId = Some tab" by auto
  let ?sel = "selected_closes (\<lambda>dev. collectDeviceSessionsForBridge dev tab bridge) s (known_devices s)"
  obtain s' where s': "purgeBridge (Some tab) bridge s = (s', ?sel)"
    "tabs_change (retireBridgeFrames tab bridge s) s'"
    using purgeBridge_eq False by blast
  have "step_ok s (s', ?sel)"
    by (rule tabs_change_ok [OF assms _ _ _ _ _ s'(2)])
      (simp_all add: retireBridgeFrames_wf bg_wfD [OF assms] selected_closes_wf)
  with s'(1) tab show ?thesis by simp
qed

lemma map_keys_map_value [simp]: "map (fst \<circ> (\<lambda>(k, v). (k, f v))) m = map_keys m"
  by auto

lemma wf_other_fields [simp]:
  "tabs_wf (s\<lparr>frameLifetimes := fs\<rparr>) = tabs_wf s"
  "sessions_wf (s\<lparr>frameLifetimes := fs\<rparr>) = sessions_wf s"
  "shrinks s0 (s\<lparr>frameLifetimes := fs\<rparr>) = shrinks s0 s"
  by (simp_all add: tabs_wf_def sessions_wf_def shrinks_def)

lemma purgeTab_ok:
  assumes "bg_wf s"
  shows "step_ok s (purgeTab tabId s)"
proof (cases tabId)
  case None
  with assms show ?thesis
    by (auto simp: purgeTab_def step_ok_def bg_wfD intro: shrinks_refl)
next
  case (Some tab)
  let ?sel = "selected_closes (\<lambda>dev. collectDeviceSessionsForTab dev (Some tab)) s (known_devices s)"
  obtain s' where s': "purgeTab (Some tab) s =
      (s'\<lparr>frameLifetimes := map_delete (frameLifetimes s) tab\<rparr>, ?sel)" "tabs_change s s'"
    using purgeTab_eq [of tab s] by auto
  have "step_ok s (s', ?sel)"
    by (rule tabs_change_ok [OF assms _ _ _ _ _ s'(2)])
      (simp_all add: bg_wfD [OF assms] selected_closes_wf)
  then have "step_ok s (s'\<lparr>frameLifetimes := map_delete (frameLifetimes s) tab\<rparr>, ?sel)"
    using bg_wfD(3) [OF assms]
    by (simp add: step_ok_def bg_wf_def map2_wf_deleteall)
  with s'(1) Some show ?thesis by simp
qed

lemma retryOrphanCleanup_ok:
  assumes "bg_wf s"
  shows "step_ok s (retryOrphanCleanup s)"
  unfolding retryOrphanCleanup_def
  by (rule step_okI [OF assms])
    (use bg_wfD [OF assms] in \<open>auto simp: shrinks_def tabs_wf_def list_all_iff start_close_wf\<close>)

lemma registerDeviceSession_world_wf:
  assumes "world_wf w"
  shows "world_wf (w\<lparr>bg_st := snd (registerDeviceSession dev tok owner (bg_st w))\<rparr>)"
proof -
  let ?s = "bg_st w" and ?s' = "snd (registerDeviceSession dev tok owner (bg_st w))"
  have wf: "bg_wf ?s" "list_all (close_wf ?s) (bg_flight w)"
    using assms by (simp_all add: world_wf_def)
  have "bg_wf ?s'"
    using bg_wfD [OF wf(1)] registerDeviceSession_wf [of ?s]
    by (simp add: bg_wf_def tabs_wf_def registerDeviceSession_frames_wf)
  moreover have "list_all (close_wf ?s') (bg_flight w)"
    using wf(2) registerDeviceSession_close_wf [OF bg_wfD(2) [OF wf(1)]] by (simp add: list_all_iff)
  ultimately show ?thesis by (simp add: world_wf_def)
qed

lemma clear_ok:
  assumes "bg_wf s"
  shows "step_ok s (clearAuthorityOwnership s, [])" "step_ok s (clearDeviceOwnership dev s, [])"
  by (rule step_okI [OF assms];
    use bg_wfD [OF assms] in \<open>auto simp: clearAuthorityOwnership_def clearDeviceOwnership_def
      shrinks_def tabs_wf_def map2_get_deleteall js_map_simps intro: js_wf_intros split: if_splits\<close>)+

lemma tab_operations_ok:
  assumes "bg_wf s"
  shows "step_ok s (registerDeviceTab dev tab s, [])" "step_ok s (unregisterDeviceTab dev tab s, [])"
    "step_ok s (clearDeviceTab dev tab s, [])"
  by (rule tabs_change_ok [OF assms refl refl refl _ refl];
    simp add: tabs_change_def tab_operations_tabs_only tab_operations_wf bg_wfD [OF assms])+

lemma session_operations_ok:
  assumes "bg_wf s"
  shows "step_ok s (unregisterDeviceSession dev tok s, [])"
    "step_ok s (retainOrphanCleanup dev tok own s, [])"
    "step_ok s (snd (finish_close cr r s), [])"
  by (rule step_okI [OF assms];
    use bg_wfD [OF assms] in \<open>auto simp: unregister_shrinks retain_shrinks finish_close_shrinks
      orphans_wf_steps tabs_wf_def\<close>)+

lemma step_ok_trans:
  "step_ok s (s', []) \<Longrightarrow> step_ok s' (s'', []) \<Longrightarrow> step_ok s (s'', [])"
  by (auto simp: step_ok_def shrinks_def)

lemma frame_operations_ok:
  assumes "bg_wf s"
  shows "step_ok s (snd (registerFrameLifetime tab key s), [])"
    "step_ok s (retireFrameLifetime tab key s, [])"
  by (rule step_okI [OF assms]; use bg_wfD [OF assms] in \<open>auto simp: shrinks_def tabs_wf_def
      registerFrameLifetime_wf retireFrameLifetime_wf\<close>)+

lemma finish_world_wf:
  assumes "world_wf w" "i < length (bg_flight w)"
  shows "world_wf \<lparr>bg_st = snd (finish_close (bg_flight w ! i) r (bg_st w)),
      bg_flight = take i (bg_flight w) @ drop (Suc i) (bg_flight w)\<rparr>"
  using assms session_operations_ok(3) [of "bg_st w" "bg_flight w ! i" r]
  by (auto simp: world_wf_def step_ok_def list_all_iff intro: shrinks_close_wf
      dest: in_set_takeD in_set_dropD)

lemma composed_operations_ok:
  assumes "bg_wf s"
  shows "step_ok s (unregisterDeviceSession dev tok (unregisterDeviceTab dev tab s), [])"
    "step_ok s (enqueueOrphanCleanup dev tok s, [])"
proof -
  have "bg_wf (unregisterDeviceTab dev tab s)" "bg_wf (unregisterDeviceSession dev tok s)"
    using tab_operations_ok(2) [OF assms, of dev tab] session_operations_ok(1) [OF assms, of dev tok]
    by (simp_all add: step_ok_def)
  note wf = this
  show "step_ok s (unregisterDeviceSession dev tok (unregisterDeviceTab dev tab s), [])"
    by (rule step_ok_trans [OF tab_operations_ok(2) [OF assms] session_operations_ok(1) [OF wf(1)]])
  show "step_ok s (enqueueOrphanCleanup dev tok s, [])"
    unfolding enqueueOrphanCleanup_def
    by (rule step_ok_trans [OF session_operations_ok(1) [OF assms] session_operations_ok(2) [OF wf(2)]])
qed

lemma start_close_ok: "bg_wf s \<Longrightarrow> step_ok s (s, [start_close dev tok s])"
  by (simp add: step_ok_def start_close_wf bg_wfD shrinks_refl)

lemmas operations_ok = purgeFrame_ok purgeBridge_ok purgeTab_ok retryOrphanCleanup_ok clear_ok
  tab_operations_ok session_operations_ok frame_operations_ok composed_operations_ok start_close_ok

lemma bg_step_wf:
  assumes "world_wf w"
  shows "world_wf (bg_step e w)"
proof -
  have wf: "bg_wf (bg_st w)" using assms by (simp add: world_wf_def)
  show ?thesis
    by (cases e; simp only: bg_step.simps;
      ((rule world_wf_update [OF assms], rule operations_ok [OF wf])
       | (rule world_wf_starting [OF assms], rule operations_ok [OF wf])
       | rule registerDeviceSession_world_wf [OF assms]
       | simp add: finish_world_wf [OF assms] assms))
qed

lemma initial_world_wf: "world_wf initial_bg_world"
  by (simp add: world_wf_def initial_bg_world_def initial_bg_state_def bg_wf_def tabs_wf_def
      sessions_wf_def js_map_simps map2_wf_Nil)

lemma bg_steps_wf: "bg_steps w es w' \<Longrightarrow> world_wf w \<Longrightarrow> world_wf w'"
  by (induction rule: bg_steps.induct) (auto intro: bg_step_wf)

section \<open>Which closes a purge starts\<close>

definition tokens_where :: "(session_owner \<Rightarrow> bool) \<Rightarrow> nat \<Rightarrow> bg_state \<Rightarrow> string list" where
  "tokens_where P dev s = [tok. (tok, owner) \<leftarrow> map2_inner (deviceSessions s) dev, P owner]"

lemma collects_tokens_where:
  "collectDeviceSessionsForTab dev (Some tab) = tokens_where (\<lambda>o1. owner_tabId o1 = tab) dev"
  "collectDeviceSessionsForBridge dev tab bridge =
     tokens_where (\<lambda>o1. owner_tabId o1 = tab \<and> owner_bridgeInstanceId o1 = bridge) dev"
  "key \<noteq> [] \<Longrightarrow> collectDeviceSessionsForFrame dev (Some tab) key =
     tokens_where (\<lambda>o1. owner_tabId o1 = tab \<and> owner_frameKey o1 = key) dev"
  by (auto simp: fun_eq_iff collectDeviceSessionsForTab_def collectDeviceSessionsForBridge_def
      collectDeviceSessionsForFrame_def tokens_where_def)

lemma set_tokens_where:
  assumes "map2_wf (deviceSessions s)"
  shows "tok \<in> set (tokens_where P dev s) \<longleftrightarrow> (\<exists>o1. session_of s dev tok = Some o1 \<and> P o1)"
  using map2_get_iff [OF assms, of dev tok] by (auto simp: tokens_where_def)

lemma distinct_filtered_keys:
  "map_wf m \<Longrightarrow> distinct [k. (k, v) \<leftarrow> m, P v]"
  by (induction m) (auto, force)

lemma selected_closes_iff:
  assumes "map2_wf (deviceSessions s)"
  shows "cr \<in> set (selected_closes (tokens_where P) s (known_devices s)) \<longleftrightarrow>
     (\<exists>o1. close_owner cr = Some o1 \<and> P o1
           \<and> session_of s (close_device cr) (close_token cr) = Some o1)"
proof
  assume "cr \<in> set (selected_closes (tokens_where P) s (known_devices s))"
  then show "\<exists>o1. close_owner cr = Some o1 \<and> P o1
      \<and> session_of s (close_device cr) (close_token cr) = Some o1"
    by (auto simp: selected_closes_def start_close_def set_tokens_where [OF assms])
next
  assume "\<exists>o1. close_owner cr = Some o1 \<and> P o1
      \<and> session_of s (close_device cr) (close_token cr) = Some o1"
  then obtain o1 where o1: "close_owner cr = Some o1" "P o1"
    "session_of s (close_device cr) (close_token cr) = Some o1" by blast
  then have "cr = start_close (close_device cr) (close_token cr) s"
    by (cases cr) (simp add: start_close_def)
  moreover have "close_device cr \<in> set (known_devices s)"
    using map2_get_outer [OF o1(3)] by (simp add: known_devices_def js_map_simps)
  moreover have "close_token cr \<in> set (tokens_where P (close_device cr) s)"
    using o1 by (auto simp: set_tokens_where [OF assms])
  ultimately show "cr \<in> set (selected_closes (tokens_where P) s (known_devices s))"
    unfolding selected_closes_def by auto
qed

lemma selected_closes_distinct:
  assumes "map2_wf (deviceSessions s)"
  shows "distinct (selected_closes (tokens_where P) s (known_devices s))"
proof -
  have "distinct (selected_closes (tokens_where P) s devs)" if "distinct devs" for devs
    using that
  proof (induction devs)
    case Nil
    then show ?case by (simp add: selected_closes_def)
  next
    case (Cons dev devs)
    have "inj (\<lambda>tok. start_close dev tok s)" by (simp add: inj_on_def start_close_def)
    moreover have "distinct (tokens_where P dev s)"
      using map2_inner_wf [OF assms, of dev] by (simp add: tokens_where_def distinct_filtered_keys)
    ultimately have "distinct (map (\<lambda>tok. start_close dev tok s) (tokens_where P dev s))"
      by (simp add: distinct_map inj_on_def)
    with Cons show ?case by (auto simp: selected_closes_def start_close_def)
  qed
  then show ?thesis by (simp add: known_devices_def distinct_set_of_list)
qed

lemma retireFrame_gen:
  "map2_wf (frameLifetimes s) \<Longrightarrow> key \<noteq> [] \<Longrightarrow>
   frame_gen (retireFrameLifetime (Some tab) key s) tab' key' =
     (if tab' = tab \<and> key' = key then Some 0 else frame_gen s tab' key')"
  by (simp add: retireFrameLifetime_def nested.get_put)

lemma registerFrame_gen:
  assumes "map2_wf (frameLifetimes s)" "frame_gen s tab key = Some 0"
  shows "frame_gen (snd (registerFrameLifetime tab' key' s)) tab key = Some 0"
  using assms by (auto simp: registerFrameLifetime_def nested.get_put split: option.split)

section \<open>Tracking\<close>

text \<open>A token the browser still answers for: its session is registered, a close for it is under
  way, or it waits in the retry queue.\<close>

definition tracked :: "string \<Rightarrow> bg_world \<Rightarrow> bool" where
  "tracked tok w \<longleftrightarrow>
     (\<exists>dev. session_of (bg_st w) dev tok \<noteq> None)
     \<or> map_has (orphanCleanup (bg_st w)) tok
     \<or> tok \<in> close_token ` set (bg_flight w)"

text \<open>The events that may end this: the daemon confirmed the close, or it is gone with the
  daemon or the device.\<close>

fun releases :: "string \<Rightarrow> bg_world \<Rightarrow> bg_event \<Rightarrow> bool" where
  "releases tok w (CloseConfirmed dev tab tok') \<longleftrightarrow> tok' = tok"
| "releases tok w (FinishClose i result) \<longleftrightarrow>
     (\<exists>status. result = CloseResponse status \<and> isCleanupConfirmed status)
     \<and> i < length (bg_flight w) \<and> close_token (bg_flight w ! i) = tok"
| "releases tok w ClearAuthority \<longleftrightarrow> True"
| "releases tok w (ClearDevice dev) \<longleftrightarrow>
     session_of (bg_st w) dev tok \<noteq> None
     \<or> (\<exists>e. map_get (orphanCleanup (bg_st w)) tok = Some e \<and> orphan_device e = dev)"
| "releases tok w _ \<longleftrightarrow> False"

lemma tracked_same:
  "tracked tok w \<Longrightarrow> deviceSessions s' = deviceSessions (bg_st w) \<Longrightarrow>
   orphanCleanup s' = orphanCleanup (bg_st w) \<Longrightarrow> tracked tok \<lparr>bg_st = s', bg_flight = bg_flight w @ cs\<rparr>"
  by (auto simp: tracked_def)

lemma retain_tracks:
  assumes "map2_wf (deviceSessions s)"
  shows "map_has (orphanCleanup (retainOrphanCleanup dev tok own s)) tok"
    and "map_has (orphanCleanup s) t \<Longrightarrow> map_has (orphanCleanup (retainOrphanCleanup dev tok own s)) t"
    and "t \<noteq> tok \<Longrightarrow> session_of (retainOrphanCleanup dev tok own s) d t = session_of s d t"
  using assms
  by (simp_all add: retainOrphanCleanup_def Let_def js_map_simps unregister_session_of
      del: set_map)

lemma finish_close_cases:
  obtains "finish_close cr r s =
      (False, retainOrphanCleanup (close_device cr) (close_token cr) (close_owner cr) s)"
  | s1 where "s1 = s \<or> s1 = unregisterDeviceSession (close_device cr) (close_token cr) s"
      "finish_close cr r s =
        (True, s1\<lparr>orphanCleanup := map_delete (orphanCleanup s1) (close_token cr)\<rparr>)"
proof (cases "\<exists>status. r = CloseResponse status \<and> isCleanupConfirmed status")
  case True
  show ?thesis
    by (rule that(2) [of "if close_owner cr \<noteq> None
          \<and> same_owner (session_of s (close_device cr) (close_token cr)) (close_owner cr)
        then unregisterDeviceSession (close_device cr) (close_token cr) s else s"])
      (use True in \<open>auto simp: finish_close_def Let_def\<close>)
next
  case False
  then show ?thesis
    by (intro that(1)) (auto simp: finish_close_def Let_def split: close_result.split)
qed

lemma map_has_delete: "map_has (map_delete m k) k' \<longleftrightarrow> map_has m k' \<and> k' \<noteq> k"
  unfolding keys_map_delete by blast

lemma finish_tracks:
  assumes "map2_wf (deviceSessions s)"
  shows "fst (finish_close cr r s) = False \<Longrightarrow>
      map_has (orphanCleanup (snd (finish_close cr r s))) (close_token cr)"
    and "t \<noteq> close_token cr \<Longrightarrow> map_has (orphanCleanup s) t \<Longrightarrow>
      map_has (orphanCleanup (snd (finish_close cr r s))) t"
    and "t \<noteq> close_token cr \<Longrightarrow> session_of (snd (finish_close cr r s)) d t = session_of s d t"
proof -
  show "fst (finish_close cr r s) = False \<Longrightarrow>
      map_has (orphanCleanup (snd (finish_close cr r s))) (close_token cr)"
    using retain_tracks(1) [OF assms]
    by (cases rule: finish_close_cases [of cr r s]) (simp_all del: set_map)
  show "map_has (orphanCleanup (snd (finish_close cr r s))) t"
    if "t \<noteq> close_token cr" "map_has (orphanCleanup s) t"
    using that retain_tracks(2) [OF assms]
    by (cases rule: finish_close_cases [of cr r s]) (auto simp del: set_map simp: map_has_delete)
  show "session_of (snd (finish_close cr r s)) d t = session_of s d t" if "t \<noteq> close_token cr"
    using that retain_tracks(3) [OF assms]
    by (cases rule: finish_close_cases [of cr r s]) (auto simp: unregister_session_of [OF assms])
qed

lemma finish_confirmed:
  "fst (finish_close cr r s) \<longleftrightarrow> (\<exists>status. r = CloseResponse status \<and> isCleanupConfirmed status)"
  by (auto simp: finish_close_def Let_def split: close_result.split)

lemma tracked_step:
  assumes wf: "world_wf w" and tr: "tracked tok w" and keep: "\<not> releases tok w e"
  shows "tracked tok (bg_step e w)"
proof -
  have s: "map2_wf (deviceSessions (bg_st w))"
    using wf by (simp add: world_wf_def bg_wf_def sessions_wf_def)
  note update = tracked_same [OF tr, where cs = "[]", simplified]
  have purge: "tracked tok (starting w r)"
    if "deviceSessions (fst r) = deviceSessions (bg_st w)"
      "orphanCleanup (fst r) = orphanCleanup (bg_st w)" for r
    using tracked_same [OF tr that] by simp
  show ?thesis
  proof (cases e)
    case (RegisterSession dev tok' owner)
    with tr show ?thesis
      by (cases rule: registerDeviceSession_cases [of dev tok' owner "bg_st w"])
        (auto simp: tracked_def nested.get_put s)
  next
    case (CloseConfirmed dev tab tok')
    have "tabs_only (bg_st w) (unregisterDeviceTab dev tab (bg_st w))"
      by (rule tab_operations_tabs_only)
    with CloseConfirmed tr keep show ?thesis
      by (auto simp: tracked_def unregister_session_of s tabs_only_simps)
  next
    case (FinishClose i result)
    show ?thesis
    proof (cases "i < length (bg_flight w)")
      case False
      with FinishClose tr show ?thesis by simp
    next
      case True
      let ?cr = "bg_flight w ! i"
      have fl: "set (bg_flight w) = insert ?cr (set (take i (bg_flight w) @ drop (Suc i) (bg_flight w)))"
        using id_take_nth_drop [OF True] by (metis Un_insert_right list.simps(15) set_append)
      show ?thesis
      proof (cases "close_token ?cr = tok")
        case same: True
        with keep FinishClose True have "fst (finish_close ?cr result (bg_st w)) = False"
          by (simp add: finish_confirmed)
        from finish_tracks(1) [OF s this] same FinishClose True show ?thesis
          by (simp add: tracked_def del: set_map)
      next
        case False
        with tr FinishClose True finish_tracks(2,3) [OF s, of tok ?cr result] fl
        show ?thesis unfolding tracked_def by (auto simp del: set_map set_append)
      qed
    qed
  next
    case (PurgeFrame tab key)
    have "deviceSessions (fst (purgeFrame tab key (bg_st w))) = deviceSessions (bg_st w)
        \<and> orphanCleanup (fst (purgeFrame tab key (bg_st w))) = orphanCleanup (bg_st w)"
    proof (cases "tab = None \<or> key = []")
      case True
      then show ?thesis by (auto simp: purgeFrame_def split: option.split)
    next
      case False
      then obtain t where "tab = Some t" by auto
      with False purgeFrame_eq [of key t "bg_st w"] show ?thesis
        by (auto simp: tabs_change_def tabs_only_simps)
    qed
    with PurgeFrame purge show ?thesis by simp
  next
    case (PurgeBridge tab bridge)
    have "deviceSessions (fst (purgeBridge tab bridge (bg_st w))) = deviceSessions (bg_st w)
        \<and> orphanCleanup (fst (purgeBridge tab bridge (bg_st w))) = orphanCleanup (bg_st w)"
    proof (cases "tab = None \<or> bridge = []")
      case True
      then show ?thesis by (auto simp: purgeBridge_def split: option.split)
    next
      case False
      then obtain t where "tab = Some t" by auto
      with False purgeBridge_eq [of bridge t "bg_st w"] show ?thesis
        by (auto simp: tabs_change_def tabs_only_simps)
    qed
    with PurgeBridge purge show ?thesis by simp
  next
    case (PurgeTab tab)
    have "deviceSessions (fst (purgeTab tab (bg_st w))) = deviceSessions (bg_st w)
        \<and> orphanCleanup (fst (purgeTab tab (bg_st w))) = orphanCleanup (bg_st w)"
      using purgeTab_eq [of "the tab" "bg_st w"]
      by (cases tab) (auto simp: purgeTab_def tabs_change_def tabs_only_simps)
    with PurgeTab purge show ?thesis by simp
  next
    case (EnqueueOrphan dev tok')
    have "map2_wf (deviceSessions (unregisterDeviceSession dev tok' (bg_st w)))"
      using unregister_shrinks [OF s] by (simp add: shrinks_def)
    with EnqueueOrphan tr retain_tracks [where s = "unregisterDeviceSession dev tok' (bg_st w)" and dev = dev
        and tok = tok' and own = None]
    show ?thesis
      by (cases "tok' = tok")
        (auto simp: tracked_def enqueueOrphanCleanup_def unregister_session_of s simp del: set_map)
  next
    case (ClearDevice dev)
    from tr consider d o1 where "session_of (bg_st w) d tok = Some o1"
      | en where "map_get (orphanCleanup (bg_st w)) tok = Some en"
      | "tok \<in> close_token ` set (bg_flight w)"
      unfolding tracked_def map_has_get by blast
    then show ?thesis
    proof cases
      case 1
      with keep ClearDevice have "d \<noteq> dev" by auto
      with 1 have "session_of (clearDeviceOwnership dev (bg_st w)) d tok = Some o1"
        by (simp add: clearDeviceOwnership_def map2_get_deleteall)
      with ClearDevice show ?thesis unfolding tracked_def by auto
    next
      case 2
      then have "(tok, en) \<in> set (filter (\<lambda>(tok, e). orphan_device e \<noteq> dev) (orphanCleanup (bg_st w)))"
        using keep ClearDevice by (auto dest: map_get_mem)
      then have "map_has (filter (\<lambda>(tok, e). orphan_device e \<noteq> dev) (orphanCleanup (bg_st w))) tok"
        by force
      with ClearDevice show ?thesis
        by (simp add: tracked_def clearDeviceOwnership_def del: set_map set_filter)
    next
      case 3
      with ClearDevice show ?thesis by (simp add: tracked_def)
    qed
  next
    case RetryOrphans
    with tr show ?thesis by (auto simp: tracked_def retryOrphanCleanup_def)
  next
    case ClearAuthority
    with keep show ?thesis by simp
  next
    case (StartClose dev tok')
    with tr show ?thesis by (auto simp: tracked_def)
  qed (use tr in \<open>auto simp: tracked_def tabs_only_simps [OF tab_operations_tabs_only(1)]
      tabs_only_simps [OF tab_operations_tabs_only(2)] tabs_only_simps [OF tab_operations_tabs_only(3)]\<close>)
qed

section \<open>Retired frames\<close>

text \<open>What one event may do to a frame that was retired: nothing, unless the tab or the daemon
  itself goes.\<close>

definition frame_dead :: "nat \<Rightarrow> string \<Rightarrow> bg_world \<Rightarrow> bool" where
  "frame_dead tab key w \<longleftrightarrow> frame_gen (bg_st w) tab key = Some 0"

definition frame_sessions :: "nat \<Rightarrow> string \<Rightarrow> bg_world \<Rightarrow> (nat \<times> string \<times> session_owner) set" where
  "frame_sessions tab key w =
     {(dev, tok, o1). session_of (bg_st w) dev tok = Some o1
                      \<and> owner_tabId o1 = tab \<and> owner_frameKey o1 = key}"

lemma frame_sessions_shrinks:
  "shrinks (bg_st w) (bg_st w') \<Longrightarrow> frame_sessions tab key w' \<subseteq> frame_sessions tab key w"
  by (auto simp: frame_sessions_def shrinks_def)

lemma registerDeviceSession_dead:
  assumes wf: "bg_wf s" and dead: "frame_gen s tab key = Some 0"
  shows "frame_gen (snd (registerDeviceSession dev tok owner s)) tab key = Some 0"
    and "session_of (snd (registerDeviceSession dev tok owner s)) d t = Some o1 \<Longrightarrow>
      owner_tabId o1 = tab \<Longrightarrow> owner_frameKey o1 = key \<Longrightarrow> session_of s d t = Some o1"
proof -
  note wfs = bg_wfD [OF wf]
  show "frame_gen (snd (registerDeviceSession dev tok owner s)) tab key = Some 0"
    using dead registerFrame_gen [OF wfs(3) dead]
    by (cases rule: registerDeviceSession_cases [of dev tok owner s]) auto
  assume o1: "session_of (snd (registerDeviceSession dev tok owner s)) d t = Some o1"
    "owner_tabId o1 = tab" "owner_frameKey o1 = key"
  show "session_of s d t = Some o1"
  proof (cases rule: registerDeviceSession_cases [of dev tok owner s])
    case 1
    with o1 show ?thesis by simp
  next
    case (2 tab' s1)
    have "\<not> (tab' = tab \<and> effective_frameKey owner tab' = key)"
      using 2(6) dead
      by (auto simp: isFrameLifetimeActive_def registerFrameLifetime_def split: if_splits)
    with 2(7) o1 show ?thesis
      by (auto simp: nested.get_put wfs recorded_owner_def split: if_splits)
  qed
qed

lemma frame_dead_step:
  assumes wf: "world_wf w" and dead: "frame_dead tab key w"
    and e: "e \<noteq> PurgeTab (Some tab)" "e \<noteq> ClearAuthority"
  shows "frame_dead tab key (bg_step e w)"
    and "frame_sessions tab key (bg_step e w) \<subseteq> frame_sessions tab key w"
proof -
  have bwf: "bg_wf (bg_st w)" using wf by (simp add: world_wf_def)
  have gen: "frame_gen (bg_st w) tab key = Some 0" using dead by (simp add: frame_dead_def)
  note wfs = bg_wfD [OF bwf] and reg_dead = registerDeviceSession_dead [OF bwf gen]
  show "frame_sessions tab key (bg_step e w) \<subseteq> frame_sessions tab key w"
  proof (cases "\<exists>dev tok owner. e = RegisterSession dev tok owner")
    case True
    then show ?thesis using reg_dead(2) by (auto simp: frame_sessions_def)
  next
    case False
    have "shrinks (bg_st w) (bg_st (bg_step e w))"
      using False operations_ok [OF bwf] shrinks_refl [OF wfs(2)]
      by (cases e) (simp_all add: step_ok_def)
    then show ?thesis by (rule frame_sessions_shrinks)
  qed
  have purgeFrame_dead: "frame_gen (fst (purgeFrame t k (bg_st w))) tab key = Some 0" for t k
  proof (cases "t = None \<or> k = []")
    case True
    then show ?thesis using gen by (auto simp: purgeFrame_def split: option.split)
  next
    case False
    then obtain t' where t': "t = Some t'" "k \<noteq> []" by auto
    with purgeFrame_eq [OF t'(2), of t' "bg_st w"] show ?thesis
      by (auto simp: tabs_change_def tabs_only_simps retireFrame_gen [OF wfs(3)] gen)
  qed
  have purgeBridge_dead: "frame_gen (fst (purgeBridge t k (bg_st w))) tab key = Some 0" for t k
  proof (cases "t = None \<or> k = []")
    case True
    then show ?thesis using gen by (auto simp: purgeBridge_def split: option.split)
  next
    case False
    then obtain t' where t': "t = Some t'" "k \<noteq> []" by auto
    with purgeBridge_eq [OF t'(2), of t' "bg_st w"] show ?thesis
      by (auto simp: tabs_change_def tabs_only_simps retireBridgeFrames_frame_gen gen)
  qed
  have purgeTab_dead: "frame_gen (fst (purgeTab t (bg_st w))) tab key = Some 0" if "t \<noteq> Some tab" for t
  proof (cases t)
    case None
    then show ?thesis using gen by (simp add: purgeTab_def)
  next
    case (Some t')
    with purgeTab_eq [of t' "bg_st w"] that show ?thesis
      by (auto simp: map2_get_deleteall gen)
  qed
  have retire: "frame_gen (retireFrameLifetime t k (bg_st w)) tab key = Some 0" for t k
    using gen by (auto simp: retireFrameLifetime_def nested.get_put wfs split: option.split)
  show "frame_dead tab key (bg_step e w)"
    using e gen reg_dead(1) purgeFrame_dead purgeBridge_dead purgeTab_dead retire
      registerFrame_gen [OF wfs(3) gen]
    by (cases e) (simp_all add: frame_dead_def tabs_only_simps [OF tab_operations_tabs_only(1)]
      tabs_only_simps [OF tab_operations_tabs_only(2)] tabs_only_simps [OF tab_operations_tabs_only(3)]
      enqueueOrphanCleanup_def retryOrphanCleanup_def clearDeviceOwnership_def)
qed

lemma frame_dead_steps:
  assumes "bg_steps w es w'" "world_wf w" "frame_dead tab key w"
    and "PurgeTab (Some tab) \<notin> set es" "ClearAuthority \<notin> set es"
  shows "frame_dead tab key w' \<and> frame_sessions tab key w' \<subseteq> frame_sessions tab key w"
  using assms
proof (induction rule: bg_steps.induct)
  case (none w)
  then show ?case by simp
next
  case (more e w es w')
  then have "frame_dead tab key (bg_step e w)"
    "frame_sessions tab key (bg_step e w) \<subseteq> frame_sessions tab key w"
    using frame_dead_step [of w tab key e] by auto
  moreover have "world_wf (bg_step e w)" by (rule bg_step_wf [OF more.prems(1)])
  ultimately show ?case using more.IH more.prems by auto
qed

section \<open>Properties\<close>

text \<open>C3: no session is ever forgotten: in every state the background page can reach, whatever
  happens next (a tab, frame or bridge is purged, a close is refused, times out or answers after
  the session was registered anew, the retry timer fires), a token the browser answers for stays
  registered, has a close under way or sits in the retry queue, unless the daemon confirmed that
  very close, or the daemon or the device holding it is gone.\<close>

theorem ownership_conservation:
  assumes "bg_steps initial_bg_world es w" and "tracked tok w" and "\<not> releases tok w e"
  shows "tracked tok (bg_step e w)"
  using tracked_step [OF bg_steps_wf [OF assms(1) initial_world_wf] assms(2,3)] .

definition sample_owner :: owner_request where
  "sample_owner = \<lparr>req_tabId = Some 4, req_origin = ''https://a'', req_frameKey = ''b/1'',
     req_bridgeInstanceId = ''b'', req_clientKey = ''c''\<rparr>"

definition sample_world :: bg_world where
  "sample_world = bg_step (StartClose 7 ''t'') (bg_step (RegisterTab 7 (Some 4))
     (bg_step (RegisterSession 7 ''t'' sample_owner) initial_bg_world))"

lemma sample_world_reachable:
  "bg_steps initial_bg_world
     [RegisterSession 7 ''t'' sample_owner, RegisterTab 7 (Some 4), StartClose 7 ''t''] sample_world"
  by (simp add: bg_steps_simps sample_world_def)

lemmas sample_world_eval = sample_world_def sample_owner_def initial_bg_world_def
  initial_bg_state_def registerDeviceSession_def registerFrameLifetime_def registerDeviceTab_def
  isFrameLifetimeActive_def map2_get_def map2_set_def map2_inner_def start_close_def

theorem ownership_conservation_witness:
  "tracked ''t'' (bg_step (FinishClose 0 CloseRejected) sample_world)"
proof (rule ownership_conservation [OF sample_world_reachable])
  show "tracked ''t'' sample_world"
    by (simp add: tracked_def sample_world_eval)
  show "\<not> releases ''t'' sample_world (FinishClose 0 CloseRejected)" by simp
qed



text \<open>C27: a purge closes exactly what it should: purging a frame, a bridge or a tab starts one
  close for each session recorded for that frame, bridge or tab, on every device, with the owner
  it has now, and none for any other; it takes no session record away (only the daemon's answer
  does), retires the frame or the frames of the bridge, and a purged tab is authorized for no
  device any more.\<close>

theorem purges_select_exactly:
  assumes "bg_steps initial_bg_world es w" and "key \<noteq> []"
  shows "(distinct (snd (purgeFrame (Some tab) key (bg_st w)))
      \<and> (\<forall>cr. cr \<in> set (snd (purgeFrame (Some tab) key (bg_st w))) \<longleftrightarrow>
           (\<exists>o1. close_owner cr = Some o1 \<and> owner_tabId o1 = tab \<and> owner_frameKey o1 = key
                 \<and> session_of (bg_st w) (close_device cr) (close_token cr) = Some o1))
      \<and> deviceSessions (fst (purgeFrame (Some tab) key (bg_st w))) = deviceSessions (bg_st w)
      \<and> \<not> isFrameLifetimeActive (Some tab) key (fst (purgeFrame (Some tab) key (bg_st w))))
    \<and> (distinct (snd (purgeBridge (Some tab) key (bg_st w)))
      \<and> (\<forall>cr. cr \<in> set (snd (purgeBridge (Some tab) key (bg_st w))) \<longleftrightarrow>
           (\<exists>o1. close_owner cr = Some o1 \<and> owner_tabId o1 = tab \<and> owner_bridgeInstanceId o1 = key
                 \<and> session_of (bg_st w) (close_device cr) (close_token cr) = Some o1))
      \<and> deviceSessions (fst (purgeBridge (Some tab) key (bg_st w))) = deviceSessions (bg_st w)
      \<and> (\<forall>rest. \<not> isFrameLifetimeActive (Some tab) (key @ ''/'' @ rest)
                   (fst (purgeBridge (Some tab) key (bg_st w)))))
    \<and> (distinct (snd (purgeTab (Some tab) (bg_st w)))
      \<and> (\<forall>cr. cr \<in> set (snd (purgeTab (Some tab) (bg_st w))) \<longleftrightarrow>
           (\<exists>o1. close_owner cr = Some o1 \<and> owner_tabId o1 = tab
                 \<and> session_of (bg_st w) (close_device cr) (close_token cr) = Some o1))
      \<and> deviceSessions (fst (purgeTab (Some tab) (bg_st w))) = deviceSessions (bg_st w)
      \<and> (\<forall>dev. \<not> isTabAuthorizedForDevice (Some tab) dev (fst (purgeTab (Some tab) (bg_st w)))))"
    (is "?frame \<and> ?bridge \<and> ?tab")
proof -
  let ?s = "bg_st w"
  have bwf: "bg_wf ?s"
    using bg_steps_wf [OF assms(1) initial_world_wf] by (simp add: world_wf_def)
  note wfs = bg_wfD [OF bwf]
  note sel = selected_closes_iff [OF wfs(5)] selected_closes_distinct [OF wfs(5)]
  have ?frame
    using purgeFrame_eq [OF assms(2), of tab ?s] assms(2)
    by (auto simp: collects_tokens_where sel tabs_change_def tabs_only_simps isFrameLifetimeActive_def
        retireFrame_gen [OF wfs(3)])
  moreover have ?bridge
    using purgeBridge_eq [OF assms(2), of tab ?s]
    by (auto simp: collects_tokens_where sel tabs_change_def tabs_only_simps isFrameLifetimeActive_def
        retireBridgeFrames_frame_gen split: option.split)
  moreover have ?tab
    using purgeTab_eq [of tab ?s] wfs(1)
    by (auto simp: collects_tokens_where sel tabs_change_def tabs_only_simps isTabAuthorizedForDevice_def)
  ultimately show ?thesis by blast
qed

theorem purges_select_exactly_witness:
  "start_close 7 ''t'' (bg_st sample_world) \<in> set (snd (purgeTab (Some 4) (bg_st sample_world)))
   \<and> \<not> isTabAuthorizedForDevice (Some 4) 7 (fst (purgeTab (Some 4) (bg_st sample_world)))"
proof -
  have "\<exists>o1. close_owner (start_close 7 ''t'' (bg_st sample_world)) = Some o1 \<and> owner_tabId o1 = 4
      \<and> session_of (bg_st sample_world) 7 ''t'' = Some o1"
    by (simp add: sample_world_eval Let_def)
  with purges_select_exactly [OF sample_world_reachable, of "''b''" 4] show ?thesis
    by (simp add: start_close_def)
qed

text \<open>An answer settles its own close only: whatever the daemon answers, the sessions of other
  tokens and a session registered anew under the same token while the close was under way keep
  their records; a confirmed answer (2xx or 404) ends the session the close was started for and
  its retry entry, any other moves the token to the retry queue without resetting its count.\<close>

theorem close_answer_settles_its_own:
  assumes "bg_steps initial_bg_world es w" and "i < length (bg_flight w)"
    and "cr = bg_flight w ! i"
    and "finish_close cr result (bg_st w) = (confirmed, s')"
  shows "(\<forall>dev tok. (dev, tok) \<noteq> (close_device cr, close_token cr)
            \<or> \<not> same_owner (session_of (bg_st w) dev tok) (close_owner cr)
            \<longrightarrow> session_of s' dev tok = session_of (bg_st w) dev tok)
    \<and> (close_owner cr \<noteq> None
        \<and> same_owner (session_of (bg_st w) (close_device cr) (close_token cr)) (close_owner cr)
        \<longrightarrow> session_of s' (close_device cr) (close_token cr) = None)
    \<and> (confirmed \<longleftrightarrow> (\<exists>n. result = CloseResponse (Some n) \<and> (200 \<le> n \<and> n \<le> 299 \<or> n = 404)))
    \<and> map_get (orphanCleanup s') (close_token cr) =
        (if confirmed then None
         else case map_get (orphanCleanup (bg_st w)) (close_token cr) of
                Some e \<Rightarrow> Some e
              | None \<Rightarrow> Some \<lparr>orphan_device = close_device cr, orphan_attempts = 0\<rparr>)"
proof -
  have wf: "bg_wf (bg_st w)" "close_wf (bg_st w) cr"
    using bg_steps_wf [OF assms(1) initial_world_wf] assms(2,3)
    by (auto simp: world_wf_def list_all_length)
  note wfs = bg_wfD [OF wf(1)]
  have own: "close_device cr \<noteq> 0 \<and> close_token cr \<noteq> []"
    if "session_of (bg_st w) (close_device cr) (close_token cr) = Some o1" for o1
    using wfs(2) that by (auto simp: sessions_wf_def)
  have conf: "isCleanupConfirmed status \<longleftrightarrow>
      (\<exists>n. status = Some n \<and> (200 \<le> n \<and> n \<le> 299 \<or> n = 404))" for status
    by (auto simp: isCleanupConfirmed_def CLEANUP_ALREADY_GONE_def split: option.split)
  have unreg: "session_of (unregisterDeviceSession (close_device cr) (close_token cr) (bg_st w)) dev tok =
      (if dev = close_device cr \<and> tok = close_token cr then None else session_of (bg_st w) dev tok)"
    for dev tok
    using own by (cases "session_of (bg_st w) dev tok") (auto simp: unregister_session_of wfs)
  define s1 where "s1 =
    (if close_owner cr \<noteq> None
        \<and> same_owner (session_of (bg_st w) (close_device cr) (close_token cr)) (close_owner cr)
     then unregisterDeviceSession (close_device cr) (close_token cr) (bg_st w) else bg_st w)"
  have "orphanCleanup s1 = orphanCleanup (bg_st w)" by (simp add: s1_def)
  moreover have s': "confirmed \<longleftrightarrow> (\<exists>n. result = CloseResponse (Some n) \<and> (200 \<le> n \<and> n \<le> 299 \<or> n = 404))"
    "s' = s1\<lparr>orphanCleanup :=
       if confirmed then map_delete (orphanCleanup s1) (close_token cr)
       else if map_has (orphanCleanup s1) (close_token cr) then orphanCleanup s1
       else map_set (orphanCleanup s1) (close_token cr)
              \<lparr>orphan_device = close_device cr, orphan_attempts = 0\<rparr>\<rparr>"
    using assms(4)
    by (auto simp: finish_close_def retainOrphanCleanup_def Let_def conf s1_def
        split: close_result.splits if_splits)
  ultimately have "map_get (orphanCleanup s') (close_token cr) =
        (if confirmed then None
         else case map_get (orphanCleanup (bg_st w)) (close_token cr) of
                Some e \<Rightarrow> Some e
              | None \<Rightarrow> Some \<lparr>orphan_device = close_device cr, orphan_attempts = 0\<rparr>)"
    unfolding map_has_get by (auto simp: js_map_simps split: option.split)
  moreover have sessions: "session_of s' dev tok = session_of s1 dev tok" for dev tok
    by (simp add: s'(2))
  ultimately show ?thesis
    using s'(1) unfolding sessions by (auto simp: s1_def unreg)
qed

theorem close_answer_settles_its_own_witness:
  "\<exists>s'. finish_close (bg_flight sample_world ! 0) (CloseResponse (Some 404)) (bg_st sample_world)
      = (True, s') \<and> map_get (orphanCleanup s') ''t'' = None \<and> session_of s' 7 ''t'' = None"
proof -
  obtain c s' where f: "finish_close (bg_flight sample_world ! 0) (CloseResponse (Some 404))
      (bg_st sample_world) = (c, s')" by fastforce
  have "0 < length (bg_flight sample_world)" by (simp add: sample_world_eval)
  note settles = close_answer_settles_its_own [OF sample_world_reachable this refl f]
  have cr: "bg_flight sample_world ! 0 = start_close 7 ''t'' (bg_st sample_world)"
    "session_of (bg_st sample_world) 7 ''t'' \<noteq> None"
    by (simp_all add: sample_world_eval Let_def)
  from settles f cr show ?thesis by (auto simp: start_close_def)
qed

text \<open>C6: sessions are isolated: once a session is registered, the check every handler makes
  accepts exactly the origin, tab, document and client it was registered for, so neither a
  sibling frame nor another origin of the same tab can use or close it, and the answer for every
  other session is what it was.\<close>

theorem session_isolation:
  assumes "bg_steps initial_bg_world es w"
    and "registerDeviceSession dev tok owner (bg_st w) = (True, s')"
  shows "(isSessionOwnedBy dev tok origin (Some tab) (Some key) (Some client) s' \<longleftrightarrow>
        origin = req_origin owner \<and> Some tab = req_tabId owner
        \<and> key = effective_frameKey owner tab \<and> client = req_clientKey owner)
    \<and> (isSessionOwnedBy dev tok origin t k c s' \<longrightarrow> origin = req_origin owner \<and> origin \<noteq> [])
    \<and> ((dev', tok') \<noteq> (dev, tok) \<longrightarrow>
        isSessionOwnedBy dev' tok' origin t k c s' = isSessionOwnedBy dev' tok' origin t k c (bg_st w))"
proof -
  have wf: "map2_wf (deviceSessions (bg_st w))"
    using bg_steps_wf [OF assms(1) initial_world_wf] by (simp add: world_wf_def bg_wfD)
  from assms(2) show ?thesis
    by (cases rule: registerDeviceSession_cases [of dev tok owner "bg_st w"])
      (auto simp: isSessionOwnedBy_def nested.get_put wf recorded_owner_def)
qed

theorem session_isolation_witness:
  "\<exists>s'. registerDeviceSession 7 ''t'' sample_owner (bg_st initial_bg_world) = (True, s')
     \<and> \<not> isSessionOwnedBy 7 ''t'' ''https://b'' (Some 4) (Some ''b/1'') (Some ''c'') s'
     \<and> isSessionOwnedBy 7 ''t'' ''https://a'' (Some 4) (Some ''b/1'') (Some ''c'') s'"
proof -
  let ?r = "registerDeviceSession 7 ''t'' sample_owner (bg_st initial_bg_world)"
  have "fst ?r" by (simp add: sample_world_eval Let_def)
  then have r: "?r = (True, snd ?r)" by (cases ?r) simp
  have start: "bg_steps initial_bg_world [] initial_bg_world" by (simp add: bg_steps_simps)
  from session_isolation [OF start r, of "''https://a''" 4 "''b/1''" "''c''"]
    session_isolation [OF start r, of "''https://b''" 4 "''b/1''" "''c''"] r
  show ?thesis by (auto simp: sample_owner_def effective_frameKey_def)
qed

text \<open>C40: the state stays well formed in every state the background page can reach: a map holds a
  key once and no empty inner map, a tab counted for a device has at least one open there, every
  recorded session has a device, a token, an origin and a document, and no two sessions share an
  owner object, nor does a close under way remember the owner of a session other than its own.\<close>

theorem background_state_wellformed:
  assumes "bg_steps initial_bg_world es w"
  shows "map2_wf (deviceTabMap (bg_st w)) \<and> map2_wf (deviceSessions (bg_st w))
    \<and> map2_wf (frameLifetimes (bg_st w)) \<and> map_wf (orphanCleanup (bg_st w))
    \<and> (\<forall>dev tab n. tab_count (bg_st w) dev tab = Some n \<longrightarrow> n > 0)
    \<and> (\<forall>dev tok o1. session_of (bg_st w) dev tok = Some o1 \<longrightarrow>
         dev \<noteq> 0 \<and> tok \<noteq> [] \<and> owner_origin o1 \<noteq> [] \<and> owner_frameKey o1 \<noteq> []
         \<and> (\<forall>dev' tok' o2. session_of (bg_st w) dev' tok' = Some o2
              \<and> owner_ref o2 = owner_ref o1 \<longrightarrow> dev' = dev \<and> tok' = tok)
         \<and> (\<forall>cr o2. cr \<in> set (bg_flight w) \<and> close_owner cr = Some o2
              \<and> owner_ref o2 = owner_ref o1 \<longrightarrow> close_device cr = dev \<and> close_token cr = tok))"
  using bg_steps_wf [OF assms initial_world_wf]
  unfolding world_wf_def bg_wf_def tabs_wf_def sessions_wf_def close_wf_def list_all_iff
  by (auto; metis)

theorem background_state_wellformed_witness:
  "map2_wf (deviceSessions (bg_st sample_world)) \<and> map2_wf (deviceTabMap (bg_st sample_world))"
  using background_state_wellformed [OF sample_world_reachable] by blast

end
