(* ===== verification/Descriptor_Tlv.thy ===== *)
theory Descriptor_Tlv
  imports Base64
begin

text \<open>
  \<open>addon/js/utils/descriptor-tlv.js\<close>: the decoder of the tag-length-value blob in which the
  daemon sends the HID collections of a device, reader by reader, with the offset as state
  and the \<open>RangeError\<close> of \<open>DataView\<close> as a value.  The daemon's encoder and the
  round trip between the two ends of the wire are in \<open>Tlv_Encoder\<close>.

  The strings of a field stay the UTF-8 bytes they are on the wire (\<open>TextDecoder\<close> is applied
  to each of them).  The mutual recursion of \<open>readNode\<close>, \<open>readCollection\<close> and \<open>readReport\<close>
  terminates because every node starts beyond the one that holds it and within the buffer,
  although a nested length may point past its parent's end.
\<close>

section \<open>Readers\<close>

text \<open>A reader takes the offset and returns a value and the next offset, or throws.\<close>

type_synonym 'a reader = "nat \<Rightarrow> ('a \<times> nat) res"

definition rd_bind :: "'a reader \<Rightarrow> ('a \<Rightarrow> 'b reader) \<Rightarrow> 'b reader" where
  "rd_bind p f = (\<lambda>off. rbind (p off) (\<lambda>(x, off'). f x off'))"

definition rd_return :: "'a \<Rightarrow> 'a reader" where
  "rd_return x = (\<lambda>off. Inr (x, off))"

definition rd_fixed :: "(nat \<Rightarrow> 'a res) \<Rightarrow> nat \<Rightarrow> 'a reader" where
  "rd_fixed get n = (\<lambda>off. rbind (get off) (\<lambda>x. Inr (x, off + n)))"

definition rd_u8 :: "bytes \<Rightarrow> nat reader" where "rd_u8 bin = rd_fixed (getUint8 bin) 1"
definition rd_i8 :: "bytes \<Rightarrow> int reader" where "rd_i8 bin = rd_fixed (getInt8 bin) 1"
definition rd_u16 :: "bytes \<Rightarrow> nat reader" where "rd_u16 bin = rd_fixed (getUint16 bin) 2"
definition rd_u32 :: "bytes \<Rightarrow> nat reader" where "rd_u32 bin = rd_fixed (getUint32 bin) 4"
definition rd_i32 :: "bytes \<Rightarrow> int reader" where "rd_i32 bin = rd_fixed (getInt32 bin) 4"

lemma getUint8_in_range: "getUint8 bin off = Inr b \<Longrightarrow> off < length bin"
  by (auto simp: getUint8_def view_bytes_def split: if_splits)

text \<open>\<open>readVarint\<close>: seven bits a byte, the shift count taken modulo 32 as JavaScript's \<open><<\<close>
  does, the result unsigned (\<open>>>> 0\<close>).\<close>

function readVarint_loop :: "bytes \<Rightarrow> 32 word \<Rightarrow> nat \<Rightarrow> nat reader" where
  "readVarint_loop bin result shift off =
     rbind (getUint8 bin off) (\<lambda>byte.
       let result' = result OR push_bit (shift mod 32) (word_of_nat (byte AND 127))
       in if byte AND 128 \<noteq> 0 then readVarint_loop bin result' (shift + 7) (off + 1)
          else Inr (unat result', off + 1))"
  by pat_completeness auto
termination
  by (relation "measure (\<lambda>(bin, _, _, off). length bin - off)")
    (auto dest: getUint8_in_range)

declare readVarint_loop.simps [simp del]

definition readVarint :: "bytes \<Rightarrow> nat reader" where
  "readVarint bin = readVarint_loop bin 0 0"

fun rd_times :: "nat \<Rightarrow> 'a reader \<Rightarrow> 'a list reader" where
  "rd_times 0 p = rd_return []"
| "rd_times (Suc n) p = rd_bind p (\<lambda>x. rd_bind (rd_times n p) (\<lambda>xs. rd_return (x # xs)))"

section \<open>Fields\<close>

definition UNIT_SYSTEMS :: "string list" where
  "UNIT_SYSTEMS = [''none'', ''si-linear'', ''si-rotation'', ''english-linear'',
     ''english-rotation'', ''vendor-defined'', ''reserved'']"

record tlv_field =
  isAbsolute :: bool
  isArray :: bool
  isRange :: bool
  isConstant :: bool
  isLinear :: bool
  isVolatile :: bool
  isBufferedBytes :: bool
  hasNull :: bool
  hasPreferredState :: bool
  wrap :: bool
  reportSize :: nat
  reportCount :: nat
  logicalMinimum :: int
  logicalMaximum :: int
  physicalMinimum :: int
  physicalMaximum :: int
  unitExponent :: int
  unitSystem :: string
  unitFactors :: "int list"  \<comment> \<open>length, mass, time, temperature, current, luminous intensity\<close>
  usages :: "nat list option"
  usageMinimum :: "nat option"
  usageMaximum :: "nat option"
  strings :: "bytes list"

definition unit_system_name :: "nat \<Rightarrow> string" where
  "unit_system_name tag =
     (if tag < length UNIT_SYSTEMS then UNIT_SYSTEMS ! tag else ''reserved'')"

definition readUnitFactors :: "bytes \<Rightarrow> int list reader" where
  "readUnitFactors bin = rd_times 6 (rd_i8 bin)"

definition readUsages :: "bytes \<Rightarrow> bool \<Rightarrow> (nat list option \<times> nat option \<times> nat option) reader" where
  "readUsages bin is_range =
     (if is_range then
        rd_bind (rd_u32 bin) (\<lambda>usageMinimum.
        rd_bind (rd_u32 bin) (\<lambda>usageMaximum.
        rd_return (None, Some usageMinimum, Some usageMaximum)))
      else
        rd_bind (readVarint bin) (\<lambda>count.
        rd_bind (rd_times count (rd_u32 bin)) (\<lambda>us.
        rd_return (Some us, None, None))))"

text \<open>\<open>bin.subarray(off, off + byteLen)\<close> is clamped to the buffer, not checked.\<close>

definition readString :: "bytes \<Rightarrow> bytes reader" where
  "readString bin =
     rd_bind (readVarint bin) (\<lambda>byteLen off. Inr (take byteLen (drop off bin), off + byteLen))"

definition readStrings :: "bytes \<Rightarrow> bytes list reader" where
  "readStrings bin = rd_bind (readVarint bin) (\<lambda>count. rd_times count (readString bin))"

definition readField :: "bytes \<Rightarrow> tlv_field reader" where
  "readField bin =
     rd_bind (rd_u16 bin) (\<lambda>flags.
     rd_bind (readVarint bin) (\<lambda>report_size.
     rd_bind (readVarint bin) (\<lambda>report_count.
     rd_bind (rd_i32 bin) (\<lambda>logical_min.
     rd_bind (rd_i32 bin) (\<lambda>logical_max.
     rd_bind (rd_i32 bin) (\<lambda>physical_min.
     rd_bind (rd_i32 bin) (\<lambda>physical_max.
     rd_bind (rd_i8 bin) (\<lambda>unit_exponent.
     rd_bind (rd_u8 bin) (\<lambda>unit_tag.
     rd_bind (readUnitFactors bin) (\<lambda>factors.
     rd_bind (readUsages bin (flags AND 4 \<noteq> 0)) (\<lambda>(us, usage_min, usage_max).
     rd_bind (readStrings bin) (\<lambda>strs.
     rd_return
       \<lparr>isAbsolute = flags AND 1 \<noteq> 0, isArray = flags AND 2 \<noteq> 0, isRange = flags AND 4 \<noteq> 0,
        isConstant = flags AND 8 \<noteq> 0, isLinear = flags AND 16 \<noteq> 0, isVolatile = flags AND 32 \<noteq> 0,
        isBufferedBytes = flags AND 64 \<noteq> 0, hasNull = flags AND 128 \<noteq> 0,
        hasPreferredState = flags AND 256 \<noteq> 0, wrap = flags AND 512 \<noteq> 0,
        reportSize = report_size, reportCount = report_count,
        logicalMinimum = logical_min, logicalMaximum = logical_max,
        physicalMinimum = physical_min, physicalMaximum = physical_max,
        unitExponent = unit_exponent, unitSystem = unit_system_name unit_tag,
        unitFactors = factors, usages = us, usageMinimum = usage_min, usageMaximum = usage_max,
        strings = strs\<rparr>))))))))))))"

section \<open>Nodes\<close>

datatype tlv_node =
    CollectionNode (coll_type: nat) (coll_usagePage: "nat option") (coll_usage: "nat option")
      (coll_children: "tlv_node list") (coll_inputReports: "tlv_node list")
      (coll_outputReports: "tlv_node list") (coll_featureReports: "tlv_node list")
  | ReportNode (report_id: nat) (report_items: "tlv_node list")
  | FieldNode tlv_field

definition TAG_COLLECTION :: nat where "TAG_COLLECTION = 1"
definition TAG_INPUT_REPORT :: nat where "TAG_INPUT_REPORT = 2"
definition TAG_OUTPUT_REPORT :: nat where "TAG_OUTPUT_REPORT = 3"
definition TAG_FEATURE_REPORT :: nat where "TAG_FEATURE_REPORT = 4"
definition TAG_FIELD :: nat where "TAG_FIELD = 5"

lemmas tlv_tags = TAG_COLLECTION_def TAG_INPUT_REPORT_def TAG_OUTPUT_REPORT_def
  TAG_FEATURE_REPORT_def TAG_FIELD_def

text \<open>The head of a node: its tag and where its value ends.\<close>

definition readHeader :: "bytes \<Rightarrow> (nat \<times> nat) reader" where
  "readHeader bin =
     rd_bind (rd_u8 bin) (\<lambda>tag.
     rd_bind (readVarint bin) (\<lambda>len off.
     Inr ((tag, off + len), off)))"

text \<open>The fixed part of a collection.\<close>

definition readCollectionHead :: "bytes \<Rightarrow> (nat option \<times> nat option \<times> nat) reader" where
  "readCollectionHead bin =
     rd_bind (rd_u8 bin) (\<lambda>presence.
     rd_bind (if presence AND 1 \<noteq> 0 then rd_bind (rd_u16 bin) (\<lambda>u. rd_return (Some u))
              else rd_return None) (\<lambda>usagePage.
     rd_bind (if presence AND 2 \<noteq> 0 then rd_bind (rd_u16 bin) (\<lambda>u. rd_return (Some u))
              else rd_return None) (\<lambda>usage.
     rd_bind (rd_u8 bin) (\<lambda>type.
     rd_return (usagePage, usage, type)))))"

definition nodes_tagged :: "nat \<Rightarrow> (nat \<times> tlv_node option) list \<Rightarrow> tlv_node list" where
  "nodes_tagged tag items = [n. (t, Some n) \<leftarrow> items, t = tag]"

lemma readVarint_loop_advances:
  "readVarint_loop bin result shift off = Inr (v, off') \<Longrightarrow> off < off'"
proof (induction bin result shift off arbitrary: v rule: readVarint_loop.induct)
  case (1 bin result shift off)
  from "1.prems" obtain byte where "getUint8 bin off = Inr byte"
    by (subst (asm) readVarint_loop.simps) (auto simp: rbind_eq_Inr)
  with 1 show ?case
    by (subst (asm) (2) readVarint_loop.simps) (fastforce simp: Let_def split: if_splits)
qed

lemma readHeader_advances:
  assumes "readHeader bin off = Inr ((tag, end_off), off')"
  shows "off < length bin" "off < off'" "off' \<le> end_off"
  using assms
  by (auto simp: readHeader_def rd_bind_def rd_u8_def rd_fixed_def rbind_eq_Inr readVarint_def
      dest!: readVarint_loop_advances getUint8_in_range)

lemma readCollectionHead_advances:
  "readCollectionHead bin off = Inr (h, off') \<Longrightarrow> off < length bin \<and> off < off'"
  by (auto simp: readCollectionHead_def rd_bind_def rd_u8_def rd_u16_def rd_fixed_def rd_return_def
      rbind_eq_Inr dest!: getUint8_in_range split: if_splits)

lemma advance_less:
  "readCollectionHead bin off = Inr (h, off') \<Longrightarrow> length bin - off' < length bin - off"
  "getUint8 bin off = Inr v \<Longrightarrow> length bin - Suc off < length bin - off"
  "readHeader bin off = Inr ((tag, end_off), off') \<Longrightarrow> length bin - off' < length bin - off"
  "readHeader bin off = Inr ((tag, end_off), off') \<Longrightarrow> length bin - end_off < length bin - off"
  using readCollectionHead_advances [of bin off h off'] getUint8_in_range [of bin off v]
    readHeader_advances [of bin off tag end_off off']
  by linarith+

text \<open>\<open>readNode\<close> dispatches on the tag and moves to the end its header gave; the \<open>while\<close>
  loops of \<open>readCollection\<close> and \<open>readReport\<close> read nodes while the offset is before their
  own end.  \<open>readItems\<close> is that loop, \<open>readBody\<close> the dispatch.\<close>

function (sequential) readBody :: "bytes \<Rightarrow> nat \<Rightarrow> nat \<Rightarrow> nat \<Rightarrow> tlv_node option res"
  and readItems :: "bytes \<Rightarrow> nat \<Rightarrow> nat \<Rightarrow> (nat \<times> tlv_node option) list res" where
  "readBody bin tag end_off off =
     (if tag = TAG_COLLECTION then
        rbind (readCollectionHead bin off) (\<lambda>(head, off').
        case head of (usagePage, usage, type) \<Rightarrow>
        rbind (readItems bin end_off off') (\<lambda>items.
        Inr (Some (CollectionNode type usagePage usage
                     (nodes_tagged TAG_COLLECTION items) (nodes_tagged TAG_INPUT_REPORT items)
                     (nodes_tagged TAG_OUTPUT_REPORT items) (nodes_tagged TAG_FEATURE_REPORT items)))))
      else if tag = TAG_INPUT_REPORT \<or> tag = TAG_OUTPUT_REPORT \<or> tag = TAG_FEATURE_REPORT then
        rbind (getUint8 bin off) (\<lambda>reportId.
        rbind (readItems bin end_off (off + 1)) (\<lambda>items.
        Inr (Some (ReportNode reportId [n. (_, Some n) \<leftarrow> items]))))
      else if tag = TAG_FIELD then
        rbind (readField bin off) (\<lambda>(f, _). Inr (Some (FieldNode f)))
      else Inr None)"
| "readItems bin end_off off =
     (if off < end_off then
        rbind (readHeader bin off) (\<lambda>(head, off').
        case head of (tag, end') \<Rightarrow>
        rbind (readBody bin tag end' off') (\<lambda>node.
        rbind (readItems bin end_off end') (\<lambda>items.
        Inr ((tag, node) # items))))
      else Inr [])"
  by pat_completeness auto
termination
  by (relation "measure (\<lambda>x. case x of Inl (bin, _, _, off) \<Rightarrow> length bin - off
                                   | Inr (bin, _, off) \<Rightarrow> length bin - off)")
    (auto dest: advance_less)

declare readBody.simps [simp del] readItems.simps [simp del]

definition decodeCollections :: "bytes \<Rightarrow> tlv_node list res" where
  "decodeCollections bin =
     rbind (readItems bin (length bin) 0) (\<lambda>items. Inr (nodes_tagged TAG_COLLECTION items))"

definition decodeCollectionsTlv :: "string \<Rightarrow> tlv_node list res" where
  "decodeCollectionsTlv b64 =
     (if b64 = '''' then Inr []
      else rbind (fromBase64 b64 no_options) decodeCollections)"

text \<open>\<open>decodeDeviceCollections\<close>: a device whose blob does not decode gets no collections; a
  device that carries none, or carries them decoded, is left alone.\<close>

datatype collections_value = NoCollections | RawCollections string | DecodedCollections "tlv_node list"

record tlv_device =
  tlv_deviceId :: nat
  collections :: collections_value

definition decodeDevice :: "'a tlv_device_scheme \<Rightarrow> 'a tlv_device_scheme" where
  "decodeDevice dev =
     (case collections dev of
        RawCollections b64 \<Rightarrow>
          (case decodeCollectionsTlv b64 of
             Inr tree \<Rightarrow> dev\<lparr>collections := DecodedCollections tree\<rparr>
           | Inl _ \<Rightarrow> dev\<lparr>collections := DecodedCollections []\<rparr>)
      | _ \<Rightarrow> dev)"

definition decodeDeviceCollections :: "'a tlv_device_scheme list \<Rightarrow> 'a tlv_device_scheme list" where
  "decodeDeviceCollections devices = map decodeDevice devices"

end
