(* ===== verification/Storage.thy ===== *)
theory Storage
  imports Descriptor_Tlv "HOL-Library.Multiset" "HOL-Library.List_Lexorder" "HOL-Library.Char_ord" "HOL-Library.Product_Lexorder"
begin

text \<open>
  \<open>addon/js/background/storage.js\<close>: the IndexedDB stores of the background, over the device
  cache of \<open>state.js\<close>.  The \<open>deviceInfo\<close> store is a map keyed by the device id; the \<open>origins\<close>
  store has one record for each key \<open>[origin, deviceId]\<close>, so it is a set of pairs, which
  IndexedDB returns in key order; \<open>grantGroups\<close> has a counter for its keys.

  Every operation takes whether its database works (\<open>openDb\<close> resolves and the transaction
  completes): the operations that swallow the error answer as if nothing was stored, the others
  reject.
\<close>

section \<open>The stores\<close>

record device = tlv_device +
  productName :: string
  manufacturer :: string
  vendorId :: nat
  productId :: nat

record grant_group =
  gg_id :: nat
  gg_origin :: string
  gg_deviceIds :: "nat list"
  gg_grantedAt :: nat

record database =
  db_deviceInfo :: "(nat, device) js_map"
  db_origins :: "(string \<times> nat) list"
  db_grantGroups :: "grant_group list"
  db_nextGroup :: nat

definition empty_database :: database where
  "empty_database = \<lparr>db_deviceInfo = [], db_origins = [], db_grantGroups = [], db_nextGroup = 1\<rparr>"

definition DbError :: js_error where "DbError = JsError ''IndexedDB''"

section \<open>Device information\<close>

definition put_device :: "device \<Rightarrow> database \<Rightarrow> database" where
  "put_device d db =
     (if tlv_deviceId d = 0 then db
      else db\<lparr>db_deviceInfo := map_set (db_deviceInfo db) (tlv_deviceId d) d\<rparr>)"

definition saveDeviceInfo :: "bool \<Rightarrow> device \<Rightarrow> database \<Rightarrow> database" where
  "saveDeviceInfo ok d db = (if ok then put_device d db else db)"

definition saveDeviceInfoBatch :: "bool \<Rightarrow> device list \<Rightarrow> database \<Rightarrow> database" where
  "saveDeviceInfoBatch ok devices db = (if ok then fold put_device devices db else db)"

definition getDeviceInfo :: "bool \<Rightarrow> device list \<Rightarrow> nat \<Rightarrow> database \<Rightarrow> device option" where
  "getDeviceInfo ok deviceCache deviceId db =
     (if deviceId = 0 then None
      else case find (\<lambda>d. tlv_deviceId d = deviceId) deviceCache of
             Some live \<Rightarrow> Some live
           | None \<Rightarrow> if ok then map_get (db_deviceInfo db) deviceId else None)"

definition removeDeviceInfo :: "bool \<Rightarrow> nat \<Rightarrow> database \<Rightarrow> database" where
  "removeDeviceInfo ok deviceId db =
     (if deviceId = 0 \<or> \<not> ok then db
      else db\<lparr>db_deviceInfo := map_delete (db_deviceInfo db) deviceId\<rparr>)"

section \<open>Grants\<close>

definition getAllowedDevices :: "bool \<Rightarrow> string \<Rightarrow> database \<Rightarrow> nat list res" where
  "getAllowedDevices ok origin db =
     (if ok then Inr (sort [dev. (owner, dev) \<leftarrow> db_origins db, owner = origin]) else Inl DbError)"

definition addAllowedDevice :: "bool \<Rightarrow> string \<Rightarrow> nat \<Rightarrow> database \<Rightarrow> database res" where
  "addAllowedDevice ok origin deviceId db =
     (if ok then Inr (db\<lparr>db_origins := set_add (db_origins db) (origin, deviceId)\<rparr>) else Inl DbError)"

definition removeAllowedDevice :: "bool \<Rightarrow> string \<Rightarrow> nat \<Rightarrow> database \<Rightarrow> database res" where
  "removeAllowedDevice ok origin deviceId db =
     (if ok then Inr (db\<lparr>db_origins := set_delete (db_origins db) (origin, deviceId)\<rparr>) else Inl DbError)"

text \<open>The rows in key order, grouped by origin.\<close>

definition add_row :: "string \<times> nat \<Rightarrow> (string, nat list) js_map \<Rightarrow> (string, nat list) js_map" where
  "add_row row m =
     map_set m (fst row) ((case map_get m (fst row) of None \<Rightarrow> [] | Some ids \<Rightarrow> ids) @ [snd row])"

definition getAllAllowedByOrigin :: "bool \<Rightarrow> database \<Rightarrow> (string, nat list) js_map" where
  "getAllAllowedByOrigin ok db = (if ok then fold add_row (sort (db_origins db)) [] else [])"

section \<open>Grant groups\<close>

definition recordGrantGroup :: "bool \<Rightarrow> nat \<Rightarrow> string \<Rightarrow> nat list \<Rightarrow> database \<Rightarrow> database" where
  "recordGrantGroup ok now origin deviceIds db =
     (if origin = [] \<or> length deviceIds < 2 \<or> \<not> ok then db
      else db\<lparr>db_grantGroups := db_grantGroups db @
                [\<lparr>gg_id = db_nextGroup db, gg_origin = origin, gg_deviceIds = deviceIds, gg_grantedAt = now\<rparr>],
              db_nextGroup := db_nextGroup db + 1\<rparr>)"

definition getGrantGroupsForOrigin :: "bool \<Rightarrow> string \<Rightarrow> database \<Rightarrow> grant_group list" where
  "getGrantGroupsForOrigin ok origin db =
     (if ok then [g \<leftarrow> db_grantGroups db. gg_origin g = origin] else [])"

definition deleteGrantGroups :: "bool \<Rightarrow> nat list \<Rightarrow> database \<Rightarrow> database" where
  "deleteGrantGroups ok groupIds db =
     (if groupIds = [] \<or> \<not> ok then db
      else db\<lparr>db_grantGroups := [g \<leftarrow> db_grantGroups db. gg_id g \<notin> set groupIds]\<rparr>)"

section \<open>The grants as a set\<close>

text \<open>The abstract state of the grants: which origin may use which device.\<close>

definition grants :: "database \<Rightarrow> (string \<times> nat) set" where
  "grants db = set (db_origins db)"

definition db_wf :: "database \<Rightarrow> bool" where
  "db_wf db \<longleftrightarrow> map_wf (db_deviceInfo db) \<and> distinct (db_origins db)
     \<and> distinct (map gg_id (db_grantGroups db))
     \<and> (\<forall>g \<in> set (db_grantGroups db). gg_id g < db_nextGroup db)"

lemma grants_add [simp]:
  "addAllowedDevice ok origin dev db = Inr db' \<Longrightarrow> grants db' = insert (origin, dev) (grants db)"
  by (auto simp: addAllowedDevice_def grants_def set_set_add split: if_splits)

lemma grants_remove [simp]:
  "removeAllowedDevice ok origin dev db = Inr db' \<Longrightarrow> grants db' = grants db - {(origin, dev)}"
  by (auto simp: removeAllowedDevice_def grants_def set_set_delete split: if_splits)

lemma grants_put [simp]: "grants (put_device d db) = grants db"
  by (simp add: put_device_def grants_def)

lemma put_devices_simps:
  "db_origins (fold put_device ds db) = db_origins db"
  "db_grantGroups (fold put_device ds db) = db_grantGroups db"
  "db_nextGroup (fold put_device ds db) = db_nextGroup db"
  by (induction ds arbitrary: db) (auto simp: put_device_def)

lemma grants_others [simp]:
  "grants (saveDeviceInfo ok d db) = grants db"
  "grants (saveDeviceInfoBatch ok ds db) = grants db"
  "grants (removeDeviceInfo ok dev db) = grants db"
  "grants (recordGrantGroup ok now origin ids db) = grants db"
  "grants (deleteGrantGroups ok gids db) = grants db"
  by (simp_all add: grants_def saveDeviceInfo_def saveDeviceInfoBatch_def removeDeviceInfo_def
      recordGrantGroup_def deleteGrantGroups_def put_device_def put_devices_simps)

lemma db_wf_initial: "db_wf empty_database"
  by (simp add: db_wf_def empty_database_def)

lemma db_wf_put: "db_wf db \<Longrightarrow> db_wf (put_device d db)"
  by (auto simp: db_wf_def put_device_def intro: js_wf_intros)

lemma db_wf_steps:
  assumes "db_wf db"
  shows "db_wf (saveDeviceInfo ok d db)" "db_wf (saveDeviceInfoBatch ok ds db)"
    "db_wf (removeDeviceInfo ok dev db)" "db_wf (recordGrantGroup ok now origin ids db)"
    "db_wf (deleteGrantGroups ok gids db)"
    "addAllowedDevice ok origin dev db = Inr db' \<Longrightarrow> db_wf db'"
    "removeAllowedDevice ok origin dev db = Inr db' \<Longrightarrow> db_wf db'"
proof -
  show "db_wf (saveDeviceInfoBatch ok ds db)"
    using fold_invariant [of db_wf db ds put_device] assms db_wf_put
    by (simp add: saveDeviceInfoBatch_def)
qed (use assms in \<open>auto simp: db_wf_def saveDeviceInfo_def put_device_def removeDeviceInfo_def
    recordGrantGroup_def deleteGrantGroups_def addAllowedDevice_def removeAllowedDevice_def
    less_Suc_eq distinct_map_filter set_delete_def intro: js_wf_intros split: if_splits\<close>)

lemma allowed_devices_set:
  assumes "getAllowedDevices ok origin db = Inr ids"
  shows "set ids = {dev. (origin, dev) \<in> grants db}"
  using assms by (auto simp: getAllowedDevices_def grants_def split: if_splits)

lemma add_rows_get:
  "map_get (fold add_row rows m) origin =
     (if map_get m origin = None \<and> (\<forall>row \<in> set rows. fst row \<noteq> origin) then None
      else Some ((case map_get m origin of None \<Rightarrow> [] | Some ids \<Rightarrow> ids)
                 @ [dev. (owner, dev) \<leftarrow> rows, owner = origin]))"
  by (induction rows arbitrary: m) (auto simp: add_row_def map_get_set split: option.splits)

text \<open>The devices of one origin, as a selection.\<close>

lemma row_ids:
  "[dev. (owner, dev) \<leftarrow> rows, owner = origin] = map snd (filter (\<lambda>row. fst row = origin) rows)"
  by (induction rows) auto

lemma sorted_row_ids: "sorted rows \<Longrightarrow> sorted (map snd (filter (\<lambda>row. fst row = origin) rows))"
  for origin :: string and rows :: "(string \<times> nat) list"
  by (induction rows) (force simp: less_eq_prod_def)+

lemma ids_of_sorted:
  "[dev. (owner, dev) \<leftarrow> sort rows, owner = origin] = sort [dev. (owner, dev) \<leftarrow> rows, owner = origin]"
  for origin :: string and rows :: "(string \<times> nat) list"
  unfolding row_ids
proof (rule properties_for_sort [symmetric])
  show "mset (map snd (filter (\<lambda>row. fst row = origin) (sort rows)))
      = mset (map snd (filter (\<lambda>row. fst row = origin) rows))"
    by (simp add: mset_filter)
qed (simp add: sorted_row_ids)

lemma distinct_row_ids: "distinct rows \<Longrightarrow> distinct [dev. (owner, dev) \<leftarrow> rows, owner = origin]"
  unfolding row_ids by (auto simp: distinct_map inj_on_def)

section \<open>Properties\<close>

text \<open>The grants are a set of pairs of an origin and a device: pairing inserts one pair,
  unpairing removes one, nothing else changes them, and both ways of reading them agree with it:
  the list for an origin holds its devices, ascending and without duplicates, and the table of
  all origins has that list for every origin with a device and no entry for the others.\<close>

theorem grants_are_a_set:
  assumes "db_wf db"
  shows "(case addAllowedDevice ok origin dev db of
            Inr db' \<Rightarrow> ok \<and> grants db' = insert (origin, dev) (grants db) | Inl _ \<Rightarrow> \<not> ok)
    \<and> (case removeAllowedDevice ok origin dev db of
            Inr db' \<Rightarrow> ok \<and> grants db' = grants db - {(origin, dev)} | Inl _ \<Rightarrow> \<not> ok)
    \<and> getAllowedDevices ok origin db =
        (if ok then Inr (sorted_list_of_set {d. (origin, d) \<in> grants db}) else Inl DbError)
    \<and> map_get (getAllAllowedByOrigin True db) origin =
        (if {d. (origin, d) \<in> grants db} = {} then None
         else Some (sorted_list_of_set {d. (origin, d) \<in> grants db}))"
proof -
  let ?ids = "[dev. (owner, dev) \<leftarrow> db_origins db, owner = origin]"
  have "distinct (db_origins db)" using assms by (simp add: db_wf_def)
  then have d: "distinct ?ids" by (rule distinct_row_ids)
  have "set ?ids = {d. (origin, d) \<in> grants db}" by (auto simp: grants_def)
  then have ids: "sort ?ids = sorted_list_of_set {d. (origin, d) \<in> grants db}"
    using d by (metis sorted_list_of_set_sort_remdups distinct_remdups_id)
  have none: "(\<forall>row \<in> set (db_origins db). fst row \<noteq> origin) \<longleftrightarrow> {d. (origin, d) \<in> grants db} = {}"
    by (auto simp: grants_def)
  have "map_get (getAllAllowedByOrigin True db) origin =
      (if {d. (origin, d) \<in> grants db} = {} then None
       else Some (sorted_list_of_set {d. (origin, d) \<in> grants db}))"
    by (simp add: getAllAllowedByOrigin_def add_rows_get none ids_of_sorted ids)
  moreover have "getAllowedDevices ok origin db =
      (if ok then Inr (sorted_list_of_set {d. (origin, d) \<in> grants db}) else Inl DbError)"
    by (simp add: getAllowedDevices_def ids)
  ultimately show ?thesis
    by (auto simp: addAllowedDevice_def removeAllowedDevice_def grants_def set_set_add set_set_delete)
qed

theorem grants_are_a_set_witness:
  "getAllowedDevices True ''b''
     (empty_database\<lparr>db_origins := [(''b'', 9), (''a'', 3), (''b'', 4)]\<rparr>) = Inr [4, 9]
   \<and> db_wf (empty_database\<lparr>db_origins := [(''b'', 9), (''a'', 3), (''b'', 4)]\<rparr>)"
proof -
  let ?db = "empty_database\<lparr>db_origins := [(''b'', 9), (''a'', 3), (''b'', 4)]\<rparr>"
  have wf: "db_wf ?db" by (simp add: db_wf_def empty_database_def)
  have "{d. (''b'', d) \<in> grants ?db} = {4, 9}" by (auto simp: grants_def)
  with grants_are_a_set [OF wf, of True "''b''" 0] wf show ?thesis
    by simp
qed

end
