(* ===== verification/Framing.thy ===== *)
theory Framing
  imports Js_Bytes
begin

text \<open>
  The interface of a framing, shared by every length-delimited stream of the program
  (input-report batches, the frames of the WebTransport stream, the packed reports of
  Native Messaging): an encoder \<open>enc\<close> for the frames \<open>ok\<close>, a decoder \<open>dec\<close> of the first
  frame, and the loop \<open>drain\<close> that decodes frames while it can and keeps the rest.
\<close>

locale framing =
  fixes enc :: "'f \<Rightarrow> bytes"
    and ok :: "'f \<Rightarrow> bool"
    and dec :: "bytes \<Rightarrow> ('f \<times> bytes) option"
    and drain :: "bytes \<Rightarrow> 'f list \<times> bytes"
  assumes dec_enc: "ok f \<Longrightarrow> dec (enc f @ rest) = Some (f, rest)"
    and dec_shorter: "dec bs = Some (f, rest) \<Longrightarrow> length rest < length bs"
    and dec_extend: "dec bs = Some (f, rest) \<Longrightarrow> dec (bs @ more) = Some (f, rest @ more)"
    and drain_unfold: "drain bs = (case dec bs of None \<Rightarrow> ([], bs)
           | Some (f, rest) \<Rightarrow> (f # fst (drain rest), snd (drain rest)))"
begin

lemma drain_None: "dec bs = None \<Longrightarrow> drain bs = ([], bs)"
  by (simp add: drain_unfold)

lemma drain_Some: "dec bs = Some (f, rest) \<Longrightarrow>
    drain bs = (f # fst (drain rest), snd (drain rest))"
  by (subst drain_unfold) simp

text \<open>Draining the concatenation of encoded frames returns exactly the frames.\<close>

lemma drain_encoded:
  assumes "list_all ok fs" and "dec tail = None"
  shows "drain (concat (map enc fs) @ tail) = (fs, tail)"
  using assms(1)
proof (induction fs)
  case Nil
  with assms(2) show ?case by (simp add: drain_None)
next
  case (Cons f fs)
  then have "dec (enc f @ (concat (map enc fs) @ tail)) = Some (f, concat (map enc fs) @ tail)"
    by (intro dec_enc) simp
  with Cons show ?case by (simp add: drain_Some)
qed

text \<open>What is left over holds no frame.\<close>

lemma drain_rest_None: "dec (snd (drain bs)) = None"
proof (induction "length bs" arbitrary: bs rule: less_induct)
  case less
  show ?case
  proof (cases "dec bs")
    case None
    then show ?thesis by (simp add: drain_None)
  next
    case (Some p)
    then obtain f rest where p: "dec bs = Some (f, rest)" by (cases p) auto
    then show ?thesis using less [OF dec_shorter [OF p]] by (simp add: drain_Some)
  qed
qed

text \<open>Draining in two goes, feeding more bytes to what was left, is draining at once.\<close>

lemma drain_append:
  "drain (bs @ more) =
     (fst (drain bs) @ fst (drain (snd (drain bs) @ more)), snd (drain (snd (drain bs) @ more)))"
proof (induction "length bs" arbitrary: bs rule: less_induct)
  case less
  show ?case
  proof (cases "dec bs")
    case None
    then show ?thesis by (simp add: drain_None)
  next
    case (Some p)
    then obtain f rest where p: "dec bs = Some (f, rest)" by (cases p) auto
    from less [OF dec_shorter [OF p]] show ?thesis
      by (simp add: drain_Some [OF p] drain_Some [OF dec_extend [OF p]])
  qed
qed

text \<open>A reader that appends every received chunk to its buffer and drains it: the frames it
  emitted and the buffer it holds depend on the bytes received only, not on the chunks.\<close>

lemma feed_chunks:
  assumes step: "\<And>buf out chunk. step (buf, out) chunk =
     (snd (drain (buf @ chunk)), out @ fst (drain (buf @ chunk)))"
    and start: "dec buf = None"
  shows "foldl step (buf, out) chunks =
     (snd (drain (buf @ concat chunks)), out @ fst (drain (buf @ concat chunks)))"
  using start
proof (induction chunks arbitrary: buf out)
  case Nil
  then show ?case by (simp add: drain_None)
next
  case (Cons c cs)
  show ?case
    using drain_append [of "buf @ c" "concat cs"]
    by (simp add: step Cons.IH [OF drain_rest_None])
qed

end

end
