(* ===== verification/Wire_Format.thy ===== *)
theory Wire_Format
  imports Framing
begin

text \<open>
  The binary protocol of the data planes: \<open>addon/js/utils/wire-format.js\<close>,
  \<open>addon/js/background/packed.js\<close>, the packed-report loop of \<open>onPackedData\<close> in
  \<open>addon/js/background/nm.js\<close>, and the daemon's side of the same frames
  (\<open>batching.rs\<close>, \<open>types.rs\<close>), so that the round trips are between the two real ends.
\<close>

section \<open>Input-report batches\<close>

definition MSG_SEND_REPORT :: nat where "MSG_SEND_REPORT = 1"
definition MSG_SEND_FEATURE_REPORT :: nat where "MSG_SEND_FEATURE_REPORT = 2"
definition MSG_RECEIVE_FEATURE_REPORT :: nat where "MSG_RECEIVE_FEATURE_REPORT = 3"
definition RESP_RECEIVE_FEATURE_REPORT :: nat where "RESP_RECEIVE_FEATURE_REPORT = 131"
definition MSG_INPUT_BATCH :: nat where "MSG_INPUT_BATCH = 0"

lemmas msg_codes = MSG_SEND_REPORT_def MSG_SEND_FEATURE_REPORT_def
  MSG_RECEIVE_FEATURE_REPORT_def RESP_RECEIVE_FEATURE_REPORT_def MSG_INPUT_BATCH_def

record input_report =
  rep_id :: nat
  rep_data :: "bytes option"  \<comment> \<open>\<open>null\<close> for an empty payload\<close>

function parseInputReports :: "bytes \<Rightarrow> nat \<Rightarrow> input_report list" where
  "parseInputReports batch offset =
    (if offset + 1 < length batch then
       (let len = or_bytes2 (batch ! offset) (batch ! (offset + 1));
            offset1 = offset + 2
        in if len = 0 \<or> offset1 + len > length batch then []
           else
             (let payloadLen = len - 1;
                  report = \<lparr>rep_id = unat (batch ! offset1),
                            rep_data = (if payloadLen > 0
                                        then Some (take payloadLen (drop (offset1 + 1) batch))
                                        else None)\<rparr>
              in report # parseInputReports batch (offset1 + len)))
     else [])"
  by pat_completeness auto
termination
  by (relation "measure (\<lambda>(batch, offset). length batch - offset)") auto

declare parseInputReports.simps [simp del]

text \<open>The daemon's batch frame (\<open>write_batch_frame\<close>), and one report of it.\<close>

definition encode_input_report :: "input_report \<Rightarrow> bytes" where
  "encode_input_report r =
     (let d = (case rep_data r of None \<Rightarrow> [] | Some d \<Rightarrow> d)
      in le16 (1 + length d) @ [word_of_nat (rep_id r)] @ d)"

definition write_batch_frame :: "input_report list \<Rightarrow> bytes" where
  "write_batch_frame rs = word_of_nat MSG_INPUT_BATCH # concat (map encode_input_report rs)"

text \<open>Reports the wire can carry: an octet for the id, at most 65534 bytes, and no payload is
  \<open>null\<close>, never an empty buffer.\<close>

definition report_ok :: "input_report \<Rightarrow> bool" where
  "report_ok r \<longleftrightarrow> rep_id r < 256 \<and>
     (case rep_data r of None \<Rightarrow> True | Some d \<Rightarrow> d \<noteq> [] \<and> length d < 65535)"

text \<open>The first report of a buffer and what follows it.\<close>

definition decode_input_report :: "bytes \<Rightarrow> (input_report \<times> bytes) option" where
  "decode_input_report bs =
     (if 1 < length bs then
        (let len = or_bytes2 (bs ! 0) (bs ! 1)
         in if len = 0 \<or> 2 + len > length bs then None
            else Some (\<lparr>rep_id = unat (bs ! 2),
                        rep_data = (if len - 1 > 0 then Some (take (len - 1) (drop 3 bs)) else None)\<rparr>,
                       drop (2 + len) bs))
      else None)"

lemma decode_input_report_shorter:
  "decode_input_report bs = Some (r, rest) \<Longrightarrow> length rest < length bs"
  by (auto simp: decode_input_report_def Let_def split: if_splits)

function drain_input_reports :: "bytes \<Rightarrow> input_report list \<times> bytes" where
  "drain_input_reports bs =
     (case decode_input_report bs of None \<Rightarrow> ([], bs)
      | Some (r, rest) \<Rightarrow> (r # fst (drain_input_reports rest), snd (drain_input_reports rest)))"
  by pat_completeness auto
termination
  by (relation "measure length") (auto dest: decode_input_report_shorter)

declare drain_input_reports.simps [simp del]

lemma decode_encode_input_report:
  assumes "report_ok r"
  shows "decode_input_report (encode_input_report r @ rest) = Some (r, rest)"
proof -
  obtain d where d: "d = (case rep_data r of None \<Rightarrow> [] | Some d \<Rightarrow> d)" by simp
  with assms have "1 + length d < 65536" "rep_id r < 256"
    by (auto simp: report_ok_def split: option.splits)
  moreover obtain b0 b1 where b: "le16 (1 + length d) = [b0, b1]" by (simp add: le16_def)
  moreover from b have "or_bytes2 b0 b1 = (1 + length d) mod 65536"
    using le_nat_le16 [of "1 + length d"] by (simp add: or_bytes2_eq)
  ultimately have "or_bytes2 b0 b1 = 1 + length d" "rep_id r mod 256 = rep_id r" by simp_all
  with b show ?thesis
    using assms unfolding encode_input_report_def d [symmetric] Let_def
    by (cases r) (auto simp: decode_input_report_def d report_ok_def split: option.splits)
qed

lemma decode_input_report_extend:
  "decode_input_report bs = Some (r, rest) \<Longrightarrow>
   decode_input_report (bs @ ys) = Some (r, rest @ ys)"
  by (auto simp: decode_input_report_def Let_def nth_append split: if_splits)

interpretation input_frames: framing encode_input_report report_ok decode_input_report
  drain_input_reports
  by unfold_locales
    (auto intro: decode_encode_input_report decode_input_report_shorter
      decode_input_report_extend simp: drain_input_reports.simps split: option.splits)

text \<open>The loop over offsets is the drain of the bytes from the offset on.\<close>

lemma parseInputReports_step:
  "parseInputReports batch offset =
     (case decode_input_report (drop offset batch) of None \<Rightarrow> []
      | Some (r, _) \<Rightarrow>
          r # parseInputReports batch (offset + 2 + or_bytes2 (batch ! offset) (batch ! (offset + 1))))"
  by (subst parseInputReports.simps)
    (auto simp: decode_input_report_def Let_def nth_drop add.commute add.left_commute
      less_diff_conv numeral_3_eq_3)

lemma decode_input_report_rest:
  "decode_input_report (drop offset batch) = Some (r, rest) \<Longrightarrow>
   rest = drop (offset + 2 + or_bytes2 (batch ! offset) (batch ! (offset + 1))) batch"
  by (auto simp: decode_input_report_def Let_def add.commute add.left_commute split: if_splits)

lemma parseInputReports_drain:
  "parseInputReports batch offset = fst (drain_input_reports (drop offset batch))"
proof (induction "length batch - offset" arbitrary: offset rule: less_induct)
  case less
  show ?case
  proof (cases "decode_input_report (drop offset batch)")
    case None
    then show ?thesis
      by (subst parseInputReports_step) (simp add: input_frames.drain_None)
  next
    case (Some p)
    then obtain r rest where p: "decode_input_report (drop offset batch) = Some (r, rest)"
      by (cases p) auto
    let ?next = "offset + 2 + or_bytes2 (batch ! offset) (batch ! (offset + 1))"
    have rest: "rest = drop ?next batch" using p by (rule decode_input_report_rest)
    have "length batch - ?next < length batch - offset"
      using decode_input_report_shorter [OF p] rest by simp
    then have "parseInputReports batch ?next = fst (drain_input_reports (drop ?next batch))"
      by (rule less)
    then show ?thesis
      by (subst parseInputReports_step) (simp add: p rest input_frames.drain_Some [OF p])
  qed
qed

section \<open>Control responses\<close>

text \<open>How a pending request is settled: \<open>resolve()\<close>, \<open>resolve(out)\<close>, \<open>reject({blocked: true})\<close>
  or \<open>reject(new Error(m))\<close>.  The entry itself (its two callbacks) is the parameter \<open>'e\<close>.\<close>

datatype settlement = Resolved "bytes option" | RejectedBlocked | RejectedError string

definition handleControlResponse ::
  "bytes \<Rightarrow> (nat, 'e) js_map \<Rightarrow> (nat, 'e) js_map \<times> ('e \<times> settlement) option" where
  "handleControlResponse batch pending =
    (if length batch < 6 then (pending, None)
     else
       (let respType = unat (batch ! 0);
            reqId = le_nat (take 4 (drop 1 batch));
            status = unat (batch ! 5)
        in case map_get pending reqId of
             None \<Rightarrow> (pending, None)
           | Some entry \<Rightarrow>
               (map_delete pending reqId,
                Some (entry,
                  if respType = RESP_RECEIVE_FEATURE_REPORT then
                    (if status = 2 then RejectedBlocked
                     else if status \<noteq> 0 then RejectedError ''feature read failed''
                     else if length batch < 8 then RejectedError ''short feature resp''
                     else
                       (let len = le_nat (take 2 (drop 6 batch));
                            out = (if len > 0 \<and> length batch \<ge> 8 + len
                                   then take len (drop 8 batch) else replicate len 0)
                        in Resolved (Some out)))
                  else if status = 0 then Resolved None
                  else if status = 2 then RejectedBlocked
                  else RejectedError (''write failed status='' @ show_nat status)))))"

text \<open>The daemon's responses.\<close>

definition make_status_resp :: "nat \<Rightarrow> nat \<Rightarrow> nat \<Rightarrow> bytes" where
  "make_status_resp resp_type req_id status =
     [word_of_nat resp_type] @ le32 req_id @ [word_of_nat status]"

definition make_feature_read_resp :: "nat \<Rightarrow> nat \<Rightarrow> bytes \<Rightarrow> bytes" where
  "make_feature_read_resp req_id status d =
     (let too_large = length d > 65535
      in [word_of_nat RESP_RECEIVE_FEATURE_REPORT] @ le32 req_id
         @ [word_of_nat (if too_large then 1 else status)]
         @ le16 (if too_large then 0 else length d) @ (if too_large then [] else d))"

lemma status_resp_parts:
  assumes "req_id < 2 ^ 32" "resp_type < 256" "status < 256"
  shows "length (make_status_resp resp_type req_id status) = 6"
    and "unat (make_status_resp resp_type req_id status ! 0) = resp_type"
    and "le_nat (take 4 (drop 1 (make_status_resp resp_type req_id status))) = req_id"
    and "unat (make_status_resp resp_type req_id status ! 5) = status"
  using assms by (simp_all add: make_status_resp_def nth_append)

lemma feature_resp_parts:
  assumes "req_id < 2 ^ 32" "status < 256" "length d \<le> 65535"
  shows "length (make_feature_read_resp req_id status d) = 8 + length d"
    and "unat (make_feature_read_resp req_id status d ! 0) = RESP_RECEIVE_FEATURE_REPORT"
    and "le_nat (take 4 (drop 1 (make_feature_read_resp req_id status d))) = req_id"
    and "unat (make_feature_read_resp req_id status d ! 5) = status"
    and "le_nat (take 2 (drop 6 (make_feature_read_resp req_id status d))) = length d"
    and "drop 8 (make_feature_read_resp req_id status d) = d"
  using assms
  by (simp_all add: make_feature_read_resp_def nth_append Let_def msg_codes)

section \<open>Request frames\<close>

definition buildSendFrame :: "nat \<Rightarrow> nat \<Rightarrow> nat \<Rightarrow> bytes option \<Rightarrow> bytes" where
  "buildSendFrame msgType reqId reportId payload =
     [word_of_nat msgType] @ le32 reqId @ [word_of_nat reportId]
     @ (case payload of None \<Rightarrow> [] | Some p \<Rightarrow> p)"

text \<open>The daemon reads the type, the request id, then report id and payload
  (\<open>handle_client_message\<close> and \<open>handle_send_report_msg\<close>).\<close>

definition parse_client_frame :: "bytes \<Rightarrow> (nat \<times> nat \<times> nat \<times> bytes) option" where
  "parse_client_frame frame =
     (if length frame < 6 then None
      else Some (unat (frame ! 0), le_nat (take 4 (drop 1 frame)), unat (frame ! 5), drop 6 frame))"

section \<open>Packed frames of Native Messaging\<close>

definition PKG_INPUT_REPORT :: nat where "PKG_INPUT_REPORT = 1"
definition PKG_SEND_REPORT :: nat where "PKG_SEND_REPORT = 2"
definition PKG_SEND_FEATURE_REPORT :: nat where "PKG_SEND_FEATURE_REPORT = 4"

definition buildPackedSend :: "nat \<Rightarrow> nat \<Rightarrow> nat \<Rightarrow> nat \<Rightarrow> bytes \<Rightarrow> bytes" where
  "buildPackedSend msgType reqId deviceId reportId d =
     [word_of_nat msgType] @ le32 reqId @ le32 deviceId @ [word_of_nat reportId]
     @ le16 (length d) @ d"

text \<open>The daemon's reader (\<open>parse_packed_send\<close>).\<close>

definition parse_packed_send :: "bytes \<Rightarrow> (nat \<times> nat \<times> nat \<times> bytes) option" where
  "parse_packed_send buf =
     (if length buf < 12 then None
      else
        (let req_id = le_nat (take 4 (drop 1 buf));
             device_id = le_nat (take 4 (drop 5 buf));
             report_id = unat (buf ! 9);
             payload_len = le_nat (take 2 (drop 10 buf))
         in if length buf < 12 + payload_len then None
            else Some (req_id, device_id, report_id, take payload_len (drop 12 buf))))"

lemma parse_buildPackedSend:
  "parse_packed_send (buildPackedSend msgType reqId deviceId reportId d) =
     Some (reqId mod 2 ^ 32, deviceId mod 2 ^ 32, reportId mod 256, take (length d mod 65536) d)"
proof -
  have "length d mod 65536 \<le> length d" by (rule mod_less_eq_dividend)
  then show ?thesis
    by (simp add: parse_packed_send_def buildPackedSend_def nth_append Let_def)
qed

text \<open>The report loop of \<open>onPackedData\<close>: \<open>[reportId][len u16 LE][payload]\<close> from an offset on.\<close>

function parsePackedReports :: "bytes \<Rightarrow> nat \<Rightarrow> (nat \<times> bytes) list" where
  "parsePackedReports bin offset =
     (if offset + 3 \<le> length bin then
        (let reportId = unat (bin ! offset);
             payloadLen = or_bytes2 (bin ! (offset + 1)) (bin ! (offset + 2));
             offset1 = offset + 3
         in if offset1 + payloadLen > length bin then []
            else (reportId, take payloadLen (drop offset1 bin))
                 # parsePackedReports bin (offset1 + payloadLen))
      else [])"
  by pat_completeness auto
termination
  by (relation "measure (\<lambda>(bin, offset). length bin - offset)") auto

declare parsePackedReports.simps [simp del]

text \<open>The daemon's frame (\<open>packed_input_report\<close>).\<close>

definition encode_packed_report :: "nat \<times> bytes \<Rightarrow> bytes" where
  "encode_packed_report r =
     [word_of_nat (fst r)] @ le16 (length (snd r)) @ snd r"

definition packed_input_report :: "nat \<Rightarrow> (nat \<times> bytes) list \<Rightarrow> bytes" where
  "packed_input_report device_id rs =
     [word_of_nat PKG_INPUT_REPORT] @ le32 device_id @ concat (map encode_packed_report rs)"

definition packed_ok :: "nat \<times> bytes \<Rightarrow> bool" where
  "packed_ok r \<longleftrightarrow> fst r < 256 \<and> length (snd r) < 65536"

definition decode_packed_report :: "bytes \<Rightarrow> ((nat \<times> bytes) \<times> bytes) option" where
  "decode_packed_report bs =
     (if 3 \<le> length bs then
        (let payloadLen = or_bytes2 (bs ! 1) (bs ! 2)
         in if 3 + payloadLen > length bs then None
            else Some ((unat (bs ! 0), take payloadLen (drop 3 bs)), drop (3 + payloadLen) bs))
      else None)"

lemma decode_packed_report_shorter:
  "decode_packed_report bs = Some (r, rest) \<Longrightarrow> length rest < length bs"
  by (auto simp: decode_packed_report_def Let_def split: if_splits)

function drain_packed_reports :: "bytes \<Rightarrow> (nat \<times> bytes) list \<times> bytes" where
  "drain_packed_reports bs =
     (case decode_packed_report bs of None \<Rightarrow> ([], bs)
      | Some (r, rest) \<Rightarrow> (r # fst (drain_packed_reports rest), snd (drain_packed_reports rest)))"
  by pat_completeness auto
termination
  by (relation "measure length") (auto dest: decode_packed_report_shorter)

declare drain_packed_reports.simps [simp del]

lemma decode_encode_packed_report:
  assumes "packed_ok r"
  shows "decode_packed_report (encode_packed_report r @ rest) = Some (r, rest)"
proof -
  obtain b0 b1 where b: "le16 (length (snd r)) = [b0, b1]" by (simp add: le16_def)
  then have "or_bytes2 b0 b1 = length (snd r)"
    using le_nat_le16 [of "length (snd r)"] assms by (simp add: or_bytes2_eq packed_ok_def)
  with b assms show ?thesis
    by (cases r) (simp add: encode_packed_report_def decode_packed_report_def packed_ok_def
        numeral_3_eq_3)
qed

lemma decode_packed_report_extend:
  "decode_packed_report bs = Some (r, rest) \<Longrightarrow>
   decode_packed_report (bs @ ys) = Some (r, rest @ ys)"
  by (auto simp: decode_packed_report_def Let_def nth_append split: if_splits)

interpretation packed_frames: framing encode_packed_report packed_ok decode_packed_report
  drain_packed_reports
  by unfold_locales
    (auto intro: decode_encode_packed_report decode_packed_report_shorter
      decode_packed_report_extend simp: drain_packed_reports.simps split: option.splits)

lemma parsePackedReports_step:
  "parsePackedReports bin offset =
     (case decode_packed_report (drop offset bin) of None \<Rightarrow> []
      | Some (r, rest) \<Rightarrow> r # parsePackedReports bin (length bin - length rest))"
  by (subst parsePackedReports.simps)
    (auto simp: decode_packed_report_def Let_def nth_drop ac_simps numeral_3_eq_3)

lemma parsePackedReports_drain:
  "parsePackedReports bin offset = fst (drain_packed_reports (drop offset bin))"
proof (induction "length bin - offset" arbitrary: offset rule: less_induct)
  case less
  show ?case
  proof (cases "decode_packed_report (drop offset bin)")
    case None
    then show ?thesis
      by (subst parsePackedReports_step) (simp add: packed_frames.drain_None)
  next
    case (Some p)
    then obtain r rest where p: "decode_packed_report (drop offset bin) = Some (r, rest)"
      by (cases p) auto
    let ?next = "length bin - length rest"
    have shorter: "length rest < length bin - offset"
      using decode_packed_report_shorter [OF p] by simp
    have "rest = drop ?next bin"
      using p by (auto simp: decode_packed_report_def Let_def split: if_splits)
    moreover have "parsePackedReports bin ?next = fst (drain_packed_reports (drop ?next bin))"
      using shorter by (intro less) simp
    ultimately show ?thesis
      by (subst parsePackedReports_step) (simp add: p packed_frames.drain_Some [OF p])
  qed
qed

section \<open>Properties\<close>

text \<open>C29: the page side recovers exactly the reports of a daemon batch: for every list of
  reports the wire can carry, \<open>parseInputReports\<close> after the batch tag returns that list.\<close>

theorem input_batch_roundtrip:
  assumes "list_all report_ok rs"
  shows "parseInputReports (write_batch_frame rs) 1 = rs"
proof -
  have "decode_input_report [] = None" by (simp add: decode_input_report_def)
  from input_frames.drain_encoded [OF assms this] show ?thesis
    by (simp add: parseInputReports_drain write_batch_frame_def)
qed

theorem input_batch_roundtrip_witness:
  "parseInputReports (write_batch_frame
     [\<lparr>rep_id = 7, rep_data = Some [1, 2, 3]\<rparr>, \<lparr>rep_id = 0, rep_data = None\<rparr>]) 1
   = [\<lparr>rep_id = 7, rep_data = Some [1, 2, 3]\<rparr>, \<lparr>rep_id = 0, rep_data = None\<rparr>]"
  by (rule input_batch_roundtrip) (simp add: report_ok_def)

text \<open>A batch cut short still yields a prefix of its reports: whatever bytes are missing
  at the end, \<open>parseInputReports\<close> never invents or alters a report.\<close>

theorem input_batch_truncation:
  assumes "list_all report_ok rs"
  shows "\<exists>lost. parseInputReports (take n (write_batch_frame rs)) 1 @ lost = rs"
proof -
  let ?w = "write_batch_frame rs"
  have "drop 1 ?w = drop 1 (take n ?w) @ drop (max 1 n) ?w"
    by (cases n) (simp_all add: write_batch_frame_def)
  then have "fst (drain_input_reports (drop 1 ?w)) =
      fst (drain_input_reports (drop 1 (take n ?w)))
        @ fst (drain_input_reports (snd (drain_input_reports (drop 1 (take n ?w))) @ drop (max 1 n) ?w))"
    using input_frames.drain_append [of "drop 1 (take n ?w)" "drop (max 1 n) ?w"] by simp
  moreover have "fst (drain_input_reports (drop 1 ?w)) = rs"
    using input_frames.drain_encoded [OF assms, of "[]"]
    by (simp add: write_batch_frame_def decode_input_report_def)
  ultimately show ?thesis by (metis parseInputReports_drain)
qed

theorem input_batch_truncation_witness:
  "\<exists>lost. parseInputReports (take 6 (write_batch_frame
     [\<lparr>rep_id = 7, rep_data = Some [1, 2]\<rparr>, \<lparr>rep_id = 0, rep_data = Some [9]\<rparr>])) 1 @ lost
   = [\<lparr>rep_id = 7, rep_data = Some [1, 2]\<rparr>, \<lparr>rep_id = 0, rep_data = Some [9]\<rparr>]"
  by (rule input_batch_truncation) (simp add: report_ok_def)

text \<open>The page settles a feature read with exactly the daemon's bytes, removes that entry
  and no other, and does nothing for a request id it does not know.\<close>

theorem feature_read_response:
  assumes "req_id < 2 ^ 32" "length d \<le> 65535"
  shows "handleControlResponse (make_feature_read_resp req_id 0 d) pending =
    (case map_get pending req_id of
       None \<Rightarrow> (pending, None)
     | Some entry \<Rightarrow> (map_delete pending req_id, Some (entry, Resolved (Some d))))"
  using feature_resp_parts [OF assms(1) _ assms(2), of 0]
  by (cases "d = []") (simp_all add: handleControlResponse_def split: option.splits)

theorem feature_read_response_witness:
  "handleControlResponse (make_feature_read_resp 5 0 [10, 20]) [(4, ''a''), (5, ''b'')] =
     ([(4, ''a'')], Some (''b'', Resolved (Some [10, 20])))"
  by (simp add: feature_read_response)

text \<open>A write acknowledgement (any response type but the feature-read one) settles its
  request by status: 0 resolves, 2 is the blocklist, anything else is an error.\<close>

theorem write_ack_response:
  assumes "req_id < 2 ^ 32" "resp_type < 256" "status < 256"
    and "resp_type \<noteq> RESP_RECEIVE_FEATURE_REPORT"
    and "map_get pending req_id = Some entry"
  shows "handleControlResponse (make_status_resp resp_type req_id status) pending =
    (map_delete pending req_id,
     Some (entry, if status = 0 then Resolved None else if status = 2 then RejectedBlocked
                  else RejectedError (''write failed status='' @ show_nat status)))"
  using status_resp_parts [OF assms(1-3)] assms(4,5)
  by (simp add: handleControlResponse_def)

theorem write_ack_response_witness:
  "handleControlResponse (make_status_resp 129 9 1) [(9, ''e'')] =
     ([], Some (''e'', RejectedError (''write failed status='' @ show_nat 1)))"
  using write_ack_response [of 9 129 1 "[(9, ''e'')]" "''e''"] by (simp add: msg_codes)

text \<open>The daemon reads back what the background packed for Native Messaging, as long as
  the payload fits the 16-bit length field; a longer payload arrives cut to its length
  modulo 65536.\<close>

theorem packed_send_roundtrip:
  "parse_packed_send (buildPackedSend msgType reqId deviceId reportId d) =
     Some (reqId mod 2 ^ 32, deviceId mod 2 ^ 32, reportId mod 256,
           if length d < 65536 then d else take (length d mod 65536) d)"
  by (simp add: parse_buildPackedSend)

lemma parse_packed_frame:
  assumes "list_all packed_ok rs"
  shows "parsePackedReports (packed_input_report device_id rs) 5 = rs"
proof -
  have "decode_packed_report [] = None" by (simp add: decode_packed_report_def)
  from packed_frames.drain_encoded [OF assms this] show ?thesis
    by (simp add: parsePackedReports_drain packed_input_report_def)
qed

lemma parse_send_frame:
  assumes "msgType < 256" "reqId < 2 ^ 32" "reportId < 256"
  shows "parse_client_frame (buildSendFrame msgType reqId reportId payload) =
     Some (msgType, reqId, reportId, case payload of None \<Rightarrow> [] | Some p \<Rightarrow> p)"
  using assms by (simp add: parse_client_frame_def buildSendFrame_def nth_append)

text \<open>The background recovers the reports of a packed frame of the daemon.\<close>

theorem packed_reports_roundtrip:
  assumes "list_all packed_ok rs"
  shows "parsePackedReports (packed_input_report device_id rs) 5 = rs"
  by (rule parse_packed_frame [OF assms])

theorem packed_reports_roundtrip_witness:
  "parsePackedReports (packed_input_report 3 [(1, [5, 6]), (0, [])]) 5 = [(1, [5, 6]), (0, [])]"
  by (rule packed_reports_roundtrip) (simp add: packed_ok_def)

text \<open>The daemon reads back type, request id, report id and payload of a request frame.\<close>

theorem send_frame_roundtrip:
  assumes "msgType < 256" "reqId < 2 ^ 32" "reportId < 256"
  shows "parse_client_frame (buildSendFrame msgType reqId reportId payload) =
     Some (msgType, reqId, reportId, case payload of None \<Rightarrow> [] | Some p \<Rightarrow> p)"
  by (rule parse_send_frame [OF assms])

theorem send_frame_roundtrip_witness:
  "parse_client_frame (buildSendFrame 1 258 3 (Some [7])) = Some (1, 258, 3, [7])"
  by (simp add: send_frame_roundtrip)

end
