(* ===== verification/Native_Messaging.thy ===== *)
theory Native_Messaging
  imports State_Ops Storage Requests Wire_Format Base64 Js_String
begin

text \<open>
  \<open>addon/js/background/nm.js\<close>, with \<open>content-ports.js\<close>: the client of the native host.  It owns
  one port, numbers its requests, keeps the pending ones with a deadline, reconnects with a
  growing delay, and turns the messages of the host into answers, input reports and device
  events.

  A promise is an object with an identity, here a number drawn from \<open>nm_promises\<close>; settling it
  is recorded in \<open>nm_settled\<close>.  A timer is known by the request it guards.  Whether the browser's
  functions throw (\<open>connectNative\<close>, \<open>postMessage\<close>) is an argument.  What the client tells other
  parts of the browser is the list \<open>nm_out\<close>.
\<close>

section \<open>Ports of content scripts\<close>

record content_port =
  cp_ref :: nat
  cp_name :: string
  cp_tab :: "nat option"

definition registerContentPort :: "content_port \<Rightarrow> content_port list \<Rightarrow> content_port list" where
  "registerContentPort port ports = set_add ports port"

definition contentPortDisconnected :: "content_port \<Rightarrow> content_port list \<Rightarrow> content_port list" where
  "contentPortDisconnected port ports = set_delete ports port"

text \<open>The result: the tabs reached, the ports written to, and the ports kept; \<open>broken\<close> are the
  ports whose \<open>postMessage\<close> throws.\<close>

record post_result =
  pr_reached :: "nat list"
  pr_written :: "content_port list"
  pr_ports :: "content_port list"

definition port_selected :: "nat list option \<Rightarrow> string \<Rightarrow> content_port \<Rightarrow> bool" where
  "port_selected tabIds portName port \<longleftrightarrow>
     (portName = [] \<or> cp_name port = portName)
     \<and> (case tabIds of None \<Rightarrow> True
        | Some tabs \<Rightarrow> (case cp_tab port of None \<Rightarrow> False | Some tab \<Rightarrow> tab \<in> set tabs))"

definition post_one ::
    "(content_port \<Rightarrow> bool) \<Rightarrow> nat list option \<Rightarrow> string \<Rightarrow> content_port \<Rightarrow> post_result \<Rightarrow> post_result" where
  "post_one broken tabIds portName port r =
     (if \<not> port_selected tabIds portName port then r
      else if broken port then r\<lparr>pr_ports := set_delete (pr_ports r) port\<rparr>
      else r\<lparr>pr_written := pr_written r @ [port],
             pr_reached := (case cp_tab port of None \<Rightarrow> pr_reached r
                            | Some tab \<Rightarrow> set_add (pr_reached r) tab)\<rparr>)"

definition postToContentPorts ::
    "(content_port \<Rightarrow> bool) \<Rightarrow> nat list option \<Rightarrow> string \<Rightarrow> content_port list \<Rightarrow> post_result" where
  "postToContentPorts broken tabIds portName ports =
     fold (post_one broken tabIds portName) ports \<lparr>pr_reached = [], pr_written = [], pr_ports = ports\<rparr>"

section \<open>Messages\<close>

definition EVT_CONNECT :: nat where "EVT_CONNECT = 2"
definition EVT_DISCONNECT :: nat where "EVT_DISCONNECT = 3"

definition ACT_enum :: nat where "ACT_enum = 1"
definition ACT_open :: nat where "ACT_open = 2"
definition ACT_close :: nat where "ACT_close = 3"
definition ACT_rfr :: nat where "ACT_rfr = 5"
definition ACT_sdp :: nat where "ACT_sdp = 7"
definition ACT_hs :: nat where "ACT_hs = 8"

text \<open>A message of the host: every field may be absent.  \<open>D\<close> are devices, \<open>d\<close> is base64 text,
  \<open>t\<close> the token of a session, \<open>P\<close> the permission of the daemon.\<close>

record native_message =
  msg_E :: "string option"
  msg_s :: "nat option"
  msg_n :: "nat option"
  msg_d :: "string option"
  msg_e :: "nat option"
  msg_i :: "nat option"
  msg_v :: "device option"
  msg_D :: "device list option"
  msg_t :: "string option"
  msg_P :: "nat option"

definition empty_message :: native_message where
  "empty_message = \<lparr>msg_E = None, msg_s = None, msg_n = None, msg_d = None, msg_e = None, msg_i = None,
     msg_v = None, msg_D = None, msg_t = None, msg_P = None\<rparr>"

definition isOk :: "nat option \<Rightarrow> bool" where
  "isOk status = (case status of None \<Rightarrow> False | Some s \<Rightarrow> 200 \<le> s \<and> s < 300)"

text \<open>A device filter, by its constraints.\<close>

record hid_filter =
  flt_vendorId :: "nat option"
  flt_productId :: "nat option"
  flt_usagePage :: "nat option"
  flt_usage :: "nat option"

record enum_filter =
  ef_filters :: "hid_filter list"
  ef_exclusionFilters :: "hid_filter list"

record nm_request =
  rq_a :: nat
  rq_i :: "nat option"
  rq_r :: "nat option"
  rq_m :: "nat option"
  rq_T :: "string option"
  rq_f :: "enum_filter option"

definition request :: "nat \<Rightarrow> nm_request" where
  "request a = \<lparr>rq_a = a, rq_i = None, rq_r = None, rq_m = None, rq_T = None, rq_f = None\<rparr>"

datatype nm_outgoing = Request nm_request nat | PackedFrame string

definition enumerate_request :: "enum_filter option \<Rightarrow> nm_request" where
  "enumerate_request filter_opt =
     (case filter_opt of
        Some f \<Rightarrow> if ef_filters f \<noteq> [] \<or> ef_exclusionFilters f \<noteq> []
                  then (request ACT_enum)\<lparr>rq_f := Some f\<rparr> else request ACT_enum
      | None \<Rightarrow> request ACT_enum)"

definition open_request :: "nat \<Rightarrow> nm_request" where
  "open_request deviceId = (request ACT_open)\<lparr>rq_i := Some deviceId\<rparr>"

definition close_device_request :: "nat \<Rightarrow> string \<Rightarrow> nm_request" where
  "close_device_request deviceId sessionToken =
     (let req = (request ACT_close)\<lparr>rq_i := Some deviceId\<rparr>
      in if sessionToken = [] then req else req\<lparr>rq_T := Some sessionToken\<rparr>)"

definition handshake_request :: nm_request where
  "handshake_request = request ACT_hs"

definition receive_feature_request :: "nat \<Rightarrow> nat \<Rightarrow> nm_request" where
  "receive_feature_request deviceId reportId =
     (request ACT_rfr)\<lparr>rq_i := Some deviceId, rq_r := Some reportId\<rparr>"

text \<open>What \<open>receiveFeatureReport\<close> does to its answer: the base64 data becomes bytes, or the promise
  rejects.\<close>

definition feature_reply :: "native_message \<Rightarrow> (native_message \<times> bytes option) res" where
  "feature_reply resp =
     (case msg_d resp of
        None \<Rightarrow> Inr (resp, None)
      | Some text \<Rightarrow> rbind (fromBase64 text no_options) (\<lambda>bin. Inr (resp, Some bin)))"

text \<open>\<open>buildMessage\<close> of \<open>sendRequest\<close> and of \<open>sendPacked\<close>.\<close>

definition build_request :: "nm_request \<Rightarrow> nat \<Rightarrow> nm_outgoing res" where
  "build_request r reqId = Inr (Request r reqId)"

definition build_packed :: "(nat \<Rightarrow> bytes) \<Rightarrow> nat \<Rightarrow> nm_outgoing res" where
  "build_packed buildPackedFn reqId =
     rbind (toBase64 no_options (buildPackedFn reqId)) (\<lambda>text. Inr (PackedFrame text))"

definition sendReport_frame :: "nat \<Rightarrow> nat \<Rightarrow> bytes \<Rightarrow> nat \<Rightarrow> nm_outgoing res" where
  "sendReport_frame deviceId reportId payload =
     build_packed (\<lambda>reqId. buildPackedSend PKG_SEND_REPORT reqId deviceId reportId payload)"

definition sendFeatureReport_frame :: "nat \<Rightarrow> nat \<Rightarrow> bytes \<Rightarrow> nat \<Rightarrow> nm_outgoing res" where
  "sendFeatureReport_frame deviceId reportId payload =
     build_packed (\<lambda>reqId. buildPackedSend PKG_SEND_FEATURE_REPORT reqId deviceId reportId payload)"

section \<open>State\<close>

datatype device_event =
    InputReportEvent nat nat bytes  \<comment> \<open>device, report id, data\<close>
  | ConnectionEvent bool "nat option" "device option"
  | ControlEvent native_message

datatype nm_effect =
    ToHost nat nm_outgoing
  | ClosePort nat
  | GlobalReset
  | SaveDevice device
  | ToPort content_port device_event
  | ToTab nat device_event
  | ToRuntime device_event
  | ToAllTabs device_event

datatype nm_outcome = Resolved native_message | Rejected js_error

record nm_state =
  nm_port :: "nat option"
  nm_nextPort :: nat
  nm_nextId :: nat
  nm_pending :: "(nat, nat) js_map"  \<comment> \<open>request id to promise\<close>
  nm_timers :: "nat list"  \<comment> \<open>the requests whose deadline is running\<close>
  nm_reconnectTimer :: "nat option"  \<comment> \<open>the delay it was set with\<close>
  nm_reconnectDelay :: nat
  nm_hostName :: string
  nm_lastError :: "string option"
  nm_promises :: nat
  nm_issued :: "nat list"
  nm_settled :: "(nat \<times> nm_outcome) list"
  nm_refreshers :: "nat list"  \<comment> \<open>the promises whose answer refreshes the device cache\<close>
  nm_bg :: bg_world
  nm_deviceCache :: "device list"
  nm_contentPorts :: "content_port list"
  nm_out :: "nm_effect list"

definition NM_HOST_FORWARDER :: string where "NM_HOST_FORWARDER = ''webhid.forwarder_nm_host''"
definition NM_HOST_DAEMON :: string where "NM_HOST_DAEMON = ''webhid.daemon_nm_host''"
definition REQUEST_TIMEOUT_MS :: nat where "REQUEST_TIMEOUT_MS = 30000"

definition initial_nm_state :: nm_state where
  "initial_nm_state = \<lparr>nm_port = None, nm_nextPort = 0, nm_nextId = 1, nm_pending = [], nm_timers = [],
     nm_reconnectTimer = None, nm_reconnectDelay = 1000, nm_hostName = NM_HOST_FORWARDER,
     nm_lastError = None, nm_promises = 0, nm_issued = [], nm_settled = [], nm_refreshers = [],
     nm_bg = initial_bg_world, nm_deviceCache = [], nm_contentPorts = [], nm_out = []\<rparr>"

definition emit :: "nm_effect list \<Rightarrow> nm_state \<Rightarrow> nm_state" where
  "emit es s = s\<lparr>nm_out := nm_out s @ es\<rparr>"

text \<open>Settling the promise of a pending entry clears its deadline.\<close>

definition settle_entry :: "nm_outcome \<Rightarrow> nat \<times> nat \<Rightarrow> nm_state \<Rightarrow> nm_state" where
  "settle_entry outcome = (\<lambda>(reqId, promise) s.
     s\<lparr>nm_timers := removeAll reqId (nm_timers s), nm_settled := nm_settled s @ [(promise, outcome)]\<rparr>)"

text \<open>\<open>for (const [, p] of this.pending) p.resolve(...); this.pending.clear()\<close>\<close>

definition settle_all :: "nm_outcome \<Rightarrow> nm_state \<Rightarrow> nm_state" where
  "settle_all outcome s = (fold (settle_entry outcome) (nm_pending s) s)\<lparr>nm_pending := []\<rparr>"

section \<open>Connecting\<close>

definition bump_delay :: "nm_state \<Rightarrow> nm_state" where
  "bump_delay s = s\<lparr>nm_reconnectDelay := min (nm_reconnectDelay s * 2) 10000\<rparr>"

definition reset_delay :: "nm_state \<Rightarrow> nm_state" where
  "reset_delay s = s\<lparr>nm_reconnectDelay := 1000\<rparr>"

definition nm_scheduleReconnect :: "nm_state \<Rightarrow> nm_state" where
  "nm_scheduleReconnect s =
     (if nm_reconnectTimer s \<noteq> None then s
      else bump_delay (s\<lparr>nm_reconnectTimer := Some (nm_reconnectDelay s)\<rparr>))"

definition nm_connect :: "bool \<Rightarrow> nm_state \<Rightarrow> nm_state" where
  "nm_connect native_ok s =
     (if nm_port s \<noteq> None then s
      else if native_ok
      then (reset_delay s)\<lparr>nm_port := Some (nm_nextPort s), nm_nextPort := nm_nextPort s + 1,
                           nm_lastError := None\<rparr>
      else nm_scheduleReconnect s)"

definition retirePort :: "nat \<Rightarrow> nm_state \<Rightarrow> bool \<times> nm_state" where
  "retirePort port s =
     (if nm_port s \<noteq> Some port then (False, s)
      else
        let s1 = settle_all (Resolved (empty_message\<lparr>msg_s := Some 503\<rparr>)) (s\<lparr>nm_port := None\<rparr>)
        in (True, emit [GlobalReset] (s1\<lparr>nm_bg := bg_step ClearAuthority (nm_bg s1)\<rparr>)))"

text \<open>The \<open>onDisconnect\<close> listener of a port.\<close>

definition portDisconnected :: "nat \<Rightarrow> nm_state \<Rightarrow> nm_state" where
  "portDisconnected port s =
     (case retirePort port s of (False, _) \<Rightarrow> s | (True, s1) \<Rightarrow> nm_scheduleReconnect s1)"

definition reconnectWithNewHost :: "bool \<Rightarrow> nm_state \<Rightarrow> nm_state" where
  "reconnectWithNewHost native_ok s =
     (let s1 = (case nm_port s of None \<Rightarrow> s
                | Some port \<Rightarrow> emit [ClosePort port] (snd (retirePort port s)))
      in nm_connect native_ok (reset_delay (s1\<lparr>nm_reconnectTimer := None\<rparr>)))"

definition reconnectTimerFired :: "bool \<Rightarrow> nm_state \<Rightarrow> nm_state" where
  "reconnectTimerFired native_ok s =
     (if nm_reconnectTimer s = None then s else nm_connect native_ok (s\<lparr>nm_reconnectTimer := None\<rparr>))"

section \<open>Requests\<close>

definition new_promise :: "nm_state \<Rightarrow> nat \<times> nm_state" where
  "new_promise s =
     (nm_promises s, s\<lparr>nm_promises := nm_promises s + 1, nm_issued := nm_issued s @ [nm_promises s]\<rparr>)"

definition settle_promise :: "nat \<Rightarrow> nm_outcome \<Rightarrow> nm_state \<Rightarrow> nm_state" where
  "settle_promise promise outcome s = s\<lparr>nm_settled := nm_settled s @ [(promise, outcome)]\<rparr>"

definition sendFrame :: "(nat \<Rightarrow> nm_outgoing res) \<Rightarrow> bool \<Rightarrow> bool \<Rightarrow> nm_state \<Rightarrow> nat \<times> nm_state" where
  "sendFrame buildMessage native_ok post_ok s0 =
     (let (promise, s) = new_promise s0
      in case nm_port s of
           None \<Rightarrow>
             (promise, settle_promise promise
                (Rejected (JsError ''NM disconnected, reconnecting; please retry'')) (nm_connect native_ok s))
         | Some port \<Rightarrow>
             let reqId = nm_nextId s;
                 s1 = s\<lparr>nm_nextId := reqId + 1, nm_timers := nm_timers s @ [reqId],
                        nm_pending := map_set (nm_pending s) reqId promise\<rparr>;
                 failed = (\<lambda>e. settle_promise promise (Rejected e)
                   (s1\<lparr>nm_pending := map_delete (nm_pending s1) reqId,
                       nm_timers := removeAll reqId (nm_timers s1)\<rparr>))
             in (promise,
                 case buildMessage reqId of
                   Inl e \<Rightarrow> failed e
                 | Inr message \<Rightarrow>
                     if post_ok then emit [ToHost port message] s1
                     else failed (JsError ''postMessage'')))"

text \<open>The deadline of a request.\<close>

definition deadlineFired :: "nat \<Rightarrow> nm_state \<Rightarrow> nm_state" where
  "deadlineFired reqId s =
     (if reqId \<notin> set (nm_timers s) then s
      else
        let s1 = s\<lparr>nm_timers := removeAll reqId (nm_timers s)\<rparr>
        in case map_get (nm_pending s1) reqId of
             None \<Rightarrow> s1
           | Some promise \<Rightarrow>
               settle_promise promise (Rejected (JsError ''NM request timed out''))
                 (s1\<lparr>nm_pending := map_delete (nm_pending s1) reqId\<rparr>))"

section \<open>Incoming messages\<close>

definition tryHostError :: "native_message \<Rightarrow> nm_state \<Rightarrow> bool \<times> nm_state" where
  "tryHostError message s =
     (case msg_E message of
        None \<Rightarrow> (False, s)
      | Some err \<Rightarrow>
          if msg_s message = None \<or> msg_n message \<noteq> None then (False, s)
          else (True, settle_all (Resolved message) (s\<lparr>nm_lastError := Some err\<rparr>)))"

definition data_port_name :: "nat \<Rightarrow> string" where
  "data_port_name deviceId = ''webhid-data:'' @ show_nat deviceId"

text \<open>One input report to the tabs of its device: through their data ports, and as a message to
  the tabs no port reached.\<close>

definition deliver_report ::
    "(content_port \<Rightarrow> bool) \<Rightarrow> nat list \<Rightarrow> nat \<Rightarrow> nat \<times> bytes \<Rightarrow> nm_state \<Rightarrow> nm_state" where
  "deliver_report broken targets deviceId = (\<lambda>(reportId, payload) s.
     let event = InputReportEvent deviceId reportId payload;
         r = postToContentPorts broken (Some targets) (data_port_name deviceId) (nm_contentPorts s)
     in emit (map (\<lambda>port. ToPort port event) (pr_written r)
              @ [ToTab tabId event. tabId \<leftarrow> targets, tabId \<notin> set (pr_reached r)])
          (s\<lparr>nm_contentPorts := pr_ports r\<rparr>))"

definition onPackedData :: "(content_port \<Rightarrow> bool) \<Rightarrow> string \<Rightarrow> nm_state \<Rightarrow> nm_state" where
  "onPackedData broken b64 s =
     (case fromBase64 b64 no_options of
        Inl _ \<Rightarrow> s
      | Inr bin \<Rightarrow>
          if length bin < 8 \<or> unat (bin ! 0) \<noteq> PKG_INPUT_REPORT then s
          else
            let deviceId = or_bytes4 (bin ! 1) (bin ! 2) (bin ! 3) (bin ! 4)
            in case tabsForEvent deviceId (bg_st (nm_bg s)) of
                 None \<Rightarrow> s
               | Some targets \<Rightarrow>
                   fold (deliver_report broken targets deviceId) (parsePackedReports bin 5) s)"

definition tryPackedData :: "(content_port \<Rightarrow> bool) \<Rightarrow> native_message \<Rightarrow> nm_state \<Rightarrow> bool \<times> nm_state" where
  "tryPackedData broken message s =
     (case msg_d message of
        None \<Rightarrow> (False, s)
      | Some b64 \<Rightarrow>
          if msg_n message \<noteq> None \<or> msg_e message \<noteq> None then (False, s)
          else (True, onPackedData broken b64 s))"

text \<open>A device appeared or went away; without the device in the message the list is fetched anew,
  and its answer replaces the cache later (\<open>refreshAnswered\<close>).\<close>

definition cached :: "device \<Rightarrow> nm_state \<Rightarrow> bool" where
  "cached v s \<longleftrightarrow> (\<exists>d \<in> set (nm_deviceCache s). tlv_deviceId d = tlv_deviceId v)"

definition cache_add :: "device \<Rightarrow> nm_state \<Rightarrow> nm_state" where
  "cache_add v s =
     (if cached v s
      then emit [SaveDevice v] s
      else emit [SaveDevice (decodeDevice v)]
             (s\<lparr>nm_deviceCache := nm_deviceCache s @ [decodeDevice v]\<rparr>))"

definition remove_first :: "('a \<Rightarrow> bool) \<Rightarrow> 'a list \<Rightarrow> 'a list" where
  "remove_first P xs = takeWhile (\<lambda>x. \<not> P x) xs @ tl (dropWhile (\<lambda>x. \<not> P x) xs)"

definition cache_remove :: "nat option \<Rightarrow> nm_state \<Rightarrow> nm_state" where
  "cache_remove i s = s\<lparr>nm_deviceCache := remove_first (\<lambda>d. Some (tlv_deviceId d) = i) (nm_deviceCache s)\<rparr>"

definition request_refresh :: "bool \<Rightarrow> bool \<Rightarrow> nm_state \<Rightarrow> nm_state" where
  "request_refresh native_ok post_ok s =
     (let (promise, s1) = sendFrame (build_request (enumerate_request None)) native_ok post_ok s
      in s1\<lparr>nm_refreshers := nm_refreshers s1 @ [promise]\<rparr>)"

text \<open>A device that is new to the cache is decoded in place: what is forwarded is the decoded record.\<close>

definition handleDeviceConnectionEvent :: "bool \<Rightarrow> bool \<Rightarrow> native_message \<Rightarrow> nm_state \<Rightarrow> nm_state" where
  "handleDeviceConnectionEvent native_ok post_ok message s =
     (let connected = (msg_e message = Some EVT_CONNECT);
          s1 = (case msg_v message of
                  Some v \<Rightarrow> if connected then cache_add v s else cache_remove (msg_i message) s
                | None \<Rightarrow> request_refresh native_ok post_ok s);
          s2 = (if msg_e message = Some EVT_DISCONNECT
                then s1\<lparr>nm_bg := bg_step (ClearDevice (case msg_i message of None \<Rightarrow> 0 | Some i \<Rightarrow> i)) (nm_bg s1)\<rparr>
                else s1);
          device = map_option (\<lambda>v. if connected \<and> \<not> cached v s then decodeDevice v else v) (msg_v message);
          event = ConnectionEvent connected (msg_i message) device
      in emit [ToRuntime event, ToAllTabs event] s2)"

definition onControlEvent :: "bool \<Rightarrow> bool \<Rightarrow> native_message \<Rightarrow> nm_state \<Rightarrow> nm_state" where
  "onControlEvent native_ok post_ok message s =
     (if msg_e message = Some EVT_CONNECT \<or> msg_e message = Some EVT_DISCONNECT
      then handleDeviceConnectionEvent native_ok post_ok message s
      else case tabsForEvent (case msg_i message of None \<Rightarrow> 0 | Some i \<Rightarrow> i) (bg_st (nm_bg s)) of
             None \<Rightarrow> s
           | Some targets \<Rightarrow> emit (map (\<lambda>tab. ToTab tab (ControlEvent message)) targets) s)"

definition tryControlEvent :: "bool \<Rightarrow> bool \<Rightarrow> native_message \<Rightarrow> nm_state \<Rightarrow> bool \<times> nm_state" where
  "tryControlEvent native_ok post_ok message s =
     (if msg_e message = None then (False, s) else (True, onControlEvent native_ok post_ok message s))"

definition tryPendingResponse :: "native_message \<Rightarrow> nm_state \<Rightarrow> bool \<times> nm_state" where
  "tryPendingResponse message s =
     (case msg_n message of
        None \<Rightarrow> (False, s)
      | Some n \<Rightarrow>
          (case map_get (nm_pending s) n of
             None \<Rightarrow> (False, s)
           | Some promise \<Rightarrow>
               (True, settle_entry (Resolved message) (n, promise)
                        (s\<lparr>nm_pending := map_delete (nm_pending s) n\<rparr>))))"

definition tryUnmatchedDaemonError :: "native_message \<Rightarrow> bool" where
  "tryUnmatchedDaemonError message \<longleftrightarrow>
     msg_s message \<noteq> None \<and> msg_n message = None \<and> msg_E message = None"

text \<open>The first handler that takes the message; an unmatched one is only logged.\<close>

definition handleNativeMessage ::
    "(content_port \<Rightarrow> bool) \<Rightarrow> bool \<Rightarrow> bool \<Rightarrow> native_message \<Rightarrow> nm_state \<Rightarrow> nm_state" where
  "handleNativeMessage broken native_ok post_ok message s =
     (case tryHostError message s of (True, s1) \<Rightarrow> s1 | (False, _) \<Rightarrow>
      (case tryPackedData broken message s of (True, s1) \<Rightarrow> s1 | (False, _) \<Rightarrow>
      (case tryControlEvent native_ok post_ok message s of (True, s1) \<Rightarrow> s1 | (False, _) \<Rightarrow>
      (case tryPendingResponse message s of (True, s1) \<Rightarrow> s1 | (False, _) \<Rightarrow> s))))"

definition refreshAnswered :: "nat \<Rightarrow> nm_state \<Rightarrow> nm_state" where
  "refreshAnswered promise s =
     (if promise \<notin> set (nm_refreshers s) then s
      else case map_of (nm_settled s) promise of
             None \<Rightarrow> s
           | Some outcome \<Rightarrow>
               let s1 = s\<lparr>nm_refreshers := removeAll promise (nm_refreshers s)\<rparr>
               in case outcome of
                    Rejected _ \<Rightarrow> s1
                  | Resolved resp \<Rightarrow>
                      if isOk (msg_s resp) \<and> msg_D resp \<noteq> None
                      then s1\<lparr>nm_deviceCache := the (msg_D resp)\<rparr> else s1)"

section \<open>Steps\<close>

datatype nm_body = PlainBody nm_request | PackedBody nat nat nat bytes  \<comment> \<open>type, device, report id, data\<close>

fun build_body :: "nm_body \<Rightarrow> nat \<Rightarrow> nm_outgoing res" where
  "build_body (PlainBody r) = build_request r"
| "build_body (PackedBody msgType deviceId reportId payload) =
     build_packed (\<lambda>reqId. buildPackedSend msgType reqId deviceId reportId payload)"

datatype nm_event =
    Connect bool
  | ReconnectFired bool
  | PortGone nat
  | NewHost string bool
  | SendBody nm_body bool bool
  | HostMessage "nat list" bool bool native_message  \<comment> \<open>the broken ports, then as above\<close>
  | DeadlineFired nat
  | RefreshAnswered nat
  | PortOpened content_port
  | PortClosed content_port
  | OwnershipChanged bg_event

text \<open>The other parts of the background change the ownership state through its own operations.\<close>

fun nm_step :: "nm_event \<Rightarrow> nm_state \<Rightarrow> nm_state" where
  "nm_step (Connect native_ok) s = nm_connect native_ok s"
| "nm_step (ReconnectFired native_ok) s = reconnectTimerFired native_ok s"
| "nm_step (PortGone port) s = portDisconnected port s"
| "nm_step (NewHost host native_ok) s = reconnectWithNewHost native_ok (s\<lparr>nm_hostName := host\<rparr>)"
| "nm_step (SendBody body native_ok post_ok) s = snd (sendFrame (build_body body) native_ok post_ok s)"
| "nm_step (HostMessage broken native_ok post_ok message) s =
     handleNativeMessage (\<lambda>port. cp_ref port \<in> set broken) native_ok post_ok message s"
| "nm_step (DeadlineFired reqId) s = deadlineFired reqId s"
| "nm_step (RefreshAnswered promise) s = refreshAnswered promise s"
| "nm_step (PortOpened port) s = s\<lparr>nm_contentPorts := registerContentPort port (nm_contentPorts s)\<rparr>"
| "nm_step (PortClosed port) s = s\<lparr>nm_contentPorts := contentPortDisconnected port (nm_contentPorts s)\<rparr>"
| "nm_step (OwnershipChanged e) s = s\<lparr>nm_bg := bg_step e (nm_bg s)\<rparr>"

section \<open>The requests\<close>

text \<open>Everything the bookkeeping of the requests reads and writes.\<close>

definition req_part where
  "req_part s = (nm_pending s, nm_timers s, nm_nextId s, nm_promises s, nm_issued s, nm_settled s)"

definition req_wf :: "nm_state \<Rightarrow> bool" where
  "req_wf s \<longleftrightarrow>
     table_wf (nm_pending s) (nm_timers s) (nm_nextId s)
     \<and> distinct (nm_issued s) \<and> (\<forall>p \<in> set (nm_issued s). p < nm_promises s)
     \<and> mset (nm_issued s) = mset (map snd (nm_pending s)) + mset (map fst (nm_settled s))"

definition req_step :: "nm_state \<Rightarrow> nm_state \<Rightarrow> bool" where
  "req_step s s' \<longleftrightarrow> (req_wf s \<longrightarrow> req_wf s')
     \<and> prefix (nm_issued s) (nm_issued s') \<and> prefix (nm_settled s) (nm_settled s')"

lemma req_wf_cong: "req_part s' = req_part s \<Longrightarrow> req_wf s' = req_wf s"
  by (simp add: req_part_def req_wf_def table_wf_def)

lemma req_step_refl: "req_part s' = req_part s \<Longrightarrow> req_step s s'"
  using req_wf_cong [of s' s] by (simp add: req_step_def req_part_def)

lemma req_step_trans: "req_step s s' \<Longrightarrow> req_step s' s'' \<Longrightarrow> req_step s s''"
  by (auto simp: req_step_def intro: prefix_order.trans)

text \<open>A change of other parts before or after a step does not matter.\<close>

lemma req_step_cong:
  "req_step s s' \<Longrightarrow> req_part t = req_part s \<Longrightarrow> req_part t' = req_part s' \<Longrightarrow> req_step t t'"
  using req_wf_cong [of t s] req_wf_cong [of t' s'] by (simp add: req_step_def req_part_def)

lemma req_part_simps [simp]:
  "req_part (emit es s) = req_part s"
  "req_part (bump_delay s) = req_part s"
  "req_part (reset_delay s) = req_part s"
  "req_part (nm_scheduleReconnect s) = req_part s"
  "req_part (nm_connect native_ok s) = req_part s"
  by (simp_all add: req_part_def emit_def bump_delay_def reset_delay_def nm_scheduleReconnect_def
      nm_connect_def)

lemma req_part_update [simp]:
  "req_part (s\<lparr>nm_port := x1\<rparr>) = req_part s" "req_part (s\<lparr>nm_reconnectTimer := x2\<rparr>) = req_part s"
  "req_part (s\<lparr>nm_lastError := x3\<rparr>) = req_part s" "req_part (s\<lparr>nm_bg := x4\<rparr>) = req_part s"
  "req_part (s\<lparr>nm_deviceCache := x5\<rparr>) = req_part s" "req_part (s\<lparr>nm_refreshers := x6\<rparr>) = req_part s"
  "req_part (s\<lparr>nm_contentPorts := x7\<rparr>) = req_part s" "req_part (s\<lparr>nm_hostName := x8\<rparr>) = req_part s"
  by (simp_all add: req_part_def)

text \<open>Settling every pending entry.\<close>

lemma fold_settle_entries:
  "fold (settle_entry outcome) es s =
     s\<lparr>nm_timers := filter (\<lambda>i. i \<notin> fst ` set es) (nm_timers s),
       nm_settled := nm_settled s @ map (\<lambda>e. (snd e, outcome)) es\<rparr>"
  by (induction es arbitrary: s) (simp_all add: settle_entry_def removeAll_neq split_beta)

lemma settle_all_eq:
  "settle_all outcome s =
     s\<lparr>nm_timers := filter (\<lambda>i. i \<notin> set (map_keys (nm_pending s))) (nm_timers s),
       nm_settled := nm_settled s @ map (\<lambda>e. (snd e, outcome)) (nm_pending s), nm_pending := []\<rparr>"
  by (simp add: settle_all_def fold_settle_entries)

lemma settle_all_step: "req_step s (settle_all outcome s)"
  by (auto simp: req_step_def settle_all_eq req_wf_def table_wf_def comp_def filter_empty_conv)

lemma settle_all_nothing_waits: "nm_pending (settle_all outcome s) = []"
  by (simp add: settle_all_eq)

text \<open>Settling one entry: an answer, or the deadline.\<close>

lemma settle_one_step:
  assumes "map_get (nm_pending s) reqId = Some promise"
    "nm_pending s' = map_delete (nm_pending s) reqId" "nm_timers s' = removeAll reqId (nm_timers s)"
    "nm_settled s' = nm_settled s @ [(promise, outcome)]" "nm_nextId s' = nm_nextId s"
    "nm_promises s' = nm_promises s" "nm_issued s' = nm_issued s"
  shows "req_step s s'"
proof -
  have "table_wf (nm_pending s) (nm_timers s) (nm_nextId s) \<Longrightarrow>
      mset (map snd (nm_pending s)) = add_mset promise (mset (map snd (map_delete (nm_pending s) reqId)))"
    using mset_map_delete assms(1) by (fastforce simp: table_wf_def)
  then show ?thesis
    using assms by (simp add: req_step_def req_wf_def table_wf_remove)
qed

lemma retirePort_part:
  "req_step s (snd (retirePort port s))"
  unfolding retirePort_def Let_def
  by (auto simp: req_step_refl intro: req_step_cong [OF settle_all_step [of "s\<lparr>nm_port := None\<rparr>"
        "Resolved (empty_message\<lparr>msg_s := Some 503\<rparr>)"]])

lemma portDisconnected_step: "req_step s (portDisconnected port s)"
  using retirePort_part [of s port]
  by (auto simp: portDisconnected_def req_step_refl split: prod.splits bool.splits intro: req_step_cong)

lemma reconnectWithNewHost_step: "req_step s (reconnectWithNewHost native_ok s)"
proof (cases "nm_port s")
  case None
  then show ?thesis by (simp add: reconnectWithNewHost_def Let_def req_step_refl)
next
  case (Some port)
  show ?thesis
    by (rule req_step_cong [OF retirePort_part [of s port]])
      (simp_all add: reconnectWithNewHost_def Let_def Some)
qed

lemma reconnectTimerFired_step: "req_step s (reconnectTimerFired native_ok s)"
  by (simp add: reconnectTimerFired_def req_step_refl)

text \<open>A request: its promise waits under a fresh id with a running deadline, or is settled.\<close>

lemma new_promise_part:
  "nm_pending (snd (new_promise s)) = nm_pending s" "nm_timers (snd (new_promise s)) = nm_timers s"
  "nm_nextId (snd (new_promise s)) = nm_nextId s" "nm_port (snd (new_promise s)) = nm_port s"
  by (simp_all add: new_promise_def)

lemma rejected_send_step:
  assumes "nm_pending s' = nm_pending s" "nm_timers s' = nm_timers s" "nm_nextId s \<le> nm_nextId s'"
    "nm_promises s' = nm_promises s + 1" "nm_issued s' = nm_issued s @ [nm_promises s]"
    "nm_settled s' = nm_settled s @ [(nm_promises s, outcome)]"
  shows "req_step s s'"
  using assms by (auto simp: req_step_def req_wf_def table_wf_def less_Suc_eq dest: order_less_le_trans)

lemma accepted_send_step:
  assumes "nm_pending s' = map_set (nm_pending s) (nm_nextId s) (nm_promises s)"
    "nm_timers s' = nm_timers s @ [nm_nextId s]" "nm_nextId s' = nm_nextId s + 1"
    "nm_promises s' = nm_promises s + 1" "nm_issued s' = nm_issued s @ [nm_promises s]"
    "nm_settled s' = nm_settled s"
  shows "req_step s s'"
proof -
  have app: "req_wf s \<Longrightarrow> map_set (nm_pending s) (nm_nextId s) (nm_promises s)
      = nm_pending s @ [(nm_nextId s, nm_promises s)]"
    by (intro map_set_new) (auto simp: req_wf_def table_wf_def)
  have "req_wf s'" if "req_wf s"
    using assms that unfolding req_wf_def table_wf_def app [OF that]
    by (auto simp: less_Suc_eq)
  with assms show ?thesis by (simp add: req_step_def)
qed

lemma fresh_entry_removed:
  "req_wf s \<Longrightarrow> map_delete (map_set (nm_pending s) (nm_nextId s) p) (nm_nextId s) = nm_pending s
    \<and> removeAll (nm_nextId s) (nm_timers s @ [nm_nextId s]) = nm_timers s"
  using table_wf_insert(3,4) by (auto simp: req_wf_def)

lemma sendFrame_step: "req_step s (snd (sendFrame build native_ok post_ok s))"
proof (cases "nm_port s")
  case None
  then have "snd (sendFrame build native_ok post_ok s) =
      settle_promise (nm_promises s) (Rejected (JsError ''NM disconnected, reconnecting; please retry''))
        (nm_connect native_ok (snd (new_promise s)))"
    by (simp add: sendFrame_def new_promise_def Let_def)
  moreover have "req_part (nm_connect native_ok (snd (new_promise s))) = req_part (snd (new_promise s))"
    by simp
  ultimately show ?thesis
    by (intro rejected_send_step) (auto simp: settle_promise_def req_part_def new_promise_def)
next
  case (Some port)
  show ?thesis
  proof (cases "\<exists>m. build (nm_nextId s) = Inr m \<and> post_ok")
    case True
    with Some show ?thesis
      by (intro accepted_send_step) (auto simp: sendFrame_def new_promise_def Let_def emit_def)
  next
    case False
    have fields: "\<exists>e. nm_settled s' = nm_settled s @ [(nm_promises s, Rejected e)]"
      "nm_pending s' = map_delete (map_set (nm_pending s) (nm_nextId s) (nm_promises s)) (nm_nextId s)"
      "nm_timers s' = removeAll (nm_nextId s) (nm_timers s @ [nm_nextId s])"
      "nm_nextId s' = nm_nextId s + 1" "nm_promises s' = nm_promises s + 1"
      "nm_issued s' = nm_issued s @ [nm_promises s]"
      if "s' = snd (sendFrame build native_ok post_ok s)" for s'
      using Some False that
      by (auto simp: sendFrame_def new_promise_def Let_def settle_promise_def split: sum.splits)
    note fields = fields [OF refl]
    have "req_step s (snd (sendFrame build native_ok post_ok s))" if wf: "req_wf s"
    proof -
      obtain e where "nm_settled (snd (sendFrame build native_ok post_ok s)) =
          nm_settled s @ [(nm_promises s, Rejected e)]" using fields(1) by blast
      then show ?thesis
        using fresh_entry_removed [OF wf] fields(2-) by (intro rejected_send_step) simp_all
    qed
    then show ?thesis using fields(1,6) by (auto simp: req_step_def)
  qed
qed

lemma deadlineFired_step: "req_step s (deadlineFired reqId s)"
proof (cases "reqId \<in> set (nm_timers s)")
  case True
  show ?thesis
  proof (cases "map_get (nm_pending s) reqId")
    case None
    then have "req_wf s \<longrightarrow> reqId \<notin> set (nm_timers s)"
      by (auto simp: req_wf_def table_wf_def map_of_eq_None_iff)
    with True None show ?thesis by (auto simp: req_step_def deadlineFired_def Let_def)
  next
    case (Some promise)
    with True show ?thesis
      by (intro settle_one_step [OF Some]) (auto simp: deadlineFired_def settle_promise_def Let_def)
  qed
qed (simp add: deadlineFired_def req_step_refl)

lemma deliver_report_part [simp]: "req_part (deliver_report broken targets deviceId r s) = req_part s"
  by (cases r) (simp add: deliver_report_def Let_def)

lemma onPackedData_part [simp]: "req_part (onPackedData broken b64 s) = req_part s"
proof -
  have "req_part (fold (deliver_report broken targets deviceId) rs s) = req_part s" for targets deviceId rs
    by (induction rs arbitrary: s) auto
  then show ?thesis
    by (simp add: onPackedData_def Let_def split: sum.split option.split)
qed

lemma request_refresh_step: "req_step s (request_refresh native_ok post_ok s)"
  using sendFrame_step [of s "build_request (enumerate_request None)" native_ok post_ok]
  by (auto simp: request_refresh_def split: prod.split intro: req_step_cong)

lemma onControlEvent_step: "req_step s (onControlEvent native_ok post_ok message s)"
proof -
  have "req_part (cache_add v s) = req_part s" "req_part (cache_remove i s) = req_part s" for v i
    by (simp_all add: cache_add_def cache_remove_def)
  then have "req_step s (handleDeviceConnectionEvent native_ok post_ok message s)"
    using request_refresh_step [of s native_ok post_ok]
    by (auto simp: handleDeviceConnectionEvent_def Let_def req_step_refl split: option.split
        intro: req_step_cong)
  then show ?thesis
    by (auto simp: onControlEvent_def req_step_refl split: option.split)
qed

lemma tryPendingResponse_step: "req_step s (snd (tryPendingResponse message s))"
proof (cases "msg_n message")
  case (Some n)
  show ?thesis
  proof (cases "map_get (nm_pending s) n")
    case p: (Some promise)
    show ?thesis
      by (rule settle_one_step [OF p]) (auto simp: tryPendingResponse_def Some p settle_entry_def)
  qed (simp add: tryPendingResponse_def Some req_step_refl)
qed (simp add: tryPendingResponse_def req_step_refl)

lemma tryHostError_step: "req_step s (snd (tryHostError message s))"
proof -
  have "req_step s (settle_all outcome (s\<lparr>nm_lastError := err\<rparr>))" for outcome err
    by (rule req_step_cong [OF settle_all_step [of "s\<lparr>nm_lastError := err\<rparr>"]]) simp_all
  then show ?thesis by (auto simp: tryHostError_def req_step_refl split: option.split)
qed

lemma handleNativeMessage_step: "req_step s (handleNativeMessage broken native_ok post_ok message s)"
  using tryHostError_step [of s message] tryPendingResponse_step [of s message]
    onControlEvent_step [of s native_ok post_ok message]
  by (auto simp: handleNativeMessage_def tryPackedData_def tryControlEvent_def req_step_refl
      split: prod.split bool.split option.split)

lemma refreshAnswered_part: "req_step s (refreshAnswered promise s)"
  by (auto simp: refreshAnswered_def Let_def req_step_refl split: option.split nm_outcome.split)

lemma nm_step_req: "req_step s (nm_step e s)"
proof (cases e)
  case (NewHost host native_ok)
  show ?thesis
    unfolding NewHost nm_step.simps by (rule req_step_cong [OF reconnectWithNewHost_step]) simp_all
qed (simp_all add: req_step_refl reconnectTimerFired_step portDisconnected_step sendFrame_step
    handleNativeMessage_step deadlineFired_step refreshAnswered_part)

lemma req_wf_initial: "req_wf initial_nm_state"
  by (simp add: req_wf_def table_wf_def initial_nm_state_def)

text \<open>The client keeps the contract of requests.\<close>

interpretation nm_requests: requests nm_step nm_issued "\<lambda>s. map snd (nm_pending s)" nm_settled req_wf
proof
  fix s :: nm_state and e :: nm_event
  assume wf: "req_wf s"
  show "req_wf (nm_step e s)" "prefix (nm_issued s) (nm_issued (nm_step e s))"
    "prefix (nm_settled s) (nm_settled (nm_step e s))"
    using nm_step_req [of s e] wf by (simp_all add: req_step_def)
  show "mset (nm_issued s) = mset (map snd (nm_pending s)) + mset (map fst (nm_settled s))"
    "distinct (nm_issued s)" using wf by (simp_all add: req_wf_def table_wf_def)
qed

text \<open>A promise that waits has a deadline, which settles it.\<close>

lemma waiting_has_deadline:
  assumes wf: "req_wf s" and "promise \<in> set (map snd (nm_pending s))"
  shows "\<exists>reqId. reqId \<in> set (nm_timers s) \<and> map_get (nm_pending s) reqId = Some promise
     \<and> nm_settled (nm_step (DeadlineFired reqId) s) =
         nm_settled s @ [(promise, Rejected (JsError ''NM request timed out''))]
     \<and> promise \<notin> set (map snd (nm_pending (nm_step (DeadlineFired reqId) s)))"
proof -
  obtain reqId where in_pending: "(reqId, promise) \<in> set (nm_pending s)" using assms(2) by auto
  then have get: "map_get (nm_pending s) reqId = Some promise"
    using wf by (auto simp: req_wf_def table_wf_def intro: map_mem_get)
  moreover have timer: "reqId \<in> set (nm_timers s)"
  proof -
    have "set (nm_timers s) = set (map_keys (nm_pending s))" using wf by (simp add: req_wf_def table_wf_def)
    with in_pending show ?thesis by force
  qed
  moreover have settled: "nm_settled (nm_step (DeadlineFired reqId) s) =
      nm_settled s @ [(promise, Rejected (JsError ''NM request timed out''))]"
    using get timer by (simp add: deadlineFired_def settle_promise_def Let_def)
  moreover have "promise \<notin> set (map snd (nm_pending (nm_step (DeadlineFired reqId) s)))"
    using nm_requests.waiting_not_settled [OF nm_requests.inv_step [OF wf, of "DeadlineFired reqId"]]
      settled by force
  ultimately show ?thesis by blast
qed

text \<open>Its delay is a back-off.\<close>

interpretation nm_delay: backoff nm_reconnectDelay bump_delay reset_delay 1000 10000
  by unfold_locales (simp_all add: bump_delay_def reset_delay_def)

section \<open>The connection\<close>

definition conn_part where
  "conn_part s = (nm_port s, nm_reconnectTimer s, nm_reconnectDelay s)"

text \<open>The delay stays in its range, it is the initial one while connected, and a client that has
  no port has a reconnection scheduled.\<close>

definition conn_wf :: "nm_state \<Rightarrow> bool" where
  "conn_wf s \<longleftrightarrow> nm_delay.in_range s
     \<and> (nm_port s \<noteq> None \<longrightarrow> nm_reconnectDelay s = 1000)
     \<and> (\<forall>ms. nm_reconnectTimer s = Some ms \<longrightarrow> 1000 \<le> ms \<and> ms \<le> 10000)"

definition linked :: "nm_state \<Rightarrow> bool" where
  "linked s \<longleftrightarrow> nm_port s \<noteq> None \<or> nm_reconnectTimer s \<noteq> None"

definition conn_step :: "nm_state \<Rightarrow> nm_state \<Rightarrow> bool" where
  "conn_step s s' \<longleftrightarrow> (conn_wf s \<longrightarrow> conn_wf s') \<and> (linked s \<longrightarrow> linked s')"

lemma conn_part_cong:
  "conn_part s' = conn_part s \<Longrightarrow> conn_wf s' = conn_wf s \<and> linked s' = linked s"
  by (simp add: conn_part_def conn_wf_def linked_def nm_delay.in_range_def)

lemma conn_step_refl: "conn_part s' = conn_part s \<Longrightarrow> conn_step s s'"
  using conn_part_cong [of s' s] by (simp add: conn_step_def)

lemma conn_step_cong:
  "conn_step s s' \<Longrightarrow> conn_part t = conn_part s \<Longrightarrow> conn_part t' = conn_part s' \<Longrightarrow> conn_step t t'"
  using conn_part_cong [of t s] conn_part_cong [of t' s'] by (simp add: conn_step_def)

lemma conn_part_simps [simp]:
  "conn_part (emit es s) = conn_part s" "conn_part (settle_entry outcome en s) = conn_part s"
  "conn_part (settle_all outcome s) = conn_part s" "conn_part (settle_promise p outcome s) = conn_part s"
  "conn_part (snd (new_promise s)) = conn_part s" "conn_part (deadlineFired reqId s) = conn_part s"
  by (cases en; simp add: conn_part_def emit_def settle_entry_def settle_all_eq settle_promise_def
      new_promise_def deadlineFired_def Let_def split: option.split)+

lemma conn_part_update [simp]:
  "conn_part (s\<lparr>nm_lastError := x3\<rparr>) = conn_part s" "conn_part (s\<lparr>nm_bg := x4\<rparr>) = conn_part s"
  "conn_part (s\<lparr>nm_deviceCache := x5\<rparr>) = conn_part s" "conn_part (s\<lparr>nm_refreshers := x6\<rparr>) = conn_part s"
  "conn_part (s\<lparr>nm_contentPorts := x7\<rparr>) = conn_part s" "conn_part (s\<lparr>nm_hostName := x8\<rparr>) = conn_part s"
  "conn_part (s\<lparr>nm_pending := x9\<rparr>) = conn_part s" "conn_part (s\<lparr>nm_timers := x10\<rparr>) = conn_part s"
  "conn_part (s\<lparr>nm_nextId := x11\<rparr>) = conn_part s"
  by (simp_all add: conn_part_def)

lemmas conn_defs = conn_step_def conn_wf_def linked_def nm_delay.in_range_def nm_connect_def
  nm_scheduleReconnect_def bump_delay_def reset_delay_def

lemma nm_connect_step: "conn_step s (nm_connect native_ok s)"
  by (auto simp: conn_defs)

lemma nm_connect_linked: "linked (nm_connect native_ok s)"
  by (auto simp: conn_defs)

lemma nm_scheduleReconnect_linked: "linked (nm_scheduleReconnect s)"
  by (auto simp: conn_defs)

lemma conn_step_trans: "conn_step s s' \<Longrightarrow> conn_step s' s'' \<Longrightarrow> conn_step s s''"
  by (simp add: conn_step_def)

lemma portDisconnected_conn: "conn_step s (portDisconnected port s)"
proof (cases "nm_port s = Some port")
  case True
  let ?t = "snd (retirePort port s)"
  have part: "conn_part ?t = (None, nm_reconnectTimer s, nm_reconnectDelay s)"
    using True by (simp add: retirePort_def Let_def) (simp add: conn_part_def)
  have "portDisconnected port s = nm_scheduleReconnect ?t"
    using True by (simp add: portDisconnected_def retirePort_def Let_def)
  then show ?thesis using part
    by (auto simp: conn_defs conn_part_def)
qed (simp add: portDisconnected_def retirePort_def conn_step_refl)

lemma reconnectWithNewHost_conn: "conn_step s (reconnectWithNewHost native_ok s)"
  using nm_connect_linked
  by (auto simp: conn_defs reconnectWithNewHost_def Let_def)

lemma sendFrame_conn: "conn_step s (snd (sendFrame build native_ok post_ok s))"
proof (cases "nm_port s")
  case None
  then have "conn_part (snd (sendFrame build native_ok post_ok s)) =
      conn_part (nm_connect native_ok (snd (new_promise s)))"
    by (simp add: sendFrame_def Let_def new_promise_def)
  with nm_connect_step [of "snd (new_promise s)" native_ok] show ?thesis
    by (auto intro: conn_step_cong)
next
  case (Some port)
  then have "conn_part (snd (sendFrame build native_ok post_ok s)) = conn_part (snd (new_promise s))"
    by (auto simp: sendFrame_def Let_def new_promise_def split: sum.split)
  then show ?thesis by (simp add: conn_step_refl)
qed

lemma deliver_report_conn [simp]: "conn_part (deliver_report broken targets deviceId r s) = conn_part s"
  by (cases r) (simp add: deliver_report_def Let_def)

lemma onPackedData_conn [simp]: "conn_part (onPackedData broken b64 s) = conn_part s"
proof -
  have "conn_part (fold (deliver_report broken targets deviceId) rs s) = conn_part s" for targets deviceId rs
    by (induction rs arbitrary: s) auto
  then show ?thesis
    by (simp add: onPackedData_def Let_def split: sum.split option.split)
qed

lemma request_refresh_conn: "conn_step s (request_refresh native_ok post_ok s)"
  using sendFrame_conn [of s "build_request (enumerate_request None)" native_ok post_ok]
  by (auto simp: request_refresh_def split: prod.split intro: conn_step_cong)

lemma onControlEvent_conn: "conn_step s (onControlEvent native_ok post_ok message s)"
proof -
  have "conn_part (cache_add v s) = conn_part s" "conn_part (cache_remove i s) = conn_part s" for v i
    by (simp_all add: cache_add_def cache_remove_def)
  then have "conn_step s (handleDeviceConnectionEvent native_ok post_ok message s)"
    using request_refresh_conn [of s native_ok post_ok]
    by (auto simp: handleDeviceConnectionEvent_def Let_def conn_step_refl split: option.split
        intro: conn_step_cong)
  then show ?thesis
    by (auto simp: onControlEvent_def conn_step_refl split: option.split)
qed

lemma handleNativeMessage_conn: "conn_step s (handleNativeMessage broken native_ok post_ok message s)"
proof -
  have "conn_step s (snd (tryPendingResponse message s))" "conn_step s (snd (tryHostError message s))"
    by (simp_all add: tryPendingResponse_def tryHostError_def conn_step_refl split: option.split)
  then show ?thesis
    using onControlEvent_conn [of s native_ok post_ok message]
    by (auto simp: handleNativeMessage_def tryPackedData_def tryControlEvent_def conn_step_refl
        split: prod.split bool.split option.split)
qed

lemma nm_step_conn: "conn_step s (nm_step e s)"
proof (cases e)
  case (NewHost host native_ok)
  show ?thesis
    unfolding NewHost nm_step.simps by (rule conn_step_cong [OF reconnectWithNewHost_conn]) simp_all
next
  case (ReconnectFired native_ok)
  have "conn_wf s \<Longrightarrow> conn_wf (s\<lparr>nm_reconnectTimer := None\<rparr>)"
    by (simp add: conn_wf_def nm_delay.in_range_def)
  then show ?thesis
    using ReconnectFired nm_connect_step [of "s\<lparr>nm_reconnectTimer := None\<rparr>" native_ok]
      nm_connect_linked [of native_ok "s\<lparr>nm_reconnectTimer := None\<rparr>"]
    by (simp add: conn_step_def reconnectTimerFired_def)
next
  case (RefreshAnswered promise)
  then show ?thesis
    by (auto simp: refreshAnswered_def Let_def conn_step_refl split: option.split nm_outcome.split)
qed (simp_all add: conn_step_refl nm_connect_step portDisconnected_conn sendFrame_conn
    handleNativeMessage_conn)

lemma nm_run_conn: "conn_step s (fold nm_step es s)"
  by (induction es arbitrary: s) (auto intro: conn_step_refl conn_step_trans nm_step_conn)

lemma conn_wf_initial: "conn_wf initial_nm_state"
  by (simp add: conn_wf_def nm_delay.in_range_def initial_nm_state_def)

section \<open>Delivery of input reports\<close>

lemma fold_post_one:
  "fold (post_one broken tabIds portName) ports r =
     r\<lparr>pr_written := pr_written r @ filter (\<lambda>p. port_selected tabIds portName p \<and> \<not> broken p) ports,
       pr_reached := fold (\<lambda>p reached. case cp_tab p of None \<Rightarrow> reached | Some tab \<Rightarrow> set_add reached tab)
         (filter (\<lambda>p. port_selected tabIds portName p \<and> \<not> broken p) ports) (pr_reached r),
       pr_ports := filter (\<lambda>p. \<not> (p \<in> set ports \<and> port_selected tabIds portName p \<and> broken p)) (pr_ports r)\<rparr>"
proof (induction ports arbitrary: r)
  case (Cons p ports)
  let ?sel = "port_selected tabIds portName"
  let ?gone = "\<lambda>ps q. q \<in> set ps \<and> ?sel q \<and> broken q"
  have keep: "filter (\<lambda>q. \<not> ?gone (p # ports) q) xs = filter (\<lambda>q. \<not> ?gone ports q) xs"
    if "\<not> (?sel p \<and> broken p)" for xs
    using that by (intro filter_cong) auto
  have drop: "filter (\<lambda>q. \<not> ?gone (p # ports) q) xs = filter (\<lambda>q. \<not> ?gone ports q) (set_delete xs p)"
    if "?sel p \<and> broken p" for xs
    using that by (auto simp: set_delete_def intro!: filter_cong)
  show ?case
  proof (cases "?sel p \<and> broken p")
    case True
    then have "post_one broken tabIds portName p r = r\<lparr>pr_ports := set_delete (pr_ports r) p\<rparr>"
      by (simp add: post_one_def)
    with True show ?thesis unfolding drop [OF True] by (simp add: Cons.IH)
  next
    case False
    then have "post_one broken tabIds portName p r = (if ?sel p
        then r\<lparr>pr_written := pr_written r @ [p],
               pr_reached := (case cp_tab p of None \<Rightarrow> pr_reached r | Some tab \<Rightarrow> set_add (pr_reached r) tab)\<rparr>
        else r)"
      by (auto simp: post_one_def)
    with False show ?thesis unfolding keep [OF False] by (simp add: Cons.IH)
  qed
qed simp

lemma reached_tabs:
  "set (fold (\<lambda>p reached. case cp_tab p of None \<Rightarrow> reached | Some tab \<Rightarrow> set_add reached tab) ps reached0)
     = set reached0 \<union> {tab. \<exists>p \<in> set ps. cp_tab p = Some tab}"
  by (induction ps arbitrary: reached0) (auto simp: set_set_add split: option.splits)

text \<open>The ports of a device's tabs that work, and what one report sends.\<close>

definition working_ports ::
    "(content_port \<Rightarrow> bool) \<Rightarrow> nat list \<Rightarrow> nat \<Rightarrow> content_port list \<Rightarrow> content_port list" where
  "working_ports broken targets deviceId ports =
     filter (\<lambda>p. cp_name p = data_port_name deviceId
        \<and> (\<exists>tab \<in> set targets. cp_tab p = Some tab) \<and> \<not> broken p) ports"

definition report_effects ::
    "content_port list \<Rightarrow> nat list \<Rightarrow> nat \<Rightarrow> nat \<times> bytes \<Rightarrow> nm_effect list" where
  "report_effects working targets deviceId r =
     (let event = InputReportEvent deviceId (fst r) (snd r)
      in map (\<lambda>port. ToPort port event) working
         @ map (\<lambda>tab. ToTab tab event) (filter (\<lambda>tab. \<forall>p \<in> set working. cp_tab p \<noteq> Some tab) targets))"

lemma selected_working:
  "filter (\<lambda>p. port_selected (Some targets) (data_port_name deviceId) p \<and> \<not> broken p) ports
     = working_ports broken targets deviceId ports"
  unfolding working_ports_def port_selected_def
  by (rule filter_cong) (auto simp: data_port_name_def split: option.splits)

lemma deliver_report_eq:
  "deliver_report broken targets deviceId r s =
     emit (report_effects (working_ports broken targets deviceId (nm_contentPorts s)) targets deviceId r)
       (s\<lparr>nm_contentPorts := filter (\<lambda>p. port_selected (Some targets)
              (data_port_name deviceId) p \<longrightarrow> \<not> broken p) (nm_contentPorts s)\<rparr>)"
proof -
  have tabs: "[ToTab tab ev. tab \<leftarrow> targets, tab \<notin> set reached]
      = map (\<lambda>tab. ToTab tab ev) (filter (\<lambda>tab. tab \<notin> set reached) targets)" for ev reached
    by (induction targets) auto
  have ports: "filter (\<lambda>p. sel p \<longrightarrow> p \<in> set ps \<longrightarrow> \<not> broken p) ps = filter (\<lambda>p. sel p \<longrightarrow> \<not> broken p) ps"
    for sel and ps :: "content_port list"
    by (rule filter_cong) auto
  show ?thesis
    by (cases r) (simp add: deliver_report_def postToContentPorts_def fold_post_one selected_working
        reached_tabs report_effects_def tabs ports Let_def)
qed

lemma working_stays:
  "working_ports broken targets deviceId (filter (\<lambda>p. port_selected (Some targets)
     (data_port_name deviceId) p \<longrightarrow> \<not> broken p) ports) = working_ports broken targets deviceId ports"
  unfolding working_ports_def by (auto intro: filter_cong)

lemma deliver_reports_eq:
  "nm_out (fold (deliver_report broken targets deviceId) rs s) =
     nm_out s @ concat (map (report_effects
       (working_ports broken targets deviceId (nm_contentPorts s)) targets deviceId) rs)"
proof (induction rs arbitrary: s)
  case (Cons r rs)
  show ?case
    by (simp only: fold_Cons comp_def Cons.IH) (simp add: deliver_report_eq emit_def working_stays)
qed simp

lemma packed_frame_head:
  assumes "device_id < 2 ^ 32"
  shows "or_bytes4 (packed_input_report device_id rs ! 1) (packed_input_report device_id rs ! 2)
     (packed_input_report device_id rs ! 3) (packed_input_report device_id rs ! 4) = device_id"
    and "unat (packed_input_report device_id rs ! 0) = PKG_INPUT_REPORT"
    and "rs \<noteq> [] \<Longrightarrow> 8 \<le> length (packed_input_report device_id rs)"
proof -
  obtain b0 b1 b2 b3 where b: "le32 device_id = [b0, b1, b2, b3]" by (simp add: le32_def)
  have "le_nat (le32 device_id) = device_id" using assms by (simp only: le_nat_le32) simp
  with b show "or_bytes4 (packed_input_report device_id rs ! 1) (packed_input_report device_id rs ! 2)
     (packed_input_report device_id rs ! 3) (packed_input_report device_id rs ! 4) = device_id"
    by (simp add: or_bytes4_eq packed_input_report_def del: le_nat_simps)
  show "rs \<noteq> [] \<Longrightarrow> 8 \<le> length (packed_input_report device_id rs)"
    by (cases rs) (auto simp: packed_input_report_def le32_def encode_packed_report_def)
qed (simp add: packed_input_report_def PKG_INPUT_REPORT_def)

text \<open>Failed attempts in a row only bump the delay.\<close>

lemma failed_attempts:
  assumes "nm_port s = None" "nm_reconnectTimer s \<noteq> None"
  shows "nm_reconnectDelay ((reconnectTimerFired False ^^ n) s) = nm_reconnectDelay ((bump_delay ^^ n) s)"
proof -
  have "nm_port ((reconnectTimerFired False ^^ n) s) = None
      \<and> nm_reconnectTimer ((reconnectTimerFired False ^^ n) s) \<noteq> None
      \<and> nm_reconnectDelay ((reconnectTimerFired False ^^ n) s) = nm_reconnectDelay ((bump_delay ^^ n) s)"
  proof (induction n)
    case (Suc n)
    then show ?case
      by (simp add: reconnectTimerFired_def nm_connect_def nm_scheduleReconnect_def bump_delay_def)
  qed (use assms in simp)
  then show ?thesis by blast
qed

section \<open>Properties\<close>

text \<open>C7: every request of the background is answered once.  In any run of the client, whatever
  the host, the browser and the timers do, the promises handed out are distinct, each is either
  waiting or settled, none is settled twice, a settled one never waits and never gets another
  answer.\<close>

theorem nm_requests_settle_once:
  "distinct (nm_issued (fold nm_step es initial_nm_state))
   \<and> set (nm_issued (fold nm_step es initial_nm_state)) =
       set (map snd (nm_pending (fold nm_step es initial_nm_state)))
       \<union> fst ` set (nm_settled (fold nm_step es initial_nm_state))
   \<and> set (map snd (nm_pending (fold nm_step es initial_nm_state)))
       \<inter> fst ` set (nm_settled (fold nm_step es initial_nm_state)) = {}
   \<and> distinct (map fst (nm_settled (fold nm_step es initial_nm_state)))
   \<and> prefix (nm_settled (fold nm_step es initial_nm_state))
       (nm_settled (fold nm_step es' (fold nm_step es initial_nm_state)))"
  using nm_requests.inv_run [OF req_wf_initial, of es]
  by (simp add: nm_requests.issued_distinct nm_requests.issued_waiting_or_settled
      nm_requests.waiting_not_settled nm_requests.settled_once nm_requests.settled_run del: set_map)

text \<open>No request waits forever: a promise that waits has a deadline running for its request,
  and when the deadline fires the promise is rejected, no later than that.\<close>

theorem nm_request_deadline:
  assumes "s = fold nm_step es initial_nm_state" and "promise \<in> set (map snd (nm_pending s))"
  shows "\<exists>reqId. reqId \<in> set (nm_timers s) \<and> map_get (nm_pending s) reqId = Some promise
     \<and> nm_settled (nm_step (DeadlineFired reqId) s) =
         nm_settled s @ [(promise, Rejected (JsError ''NM request timed out''))]
     \<and> promise \<notin> set (map snd (nm_pending (nm_step (DeadlineFired reqId) s)))"
  using waiting_has_deadline [of s promise] nm_requests.inv_run [OF req_wf_initial, of es] assms by simp

theorem nm_request_deadline_witness:
  "\<exists>reqId. reqId \<in> set (nm_timers (fold nm_step [Connect True, SendBody (PlainBody handshake_request) True True]
     initial_nm_state)) \<and> map_get (nm_pending (fold nm_step [Connect True,
       SendBody (PlainBody handshake_request) True True] initial_nm_state)) reqId = Some 0"
proof -
  have "0 \<in> set (map snd (nm_pending (fold nm_step [Connect True,
      SendBody (PlainBody handshake_request) True True] initial_nm_state)))"
    by (simp add: nm_connect_def initial_nm_state_def reset_delay_def sendFrame_def new_promise_def
        build_request_def emit_def Let_def)
  from nm_request_deadline [OF refl this] show ?thesis by blast
qed

text \<open>Answers go to the request they name.  A message with a request id and no event settles
  exactly the promise waiting under that id, with the message itself, and leaves every other
  request waiting; when nothing waits under the id (an answer after the deadline, or after the
  port was retired) it changes nothing at all.\<close>

theorem nm_answer_routing:
  assumes "msg_n message = Some n" and "msg_e message = None"
  shows "handleNativeMessage broken native_ok post_ok message s =
    (case map_get (nm_pending s) n of
       None \<Rightarrow> s
     | Some promise \<Rightarrow>
         s\<lparr>nm_pending := map_delete (nm_pending s) n, nm_timers := removeAll n (nm_timers s),
           nm_settled := nm_settled s @ [(promise, Resolved message)]\<rparr>)"
  using assms
  by (auto simp: handleNativeMessage_def tryHostError_def tryPackedData_def tryControlEvent_def
      tryPendingResponse_def settle_entry_def split: option.split)

theorem nm_answer_routing_witness:
  "handleNativeMessage (\<lambda>_. False) True True (empty_message\<lparr>msg_n := Some 7\<rparr>)
     (initial_nm_state\<lparr>nm_pending := [(7, 3)], nm_timers := [7]\<rparr>) =
   initial_nm_state\<lparr>nm_settled := [(3, Resolved (empty_message\<lparr>msg_n := Some 7\<rparr>))]\<rparr>"
  by (subst nm_answer_routing [where n = 7]) (simp_all add: empty_message_def initial_nm_state_def)

text \<open>C28: when the host goes away nothing is left hanging.  The loss of the current port answers
  every waiting request with 503, forgets every tab, session, document and cleanup of the dead
  daemon, tells the pages, and schedules a reconnection; the loss of a port retired before
  changes nothing.\<close>

theorem nm_host_lost:
  "nm_step (PortGone port) s =
     (if nm_port s \<noteq> Some port then s else nm_scheduleReconnect (snd (retirePort port s)))
   \<and> (let s' = nm_step (PortGone port) (s\<lparr>nm_port := Some port\<rparr>)
      in nm_port s' = None \<and> nm_pending s' = [] \<and> nm_reconnectTimer s' \<noteq> None
         \<and> nm_settled s' = nm_settled s
             @ map (\<lambda>e. (snd e, Resolved (empty_message\<lparr>msg_s := Some 503\<rparr>))) (nm_pending s)
         \<and> deviceTabMap (bg_st (nm_bg s')) = [] \<and> deviceSessions (bg_st (nm_bg s')) = []
         \<and> frameLifetimes (bg_st (nm_bg s')) = [] \<and> orphanCleanup (bg_st (nm_bg s')) = []
         \<and> nm_out s' = nm_out s @ [GlobalReset])"
  by (simp add: portDisconnected_def retirePort_def settle_all_eq emit_def nm_scheduleReconnect_def
      bump_delay_def clearAuthorityOwnership_def Let_def)

text \<open>Reconnection is bounded and never given up.  Once the client was started it always has a
  port or a reconnection scheduled; the delays it schedules and its current delay lie between one
  and ten seconds; and after \<open>k\<close> failed attempts in a row the delay is \<open>2 ^ k\<close> seconds, ten at
  most, back to one by a connection.\<close>

theorem nm_reconnects:
  "linked (fold nm_step (Connect native_ok # es) initial_nm_state)
   \<and> 1000 \<le> nm_reconnectDelay (fold nm_step es initial_nm_state)
   \<and> nm_reconnectDelay (fold nm_step es initial_nm_state) \<le> 10000
   \<and> case_option True (\<lambda>ms. 1000 \<le> ms \<and> ms \<le> 10000) (nm_reconnectTimer (fold nm_step es initial_nm_state))
   \<and> nm_reconnectDelay ((reconnectTimerFired False ^^ k)
        ((reset_delay s)\<lparr>nm_port := None, nm_reconnectTimer := Some ms0\<rparr>)) = min (1000 * 2 ^ k) 10000"
proof -
  have "linked (nm_step (Connect native_ok) initial_nm_state)" by (simp add: nm_connect_linked)
  then have "linked (fold nm_step (Connect native_ok # es) initial_nm_state)"
    using nm_run_conn [of "nm_step (Connect native_ok) initial_nm_state" es] by (simp add: conn_step_def)
  moreover have "conn_wf (fold nm_step es initial_nm_state)"
    using nm_run_conn [of initial_nm_state es] conn_wf_initial by (simp add: conn_step_def)
  moreover have "nm_reconnectDelay ((reconnectTimerFired False ^^ k)
      ((reset_delay s)\<lparr>nm_port := None, nm_reconnectTimer := Some ms0\<rparr>)) = min (1000 * 2 ^ k) 10000"
    by (subst failed_attempts)
      (simp_all add: nm_delay.after_failures nm_delay.in_range_def reset_delay_def)
  ultimately show ?thesis
    by (auto simp: conn_wf_def nm_delay.in_range_def split: option.split)
qed

text \<open>C23: input reports reach the tabs that opened the device, each once per channel, and no other
  tab.  The reports of a frame of the daemon are delivered in order; each goes to every data port
  of the device in one of its tabs that still works, and as a message to exactly those of its
  tabs that no such port serves.  A device nobody opened is silent.\<close>

theorem input_report_delivery:
  assumes "msg_d message = Some b64" and "msg_n message = None" and "msg_e message = None"
    and "msg_E message = None"
    and "fromBase64 b64 no_options = Inr (packed_input_report deviceId rs)"
    and "list_all packed_ok rs" and "rs \<noteq> []" and "deviceId < 2 ^ 32"
  shows "nm_out (handleNativeMessage broken native_ok post_ok message s) = nm_out s @
    (case tabsForEvent deviceId (bg_st (nm_bg s)) of
       None \<Rightarrow> []
     | Some targets \<Rightarrow>
         concat (map (report_effects (working_ports broken targets deviceId (nm_contentPorts s))
                        targets deviceId) rs))"
proof -
  have "handleNativeMessage broken native_ok post_ok message s = onPackedData broken b64 s"
    using assms(1-4) by (simp add: handleNativeMessage_def tryHostError_def tryPackedData_def)
  moreover have "8 \<le> length (packed_input_report deviceId rs)"
    by (rule packed_frame_head(3) [OF assms(8,7)])
  ultimately show ?thesis
    using assms(5) packed_frame_head(1,2) [OF assms(8), of rs] parse_packed_frame [OF assms(6)]
    by (simp add: onPackedData_def Let_def deliver_reports_eq split: option.split)
qed

theorem input_report_delivery_witness:
  "nm_out (handleNativeMessage (\<lambda>_. False) True True (empty_message\<lparr>msg_d := Some ''AQMAAAACAQAH''\<rparr>)
     (initial_nm_state\<lparr>nm_bg := initial_bg_world\<lparr>bg_st := initial_bg_state
          \<lparr>deviceTabMap := [(3, [(4, 1), (5, 1)])]\<rparr>\<rparr>,
        nm_contentPorts := [\<lparr>cp_ref = 2, cp_name = data_port_name 3, cp_tab = Some 4\<rparr>]\<rparr>)) =
   [ToPort \<lparr>cp_ref = 2, cp_name = data_port_name 3, cp_tab = Some 4\<rparr> (InputReportEvent 3 2 [7]),
    ToTab 5 (InputReportEvent 3 2 [7])]"
proof -
  have "toBase64 no_options (packed_input_report 3 [(2, [7])]) = Inr ''AQMAAAACAQAH''"
    by (simp add: toBase64_def no_options_def getAlphabetOption_def charAtLookup_def
        base64Alphabet_def commonAlphabet_def push_bit_eq_mult drop_bit_eq_div and_63
        packed_input_report_def encode_packed_report_def PKG_INPUT_REPORT_def le32_def le16_def)
  from core_roundtrip [OF this, of no_options]
  have decoded: "fromBase64 ''AQMAAAACAQAH'' no_options = Inr (packed_input_report 3 [(2, [7])])"
    by (simp add: fromBase64_def no_options_def MAX_SAFE_INTEGER_def packed_input_report_def
        encode_packed_report_def le32_def le16_def)
  show ?thesis
    by (subst input_report_delivery [OF _ _ _ _ decoded])
      (simp_all add: empty_message_def packed_ok_def initial_nm_state_def tabsForEvent_def
        initial_bg_world_def initial_bg_state_def report_effects_def working_ports_def Let_def)
qed

text \<open>A connect event for a device that is already cached saves the device as the host sent it, its
  collections still encoded, over the decoded record.\<close>

lemma cached_connect_saves_raw:
  assumes "\<exists>d \<in> set (nm_deviceCache s). tlv_deviceId d = tlv_deviceId v" and "collections v = RawCollections b64"
  shows "nm_out (cache_add v s) = nm_out s @ [SaveDevice v]
     \<and> nm_deviceCache (cache_add v s) = nm_deviceCache s"
  using assms by (simp add: cache_add_def cached_def emit_def)

end
