(* ===== verification/Plane_Keys.thy ===== *)
theory Plane_Keys
  imports Js_String
begin

text \<open>
  The keys that name the data plane of a frame context, a device and a client of the context
  (\<open>content/isolated/bridge.js\<close>).
\<close>

section \<open>Plane keys\<close>

text \<open>A plane is named by its frame context, its device and its client, joined with NUL characters;
  the client of the window itself leaves its part out.\<close>

definition NUL :: char where
  "NUL = CHR 0x00"

definition WINDOW :: string where
  "WINDOW = ''window''"

definition planeKey :: "string \<Rightarrow> string \<Rightarrow> string" where
  "planeKey contextKey deviceId = contextKey @ [NUL] @ deviceId"

definition planeKeyForClient :: "string \<Rightarrow> string \<Rightarrow> string \<Rightarrow> string" where
  "planeKeyForClient contextKey deviceId clientKey =
     (if clientKey = WINDOW then planeKey contextKey deviceId
      else planeKey contextKey deviceId @ [NUL] @ clientKey)"

text \<open>\<open>indexOf\<close> and the two slices around it; \<open>None\<close> where there is no NUL.\<close>

definition split_nul :: "string \<Rightarrow> (string \<times> string) option" where
  "split_nul s = map_option (\<lambda>i. (take i s, drop (i + 1) s)) (index_of NUL s)"

definition contextKeyOfPlane :: "string \<Rightarrow> string option" where
  "contextKeyOfPlane key = map_option fst (split_nul key)"

definition deviceIdForPlaneKey :: "string \<Rightarrow> string" where
  "deviceIdForPlaneKey key =
     (case split_nul key of
        None \<Rightarrow> key
      | Some (_, rest) \<Rightarrow> (case split_nul rest of None \<Rightarrow> rest | Some (device, _) \<Rightarrow> device))"

definition clientKeyForPlaneKey :: "string \<Rightarrow> string" where
  "clientKeyForPlaneKey key =
     (case split_nul key of
        None \<Rightarrow> WINDOW
      | Some (_, rest) \<Rightarrow> (case split_nul rest of None \<Rightarrow> WINDOW | Some (_, client) \<Rightarrow> client))"

lemma split_nul_join: "NUL \<notin> set a \<Longrightarrow> split_nul (a @ NUL # b) = Some (a, b)"
proof -
  assume "NUL \<notin> set a"
  then have "takeWhile (\<lambda>c. c \<noteq> NUL) (a @ NUL # b) = a" by (induction a) auto
  then show ?thesis by (simp add: split_nul_def index_of_def)
qed

lemma split_nul_none: "NUL \<notin> set a \<Longrightarrow> split_nul a = None"
  by (simp add: split_nul_def index_of_def)

lemma plane_key_parts:
  assumes "NUL \<notin> set c" "NUL \<notin> set d"
  shows "contextKeyOfPlane (planeKeyForClient c d k) = Some c"
    "deviceIdForPlaneKey (planeKeyForClient c d k) = d"
    "clientKeyForPlaneKey (planeKeyForClient c d k) = k"
  using assms by (simp_all add: planeKeyForClient_def planeKey_def contextKeyOfPlane_def deviceIdForPlaneKey_def
      clientKeyForPlaneKey_def split_nul_join split_nul_none)

text \<open>Two clients never share a plane.\<close>

lemma plane_key_inj:
  assumes "NUL \<notin> set c" "NUL \<notin> set d" "NUL \<notin> set c'" "NUL \<notin> set d'"
    "planeKeyForClient c d k = planeKeyForClient c' d' k'"
  shows "c = c' \<and> d = d' \<and> k = k'"
  using plane_key_parts [OF assms(1,2), of k] plane_key_parts [OF assms(3,4), of k'] assms(5) by simp

end
