(* ===== verification/Bridge_Requests.thy ===== *)
theory Bridge_Requests
  imports Requests Native_Messaging Plane_Keys
begin

text \<open>
  The frame contexts and clients of the bridge, their sessions, and the requests of their pages
  (\<open>content/isolated/bridge.js\<close>).  A context is named by its key, a client by its port.  A
  handler that awaits is a task of a stage, resumed by an event with what it awaited; the waits of
  \<open>loadSettingsForOrigin\<close>, \<open>isDeviceAllowed\<close>, the background and the data plane are such
  events.  What the handlers do to data planes is a log of \<open>plane_action\<close>s; the planes
  themselves are in \<open>Data_Planes\<close> and \<open>Data_Requests\<close>.
\<close>

section \<open>Frame contexts and clients\<close>

record frame_context =
  fx_key :: string
  fx_origin :: string
  fx_port :: nat
  fx_frameId :: "nat option"
  fx_documentId :: "string option"

text \<open>The payload of a page's message: the own fields of an object, with the strings the code reads or
  copies; \<open>None\<close> where there is no payload.  A message to the background has the same form, with
  \<open>None\<close> for a field that is \<open>undefined\<close> or \<open>null\<close>.\<close>

type_synonym page_payload = "(string, string) js_map option"
type_synonym bg_message = "(string, string option) js_map"

text \<open>A generic request of the page with what the handler reads when it starts: the frame context and
  the client of the port it came on, the origin, and the device id of the payload.\<close>

record page_request =
  pq_no :: nat
  pq_id :: string
  pq_action :: string
  pq_payload :: page_payload
  pq_deviceId :: "string option"
  pq_port :: nat
  pq_context :: "string option"
  pq_client :: "string option"
  pq_origin :: string

record 'r bg_response =
  rp_s :: "nat option"
  rp_i :: string
  rp_t :: string  \<comment> \<open>empty where the response has none\<close>
  rp_body :: 'r

datatype 'r page_reply =
    Status nat
  | Failure nat string
  | Body "'r bg_response"
  | Opened "'r bg_response" nat
  | WorkerClient string

text \<open>What the bridge asks of the background: the requests it forwards, each with the message sent, the ones of its own, and the answers to opens.\<close>

datatype bridge_log =
    ContextMade string string nat
  | ClientMade nat string string
  | AllowedAnswer nat string string
  | Forwarded page_request bg_message
  | OpenAnswered nat string string
  | CountPosted nat
  | CleanupPosted string string
  | ClosePosted string string string string
  | FrameDestroyedPosted string
  | DisconnectPosted nat string

datatype plane_action = RetainAttempt string | ReleaseAttempt string | DiscardPort string | Despawn string

datatype 'r stage =
    OpenSettings page_request
  | OpenAllowed page_request
  | Responding page_request "string option" bool
  | OpenPlane page_request "'r bg_response" bool
  | FailedPlane page_request "'r bg_response" "'r page_reply" bool
  | FailedCleanup page_request "'r page_reply" bool
  | CloseDespawn page_request "'r bg_response"

text \<open>A loop over the clients that hold a device, one await per client: of one device in one context
  (a disconnection, a revocation) or of all contexts (a reset of the daemon).\<close>

record session_loop =
  sl_contexts :: "string list"
  sl_context :: string
  sl_records :: "(nat \<times> string) list"
  sl_devices :: "string list"
  sl_device :: string
  sl_clients :: "(nat \<times> string) list"

text \<open>\<open>bx_sessions\<close> are the session tables, each under the port it was made for; \<open>bx_clientPorts\<close> the
  keys of \<open>clientSessions\<close>: the table of a port that is gone is still in the hands of the handlers
  that run.  \<open>bx_dying\<close> are the destroyed frames' tables that are not cleared yet.\<close>

record 'r bridge =
  bx_contexts :: "(string, frame_context) js_map"
  bx_portContext :: "(nat, string) js_map"
  bx_clientKeys :: "(nat, string) js_map"
  bx_clientPorts :: "nat list"
  bx_sessions :: "(nat, (string, string) js_map) js_map"
  bx_workerPorts :: "(string, nat list) js_map"
  bx_portOrigin :: "(nat, string) js_map"
  bx_requestPort :: "(string, nat) js_map"
  bx_generation :: nat
  bx_requests :: nat
  bx_tasks :: "(nat \<times> 'r stage) list"
  bx_done :: "nat list"
  bx_replies :: "(nat \<times> string \<times> 'r page_reply) list"
  bx_loops :: "(nat \<times> session_loop) list"
  bx_dying :: "nat list list"
  bx_planes :: "plane_action list"
  bx_log :: "bridge_log list"

definition initial_bridge :: "'r bridge" where
  "initial_bridge = \<lparr>bx_contexts = [], bx_portContext = [], bx_clientKeys = [], bx_clientPorts = [], bx_sessions = [],
     bx_workerPorts = [], bx_portOrigin = [], bx_requestPort = [], bx_generation = 0, bx_requests = 0,
     bx_tasks = [], bx_done = [], bx_replies = [], bx_loops = [], bx_dying = [], bx_planes = [], bx_log = []\<rparr>"

definition bx_note :: "bridge_log \<Rightarrow> 'r bridge \<Rightarrow> 'r bridge" where
  "bx_note x s = s\<lparr>bx_log := bx_log s @ [x]\<rparr>"

definition bx_plane :: "plane_action \<Rightarrow> 'r bridge \<Rightarrow> 'r bridge" where
  "bx_plane x s = s\<lparr>bx_planes := bx_planes s @ [x]\<rparr>"

text \<open>The page's own document and worker clients are told apart by the keys \<open>window\<close> and
  \<open>worker-\<close> with a number no context or client had before.\<close>

definition context_key :: "string \<Rightarrow> nat \<Rightarrow> string" where
  "context_key bridgeInstanceId n = bridgeInstanceId @ ''/frame-'' @ show_nat n"

definition worker_key :: "nat \<Rightarrow> string" where
  "worker_key n = ''worker-'' @ show_nat n"

definition createFrameContext ::
    "string \<Rightarrow> nat \<Rightarrow> string \<Rightarrow> nat option \<Rightarrow> string option \<Rightarrow> 'r bridge \<Rightarrow> 'r bridge" where
  "createFrameContext bridgeInstanceId port origin frameId documentId s =
     (let n = bx_generation s + 1;
          key = context_key bridgeInstanceId n;
          context = \<lparr>fx_key = key, fx_origin = origin, fx_port = port, fx_frameId = frameId, fx_documentId = documentId\<rparr>
      in bx_note (ClientMade port key WINDOW) (bx_note (ContextMade key origin port)
           (s\<lparr>bx_generation := n,
              bx_contexts := map_set (bx_contexts s) key context,
              bx_portContext := map_set (bx_portContext s) port key,
              bx_clientPorts := set_add (bx_clientPorts s) port,
              bx_sessions := map_set (bx_sessions s) port [],
              bx_clientKeys := map_set (bx_clientKeys s) port WINDOW\<rparr>)))"

definition acceptPagePort ::
    "string \<Rightarrow> nat \<Rightarrow> string \<Rightarrow> nat option \<Rightarrow> string option \<Rightarrow> 'r bridge \<Rightarrow> 'r bridge" where
  "acceptPagePort bridgeInstanceId port origin frameId documentId s =
     (let s1 = createFrameContext bridgeInstanceId port origin frameId documentId s
      in s1\<lparr>bx_portOrigin := map_set (bx_portOrigin s1) port origin\<rparr>)"

definition frameContextForPort :: "nat option \<Rightarrow> 'r bridge \<Rightarrow> string option" where
  "frameContextForPort port s = Option.bind port (map_get (bx_portContext s))"

text \<open>The client of a port in a context: its key; the sessions are those of the port.\<close>

definition clientForPort :: "string \<Rightarrow> nat \<Rightarrow> 'r bridge \<Rightarrow> string option" where
  "clientForPort context port s =
     (if map_get (bx_portContext s) port \<noteq> Some context \<or> port \<notin> set (bx_clientPorts s) then None
      else map_get (bx_clientKeys s) port)"

text \<open>The ports of a context that are clients, with their sessions and keys.\<close>

definition context_client :: "'r bridge \<Rightarrow> string \<Rightarrow> nat \<times> string \<Rightarrow> (nat \<times> string) list" where
  "context_client s context e =
     (if snd e \<noteq> context \<or> fst e \<notin> set (bx_clientPorts s) then []
      else case map_get (bx_clientKeys s) (fst e) of Some clientKey \<Rightarrow> [(fst e, clientKey)] | None \<Rightarrow> [])"

definition sessionsForContext :: "string \<Rightarrow> 'r bridge \<Rightarrow> (nat \<times> string) list" where
  "sessionsForContext context s = concat (map (context_client s context) (bx_portContext s))"

definition clientForKey :: "string \<Rightarrow> string \<Rightarrow> 'r bridge \<Rightarrow> nat option" where
  "clientForKey context clientKey s =
     map_option fst (find (\<lambda>(port, owner). owner = context \<and> map_get (bx_clientKeys s) port = Some clientKey
       \<and> port \<in> set (bx_clientPorts s)) (bx_portContext s))"

definition sessions_of :: "nat \<Rightarrow> 'r bridge \<Rightarrow> (string, string) js_map" where
  "sessions_of port s = (case map_get (bx_sessions s) port of None \<Rightarrow> [] | Some m \<Rightarrow> m)"

definition getOpenDeviceIds :: "'r bridge \<Rightarrow> string list" where
  "getOpenDeviceIds s =
     set_of_list (concat (map (\<lambda>(port, _). if port \<in> set (bx_clientPorts s) then map_keys (sessions_of port s) else [])
       (bx_portContext s)))"

definition session_set :: "nat \<Rightarrow> string \<Rightarrow> string \<Rightarrow> 'r bridge \<Rightarrow> 'r bridge" where
  "session_set port deviceId token s =
     s\<lparr>bx_sessions := map_set (bx_sessions s) port (map_set (sessions_of port s) deviceId token)\<rparr>"

definition session_delete :: "nat \<Rightarrow> string \<Rightarrow> 'r bridge \<Rightarrow> 'r bridge" where
  "session_delete port deviceId s =
     s\<lparr>bx_sessions := map_set (bx_sessions s) port (map_delete (sessions_of port s) deviceId)\<rparr>"

definition post_count :: "'r bridge \<Rightarrow> 'r bridge" where
  "post_count s = bx_note (CountPosted (length (getOpenDeviceIds s))) s"

definition replyToPage :: "string \<Rightarrow> 'r page_reply \<Rightarrow> 'r bridge \<Rightarrow> 'r bridge" where
  "replyToPage reqId result s =
     (case map_get (bx_requestPort s) reqId of
        None \<Rightarrow> s
      | Some port \<Rightarrow> s\<lparr>bx_requestPort := map_delete (bx_requestPort s) reqId,
                      bx_replies := bx_replies s @ [(port, reqId, result)]\<rparr>)"

section \<open>Generic requests\<close>

definition PAGE_BLOCKED_ACTIONS :: "string list" where
  "PAGE_BLOCKED_ACTIONS = [''pairDevice'', ''recordGrantGroup'', ''getGrantGroups'', ''getAllPairedDevices'',
     ''revokeDevice'', ''getDeviceCache'', ''getDeviceInfo'', ''showPicker'', ''pickerResult'', ''setFrameDelegation'']"

definition effective_action :: "string \<Rightarrow> string" where
  "effective_action action =
     (if action = ''enumerate'' then ''enumeratePaired''
      else if action = ''unpairDevice'' then ''revokeDevice'' else action)"

definition request_key :: "page_request \<Rightarrow> string option" where
  "request_key q =
     (case (pq_context q, pq_deviceId q, pq_client q) of
        (Some context, Some deviceId, Some clientKey) \<Rightarrow>
          if clientKey = [] then None else Some (planeKeyForClient context deviceId clientKey)
      | _ \<Rightarrow> None)"

text \<open>A handler waits under its request's number, or is done and has replied.\<close>

definition bx_await :: "page_request \<Rightarrow> 'r stage \<Rightarrow> 'r bridge \<Rightarrow> 'r bridge" where
  "bx_await q st s = s\<lparr>bx_tasks := bx_tasks s @ [(pq_no q, st)]\<rparr>"

definition bx_finish :: "page_request \<Rightarrow> 'r page_reply \<Rightarrow> 'r bridge \<Rightarrow> 'r bridge" where
  "bx_finish q r s = replyToPage (pq_id q) r (s\<lparr>bx_done := bx_done s @ [pq_no q]\<rparr>)"

text \<open>The message to the background: a copy of the page's payload, in which the bridge's own view of who
  asks replaces the fields of these names, and, for a close, the token of the client replaces the
  field \<open>T\<close>.  Without a token \<open>T\<close> stays what the payload says.\<close>

definition stamped_fields :: "page_request \<Rightarrow> bg_message" where
  "stamped_fields q =
     [(''action'', Some (effective_action (pq_action q))), (''origin'', Some (pq_origin q)),
      (''frameKey'', pq_context q), (''clientKey'', pq_client q)]"

definition object_assign :: "bg_message \<Rightarrow> bg_message \<Rightarrow> bg_message" where
  "object_assign m kvs = fold (\<lambda>(k, v) m. map_set m k v) kvs m"

definition forwarded_message :: "page_request \<Rightarrow> string option \<Rightarrow> bg_message" where
  "forwarded_message q reserved =
     (let copied = (case pq_payload q of None \<Rightarrow> [] | Some kvs \<Rightarrow> map (\<lambda>(k, v). (k, Some v)) kvs);
          msg = object_assign copied (stamped_fields q)
      in case reserved of None \<Rightarrow> msg | Some token \<Rightarrow> map_set msg ''T'' (Some token))"

definition reserved_token :: "page_request \<Rightarrow> 'r bridge \<Rightarrow> string option" where
  "reserved_token q s =
     (if pq_action q = ''close''
      then (case Option.bind (pq_deviceId q) (map_get (sessions_of (pq_port q) s)) of
              Some token \<Rightarrow> if token = [] then None else Some token
            | None \<Rightarrow> None)
      else None)"

definition forward_request :: "page_request \<Rightarrow> bool \<Rightarrow> 'r bridge \<Rightarrow> 'r bridge" where
  "forward_request q nmOpenAttempt s =
     (let reserved = reserved_token q s
      in bx_await q (Responding q reserved nmOpenAttempt)
           (bx_note (Forwarded q (forwarded_message q reserved)) s))"

definition new_request ::
    "string \<Rightarrow> string \<Rightarrow> string \<Rightarrow> page_payload \<Rightarrow> nat \<Rightarrow> 'r bridge \<Rightarrow> page_request" where
  "new_request windowOrigin reqId action payload port s =
     (let context = frameContextForPort (Some port) s;
          client = Option.bind context (\<lambda>c. clientForPort c port s)
      in \<lparr>pq_no = bx_requests s, pq_id = reqId, pq_action = action, pq_payload = payload,
          pq_deviceId = Option.bind payload (\<lambda>kvs. map_get kvs ''deviceId''), pq_port = port,
          pq_context = context, pq_client = client,
          pq_origin =
            (case context of
               Some c \<Rightarrow> (case map_get (bx_contexts s) c of Some x \<Rightarrow> fx_origin x | None \<Rightarrow> [])
             | None \<Rightarrow>
                 (case map_get (bx_requestPort s) reqId of
                    Some p \<Rightarrow> (case map_get (bx_portOrigin s) p of Some origin \<Rightarrow> origin | None \<Rightarrow> [])
                  | None \<Rightarrow> windowOrigin))\<rparr>)"

definition handleGenericRequest ::
    "string \<Rightarrow> string \<Rightarrow> string \<Rightarrow> page_payload \<Rightarrow> nat \<Rightarrow> 'r bridge \<Rightarrow> 'r bridge" where
  "handleGenericRequest windowOrigin reqId action payload port s0 =
     (let q = new_request windowOrigin reqId action payload port s0;
          s = s0\<lparr>bx_requests := bx_requests s0 + 1\<rparr>
      in if action \<in> set PAGE_BLOCKED_ACTIONS then bx_finish q (Status 403) s
         else if (action = ''open'' \<or> action = ''close'') \<and> (pq_context q = None \<or> pq_client q = None)
         then bx_finish q (Status 403) s
         else if action = ''open'' then bx_await q (OpenSettings q) s
         else forward_request q False s)"

text \<open>The client of the request is still the one that asked.\<close>

definition same_client :: "page_request \<Rightarrow> 'r bridge \<Rightarrow> bool" where
  "same_client q s \<longleftrightarrow>
     (case pq_context q of
        None \<Rightarrow> False
      | Some context \<Rightarrow>
          map_has (bx_contexts s) context
          \<and> pq_client q \<noteq> None \<and> clientForPort context (pq_port q) s = pq_client q)"

definition plane_for :: "(string \<Rightarrow> plane_action) \<Rightarrow> page_request \<Rightarrow> 'r bridge \<Rightarrow> 'r bridge" where
  "plane_for f q s = (case request_key q of None \<Rightarrow> s | Some key \<Rightarrow> bx_plane (f key) s)"

definition release_attempt :: "bool \<Rightarrow> page_request \<Rightarrow> 'r bridge \<Rightarrow> 'r bridge" where
  "release_attempt nmOpenAttempt q s = (if nmOpenAttempt then plane_for ReleaseAttempt q s else s)"

definition delete_own_session :: "page_request \<Rightarrow> 'r bridge \<Rightarrow> 'r bridge" where
  "delete_own_session q s =
     (case pq_deviceId q of None \<Rightarrow> s | Some d \<Rightarrow> session_delete (pq_port q) d s)"

text \<open>The answer of the cache: \<open>overNm\<close> says that the origin's plane, or the plane already, is Native
  Messaging.\<close>

definition open_allowed_answered :: "page_request \<Rightarrow> bool \<Rightarrow> bool \<Rightarrow> 'r bridge \<Rightarrow> 'r bridge" where
  "open_allowed_answered q allowed overNm s =
     (if \<not> allowed then bx_finish q (Status 403) s
      else
        let s1 = bx_note (AllowedAnswer (pq_port q) (pq_origin q) (case pq_deviceId q of Some d \<Rightarrow> d | None \<Rightarrow> [])) s
        in if \<not> same_client q s1 then bx_finish q (Status 503) s1
           else forward_request q overNm (if overNm then plane_for RetainAttempt q s1 else s1))"

text \<open>The open attempts under way on a key, \<open>nmOpenAttempts.get(key) || 0\<close>, from the log of what the
  handlers did: a release at zero deletes the entry.\<close>

definition attempt_change :: "string \<Rightarrow> plane_action \<Rightarrow> nat \<Rightarrow> nat" where
  "attempt_change key x n =
     (case x of RetainAttempt k \<Rightarrow> (if k = key then n + 1 else n)
      | ReleaseAttempt k \<Rightarrow> (if k = key then n - 1 else n)
      | _ \<Rightarrow> n)"

definition open_attempts :: "string \<Rightarrow> 'r bridge \<Rightarrow> nat" where
  "open_attempts key s = fold (attempt_change key) (bx_planes s) 0"

text \<open>The table a context was made with; its object outlives the frame.\<close>

fun context_port :: "string \<Rightarrow> bridge_log list \<Rightarrow> nat option" where
  "context_port context [] = None"
| "context_port context (ContextMade key origin port # log) =
     (if key = context then Some port else context_port context log)"
| "context_port context (_ # log) = context_port context log"

definition discardFailedOpenDataPort :: "page_request \<Rightarrow> 'r bridge \<Rightarrow> 'r bridge" where
  "discardFailedOpenDataPort q s =
     (case (pq_context q, pq_deviceId q, pq_client q) of
        (Some context, Some deviceId, Some clientKey) \<Rightarrow>
          let key = planeKeyForClient context deviceId clientKey;
              sessions = (case clientForKey context clientKey s of
                            Some port \<Rightarrow> sessions_of port s
                          | None \<Rightarrow> (case context_port context (bx_log s) of
                                       Some port \<Rightarrow> sessions_of port s
                                     | None \<Rightarrow> []))
          in if map_has sessions deviceId \<or> open_attempts key s > 0 then s else plane_for DiscardPort q s
      | _ \<Rightarrow> s)"

text \<open>An exception before the daemon gave a token.\<close>

definition open_thrown :: "page_request \<Rightarrow> bool \<Rightarrow> 'r bridge \<Rightarrow> 'r bridge" where
  "open_thrown q nmOpenAttempt s =
     bx_finish q (Status 500) (discardFailedOpenDataPort q (delete_own_session q (release_attempt nmOpenAttempt q s)))"

text \<open>An open that is not accepted: the session goes, then its plane, then the daemon's session.\<close>

definition reject_open :: "page_request \<Rightarrow> 'r bg_response \<Rightarrow> 'r page_reply \<Rightarrow> bool \<Rightarrow> 'r bridge \<Rightarrow> 'r bridge" where
  "reject_open q r result nmOpenAttempt s =
     bx_await q (FailedPlane q r result nmOpenAttempt) (plane_for Despawn q (delete_own_session q s))"

definition handleOpenSuccess :: "page_request \<Rightarrow> 'r bg_response \<Rightarrow> bool \<Rightarrow> 'r bridge \<Rightarrow> 'r bridge" where
  "handleOpenSuccess q r nmOpenAttempt s =
     (if \<not> same_client q s
      then reject_open q r
             (Failure 503 (if (case pq_context q of Some c \<Rightarrow> map_has (bx_contexts s) c | None \<Rightarrow> False)
                           then ''client mapping changed during open''
                           else ''initial client ownership check failed'')) nmOpenAttempt s
      else bx_await q (OpenPlane q r nmOpenAttempt)
             (post_count (session_set (pq_port q) (rp_i r) (rp_t r)
               (bx_note (OpenAnswered (pq_port q) (rp_i r) (rp_t r)) s))))"

text \<open>The answer of the background.  A close without a payload is answered 500: \<open>handleCloseSuccess\<close> reads
  its device id.\<close>

definition background_answered ::
    "page_request \<Rightarrow> string option \<Rightarrow> bool \<Rightarrow> 'r bg_response \<Rightarrow> 'r bridge \<Rightarrow> 'r bridge" where
  "background_answered q reserved nmOpenAttempt r s =
     (if pq_action q = ''open'' \<and> isOk (rp_s r) \<and> rp_t r \<noteq> [] then handleOpenSuccess q r nmOpenAttempt s
      else if pq_action q = ''open''
      then bx_finish q (Body r) (discardFailedOpenDataPort q (release_attempt nmOpenAttempt q s))
      else if pq_action q = ''close'' \<and> isOk (rp_s r) \<and> pq_payload q = None
      then bx_finish q (Status 500) s
      else if pq_action q = ''close'' \<and> isOk (rp_s r)
      then bx_await q (CloseDespawn q r) (plane_for Despawn q (delete_own_session q s))
      else if pq_action q = ''close''
      then bx_finish q (Body r)
             (case (pq_deviceId q, reserved) of
                (Some d, Some token) \<Rightarrow> session_set (pq_port q) d token s
              | _ \<Rightarrow> s)
      else bx_finish q (Body r) s)"

text \<open>What a waiting handler is resumed with.\<close>

datatype 'r outcome =
    SettingsLoaded
  | AllowedIs bool bool
  | Answer "'r bg_response"
  | NoAnswer
  | PlaneIs "nat option"
  | Thrown
  | Finished

fun resume_stage :: "'r stage \<Rightarrow> 'r outcome \<Rightarrow> 'r bridge \<Rightarrow> 'r bridge" where
  "resume_stage (OpenSettings q) _ s = bx_await q (OpenAllowed q) s"
| "resume_stage (OpenAllowed q) (AllowedIs allowed overNm) s = open_allowed_answered q allowed overNm s"
| "resume_stage (Responding q reserved nm) (Answer r) s = background_answered q reserved nm r s"
| "resume_stage (Responding q reserved nm) _ s =
     (if pq_action q = ''open'' then open_thrown q nm s else bx_finish q (Status 500) s)"
| "resume_stage (OpenPlane q r nm) (PlaneIs (Some generation)) s =
     bx_finish q (Opened r generation) (release_attempt nm q s)"
| "resume_stage (OpenPlane q r nm) (PlaneIs None) s =
     reject_open q r (Failure 503 ''data plane authority setup failed'') nm s"
| "resume_stage (OpenPlane q r nm) _ s = reject_open q r (Status 500) False (release_attempt nm q s)"
| "resume_stage (FailedPlane q r result nm) _ s =
     bx_await q (FailedCleanup q result nm) (bx_note (CleanupPosted (rp_i r) (rp_t r)) s)"
| "resume_stage (FailedCleanup q result nm) _ s =
     bx_finish q result (release_attempt nm q (discardFailedOpenDataPort q s))"
| "resume_stage (CloseDespawn q r) Thrown s = bx_finish q (Status 500) s"
| "resume_stage (CloseDespawn q r) _ s = bx_finish q (Body r) (post_count s)"
| "resume_stage (OpenAllowed q) _ s = open_thrown q False s"

definition resume_request :: "nat \<Rightarrow> 'r outcome \<Rightarrow> 'r bridge \<Rightarrow> 'r bridge" where
  "resume_request n x s =
     (case map_get (bx_tasks s) n of
        None \<Rightarrow> s
      | Some st \<Rightarrow> resume_stage st x (s\<lparr>bx_tasks := map_delete (bx_tasks s) n\<rparr>))"

section \<open>Messages of the page ports\<close>

definition port_known :: "nat \<Rightarrow> 'r bridge \<Rightarrow> bool" where
  "port_known port s \<longleftrightarrow> (\<exists>x \<in> set (bx_log s). case x of ClientMade p _ _ \<Rightarrow> p = port | _ \<Rightarrow> False)"

definition handleWorkerPortRequest :: "string \<Rightarrow> nat option \<Rightarrow> nat \<Rightarrow> 'r bridge \<Rightarrow> 'r bridge" where
  "handleWorkerPortRequest reqId p requestPort s =
     (case (p, frameContextForPort (Some requestPort) s) of
        (Some p, Some context) \<Rightarrow>
          let n = bx_generation s + 1;
              clientKey = worker_key n;
              workerPorts = (case map_get (bx_workerPorts s) context of Some ps \<Rightarrow> ps | None \<Rightarrow> []);
              origin = (case map_get (bx_contexts s) context of Some x \<Rightarrow> fx_origin x | None \<Rightarrow> [])
          in bx_note (ClientMade p context clientKey)
               (s\<lparr>bx_generation := n,
                  bx_portContext := map_set (bx_portContext s) p context,
                  bx_clientPorts := set_add (bx_clientPorts s) p,
                  bx_sessions := map_set (bx_sessions s) p [],
                  bx_clientKeys := map_set (bx_clientKeys s) p clientKey,
                  bx_workerPorts := map_set (bx_workerPorts s) context (set_add workerPorts p),
                  bx_portOrigin := map_set (bx_portOrigin s) p origin,
                  bx_replies := bx_replies s @ [(requestPort, reqId, WorkerClient clientKey)]\<rparr>)
      | _ \<Rightarrow> s)"

text \<open>\<open>handleWorkerClientDestroyed(data, requestPort)\<close> goes past its guard only for a port it knows.
  \<open>handleRequest\<close> calls every handler with \<open>(data, ports, requestPort)\<close>: what it gets as its
  \<open>requestPort\<close> is the array of transferred ports, which is the key of no frame context.\<close>

definition worker_destroyed_reached :: "nat option \<Rightarrow> string option \<Rightarrow> 'r bridge \<Rightarrow> bool" where
  "worker_destroyed_reached requestPort clientKey s \<longleftrightarrow> frameContextForPort requestPort s \<noteq> None \<and> clientKey \<noteq> None"

definition ports_array :: "nat option" where
  "ports_array = None"

definition OTHER_HANDLERS :: "string list" where
  "OTHER_HANDLERS = [''dataPort'', ''waitDataPlaneReady'', ''getCspInfo'', ''getPolicy'', ''getSettings'', ''requestDevice'']"

text \<open>A message with an id: the port is remembered for the reply, then the handler of the action runs.
  The handlers of other theories only reply.\<close>

definition dispatchPortMessage ::
    "string \<Rightarrow> string \<Rightarrow> string \<Rightarrow> page_payload \<Rightarrow> nat option \<Rightarrow> nat \<Rightarrow> 'r bridge \<Rightarrow> 'r bridge" where
  "dispatchPortMessage windowOrigin reqId action payload transferred port s0 =
     (let s = s0\<lparr>bx_requestPort := map_set (bx_requestPort s0) reqId port\<rparr>
      in if action = ''workerPort'' then handleWorkerPortRequest reqId transferred port s
         else if action = ''workerClientDestroyed'' then s
         else if action \<in> set OTHER_HANDLERS then s
         else handleGenericRequest windowOrigin reqId action payload port s)"

section \<open>The end of a frame\<close>

definition destroyFrameContext :: "bool \<Rightarrow> string \<Rightarrow> 'r bridge \<Rightarrow> 'r bridge" where
  "destroyFrameContext close context s =
     (if \<not> map_has (bx_contexts s) context then s
      else
        let records = map fst (sessionsForContext context s);
            workerPorts = (case map_get (bx_workerPorts s) context of Some ps \<Rightarrow> ps | None \<Rightarrow> []);
            gone = records @ workerPorts;
            s1 = s\<lparr>bx_contexts := map_delete (bx_contexts s) context,
                   bx_portContext := filter (\<lambda>e. fst e \<notin> set gone) (bx_portContext s),
                   bx_clientPorts := filter (\<lambda>p. p \<notin> set gone) (bx_clientPorts s),
                   bx_clientKeys := filter (\<lambda>e. fst e \<notin> set gone) (bx_clientKeys s),
                   bx_portOrigin := filter (\<lambda>e. fst e \<notin> set gone) (bx_portOrigin s),
                   bx_requestPort := filter (\<lambda>e. snd e \<notin> set gone) (bx_requestPort s),
                   bx_workerPorts := map_delete (bx_workerPorts s) context,
                   bx_dying := bx_dying s @ [records]\<rparr>
        in if close then bx_note (FrameDestroyedPosted context) s1 else s1)"

text \<open>Once its planes are despawned, the tables of a destroyed frame are cleared.\<close>

definition frame_tables_cleared :: "nat \<Rightarrow> 'r bridge \<Rightarrow> 'r bridge" where
  "frame_tables_cleared i s =
     (if i < length (bx_dying s)
      then s\<lparr>bx_sessions := map (\<lambda>(p, m). (p, if p \<in> set (bx_dying s ! i) then [] else m)) (bx_sessions s),
             bx_dying := take i (bx_dying s) @ drop (Suc i) (bx_dying s)\<rparr>
      else s)"

section \<open>Devices that go away\<close>

text \<open>The next client of a loop loses its session, and its plane is despawned; \<open>None\<close> when the loop is
  over.  A reset looks at the clients of a context when it comes to it.\<close>

function loop_advance :: "session_loop \<Rightarrow> 'r bridge \<Rightarrow> session_loop option \<times> 'r bridge" where
  "loop_advance l s =
     (case sl_clients l of
        (port, clientKey) # _ \<Rightarrow>
          (Some l, bx_plane (Despawn (planeKeyForClient (sl_context l) (sl_device l) clientKey))
                     (session_delete port (sl_device l) s))
      | [] \<Rightarrow>
          (case sl_devices l of
             d # ds \<Rightarrow>
               let clients = filter (\<lambda>(port, _). map_has (sessions_of port s) d) (sl_records l);
                   l1 = l\<lparr>sl_devices := ds, sl_device := d, sl_clients := clients\<rparr>
               in if clients = [] then (Some l1, bx_plane (Despawn (planeKeyForClient (sl_context l) d WINDOW)) s)
                  else (case clients of
                          (port, clientKey) # _ \<Rightarrow>
                            (Some l1, bx_plane (Despawn (planeKeyForClient (sl_context l) d clientKey))
                                        (session_delete port d s))
                        | [] \<Rightarrow> (None, s))
           | [] \<Rightarrow>
               (case sl_contexts l of
                  [] \<Rightarrow> (None, s)
                | c # cs \<Rightarrow>
                    let records = sessionsForContext c s
                    in loop_advance (l\<lparr>sl_contexts := cs, sl_context := c, sl_records := records,
                         sl_devices := set_of_list (concat (map (\<lambda>(port, _). map_keys (sessions_of port s)) records)),
                         sl_clients := []\<rparr>) s)))"
  by pat_completeness auto

termination
  by (relation "measure (\<lambda>(l, _). length (sl_contexts l))") simp_all

declare loop_advance.simps [simp del]

definition run_loop :: "nat \<Rightarrow> session_loop \<Rightarrow> 'r bridge \<Rightarrow> 'r bridge" where
  "run_loop n l s =
     (case loop_advance l s of
        (None, s1) \<Rightarrow> s1
      | (Some l1, s1) \<Rightarrow> s1\<lparr>bx_loops := bx_loops s1 @ [(n, l1)]\<rparr>)"

text \<open>The despawn of a client's plane is over: the client is told, the next one follows.\<close>

definition resume_loop :: "nat \<Rightarrow> 'r bridge \<Rightarrow> 'r bridge" where
  "resume_loop n s =
     (case map_get (bx_loops s) n of
        None \<Rightarrow> s
      | Some l \<Rightarrow>
          let s1 = s\<lparr>bx_loops := map_delete (bx_loops s) n\<rparr>
          in (case sl_clients l of
                [] \<Rightarrow> run_loop n l s1
              | (port, _) # rest \<Rightarrow> run_loop n (l\<lparr>sl_clients := rest\<rparr>) (bx_note (DisconnectPosted port (sl_device l)) s1)))"

definition reconcileFrameDevice :: "nat \<Rightarrow> string \<Rightarrow> string \<Rightarrow> 'r bridge \<Rightarrow> 'r bridge" where
  "reconcileFrameDevice n context deviceId s =
     (let clients = filter (\<lambda>(port, _). map_has (sessions_of port s) deviceId) (sessionsForContext context s)
      in run_loop n \<lparr>sl_contexts = [], sl_context = context, sl_records = [], sl_devices = [],
                      sl_device = deviceId, sl_clients = clients\<rparr> s)"

definition resetAuthorityState :: "nat \<Rightarrow> 'r bridge \<Rightarrow> 'r bridge" where
  "resetAuthorityState n s =
     run_loop n \<lparr>sl_contexts = map_keys (bx_contexts s), sl_context = [], sl_records = [], sl_devices = [],
                  sl_device = [], sl_clients = []\<rparr> s"

text \<open>The input report of a device goes to the clients that hold it and whose plane is Native
  Messaging: \<open>overNm key\<close> says so of the plane of a key.\<close>

definition forwardInputReportToPage :: "(string \<Rightarrow> bool) \<Rightarrow> string \<Rightarrow> 'r bridge \<Rightarrow> nat list" where
  "forwardInputReportToPage overNm deviceId s =
     concat (map (\<lambda>context. map fst (filter (\<lambda>(port, clientKey). map_has (sessions_of port s) deviceId
       \<and> overNm (planeKeyForClient context deviceId clientKey)) (sessionsForContext context s)))
       (map_keys (bx_contexts s)))"

section \<open>The events of the bridge\<close>

datatype background_event = Disconnected string | Revoked string string

definition handleBackgroundEvent :: "nat \<Rightarrow> background_event \<Rightarrow> 'r bridge \<Rightarrow> 'r bridge" where
  "handleBackgroundEvent n e s =
     (case e of
        Disconnected d \<Rightarrow> fold (\<lambda>(i, c). reconcileFrameDevice (n + i) c d) (enumerate 0 (map_keys (bx_contexts s))) s
      | Revoked d origin \<Rightarrow>
          fold (\<lambda>(i, c). reconcileFrameDevice (n + i) c d)
            (enumerate 0 (map fst (filter (\<lambda>(_, x). fx_origin x = origin) (bx_contexts s)))) s)"

datatype 'r bridge_event =
    PagePort nat string "nat option" "string option"
  | PageMessage string string page_payload "nat option" nat
  | Resume nat "'r outcome"
  | FrameGone bool string
  | TablesCleared nat
  | BackgroundEvent nat background_event
  | AuthorityReset nat
  | LoopResumed nat

text \<open>The browser delivers a port once.\<close>

fun bridge_step :: "string \<Rightarrow> string \<Rightarrow> 'r bridge_event \<Rightarrow> 'r bridge \<Rightarrow> 'r bridge" where
  "bridge_step inst win (PagePort port origin frameId documentId) s =
     (if port_known port s then s else acceptPagePort inst port origin frameId documentId s)"
| "bridge_step inst win (PageMessage reqId action payload transferred port) s =
     (if (case transferred of Some p \<Rightarrow> port_known p s | None \<Rightarrow> False) then s
      else dispatchPortMessage win reqId action payload transferred port s)"
| "bridge_step inst win (Resume n x) s = resume_request n x s"
| "bridge_step inst win (FrameGone close context) s = destroyFrameContext close context s"
| "bridge_step inst win (TablesCleared i) s = frame_tables_cleared i s"
| "bridge_step inst win (BackgroundEvent n e) s = handleBackgroundEvent n e s"
| "bridge_step inst win (AuthorityReset n) s = resetAuthorityState n s"
| "bridge_step inst win (LoopResumed n) s = resume_loop n s"

end
