(* ===== verification/Bridge_Identity.thy ===== *)
theory Bridge_Identity
  imports Bridge_Requests
begin

text \<open>
  Who is who in the bridge: the invariant of frame contexts and clients, kept by every event.
\<close>

section \<open>Identities\<close>

text \<open>The frame contexts and clients of a state: what the maps hold was made, no two ports are the same
  client, no port was made twice.\<close>

definition ident_inv :: "string \<Rightarrow> 'r bridge \<Rightarrow> bool" where
  "ident_inv inst s \<longleftrightarrow>
     (\<forall>p c. map_get (bx_portContext s) p = Some c \<longrightarrow>
        map_has (bx_contexts s) c \<and> p \<in> set (bx_clientPorts s)
        \<and> (\<exists>k. map_get (bx_clientKeys s) p = Some k \<and> ClientMade p c k \<in> set (bx_log s)))
     \<and> (\<forall>c x. map_get (bx_contexts s) c = Some x \<longrightarrow> ContextMade c (fx_origin x) (fx_port x) \<in> set (bx_log s))
     \<and> map_wf (bx_portContext s) \<and> map_wf (bx_contexts s)
     \<and> set (bx_clientPorts s) \<subseteq> set (map_keys (bx_portContext s))
     \<and> (\<forall>p c k c' k'. ClientMade p c k \<in> set (bx_log s) \<longrightarrow> ClientMade p c' k' \<in> set (bx_log s) \<longrightarrow> c' = c \<and> k' = k)
     \<and> (\<forall>p p' c k. ClientMade p c k \<in> set (bx_log s) \<longrightarrow> ClientMade p' c k \<in> set (bx_log s) \<longrightarrow> p' = p)
     \<and> (\<forall>p c k. ClientMade p c k \<in> set (bx_log s) \<longrightarrow>
          (\<exists>n \<le> bx_generation s. c = context_key inst n) \<and> (k = WINDOW \<or> (\<exists>n \<le> bx_generation s. k = worker_key n)))"

definition plain :: "bridge_log \<Rightarrow> bool" where
  "plain x \<longleftrightarrow> (case x of ContextMade _ _ _ \<Rightarrow> False | ClientMade _ _ _ \<Rightarrow> False | _ \<Rightarrow> True)"

lemma ident_note [simp]: "plain x \<Longrightarrow> ident_inv inst (bx_note x s) = ident_inv inst s"
proof -
  assume "plain x"
  then have "ClientMade p c k \<noteq> x" "ContextMade c k p \<noteq> x" for p c k by (auto simp: plain_def)
  then show ?thesis by (simp add: ident_inv_def bx_note_def)
qed

lemma plain_simps [simp]: "plain (AllowedAnswer p a b)" "plain (Forwarded q m)" "plain (OpenAnswered p a b)"
  "plain (CountPosted n)" "plain (CleanupPosted a b)" "plain (ClosePosted a b c d)" "plain (FrameDestroyedPosted a)"
  "plain (DisconnectPosted p a)"
  by (simp_all add: plain_def)

lemma ident_update [simp]:
  "ident_inv inst (s\<lparr>bx_sessions := a\<rparr>) = ident_inv inst s" "ident_inv inst (s\<lparr>bx_portOrigin := b\<rparr>) = ident_inv inst s"
  "ident_inv inst (s\<lparr>bx_requestPort := c\<rparr>) = ident_inv inst s" "ident_inv inst (s\<lparr>bx_requests := d\<rparr>) = ident_inv inst s"
  "ident_inv inst (s\<lparr>bx_tasks := e\<rparr>) = ident_inv inst s" "ident_inv inst (s\<lparr>bx_done := f\<rparr>) = ident_inv inst s"
  "ident_inv inst (s\<lparr>bx_replies := g\<rparr>) = ident_inv inst s" "ident_inv inst (s\<lparr>bx_loops := h\<rparr>) = ident_inv inst s"
  "ident_inv inst (s\<lparr>bx_dying := i\<rparr>) = ident_inv inst s" "ident_inv inst (s\<lparr>bx_planes := j\<rparr>) = ident_inv inst s"
  "ident_inv inst (s\<lparr>bx_workerPorts := k\<rparr>) = ident_inv inst s"
  by (simp_all add: ident_inv_def)

lemma ident_ops [simp]:
  "ident_inv inst (bx_plane x s) = ident_inv inst s" "ident_inv inst (session_set p d t s) = ident_inv inst s"
  "ident_inv inst (session_delete p d s) = ident_inv inst s" "ident_inv inst (post_count s) = ident_inv inst s"
  "ident_inv inst (replyToPage i r s) = ident_inv inst s" "ident_inv inst (bx_await q st s) = ident_inv inst s"
  by (simp_all add: bx_plane_def session_set_def session_delete_def post_count_def replyToPage_def bx_await_def
      split: option.split)

lemma ident_ops2 [simp]:
  "ident_inv inst (bx_finish q r s) = ident_inv inst s" "ident_inv inst (forward_request q nm s) = ident_inv inst s"
  "ident_inv inst (plane_for f q s) = ident_inv inst s" "ident_inv inst (delete_own_session q s) = ident_inv inst s"
  by (simp_all add: bx_finish_def forward_request_def plane_for_def delete_own_session_def Let_def split: option.split)

lemma ident_ops3 [simp]:
  "ident_inv inst (release_attempt nm q s) = ident_inv inst s"
  "ident_inv inst (discardFailedOpenDataPort q s) = ident_inv inst s"
  by (simp_all add: release_attempt_def discardFailedOpenDataPort_def Let_def split: option.split)

lemma ident_ops4 [simp]:
  "ident_inv inst (open_thrown q nm s) = ident_inv inst s"
  "ident_inv inst (reject_open q rp res nm s) = ident_inv inst s"
  by (simp_all add: open_thrown_def reject_open_def)

lemma ident_resume: "ident_inv inst s \<Longrightarrow> ident_inv inst (resume_request n x s)"
proof (cases "map_get (bx_tasks s) n")
  case (Some st)
  assume "ident_inv inst s"
  then have "ident_inv inst (s\<lparr>bx_tasks := map_delete (bx_tasks s) n\<rparr>)" by simp
  then have "ident_inv inst (resume_stage st x (s\<lparr>bx_tasks := map_delete (bx_tasks s) n\<rparr>))"
    by (induction st x "s\<lparr>bx_tasks := map_delete (bx_tasks s) n\<rparr>" rule: resume_stage.induct)
      (simp_all add: open_allowed_answered_def background_answered_def handleOpenSuccess_def Let_def split: option.split)
  with Some show ?thesis by (simp add: resume_request_def)
qed (simp add: resume_request_def)

lemma context_key_inj: "context_key inst m = context_key inst n \<longleftrightarrow> m = n"
  by (auto simp: context_key_def dest: show_nat_inj)

lemma worker_key_inj: "worker_key m = worker_key n \<longleftrightarrow> m = n" "worker_key n \<noteq> WINDOW"
  by (auto simp: worker_key_def WINDOW_def dest: show_nat_inj)

lemma nul_not_in_show_nat: "CHR 0x00 \<notin> set (show_nat n)"
proof
  assume "CHR 0x00 \<in> set (show_nat n)"
  from show_nat_digits [OF this] obtain d :: nat where d: "d < 10" "CHR 0x00 = char_of (48 + d)" by blast
  have "of_char (CHR 0x00 :: char) = (0 :: nat)" by simp
  moreover have "of_char (char_of (48 + d) :: char) = (48 + d :: nat)" using d(1) by (intro of_char_char_of_small) simp
  ultimately show False using d(2) by simp
qed

lemma known_port: "port_known p s \<longleftrightarrow> (\<exists>c k. ClientMade p c k \<in> set (bx_log s))"
proof -
  have "(case x of ClientMade q _ _ \<Rightarrow> q = p | _ \<Rightarrow> False) \<longleftrightarrow> (\<exists>c k. x = ClientMade p c k)" for x
    by (cases x) auto
  then show ?thesis by (auto simp: port_known_def)
qed

lemma ident_keys:
  assumes "ident_inv inst s" "ClientMade q c k \<in> set (bx_log s)"
  obtains n where "n \<le> bx_generation s" "c = context_key inst n"
    "k = WINDOW \<or> (\<exists>m \<le> bx_generation s. k = worker_key m)"
  using assms unfolding ident_inv_def by blast

lemma made_later:
  assumes "ident_inv inst s" "ClientMade q c k \<in> set (bx_log s)"
  shows "(\<exists>n \<le> bx_generation s + 1. c = context_key inst n) \<and> (k = WINDOW \<or> (\<exists>n \<le> bx_generation s + 1. k = worker_key n))"
proof -
  obtain n where n: "n \<le> bx_generation s" "c = context_key inst n"
    "k = WINDOW \<or> (\<exists>m \<le> bx_generation s. k = worker_key m)" by (rule ident_keys [OF assms])
  have "\<exists>n \<le> bx_generation s + 1. c = context_key inst n" using n(1,2) by (intro exI [of _ n]) simp
  moreover have "k = WINDOW \<or> (\<exists>n \<le> bx_generation s + 1. k = worker_key n)" 
  proof (cases "k = WINDOW")
    case False
    then obtain m where "m \<le> bx_generation s" "k = worker_key m" using n(3) by blast
    then have "\<exists>n \<le> bx_generation s + 1. k = worker_key n" by (intro exI [of _ m]) simp
    then show ?thesis ..
  qed simp
  ultimately show ?thesis ..
qed

lemma ident_create:
  assumes inv: "ident_inv inst s" and new: "\<not> port_known p s"
  shows "ident_inv inst (createFrameContext inst p origin f d s)"
proof -
  let ?c = "context_key inst (bx_generation s + 1)"
  have c: "?c \<noteq> c" if "ClientMade q c k \<in> set (bx_log s)" for q c k
    by (rule ident_keys [OF inv that]) (simp add: context_key_inj)
  have p: "ClientMade p c k \<notin> set (bx_log s)" for c k using new by (simp add: known_port)
  note made = made_later [OF inv]
  let ?t = "createFrameContext inst p origin f d s"
  have log: "ClientMade q c k \<in> set (bx_log ?t) \<longleftrightarrow> q = p \<and> c = ?c \<and> k = WINDOW \<or> ClientMade q c k \<in> set (bx_log s)" for q c k
    by (auto simp: createFrameContext_def Let_def bx_note_def)
  have old: "map_has (bx_contexts s) c \<and> q \<in> set (bx_clientPorts s)
      \<and> (\<exists>k. map_get (bx_clientKeys s) q = Some k \<and> ClientMade q c k \<in> set (bx_log s))"
    if "map_get (bx_portContext s) q = Some c" for q c
    using inv that by (simp add: ident_inv_def)
  have "\<forall>q c. map_get (bx_portContext ?t) q = Some c \<longrightarrow>
        map_has (bx_contexts ?t) c \<and> q \<in> set (bx_clientPorts ?t)
        \<and> (\<exists>k. map_get (bx_clientKeys ?t) q = Some k \<and> ClientMade q c k \<in> set (bx_log ?t))"
    using old by (auto simp: createFrameContext_def Let_def bx_note_def js_map_simps keys_map_set map_has_get set_set_add
        simp del: set_map split: if_splits)
  moreover have "\<forall>c x. map_get (bx_contexts ?t) c = Some x \<longrightarrow> ContextMade c (fx_origin x) (fx_port x) \<in> set (bx_log ?t)"
    using inv by (auto simp: ident_inv_def createFrameContext_def Let_def bx_note_def js_map_simps)
  moreover have "map_wf (bx_portContext ?t)" "map_wf (bx_contexts ?t)"
    "set (bx_clientPorts ?t) \<subseteq> set (map_keys (bx_portContext ?t))"
    using inv map_wf_set [of "bx_portContext s" p ?c] map_wf_set [of "bx_contexts s" ?c]
    by (auto simp: ident_inv_def createFrameContext_def Let_def bx_note_def js_map_simps simp del: set_map)
  moreover have "\<forall>q c k. ClientMade q c k \<in> set (bx_log ?t) \<longrightarrow>
      (\<exists>n \<le> bx_generation ?t. c = context_key inst n) \<and> (k = WINDOW \<or> (\<exists>n \<le> bx_generation ?t. k = worker_key n))"
  proof -
    have "bx_generation ?t = bx_generation s + 1" by (simp add: createFrameContext_def Let_def bx_note_def)
    then show ?thesis using made log by auto
  qed
  moreover have "\<forall>q c k c' k'. ClientMade q c k \<in> set (bx_log ?t) \<longrightarrow> ClientMade q c' k' \<in> set (bx_log ?t) \<longrightarrow> c' = c \<and> k' = k"
    using inv p unfolding log ident_inv_def by blast
  moreover have "\<forall>q q' c k. ClientMade q c k \<in> set (bx_log ?t) \<longrightarrow> ClientMade q' c k \<in> set (bx_log ?t) \<longrightarrow> q' = q"
    using inv c unfolding log ident_inv_def by blast
  ultimately show ?thesis unfolding ident_inv_def by blast
qed

lemma ident_worker:
  assumes inv: "ident_inv inst s" and new: "\<not> port_known p s"
  shows "ident_inv inst (handleWorkerPortRequest i (Some p) port s)"
proof (cases "map_get (bx_portContext s) port")
  case (Some c0)
  let ?k = "worker_key (bx_generation s + 1)"
  let ?t = "handleWorkerPortRequest i (Some p) port s"
  obtain k0 where c0: "map_has (bx_contexts s) c0" "ClientMade port c0 k0 \<in> set (bx_log s)"
    using inv Some unfolding ident_inv_def by blast
  have k: "?k \<noteq> k" if "ClientMade q c k \<in> set (bx_log s)" for q c k
    by (rule ident_keys [OF inv that]) (auto simp: worker_key_inj)
  have p: "ClientMade p c k \<notin> set (bx_log s)" for c k using new by (simp add: known_port)
  note made = made_later [OF inv]
  have log: "ClientMade q c k \<in> set (bx_log ?t) \<longleftrightarrow> q = p \<and> c = c0 \<and> k = ?k \<or> ClientMade q c k \<in> set (bx_log s)" for q c k
    using Some by (auto simp: handleWorkerPortRequest_def frameContextForPort_def Let_def bx_note_def)
  have old: "map_has (bx_contexts s) c \<and> q \<in> set (bx_clientPorts s)
      \<and> (\<exists>k. map_get (bx_clientKeys s) q = Some k \<and> ClientMade q c k \<in> set (bx_log s))"
    if "map_get (bx_portContext s) q = Some c" for q c
    using inv that by (simp add: ident_inv_def)
  have "\<forall>q c. map_get (bx_portContext ?t) q = Some c \<longrightarrow>
        map_has (bx_contexts ?t) c \<and> q \<in> set (bx_clientPorts ?t)
        \<and> (\<exists>k. map_get (bx_clientKeys ?t) q = Some k \<and> ClientMade q c k \<in> set (bx_log ?t))"
    using old Some c0
    by (auto simp: handleWorkerPortRequest_def frameContextForPort_def Let_def bx_note_def js_map_simps set_set_add
        simp del: set_map split: if_splits)
  moreover have "\<forall>c x. map_get (bx_contexts ?t) c = Some x \<longrightarrow> ContextMade c (fx_origin x) (fx_port x) \<in> set (bx_log ?t)"
    using inv Some by (auto simp: ident_inv_def handleWorkerPortRequest_def frameContextForPort_def Let_def bx_note_def)
  moreover have "map_wf (bx_portContext ?t)" "map_wf (bx_contexts ?t)"
    "set (bx_clientPorts ?t) \<subseteq> set (map_keys (bx_portContext ?t))"
    using inv Some map_wf_set [of "bx_portContext s" p c0]
    by (auto simp: ident_inv_def handleWorkerPortRequest_def frameContextForPort_def Let_def bx_note_def js_map_simps
        simp del: set_map)
  moreover have "\<forall>q c k. ClientMade q c k \<in> set (bx_log ?t) \<longrightarrow>
      (\<exists>n \<le> bx_generation ?t. c = context_key inst n) \<and> (k = WINDOW \<or> (\<exists>n \<le> bx_generation ?t. k = worker_key n))"
  proof -
    have "bx_generation ?t = bx_generation s + 1"
      using Some by (simp add: handleWorkerPortRequest_def frameContextForPort_def Let_def bx_note_def)
    then show ?thesis using made [OF c0(2)] made log by auto
  qed
  moreover have "\<forall>q c k c' k'. ClientMade q c k \<in> set (bx_log ?t) \<longrightarrow> ClientMade q c' k' \<in> set (bx_log ?t) \<longrightarrow> c' = c \<and> k' = k"
    using inv p unfolding log ident_inv_def by blast
  moreover have "\<forall>q q' c k. ClientMade q c k \<in> set (bx_log ?t) \<longrightarrow> ClientMade q' c k \<in> set (bx_log ?t) \<longrightarrow> q' = q"
    using inv k unfolding log ident_inv_def by blast
  ultimately show ?thesis unfolding ident_inv_def by blast
qed (simp add: handleWorkerPortRequest_def frameContextForPort_def assms)

lemma in_sessionsForContext:
  "(p, k) \<in> set (sessionsForContext c s) \<longleftrightarrow>
   (p, c) \<in> set (bx_portContext s) \<and> p \<in> set (bx_clientPorts s) \<and> map_get (bx_clientKeys s) p = Some k"
proof
  assume "(p, k) \<in> set (sessionsForContext c s)"
  then show "(p, c) \<in> set (bx_portContext s) \<and> p \<in> set (bx_clientPorts s) \<and> map_get (bx_clientKeys s) p = Some k"
    by (auto simp: sessionsForContext_def context_client_def split: option.splits if_splits)
next
  assume R: "(p, c) \<in> set (bx_portContext s) \<and> p \<in> set (bx_clientPorts s) \<and> map_get (bx_clientKeys s) p = Some k"
  then have "(p, k) \<in> set (context_client s c (p, c))" by (simp add: context_client_def)
  with R show "(p, k) \<in> set (sessionsForContext c s)" unfolding sessionsForContext_def by fastforce
qed

lemma client_ports_of_context:
  assumes "ident_inv inst s" "map_get (bx_portContext s) p = Some c"
  shows "p \<in> set (map fst (sessionsForContext c s))"
proof -
  obtain k where "p \<in> set (bx_clientPorts s)" "map_get (bx_clientKeys s) p = Some k"
    using assms unfolding ident_inv_def by blast
  with map_get_mem [OF assms(2)] have "(p, k) \<in> set (sessionsForContext c s)" by (simp add: in_sessionsForContext)
  then show ?thesis by force
qed

lemma map_get_filter_keys: "map_get (filter (\<lambda>e. fst e \<notin> A) m) k = (if k \<in> A then None else map_get m k)"
  by (induction m) auto

lemma ident_destroy:
  assumes "ident_inv inst s"
  shows "ident_inv inst (destroyFrameContext close c s)"
proof (cases "map_has (bx_contexts s) c")
  case True
  define gone where "gone = map fst (sessionsForContext c s)
    @ (case map_get (bx_workerPorts s) c of Some ps \<Rightarrow> ps | None \<Rightarrow> [])"
  define s1 where "s1 = s\<lparr>bx_contexts := map_delete (bx_contexts s) c,
     bx_portContext := filter (\<lambda>e. fst e \<notin> set gone) (bx_portContext s),
     bx_clientPorts := filter (\<lambda>p. p \<notin> set gone) (bx_clientPorts s),
     bx_clientKeys := filter (\<lambda>e. fst e \<notin> set gone) (bx_clientKeys s)\<rparr>"
  have other: "c' \<noteq> c" if "map_get (bx_portContext s) p = Some c'" "p \<notin> set gone" for p c'
    using client_ports_of_context [OF assms, of p c] that by (auto simp: gone_def)
  have old: "map_has (bx_contexts s) c' \<and> p \<in> set (bx_clientPorts s)
      \<and> (\<exists>k. map_get (bx_clientKeys s) p = Some k \<and> ClientMade p c' k \<in> set (bx_log s))"
    if "map_get (bx_portContext s) p = Some c'" for p c'
    using assms that unfolding ident_inv_def by blast
  have "\<forall>p c'. map_get (bx_portContext s1) p = Some c' \<longrightarrow> map_has (bx_contexts s1) c' \<and> p \<in> set (bx_clientPorts s1)
        \<and> (\<exists>k. map_get (bx_clientKeys s1) p = Some k \<and> ClientMade p c' k \<in> set (bx_log s1))"
  proof (intro allI impI)
    fix p c'
    assume "map_get (bx_portContext s1) p = Some c'"
    then have p: "map_get (bx_portContext s) p = Some c'" "p \<notin> set gone"
      by (simp_all add: s1_def map_get_filter_keys split: if_splits)
    from old [OF p(1)] other [OF p] p(2) show "map_has (bx_contexts s1) c' \<and> p \<in> set (bx_clientPorts s1)
        \<and> (\<exists>k. map_get (bx_clientKeys s1) p = Some k \<and> ClientMade p c' k \<in> set (bx_log s1))"
      by (simp add: s1_def map_get_filter_keys keys_map_delete del: set_map)
  qed
  moreover have "\<forall>c x. map_get (bx_contexts s1) c = Some x \<longrightarrow> ContextMade c (fx_origin x) (fx_port x) \<in> set (bx_log s1)"
    using assms by (auto simp: s1_def ident_inv_def js_map_simps)
  moreover have "map_wf (bx_portContext s1)" "map_wf (bx_contexts s1)"
    using assms map_wf_filter map_wf_delete by (auto simp: s1_def ident_inv_def)
  moreover have "set (bx_clientPorts s1) \<subseteq> set (map_keys (bx_portContext s1))"
  proof
    fix p assume "p \<in> set (bx_clientPorts s1)"
    then have p: "p \<in> set (bx_clientPorts s)" "p \<notin> set gone" by (simp_all add: s1_def)
    then obtain c' where "(p, c') \<in> set (bx_portContext s)" using assms by (auto simp: ident_inv_def)
    with p have "(p, c') \<in> set (bx_portContext s1)" by (simp add: s1_def)
    then show "p \<in> set (map_keys (bx_portContext s1))" by force
  qed
  moreover have log: "bx_log s1 = bx_log s" "bx_generation s1 = bx_generation s" by (simp_all add: s1_def)
  ultimately have s1: "ident_inv inst s1"
    using assms [unfolded ident_inv_def] unfolding ident_inv_def log by (elim conjE) (intro conjI, assumption+)
  have "ident_inv inst (s1\<lparr>bx_portOrigin := a, bx_requestPort := b, bx_workerPorts := d, bx_dying := e\<rparr>)" for a b d e
    using s1 by simp
  then show ?thesis using True
    unfolding destroyFrameContext_def Let_def gone_def [symmetric] by (simp add: s1_def)
qed (simp add: destroyFrameContext_def assms)

lemma ident_loop_advance: "ident_inv inst (snd (loop_advance l s)) = ident_inv inst s"
proof (induction l s rule: loop_advance.induct)
  case (1 l s)
  show ?case
    using 1 by (subst loop_advance.simps) (auto simp: Let_def split: list.split)
qed

lemma ident_run_loop [simp]: "ident_inv inst (run_loop n l s) = ident_inv inst s"
  using ident_loop_advance [of inst l s] by (auto simp: run_loop_def split: prod.split option.split)

lemma ident_reconcile [simp]: "ident_inv inst (reconcileFrameDevice n c d s) = ident_inv inst s"
  by (simp add: reconcileFrameDevice_def Let_def)

lemma ident_fold_reconcile:
  "ident_inv inst (fold (\<lambda>(i, c). reconcileFrameDevice (n + i) c d) ics s) = ident_inv inst s"
  by (induction ics arbitrary: s) (auto simp: split_beta)

lemma ident_generic: "ident_inv inst (handleGenericRequest w i a d p s) = ident_inv inst s"
  by (simp add: handleGenericRequest_def Let_def)

lemma ident_step: "ident_inv inst s \<Longrightarrow> ident_inv inst (bridge_step inst win e s)"
proof (cases e)
  case (PageMessage i a d tr p)
  assume inv: "ident_inv inst s"
  have q: "ident_inv inst (s\<lparr>bx_requestPort := m\<rparr>)" for m using inv by simp
  show ?thesis
  proof (cases tr)
    case None
    have "handleWorkerPortRequest i None p t = t" for t :: "'a bridge" by (simp add: handleWorkerPortRequest_def)
    with PageMessage None q show ?thesis
      by (simp add: dispatchPortMessage_def Let_def ident_generic)
  next
    case (Some t)
    have "\<not> port_known t s \<Longrightarrow> \<not> port_known t (s\<lparr>bx_requestPort := m\<rparr>)" for m by (simp add: port_known_def)
    with PageMessage Some q inv ident_worker [OF q] show ?thesis
      by (simp add: dispatchPortMessage_def Let_def ident_generic)
  qed
qed (simp_all add: ident_create acceptPagePort_def Let_def ident_resume ident_destroy frame_tables_cleared_def
    handleBackgroundEvent_def ident_fold_reconcile resetAuthorityState_def resume_loop_def split: option.split
    background_event.split list.split)

end
