(* ===== verification/Bridge_Safety.thy ===== *)
theory Bridge_Safety
  imports Bridge_Identity
begin

text \<open>
  What the bridge guarantees of the requests of pages: which reach the background and what they
  carry, whose the session tokens are, and that every request is handled once.
\<close>

section \<open>Requests\<close>

definition req_ok :: "bridge_log set \<Rightarrow> page_request \<Rightarrow> bool" where
  "req_ok L q \<longleftrightarrow>
     pq_action q \<notin> set PAGE_BLOCKED_ACTIONS
     \<and> (\<forall>c. pq_context q = Some c \<longrightarrow> (\<exists>port. ContextMade c (pq_origin q) port \<in> L))
     \<and> (\<forall>k. pq_client q = Some k \<longrightarrow> (\<exists>c. pq_context q = Some c \<and> ClientMade (pq_port q) c k \<in> L))
     \<and> (pq_action q = ''open'' \<or> pq_action q = ''close'' \<longrightarrow> pq_client q \<noteq> None)"

definition requested_device :: "page_request \<Rightarrow> string" where
  "requested_device q = (case pq_deviceId q of Some d \<Rightarrow> d | None \<Rightarrow> [])"

definition held_token :: "bridge_log set \<Rightarrow> page_request \<Rightarrow> string option \<Rightarrow> bool" where
  "held_token L q reserved \<longleftrightarrow>
     (\<forall>t. reserved = Some t \<longrightarrow>
       pq_action q = ''close'' \<and> (\<exists>d. pq_deviceId q = Some d \<and> OpenAnswered (pq_port q) d t \<in> L))"

fun entry_ok :: "bridge_log set \<Rightarrow> bridge_log \<Rightarrow> bool" where
  "entry_ok L (Forwarded q m) \<longleftrightarrow>
     req_ok L q \<and> (\<exists>reserved. m = forwarded_message q reserved \<and> held_token L q reserved)
     \<and> (pq_action q = ''open'' \<longrightarrow> AllowedAnswer (pq_port q) (pq_origin q) (requested_device q) \<in> L)"
| "entry_ok L (OpenAnswered p d t) \<longleftrightarrow>
     t \<noteq> [] \<and> (\<exists>q m. Forwarded q m \<in> L \<and> pq_port q = p \<and> map_get m ''action'' = Some (Some ''open''))"
| "entry_ok L _ \<longleftrightarrow> True"

fun stage_ok :: "bridge_log set \<Rightarrow> 'r stage \<Rightarrow> bool" where
  "stage_ok L (OpenSettings q) \<longleftrightarrow> req_ok L q \<and> pq_action q = ''open''"
| "stage_ok L (OpenAllowed q) \<longleftrightarrow> req_ok L q \<and> pq_action q = ''open''"
| "stage_ok L (Responding q reserved nm) \<longleftrightarrow>
     Forwarded q (forwarded_message q reserved) \<in> L \<and> held_token L q reserved"
| "stage_ok L _ \<longleftrightarrow> True"

definition work_inv :: "'r bridge \<Rightarrow> bool" where
  "work_inv s \<longleftrightarrow>
     (\<forall>x \<in> set (bx_log s). entry_ok (set (bx_log s)) x)
     \<and> (\<forall>e \<in> set (bx_tasks s). stage_ok (set (bx_log s)) (snd e))
     \<and> (\<forall>p d t. map_get (sessions_of p s) d = Some t \<longrightarrow> OpenAnswered p d t \<in> set (bx_log s))"

lemma object_assign_get:
  "map_get (object_assign m kvs) k = (case map_get (rev kvs) k of None \<Rightarrow> map_get m k | Some v \<Rightarrow> Some v)"
  by (induction kvs arbitrary: m)
    (auto simp: object_assign_def js_map_simps map_add_def split: option.split)

definition stamped_names :: "string set" where
  "stamped_names = {''action'', ''origin'', ''frameKey'', ''clientKey''}"

lemma forwarded_stamped:
  "map_get (forwarded_message q reserved) ''action'' = Some (Some (effective_action (pq_action q)))"
  "map_get (forwarded_message q reserved) ''origin'' = Some (Some (pq_origin q))"
  "map_get (forwarded_message q reserved) ''frameKey'' = Some (pq_context q)"
  "map_get (forwarded_message q reserved) ''clientKey'' = Some (pq_client q)"
  by (simp_all add: forwarded_message_def Let_def object_assign_get stamped_fields_def js_map_simps split: option.split)

definition payload_field :: "page_request \<Rightarrow> string \<Rightarrow> string option" where
  "payload_field q k = Option.bind (pq_payload q) (\<lambda>kvs. map_get kvs k)"

lemma forwarded_copied:
  assumes "k \<notin> stamped_names" "k \<noteq> ''T'' \<or> reserved = None"
  shows "map_get (forwarded_message q reserved) k = map_option Some (payload_field q k)"
proof -
  have "map_get (map (\<lambda>(k, v). (k, Some v)) kvs) k = map_option Some (map_get kvs k)" for kvs :: "(string, string) js_map"
    by (induction kvs) auto
  with assms show ?thesis
    by (auto simp: forwarded_message_def Let_def object_assign_get stamped_fields_def stamped_names_def payload_field_def
        js_map_simps split: option.split)
qed

lemma forwarded_token: "map_get (forwarded_message q (Some t)) ''T'' = Some (Some t)"
  by (simp add: forwarded_message_def Let_def js_map_simps)

lemma req_ok_mono: "req_ok L q \<Longrightarrow> L \<subseteq> M \<Longrightarrow> req_ok M q"
  unfolding req_ok_def by blast

lemma held_token_mono: "held_token L q r \<Longrightarrow> L \<subseteq> M \<Longrightarrow> held_token M q r"
  unfolding held_token_def by blast

lemma entry_ok_mono: "entry_ok L x \<Longrightarrow> L \<subseteq> M \<Longrightarrow> entry_ok M x"
  using req_ok_mono held_token_mono by (cases x) (simp_all, blast+)

lemma stage_ok_mono: "stage_ok L st \<Longrightarrow> L \<subseteq> M \<Longrightarrow> stage_ok M st"
  using req_ok_mono held_token_mono by (cases st) (simp_all, blast+)

lemma work_note:
  assumes "work_inv s" "entry_ok (set (bx_log s)) x"
  shows "work_inv (bx_note x s)"
proof -
  have sub: "set (bx_log s) \<subseteq> set (bx_log (bx_note x s))" by (auto simp: bx_note_def)
  have "sessions_of p (bx_note x s) = sessions_of p s" for p by (simp add: sessions_of_def bx_note_def)
  moreover have "\<forall>y \<in> set (bx_log (bx_note x s)). entry_ok (set (bx_log (bx_note x s))) y"
    using assms entry_ok_mono [OF _ sub] by (auto simp: work_inv_def bx_note_def)
  moreover have "\<forall>e \<in> set (bx_tasks s). stage_ok (set (bx_log (bx_note x s))) (snd e)"
    using assms(1) stage_ok_mono [OF _ sub] unfolding work_inv_def by blast
  ultimately show ?thesis using assms(1) sub unfolding work_inv_def by (auto simp: bx_note_def)
qed

lemma sessions_of_update [simp]:
  "sessions_of p (s\<lparr>bx_tasks := a\<rparr>) = sessions_of p s" "sessions_of p (s\<lparr>bx_done := b\<rparr>) = sessions_of p s"
  "sessions_of p (s\<lparr>bx_replies := c\<rparr>) = sessions_of p s" "sessions_of p (s\<lparr>bx_requestPort := d\<rparr>) = sessions_of p s"
  "sessions_of p (s\<lparr>bx_requests := e\<rparr>) = sessions_of p s" "sessions_of p (s\<lparr>bx_planes := f\<rparr>) = sessions_of p s"
  "sessions_of p (s\<lparr>bx_loops := g\<rparr>) = sessions_of p s" "sessions_of p (s\<lparr>bx_log := h\<rparr>) = sessions_of p s"
  "sessions_of p (s\<lparr>bx_dying := i\<rparr>) = sessions_of p s" "sessions_of p (s\<lparr>bx_contexts := j\<rparr>) = sessions_of p s"
  "sessions_of p (s\<lparr>bx_portContext := k\<rparr>) = sessions_of p s" "sessions_of p (s\<lparr>bx_clientPorts := l\<rparr>) = sessions_of p s"
  "sessions_of p (s\<lparr>bx_clientKeys := m\<rparr>) = sessions_of p s" "sessions_of p (s\<lparr>bx_portOrigin := n\<rparr>) = sessions_of p s"
  "sessions_of p (s\<lparr>bx_workerPorts := o'\<rparr>) = sessions_of p s" "sessions_of p (s\<lparr>bx_generation := q\<rparr>) = sessions_of p s"
  by (simp_all add: sessions_of_def)

lemma work_update [simp]:
  "work_inv (s\<lparr>bx_done := b\<rparr>) = work_inv s" "work_inv (s\<lparr>bx_replies := c\<rparr>) = work_inv s"
  "work_inv (s\<lparr>bx_requestPort := d\<rparr>) = work_inv s" "work_inv (s\<lparr>bx_requests := e\<rparr>) = work_inv s"
  "work_inv (s\<lparr>bx_planes := f\<rparr>) = work_inv s" "work_inv (s\<lparr>bx_loops := g\<rparr>) = work_inv s"
  "work_inv (s\<lparr>bx_dying := i\<rparr>) = work_inv s" "work_inv (s\<lparr>bx_contexts := j\<rparr>) = work_inv s"
  "work_inv (s\<lparr>bx_portContext := k\<rparr>) = work_inv s" "work_inv (s\<lparr>bx_clientPorts := l\<rparr>) = work_inv s"
  "work_inv (s\<lparr>bx_clientKeys := m\<rparr>) = work_inv s" "work_inv (s\<lparr>bx_portOrigin := n\<rparr>) = work_inv s"
  "work_inv (s\<lparr>bx_workerPorts := o'\<rparr>) = work_inv s" "work_inv (s\<lparr>bx_generation := q\<rparr>) = work_inv s"
  by (simp_all add: work_inv_def)

lemma sessions_of_set: "sessions_of p (session_set q d t s) = (if p = q then map_set (sessions_of q s) d t else sessions_of p s)"
  "sessions_of p (session_delete q d s) = (if p = q then map_delete (sessions_of q s) d else sessions_of p s)"
  by (auto simp: sessions_of_def session_set_def session_delete_def js_map_simps)

lemma log_sessions [simp]: "bx_log (session_set q d t s) = bx_log s" "bx_log (session_delete q d s) = bx_log s"
  "bx_tasks (session_set q d t s) = bx_tasks s" "bx_tasks (session_delete q d s) = bx_tasks s"
  by (simp_all add: session_set_def session_delete_def)

lemma work_session_delete: "work_inv s \<Longrightarrow> work_inv (session_delete p d s)"
  by (auto simp: work_inv_def sessions_of_set js_map_simps split: if_splits)

lemma work_session_set:
  "work_inv s \<Longrightarrow> OpenAnswered p d t \<in> set (bx_log s) \<Longrightarrow> work_inv (session_set p d t s)"
  by (auto simp: work_inv_def sessions_of_set js_map_simps split: if_splits)

lemma work_await: "work_inv s \<Longrightarrow> stage_ok (set (bx_log s)) st \<Longrightarrow> work_inv (bx_await q st s)"
  by (auto simp: work_inv_def bx_await_def)

lemma work_ops [simp]:
  "work_inv (bx_plane x s) = work_inv s" "work_inv (replyToPage i r s) = work_inv s"
  "work_inv (bx_finish q r s) = work_inv s" "work_inv (plane_for f q s) = work_inv s"
  "work_inv (release_attempt nm q s) = work_inv s" "work_inv (discardFailedOpenDataPort q s) = work_inv s"
  by (simp_all add: bx_plane_def replyToPage_def bx_finish_def plane_for_def release_attempt_def
      discardFailedOpenDataPort_def Let_def split: option.split)

lemma log_ops [simp]:
  "bx_log (bx_plane x s) = bx_log s" "bx_log (plane_for f q s) = bx_log s"
  "bx_log (release_attempt nm q s) = bx_log s" "bx_log (delete_own_session q s) = bx_log s"
  "bx_log (bx_await q st s) = bx_log s" "bx_log (bx_note y s) = bx_log s @ [y]"
  by (simp_all add: bx_plane_def plane_for_def release_attempt_def delete_own_session_def bx_await_def bx_note_def
      split: option.split)

lemma work_delete_own: "work_inv s \<Longrightarrow> work_inv (delete_own_session q s)"
  by (simp add: delete_own_session_def work_session_delete split: option.split)

lemma work_post_count: "work_inv s \<Longrightarrow> work_inv (post_count s)"
  by (simp add: post_count_def work_note)

lemma work_forward:
  assumes "work_inv s" "req_ok (set (bx_log s)) q"
    "pq_action q = ''open'' \<Longrightarrow> AllowedAnswer (pq_port q) (pq_origin q) (requested_device q) \<in> set (bx_log s)"
  shows "work_inv (forward_request q nm s)"
proof -
  define reserved where "reserved = reserved_token q s"
  have held: "held_token (set (bx_log s)) q reserved"
    using assms(1) by (auto simp: held_token_def reserved_def reserved_token_def work_inv_def bind_eq_Some_conv
        split: if_splits option.splits)
  have "work_inv (bx_note (Forwarded q (forwarded_message q reserved)) s)"
    by (rule work_note [OF assms(1)]) (use assms held in auto)
  then have "work_inv (bx_await q (Responding q reserved nm) (bx_note (Forwarded q (forwarded_message q reserved)) s))"
    by (rule work_await) (use held_token_mono [OF held] in auto)
  then show ?thesis unfolding forward_request_def Let_def reserved_def [symmetric] .
qed

lemma req_new:
  assumes "ident_inv inst s" "pq_action (new_request w i a d p s) \<notin> set PAGE_BLOCKED_ACTIONS"
    "a = ''open'' \<or> a = ''close'' \<Longrightarrow> pq_client (new_request w i a d p s) \<noteq> None"
  shows "req_ok (set (bx_log s)) (new_request w i a d p s)"
proof -
  let ?q = "new_request w i a d p s"
  have pq: "pq_context ?q = map_get (bx_portContext s) p" "pq_port ?q = p" "pq_action ?q = a"
    "pq_client ?q = Option.bind (map_get (bx_portContext s) p) (\<lambda>c. clientForPort c p s)"
    by (simp_all add: new_request_def Let_def frameContextForPort_def)
  have "\<exists>port. ContextMade c (pq_origin ?q) port \<in> set (bx_log s)" if c: "pq_context ?q = Some c" for c
  proof -
    have "map_get (bx_portContext s) p = Some c" using c pq by simp
    then have "map_has (bx_contexts s) c" using assms(1) unfolding ident_inv_def by blast
    then obtain x where x: "map_get (bx_contexts s) c = Some x" by (rule map_keysE)
    then have "pq_origin ?q = fx_origin x" using c pq by (simp add: new_request_def Let_def frameContextForPort_def)
    with x assms(1) show ?thesis unfolding ident_inv_def by metis
  qed
  moreover have "\<exists>c. pq_context ?q = Some c \<and> ClientMade (pq_port ?q) c k \<in> set (bx_log s)" if k: "pq_client ?q = Some k" for k
  proof -
    obtain c where c: "map_get (bx_portContext s) p = Some c" "clientForPort c p s = Some k"
      using k pq by (auto simp: bind_eq_Some_conv)
    then obtain k' where "map_get (bx_clientKeys s) p = Some k'" "ClientMade p c k' \<in> set (bx_log s)"
      using assms(1) unfolding ident_inv_def by blast
    with c pq show ?thesis by (simp add: clientForPort_def split: if_splits)
  qed
  ultimately show ?thesis using assms(2,3) pq unfolding req_ok_def by simp
qed

lemma work_generic:
  assumes "ident_inv inst s" "work_inv s"
  shows "work_inv (handleGenericRequest w i a d p s)"
proof -
  let ?q = "new_request w i a d p s"
  let ?s = "s\<lparr>bx_requests := bx_requests s + 1\<rparr>"
  have a: "pq_action ?q = a" by (simp add: new_request_def Let_def)
  show ?thesis
  proof (cases "a \<in> set PAGE_BLOCKED_ACTIONS \<or> (a = ''open'' \<or> a = ''close'') \<and> (pq_context ?q = None \<or> pq_client ?q = None)")
    case True
    then show ?thesis using assms(2) by (auto simp: handleGenericRequest_def Let_def)
  next
    case False
    then have ok: "req_ok (set (bx_log s)) ?q" using req_new [OF assms(1), of w i a d p] a by auto
    then have "work_inv (bx_await ?q (OpenSettings ?q) ?s)" if "a = ''open''"
      using assms(2) a that by (intro work_await) simp_all
    moreover have "work_inv (forward_request ?q False ?s)" if "a \<noteq> ''open''"
      using assms(2) a that ok by (intro work_forward) simp_all
    ultimately show ?thesis using False by (auto simp: handleGenericRequest_def Let_def)
  qed
qed

lemma stage_trivial [simp]: "stage_ok L (FailedPlane q r x nm)" "stage_ok L (FailedCleanup q x nm)"
  "stage_ok L (OpenPlane q r nm)" "stage_ok L (CloseDespawn q r)"
  by simp_all

lemma work_reject: "work_inv s \<Longrightarrow> work_inv (reject_open q r x nm s)"
  by (simp add: reject_open_def work_await work_delete_own)

lemma work_open_thrown: "work_inv s \<Longrightarrow> work_inv (open_thrown q nm s)"
  by (simp add: open_thrown_def work_delete_own)

lemma work_open_success:
  assumes "work_inv s" "Forwarded q m \<in> set (bx_log s)" "map_get m ''action'' = Some (Some ''open'')" "rp_t r \<noteq> []"
  shows "work_inv (handleOpenSuccess q r nm s)"
proof -
  have "work_inv (bx_note (OpenAnswered (pq_port q) (rp_i r) (rp_t r)) s)"
    by (rule work_note [OF assms(1)]) (use assms(2-4) in auto)
  then have "work_inv (session_set (pq_port q) (rp_i r) (rp_t r) (bx_note (OpenAnswered (pq_port q) (rp_i r) (rp_t r)) s))"
    by (rule work_session_set) simp
  then show ?thesis
    using work_reject [OF assms(1)] by (simp add: handleOpenSuccess_def work_await work_post_count)
qed

lemma work_answered:
  assumes "work_inv s" "stage_ok (set (bx_log s)) (Responding q reserved nm)"
  shows "work_inv (background_answered q reserved nm r s)"
proof -
  have f: "Forwarded q (forwarded_message q reserved) \<in> set (bx_log s)"
    and held: "held_token (set (bx_log s)) q reserved" using assms(2) by simp_all
  have "work_inv (handleOpenSuccess q r nm s)" if "pq_action q = ''open''" "rp_t r \<noteq> []"
    using work_open_success [OF assms(1) f] that by (simp add: forwarded_stamped effective_action_def)
  moreover have "work_inv (case (pq_deviceId q, reserved) of (Some d, Some token) \<Rightarrow> session_set (pq_port q) d token s | _ \<Rightarrow> s)"
    using held assms(1) work_session_set [OF assms(1)] by (auto simp: held_token_def split: option.split)
  ultimately show ?thesis
    using assms(1) by (simp add: background_answered_def work_await work_delete_own)
qed

lemma work_resume:
  assumes "work_inv s"
  shows "work_inv (resume_request n x s)"
proof (cases "map_get (bx_tasks s) n")
  case (Some st)
  let ?s = "s\<lparr>bx_tasks := map_delete (bx_tasks s) n\<rparr>"
  have s: "work_inv ?s" using assms by (auto simp: work_inv_def AList.delete_eq)
  have st: "stage_ok (set (bx_log ?s)) st" using assms map_get_mem [OF Some] by (auto simp: work_inv_def)
  have "work_inv (resume_stage st x ?s)"
    using s st
  proof (induction st x ?s rule: resume_stage.induct)
    case (2 q allowed overNm)
    let ?t = "bx_note (AllowedAnswer (pq_port q) (pq_origin q) (case pq_deviceId q of Some d \<Rightarrow> d | None \<Rightarrow> [])) ?s"
    have t: "work_inv ?t" by (rule work_note [OF 2(1)]) simp
    have "req_ok (set (bx_log ?t)) q" using 2(2) req_ok_mono [of "set (bx_log ?s)" q] by auto
    then have "work_inv (forward_request q overNm (if overNm then plane_for RetainAttempt q ?t else ?t))"
      using t by (intro work_forward) (auto simp: requested_device_def)
    with 2(1) t show ?case by (simp add: open_allowed_answered_def Let_def)
  qed (auto intro: work_await work_answered work_open_thrown work_reject work_note work_post_count
      simp del: stage_ok.simps(3) simp: work_post_count work_open_thrown work_reject work_await work_note)
  with Some show ?thesis by (simp add: resume_request_def)
qed (simp add: resume_request_def assms)

lemma work_loop_advance: "work_inv s \<Longrightarrow> work_inv (snd (loop_advance l s))"
proof (induction l s rule: loop_advance.induct)
  case (1 l s)
  show ?case
    using 1 by (subst loop_advance.simps) (auto simp: Let_def work_session_delete split: list.split)
qed

lemma work_run_loop: "work_inv s \<Longrightarrow> work_inv (run_loop n l s)"
  using work_loop_advance [of s l] by (auto simp: run_loop_def split: prod.split option.split)

lemma work_reconcile: "work_inv s \<Longrightarrow> work_inv (reconcileFrameDevice n c d s)"
  by (simp add: reconcileFrameDevice_def Let_def work_run_loop)

lemma work_fold_reconcile:
  "work_inv s \<Longrightarrow> work_inv (fold (\<lambda>(i, c). reconcileFrameDevice (n + i) c d) ics s)"
  by (induction ics arbitrary: s) (auto simp: split_beta work_reconcile)

lemma work_fresh_table:
  assumes "work_inv s"
  shows "work_inv (s\<lparr>bx_sessions := map_set (bx_sessions s) p []\<rparr>)"
  using assms by (auto simp: work_inv_def sessions_of_def js_map_simps split: option.splits)

lemma work_create: "work_inv s \<Longrightarrow> work_inv (createFrameContext inst p origin f d s)"
proof -
  assume "work_inv s"
  from work_fresh_table [OF this, of p] show ?thesis
    unfolding createFrameContext_def Let_def
    by (intro work_note) (simp_all, simp_all add: work_inv_def sessions_of_def)
qed

lemma work_worker: "work_inv s \<Longrightarrow> work_inv (handleWorkerPortRequest i t port s)"
proof -
  assume w: "work_inv s"
  have "work_inv (s\<lparr>bx_generation := n, bx_portContext := a, bx_clientPorts := b, bx_sessions := map_set (bx_sessions s) p [],
      bx_clientKeys := d, bx_workerPorts := e, bx_portOrigin := f, bx_replies := g\<rparr>)" for n a b p d e f g
    using work_fresh_table [OF w, of p] by (simp add: work_inv_def sessions_of_def)
  then show ?thesis
    using w by (auto simp: handleWorkerPortRequest_def Let_def work_note split: option.split)
qed

lemma work_cleared: "work_inv s \<Longrightarrow> work_inv (frame_tables_cleared i s)"
proof -
  assume w: "work_inv s"
  have get: "map_get (map (\<lambda>(p, m). (p, if p \<in> A then [] else m)) t) q = map_option (\<lambda>m. if q \<in> A then [] else m) (map_get t q)"
    for A q and t :: "(nat, (string, string) js_map) js_map"
    by (induction t) auto
  have "sessions_of q (s\<lparr>bx_sessions := map (\<lambda>(p, m). (p, if p \<in> A then [] else m)) (bx_sessions s)\<rparr>)
      = (if q \<in> A then [] else sessions_of q s)" for q A
    by (simp add: sessions_of_def get split: option.split)
  with w show ?thesis by (auto simp: frame_tables_cleared_def work_inv_def)
qed

lemma work_destroy: "work_inv s \<Longrightarrow> work_inv (destroyFrameContext close c s)"
  by (simp add: destroyFrameContext_def Let_def work_note)

lemma work_step:
  assumes "ident_inv inst s" "work_inv s"
  shows "work_inv (bridge_step inst win e s)"
proof (cases e)
  case (PageMessage i a d tr p)
  have "work_inv (s\<lparr>bx_requestPort := m\<rparr>)" "ident_inv inst (s\<lparr>bx_requestPort := m\<rparr>)" for m using assms by simp_all
  with PageMessage assms show ?thesis by (auto simp: dispatchPortMessage_def Let_def intro: work_worker work_generic)
next
  case (PagePort p origin f d)
  with work_create [OF assms(2)] assms(2) show ?thesis by (simp add: acceptPagePort_def Let_def)
next
  case (LoopResumed n)
  with assms(2) show ?thesis
    by (auto simp: resume_loop_def Let_def intro!: work_run_loop work_note split: option.split list.split)
qed (simp_all add: assms work_resume work_destroy work_cleared handleBackgroundEvent_def work_fold_reconcile
    resetAuthorityState_def work_run_loop split: background_event.split)

section \<open>Every request is handled once\<close>

definition busy_inv :: "nat list \<Rightarrow> 'r bridge \<Rightarrow> bool" where
  "busy_inv ns s \<longleftrightarrow> mset [0..<bx_requests s] = mset (map fst (bx_tasks s)) + mset (bx_done s) + mset ns"

lemma busy_fields:
  "bx_requests t = bx_requests s \<Longrightarrow> bx_tasks t = bx_tasks s \<Longrightarrow> bx_done t = bx_done s \<Longrightarrow> busy_inv ns t = busy_inv ns s"
  by (simp add: busy_inv_def)

lemma busy_ops [simp]:
  "busy_inv ns (bx_note x s) = busy_inv ns s" "busy_inv ns (bx_plane y s) = busy_inv ns s"
  "busy_inv ns (session_set p d t s) = busy_inv ns s" "busy_inv ns (session_delete p d s) = busy_inv ns s"
  "busy_inv ns (post_count s) = busy_inv ns s" "busy_inv ns (replyToPage i r s) = busy_inv ns s"
  "busy_inv ns (plane_for f q s) = busy_inv ns s" "busy_inv ns (release_attempt nm q s) = busy_inv ns s"
  "busy_inv ns (delete_own_session q s) = busy_inv ns s"
  by (rule busy_fields; simp add: bx_note_def bx_plane_def session_set_def session_delete_def post_count_def
      replyToPage_def plane_for_def release_attempt_def delete_own_session_def split: option.split)+

lemma busy_discard [simp]: "busy_inv ns (discardFailedOpenDataPort q s) = busy_inv ns s"
  by (simp add: discardFailedOpenDataPort_def Let_def split: option.split)

lemma busy_await [simp]: "busy_inv ns (bx_await q st s) = busy_inv (pq_no q # ns) s"
  by (simp add: busy_inv_def bx_await_def)

lemma busy_finish [simp]: "busy_inv ns (bx_finish q r s) = busy_inv (pq_no q # ns) s"
  by (simp add: bx_finish_def) (simp add: busy_inv_def)

lemma busy_forward [simp]: "busy_inv ns (forward_request q nm s) = busy_inv (pq_no q # ns) s"
  by (simp add: forward_request_def Let_def)

lemma busy_reject [simp]: "busy_inv ns (reject_open q r x nm s) = busy_inv (pq_no q # ns) s"
  by (simp add: reject_open_def)

lemma busy_thrown [simp]: "busy_inv ns (open_thrown q nm s) = busy_inv (pq_no q # ns) s"
  by (simp add: open_thrown_def)

primrec stage_request :: "'r stage \<Rightarrow> page_request" where
  "stage_request (OpenSettings q) = q"
| "stage_request (OpenAllowed q) = q"
| "stage_request (Responding q reserved nm) = q"
| "stage_request (OpenPlane q r nm) = q"
| "stage_request (FailedPlane q r x nm) = q"
| "stage_request (FailedCleanup q x nm) = q"
| "stage_request (CloseDespawn q r) = q"

text \<open>The tasks wait under their requests' own numbers.\<close>

definition tasks_inv :: "'r bridge \<Rightarrow> bool" where
  "tasks_inv s \<longleftrightarrow> (\<forall>e \<in> set (bx_tasks s). fst e = pq_no (stage_request (snd e)))"

lemma busy_stage:
  "busy_inv ns (resume_stage st x s) = busy_inv (pq_no (stage_request st) # ns) s"
  by (induction st x s rule: resume_stage.induct)
    (simp_all add: open_allowed_answered_def background_answered_def handleOpenSuccess_def Let_def split: option.split)

lemma tasks_fields: "bx_tasks t = bx_tasks s \<Longrightarrow> tasks_inv t = tasks_inv s"
  by (simp add: tasks_inv_def)

lemma tasks_ops [simp]:
  "tasks_inv (bx_note x s) = tasks_inv s" "tasks_inv (bx_plane y s) = tasks_inv s"
  "tasks_inv (session_set p d t s) = tasks_inv s" "tasks_inv (session_delete p d s) = tasks_inv s"
  "tasks_inv (post_count s) = tasks_inv s" "tasks_inv (replyToPage i r s) = tasks_inv s"
  "tasks_inv (plane_for f q s) = tasks_inv s" "tasks_inv (release_attempt nm q s) = tasks_inv s"
  "tasks_inv (delete_own_session q s) = tasks_inv s" "tasks_inv (bx_finish q z s) = tasks_inv s"
  by (rule tasks_fields; simp add: bx_note_def bx_plane_def session_set_def session_delete_def post_count_def
      replyToPage_def plane_for_def release_attempt_def delete_own_session_def bx_finish_def split: option.split)+

lemma tasks_discard [simp]: "tasks_inv (discardFailedOpenDataPort q s) = tasks_inv s"
  by (simp add: discardFailedOpenDataPort_def Let_def split: option.split)

lemma tasks_await [simp]: "stage_request st = q \<Longrightarrow> tasks_inv (bx_await q st s) = tasks_inv s"
  by (simp add: tasks_inv_def bx_await_def)

lemma tasks_composed [simp]:
  "tasks_inv (forward_request q nm s) = tasks_inv s" "tasks_inv (reject_open q r x nm s) = tasks_inv s"
  "tasks_inv (open_thrown q nm s) = tasks_inv s"
  by (simp_all add: forward_request_def reject_open_def open_thrown_def Let_def)

lemma tasks_stage: "tasks_inv (resume_stage st x s) = tasks_inv s"
  by (induction st x s rule: resume_stage.induct)
    (simp_all add: open_allowed_answered_def background_answered_def handleOpenSuccess_def Let_def split: option.split)

definition handled_inv :: "'r bridge \<Rightarrow> bool" where
  "handled_inv s \<longleftrightarrow> busy_inv [] s \<and> tasks_inv s"

lemma handled_fields:
  "bx_requests t = bx_requests s \<Longrightarrow> bx_tasks t = bx_tasks s \<Longrightarrow> bx_done t = bx_done s \<Longrightarrow> handled_inv t = handled_inv s"
  using busy_fields [of t s "[]"] tasks_fields [of t s] by (simp add: handled_inv_def)

lemma mset_delete_key:
  "distinct (map fst m) \<Longrightarrow> map_get m n = Some v \<Longrightarrow> mset (map fst m) = add_mset n (mset (map fst (map_delete m n)))"
proof (induction m)
  case (Cons e m)
  show ?case
  proof (cases "fst e = n")
    case True
    with Cons.prems have "map_delete m n = m" by (auto simp: delete_idem)
    with True Cons.prems show ?thesis by (cases e) (auto simp: AList.delete_eq)
  next
    case False
    with Cons show ?thesis by (cases e) (auto simp: AList.delete_eq)
  qed
qed simp

lemma handled_resume:
  assumes "handled_inv s"
  shows "handled_inv (resume_request n x s)"
proof (cases "map_get (bx_tasks s) n")
  case (Some st)
  let ?s = "s\<lparr>bx_tasks := map_delete (bx_tasks s) n\<rparr>"
  have n: "n = pq_no (stage_request st)"
    using assms map_get_mem [OF Some] by (auto simp: handled_inv_def tasks_inv_def)
  have eq: "mset [0..<bx_requests s] = mset (map fst (bx_tasks s) @ bx_done s)"
    using assms by (simp add: handled_inv_def busy_inv_def)
  have "distinct (map fst (bx_tasks s) @ bx_done s)" using mset_eq_imp_distinct_iff [OF eq] by simp
  then have "distinct (map fst (bx_tasks s))" by simp
  from mset_delete_key [OF this Some] have "busy_inv [n] ?s" using eq by (simp add: busy_inv_def)
  then have "busy_inv [] (resume_stage st x ?s)" unfolding busy_stage n .
  moreover have "tasks_inv ?s" using assms by (auto simp: handled_inv_def tasks_inv_def AList.delete_eq)
  then have "tasks_inv (resume_stage st x ?s)" unfolding tasks_stage .
  ultimately show ?thesis using Some by (simp add: resume_request_def handled_inv_def)
qed (simp add: resume_request_def assms)

lemma handled_generic:
  assumes "handled_inv s"
  shows "handled_inv (handleGenericRequest w i a d p s)"
proof -
  let ?q = "new_request w i a d p s" and ?s = "s\<lparr>bx_requests := bx_requests s + 1\<rparr>"
  have "pq_no ?q = bx_requests s" by (simp add: new_request_def Let_def)
  then have "busy_inv [pq_no ?q] ?s" "tasks_inv ?s"
    using assms by (simp_all add: handled_inv_def busy_inv_def tasks_inv_def atLeast0_lessThan_Suc)
  then show ?thesis by (auto simp: handleGenericRequest_def Let_def handled_inv_def)
qed

lemma handled_loop_advance: "handled_inv (snd (loop_advance l s)) = handled_inv s"
proof (induction l s rule: loop_advance.induct)
  case (1 l s)
  show ?case
    using 1 by (subst loop_advance.simps) (auto simp: Let_def handled_inv_def split: list.split)
qed

lemma handled_run_loop [simp]: "handled_inv (run_loop n l s) = handled_inv s"
proof -
  have "handled_inv (t\<lparr>bx_loops := x\<rparr>) = handled_inv t" for x and t :: "'a bridge" by (rule handled_fields) simp_all
  then show ?thesis
    using handled_loop_advance [of l s] by (auto simp: run_loop_def split: prod.split option.split)
qed

lemma handled_fold_reconcile:
  "handled_inv (fold (\<lambda>(i, c). reconcileFrameDevice (n + i) c d) ics s) = handled_inv s"
  by (induction ics arbitrary: s) (auto simp: split_beta reconcileFrameDevice_def Let_def)

lemma handled_step:
  assumes "handled_inv s"
  shows "handled_inv (bridge_step inst win e s)"
proof (cases e)
  case (PagePort p origin f d)
  have "handled_inv (acceptPagePort inst p origin f d s) = handled_inv s"
    by (rule handled_fields) (simp_all add: acceptPagePort_def createFrameContext_def Let_def bx_note_def)
  with PagePort assms show ?thesis by simp
next
  case (PageMessage i a d tr p)
  have q: "handled_inv (s\<lparr>bx_requestPort := m\<rparr>)" for m
    using assms handled_fields [of "s\<lparr>bx_requestPort := m\<rparr>" s] by simp
  have "handled_inv (handleWorkerPortRequest i tr p t) = handled_inv t" for t :: "'a bridge"
    by (rule handled_fields) (simp_all add: handleWorkerPortRequest_def Let_def bx_note_def split: option.split)
  with q PageMessage assms show ?thesis by (simp add: dispatchPortMessage_def Let_def handled_generic)
next
  case (FrameGone close c)
  have "handled_inv (destroyFrameContext close c s) = handled_inv s"
    by (rule handled_fields) (simp_all add: destroyFrameContext_def Let_def bx_note_def)
  with FrameGone assms show ?thesis by simp
next
  case (TablesCleared i)
  have "handled_inv (frame_tables_cleared i s) = handled_inv s"
    by (rule handled_fields) (simp_all add: frame_tables_cleared_def)
  with TablesCleared assms show ?thesis by simp
next
  case (LoopResumed n)
  have "handled_inv (s\<lparr>bx_loops := m\<rparr>)" for m using assms handled_fields [of "s\<lparr>bx_loops := m\<rparr>" s] by simp
  moreover have "handled_inv (bx_note x t) = handled_inv t" for x and t :: "'a bridge"
    by (rule handled_fields) (simp_all add: bx_note_def)
  ultimately show ?thesis using LoopResumed assms
    by (auto simp: resume_loop_def Let_def split: option.split list.split)
qed (simp_all add: assms handled_resume handleBackgroundEvent_def handled_fold_reconcile resetAuthorityState_def
    split: background_event.split)

section \<open>What a run of the bridge guarantees\<close>

definition bridge_inv :: "string \<Rightarrow> 'r bridge \<Rightarrow> bool" where
  "bridge_inv inst s \<longleftrightarrow> ident_inv inst s \<and> work_inv s \<and> handled_inv s"

lemma bridge_inv_run: "bridge_inv inst (fold (bridge_step inst win) es initial_bridge)"
proof (rule fold_invariant)
  show "bridge_inv inst initial_bridge"
    by (simp add: bridge_inv_def ident_inv_def work_inv_def handled_inv_def busy_inv_def tasks_inv_def initial_bridge_def
        sessions_of_def)
qed (simp add: bridge_inv_def ident_step work_step handled_step)

lemma held_close_token:
  assumes "bridge_inv inst s" "frameContextForPort (Some port) s = Some c" "clientForPort c port s = Some k"
    "map_get kvs ''deviceId'' = Some d" "map_get (sessions_of port s) d = Some t"
  shows "\<exists>q m. bx_log (bridge_step inst win (PageMessage i ''close'' (Some kvs) None port) s) = bx_log s @ [Forwarded q m]
    \<and> map_get m ''T'' = Some (Some t)"
proof -
  define s1 where "s1 = s\<lparr>bx_requestPort := map_set (bx_requestPort s) i port, bx_requests := bx_requests s + 1\<rparr>"
  define q where "q = new_request win i ''close'' (Some kvs) port (s\<lparr>bx_requestPort := map_set (bx_requestPort s) i port\<rparr>)"
  have c: "map_get (bx_portContext s) port = Some c" using assms(2) by (simp add: frameContextForPort_def)
  have q: "pq_action q = ''close''" "pq_deviceId q = Some d" "pq_port q = port" "pq_context q = Some c" "pq_client q = Some k"
    using assms(3,4) c by (simp_all add: q_def new_request_def Let_def frameContextForPort_def clientForPort_def split: if_splits)
  have "OpenAnswered port d t \<in> set (bx_log s)" using assms(1,5) unfolding bridge_inv_def work_inv_def by blast
  then have "entry_ok (set (bx_log s)) (OpenAnswered port d t)" using assms(1) unfolding bridge_inv_def work_inv_def by blast
  then have "t \<noteq> []" by simp
  then have r: "reserved_token q s1 = Some t"
    using assms(5) q by (simp add: reserved_token_def s1_def)
  have "bridge_step inst win (PageMessage i ''close'' (Some kvs) None port) s = forward_request q False s1"
    using q by (simp add: dispatchPortMessage_def Let_def handleGenericRequest_def OTHER_HANDLERS_def PAGE_BLOCKED_ACTIONS_def
        q_def [symmetric] s1_def)
  moreover have "bx_log (forward_request q False s1) = bx_log s @ [Forwarded q (forwarded_message q (Some t))]"
    unfolding forward_request_def Let_def r by (simp add: s1_def)
  ultimately have "bx_log (bridge_step inst win (PageMessage i ''close'' (Some kvs) None port) s)
      = bx_log s @ [Forwarded q (forwarded_message q (Some t))]" by (rule trans [OF arg_cong])
  with forwarded_token [of q t] show ?thesis by blast
qed

lemma held_close_case:
  assumes "bridge_inv inst s"
  shows "case (Option.bind (frameContextForPort (Some port) s) (\<lambda>c. clientForPort c port s),
               Option.bind (map_get kvs ''deviceId'') (map_get (sessions_of port s))) of
           (Some clientKey, Some t) \<Rightarrow>
             (\<exists>q m. bx_log (bridge_step inst win (PageMessage i ''close'' (Some kvs) None port) s) = bx_log s @ [Forwarded q m]
               \<and> map_get m ''T'' = Some (Some t))
         | _ \<Rightarrow> True"
proof (cases "frameContextForPort (Some port) s")
  case (Some c)
  show ?thesis
  proof (cases "clientForPort c port s")
    case k: (Some k)
    show ?thesis
    proof (cases "map_get kvs ''deviceId''")
      case d: (Some d)
      show ?thesis using held_close_token [OF assms Some k d] Some k d by (cases "map_get (sessions_of port s) d") simp_all
    qed (simp add: Some k)
  qed (simp add: Some)
qed simp

lemma entry_stamped:
  assumes "entry_ok L (Forwarded q m)"
  shows "pq_action q \<notin> set PAGE_BLOCKED_ACTIONS
      \<and> map_get m ''action'' = Some (Some (effective_action (pq_action q)))
      \<and> map_get m ''origin'' = Some (Some (pq_origin q))
      \<and> map_get m ''frameKey'' = Some (pq_context q) \<and> map_get m ''clientKey'' = Some (pq_client q)
      \<and> (\<forall>k. k \<in> {''action'', ''origin'', ''frameKey'', ''clientKey'', ''T''} \<or> map_get m k = map_option Some (payload_field q k))
      \<and> (map_get m ''T'' = map_option Some (payload_field q ''T'')
         \<or> pq_action q = ''close''
           \<and> (\<exists>d t. map_get m ''T'' = Some (Some t) \<and> pq_deviceId q = Some d \<and> OpenAnswered (pq_port q) d t \<in> L))
      \<and> (pq_context q = None \<or> (\<exists>c p. pq_context q = Some c \<and> ContextMade c (pq_origin q) p \<in> L))
      \<and> (pq_client q = None \<or> (\<exists>c k. pq_context q = Some c \<and> pq_client q = Some k \<and> ClientMade (pq_port q) c k \<in> L))
      \<and> (if pq_action q = ''open''
         then pq_client q \<noteq> None \<and> AllowedAnswer (pq_port q) (pq_origin q) (requested_device q) \<in> L else True)"
proof -
  obtain reserved where r: "req_ok L q" "m = forwarded_message q reserved" "held_token L q reserved"
      "pq_action q = ''open'' \<Longrightarrow> AllowedAnswer (pq_port q) (pq_origin q) (requested_device q) \<in> L"
    using assms by auto
  have "pq_context q = None \<or> (\<exists>c p. pq_context q = Some c \<and> ContextMade c (pq_origin q) p \<in> L)"
    "pq_client q = None \<or> (\<exists>c k. pq_context q = Some c \<and> pq_client q = Some k \<and> ClientMade (pq_port q) c k \<in> L)"
    using r(1) by (cases "pq_context q"; cases "pq_client q"; auto simp: req_ok_def)+
  moreover have "map_get m ''T'' = map_option Some (payload_field q ''T'')
      \<or> pq_action q = ''close''
        \<and> (\<exists>d t. map_get m ''T'' = Some (Some t) \<and> pq_deviceId q = Some d \<and> OpenAnswered (pq_port q) d t \<in> L)"
    using r(2,3) by (cases reserved) (auto simp: forwarded_copied stamped_names_def forwarded_token held_token_def)
  moreover have "k \<in> {''action'', ''origin'', ''frameKey'', ''clientKey'', ''T''} \<or> map_get m k = map_option Some (payload_field q k)" for k
    using forwarded_copied [of k reserved q] by (auto simp: r(2) stamped_names_def)
  moreover have "pq_action q \<notin> set PAGE_BLOCKED_ACTIONS" using r(1) by (simp add: req_ok_def)
  moreover have "if pq_action q = ''open''
      then pq_client q \<noteq> None \<and> AllowedAnswer (pq_port q) (pq_origin q) (requested_device q) \<in> L else True"
    using r(1,4) by (simp add: req_ok_def)
  ultimately show ?thesis using forwarded_stamped [of q reserved] unfolding r(2) by blast
qed

text \<open>C11: Every message the bridge forwards to the background for a page has, whatever the payload says,
  the origin and key of the frame context and the key of the client whose port it came on, and an
  action a page may use; the other fields are those of the payload; an open is forwarded only after
  the background allowed the device for that origin.  The token \<open>T\<close> of a message is the payload's
  own, except that a close of a client that holds a token for the device carries that token, which an
  open of that very client was answered with.\<close>

theorem page_requests_stamped:
  "let s = fold (bridge_step inst win) es initial_bridge; L = set (bx_log s)
   in {(q, m). Forwarded q m \<in> L}
      \<subseteq> {(q, m).
          pq_action q \<notin> set PAGE_BLOCKED_ACTIONS
          \<and> map_get m ''action'' = Some (Some (effective_action (pq_action q)))
          \<and> map_get m ''origin'' = Some (Some (pq_origin q))
          \<and> map_get m ''frameKey'' = Some (pq_context q) \<and> map_get m ''clientKey'' = Some (pq_client q)
          \<and> (\<forall>k. k \<in> {''action'', ''origin'', ''frameKey'', ''clientKey'', ''T''} \<or> map_get m k = map_option Some (payload_field q k))
          \<and> (map_get m ''T'' = map_option Some (payload_field q ''T'')
             \<or> pq_action q = ''close''
               \<and> (\<exists>d t. map_get m ''T'' = Some (Some t) \<and> pq_deviceId q = Some d \<and> OpenAnswered (pq_port q) d t \<in> L))
          \<and> (pq_context q = None \<or> (\<exists>c p. pq_context q = Some c \<and> ContextMade c (pq_origin q) p \<in> L))
          \<and> (pq_client q = None \<or> (\<exists>c k. pq_context q = Some c \<and> pq_client q = Some k \<and> ClientMade (pq_port q) c k \<in> L))
          \<and> (if pq_action q = ''open''
             then pq_client q \<noteq> None \<and> AllowedAnswer (pq_port q) (pq_origin q) (requested_device q) \<in> L else True)}
      \<and> (case (Option.bind (frameContextForPort (Some port) s) (\<lambda>c. clientForPort c port s),
               Option.bind (map_get kvs ''deviceId'') (map_get (sessions_of port s))) of
           (Some clientKey, Some t) \<Rightarrow>
             (\<exists>q m. bx_log (bridge_step inst win (PageMessage i ''close'' (Some kvs) None port) s) = bx_log s @ [Forwarded q m]
               \<and> map_get m ''T'' = Some (Some t))
         | _ \<Rightarrow> True)"
proof -
  define s :: "'a bridge" where "s = fold (bridge_step inst win) es initial_bridge"
  define L where "L = set (bx_log s)"
  have inv: "bridge_inv inst s" using bridge_inv_run [of inst win es] by (simp add: s_def)
  have "entry_ok L (Forwarded q m)" if "Forwarded q m \<in> L" for q m
    using inv that unfolding bridge_inv_def work_inv_def L_def by blast
  note stamped = entry_stamped [OF this]
  have sub: "{(q, m). Forwarded q m \<in> L} \<subseteq> {(q, m). P q m}" if "\<And>q m. Forwarded q m \<in> L \<Longrightarrow> P q m" for P
    using that by blast
  show ?thesis
    unfolding s_def [symmetric] L_def [symmetric] Let_def
    by (rule conjI [OF sub [OF stamped] held_close_case [OF inv]])
qed

text \<open>C12: A session token is in the table of a client only if the background answered an open of that
  very client with it; and no table of a client outlives its frame: the ports that are clients are
  those of contexts that are alive, each made once for its context and key.\<close>

theorem session_tokens_of_own_opens:
  "let s = fold (bridge_step inst win) es initial_bridge; L = set (bx_log s)
   in {(p, d, t). map_get (sessions_of p s) d = Some t}
        \<subseteq> {(p, d, t). OpenAnswered p d t \<in> L \<and> (\<exists>q m. Forwarded q m \<in> L \<and> pq_port q = p \<and> map_get m ''action'' = Some (Some ''open''))}
      \<and> set (bx_clientPorts s)
        \<subseteq> {p. \<exists>c k x. map_get (bx_portContext s) p = Some c \<and> map_get (bx_clientKeys s) p = Some k
              \<and> ClientMade p c k \<in> L \<and> map_get (bx_contexts s) c = Some x}"
proof -
  define s :: "'a bridge" where "s = fold (bridge_step inst win) es initial_bridge"
  have inv: "ident_inv inst s" "work_inv s" using bridge_inv_run [of inst win es] by (simp_all add: bridge_inv_def s_def)
  have "OpenAnswered p d t \<in> set (bx_log s) \<and> (\<exists>q m. Forwarded q m \<in> set (bx_log s) \<and> pq_port q = p \<and> map_get m ''action'' = Some (Some ''open''))"
    if "map_get (sessions_of p s) d = Some t" for p d t
  proof -
    have o: "OpenAnswered p d t \<in> set (bx_log s)" using inv(2) that unfolding work_inv_def by blast
    then have "entry_ok (set (bx_log s)) (OpenAnswered p d t)" using inv(2) unfolding work_inv_def by blast
    with o show ?thesis by simp
  qed
  moreover have "\<exists>c k x. map_get (bx_portContext s) p = Some c \<and> map_get (bx_clientKeys s) p = Some k
      \<and> ClientMade p c k \<in> set (bx_log s) \<and> map_get (bx_contexts s) c = Some x" if "p \<in> set (bx_clientPorts s)" for p
  proof -
    have "p \<in> set (map_keys (bx_portContext s))" using inv(1) that unfolding ident_inv_def by blast
    then obtain c where c: "map_get (bx_portContext s) p = Some c" by (rule map_keysE)
    then obtain k where k: "map_has (bx_contexts s) c" "map_get (bx_clientKeys s) p = Some k" "ClientMade p c k \<in> set (bx_log s)"
      using inv(1) unfolding ident_inv_def by blast
    from k(1) obtain x where "map_get (bx_contexts s) c = Some x" by (rule map_keysE)
    with c k show ?thesis by blast
  qed
  ultimately show ?thesis unfolding s_def [symmetric] Let_def by blast
qed

text \<open>C19: Two clients never share a data plane: with an instance id and a device id without NUL, the
  plane keys of a device are different for different client ports.\<close>

theorem client_planes_distinct:
  assumes "NUL \<notin> set inst" "NUL \<notin> set d"
  shows "let s = fold (bridge_step inst win) es initial_bridge
    in inj_on (\<lambda>p. planeKeyForClient (the (map_get (bx_portContext s) p)) d (the (map_get (bx_clientKeys s) p)))
         (set (bx_clientPorts s))"
proof -
  define s :: "'a bridge" where "s = fold (bridge_step inst win) es initial_bridge"
  have inv: "ident_inv inst s" using bridge_inv_run [of inst win es] by (simp add: bridge_inv_def s_def)
  have client: "\<exists>c k. map_get (bx_portContext s) p = Some c \<and> map_get (bx_clientKeys s) p = Some k
      \<and> ClientMade p c k \<in> set (bx_log s) \<and> NUL \<notin> set c" if "p \<in> set (bx_clientPorts s)" for p
  proof -
    have "p \<in> set (map_keys (bx_portContext s))" using inv that unfolding ident_inv_def by blast
    then obtain c where c: "map_get (bx_portContext s) p = Some c" by (rule map_keysE)
    then obtain k where k: "map_get (bx_clientKeys s) p = Some k" "ClientMade p c k \<in> set (bx_log s)"
      using inv unfolding ident_inv_def by blast
    obtain n where "c = context_key inst n" by (rule ident_keys [OF inv k(2)])
    then have "NUL \<notin> set c" using assms(1) by (auto simp: context_key_def NUL_def nul_not_in_show_nat)
    with c k show ?thesis by blast
  qed
  show ?thesis unfolding s_def [symmetric] Let_def
  proof (rule inj_onI)
    fix p p'
    assume "p \<in> set (bx_clientPorts s)" "p' \<in> set (bx_clientPorts s)"
    then obtain c k c' k' where p: "map_get (bx_portContext s) p = Some c" "map_get (bx_clientKeys s) p = Some k"
        "ClientMade p c k \<in> set (bx_log s)" "NUL \<notin> set c"
      and p': "map_get (bx_portContext s) p' = Some c'" "map_get (bx_clientKeys s) p' = Some k'"
        "ClientMade p' c' k' \<in> set (bx_log s)" "NUL \<notin> set c'" using client by metis
    assume "planeKeyForClient (the (map_get (bx_portContext s) p)) d (the (map_get (bx_clientKeys s) p))
        = planeKeyForClient (the (map_get (bx_portContext s) p')) d (the (map_get (bx_clientKeys s) p'))"
    then have "c = c' \<and> k = k'" using plane_key_inj [OF p(4) assms(2) p'(4) assms(2)] p p' by simp
    with p(3) p'(3) inv show "p = p'" unfolding ident_inv_def by metis
  qed
qed

text \<open>C20: Every generic request of a page is handled once: its handler still waits or has replied, never
  both, never twice.\<close>

theorem page_requests_handled_once:
  "let s = fold (bridge_step inst win) es initial_bridge
   in mset [0..<bx_requests s] = mset (map fst (bx_tasks s)) + mset (bx_done s)"
  using bridge_inv_run [of inst win es] by (simp add: bridge_inv_def handled_inv_def busy_inv_def Let_def)

text \<open>A sample run: a page of https://a opens a device and holds its token; its worker is a client of
  its own.\<close>

definition sample_pages :: "unit bridge_event list" where
  "sample_pages =
     [PagePort 1 ''https://a'' (Some 0) (Some ''doc''),
      PageMessage ''r1'' ''workerPort'' None (Some 2) 1,
      PageMessage ''r2'' ''open'' (Some [(''deviceId'', ''d'')]) None 1,
      Resume 0 SettingsLoaded, Resume 0 (AllowedIs True False),
      Resume 0 (Answer \<lparr>rp_s = Some 200, rp_i = ''d'', rp_t = ''tok'', rp_body = ()\<rparr>),
      Resume 0 (PlaneIs (Some 1))]"

definition sample_bridge :: "unit bridge" where
  "sample_bridge = fold (bridge_step ''b'' ''https://a'') sample_pages initial_bridge"

lemma sample_bridge_holds:
  "map_get (sessions_of 1 sample_bridge) ''d'' = Some ''tok''" "bx_clientPorts sample_bridge = [1, 2]"
  "bx_done sample_bridge = [0]"
  by code_simp+

theorem client_planes_distinct_witness:
  "inj_on (\<lambda>p. planeKeyForClient (the (map_get (bx_portContext sample_bridge) p)) ''d''
       (the (map_get (bx_clientKeys sample_bridge) p))) {1, 2}"
  using client_planes_distinct [of "''b''" "''d''" "''https://a''" sample_pages] sample_bridge_holds(2)
  by (simp add: sample_bridge_def Let_def NUL_def)

text \<open>The cleanup of a terminated worker's sessions never runs: the message changes nothing but the
  table of replies.\<close>

lemma worker_cleanup_never_runs:
  "dispatchPortMessage win i ''workerClientDestroyed'' d tr p s = s\<lparr>bx_requestPort := map_set (bx_requestPort s) i p\<rparr>
   \<and> \<not> worker_destroyed_reached ports_array clientKey s"
  by (simp add: dispatchPortMessage_def worker_destroyed_reached_def ports_array_def frameContextForPort_def Let_def)

end
