(* ===== verification/Data_Planes.thy ===== *)
theory Data_Planes
  imports Plane_Keys
begin

text \<open>
  The data planes of the bridge (\<open>content/isolated/bridge.js\<close>): the generations of a plane, the two prerequisites that make a generation
  ready, and the waits of the page for a plane to be ready (\<open>waitDataPlaneReady\<close>).
\<close>

section \<open>Generations and readiness\<close>

datatype prerequisite = Local | Authoritative

datatype ready_result = ReadyOk | ReadyStale | ReadyDestroyed | ReadyUnavailable

record readiness =
  rd_generation :: nat
  rd_local :: bool
  rd_authoritative :: bool

record pending_wait =
  pw_generation :: nat
  pw_promise :: nat

text \<open>The history: generations begun, prerequisites marked, planes announced ready to their client,
  waits settled, each with the plane and generation it was about.\<close>

datatype plane_log =
    Begun string nat
  | Marked string nat prerequisite
  | Announced string nat
  | WaitSettled nat string nat ready_result

text \<open>\<open>pl_timers\<close> are the deadlines that are armed: the wait's promise, its plane and generation;
  \<open>pl_recovering\<close> the waits whose deadline fired and whose fallback to Native Messaging is under
  way.\<close>

record planes =
  pl_spawnGen :: "(string, nat) js_map"
  pl_readyGenerations :: "(string, nat) js_map"
  pl_planeReadiness :: "(string, readiness) js_map"
  pl_pendingPlaneReady :: "(string, pending_wait) js_map"
  pl_timers :: "(nat \<times> string \<times> nat) list"
  pl_recovering :: "(nat \<times> string \<times> nat) list"
  pl_promises :: nat
  pl_log :: "plane_log list"

definition initial_planes :: planes where
  "initial_planes = \<lparr>pl_spawnGen = [], pl_readyGenerations = [], pl_planeReadiness = [],
     pl_pendingPlaneReady = [], pl_timers = [], pl_recovering = [], pl_promises = 0, pl_log = []\<rparr>"

definition plane_note :: "plane_log \<Rightarrow> planes \<Rightarrow> planes" where
  "plane_note x s = s\<lparr>pl_log := pl_log s @ [x]\<rparr>"

text \<open>Resolving the pending wait of a plane: its deadline is cleared.\<close>

definition resolve_pending :: "string \<Rightarrow> pending_wait \<Rightarrow> ready_result \<Rightarrow> planes \<Rightarrow> planes" where
  "resolve_pending key w r s =
     plane_note (WaitSettled (pw_promise w) key (pw_generation w) r)
       (s\<lparr>pl_pendingPlaneReady := map_delete (pl_pendingPlaneReady s) key,
          pl_timers := filter (\<lambda>t. fst t \<noteq> pw_promise w) (pl_timers s)\<rparr>)"

definition beginPlaneGeneration :: "string \<Rightarrow> planes \<Rightarrow> planes" where
  "beginPlaneGeneration key s =
     (let generation = (case map_get (pl_spawnGen s) key of None \<Rightarrow> 0 | Some g \<Rightarrow> g) + 1;
          s1 = plane_note (Begun key generation)
            (s\<lparr>pl_spawnGen := map_set (pl_spawnGen s) key generation,
               pl_readyGenerations := map_delete (pl_readyGenerations s) key,
               pl_planeReadiness := map_set (pl_planeReadiness s) key
                 \<lparr>rd_generation = generation, rd_local = False, rd_authoritative = False\<rparr>\<rparr>)
      in case map_get (pl_pendingPlaneReady s1) key of
           None \<Rightarrow> s1
         | Some w \<Rightarrow> if pw_generation w \<noteq> generation then resolve_pending key w ReadyStale s1 else s1)"

definition set_prerequisite :: "prerequisite \<Rightarrow> readiness \<Rightarrow> readiness" where
  "set_prerequisite p r = (case p of Local \<Rightarrow> r\<lparr>rd_local := True\<rparr> | Authoritative \<Rightarrow> r\<lparr>rd_authoritative := True\<rparr>)"

text \<open>\<open>client_exists\<close>: the plane's frame and client are still there, so the announcement is posted.\<close>

definition notifyPlaneReady :: "bool \<Rightarrow> string \<Rightarrow> nat \<Rightarrow> planes \<Rightarrow> planes" where
  "notifyPlaneReady client_exists key generation s =
     (if map_get (pl_spawnGen s) key \<noteq> Some generation \<or> \<not> client_exists then s
      else plane_note (Announced key generation) s)"

definition markPlanePrerequisite :: "bool \<Rightarrow> string \<Rightarrow> nat \<Rightarrow> prerequisite \<Rightarrow> planes \<Rightarrow> planes" where
  "markPlanePrerequisite client_exists key generation prerequisite s =
     (if map_get (pl_spawnGen s) key \<noteq> Some generation then s
      else
        let old = (case map_get (pl_planeReadiness s) key of
                     Some r \<Rightarrow> if rd_generation r = generation then r
                               else \<lparr>rd_generation = generation, rd_local = False, rd_authoritative = False\<rparr>
                   | None \<Rightarrow> \<lparr>rd_generation = generation, rd_local = False, rd_authoritative = False\<rparr>);
            state = set_prerequisite prerequisite old;
            s1 = plane_note (Marked key generation prerequisite)
                   (s\<lparr>pl_planeReadiness := map_set (pl_planeReadiness s) key state\<rparr>)
        in if \<not> rd_local state \<or> \<not> rd_authoritative state then s1
           else
             let wasReady = (map_get (pl_readyGenerations s1) key = Some generation);
                 s2 = s1\<lparr>pl_readyGenerations := map_set (pl_readyGenerations s1) key generation\<rparr>;
                 s3 = (if wasReady then s2 else notifyPlaneReady client_exists key generation s2)
             in case map_get (pl_pendingPlaneReady s3) key of
                  None \<Rightarrow> s3
                | Some w \<Rightarrow> if pw_generation w \<noteq> generation then s3 else resolve_pending key w ReadyOk s3)"

definition markPlaneReady :: "bool \<Rightarrow> string \<Rightarrow> nat \<Rightarrow> planes \<Rightarrow> planes" where
  "markPlaneReady client_exists key generation s =
     markPlanePrerequisite client_exists key generation Authoritative
       (markPlanePrerequisite client_exists key generation Local s)"

text \<open>What \<open>despawnDataPlane\<close> forgets of the readiness of a plane once its worker was told to end.\<close>

definition forgetReadiness :: "string \<Rightarrow> planes \<Rightarrow> planes" where
  "forgetReadiness key s =
     s\<lparr>pl_planeReadiness := map_delete (pl_planeReadiness s) key,
       pl_readyGenerations := map_delete (pl_readyGenerations s) key\<rparr>"

text \<open>A wait of promise \<open>p\<close>; \<open>alive\<close>: the frame context was not destroyed.\<close>

definition wait_ready :: "bool \<Rightarrow> string \<Rightarrow> nat \<Rightarrow> nat \<Rightarrow> planes \<Rightarrow> planes" where
  "wait_ready alive key generation p s =
     (if \<not> alive then plane_note (WaitSettled p key generation ReadyDestroyed) s
      else if map_get (pl_spawnGen s) key \<noteq> Some generation
      then plane_note (WaitSettled p key generation ReadyStale) s
      else if map_get (pl_readyGenerations s) key = Some generation
      then plane_note (WaitSettled p key generation ReadyOk) s
      else s\<lparr>pl_timers := pl_timers s @ [(p, key, generation)],
             pl_pendingPlaneReady := map_set (pl_pendingPlaneReady s) key \<lparr>pw_generation = generation, pw_promise = p\<rparr>\<rparr>)"

definition waitForPlaneReady :: "bool \<Rightarrow> string \<Rightarrow> nat \<Rightarrow> planes \<Rightarrow> planes" where
  "waitForPlaneReady alive key generation s =
     wait_ready alive key generation (pl_promises s) (s\<lparr>pl_promises := pl_promises s + 1\<rparr>)"

text \<open>The deadline of a wait.  The entry it finds is deleted even where a later wait replaced it.\<close>

definition waitTimedOut :: "nat \<Rightarrow> planes \<Rightarrow> planes" where
  "waitTimedOut p s =
     (case map_get (pl_timers s) p of
        None \<Rightarrow> s
      | Some (key, generation) \<Rightarrow>
          let s1 = s\<lparr>pl_timers := filter (\<lambda>t. fst t \<noteq> p) (pl_timers s)\<rparr>
          in (case map_get (pl_pendingPlaneReady s1) key of
                None \<Rightarrow> s1
              | Some w \<Rightarrow>
                  if pw_generation w \<noteq> generation then s1
                  else let s2 = s1\<lparr>pl_pendingPlaneReady := map_delete (pl_pendingPlaneReady s1) key\<rparr>
                       in if map_get (pl_spawnGen s2) key \<noteq> Some generation
                          then plane_note (WaitSettled p key generation ReadyStale) s2
                          else s2\<lparr>pl_recovering := pl_recovering s2 @ [(p, key, generation)]\<rparr>))"

text \<open>The fallback of a wait came back: no generation, or the one it waits for now.\<close>

definition fallbackReturned :: "bool \<Rightarrow> nat \<Rightarrow> nat option \<Rightarrow> planes \<Rightarrow> planes" where
  "fallbackReturned alive p result s =
     (case map_get (pl_recovering s) p of
        None \<Rightarrow> s
      | Some (key, generation) \<Rightarrow>
          let s1 = s\<lparr>pl_recovering := filter (\<lambda>t. fst t \<noteq> p) (pl_recovering s)\<rparr>
          in (case result of
                None \<Rightarrow> plane_note (WaitSettled p key generation ReadyUnavailable) s1
              | Some g \<Rightarrow> wait_ready alive key g p s1))"

datatype plane_event =
    Begin string
  | Mark bool string nat prerequisite
  | MarkReady bool string nat
  | Forget string
  | Wait bool string nat
  | WaitDeadline nat
  | FallbackReturned bool nat "nat option"

fun plane_step :: "plane_event \<Rightarrow> planes \<Rightarrow> planes" where
  "plane_step (Begin key) s = beginPlaneGeneration key s"
| "plane_step (Mark client_exists key generation p) s = markPlanePrerequisite client_exists key generation p s"
| "plane_step (MarkReady client_exists key generation) s = markPlaneReady client_exists key generation s"
| "plane_step (Forget key) s = forgetReadiness key s"
| "plane_step (Wait alive key generation) s = waitForPlaneReady alive key generation s"
| "plane_step (WaitDeadline p) s = waitTimedOut p s"
| "plane_step (FallbackReturned alive p result) s = fallbackReturned alive p result s"

section \<open>The invariant\<close>

text \<open>The generation of a plane after a history.\<close>

definition current_generation :: "plane_log list \<Rightarrow> string \<Rightarrow> nat option" where
  "current_generation log key =
     (let n = length (filter (\<lambda>x. case x of Begun k _ \<Rightarrow> k = key | _ \<Rightarrow> False) log)
      in if n = 0 then None else Some n)"

definition both_marked :: "plane_log list \<Rightarrow> string \<Rightarrow> nat \<Rightarrow> bool" where
  "both_marked log key g \<longleftrightarrow> Marked key g Local \<in> set log \<and> Marked key g Authoritative \<in> set log"

text \<open>What an entry of the history rests on.\<close>

fun plane_entry_ok :: "plane_log list \<Rightarrow> plane_log \<Rightarrow> bool" where
  "plane_entry_ok xs (Begun k g) \<longleftrightarrow> g = (case current_generation xs k of None \<Rightarrow> 1 | Some n \<Rightarrow> n + 1)"
| "plane_entry_ok xs (Marked k g p) \<longleftrightarrow> current_generation xs k = Some g"
| "plane_entry_ok xs (Announced k g) \<longleftrightarrow> current_generation xs k = Some g \<and> both_marked xs k g"
| "plane_entry_ok xs (WaitSettled p k g r) \<longleftrightarrow>
     (r = ReadyOk \<longrightarrow> current_generation xs k = Some g \<and> both_marked xs k g)
     \<and> (r = ReadyStale \<longrightarrow> current_generation xs k \<noteq> Some g)"

definition plane_log_ok :: "plane_log list \<Rightarrow> bool" where
  "plane_log_ok log \<longleftrightarrow> (\<forall>xs x ys. log = xs @ x # ys \<longrightarrow> plane_entry_ok xs x)"

lemma plane_log_ok_snoc: "plane_log_ok (log @ [x]) \<longleftrightarrow> plane_log_ok log \<and> plane_entry_ok log x"
proof
  assume L: "plane_log_ok (log @ [x])"
  have "plane_entry_ok xs y" if "log = xs @ y # ys" for xs y ys
  proof -
    have "log @ [x] = xs @ y # (ys @ [x])" using that by simp
    with L show ?thesis unfolding plane_log_ok_def by blast
  qed
  with L show "plane_log_ok log \<and> plane_entry_ok log x" by (auto simp: plane_log_ok_def)
next
  assume R: "plane_log_ok log \<and> plane_entry_ok log x"
  show "plane_log_ok (log @ [x])"
    unfolding plane_log_ok_def
  proof (intro allI impI)
    fix xs y ys
    assume split: "log @ [x] = xs @ y # ys"
    show "plane_entry_ok xs y"
    proof (cases ys rule: rev_cases)
      case Nil
      with split R show ?thesis by simp
    next
      case (snoc zs z)
      then have "log = xs @ y # zs" using split by simp
      with R show ?thesis by (auto simp: plane_log_ok_def)
    qed
  qed
qed

primrec settled_wait :: "plane_log \<Rightarrow> nat list" where
  "settled_wait (Begun k g) = []"
| "settled_wait (Marked k g p) = []"
| "settled_wait (Announced k g) = []"
| "settled_wait (WaitSettled p k g r) = [p]"

definition settled_waits :: "planes \<Rightarrow> nat list" where
  "settled_waits s = concat (map settled_wait (pl_log s))"

definition planes_inv :: "planes \<Rightarrow> bool" where
  "planes_inv s \<longleftrightarrow>
     plane_log_ok (pl_log s)
     \<and> (\<forall>k. map_get (pl_spawnGen s) k = current_generation (pl_log s) k)
     \<and> (\<forall>k g. map_get (pl_readyGenerations s) k = Some g \<longrightarrow>
           map_get (pl_spawnGen s) k = Some g \<and> both_marked (pl_log s) k g)
     \<and> (\<forall>k r. map_get (pl_planeReadiness s) k = Some r \<longrightarrow>
           map_get (pl_spawnGen s) k = Some (rd_generation r)
           \<and> (rd_local r \<longrightarrow> Marked k (rd_generation r) Local \<in> set (pl_log s))
           \<and> (rd_authoritative r \<longrightarrow> Marked k (rd_generation r) Authoritative \<in> set (pl_log s)))"

definition waits_inv :: "planes \<Rightarrow> bool" where
  "waits_inv s \<longleftrightarrow>
     distinct (map fst (pl_timers s) @ map fst (pl_recovering s) @ settled_waits s)
     \<and> set (map fst (pl_timers s) @ map fst (pl_recovering s) @ settled_waits s) \<subseteq> {..<pl_promises s}
     \<and> (\<forall>k w. map_get (pl_pendingPlaneReady s) k = Some w \<longrightarrow> (pw_promise w, k, pw_generation w) \<in> set (pl_timers s))"

lemma current_generation_snoc:
  "current_generation (log @ [Begun k g]) k' =
     (if k' = k then Some (case current_generation log k of None \<Rightarrow> 1 | Some n \<Rightarrow> n + 1) else current_generation log k')"
  "current_generation (log @ [Marked k g p]) k' = current_generation log k'"
  "current_generation (log @ [Announced k g]) k' = current_generation log k'"
  "current_generation (log @ [WaitSettled q k g r]) k' = current_generation log k'"
  by (auto simp: current_generation_def Let_def)

lemma both_marked_snoc: "both_marked log k g \<Longrightarrow> both_marked (log @ [x]) k g"
  by (auto simp: both_marked_def)

lemma current_generation_Nil [simp]: "current_generation [] k = None"
  by (simp add: current_generation_def)

text \<open>Entries that change neither generations nor marks.\<close>

lemma planes_inv_note:
  assumes "planes_inv s" "plane_entry_ok (pl_log s) x" "\<And>k. current_generation (pl_log s @ [x]) k = current_generation (pl_log s) k"
  shows "planes_inv (plane_note x s)"
  using assms by (auto simp: planes_inv_def plane_note_def plane_log_ok_snoc both_marked_def)

lemma planes_inv_waits [simp]:
  "planes_inv (s\<lparr>pl_pendingPlaneReady := a\<rparr>) = planes_inv s"
  "planes_inv (s\<lparr>pl_timers := b\<rparr>) = planes_inv s"
  "planes_inv (s\<lparr>pl_recovering := c\<rparr>) = planes_inv s"
  "planes_inv (s\<lparr>pl_promises := d\<rparr>) = planes_inv s"
  by (simp_all add: planes_inv_def)

lemma planes_inv_settle:
  assumes "planes_inv s"
    "r = ReadyOk \<Longrightarrow> map_get (pl_spawnGen s) k = Some g \<and> both_marked (pl_log s) k g"
    "r = ReadyStale \<Longrightarrow> map_get (pl_spawnGen s) k \<noteq> Some g"
  shows "planes_inv (plane_note (WaitSettled p k g r) s)"
proof (rule planes_inv_note [OF assms(1)])
  have "map_get (pl_spawnGen s) k = current_generation (pl_log s) k" using assms(1) by (simp add: planes_inv_def)
  then show "plane_entry_ok (pl_log s) (WaitSettled p k g r)" using assms(2,3) by auto
qed (simp add: current_generation_snoc)

lemma planes_inv_resolve:
  assumes "planes_inv s"
    "r = ReadyOk \<Longrightarrow> map_get (pl_spawnGen s) k = Some (pw_generation w) \<and> both_marked (pl_log s) k (pw_generation w)"
    "r = ReadyStale \<Longrightarrow> map_get (pl_spawnGen s) k \<noteq> Some (pw_generation w)"
  shows "planes_inv (resolve_pending k w r s)"
  unfolding resolve_pending_def by (rule planes_inv_settle) (use assms in simp_all)

lemma planes_inv_begin:
  assumes "planes_inv s"
  shows "planes_inv (beginPlaneGeneration k s)"
proof -
  define g where "g = (case map_get (pl_spawnGen s) k of None \<Rightarrow> 0 | Some g \<Rightarrow> g) + 1"
  define s1 where "s1 = plane_note (Begun k g)
    (s\<lparr>pl_spawnGen := map_set (pl_spawnGen s) k g, pl_readyGenerations := map_delete (pl_readyGenerations s) k,
       pl_planeReadiness := map_set (pl_planeReadiness s) k \<lparr>rd_generation = g, rd_local = False, rd_authoritative = False\<rparr>\<rparr>)"
  have gen: "g = (case current_generation (pl_log s) k of None \<Rightarrow> 1 | Some n \<Rightarrow> n + 1)"
    using assms by (simp add: planes_inv_def g_def split: option.split)
  have "planes_inv s1"
    using assms gen unfolding planes_inv_def s1_def plane_note_def
    by (auto simp: js_map_simps plane_log_ok_snoc current_generation_snoc both_marked_def split: option.splits)
  moreover have "map_get (pl_spawnGen s1) k = Some g" by (simp add: s1_def plane_note_def js_map_simps)
  ultimately have "planes_inv (case map_get (pl_pendingPlaneReady s1) k of None \<Rightarrow> s1
      | Some w \<Rightarrow> if pw_generation w \<noteq> g then resolve_pending k w ReadyStale s1 else s1)"
    by (auto intro: planes_inv_resolve split: option.split)
  then show ?thesis
    unfolding beginPlaneGeneration_def Let_def g_def [symmetric] s1_def [symmetric] .
qed

lemma planes_inv_mark:
  assumes "planes_inv s"
  shows "planes_inv (markPlanePrerequisite ex k g p s)"
proof (cases "map_get (pl_spawnGen s) k = Some g")
  case True
  define old where "old = (case map_get (pl_planeReadiness s) k of
      Some r \<Rightarrow> if rd_generation r = g then r else \<lparr>rd_generation = g, rd_local = False, rd_authoritative = False\<rparr>
    | None \<Rightarrow> \<lparr>rd_generation = g, rd_local = False, rd_authoritative = False\<rparr>)"
  define state where "state = set_prerequisite p old"
  define s1 where "s1 = plane_note (Marked k g p) (s\<lparr>pl_planeReadiness := map_set (pl_planeReadiness s) k state\<rparr>)"
  define s2 where "s2 = s1\<lparr>pl_readyGenerations := map_set (pl_readyGenerations s1) k g\<rparr>"
  define s3 where "s3 = (if map_get (pl_readyGenerations s1) k = Some g then s2 else notifyPlaneReady ex k g s2)"
  have cur: "current_generation (pl_log s) k = Some g" using True assms by (simp add: planes_inv_def)
  have old: "rd_generation old = g" "rd_local old \<longrightarrow> Marked k g Local \<in> set (pl_log s)"
    "rd_authoritative old \<longrightarrow> Marked k g Authoritative \<in> set (pl_log s)"
    using assms by (auto simp: old_def planes_inv_def split: option.split)
  have state: "rd_generation state = g" "rd_local state \<longrightarrow> Marked k g Local \<in> set (pl_log s1)"
    "rd_authoritative state \<longrightarrow> Marked k g Authoritative \<in> set (pl_log s1)"
    using old by (auto simp: state_def set_prerequisite_def s1_def plane_note_def split: prerequisite.split)
  have s1: "planes_inv s1"
    using assms cur True state unfolding planes_inv_def s1_def plane_note_def
    by (auto simp: js_map_simps plane_log_ok_snoc current_generation_snoc both_marked_def)
  have spawn: "map_get (pl_spawnGen s1) k = Some g" "pl_spawnGen s2 = pl_spawnGen s1" "pl_log s2 = pl_log s1"
    using True by (simp_all add: s1_def s2_def plane_note_def)
  show ?thesis
  proof (cases "rd_local state \<and> rd_authoritative state")
    case both: True
    then have marked: "both_marked (pl_log s1) k g" using state by (simp add: both_marked_def)
    with s1 spawn have s2: "planes_inv s2"
      by (auto simp: planes_inv_def s2_def js_map_simps)
    have "planes_inv (notifyPlaneReady ex k g s2)"
    proof -
      have "current_generation (pl_log s2) k = Some g" using s2 spawn by (simp add: planes_inv_def)
      then show ?thesis
        using s2 marked spawn by (auto simp: notifyPlaneReady_def current_generation_snoc intro!: planes_inv_note)
    qed
    with s2 have s3: "planes_inv s3" by (simp add: s3_def)
    have "map_get (pl_spawnGen s3) k = Some g" "both_marked (pl_log s3) k g"
      using spawn marked both_marked_snoc by (auto simp: s3_def notifyPlaneReady_def plane_note_def)
    with s3 have "planes_inv (case map_get (pl_pendingPlaneReady s3) k of None \<Rightarrow> s3
        | Some w \<Rightarrow> if pw_generation w \<noteq> g then s3 else resolve_pending k w ReadyOk s3)"
      by (auto intro!: planes_inv_resolve split: option.split)
    with True both show ?thesis
      unfolding markPlanePrerequisite_def Let_def old_def [symmetric] state_def [symmetric] s1_def [symmetric]
        s2_def [symmetric] s3_def [symmetric] by simp
  next
    case False
    with True s1 show ?thesis
      unfolding markPlanePrerequisite_def Let_def old_def [symmetric] state_def [symmetric] s1_def [symmetric] by auto
  qed
qed (simp add: markPlanePrerequisite_def assms)

lemma planes_inv_wait: "planes_inv s \<Longrightarrow> planes_inv (wait_ready alive k g p s)"
  by (auto simp: wait_ready_def planes_inv_def [of s] intro!: planes_inv_settle)

lemma planes_inv_step: "planes_inv s \<Longrightarrow> planes_inv (plane_step e s)"
proof (cases e)
  case (Forget k)
  assume "planes_inv s"
  with Forget show ?thesis by (auto simp: forgetReadiness_def planes_inv_def js_map_simps)
next
  case (WaitDeadline p)
  assume "planes_inv s"
  with WaitDeadline show ?thesis
    by (auto simp: waitTimedOut_def Let_def intro!: planes_inv_settle split: option.split)
next
  case (FallbackReturned alive p result)
  assume "planes_inv s"
  with FallbackReturned show ?thesis
    by (auto simp: fallbackReturned_def Let_def intro!: planes_inv_settle planes_inv_wait split: option.split)
qed (simp_all add: planes_inv_begin planes_inv_mark planes_inv_wait markPlaneReady_def waitForPlaneReady_def)

text \<open>The waits.\<close>

lemma settled_waits_note [simp]:
  "settled_waits (plane_note x s) = settled_waits s @ settled_wait x"
  by (simp add: settled_waits_def plane_note_def)

lemma settled_waits_update [simp]:
  "settled_waits (s\<lparr>pl_pendingPlaneReady := a\<rparr>) = settled_waits s"
  "settled_waits (s\<lparr>pl_timers := b\<rparr>) = settled_waits s"
  "settled_waits (s\<lparr>pl_recovering := c\<rparr>) = settled_waits s"
  "settled_waits (s\<lparr>pl_promises := d\<rparr>) = settled_waits s"
  "settled_waits (s\<lparr>pl_spawnGen := e\<rparr>) = settled_waits s"
  "settled_waits (s\<lparr>pl_readyGenerations := f\<rparr>) = settled_waits s"
  "settled_waits (s\<lparr>pl_planeReadiness := g\<rparr>) = settled_waits s"
  by (simp_all add: settled_waits_def)

lemma waits_inv_update [simp]:
  "waits_inv (s\<lparr>pl_spawnGen := e\<rparr>) = waits_inv s"
  "waits_inv (s\<lparr>pl_readyGenerations := f\<rparr>) = waits_inv s"
  "waits_inv (s\<lparr>pl_planeReadiness := g\<rparr>) = waits_inv s"
  by (simp_all add: waits_inv_def)

lemma plane_note_fields [simp]:
  "pl_timers (plane_note x s) = pl_timers s" "pl_recovering (plane_note x s) = pl_recovering s"
  "pl_pendingPlaneReady (plane_note x s) = pl_pendingPlaneReady s" "pl_promises (plane_note x s) = pl_promises s"
  by (simp_all add: plane_note_def)

lemma waits_inv_note: "settled_wait x = [] \<Longrightarrow> waits_inv (plane_note x s) = waits_inv s"
  by (simp add: waits_inv_def)

lemma waits_inv_resolve:
  assumes "waits_inv s" "map_get (pl_pendingPlaneReady s) k = Some w"
  shows "waits_inv (resolve_pending k w r s)"
proof -
  have dist: "distinct (map fst (pl_timers s) @ map fst (pl_recovering s) @ settled_waits s)"
    and small: "set (map fst (pl_timers s) @ map fst (pl_recovering s) @ settled_waits s) \<subseteq> {..<pl_promises s}"
    and pend: "\<forall>k w. map_get (pl_pendingPlaneReady s) k = Some w \<longrightarrow> (pw_promise w, k, pw_generation w) \<in> set (pl_timers s)"
    using assms(1) by (simp_all add: waits_inv_def)
  have w: "(pw_promise w, k, pw_generation w) \<in> set (pl_timers s)" using pend assms(2) by blast
  have other: "pw_promise w' \<noteq> pw_promise w" if "map_get (pl_pendingPlaneReady s) k' = Some w'" "k' \<noteq> k" for k' w'
  proof
    assume same: "pw_promise w' = pw_promise w"
    have "(pw_promise w', k', pw_generation w') \<in> set (pl_timers s)" using pend that(1) by blast
    with w same dist have "(k', pw_generation w') = (k, pw_generation w)" by (auto dest: eq_key_imp_eq_value)
    with that(2) show False by simp
  qed
  have "pw_promise w \<in> fst ` set (pl_timers s)" using w by (force simp: image_iff)
  with dist small have fresh: "pw_promise w \<notin> set (map fst (pl_recovering s) @ settled_waits s)" "pw_promise w < pl_promises s"
    by auto
  have "distinct (map fst (filter (\<lambda>t. fst t \<noteq> pw_promise w) (pl_timers s)))"
    using dist by (simp add: distinct_map_filter)
  then show ?thesis
    using dist small pend other fresh by (auto simp: waits_inv_def resolve_pending_def js_map_simps)
qed

lemma waits_inv_begin:
  assumes "waits_inv s"
  shows "waits_inv (beginPlaneGeneration k s)"
  using waits_inv_resolve assms
  by (auto simp: beginPlaneGeneration_def Let_def waits_inv_note split: option.split)

lemma waits_inv_mark:
  assumes "waits_inv s"
  shows "waits_inv (markPlanePrerequisite ex k g p s)"
proof -
  have "waits_inv t \<Longrightarrow> waits_inv (notifyPlaneReady ex k g t)" for t
    by (simp add: notifyPlaneReady_def waits_inv_note)
  then show ?thesis
    using waits_inv_resolve assms
    by (auto simp: markPlanePrerequisite_def Let_def waits_inv_note split: option.split)
qed

lemma waits_inv_wait:
  assumes "waits_inv s" "p \<notin> set (map fst (pl_timers s) @ map fst (pl_recovering s) @ settled_waits s)" "p < pl_promises s"
  shows "waits_inv (wait_ready alive k g p s)"
  using assms by (auto simp: wait_ready_def waits_inv_def js_map_simps)

lemma waits_inv_timeout:
  assumes "waits_inv s"
  shows "waits_inv (waitTimedOut p s)"
proof (cases "map_get (pl_timers s) p")
  case (Some t)
  obtain k g where t: "t = (k, g)" by (cases t)
  have dist: "distinct (map fst (pl_timers s) @ map fst (pl_recovering s) @ settled_waits s)"
    and small: "set (map fst (pl_timers s) @ map fst (pl_recovering s) @ settled_waits s) \<subseteq> {..<pl_promises s}"
    and pend: "\<forall>k w. map_get (pl_pendingPlaneReady s) k = Some w \<longrightarrow> (pw_promise w, k, pw_generation w) \<in> set (pl_timers s)"
    using assms by (simp_all add: waits_inv_def)
  have p: "(p, k, g) \<in> set (pl_timers s)" using Some t by (simp add: map_of_SomeD)
  have here: "k' = k \<and> pw_generation w = g" if "map_get (pl_pendingPlaneReady s) k' = Some w" "pw_promise w = p" for k' w
  proof -
    have "(p, k', pw_generation w) \<in> set (pl_timers s)" using pend that by blast
    with p dist show ?thesis by (auto dest: eq_key_imp_eq_value)
  qed
  have "p \<in> fst ` set (pl_timers s)" using p by (force simp: image_iff)
  with dist small have fresh: "p \<notin> set (map fst (pl_recovering s) @ settled_waits s)" "p < pl_promises s" by auto
  have timers: "distinct (map fst (filter (\<lambda>t. fst t \<noteq> p) (pl_timers s)))"
    using dist by (simp add: distinct_map_filter)
  show ?thesis
    using Some t dist small pend here fresh timers
    by (auto simp: waitTimedOut_def Let_def waits_inv_def js_map_simps split: option.split)
qed (simp add: waitTimedOut_def assms)

lemma waits_inv_fallback:
  assumes "waits_inv s"
  shows "waits_inv (fallbackReturned alive p result s)"
proof (cases "map_get (pl_recovering s) p")
  case (Some t)
  obtain k g where t: "t = (k, g)" by (cases t)
  have p: "p \<in> fst ` set (pl_recovering s)" using Some by (force dest: map_of_SomeD)
  let ?s = "s\<lparr>pl_recovering := filter (\<lambda>t. fst t \<noteq> p) (pl_recovering s)\<rparr>"
  have "distinct (map fst (filter (\<lambda>t. fst t \<noteq> p) (pl_recovering s)))"
    using assms by (simp add: waits_inv_def distinct_map_filter)
  with assms have s: "waits_inv ?s" by (auto simp: waits_inv_def)
  have fresh: "p \<notin> set (map fst (pl_timers ?s) @ map fst (pl_recovering ?s) @ settled_waits ?s)" "p < pl_promises ?s"
    using assms p by (auto simp: waits_inv_def)
  then have "waits_inv (plane_note (WaitSettled p k g ReadyUnavailable) ?s)"
    using s by (auto simp: waits_inv_def)
  with waits_inv_wait [OF s fresh] Some t show ?thesis
    by (simp add: fallbackReturned_def Let_def split: option.split)
qed (simp add: fallbackReturned_def assms)

lemma waits_inv_new:
  assumes "waits_inv s"
  shows "waits_inv (waitForPlaneReady alive k g s)"
proof -
  have "waits_inv (s\<lparr>pl_promises := pl_promises s + 1\<rparr>)" using assms by (auto simp: waits_inv_def)
  moreover have "pl_promises s \<notin> set (map fst (pl_timers s) @ map fst (pl_recovering s) @ settled_waits s)"
    using assms by (auto simp: waits_inv_def)
  ultimately show ?thesis unfolding waitForPlaneReady_def by (intro waits_inv_wait) simp_all
qed

lemma waits_inv_step: "waits_inv s \<Longrightarrow> waits_inv (plane_step e s)"
  by (cases e) (simp_all add: waits_inv_begin waits_inv_mark waits_inv_new waits_inv_timeout waits_inv_fallback
      markPlaneReady_def forgetReadiness_def)

lemma planes_run: "planes_inv (fold plane_step es initial_planes)" "waits_inv (fold plane_step es initial_planes)"
  by (rule fold_invariant [where P = planes_inv], simp add: planes_inv_def initial_planes_def plane_log_ok_def,
      erule planes_inv_step)
    (rule fold_invariant [where P = waits_inv], simp add: waits_inv_def initial_planes_def settled_waits_def,
      erule waits_inv_step)

section \<open>What a run guarantees\<close>

text \<open>C14: At every moment, a plane is announced ready to its client, or a wait for it resolved as
  ready, only for the generation that is current at that moment and only when both its local and its
  authoritative prerequisite were marked for that very generation; the generations of a plane are
  begun one after the other, a wait is called stale only when its generation is not the current one,
  and no wait is settled twice.\<close>

theorem plane_ready_when_both_marked:
  "let s = fold plane_step es initial_planes; log = pl_log s
   in {(xs, k, g). \<exists>ys p. log = xs @ Announced k g # ys \<or> log = xs @ WaitSettled p k g ReadyOk # ys}
        \<subseteq> {(xs, k, g). current_generation xs k = Some g \<and> Marked k g Local \<in> set xs \<and> Marked k g Authoritative \<in> set xs}
      \<and> {(xs, k, g). \<exists>ys. log = xs @ Begun k g # ys}
        \<subseteq> {(xs, k, g). g = (case current_generation xs k of None \<Rightarrow> 1 | Some n \<Rightarrow> n + 1)}
      \<and> {(xs, k, g). \<exists>ys p. log = xs @ WaitSettled p k g ReadyStale # ys} \<subseteq> {(xs, k, g). current_generation xs k \<noteq> Some g}
      \<and> distinct (settled_waits s)"
proof -
  define s where "s = fold plane_step es initial_planes"
  have ok: "plane_entry_ok xs x" if "pl_log s = xs @ x # ys" for xs x ys
    using planes_run(1) [of es] that by (auto simp: planes_inv_def plane_log_ok_def s_def)
  have "distinct (settled_waits s)" using planes_run(2) [of es] by (simp add: waits_inv_def s_def)
  then show ?thesis
    unfolding s_def [symmetric] Let_def using ok by (fastforce simp: both_marked_def)
qed

text \<open>Two waits for the same generation: the earlier one is forgotten, it is not settled when the plane
  gets ready, and its deadline finds nothing.\<close>

definition overwritten_wait :: "plane_event list" where
  "overwritten_wait =
     [Begin ''k'', Wait True ''k'' 1, Wait True ''k'' 1, MarkReady True ''k'' 1, WaitDeadline 0]"

lemma overwritten_wait_never_settles:
  "pl_promises (fold plane_step overwritten_wait initial_planes) = 2
   \<and> settled_waits (fold plane_step overwritten_wait initial_planes) = [1]
   \<and> pl_timers (fold plane_step overwritten_wait initial_planes) = []
   \<and> pl_recovering (fold plane_step overwritten_wait initial_planes) = []"
  by code_simp

end
