(* ===== verification/Data_Requests.thy ===== *)
theory Data_Requests
  imports Requests Native_Messaging Plane_Keys
begin

text \<open>
  Reports over Native Messaging in the bridge (\<open>content/isolated/bridge.js\<close>): the requests of the
  data ports, their ids, the runtime port every device shares, and the answers posted back
  (\<open>onDataPortMessage\<close>, \<open>allocateDataReqId\<close>, \<open>ensureRuntimeDataPort\<close>,
  \<open>maybeDisconnectRuntimeDataPort\<close>, \<open>handleWorkerReportResponse\<close>).  The bound on the number of
  requests pending at once, \<open>Number.MAX_SAFE_INTEGER\<close>, is beyond what memory holds.
\<close>

section \<open>Request ids\<close>

text \<open>\<open>dataReqSeq\<close> runs from 1 to \<open>Number.MAX_SAFE_INTEGER\<close> and wraps; the loop skips the ids that are
  pending.  \<open>fuel\<close> bounds its rounds.\<close>

definition next_seq :: "nat \<Rightarrow> nat" where
  "next_seq n = (if n \<ge> MAX_SAFE_INTEGER then 1 else n + 1)"

primrec allocate_loop :: "nat \<Rightarrow> nat list \<Rightarrow> nat \<Rightarrow> nat option" where
  "allocate_loop 0 pending n = None"
| "allocate_loop (Suc fuel) pending n =
     (let n' = next_seq n in if n' \<in> set pending then allocate_loop fuel pending n' else Some n')"

definition allocateDataReqId :: "nat list \<Rightarrow> nat \<Rightarrow> nat" where
  "allocateDataReqId pending n = the (allocate_loop (length pending + 1) pending n)"

lemma next_seq_iter:
  assumes "n \<le> MAX_SAFE_INTEGER" "0 < i"
  shows "(next_seq ^^ i) n = (n + i - 1) mod MAX_SAFE_INTEGER + 1"
  using assms(2)
proof (induction i rule: nat_induct_non_zero)
  case 1
  show ?case
  proof (cases "n = MAX_SAFE_INTEGER")
    case False
    then have "n < MAX_SAFE_INTEGER" using assms(1) by simp
    then show ?thesis by (simp add: next_seq_def)
  qed (simp add: next_seq_def)
next
  case (Suc i)
  define m where "m = n + i - 1"
  have M: "0 < MAX_SAFE_INTEGER" by (simp add: MAX_SAFE_INTEGER_def)
  have "(next_seq ^^ Suc i) n = next_seq (m mod MAX_SAFE_INTEGER + 1)" using Suc.IH by (simp add: m_def)
  also have "\<dots> = Suc m mod MAX_SAFE_INTEGER + 1"
    using M mod_less_divisor [OF M, of m] by (auto simp: next_seq_def mod_Suc)
  also have "Suc m = n + Suc i - 1" using Suc.hyps by (simp add: m_def)
  finally show ?case .
qed

lemma next_seq_range: "0 < next_seq n" "next_seq n \<le> MAX_SAFE_INTEGER"
  by (simp_all add: next_seq_def MAX_SAFE_INTEGER_def)

lemma allocate_loop_Some:
  "allocate_loop fuel pending n = Some m \<longleftrightarrow>
   (\<exists>i < fuel. m = (next_seq ^^ Suc i) n \<and> m \<notin> set pending \<and> (\<forall>j < i. (next_seq ^^ Suc j) n \<in> set pending))"
proof (induction fuel arbitrary: n)
  case (Suc fuel)
  show ?case
  proof (cases "next_seq n \<in> set pending")
    case True
    have "(\<exists>i < Suc fuel. m = (next_seq ^^ Suc i) n \<and> m \<notin> set pending \<and> (\<forall>j < i. (next_seq ^^ Suc j) n \<in> set pending))
        \<longleftrightarrow> (\<exists>i < fuel. m = (next_seq ^^ Suc i) (next_seq n) \<and> m \<notin> set pending
               \<and> (\<forall>j < i. (next_seq ^^ Suc j) (next_seq n) \<in> set pending))"
      (is "?L \<longleftrightarrow> ?R")
    proof
      assume ?L
      then obtain i where i: "i < Suc fuel" "m = (next_seq ^^ Suc i) n" "m \<notin> set pending"
        "\<forall>j < i. (next_seq ^^ Suc j) n \<in> set pending" by blast
      then obtain k where k: "i = Suc k" using True by (cases i) auto
      have "\<forall>j < k. (next_seq ^^ Suc j) (next_seq n) \<in> set pending"
        using i(4) k by (metis Suc_less_eq funpow_Suc_right o_apply)
      with i k show ?R by (intro exI [of _ k]) (simp add: funpow_swap1)
    next
      assume ?R
      then obtain k where k: "k < fuel" "m = (next_seq ^^ Suc k) (next_seq n)" "m \<notin> set pending"
        "\<forall>j < k. (next_seq ^^ Suc j) (next_seq n) \<in> set pending" by blast
      have "\<forall>j < Suc k. (next_seq ^^ Suc j) n \<in> set pending"
      proof (intro allI impI)
        fix j assume "j < Suc k"
        then show "(next_seq ^^ Suc j) n \<in> set pending"
          using k(4) True by (cases j) (simp_all add: funpow_swap1)
      qed
      with k show ?L by (intro exI [of _ "Suc k"]) (simp add: funpow_swap1)
    qed
    with Suc.IH [of "next_seq n"] True show ?thesis by (simp add: Let_def)
  next
    case False
    have zero: "i = 0" if "\<forall>j < i. (next_seq ^^ Suc j) n \<in> set pending" for i
      using that False by (cases i) (simp, metis funpow_0 funpow_simps_right(1) id_apply o_apply zero_less_Suc funpow.simps(2))
    have "(\<exists>i < Suc fuel. m = (next_seq ^^ Suc i) n \<and> m \<notin> set pending \<and> (\<forall>j < i. (next_seq ^^ Suc j) n \<in> set pending))
        \<longleftrightarrow> m = next_seq n" (is "?L \<longleftrightarrow> _")
    proof
      assume ?L
      then obtain i where i: "m = (next_seq ^^ Suc i) n" "\<forall>j < i. (next_seq ^^ Suc j) n \<in> set pending" by blast
      from i(1) zero [OF i(2)] show "m = next_seq n" by simp
    qed (use False in \<open>intro exI [of _ 0], simp\<close>)
    with False show ?thesis by (auto simp: Let_def)
  qed
qed simp

text \<open>With fewer pending ids than numbers, one of the next rounds finds a free one.\<close>

lemma allocate_found:
  assumes "length pending < MAX_SAFE_INTEGER" "n \<le> MAX_SAFE_INTEGER"
  shows "\<exists>i < length pending + 1. (next_seq ^^ Suc i) n \<notin> set pending"
proof (rule ccontr)
  assume "\<not> ?thesis"
  then have sub: "(\<lambda>i. (next_seq ^^ Suc i) n) ` {..length pending} \<subseteq> set pending" by (auto simp: le_imp_less_Suc)
  have "inj_on (\<lambda>i. (next_seq ^^ Suc i) n) {..length pending}"
  proof (rule inj_onI)
    fix i j
    assume ij: "i \<in> {..length pending}" "j \<in> {..length pending}" "(next_seq ^^ Suc i) n = (next_seq ^^ Suc j) n"
    then have "(n + i) mod MAX_SAFE_INTEGER = (n + j) mod MAX_SAFE_INTEGER"
      by (simp add: next_seq_iter [OF assms(2)] del: funpow.simps)
    then obtain q r where "n + i + MAX_SAFE_INTEGER * q = n + j + MAX_SAFE_INTEGER * r"
      unfolding nat_mod_eq_iff by blast
    then have "i + MAX_SAFE_INTEGER * q = j + MAX_SAFE_INTEGER * r" by simp
    then have "i mod MAX_SAFE_INTEGER = j mod MAX_SAFE_INTEGER" unfolding nat_mod_eq_iff by blast
    with ij assms(1) show "i = j" by simp
  qed
  with sub have "card {..length pending} \<le> card (set pending)" by (intro card_inj_on_le) auto
  then show False using card_length [of pending] by simp
qed

lemma allocate_returns:
  assumes "length pending < MAX_SAFE_INTEGER" "n \<le> MAX_SAFE_INTEGER"
  shows "\<exists>m. allocate_loop (length pending + 1) pending n = Some m"
proof -
  define P where "P i \<longleftrightarrow> (next_seq ^^ Suc i) n \<notin> set pending" for i
  define i where "i = (LEAST i. P i)"
  obtain k where k: "k < length pending + 1" "P k" using allocate_found [OF assms] by (auto simp: P_def)
  have "P i" "i \<le> k" unfolding i_def using k by (auto intro: LeastI Least_le)
  moreover have "\<forall>j < i. \<not> P j" unfolding i_def using not_less_Least by blast
  ultimately have "allocate_loop (length pending + 1) pending n = Some ((next_seq ^^ Suc i) n)"
    using k(1) by (subst allocate_loop_Some) (auto simp: P_def intro!: exI [of _ i])
  then show ?thesis by blast
qed

lemma allocate_fresh:
  assumes "length pending < MAX_SAFE_INTEGER" "n \<le> MAX_SAFE_INTEGER"
  shows "allocateDataReqId pending n \<notin> set pending" "0 < allocateDataReqId pending n"
    "allocateDataReqId pending n \<le> MAX_SAFE_INTEGER"
proof -
  obtain m where m: "allocate_loop (length pending + 1) pending n = Some m" using allocate_returns [OF assms] by blast
  from m [unfolded allocate_loop_Some] obtain i where i: "m = (next_seq ^^ Suc i) n" "m \<notin> set pending" by blast
  then have "m = next_seq ((next_seq ^^ i) n)" by simp
  then show "allocateDataReqId pending n \<notin> set pending" "0 < allocateDataReqId pending n"
    "allocateDataReqId pending n \<le> MAX_SAFE_INTEGER"
    using m i(2) next_seq_range by (simp_all add: allocateDataReqId_def)
qed

section \<open>Reports over Native Messaging\<close>

datatype report_kind = SendReport | SendFeature | ReceiveFeature

text \<open>A report request of a data port: its number, its kind, the page's own id, the port to answer,
  the plane and the device.\<close>

record data_request =
  dr_no :: nat
  dr_kind :: report_kind
  dr_msgReqId :: nat
  dr_port :: nat
  dr_key :: string
  dr_deviceId :: string

record 'd data_result =
  rs_type :: string
  rs_reqId :: nat
  rs_error :: "string option"
  rs_data :: "'d option"

text \<open>\<open>dt_ports\<close> are the shared runtime ports, one per device, each with the identity of the port
  object; \<open>dt_settled\<close> is what was posted on the data ports, \<open>dt_lost\<close> the requests dropped because no
  runtime port could be opened for them.\<close>

record 'd data_state =
  dt_pending :: "(nat, data_request) js_map"
  dt_seq :: nat
  dt_ports :: "(string, nat) js_map"
  dt_nextPort :: nat
  dt_nmPlanes :: "string list"
  dt_openAttempts :: "(string, nat) js_map"
  dt_issued :: "nat list"
  dt_settled :: "(nat \<times> nat \<times> 'd data_result) list"
  dt_lost :: "nat list"

definition initial_data :: "'d data_state" where
  "initial_data = \<lparr>dt_pending = [], dt_seq = 0, dt_ports = [], dt_nextPort = 0, dt_nmPlanes = [],
     dt_openAttempts = [], dt_issued = [], dt_settled = [], dt_lost = []\<rparr>"

text \<open>The answer posted for a response: its status (none where the response has none) and its data.\<close>

definition handleWorkerReportResponse ::
    "report_kind \<Rightarrow> nat \<Rightarrow> nat option \<Rightarrow> 'd option \<Rightarrow> 'd data_result" where
  "handleWorkerReportResponse kind reqId status d =
     (if kind = ReceiveFeature
      then if status = Some 403
           then \<lparr>rs_type = ''featureResult'', rs_reqId = reqId, rs_error = Some ''blocked'', rs_data = None\<rparr>
           else \<lparr>rs_type = ''featureResult'', rs_reqId = reqId, rs_error = None,
                  rs_data = (if isOk status then d else None)\<rparr>
      else \<lparr>rs_type = (if kind = SendReport then ''sendResult'' else ''featureResult''), rs_reqId = reqId,
             rs_error = (if status = Some 403 then Some ''blocked''
                         else if \<not> isOk status then Some ''send failed'' else None),
             rs_data = None\<rparr>)"

definition settle_data :: "nat option \<Rightarrow> 'd option \<Rightarrow> data_request \<Rightarrow> 'd data_state \<Rightarrow> 'd data_state" where
  "settle_data status d r s =
     s\<lparr>dt_settled := dt_settled s @
         [(dr_no r, dr_port r, handleWorkerReportResponse (dr_kind r) (dr_msgReqId r) status d)]\<rparr>"

text \<open>\<open>connects\<close>: \<open>runtime.connect\<close> does not throw, should a port be opened.\<close>

definition ensureRuntimeDataPort :: "bool \<Rightarrow> string \<Rightarrow> 'd data_state \<Rightarrow> 'd data_state option" where
  "ensureRuntimeDataPort connects deviceId s =
     (case map_get (dt_ports s) deviceId of
        Some _ \<Rightarrow> Some s
      | None \<Rightarrow>
          if \<not> connects then None
          else Some (s\<lparr>dt_ports := map_set (dt_ports s) deviceId (dt_nextPort s), dt_nextPort := dt_nextPort s + 1\<rparr>))"

text \<open>A key names a device only if it has a separator.\<close>

definition hasDeviceKey :: "string list \<Rightarrow> string \<Rightarrow> bool" where
  "hasDeviceKey keys deviceId \<longleftrightarrow> (\<exists>key \<in> set keys. NUL \<in> set key \<and> deviceIdForPlaneKey key = deviceId)"

definition maybeDisconnectRuntimeDataPort :: "string \<Rightarrow> 'd data_state \<Rightarrow> 'd data_state" where
  "maybeDisconnectRuntimeDataPort deviceId s =
     (if hasDeviceKey (dt_nmPlanes s) deviceId \<or> hasDeviceKey (map_keys (dt_openAttempts s)) deviceId
         \<or> (\<exists>e \<in> set (dt_pending s). dr_deviceId (snd e) = deviceId)
      then s
      else s\<lparr>dt_ports := map_delete (dt_ports s) deviceId\<rparr>)"

definition retainNmOpenAttempt :: "string \<Rightarrow> 'd data_state \<Rightarrow> 'd data_state" where
  "retainNmOpenAttempt key s =
     s\<lparr>dt_openAttempts := map_set (dt_openAttempts s) key
         ((case map_get (dt_openAttempts s) key of None \<Rightarrow> 0 | Some n \<Rightarrow> n) + 1)\<rparr>"

text \<open>\<open>(get(key) || 0) - 1\<close> is positive exactly from 2 on.\<close>

definition releaseNmOpenAttempt :: "string \<Rightarrow> 'd data_state \<Rightarrow> 'd data_state" where
  "releaseNmOpenAttempt key s =
     (let n = (case map_get (dt_openAttempts s) key of None \<Rightarrow> 0 | Some n \<Rightarrow> n)
      in if n > 1 then s\<lparr>dt_openAttempts := map_set (dt_openAttempts s) key (n - 1)\<rparr>
         else s\<lparr>dt_openAttempts := map_delete (dt_openAttempts s) key\<rparr>)"

text \<open>A report of the page; \<open>throws\<close>: posting it on the runtime port throws.  The port is opened outside the
  \<open>try\<close>: when that throws, the id is spent and the page is not answered.\<close>

definition onDataPortMessage ::
    "bool \<Rightarrow> bool \<Rightarrow> string \<Rightarrow> report_kind \<Rightarrow> nat \<Rightarrow> nat \<Rightarrow> string \<Rightarrow> 'd data_state \<Rightarrow> 'd data_state" where
  "onDataPortMessage connects throws key kind msgReqId port deviceId s =
     (let reqId = allocateDataReqId (map_keys (dt_pending s)) (dt_seq s)
      in case ensureRuntimeDataPort connects deviceId (s\<lparr>dt_seq := reqId\<rparr>) of
           None \<Rightarrow> s\<lparr>dt_seq := reqId, dt_lost := dt_lost s @ [msgReqId]\<rparr>
         | Some s1 \<Rightarrow>
             let r = \<lparr>dr_no = length (dt_issued s), dr_kind = kind, dr_msgReqId = msgReqId, dr_port = port,
                      dr_key = key, dr_deviceId = deviceId\<rparr>;
                 s2 = s1\<lparr>dt_issued := dt_issued s @ [length (dt_issued s)],
                         dt_pending := map_set (dt_pending s1) reqId r\<rparr>
             in if throws then settle_data (Some 500) None r (s2\<lparr>dt_pending := map_delete (dt_pending s2) reqId\<rparr>)
                else s2)"

text \<open>A response on the runtime port of a device.\<close>

definition runtimeResponse ::
    "string \<Rightarrow> nat \<Rightarrow> nat option \<Rightarrow> 'd option \<Rightarrow> 'd data_state \<Rightarrow> 'd data_state" where
  "runtimeResponse deviceId reqId status d s =
     (case map_get (dt_pending s) reqId of
        None \<Rightarrow> s
      | Some r \<Rightarrow>
          if dr_deviceId r \<noteq> deviceId then s
          else maybeDisconnectRuntimeDataPort deviceId
                 (settle_data status d r (s\<lparr>dt_pending := map_delete (dt_pending s) reqId\<rparr>)))"

text \<open>Everything pending of which \<open>P\<close> holds is answered 503.\<close>

definition fail_one :: "(data_request \<Rightarrow> bool) \<Rightarrow> nat \<times> data_request \<Rightarrow> 'd data_state \<Rightarrow> 'd data_state" where
  "fail_one P e s =
     (if P (snd e) then settle_data (Some 503) None (snd e) (s\<lparr>dt_pending := map_delete (dt_pending s) (fst e)\<rparr>)
      else s)"

definition fail_pending :: "(data_request \<Rightarrow> bool) \<Rightarrow> 'd data_state \<Rightarrow> 'd data_state" where
  "fail_pending P s = fold (fail_one P) (dt_pending s) s"

definition runtimeDisconnected :: "string \<Rightarrow> nat \<Rightarrow> 'd data_state \<Rightarrow> 'd data_state" where
  "runtimeDisconnected deviceId port s =
     (if map_get (dt_ports s) deviceId \<noteq> Some port then s
      else fail_pending (\<lambda>r. dr_deviceId r = deviceId) (s\<lparr>dt_ports := map_delete (dt_ports s) deviceId\<rparr>))"

text \<open>What \<open>despawnDataPlane\<close> does with the reports of a plane and the port they use.\<close>

definition despawnReports :: "string \<Rightarrow> string \<Rightarrow> 'd data_state \<Rightarrow> 'd data_state" where
  "despawnReports key deviceId s =
     (let s1 = fail_pending (\<lambda>r. dr_key r = key) s
      in maybeDisconnectRuntimeDataPort deviceId (s1\<lparr>dt_nmPlanes := set_delete (dt_nmPlanes s1) key\<rparr>))"

text \<open>A plane goes over to Native Messaging: the port first, then, when the background agrees, the plane.
  A throw leaves all as it was.\<close>

definition port_ensured :: "bool \<Rightarrow> string \<Rightarrow> 'd data_state \<Rightarrow> 'd data_state" where
  "port_ensured connects deviceId s =
     (case ensureRuntimeDataPort connects deviceId s of None \<Rightarrow> s | Some s1 \<Rightarrow> s1)"

definition useNativeMessaging :: "bool \<Rightarrow> string \<Rightarrow> string \<Rightarrow> 'd data_state \<Rightarrow> 'd data_state" where
  "useNativeMessaging connects key deviceId s =
     (case ensureRuntimeDataPort connects deviceId s of
        None \<Rightarrow> s
      | Some s1 \<Rightarrow> s1\<lparr>dt_nmPlanes := set_add (dt_nmPlanes s1) key\<rparr>)"

datatype 'd data_event =
    ReportPosted bool bool string report_kind nat nat string
  | RuntimeResponse string nat "nat option" "'d option"
  | RuntimeGone string nat
  | PlaneDespawned string string
  | PlaneOverNm bool string string
  | PortEnsured bool string
  | OpenAttempt string
  | OpenAttemptOver string
  | FailedOpenDiscarded string

fun data_step :: "'d data_event \<Rightarrow> 'd data_state \<Rightarrow> 'd data_state" where
  "data_step (ReportPosted connects throws key kind msgReqId port deviceId) s =
     (if length (dt_pending s) < MAX_SAFE_INTEGER
      then onDataPortMessage connects throws key kind msgReqId port deviceId s else s)"
| "data_step (RuntimeResponse deviceId reqId status d) s = runtimeResponse deviceId reqId status d s"
| "data_step (RuntimeGone deviceId port) s = runtimeDisconnected deviceId port s"
| "data_step (PlaneDespawned key deviceId) s = despawnReports key deviceId s"
| "data_step (PlaneOverNm connects key deviceId) s = useNativeMessaging connects key deviceId s"
| "data_step (PortEnsured connects deviceId) s = port_ensured connects deviceId s"
| "data_step (OpenAttempt key) s = retainNmOpenAttempt key s"
| "data_step (OpenAttemptOver key) s = releaseNmOpenAttempt key s"
| "data_step (FailedOpenDiscarded deviceId) s = maybeDisconnectRuntimeDataPort deviceId s"

section \<open>The contract of requests\<close>

definition data_waiting :: "'d data_state \<Rightarrow> nat list" where
  "data_waiting s = map (\<lambda>e. dr_no (snd e)) (dt_pending s)"

text \<open>Every pending report waits on a runtime port of its device that is connected.\<close>

definition data_wf :: "'d data_state \<Rightarrow> bool" where
  "data_wf s \<longleftrightarrow>
     map_wf (dt_pending s) \<and> dt_seq s \<le> MAX_SAFE_INTEGER
     \<and> (\<forall>k \<in> set (map_keys (dt_pending s)). 0 < k \<and> k \<le> MAX_SAFE_INTEGER)
     \<and> dt_issued s = [0..<length (dt_issued s)]
     \<and> mset (dt_issued s) = mset (data_waiting s) + mset (map fst (dt_settled s))
     \<and> (\<lambda>e. dr_deviceId (snd e)) ` set (dt_pending s) \<subseteq> set (map_keys (dt_ports s))"

lemma ensured_port:
  assumes "ensureRuntimeDataPort c d s = Some s'"
  shows "dt_pending s' = dt_pending s" "d \<in> set (map_keys (dt_ports s'))"
    "set (map_keys (dt_ports s)) \<subseteq> set (map_keys (dt_ports s'))" "dt_issued s' = dt_issued s"
    "dt_settled s' = dt_settled s" "dt_seq s' = dt_seq s" "dt_lost s' = dt_lost s"
  using assms
  by (auto simp: ensureRuntimeDataPort_def keys_map_set map_has_get js_map_simps simp del: set_map
      split: option.splits if_splits)

lemma data_wf_ports:
  "data_wf s \<Longrightarrow> (\<lambda>e. dr_deviceId (snd e)) ` set (dt_pending s) \<subseteq> set (map_keys (dt_ports s))"
  by (simp only: data_wf_def)

lemma data_wf_seq: "data_wf s \<Longrightarrow> n \<le> MAX_SAFE_INTEGER \<Longrightarrow> data_wf (s\<lparr>dt_seq := n\<rparr>)"
  by (auto simp: data_wf_def data_waiting_def simp del: set_map)

lemma data_wf_ensure:
  assumes "ensureRuntimeDataPort c d s = Some s'" "data_wf s"
  shows "data_wf s'"
proof -
  have "(\<lambda>e. dr_deviceId (snd e)) ` set (dt_pending s') \<subseteq> set (map_keys (dt_ports s'))"
    unfolding ensured_port(1) [OF assms(1)]
    by (rule subset_trans [OF data_wf_ports [OF assms(2)] ensured_port(3) [OF assms(1)]])
  with assms(2) show ?thesis unfolding data_wf_def data_waiting_def ensured_port [OF assms(1)] by blast
qed

lemma data_wf_maybe: "data_wf s \<Longrightarrow> data_wf (maybeDisconnectRuntimeDataPort d s)"
  by (auto simp: data_wf_def maybeDisconnectRuntimeDataPort_def data_waiting_def keys_map_delete simp del: set_map)

lemma mset_pending_delete:
  "map_wf m \<Longrightarrow> map_get m k = Some r \<Longrightarrow>
   mset (map (\<lambda>e. dr_no (snd e)) m) = add_mset (dr_no r) (mset (map (\<lambda>e. dr_no (snd e)) (map_delete m k)))"
proof (induction m)
  case (Cons e m)
  show ?case
  proof (cases "fst e = k")
    case True
    with Cons.prems have "map_delete m k = m" by (auto simp: delete_idem)
    with True Cons.prems show ?thesis by (cases e) (auto simp: AList.delete_eq)
  next
    case False
    with Cons show ?thesis by (cases e) (auto simp: AList.delete_eq)
  qed
qed simp

lemma set_map_delete: "set (map_delete m k) = {e \<in> set m. fst e \<noteq> k}"
  by (auto simp: AList.delete_eq)

lemma data_wf_settle:
  assumes "data_wf s" "map_get (dt_pending s) k = Some r"
  shows "data_wf (settle_data st d r (s\<lparr>dt_pending := map_delete (dt_pending s) k\<rparr>))"
proof -
  have wf: "map_wf (dt_pending s)" using assms by (simp add: data_wf_def)
  show ?thesis
    using assms mset_pending_delete [OF wf assms(2)] map_wf_delete [OF wf, of k]
    unfolding data_wf_def settle_data_def data_waiting_def
    by (auto simp: set_map_delete)
qed

definition failed_answer :: "data_request \<Rightarrow> nat \<times> nat \<times> 'd data_result" where
  "failed_answer r = (dr_no r, dr_port r, handleWorkerReportResponse (dr_kind r) (dr_msgReqId r) (Some 503) None)"

text \<open>Failing a part of the table in closed form.\<close>

lemma map_delete_filter: "map_delete m k = filter (\<lambda>e. fst e \<noteq> k) m"
  by (auto simp: AList.delete_eq intro: filter_cong)

lemma fail_fold:
  "fold (fail_one P) es s = s\<lparr>
     dt_pending := filter (\<lambda>e. fst e \<notin> set (map fst (filter (\<lambda>x. P (snd x)) es))) (dt_pending s),
     dt_settled := dt_settled s @ map (\<lambda>e. failed_answer (snd e)) (filter (\<lambda>e. P (snd e)) es)\<rparr>"
proof (induction es arbitrary: s)
  case (Cons e es)
  then show ?case
    by (simp add: fail_one_def settle_data_def failed_answer_def map_delete_filter conj_commute del: set_map)
qed simp

lemma failed_part:
  assumes "map_wf m"
  shows "filter (\<lambda>e. fst e \<notin> set (map fst (filter (\<lambda>x. P (snd x)) m))) m = filter (\<lambda>e. \<not> P (snd e)) m"
proof (rule filter_cong [OF refl])
  fix e assume e: "e \<in> set m"
  have "fst e \<in> set (map fst (filter (\<lambda>x. P (snd x)) m)) \<longleftrightarrow> P (snd e)"
  proof
    assume "fst e \<in> set (map fst (filter (\<lambda>x. P (snd x)) m))"
    then obtain x where x: "x \<in> set m" "P (snd x)" "fst x = fst e" by auto
    with e assms have "x = e" by (metis distinct_map inj_onD)
    with x show "P (snd e)" by simp
  qed (use e in force)
  then show "(fst e \<notin> set (map fst (filter (\<lambda>x. P (snd x)) m))) = (\<not> P (snd e))" by simp
qed

lemma fail_pending_eq:
  assumes "map_wf (dt_pending s)"
  shows "fail_pending P s = s\<lparr>dt_pending := filter (\<lambda>e. \<not> P (snd e)) (dt_pending s),
     dt_settled := dt_settled s @ map (\<lambda>e. failed_answer (snd e)) (filter (\<lambda>e. P (snd e)) (dt_pending s))\<rparr>"
  unfolding fail_pending_def fail_fold failed_part [OF assms] ..

lemma mset_failed:
  "mset (map (\<lambda>e. dr_no (snd e)) m) = mset (map (\<lambda>e. dr_no (snd e)) (filter (\<lambda>e. \<not> P (snd e)) m))
     + mset (map fst (map (\<lambda>e. failed_answer (snd e)) (filter (\<lambda>e. P (snd e)) m)))"
  by (induction m) (auto simp: failed_answer_def)

lemma data_wf_fail:
  assumes "data_wf s" "(\<lambda>e. dr_deviceId (snd e)) ` {e \<in> set (dt_pending s). \<not> P (snd e)} \<subseteq> set (map_keys ports)"
  shows "data_wf (fail_pending P (s\<lparr>dt_ports := ports\<rparr>))"
proof -
  have wf: "map_wf (dt_pending s)" using assms(1) by (simp add: data_wf_def)
  have "map_wf (filter (\<lambda>e. \<not> P (snd e)) (dt_pending s))" by (rule map_wf_filter [OF wf])
  then show ?thesis
    using assms mset_failed [of "dt_pending s" P] unfolding data_wf_def
    by (auto simp: fail_pending_eq [OF wf] fail_pending_eq data_waiting_def comp_def)
qed

lemma data_wf_disconnected:
  assumes "data_wf s"
  shows "data_wf (runtimeDisconnected d port s)"
proof -
  have "(\<lambda>e. dr_deviceId (snd e)) ` {e \<in> set (dt_pending s). \<not> dr_deviceId (snd e) = d}
      \<subseteq> set (map_keys (map_delete (dt_ports s) d))"
    using assms unfolding data_wf_def keys_map_delete by blast
  from data_wf_fail [OF assms this] assms show ?thesis by (simp add: runtimeDisconnected_def)
qed

lemma data_wf_fail_key:
  assumes "data_wf s"
  shows "data_wf (fail_pending P s)"
proof -
  have "(\<lambda>e. dr_deviceId (snd e)) ` {e \<in> set (dt_pending s). \<not> P (snd e)} \<subseteq> set (map_keys (dt_ports s))"
    using assms unfolding data_wf_def by blast
  from data_wf_fail [OF assms this] show ?thesis by simp
qed

lemma data_wf_report:
  assumes "data_wf s" "length (dt_pending s) < MAX_SAFE_INTEGER"
  shows "data_wf (onDataPortMessage connects throws key kind n port d s)"
proof -
  define reqId where "reqId = allocateDataReqId (map_keys (dt_pending s)) (dt_seq s)"
  define r where "r = \<lparr>dr_no = length (dt_issued s), dr_kind = kind, dr_msgReqId = n, dr_port = port, dr_key = key, dr_deviceId = d\<rparr>"
  have seq: "dt_seq s \<le> MAX_SAFE_INTEGER" using assms(1) by (simp add: data_wf_def)
  have fresh: "reqId \<notin> set (map_keys (dt_pending s))" "0 < reqId" "reqId \<le> MAX_SAFE_INTEGER"
    unfolding reqId_def using allocate_fresh [OF _ seq, of "map_keys (dt_pending s)"] assms(2) by simp_all
  have new: "map_set (dt_pending s) reqId r = dt_pending s @ [(reqId, r)]" by (rule map_set_new [OF fresh(1)])
  show ?thesis
  proof (cases "ensureRuntimeDataPort connects d (s\<lparr>dt_seq := reqId\<rparr>)")
    case None
    with assms(1) fresh(3) show ?thesis
      by (simp add: onDataPortMessage_def Let_def reqId_def [symmetric] data_wf_def data_waiting_def)
  next
    case (Some s1)
    define s2 where "s2 = s1\<lparr>dt_issued := dt_issued s @ [length (dt_issued s)], dt_pending := map_set (dt_pending s1) reqId r\<rparr>"
    note s1 = ensured_port(1,4,5,6) [OF Some, simplified] ensured_port(2) [OF Some]
    have "(\<lambda>e. dr_deviceId (snd e)) ` set (dt_pending s) \<subseteq> set (map_keys (dt_ports s1))"
      using data_wf_ports [OF data_wf_ensure [OF Some data_wf_seq [OF assms(1) fresh(3)]]] unfolding s1(1) .
    with assms(1) s1 fresh new have "data_wf s2"
      by (auto simp: data_wf_def s2_def data_waiting_def r_def simp del: set_map)
    moreover have "map_get (dt_pending s2) reqId = Some r" by (simp add: s2_def js_map_simps)
    ultimately show ?thesis
      using data_wf_settle [of s2 reqId r "Some 500" None] Some
      unfolding onDataPortMessage_def Let_def reqId_def [symmetric] r_def [symmetric]
      by (simp add: s2_def [symmetric] Let_def)
  qed
qed

lemma data_wf_fields [simp]:
  "data_wf (s\<lparr>dt_nmPlanes := a\<rparr>) = data_wf s" "data_wf (s\<lparr>dt_openAttempts := b\<rparr>) = data_wf s"
  by (simp_all add: data_wf_def data_waiting_def)

lemma data_wf_step: "data_wf s \<Longrightarrow> data_wf (data_step e s)"
proof (cases e)
  case (RuntimeResponse d k st x)
  assume "data_wf s"
  with RuntimeResponse show ?thesis
    by (auto simp: runtimeResponse_def intro: data_wf_maybe data_wf_settle split: option.split)
qed (auto simp: data_wf_report data_wf_disconnected data_wf_maybe despawnReports_def port_ensured_def
    useNativeMessaging_def retainNmOpenAttempt_def releaseNmOpenAttempt_def data_wf_fail_key Let_def
    intro: data_wf_ensure split: option.split)

lemma maybe_fields [simp]:
  "dt_settled (maybeDisconnectRuntimeDataPort d s) = dt_settled s" "dt_issued (maybeDisconnectRuntimeDataPort d s) = dt_issued s"
  "dt_lost (maybeDisconnectRuntimeDataPort d s) = dt_lost s"
  by (simp_all add: maybeDisconnectRuntimeDataPort_def)

lemma ensured_fields [simp]:
  "dt_settled (port_ensured c d s) = dt_settled s" "dt_issued (port_ensured c d s) = dt_issued s"
  "dt_lost (port_ensured c d s) = dt_lost s" "dt_settled (useNativeMessaging c k d s) = dt_settled s"
  "dt_issued (useNativeMessaging c k d s) = dt_issued s" "dt_lost (useNativeMessaging c k d s) = dt_lost s"
  by (auto simp: port_ensured_def useNativeMessaging_def ensured_port split: option.split)

lemma data_grows:
  assumes "data_wf s"
  shows "prefix (dt_settled s) (dt_settled (data_step e s))" "prefix (dt_issued s) (dt_issued (data_step e s))"
proof -
  have gone: "prefix (dt_settled s) (dt_settled (fail_pending P (s\<lparr>dt_ports := m\<rparr>)))"
    "dt_issued (fail_pending P (s\<lparr>dt_ports := m\<rparr>)) = dt_issued s"
    "prefix (dt_settled s) (dt_settled (fail_pending P s))" "dt_issued (fail_pending P s) = dt_issued s" for P m
    using assms by (simp_all add: fail_pending_eq data_wf_def)
  show "prefix (dt_settled s) (dt_settled (data_step e s))"
    by (cases e) (auto simp: onDataPortMessage_def runtimeResponse_def runtimeDisconnected_def despawnReports_def
      retainNmOpenAttempt_def releaseNmOpenAttempt_def settle_data_def Let_def gone ensured_port
      split: option.split)
  show "prefix (dt_issued s) (dt_issued (data_step e s))"
    by (cases e) (auto simp: onDataPortMessage_def runtimeResponse_def runtimeDisconnected_def despawnReports_def
      retainNmOpenAttempt_def releaseNmOpenAttempt_def settle_data_def Let_def gone ensured_port
      split: option.split)
qed

interpretation data_requests: requests data_step dt_issued data_waiting dt_settled data_wf
proof unfold_locales
  fix s :: "'a data_state"
  assume "data_wf s"
  then have "dt_issued s = [0..<length (dt_issued s)]" by (simp add: data_wf_def)
  then show "distinct (dt_issued s)" by (metis distinct_upt)
  show "mset (dt_issued s) = mset (data_waiting s) + mset (map fst (dt_settled s))"
    using \<open>data_wf s\<close> by (simp add: data_wf_def)
qed (auto intro: data_wf_step data_grows)

lemma initial_data_wf: "data_wf initial_data"
  by (simp add: initial_data_def data_wf_def data_waiting_def MAX_SAFE_INTEGER_def)

text \<open>A request is lost only when \<open>runtime.connect\<close> throws.\<close>

fun connect_throws :: "'d data_event \<Rightarrow> bool" where
  "connect_throws (ReportPosted connects throws key kind msgReqId port deviceId) = (\<not> connects)"
| "connect_throws _ = False"

lemma lost_step:
  assumes "data_wf s"
  shows "length (dt_lost (data_step e s)) \<le> length (dt_lost s) + length (filter connect_throws [e])"
proof -
  have failed: "dt_lost (fail_pending P (s\<lparr>dt_ports := m\<rparr>)) = dt_lost s" "dt_lost (fail_pending P s) = dt_lost s" for P m
    using assms by (simp_all add: fail_pending_eq data_wf_def)
  have report: "length (dt_lost (onDataPortMessage c t k kd n p d s)) \<le> length (dt_lost s) + (if c then 0 else 1)"
    for c t k kd n p d
    by (auto simp: onDataPortMessage_def ensureRuntimeDataPort_def settle_data_def Let_def split: option.split)
  show ?thesis
    using report [of True] report [of False]
    by (cases e) (auto simp: runtimeResponse_def runtimeDisconnected_def despawnReports_def retainNmOpenAttempt_def
      releaseNmOpenAttempt_def settle_data_def Let_def failed split: option.split)
qed

lemma lost_run: "length (dt_lost (fold data_step es initial_data)) \<le> length (filter connect_throws es)"
proof (induction es rule: rev_induct)
  case (snoc e es)
  have "data_wf (fold data_step es initial_data)" by (rule data_requests.inv_run [OF initial_data_wf])
  from lost_step [OF this, of e] snoc show ?case by (simp split: if_splits)
qed (simp add: initial_data_def)

section \<open>What the data plane over Native Messaging guarantees\<close>


text \<open>C30: The search for a request id ends: with fewer pending requests than there are safe integers, at
  most one round more than there are pending requests finds an id, which is a safe positive integer
  no pending request has.\<close>

theorem allocateDataReqId_ends:
  assumes "length pending < MAX_SAFE_INTEGER" "seq \<le> MAX_SAFE_INTEGER"
  shows "\<exists>m. allocate_loop (length pending + 1) pending seq = Some m \<and> allocateDataReqId pending seq = m
    \<and> m \<notin> set pending \<and> 1 \<le> m \<and> m \<le> MAX_SAFE_INTEGER"
  using allocate_returns [OF assms] allocate_fresh [OF assms] by (auto simp: allocateDataReqId_def)

theorem allocateDataReqId_ends_witness:
  "\<exists>m. allocate_loop (length [1, 2 :: nat] + 1) [1, 2] MAX_SAFE_INTEGER = Some m \<and> allocateDataReqId [1, 2] MAX_SAFE_INTEGER = m
    \<and> m \<notin> set [1, 2] \<and> 1 \<le> m \<and> m \<le> MAX_SAFE_INTEGER"
  using allocateDataReqId_ends [of "[1, 2]" MAX_SAFE_INTEGER]
  by (simp add: MAX_SAFE_INTEGER_def del: allocate_loop.simps)

end
