(* ===== verification/Device_Allowance.thy ===== *)
theory Device_Allowance
  imports Requests Js_String
begin

text \<open>
  The bridge's cache of the devices each origin may use (\<open>content/isolated/bridge.js\<close>):
  \<open>isDeviceAllowed\<close> and its queue of questions, \<open>loadAllowedDeviceIds\<close> and
  \<open>flushAllowedDeviceIdsQueue\<close>, and the \<open>allowedDevicesChanged\<close> messages of the background.
\<close>

section \<open>State and operations\<close>

text \<open>\<open>al_loads\<close> are the loads under way: of which origin, and whether \<open>allowedLoads\<close> holds it.  The
  last three fields are histories: the questions asked, the answers given, the sets the background
  told.\<close>

record 'd allowance =
  al_allowed :: "(string, 'd list) js_map"
  al_loaded :: "string list"
  al_loads :: "(string \<times> bool) list"
  al_queue :: "(string \<times> 'd \<times> nat) list"
  al_queries :: "(nat \<times> string \<times> 'd) list"
  al_settled :: "(nat \<times> bool) list"
  al_told :: "(string \<times> 'd list) list"

definition initial_allowance :: "'d allowance" where
  "initial_allowance = \<lparr>al_allowed = [], al_loaded = [], al_loads = [], al_queue = [], al_queries = [],
     al_settled = [], al_told = []\<rparr>"

definition allowed_set :: "'d allowance \<Rightarrow> string \<Rightarrow> 'd list" where
  "allowed_set s origin = (case map_get (al_allowed s) origin of None \<Rightarrow> [] | Some ids \<Rightarrow> ids)"

text \<open>The loop runs over the queue from its end and splices out the entries it resolves.\<close>

primrec flush_from :: "string \<Rightarrow> nat \<Rightarrow> 'd allowance \<Rightarrow> 'd allowance" where
  "flush_from origin 0 s = s"
| "flush_from origin (Suc i) s =
     (let e = al_queue s ! i
      in if fst e = origin
         then flush_from origin i
                (s\<lparr>al_queue := take i (al_queue s) @ drop (Suc i) (al_queue s),
                   al_settled := al_settled s @ [(snd (snd e), fst (snd e) \<in> set (allowed_set s origin))]\<rparr>)
         else flush_from origin i s)"

definition flushAllowedDeviceIdsQueue :: "string \<Rightarrow> 'd allowance \<Rightarrow> 'd allowance" where
  "flushAllowedDeviceIdsQueue origin s = flush_from origin (length (al_queue s)) s"

text \<open>What \<open>allowedDevicesChanged\<close> and the end of a load do with the set.\<close>

definition setAllowedDevices :: "string \<Rightarrow> 'd list \<Rightarrow> 'd allowance \<Rightarrow> 'd allowance" where
  "setAllowedDevices origin ids s =
     flushAllowedDeviceIdsQueue origin
       (s\<lparr>al_allowed := map_set (al_allowed s) origin ids, al_loaded := set_add (al_loaded s) origin,
          al_told := al_told s @ [(origin, ids)]\<rparr>)"

definition isDeviceAllowed :: "'d \<Rightarrow> string \<Rightarrow> 'd allowance \<Rightarrow> 'd allowance" where
  "isDeviceAllowed deviceId origin s =
     (let p = length (al_queries s);
          s1 = s\<lparr>al_queries := al_queries s @ [(p, origin, deviceId)]\<rparr>
      in if origin = [] then s1\<lparr>al_settled := al_settled s1 @ [(p, False)]\<rparr>
         else if origin \<in> set (al_loaded s1)
         then s1\<lparr>al_settled := al_settled s1 @ [(p, deviceId \<in> set (allowed_set s1 origin))]\<rparr>
         else let s2 = s1\<lparr>al_queue := al_queue s1 @ [(origin, deviceId, p)]\<rparr>
              in if (origin, True) \<in> set (al_loads s2) then s2
                 else s2\<lparr>al_loads := al_loads s2 @ [(origin, True)]\<rparr>)"

text \<open>A load that is not one of \<open>isDeviceAllowed\<close>: after the handshake, after a grant.\<close>

definition startLoad :: "string \<Rightarrow> 'd allowance \<Rightarrow> 'd allowance" where
  "startLoad origin s = s\<lparr>al_loads := al_loads s @ [(origin, False)]\<rparr>"

text \<open>A load comes back: the ids, or none where the request failed or the answer holds no list.\<close>

definition loadAnswered :: "nat \<Rightarrow> 'd list option \<Rightarrow> 'd allowance \<Rightarrow> 'd allowance" where
  "loadAnswered i resp s =
     (if i < length (al_loads s)
      then setAllowedDevices (fst (al_loads s ! i)) (case resp of None \<Rightarrow> [] | Some ids \<Rightarrow> ids)
             (s\<lparr>al_loads := take i (al_loads s) @ drop (Suc i) (al_loads s)\<rparr>)
      else s)"

datatype 'd allowance_event =
    DeviceQuery 'd string
  | DirectLoad string
  | LoadAnswer nat "'d list option"
  | DevicesChanged string "'d list"

fun allowance_step :: "'d allowance_event \<Rightarrow> 'd allowance \<Rightarrow> 'd allowance" where
  "allowance_step (DeviceQuery d origin) s = isDeviceAllowed d origin s"
| "allowance_step (DirectLoad origin) s = startLoad origin s"
| "allowance_step (LoadAnswer i resp) s = loadAnswered i resp s"
| "allowance_step (DevicesChanged origin ids) s = setAllowedDevices origin ids s"

section \<open>The flush is a filter\<close>

lemma flush_from_eq:
  "n \<le> length (al_queue s) \<Longrightarrow>
   flush_from origin n s = s\<lparr>
     al_queue := filter (\<lambda>e. fst e \<noteq> origin) (take n (al_queue s)) @ drop n (al_queue s),
     al_settled := al_settled s @ map (\<lambda>e. (snd (snd e), fst (snd e) \<in> set (allowed_set s origin)))
       (rev (filter (\<lambda>e. fst e = origin) (take n (al_queue s))))\<rparr>"
proof (induction n arbitrary: s)
  case (Suc n)
  then have n: "n < length (al_queue s)" by simp
  then have t: "take (Suc n) (al_queue s) = take n (al_queue s) @ [al_queue s ! n]"
    "drop n (al_queue s) = al_queue s ! n # drop (Suc n) (al_queue s)"
    by (simp_all add: take_Suc_conv_app_nth Cons_nth_drop_Suc)
  show ?case using Suc.IH n by (auto simp: t Let_def allowed_set_def)
qed simp

lemma flush_eq:
  "flushAllowedDeviceIdsQueue origin s = s\<lparr>
     al_queue := filter (\<lambda>e. fst e \<noteq> origin) (al_queue s),
     al_settled := al_settled s @ map (\<lambda>e. (snd (snd e), fst (snd e) \<in> set (allowed_set s origin)))
       (rev (filter (\<lambda>e. fst e = origin) (al_queue s)))\<rparr>"
  by (simp add: flushAllowedDeviceIdsQueue_def flush_from_eq)

lemma setAllowedDevices_eq:
  "setAllowedDevices origin ids s = s\<lparr>
     al_allowed := map_set (al_allowed s) origin ids, al_loaded := set_add (al_loaded s) origin,
     al_told := al_told s @ [(origin, ids)],
     al_queue := filter (\<lambda>e. fst e \<noteq> origin) (al_queue s),
     al_settled := al_settled s @ map (\<lambda>e. (snd (snd e), fst (snd e) \<in> set ids))
       (rev (filter (\<lambda>e. fst e = origin) (al_queue s)))\<rparr>"
  by (simp add: setAllowedDevices_def flush_eq allowed_set_def js_map_simps)

section \<open>The cache keeps the contract of requests\<close>

definition allowance_waiting :: "'d allowance \<Rightarrow> nat list" where
  "allowance_waiting s = map (\<lambda>e. snd (snd e)) (al_queue s)"

text \<open>The queries answered yes and no stand for a device and an origin.\<close>

definition query_of :: "string \<times> 'd \<times> nat \<Rightarrow> nat \<times> string \<times> 'd" where
  "query_of e = (snd (snd e), fst e, fst (snd e))"

text \<open>A yes is covered by a set the background told for the origin.\<close>

definition told_allowed :: "'d allowance \<Rightarrow> nat \<Rightarrow> bool" where
  "told_allowed s p \<longleftrightarrow>
     (\<exists>origin d ids. (p, origin, d) \<in> set (al_queries s) \<and> (origin, ids) \<in> set (al_told s) \<and> d \<in> set ids)"

definition allowance_wf :: "'d allowance \<Rightarrow> bool" where
  "allowance_wf s \<longleftrightarrow>
     map fst (al_queries s) = [0..<length (al_queries s)]
     \<and> mset [0..<length (al_queries s)] = mset (allowance_waiting s) + mset (map fst (al_settled s))
     \<and> query_of ` set (al_queue s) \<subseteq> set (al_queries s)
     \<and> fst ` set (al_queue s) \<inter> set (al_loaded s) = {}
     \<and> (\<lambda>e. (fst e, True)) ` set (al_queue s) \<subseteq> set (al_loads s)
     \<and> (\<forall>origin ids. map_get (al_allowed s) origin = Some ids \<longrightarrow> (origin, ids) \<in> set (al_told s))
     \<and> (\<forall>p. (p, True) \<in> set (al_settled s) \<longrightarrow> told_allowed s p)"

lemma mset_filter_split: "mset (map f xs) = mset (map f (filter P xs)) + mset (map f (filter (\<lambda>x. \<not> P x) xs))"
  by (induction xs) auto

lemma set_allowed_wf:
  assumes "allowance_wf s"
  shows "allowance_wf (setAllowedDevices origin ids s)"
proof -
  let ?t = "setAllowedDevices origin ids s"
  have told: "told_allowed ?t p" if "told_allowed s p" for p
    using that by (auto simp: told_allowed_def setAllowedDevices_eq)
  have yes: "told_allowed ?t p" if "(origin, d, p) \<in> set (al_queue s)" "d \<in> set ids" for p d
  proof -
    have "query_of (origin, d, p) \<in> set (al_queries s)"
      using assms that(1) unfolding allowance_wf_def by blast
    with that(2) show ?thesis by (auto simp: told_allowed_def setAllowedDevices_eq query_of_def)
  qed
  have "\<forall>p. (p, True) \<in> set (al_settled ?t) \<longrightarrow> told_allowed ?t p"
    using assms told yes by (auto simp: allowance_wf_def setAllowedDevices_eq)
  moreover have "mset (allowance_waiting s) = mset (allowance_waiting ?t)
      + mset (map (\<lambda>e. snd (snd e)) (rev (filter (\<lambda>e. fst e = origin) (al_queue s))))"
    using mset_filter_split [of "\<lambda>e. snd (snd e)" "al_queue s" "\<lambda>e. fst e \<noteq> origin"]
    by (simp add: allowance_waiting_def setAllowedDevices_eq)
  moreover have "fst ` set (al_queue ?t) \<inter> set (al_loaded ?t) = {}"
    "query_of ` set (al_queue ?t) \<subseteq> set (al_queries ?t)"
    "(\<lambda>e. (fst e, True)) ` set (al_queue ?t) \<subseteq> set (al_loads ?t)"
    using assms by (auto simp: allowance_wf_def setAllowedDevices_eq set_add_def)
  moreover have "\<forall>origin ids. map_get (al_allowed ?t) origin = Some ids \<longrightarrow> (origin, ids) \<in> set (al_told ?t)"
    using assms by (simp add: allowance_wf_def setAllowedDevices_eq js_map_simps)
  ultimately show ?thesis
    using assms unfolding allowance_wf_def by (simp add: setAllowedDevices_eq comp_def)
qed

lemma device_query_wf:
  assumes "allowance_wf s"
  shows "allowance_wf (isDeviceAllowed d origin s)"
proof -
  let ?p = "length (al_queries s)" and ?t = "isDeviceAllowed d origin s"
  have told: "told_allowed ?t p" if "told_allowed s p" for p
    using that by (auto simp: told_allowed_def isDeviceAllowed_def Let_def)
  have yes: "told_allowed ?t ?p" if "d \<in> set (allowed_set s origin)"
  proof -
    from that obtain ids where ids: "map_get (al_allowed s) origin = Some ids" "d \<in> set ids"
      by (cases "map_get (al_allowed s) origin") (simp_all add: allowed_set_def)
    then have "(origin, ids) \<in> set (al_told s)" using assms by (simp add: allowance_wf_def)
    with ids show ?thesis by (auto simp: told_allowed_def isDeviceAllowed_def Let_def)
  qed
  have same: "allowed_set (s\<lparr>al_queries := x\<rparr>) origin = allowed_set s origin" for x
    by (simp add: allowed_set_def)
  have "\<forall>p. (p, True) \<in> set (al_settled ?t) \<longrightarrow> told_allowed ?t p"
    using assms told yes by (auto simp: allowance_wf_def isDeviceAllowed_def Let_def same split: if_splits)
  with assms show ?thesis
    by (auto simp: allowance_wf_def isDeviceAllowed_def Let_def allowance_waiting_def query_of_def
        atLeast0_lessThan_Suc)
qed

lemma allowance_step_wf: "allowance_wf s \<Longrightarrow> allowance_wf (allowance_step e s)"
proof (cases e)
  case (LoadAnswer i resp)
  assume wf: "allowance_wf s"
  show ?thesis
  proof (cases "i < length (al_loads s)")
    case True
    let ?o = "fst (al_loads s ! i)"
    let ?ids = "case resp of None \<Rightarrow> [] | Some ids \<Rightarrow> ids"
    have loads: "al_loads s = take i (al_loads s) @ al_loads s ! i # drop (Suc i) (al_loads s)"
      by (rule id_take_nth_drop [OF True])
    have others: "(a, True) \<in> set (take i (al_loads s) @ drop (Suc i) (al_loads s))"
      if "(a, True) \<in> set (al_loads s)" "a \<noteq> ?o" for a
    proof -
      have "(a, True) \<noteq> al_loads s ! i" using that(2) by (metis fst_conv)
      with that(1) show ?thesis by (subst (asm) loads) auto
    qed
    have "allowance_wf (setAllowedDevices ?o ?ids s)" by (rule set_allowed_wf [OF wf])
    moreover have "loadAnswered i resp s
        = (setAllowedDevices ?o ?ids s)\<lparr>al_loads := take i (al_loads s) @ drop (Suc i) (al_loads s)\<rparr>"
      using True by (simp add: loadAnswered_def setAllowedDevices_eq)
    moreover have "(\<lambda>e. (fst e, True)) ` set (al_queue (setAllowedDevices ?o ?ids s))
        \<subseteq> set (take i (al_loads s) @ drop (Suc i) (al_loads s))"
      using others wf by (auto simp: allowance_wf_def setAllowedDevices_eq simp del: set_append)
    ultimately show ?thesis using LoadAnswer
      by (simp add: allowance_wf_def allowance_waiting_def told_allowed_def)
  qed (simp add: LoadAnswer loadAnswered_def wf)
next
  case (DirectLoad origin)
  assume "allowance_wf s"
  then show ?thesis
    using DirectLoad by (auto simp: allowance_wf_def startLoad_def allowance_waiting_def told_allowed_def)
qed (simp_all add: device_query_wf set_allowed_wf)

abbreviation allowance_issued :: "'d allowance \<Rightarrow> nat list" where
  "allowance_issued s \<equiv> map fst (al_queries s)"

lemma allowance_grows:
  "prefix (map fst (al_queries s)) (map fst (al_queries (allowance_step e s)))"
  "prefix (al_settled s) (al_settled (allowance_step e s))"
  by (cases e; simp add: isDeviceAllowed_def startLoad_def loadAnswered_def setAllowedDevices_eq Let_def)+

interpretation allowance: requests allowance_step allowance_issued allowance_waiting al_settled allowance_wf
proof unfold_locales
  fix s :: "'a allowance"
  assume "allowance_wf s"
  then have ids: "map fst (al_queries s) = [0..<length (al_queries s)]"
    and "mset [0..<length (al_queries s)] = mset (allowance_waiting s) + mset (map fst (al_settled s))"
    by (simp_all add: allowance_wf_def)
  then show "distinct (map fst (al_queries s))"
    "mset (map fst (al_queries s)) = mset (allowance_waiting s) + mset (map fst (al_settled s))"
    by simp_all
qed (auto intro: allowance_step_wf allowance_grows)

lemma initial_allowance_wf: "allowance_wf initial_allowance"
  by (simp add: initial_allowance_def allowance_wf_def allowance_waiting_def)

section \<open>What a run of the cache guarantees\<close>

text \<open>C15: Whatever the frames ask and the background answers, no question about a device is answered
  twice; every question is answered or waits, and one that waits has a load of its origin under way,
  whose answer answers it; a yes is given only for a device in a set the background told for the
  origin of the question.\<close>

theorem allowance_questions:
  fixes es :: "'a allowance_event list"
  shows
  "let s = fold allowance_step es initial_allowance
   in distinct (map fst (al_settled s))
      \<and> mset [0..<length (al_queries s)] = mset (allowance_waiting s) + mset (map fst (al_settled s))
      \<and> (\<lambda>e. (fst e, True)) ` set (al_queue s) \<subseteq> set (al_loads s)
      \<and> {p. (p, True) \<in> set (al_settled s)}
          \<subseteq> {p. \<exists>origin d ids. (p, origin, d) \<in> set (al_queries s) \<and> (origin, ids) \<in> set (al_told s)
                \<and> d \<in> set ids}"
proof -
  define s :: "'a allowance" where "s = fold allowance_step es initial_allowance"
  have wf: "allowance_wf s"
    unfolding s_def by (rule allowance.inv_run [OF initial_allowance_wf])
  with allowance.settled_once [OF wf] show ?thesis
    unfolding s_def [symmetric] Let_def by (simp add: allowance_wf_def told_allowed_def) blast
qed

lemma load_answers_waiting:
  "i < length (al_loads s) \<Longrightarrow> (origin, d, p) \<in> set (al_queue s) \<Longrightarrow> fst (al_loads s ! i) = origin \<Longrightarrow>
   (p, d \<in> set ids) \<in> set (al_settled (loadAnswered i (Some ids) s))"
  by (force simp: loadAnswered_def setAllowedDevices_eq)

end
