(* ===== verification/Csp.thy ===== *)
theory Csp
  imports Js_String "HOL-Library.AList"
begin

text \<open>
  \<open>addon/js/background/csp.js\<close>: reading a \<open>Content-Security-Policy\<close> and rewriting it so
  that the extension's data worker can be spawned from a blob and reach the daemon, and the
  proof that the rewriting opens what it must and leaves every other directive alone.
\<close>

section \<open>Directives\<close>

definition CSP_DIRECTIVE_NAMES :: "string list" where
  "CSP_DIRECTIVE_NAMES =
     [''default-src'', ''script-src'', ''script-src-elem'', ''script-src-attr'', ''style-src'',
      ''style-src-elem'', ''style-src-attr'', ''img-src'', ''connect-src'', ''worker-src'',
      ''child-src'', ''frame-src'', ''font-src'', ''media-src'', ''object-src'', ''manifest-src'',
      ''prefetch-src'', ''navigate-to'', ''form-action'', ''base-uri'', ''sandbox'',
      ''frame-ancestors'', ''plugin-types'', ''report-uri'', ''report-to'',
      ''upgrade-insecure-requests'', ''block-all-mixed-content'', ''require-sri-for'',
      ''trusted-types'', ''require-trusted-types-for'']"

definition hasUnseparatedDirective :: "string \<Rightarrow> bool" where
  "hasUnseparatedDirective csp \<longleftrightarrow>
     list_ex (\<lambda>raw. list_ex (\<lambda>token. toLowerCase token \<in> set CSP_DIRECTIVE_NAMES)
                      (tl (split_ws (trim raw))))
       (split_on CHR '';'' csp)"

definition segment_words :: "string \<Rightarrow> string list" where
  "segment_words raw = split_ws (trim raw)"

definition segment_name :: "string \<Rightarrow> string" where
  "segment_name raw = toLowerCase (hd (segment_words raw))"

definition segment_value :: "string \<Rightarrow> string" where
  "segment_value raw = join_with '' '' (tl (segment_words raw))"

text \<open>The loop of \<open>parseDirectives\<close>: the first occurrence of a name wins.  The accumulator is a
  plain object, so the two lower-case names every object inherits are taken to be present.\<close>

definition inherited_names :: "string list" where
  "inherited_names = [''constructor'', ''__proto__'']"

definition parse_segments :: "string list \<Rightarrow> (string, string) js_map" where
  "parse_segments segments =
     fold (\<lambda>raw directives.
             if trim raw = [] then directives
             else if segment_name raw \<in> set inherited_names \<or> map_has directives (segment_name raw)
             then directives
             else map_set directives (segment_name raw) (segment_value raw))
       segments []"

definition parseDirectives :: "string \<Rightarrow> (string, string) js_map" where
  "parseDirectives csp = parse_segments (split_on CHR '';'' csp)"

definition sourceListAllowsWorker :: "string \<Rightarrow> string \<Rightarrow> bool" where
  "sourceListAllowsWorker lst origin \<longleftrightarrow>
     (\<exists>t \<in> {''*'', [CHR 0x27] @ ''self'' @ [CHR 0x27], origin, ''http:'', ''https:''}.
        t \<in> set (split_ws lst))"

definition daemon_sources :: "string list" where
  "daemon_sources = [''*'', ''ws:'', ''ws://127.0.0.1:*'', ''https:'', ''https://127.0.0.1:*'']"

definition sourceListAllowsDaemonConnects :: "string \<Rightarrow> bool" where
  "sourceListAllowsDaemonConnects lst \<longleftrightarrow> (\<exists>t \<in> set daemon_sources. t \<in> set (split_ws lst))"

section \<open>Rewriting\<close>

definition first_index :: "(string \<Rightarrow> bool) \<Rightarrow> string list \<Rightarrow> nat option" where
  "first_index P xs = find (\<lambda>i. P (xs ! i)) [0 ..< length xs]"

text \<open>\<open>appendToDirective\<close>: the new segments, and whether anything changed.\<close>

definition appendToDirective :: "string \<Rightarrow> string \<Rightarrow> string list \<times> bool \<Rightarrow> string list \<times> bool" where
  "appendToDirective name token = (\<lambda>(segments, modified).
     case first_index (\<lambda>s. segment_name s = name) segments of
       None \<Rightarrow> (segments, modified)
     | Some i \<Rightarrow>
         if token \<in> set (tl (segment_words (segments ! i))) then (segments, modified)
         else (segments[i := trim (segments ! i) @ '' '' @ token], True))"

text \<open>\<open>appendDirective\<close>: before a trailing empty segment, else at the end.\<close>

definition appendDirective :: "string \<Rightarrow> string \<Rightarrow> string list \<times> bool \<Rightarrow> string list \<times> bool" where
  "appendDirective name val = (\<lambda>(segments, modified).
     let segment = name @ (if val = [] then [] else '' '' @ val)
     in if segments \<noteq> [] \<and> trim (last segments) = []
        then (butlast segments @ [segment, last segments], True)
        else (segments @ [segment], True))"

definition allow_worker :: "(string, string) js_map \<Rightarrow> string list \<times> bool \<Rightarrow> string list \<times> bool" where
  "allow_worker directives =
     (case map_get directives ''worker-src'' of
        Some v \<Rightarrow> if ''blob:'' \<in> set (split_ws v) then id else appendToDirective ''worker-src'' ''blob:''
      | None \<Rightarrow>
          (case (map_get directives ''script-src'', map_get directives ''default-src'') of
             (Some fallback, _) \<Rightarrow> appendDirective ''worker-src'' (fallback @ '' blob:'')
           | (None, Some fallback) \<Rightarrow> appendDirective ''worker-src'' (fallback @ '' blob:'')
           | (None, None) \<Rightarrow> id))"

definition allow_connect :: "(string, string) js_map \<Rightarrow> string list \<times> bool \<Rightarrow> string list \<times> bool" where
  "allow_connect directives =
     (case map_get directives ''connect-src'' of
        Some v \<Rightarrow>
          if sourceListAllowsDaemonConnects v then id
          else appendToDirective ''connect-src'' ''https://127.0.0.1:*''
                 \<circ> appendToDirective ''connect-src'' ''ws://127.0.0.1:*''
      | None \<Rightarrow>
          (case map_get directives ''default-src'' of
             Some fallback \<Rightarrow>
               appendDirective ''connect-src'' (fallback @ '' ws://127.0.0.1:* https://127.0.0.1:*'')
           | None \<Rightarrow> id))"

definition allow_trusted_types ::
    "(string, string) js_map \<Rightarrow> string list \<times> bool \<Rightarrow> string list \<times> bool" where
  "allow_trusted_types directives =
     (case map_get directives ''trusted-types'' of
        None \<Rightarrow> appendDirective ''trusted-types'' ''webhid-worker''
      | Some v \<Rightarrow> if ''webhid-worker'' \<in> set (split_ws v) then id
                  else appendToDirective ''trusted-types'' ''webhid-worker'')"

definition rewriteCspValue :: "string \<Rightarrow> bool \<Rightarrow> string \<times> bool" where
  "rewriteCspValue csp hasTrustedTypesRequire =
     (if hasUnseparatedDirective csp then (csp, False)
      else
        let directives = parseDirectives csp;
            (segments, modified) =
              (if hasTrustedTypesRequire then allow_trusted_types directives else id)
                (allow_connect directives (allow_worker directives (split_on CHR '';'' csp, False)))
        in (join_with '';'' segments, modified))"

definition quoted :: "string \<Rightarrow> string" where "quoted s = [CHR 0x27] @ s"

definition governing_index :: "string list \<Rightarrow> nat option" where
  "governing_index segments =
     (case first_index (\<lambda>s. segment_name s = ''script-src-elem'') segments of
        Some i \<Rightarrow> Some i
      | None \<Rightarrow>
          (case first_index (\<lambda>s. segment_name s = ''script-src'') segments of
             Some i \<Rightarrow> Some i
           | None \<Rightarrow> first_index (\<lambda>s. segment_name s = ''default-src'') segments))"

definition allowInlineScript :: "string \<Rightarrow> string \<Rightarrow> string option" where
  "allowInlineScript csp token =
     (if hasUnseparatedDirective csp then None
      else
        let segments = split_on CHR '';'' csp
        in case governing_index segments of
             None \<Rightarrow> None
           | Some i \<Rightarrow>
               let val = trim (segments ! i);
                   hasUnsafeInline = includes_str val (quoted ''unsafe-inline'' @ [CHR 0x27]);
                   hasNonce = includes_str val (quoted ''nonce-'');
                   hasHash = includes_str val (quoted ''sha256-'') \<or> includes_str val (quoted ''sha384-'')
                             \<or> includes_str val (quoted ''sha512-'')
               in if includes_str val token then None
                  else if hasUnsafeInline \<and> \<not> hasNonce \<and> \<not> hasHash then None
                  else Some (join_with '';'' (segments[i := val @ '' '' @ token])))"

type_synonym header = "string \<times> string"

definition rewriteCspForBlob :: "header list \<Rightarrow> bool \<Rightarrow> header list option" where
  "rewriteCspForBlob headers hasTrustedTypesRequire =
     (let rewritten = map (\<lambda>(name, v).
            if toLowerCase name \<noteq> ''content-security-policy'' then ((name, v), False)
            else let (v', changed) = rewriteCspValue v hasTrustedTypesRequire
                 in ((name, v'), changed)) headers
      in if list_ex snd rewritten then Some (map fst rewritten) else None)"

section \<open>Analysis\<close>

record csp_info =
  workerSrc :: "string option"
  connectSrc :: "string option"
  workerSrcBlocked :: bool
  connectSrcBlocked :: bool
  hasTrustedTypesRequire :: bool
  trustedTypesNames :: "string list"
  shadowBlocked :: bool
  needsBlobFallback :: bool

definition first_defined :: "'a option \<Rightarrow> 'a option \<Rightarrow> 'a option" where
  "first_defined a b = (case a of Some x \<Rightarrow> Some x | None \<Rightarrow> b)"

definition effective_worker :: "(string, string) js_map \<Rightarrow> string option" where
  "effective_worker directives =
     first_defined (map_get directives ''worker-src'')
       (first_defined (map_get directives ''script-src'') (map_get directives ''default-src''))"

definition effective_connect :: "(string, string) js_map \<Rightarrow> string option" where
  "effective_connect directives =
     first_defined (map_get directives ''connect-src'') (map_get directives ''default-src'')"

definition analyse_policy :: "string \<Rightarrow> string \<Rightarrow> csp_info \<Rightarrow> csp_info" where
  "analyse_policy pageOrigin csp info =
     (let directives = parseDirectives csp;
          effWorker = effective_worker directives;
          effConnect = effective_connect directives
      in info\<lparr>workerSrc := first_defined (workerSrc info) effWorker,
              connectSrc := first_defined (connectSrc info) effConnect,
              workerSrcBlocked := workerSrcBlocked info \<or>
                (case effWorker of Some v \<Rightarrow> \<not> sourceListAllowsWorker v pageOrigin | None \<Rightarrow> False),
              connectSrcBlocked := connectSrcBlocked info \<or>
                (case effConnect of Some v \<Rightarrow> \<not> sourceListAllowsDaemonConnects v | None \<Rightarrow> False),
              hasTrustedTypesRequire := hasTrustedTypesRequire info \<or>
                (case map_get directives ''require-trusted-types-for'' of
                   Some v \<Rightarrow> includes_str v (quoted ''script'' @ [CHR 0x27]) | None \<Rightarrow> False),
              trustedTypesNames :=
                (case map_get directives ''trusted-types'' of
                   Some v \<Rightarrow>
                     fold (\<lambda>token names.
                             if token \<in> {quoted ''none'' @ [CHR 0x27], quoted ''allow-duplicates'' @ [CHR 0x27]}
                             then names else set_add names token)
                       (split_ws v) (trustedTypesNames info)
                 | None \<Rightarrow> trustedTypesNames info)\<rparr>)"

definition parseCspForWorkerSpawn :: "string list \<Rightarrow> string \<Rightarrow> string \<Rightarrow> csp_info option" where
  "parseCspForWorkerSpawn cspValues spawnMode pageOrigin =
     (if cspValues = [] then None
      else
        let info = fold (analyse_policy pageOrigin) (concat (map (split_on CHR '','') cspValues))
              \<lparr>workerSrc = None, connectSrc = None, workerSrcBlocked = False,
               connectSrcBlocked = False, hasTrustedTypesRequire = False, trustedTypesNames = [],
               shadowBlocked = False, needsBlobFallback = False\<rparr>;
            blocked = workerSrcBlocked info \<or> connectSrcBlocked info \<or> hasTrustedTypesRequire info
        in Some (info\<lparr>shadowBlocked := blocked,
                       needsBlobFallback := spawnMode = ''blob'' \<or> spawnMode = ''shadow'' \<and> blocked\<rparr>))"

section \<open>Words of a segment\<close>

definition plain_word :: "string \<Rightarrow> bool" where
  "plain_word w \<longleftrightarrow> w \<noteq> [] \<and> (\<forall>c \<in> set w. \<not> is_ws c)"

text \<open>A text that neither starts nor ends with white space.\<close>

definition tight :: "string \<Rightarrow> bool" where
  "tight t \<longleftrightarrow> t \<noteq> [] \<and> \<not> is_ws (hd t) \<and> \<not> is_ws (last t)"

lemma hd_dropWhile_not: "dropWhile P s \<noteq> [] \<Longrightarrow> \<not> P (hd (dropWhile P s))"
  by (rule hd_dropWhile)

lemma trim_tight: "trim s = [] \<or> tight (trim s)"
proof (cases "trim s = []")
  case False
  let ?l = "trim_left s"
  have t: "trim s = rev (dropWhile is_ws (rev ?l))" by (simp add: trim_def trim_left_def)
  then have "last (trim s) = hd (dropWhile is_ws (rev ?l))"
    using False by (simp add: last_rev)
  then have last: "\<not> is_ws (last (trim s))"
    using False t hd_dropWhile_not [of is_ws "rev ?l"] by simp
  have "prefix (trim s) ?l"
    by (metis t rev_rev_ident suffix_dropWhile suffix_to_prefix)
  then have "hd (trim s) = hd ?l" using False by (auto simp: prefix_def)
  moreover have "?l \<noteq> []" using False t by auto
  ultimately have "\<not> is_ws (hd (trim s))"
    using hd_dropWhile_not [of is_ws s] by (simp add: trim_left_def)
  with last False show ?thesis by (simp add: tight_def)
qed simp

lemma trim_of_tight: "tight t \<Longrightarrow> trim t = t"
proof -
  assume t: "tight t"
  have "dropWhile is_ws t = t" using t by (cases t) (auto simp: tight_def)
  moreover have "dropWhile is_ws (rev t) = rev t"
    using t by (cases t rule: rev_cases) (auto simp: tight_def)
  ultimately show ?thesis by (simp add: trim_def trim_left_def)
qed

lemma split_ws_step:
  assumes "dropWhile (\<lambda>c. \<not> is_ws c) s = d # rest"
  shows "split_ws s = takeWhile (\<lambda>c. \<not> is_ws c) s # split_ws (dropWhile is_ws (d # rest))"
  using assms by (subst split_ws.simps) simp

lemma last_dropWhile: "dropWhile P s \<noteq> [] \<Longrightarrow> last (dropWhile P s) = last s"
  by (induction s) (auto split: if_splits)

lemma dropWhile_keeps_last: "s \<noteq> [] \<Longrightarrow> \<not> P (last s) \<Longrightarrow> dropWhile P s \<noteq> []"
  by (metis dropWhile_eq_Nil_conv last_in_set)

lemma split_ws_snoc:
  assumes "t \<noteq> []" "\<not> is_ws (last t)" "plain_word w" "is_ws e"
  shows "split_ws (t @ e # w) = split_ws t @ [w]"
  using assms(1,2)
proof (induction t rule: split_ws.induct)
  case (1 t)
  have w: "dropWhile is_ws w = w" using assms(3) by (cases w) (auto simp: plain_word_def)
  show ?case
  proof (cases "dropWhile (\<lambda>c. \<not> is_ws c) t")
    case Nil
    then have "\<forall>c \<in> set t. \<not> is_ws c" by (simp add: dropWhile_eq_Nil_conv)
    then show ?thesis
      using assms(3,4) w by (simp add: split_ws_space split_ws_word plain_word_def)
  next
    case (Cons d rest)
    let ?t' = "dropWhile is_ws (d # rest)"
    have d: "is_ws d" using hd_dropWhile_not [of "\<lambda>c. \<not> is_ws c" t] Cons by simp
    have last: "last (d # rest) = last t" using last_dropWhile [of "\<lambda>c. \<not> is_ws c" t] Cons by simp
    have t': "?t' \<noteq> []" "last ?t' = last t"
      using dropWhile_keeps_last [of "d # rest" is_ws] last_dropWhile [of is_ws "d # rest"] last "1.prems"(2)
      by simp_all
    then obtain x where x: "x \<in> set (d # rest)" "\<not> is_ws x"
      by (metis dropWhile_eq_Nil_conv)
    have ex: "\<exists>x \<in> set t. is_ws x" using Cons d by (metis dropWhile_eq_Nil_conv list.distinct(1))
    have drop: "dropWhile (\<lambda>c. \<not> is_ws c) (t @ e # w) = d # (rest @ e # w)"
      using Cons ex by (metis append_Cons dropWhile_append1)
    have take: "takeWhile (\<lambda>c. \<not> is_ws c) (t @ e # w) = takeWhile (\<lambda>c. \<not> is_ws c) t"
      using ex by (metis takeWhile_append1)
    have "dropWhile is_ws ((d # rest) @ e # w) = ?t' @ e # w"
      using x by (metis dropWhile_append1)
    then have "split_ws (t @ e # w) = takeWhile (\<lambda>c. \<not> is_ws c) t # split_ws (?t' @ e # w)"
      using split_ws_step [OF drop] take by simp
    with "1.IH" [OF Cons t'(1)] t'(2) "1.prems"(2) show ?thesis
      using split_ws_step [OF Cons] by simp
  qed
qed

lemma split_ws_plain:
  "tight t \<Longrightarrow> w \<in> set (split_ws t) \<Longrightarrow> plain_word w"
proof (induction t arbitrary: w rule: split_ws.induct)
  case (1 t)
  have hd: "t \<noteq> []" "\<not> is_ws (hd t)" "\<not> is_ws (last t)" using "1.prems"(1) by (auto simp: tight_def)
  show ?case
  proof (cases "dropWhile (\<lambda>c. \<not> is_ws c) t")
    case Nil
    then have "\<forall>c \<in> set t. \<not> is_ws c" by (simp add: dropWhile_eq_Nil_conv)
    with "1.prems" hd show ?thesis by (simp add: split_ws_word plain_word_def)
  next
    case (Cons d rest)
    let ?t' = "dropWhile is_ws (d # rest)"
    have last: "last (d # rest) = last t" using last_dropWhile [of "\<lambda>c. \<not> is_ws c" t] Cons by simp
    have t': "?t' \<noteq> []" "last ?t' = last t"
      using dropWhile_keeps_last [of "d # rest" is_ws] last_dropWhile [of is_ws "d # rest"] last hd(3)
      by simp_all
    then have "tight ?t'" using hd_dropWhile_not [of is_ws "d # rest"] hd(3) by (simp add: tight_def)
    moreover have "plain_word (takeWhile (\<lambda>c. \<not> is_ws c) t)"
      using hd by (cases t) (auto simp: plain_word_def dest: set_takeWhileD)
    ultimately show ?thesis
      using "1.IH" [OF Cons] "1.prems"(2) split_ws_step [OF Cons] by auto
  qed
qed

lemma plain_word_tight: "plain_word w \<Longrightarrow> tight w"
  by (cases w) (auto simp: plain_word_def tight_def)

lemma space_ws: "is_ws CHR '' ''"
  by (simp add: is_ws_def)

lemma split_ws_plain_word: "plain_word w \<Longrightarrow> split_ws w = [w]"
  by (simp add: plain_word_def split_ws_word)

lemma split_join_words:
  "ws \<noteq> [] \<Longrightarrow> \<forall>w \<in> set ws. plain_word w \<Longrightarrow>
   split_ws (join_with '' '' ws) = ws \<and> tight (join_with '' '' ws)"
proof (induction "'' ''" ws rule: join_with.induct)
  case 1
  then show ?case by simp
next
  case (2 w)
  then show ?case by (simp add: split_ws_plain_word plain_word_tight)
next
  case (3 w v ws)
  then have IH: "split_ws (join_with '' '' (v # ws)) = v # ws" "tight (join_with '' '' (v # ws))"
    and w: "plain_word w" by simp_all
  then have "dropWhile is_ws (join_with '' '' (v # ws)) = join_with '' '' (v # ws)"
    by (cases "join_with '' '' (v # ws)") (auto simp: tight_def)
  then have "split_ws (w @ CHR '' '' # join_with '' '' (v # ws)) = w # v # ws"
    using w IH(1) by (simp add: split_ws_space plain_word_def space_ws)
  moreover have "tight (w @ CHR '' '' # join_with '' '' (v # ws))"
    using w IH(2) by (cases w) (auto simp: tight_def plain_word_def)
  ultimately show ?case by simp
qed

lemma split_join_words': "\<forall>w \<in> set ws. plain_word w \<Longrightarrow> split_ws (join_with '' '' ws) = (if ws = [] then [[]] else ws)"
  using split_join_words [of ws] by simp

section \<open>Directives of a list of segments\<close>

definition find_segment :: "string \<Rightarrow> string list \<Rightarrow> string option" where
  "find_segment name segments = find (\<lambda>s. segment_name s = name) segments"

lemma segment_name_blank: "trim s = [] \<Longrightarrow> segment_name s = []"
  by (simp add: segment_name_def segment_words_def toLowerCase_def)

lemma segment_name_nonblank: "trim s \<noteq> [] \<Longrightarrow> segment_name s \<noteq> []"
proof -
  assume "trim s \<noteq> []"
  then have "tight (trim s)" using trim_tight by blast
  then have "plain_word (hd (split_ws (trim s)))"
    by (rule split_ws_plain) (rule hd_in_set, rule split_ws_nonempty)
  then show ?thesis by (simp add: segment_name_def segment_words_def toLowerCase_def plain_word_def)
qed

lemma parse_fold_get:
  assumes "name \<noteq> []" "name \<notin> set inherited_names"
  shows "map_get (fold (\<lambda>raw directives.
             if trim raw = [] then directives
             else if segment_name raw \<in> set inherited_names \<or> map_has directives (segment_name raw)
             then directives
             else map_set directives (segment_name raw) (segment_value raw)) segments acc) name =
     (case map_get acc name of Some v \<Rightarrow> Some v
      | None \<Rightarrow> map_option segment_value (find_segment name segments))"
proof (induction segments arbitrary: acc)
  case Nil
  then show ?case by (simp add: find_segment_def split: option.split)
next
  case (Cons s segments)
  show ?case
  proof (cases "segment_name s = name")
    case True
    then have "trim s \<noteq> []" using assms(1) segment_name_blank by auto
    with True assms(2) Cons show ?thesis
      by (auto simp: find_segment_def map_has_get js_map_simps split: option.split simp del: set_map)
  next
    case False
    then have "find_segment name (s # segments) = find_segment name segments"
      by (simp add: find_segment_def)
    with False show ?thesis
      by (simp add: Cons js_map_simps del: set_map split: option.split)
  qed
qed

lemma parse_segments_get:
  "name \<noteq> [] \<Longrightarrow> name \<notin> set inherited_names \<Longrightarrow>
   map_get (parse_segments segments) name = map_option segment_value (find_segment name segments)"
  unfolding parse_segments_def by (simp add: parse_fold_get)

lemma parse_fold_keys:
  "set (map_keys (fold (\<lambda>raw directives.
             if trim raw = [] then directives
             else if segment_name raw \<in> set inherited_names \<or> map_has directives (segment_name raw)
             then directives
             else map_set directives (segment_name raw) (segment_value raw)) segments acc))
   \<subseteq> set (map_keys acc) \<union> {name. name \<noteq> [] \<and> name \<notin> set inherited_names}"
proof (induction segments arbitrary: acc)
  case Nil
  then show ?case by simp
next
  case (Cons s segments)
  show ?case
    unfolding fold.simps comp_def
    by (rule order_trans [OF Cons]) (auto simp: js_map_simps segment_name_nonblank simp del: set_map)
qed

lemma parse_segments_none:
  assumes "name = [] \<or> name \<in> set inherited_names"
  shows "map_get (parse_segments segments) name = None"
  using parse_fold_keys [of segments "[]"] assms
  unfolding parse_segments_def map_of_eq_None_iff set_map [symmetric] by auto

lemma parse_segments_cong:
  assumes "find_segment name segments = find_segment name segments'"
  shows "map_get (parse_segments segments) name = map_get (parse_segments segments') name"
  using assms parse_segments_none parse_segments_get by metis

text \<open>The words of a directive's value.\<close>

lemma segment_words_plain: "trim s \<noteq> [] \<Longrightarrow> w \<in> set (segment_words s) \<Longrightarrow> plain_word w"
  using trim_tight [of s] split_ws_plain by (auto simp: segment_words_def)

lemma segment_words_nonempty [simp]: "segment_words s \<noteq> []"
  by (simp add: segment_words_def)

lemma segment_value_words:
  assumes "trim s \<noteq> []"
  shows "split_ws (segment_value s) = (if tl (segment_words s) = [] then [[]] else tl (segment_words s))"
  unfolding segment_value_def
  by (rule split_join_words') (meson assms list.set_sel(2) segment_words_nonempty segment_words_plain)

lemma segment_snoc:
  assumes "trim s \<noteq> []" "plain_word w"
  shows "segment_words (trim s @ '' '' @ w) = segment_words s @ [w]"
    and "segment_name (trim s @ '' '' @ w) = segment_name s"
proof -
  have t: "tight (trim s)" using trim_tight assms(1) by blast
  have "tight (trim s @ '' '' @ w)"
    using t assms(2) by (cases w rule: rev_cases) (auto simp: tight_def plain_word_def)
  then show "segment_words (trim s @ '' '' @ w) = segment_words s @ [w]"
    using t assms(2) split_ws_snoc [of "trim s" w "CHR '' ''"]
    by (simp add: segment_words_def trim_of_tight space_ws tight_def)
  then show "segment_name (trim s @ '' '' @ w) = segment_name s"
    by (simp add: segment_name_def)
qed

text \<open>The words of the value of a new directive, which may start with a blank (an empty fallback).\<close>

definition body_words :: "string \<Rightarrow> string list \<Rightarrow> bool" where
  "body_words body ws \<longleftrightarrow> tight (dropWhile is_ws body) \<and> split_ws (dropWhile is_ws body) = ws"

lemma dropWhile_tight: "tight t \<Longrightarrow> dropWhile is_ws t = t"
  by (cases t) (auto simp: tight_def)

lemma body_word: "plain_word w \<Longrightarrow> body_words w [w]"
  by (simp add: body_words_def plain_word_tight dropWhile_tight split_ws_plain_word)

lemma body_snoc:
  assumes "body_words body ws" "plain_word w"
  shows "body_words (body @ '' '' @ w) (ws @ [w])"
proof -
  let ?t = "dropWhile is_ws body"
  have t: "tight ?t" "split_ws ?t = ws" using assms(1) by (simp_all add: body_words_def)
  then obtain x where "x \<in> set body" "\<not> is_ws x" by (metis dropWhile_eq_Nil_conv tight_def)
  then have drop: "dropWhile is_ws (body @ '' '' @ w) = ?t @ CHR '' '' # w"
    by (simp add: dropWhile_append1 [of x])
  have "tight (?t @ CHR '' '' # w)"
    using t(1) assms(2) by (cases w rule: rev_cases) (auto simp: tight_def plain_word_def)
  moreover have "split_ws (?t @ CHR '' '' # w) = ws @ [w]"
    using t split_ws_snoc [of ?t w "CHR '' ''"] assms(2) space_ws by (simp add: tight_def)
  ultimately show ?thesis using drop by (simp add: body_words_def)
qed

lemma body_join:
  assumes "\<forall>w \<in> set ws. plain_word w" "plain_word w"
  shows "body_words (join_with '' '' ws @ '' '' @ w) (ws @ [w])"
proof (cases "ws = []")
  case True
  then show ?thesis
    using body_word [OF assms(2)] by (simp add: body_words_def space_ws)
next
  case False
  then have "body_words (join_with '' '' ws) ws"
    using split_join_words [of ws] assms(1) by (simp add: body_words_def dropWhile_tight)
  from body_snoc [OF this assms(2)] show ?thesis .
qed

lemma segment_new:
  assumes "plain_word name" "toLowerCase name = name" "body_words body ws"
  shows "segment_words (name @ '' '' @ body) = name # ws"
    and "segment_name (name @ '' '' @ body) = name"
    and "trim (name @ '' '' @ body) \<noteq> []"
proof -
  have b: "tight (dropWhile is_ws body)" "split_ws (dropWhile is_ws body) = ws"
    using assms(3) by (simp_all add: body_words_def)
  have "body \<noteq> []" "last body = last (dropWhile is_ws body)"
    using b(1) last_dropWhile [of is_ws body] by (auto simp: tight_def)
  then have tight: "tight (name @ '' '' @ body)"
    using assms(1) b(1) by (cases name) (auto simp: tight_def plain_word_def)
  have "split_ws (name @ '' '' @ body) = name # ws"
    using assms(1) b(2) split_ws_space [of name "CHR '' ''" body] by (simp add: plain_word_def space_ws)
  with tight show "segment_words (name @ '' '' @ body) = name # ws"
    by (simp add: segment_words_def trim_of_tight)
  then show "segment_name (name @ '' '' @ body) = name" by (simp add: segment_name_def assms(2))
  show "trim (name @ '' '' @ body) \<noteq> []" using trim_of_tight [OF tight] by simp
qed

section \<open>What the edits do\<close>

lemma find_eq_find: "first_index P xs = None \<longleftrightarrow> find P xs = None"
  by (auto simp: first_index_def find_None_iff in_set_conv_nth)

lemma first_index_Some:
  assumes "first_index P xs = Some i"
  shows "i < length xs" "P (xs ! i)" "\<forall>j < i. \<not> P (xs ! j)"
proof -
  from assms obtain k where k: "k < length xs" "i = k" "P (xs ! k)" "\<forall>j < k. \<not> P (xs ! j)"
    unfolding first_index_def find_Some_iff by auto
  then show "i < length xs" "P (xs ! i)" "\<forall>j < i. \<not> P (xs ! j)" by auto
qed

lemma find_at_first:
  assumes "i < length xs" "P (xs ! i)" "\<forall>j < i. \<not> P (xs ! j)"
  shows "find P xs = Some (xs ! i)"
  using assms by (auto simp: find_Some_iff)

lemma find_update_other:
  "i < length xs \<Longrightarrow> \<not> P (xs ! i) \<Longrightarrow> \<not> P y \<Longrightarrow> find P (xs[i := y]) = find P xs"
proof (induction xs arbitrary: i)
  case Nil
  then show ?case by simp
next
  case (Cons x xs)
  then show ?case by (cases i) auto
qed

text \<open>An edit of one directive: its words grow, the others stay, and no semicolon appears.\<close>

definition edits :: "string \<Rightarrow> string list \<Rightarrow> string list \<Rightarrow> bool" where
  "edits name segments segments' \<longleftrightarrow>
     (\<forall>other. other \<noteq> name \<longrightarrow> other \<noteq> [] \<longrightarrow> find_segment other segments' = find_segment other segments)
     \<and> segments' \<noteq> [] \<and> (\<forall>s \<in> set segments'. CHR '';'' \<notin> set s)"

lemma appendToDirective_effect:
  assumes name: "name \<noteq> []" and tok: "plain_word token" "CHR '';'' \<notin> set token"
    and found: "find_segment name segments = Some s"
    and semi: "\<forall>s \<in> set segments. CHR '';'' \<notin> set s"
  obtains segments' s' where
    "appendToDirective name token (segments, m) =
       (segments', m \<or> token \<notin> set (tl (segment_words s)))"
    "edits name segments segments'" "find_segment name segments' = Some s'" "trim s' \<noteq> []"
    "tl (segment_words s') =
       tl (segment_words s) @ (if token \<in> set (tl (segment_words s)) then [] else [token])"
proof -
  let ?P = "\<lambda>s. segment_name s = name"
  obtain i where i: "first_index ?P segments = Some i"
    using found find_eq_find [of ?P segments] by (auto simp: find_segment_def)
  note fi = first_index_Some [OF i]
  have s: "segments ! i = s"
    using find_at_first [OF fi] found by (simp add: find_segment_def)
  have ne: "segments \<noteq> []" using fi(1) by auto
  have trim: "trim s \<noteq> []" using segment_name_blank [of s] fi(2) s name by auto
  show ?thesis
  proof (cases "token \<in> set (tl (segment_words s))")
    case True
    then show ?thesis
      using i s found semi ne trim
      by (intro that [of segments s]) (auto simp: appendToDirective_def edits_def)
  next
    case False
    let ?s' = "trim s @ '' '' @ token"
    let ?segs = "segments[i := ?s']"
    note snoc = segment_snoc [OF trim tok(1)]
    have name': "segment_name ?s' = name" using snoc(2) fi(2) s by simp
    have "find ?P ?segs = Some (?segs ! i)"
      by (rule find_at_first) (use fi name' in auto)
    then have at: "find_segment name ?segs = Some ?s'" using fi(1) by (simp add: find_segment_def)
    have other: "find_segment n ?segs = find_segment n segments" if "n \<noteq> name" for n
      unfolding find_segment_def
      by (rule find_update_other) (use fi s name' that in auto)
    have "set (trim s) \<subseteq> set s"
      by (auto simp: trim_def trim_left_def dest!: set_dropWhileD)
    then have "CHR '';'' \<notin> set ?s'" using semi s fi(1) tok(2) by (auto dest: nth_mem)
    then have semi': "\<forall>x \<in> set ?segs. CHR '';'' \<notin> set x"
      using semi by (auto dest: set_update_subset_insert [THEN subsetD])
    have trim': "trim ?s' \<noteq> []" using segment_name_blank [of ?s'] name' name by auto
    show ?thesis
      by (rule that [of ?segs ?s'])
        (use False i s at other semi' trim' snoc(1) ne in
          \<open>auto simp: appendToDirective_def edits_def tl_append split: list.split\<close>)
  qed
qed

lemma appendDirective_effect:
  assumes name: "plain_word name" "toLowerCase name = name" "CHR '';'' \<notin> set name"
    and body: "body_words body ws" "CHR '';'' \<notin> set body"
    and missing: "find_segment name segments = None" and ne: "segments \<noteq> []"
    and semi: "\<forall>s \<in> set segments. CHR '';'' \<notin> set s"
  obtains segments' s' where
    "appendDirective name body (segments, m) = (segments', True)"
    "edits name segments segments'" "find_segment name segments' = Some s'" "trim s' \<noteq> []"
    "tl (segment_words s') = ws"
proof -
  let ?s = "name @ '' '' @ body"
  note new = segment_new [OF name(1,2) body(1)]
  have semi_s: "CHR '';'' \<notin> set ?s" using name(3) body(2) by auto
  obtain butl las where segs: "segments = butl @ [las]" using ne by (metis append_butlast_last_id)
  define segments' where "segments' = (if trim las = [] then butl @ [?s, las] else segments @ [?s])"
  have "body \<noteq> []" using body(1) by (auto simp: body_words_def tight_def)
  then have eq: "appendDirective name body (segments, m) = (segments', True)"
    by (simp add: appendDirective_def segments'_def segs Let_def)
  have app: "find P (xs @ ys) = (case find P xs of None \<Rightarrow> find P ys | Some x \<Rightarrow> Some x)"
    for P :: "string \<Rightarrow> bool" and xs ys
    by (induction xs) auto
  have blank: "trim las = [] \<Longrightarrow> segment_name las = []" by (rule segment_name_blank)
  have name_ne: "name \<noteq> []" using name(1) by (simp add: plain_word_def)
  have "find_segment name segments' = Some ?s"
    using missing new(2) segs
    by (auto simp: find_segment_def segments'_def app split: option.splits if_splits)
  moreover have "edits name segments segments'"
    using new(2) segs semi semi_s blank
    by (auto simp: edits_def find_segment_def segments'_def app split: option.splits if_splits)
  ultimately show ?thesis using that [OF eq] new(1,3) by simp
qed

section \<open>What the three steps do\<close>

text \<open>The directives a list of segments has, and the list with one directive opened: it carries the
  given tokens and keeps the words it had (or took over from its fallback).\<close>

definition describes :: "(string, string) js_map \<Rightarrow> string list \<Rightarrow> bool" where
  "describes directives segments \<longleftrightarrow> directives = parse_segments segments \<and> segments \<noteq> []
     \<and> (\<forall>s \<in> set segments. CHR '';'' \<notin> set s)"

definition opened :: "string \<Rightarrow> string list \<Rightarrow> string list \<Rightarrow> string list \<Rightarrow> bool" where
  "opened name kept tokens segments \<longleftrightarrow>
     (\<exists>s. find_segment name segments = Some s \<and> trim s \<noteq> []
          \<and> set kept \<subseteq> set (tl (segment_words s)) \<and> set tokens \<subseteq> set (tl (segment_words s)))"

definition value_words :: "string \<Rightarrow> string list" where
  "value_words v = filter (\<lambda>w. w \<noteq> []) (split_ws v)"

lemma find_segment_nonblank: "find_segment name segs = Some s \<Longrightarrow> name \<noteq> [] \<Longrightarrow> trim s \<noteq> []"
  using segment_name_blank by (auto simp: find_segment_def find_Some_iff)

lemma find_segment_mem: "find_segment name segs = Some s \<Longrightarrow> s \<in> set segs"
  by (auto simp: find_segment_def find_Some_iff)

lemma value_words_segment:
  assumes "trim s \<noteq> []"
  shows "value_words (segment_value s) = tl (segment_words s)"
proof -
  have "\<forall>w \<in> set (tl (segment_words s)). w \<noteq> []"
    using segment_words_plain [OF assms] by (metis list.set_sel(2) plain_word_def segment_words_nonempty)
  then show ?thesis by (simp add: value_words_def segment_value_words [OF assms] filter_id_conv)
qed

lemma split_ws_chars: "w \<in> set (split_ws t) \<Longrightarrow> set w \<subseteq> set t"
proof (induction t arbitrary: w rule: split_ws.induct)
  case (1 t)
  show ?case
  proof (cases "dropWhile (\<lambda>c. \<not> is_ws c) t")
    case Nil
    then have "split_ws t = [t]" by (simp add: dropWhile_eq_Nil_conv split_ws_word)
    with "1.prems" show ?thesis by simp
  next
    case (Cons d rest)
    have "set (d # rest) \<subseteq> set t" using Cons by (metis set_dropWhileD subsetI)
    then have sub: "set (dropWhile is_ws (d # rest)) \<subseteq> set t" by (meson set_dropWhileD subset_iff)
    from "1.prems" consider "w = takeWhile (\<lambda>c. \<not> is_ws c) t" | "w \<in> set (split_ws (dropWhile is_ws (d # rest)))"
      using split_ws_step [OF Cons] by auto
    then show ?thesis
    proof cases
      case 1
      then show ?thesis by (auto dest: set_takeWhileD)
    next
      case 2
      from "1.IH" [OF Cons this] sub show ?thesis by blast
    qed
  qed
qed

lemma describes_get:
  assumes "describes directives segs" "name \<noteq> []" "name \<notin> set inherited_names"
  shows "map_get directives name = map_option segment_value (find_segment name segs)"
  using assms by (simp add: describes_def parse_segments_get)

lemma describes_fallback:
  assumes d: "describes directives segs" and v: "map_get directives name = Some v"
    and name: "name \<noteq> []" "name \<notin> set inherited_names"
  shows "\<exists>ws. v = join_with '' '' ws \<and> value_words v = ws
    \<and> (\<forall>w \<in> set ws. plain_word w \<and> CHR '';'' \<notin> set w)"
proof -
  obtain s where s: "find_segment name segs = Some s" "v = segment_value s"
    using v describes_get [OF d name] by auto
  have trim: "trim s \<noteq> []" using find_segment_nonblank [OF s(1) name(1)] .
  have semi: "CHR '';'' \<notin> set (trim s)"
    using d find_segment_mem [OF s(1)]
    by (auto simp: describes_def trim_def trim_left_def dest!: set_dropWhileD)
  have "plain_word w \<and> CHR '';'' \<notin> set w" if "w \<in> set (tl (segment_words s))" for w
  proof -
    have "w \<in> set (segment_words s)" using that by (metis list.set_sel(2) segment_words_nonempty)
    then show ?thesis
      using segment_words_plain [OF trim] split_ws_chars semi unfolding segment_words_def by blast
  qed
  then show ?thesis
    using s(2) value_words_segment [OF trim] by (auto simp: segment_value_def)
qed

text \<open>Opening a directive that exists, by one token.\<close>

lemma open_existing:
  assumes d: "describes directives segs" and found: "find_segment name segs = Some s"
    and name: "name \<noteq> []" and tok: "plain_word token" "CHR '';'' \<notin> set token"
  obtains segs' where
    "appendToDirective name token (segs, m) = (segs', m \<or> token \<notin> set (tl (segment_words s)))"
    "edits name segs segs'" "opened name (value_words (segment_value s)) [token] segs'"
proof -
  have semi: "\<forall>s \<in> set segs. CHR '';'' \<notin> set s" using d by (simp add: describes_def)
  obtain segs' s' where *: "appendToDirective name token (segs, m) =
       (segs', m \<or> token \<notin> set (tl (segment_words s)))"
    "edits name segs segs'" "find_segment name segs' = Some s'" "trim s' \<noteq> []"
    "tl (segment_words s') = tl (segment_words s) @ (if token \<in> set (tl (segment_words s)) then [] else [token])"
    by (rule appendToDirective_effect [OF name tok found semi])
  then show ?thesis
    using value_words_segment [OF find_segment_nonblank [OF found name]]
    by (intro that [of segs']) (auto simp: opened_def)
qed

text \<open>Adding a directive that takes over a fallback.\<close>

lemma open_missing:
  assumes d: "describes directives segs" and missing: "find_segment name segs = None"
    and name: "plain_word name" "toLowerCase name = name" "CHR '';'' \<notin> set name"
    and body: "body_words body ws" "CHR '';'' \<notin> set body"
  obtains segs' where
    "appendDirective name body (segs, m) = (segs', True)"
    "edits name segs segs'" "opened name ws ws segs'"
proof -
  have "segs \<noteq> []" "\<forall>s \<in> set segs. CHR '';'' \<notin> set s" using d by (simp_all add: describes_def)
  from appendDirective_effect [OF name body missing this, of m] that show ?thesis
    by (metis opened_def order_refl)
qed

lemma edits_refl: "describes directives segs \<Longrightarrow> edits name segs segs"
  by (simp add: edits_def describes_def)

lemma edits_describes: "edits name segs segs' \<Longrightarrow> describes (parse_segments segs') segs'"
  by (simp add: edits_def describes_def)

lemma literal_words:
  "plain_word ''worker-src''" "toLowerCase ''worker-src'' = ''worker-src''"
  "plain_word ''connect-src''" "toLowerCase ''connect-src'' = ''connect-src''"
  "plain_word ''trusted-types''" "toLowerCase ''trusted-types'' = ''trusted-types''"
  "plain_word ''blob:''" "plain_word ''ws://127.0.0.1:*''" "plain_word ''https://127.0.0.1:*''"
  "plain_word ''webhid-worker''"
  by (simp_all add: plain_word_def is_ws_def toLowerCase_def lower_char_def)

lemma not_inherited:
  "''worker-src'' \<notin> set inherited_names" "''connect-src'' \<notin> set inherited_names"
  "''trusted-types'' \<notin> set inherited_names" "''default-src'' \<notin> set inherited_names"
  "''script-src'' \<notin> set inherited_names" "''require-trusted-types-for'' \<notin> set inherited_names"
  by (simp_all add: inherited_names_def)

text \<open>One step on segments that still carry the directive the analysis saw.\<close>

definition step_effect ::
    "string \<Rightarrow> string list option \<Rightarrow> (string list \<Rightarrow> bool) \<Rightarrow> string list \<Rightarrow> bool \<Rightarrow> string list \<times> bool \<Rightarrow> bool"
where
  "step_effect name kept granted segs m r \<longleftrightarrow>
     edits name segs (fst r) \<and> (\<not> snd r \<longrightarrow> fst r = segs) \<and> (m \<longrightarrow> snd r)
     \<and> (case kept of
          None \<Rightarrow> fst r = segs
        | Some ws \<Rightarrow> \<exists>tokens. granted tokens \<and> opened name ws tokens (fst r))"

lemma opened_existing_id:
  assumes "describes directives segs0" "map_get directives name = Some v"
    "find_segment name segs = find_segment name segs0"
    "name \<noteq> []" "name \<notin> set inherited_names" "set tokens \<subseteq> set (value_words v)"
  shows "opened name (value_words v) tokens segs"
proof -
  obtain s where s: "find_segment name segs0 = Some s" "v = segment_value s"
    using assms(2) describes_get [OF assms(1,4,5)] by auto
  have "trim s \<noteq> []" by (rule find_segment_nonblank [OF s(1) assms(4)])
  with s assms(3,6) value_words_segment show ?thesis by (auto simp: opened_def)
qed

lemma present_segment:
  assumes "describes directives segs0" "map_get directives name = Some v"
    "find_segment name segs = find_segment name segs0" "name \<noteq> []" "name \<notin> set inherited_names"
  obtains s where "find_segment name segs = Some s" "v = segment_value s"
  using assms describes_get [OF assms(1,4,5)] by auto

lemma absent_segment:
  assumes "describes directives segs0" "map_get directives name = None"
    "find_segment name segs = find_segment name segs0" "name \<noteq> []" "name \<notin> set inherited_names"
  shows "find_segment name segs = None"
  using assms describes_get [OF assms(1,4,5)] by auto

lemma semicolon_free_join:
  "\<forall>w \<in> set ws. CHR '';'' \<notin> set w \<Longrightarrow> CHR '';'' \<notin> set (join_with '' '' ws)"
  by (induction "'' ''" ws rule: join_with.induct) auto

lemma allow_worker_effect:
  assumes d: "describes directives segs0" and d1: "describes directives1 segs"
    and same: "find_segment ''worker-src'' segs = find_segment ''worker-src'' segs0"
  shows "step_effect ''worker-src'' (map_option value_words (effective_worker directives))
    (\<lambda>ts. ''blob:'' \<in> set ts) segs m (allow_worker directives (segs, m))"
proof (cases "map_get directives ''worker-src''")
  case (Some v)
  show ?thesis
  proof (cases "''blob:'' \<in> set (split_ws v)")
    case True
    then have "set [''blob:''] \<subseteq> set (value_words v)" by (simp add: value_words_def)
    from opened_existing_id [OF d Some same _ not_inherited(1) this] True Some edits_refl [OF d1]
    show ?thesis
      by (auto simp: step_effect_def allow_worker_def effective_worker_def first_defined_def
          intro!: exI [of _ "[''blob:'']"])
  next
    case False
    obtain s where s: "find_segment ''worker-src'' segs = Some s" "v = segment_value s"
      by (rule present_segment [OF d Some same _ not_inherited(1)]) auto
    obtain segs' where *: "appendToDirective ''worker-src'' ''blob:'' (segs, m) =
        (segs', m \<or> ''blob:'' \<notin> set (tl (segment_words s)))"
      "edits ''worker-src'' segs segs'" "opened ''worker-src'' (value_words (segment_value s)) [''blob:''] segs'"
      by (rule open_existing [OF d1 s(1) _ literal_words(7)]) auto
    have "trim s \<noteq> []" by (rule find_segment_nonblank [OF s(1)]) simp
    then have "''blob:'' \<notin> set (tl (segment_words s))"
      using False s(2) by (auto simp: segment_value_words split: if_splits)
    with * False Some s(2) show ?thesis
      by (auto simp: step_effect_def allow_worker_def effective_worker_def first_defined_def
          intro!: exI [of _ "[''blob:'']"])
  qed
next
  case None
  note missing = absent_segment [OF d None same _ not_inherited(1), simplified]
  show ?thesis
  proof (cases "first_defined (map_get directives ''script-src'') (map_get directives ''default-src'')")
    case none: None
    with None edits_refl [OF d1] show ?thesis
      by (auto simp: step_effect_def allow_worker_def effective_worker_def first_defined_def
          split: option.splits)
  next
    case (Some v)
    then have "map_get directives ''script-src'' = Some v \<or> map_get directives ''default-src'' = Some v"
      by (auto simp: first_defined_def split: option.splits)
    then obtain ws where ws: "v = join_with '' '' ws" "value_words v = ws"
      "\<forall>w \<in> set ws. plain_word w \<and> CHR '';'' \<notin> set w"
      using describes_fallback [OF d _ _ not_inherited(4)] describes_fallback [OF d _ _ not_inherited(5)]
      by force
    have body: "body_words (v @ '' '' @ ''blob:'') (ws @ [''blob:''])"
      unfolding ws(1) by (rule body_join) (use ws(3) literal_words(7) in blast)+
    have semi: "CHR '';'' \<notin> set (v @ '' '' @ ''blob:'')"
      using semicolon_free_join [of ws] ws by auto
    obtain segs' where *: "appendDirective ''worker-src'' (v @ '' '' @ ''blob:'') (segs, m) = (segs', True)"
      "edits ''worker-src'' segs segs'" "opened ''worker-src'' (ws @ [''blob:'']) (ws @ [''blob:'']) segs'"
      by (rule open_missing [OF d1 missing literal_words(1,2) _ body semi]) auto
    then have "opened ''worker-src'' ws [''blob:''] segs'" by (auto simp: opened_def)
    with * None Some ws(2) show ?thesis
      by (auto simp: step_effect_def allow_worker_def effective_worker_def first_defined_def
          split: option.splits intro!: exI [of _ "[''blob:'']"])
  qed
qed

definition grants_daemon :: "string list \<Rightarrow> bool" where
  "grants_daemon ts \<longleftrightarrow> (\<exists>t \<in> set daemon_sources. t \<in> set ts)"

lemma daemon_sources_nonempty: "t \<in> set daemon_sources \<Longrightarrow> t \<noteq> []"
  by (auto simp: daemon_sources_def)

lemma allows_daemon_words: "sourceListAllowsDaemonConnects v \<longleftrightarrow> grants_daemon (value_words v)"
  using daemon_sources_nonempty
  by (auto simp: sourceListAllowsDaemonConnects_def grants_daemon_def value_words_def)

lemma edits_trans: "edits name a b \<Longrightarrow> edits name b c \<Longrightarrow> edits name a c"
  by (simp add: edits_def)

lemma allow_connect_effect:
  assumes d: "describes directives segs0" and d1: "describes directives1 segs"
    and same: "find_segment ''connect-src'' segs = find_segment ''connect-src'' segs0"
  shows "step_effect ''connect-src'' (map_option value_words (effective_connect directives))
    grants_daemon segs m (allow_connect directives (segs, m))"
proof (cases "map_get directives ''connect-src''")
  case (Some v)
  show ?thesis
  proof (cases "sourceListAllowsDaemonConnects v")
    case True
    then have granted: "grants_daemon (value_words v)" by (simp add: allows_daemon_words)
    from opened_existing_id [OF d Some same _ not_inherited(2) subset_refl] True granted Some
      edits_refl [OF d1]
    show ?thesis
      by (auto simp: step_effect_def allow_connect_def effective_connect_def first_defined_def)
  next
    case False
    obtain s where s: "find_segment ''connect-src'' segs = Some s" "v = segment_value s"
      by (rule present_segment [OF d Some same _ not_inherited(2)]) auto
    have trim: "trim s \<noteq> []" by (rule find_segment_nonblank [OF s(1)]) simp
    have new: "''ws://127.0.0.1:*'' \<notin> set (tl (segment_words s))"
      using False s(2) value_words_segment [OF trim]
      by (auto simp: allows_daemon_words grants_daemon_def daemon_sources_def)
    obtain segs1 where 1: "appendToDirective ''connect-src'' ''ws://127.0.0.1:*'' (segs, m) =
        (segs1, m \<or> ''ws://127.0.0.1:*'' \<notin> set (tl (segment_words s)))"
      "edits ''connect-src'' segs segs1"
      "opened ''connect-src'' (value_words (segment_value s)) [''ws://127.0.0.1:*''] segs1"
      by (rule open_existing [OF d1 s(1) _ literal_words(8)]) auto
    then obtain s1 where s1: "find_segment ''connect-src'' segs1 = Some s1" "trim s1 \<noteq> []"
      "set (value_words v) \<subseteq> set (tl (segment_words s1))"
      "''ws://127.0.0.1:*'' \<in> set (tl (segment_words s1))"
      using s(2) by (auto simp: opened_def)
    obtain segs2 where 2: "appendToDirective ''connect-src'' ''https://127.0.0.1:*'' (segs1, True) =
        (segs2, True \<or> ''https://127.0.0.1:*'' \<notin> set (tl (segment_words s1)))"
      "edits ''connect-src'' segs1 segs2"
      "opened ''connect-src'' (value_words (segment_value s1)) [''https://127.0.0.1:*''] segs2"
      by (rule open_existing [where m = True, OF edits_describes [OF 1(2)] s1(1) _ literal_words(9)]) auto
    have "opened ''connect-src'' (value_words v) [''https://127.0.0.1:*''] segs2"
      using 2(3) s1(3) value_words_segment [OF s1(2)] by (auto simp: opened_def)
    moreover have "grants_daemon [''https://127.0.0.1:*'']"
      by (simp add: grants_daemon_def daemon_sources_def)
    moreover have "allow_connect directives (segs, m) = (segs2, True)"
      using Some False 1(1) new 2(1) by (simp add: allow_connect_def)
    ultimately show ?thesis
      using edits_trans [OF 1(2) 2(2)] Some
      by (auto simp: step_effect_def effective_connect_def first_defined_def)
  qed
next
  case None
  note missing = absent_segment [OF d None same _ not_inherited(2), simplified]
  show ?thesis
  proof (cases "map_get directives ''default-src''")
    case none: None
    with None edits_refl [OF d1] show ?thesis
      by (auto simp: step_effect_def allow_connect_def effective_connect_def first_defined_def)
  next
    case (Some v)
    obtain ws where ws: "v = join_with '' '' ws" "value_words v = ws"
      "\<forall>w \<in> set ws. plain_word w \<and> CHR '';'' \<notin> set w"
      using describes_fallback [OF d Some _ not_inherited(4)] by force
    let ?body = "v @ '' ws://127.0.0.1:* https://127.0.0.1:*''"
    have body1: "body_words (v @ '' '' @ ''ws://127.0.0.1:*'') (ws @ [''ws://127.0.0.1:*''])"
      unfolding ws(1) by (rule body_join) (use ws(3) literal_words(8) in blast)+
    have body: "body_words ?body (ws @ [''ws://127.0.0.1:*'', ''https://127.0.0.1:*''])"
      using body_snoc [OF body1 literal_words(9)] by simp
    have semi: "CHR '';'' \<notin> set ?body" using semicolon_free_join [of ws] ws by auto
    obtain segs' where *: "appendDirective ''connect-src'' ?body (segs, m) = (segs', True)"
      "edits ''connect-src'' segs segs'"
      "opened ''connect-src'' (ws @ [''ws://127.0.0.1:*'', ''https://127.0.0.1:*''])
        (ws @ [''ws://127.0.0.1:*'', ''https://127.0.0.1:*'']) segs'"
      by (rule open_missing [OF d1 missing literal_words(3,4) _ body semi]) auto
    then have "opened ''connect-src'' ws [''ws://127.0.0.1:*''] segs'" by (auto simp: opened_def)
    moreover have "grants_daemon [''ws://127.0.0.1:*'']"
      by (simp add: grants_daemon_def daemon_sources_def)
    ultimately show ?thesis using * None Some ws(2)
      by (auto simp: step_effect_def allow_connect_def effective_connect_def first_defined_def)
  qed
qed

lemma allow_trusted_types_effect:
  assumes d: "describes directives segs0" and d1: "describes directives1 segs"
    and same: "find_segment ''trusted-types'' segs = find_segment ''trusted-types'' segs0"
  shows "step_effect ''trusted-types''
    (Some (case map_get directives ''trusted-types'' of Some v \<Rightarrow> value_words v | None \<Rightarrow> []))
    (\<lambda>ts. ''webhid-worker'' \<in> set ts) segs m (allow_trusted_types directives (segs, m))"
proof (cases "map_get directives ''trusted-types''")
  case (Some v)
  show ?thesis
  proof (cases "''webhid-worker'' \<in> set (split_ws v)")
    case True
    then have "set [''webhid-worker''] \<subseteq> set (value_words v)" by (simp add: value_words_def)
    from opened_existing_id [OF d Some same _ not_inherited(3) this] True Some edits_refl [OF d1]
    show ?thesis
      by (auto simp: step_effect_def allow_trusted_types_def intro!: exI [of _ "[''webhid-worker'']"])
  next
    case False
    obtain s where s: "find_segment ''trusted-types'' segs = Some s" "v = segment_value s"
      by (rule present_segment [OF d Some same _ not_inherited(3)]) auto
    obtain segs' where *: "appendToDirective ''trusted-types'' ''webhid-worker'' (segs, m) =
        (segs', m \<or> ''webhid-worker'' \<notin> set (tl (segment_words s)))"
      "edits ''trusted-types'' segs segs'"
      "opened ''trusted-types'' (value_words (segment_value s)) [''webhid-worker''] segs'"
      by (rule open_existing [OF d1 s(1) _ literal_words(10)]) auto
    have "trim s \<noteq> []" by (rule find_segment_nonblank [OF s(1)]) simp
    then have "''webhid-worker'' \<notin> set (tl (segment_words s))"
      using False s(2) by (auto simp: segment_value_words split: if_splits)
    with * False Some s(2) show ?thesis
      by (auto simp: step_effect_def allow_trusted_types_def intro!: exI [of _ "[''webhid-worker'']"])
  qed
next
  case None
  note missing = absent_segment [OF d None same _ not_inherited(3), simplified]
  obtain segs' where "appendDirective ''trusted-types'' ''webhid-worker'' (segs, m) = (segs', True)"
    "edits ''trusted-types'' segs segs'" "opened ''trusted-types'' [''webhid-worker''] [''webhid-worker''] segs'"
    by (rule open_missing [OF d1 missing literal_words(5,6) _ body_word [OF literal_words(10)]]) auto
  with None show ?thesis
    by (auto simp: step_effect_def allow_trusted_types_def opened_def intro!: exI [of _ "[''webhid-worker'']"])
qed

section \<open>The whole rewriting\<close>

lemma parse_describes: "describes (parseDirectives csp) (split_on CHR '';'' csp)"
  using split_on_no_sep by (auto simp: describes_def parseDirectives_def)

lemma parse_joined:
  "segs \<noteq> [] \<Longrightarrow> \<forall>s \<in> set segs. CHR '';'' \<notin> set s \<Longrightarrow>
   parseDirectives (join_with '';'' segs) = parse_segments segs"
  by (simp add: parseDirectives_def split_join)

lemma opened_get:
  assumes "opened name kept tokens segs" "name \<noteq> []" "name \<notin> set inherited_names"
  shows "\<exists>v. map_get (parse_segments segs) name = Some v \<and> set kept \<subseteq> set (value_words v)
    \<and> set tokens \<subseteq> set (value_words v)"
proof -
  obtain s where s: "find_segment name segs = Some s" "trim s \<noteq> []"
    "set kept \<subseteq> set (tl (segment_words s))" "set tokens \<subseteq> set (tl (segment_words s))"
    using assms(1) by (auto simp: opened_def)
  then show ?thesis
    using assms(2,3) value_words_segment [OF s(2)] by (auto simp: parse_segments_get)
qed

lemma opened_edits:
  "opened name kept tokens segs \<Longrightarrow> edits other segs segs' \<Longrightarrow> name \<noteq> other \<Longrightarrow> name \<noteq> [] \<Longrightarrow>
   opened name kept tokens segs'"
  by (auto simp: opened_def edits_def)

text \<open>What the rewriting returns, step by step.\<close>

lemma rewrite_steps:
  assumes "\<not> hasUnseparatedDirective csp"
  defines "D \<equiv> parseDirectives csp" and "segs0 \<equiv> split_on CHR '';'' csp"
  obtains segs1 segs2 segs3 m1 m2 m3 where
    "rewriteCspValue csp tt = (join_with '';'' segs3, m3)"
    "step_effect ''worker-src'' (map_option value_words (effective_worker D))
       (\<lambda>ts. ''blob:'' \<in> set ts) segs0 False (segs1, m1)"
    "step_effect ''connect-src'' (map_option value_words (effective_connect D))
       grants_daemon segs1 m1 (segs2, m2)"
    "tt \<longrightarrow> step_effect ''trusted-types''
       (Some (case map_get D ''trusted-types'' of Some v \<Rightarrow> value_words v | None \<Rightarrow> []))
       (\<lambda>ts. ''webhid-worker'' \<in> set ts) segs2 m2 (segs3, m3)"
    "\<not> tt \<longrightarrow> segs3 = segs2 \<and> m3 = m2"
proof -
  have d: "describes D segs0" unfolding D_def segs0_def by (rule parse_describes)
  obtain segs1 m1 where 1: "allow_worker D (segs0, False) = (segs1, m1)" by fastforce
  have e1: "step_effect ''worker-src'' (map_option value_words (effective_worker D))
       (\<lambda>ts. ''blob:'' \<in> set ts) segs0 False (segs1, m1)"
    using allow_worker_effect [OF d d refl, of False] 1 by simp
  then have ed1: "edits ''worker-src'' segs0 segs1" by (simp add: step_effect_def)
  have same1: "find_segment ''connect-src'' segs1 = find_segment ''connect-src'' segs0"
    using ed1 by (simp add: edits_def)
  obtain segs2 m2 where 2: "allow_connect D (segs1, m1) = (segs2, m2)" by fastforce
  have e2: "step_effect ''connect-src'' (map_option value_words (effective_connect D))
       grants_daemon segs1 m1 (segs2, m2)"
    using allow_connect_effect [OF d edits_describes [OF ed1] same1, of m1] 2 by simp
  then have ed2: "edits ''connect-src'' segs1 segs2" by (simp add: step_effect_def)
  have same2: "find_segment ''trusted-types'' segs2 = find_segment ''trusted-types'' segs0"
    using ed1 ed2 by (simp add: edits_def)
  obtain segs3 m3 where 3: "(if tt then allow_trusted_types D else id) (segs2, m2) = (segs3, m3)"
    by fastforce
  have eq: "rewriteCspValue csp tt = (join_with '';'' segs3, m3)"
    using assms(1) 1 2 3
    by (cases tt) (simp_all add: rewriteCspValue_def D_def segs0_def Let_def)
  show ?thesis
    using allow_trusted_types_effect [OF d edits_describes [OF ed2] same2, of m2] 3
    by (intro that [OF eq e1 e2]) (auto split: if_splits)
qed

text \<open>The directives after the rewriting.\<close>

lemma rewrite_result:
  assumes "\<not> hasUnseparatedDirective csp"
  defines "D \<equiv> parseDirectives csp"
  obtains v' m D' where "rewriteCspValue csp tt = (v', m)" "D' = parseDirectives v'"
    "\<not> m \<longrightarrow> v' = csp"
    "\<forall>v. effective_worker D = Some v \<longrightarrow>
       (\<exists>w. map_get D' ''worker-src'' = Some w \<and> ''blob:'' \<in> set (value_words w)
           \<and> set (value_words v) \<subseteq> set (value_words w))"
    "\<forall>v. effective_connect D = Some v \<longrightarrow>
       (\<exists>w. map_get D' ''connect-src'' = Some w \<and> grants_daemon (value_words w)
           \<and> set (value_words v) \<subseteq> set (value_words w))"
    "tt \<longrightarrow> (\<exists>w. map_get D' ''trusted-types'' = Some w
           \<and> ''webhid-worker'' \<in> set (value_words w)
           \<and> (\<forall>v. map_get D ''trusted-types'' = Some v \<longrightarrow>
                set (value_words v) \<subseteq> set (value_words w)))"
    "\<forall>name. (name = ''worker-src'' \<longrightarrow> effective_worker D = None) \<longrightarrow>
       (name = ''connect-src'' \<longrightarrow> effective_connect D = None) \<longrightarrow>
       (name = ''trusted-types'' \<longrightarrow> \<not> tt) \<longrightarrow> map_get D' name = map_get D name"
proof -
  let ?segs0 = "split_on CHR '';'' csp"
  obtain segs1 segs2 segs3 m1 m2 m3 where steps:
    "rewriteCspValue csp tt = (join_with '';'' segs3, m3)"
    "step_effect ''worker-src'' (map_option value_words (effective_worker D))
       (\<lambda>ts. ''blob:'' \<in> set ts) ?segs0 False (segs1, m1)"
    "step_effect ''connect-src'' (map_option value_words (effective_connect D))
       grants_daemon segs1 m1 (segs2, m2)"
    "tt \<longrightarrow> step_effect ''trusted-types''
       (Some (case map_get D ''trusted-types'' of Some v \<Rightarrow> value_words v | None \<Rightarrow> []))
       (\<lambda>ts. ''webhid-worker'' \<in> set ts) segs2 m2 (segs3, m3)"
    "\<not> tt \<longrightarrow> segs3 = segs2 \<and> m3 = m2"
    unfolding D_def by (rule rewrite_steps [OF assms(1), where tt = tt])
  note eff = steps(2-4)
  have ed: "edits ''worker-src'' ?segs0 segs1" "edits ''connect-src'' segs1 segs2"
    using eff by (auto simp: step_effect_def)
  have "tt \<longrightarrow> edits ''trusted-types'' segs2 segs3"
    using eff by (auto simp: step_effect_def)
  with steps(5) ed(2) have ed3: "edits ''trusted-types'' segs2 segs3"
    by (cases tt) (auto simp: edits_def)
  have flat: "segs3 \<noteq> [] \<and> (\<forall>s \<in> set segs3. CHR '';'' \<notin> set s)" using ed3 by (simp add: edits_def)
  have D': "parseDirectives (join_with '';'' segs3) = parse_segments segs3"
    using flat by (simp add: parse_joined)
  have keep: "\<not> m1 \<longrightarrow> segs1 = ?segs0" "\<not> m2 \<longrightarrow> segs2 = segs1 \<and> \<not> m1"
    "\<not> m3 \<longrightarrow> segs3 = segs2 \<and> \<not> m2"
    using eff steps(5) by (auto simp: step_effect_def)
  have unmodified: "\<not> m3 \<longrightarrow> join_with '';'' segs3 = csp"
    using keep by (auto simp: join_split)
  have worker: "\<exists>w. map_get (parse_segments segs3) ''worker-src'' = Some w \<and> ''blob:'' \<in> set (value_words w)
      \<and> set (value_words v) \<subseteq> set (value_words w)" if v: "effective_worker D = Some v" for v
  proof -
    obtain ts where ts: "''blob:'' \<in> set ts" "opened ''worker-src'' (value_words v) ts segs1"
      using eff(1) v by (auto simp: step_effect_def)
    have "opened ''worker-src'' (value_words v) ts segs3"
      by (rule opened_edits [OF opened_edits [OF ts(2) ed(2)] ed3]) auto
    from opened_get [OF this _ not_inherited(1)] ts(1) show ?thesis by blast
  qed
  have connect: "\<exists>w. map_get (parse_segments segs3) ''connect-src'' = Some w \<and> grants_daemon (value_words w)
      \<and> set (value_words v) \<subseteq> set (value_words w)" if v: "effective_connect D = Some v" for v
  proof -
    obtain ts where ts: "grants_daemon ts" "opened ''connect-src'' (value_words v) ts segs2"
      using eff(2) v by (auto simp: step_effect_def)
    have "opened ''connect-src'' (value_words v) ts segs3"
      by (rule opened_edits [OF ts(2) ed3]) auto
    from opened_get [OF this _ not_inherited(2)] ts(1) show ?thesis
      by (auto simp: grants_daemon_def)
  qed
  have trusted: "\<exists>w. map_get (parse_segments segs3) ''trusted-types'' = Some w
      \<and> ''webhid-worker'' \<in> set (value_words w)
      \<and> (\<forall>v. map_get D ''trusted-types'' = Some v \<longrightarrow> set (value_words v) \<subseteq> set (value_words w))" if t: tt
  proof -
    obtain ts where ts: "''webhid-worker'' \<in> set ts" "opened ''trusted-types''
        (case map_get D ''trusted-types'' of Some v \<Rightarrow> value_words v | None \<Rightarrow> []) ts segs3"
      using eff(3) t by (auto simp: step_effect_def)
    obtain w where w: "map_get (parse_segments segs3) ''trusted-types'' = Some w"
      "set (case map_get D ''trusted-types'' of Some v \<Rightarrow> value_words v | None \<Rightarrow> []) \<subseteq> set (value_words w)"
      "set ts \<subseteq> set (value_words w)"
      using opened_get [OF ts(2) _ not_inherited(3)] by blast
    have "set (value_words v) \<subseteq> set (value_words w)" if "map_get D ''trusted-types'' = Some v" for v
      using w(2) that by simp
    with w(1,3) ts(1) show ?thesis by blast
  qed
  have other: "map_get (parse_segments segs3) name = map_get D name"
    if n: "name = ''worker-src'' \<longrightarrow> effective_worker D = None"
      "name = ''connect-src'' \<longrightarrow> effective_connect D = None"
      "name = ''trusted-types'' \<longrightarrow> \<not> tt" for name
  proof -
    have 1: "find_segment name segs1 = find_segment name ?segs0" if "name \<noteq> []"
      using that n(1) eff(1) ed(1) by (cases "name = ''worker-src''") (auto simp: step_effect_def edits_def)
    have 2: "find_segment name segs2 = find_segment name segs1" if "name \<noteq> []"
      using that n(2) eff(2) ed(2) by (cases "name = ''connect-src''") (auto simp: step_effect_def edits_def)
    have 3: "find_segment name segs3 = find_segment name segs2" if "name \<noteq> []"
      using that n(3) steps(5) ed3 by (cases "name = ''trusted-types''") (auto simp: edits_def)
    have "parseDirectives csp = parse_segments ?segs0"
      using parse_describes [of csp] by (simp add: describes_def)
    then show ?thesis
      using 1 2 3 unfolding D_def
      by (cases "name = [] \<or> name \<in> set inherited_names")
        (auto simp: parse_segments_none parse_segments_get)
  qed
  show ?thesis
    using that [OF steps(1) refl unmodified] worker connect trusted other unfolding D' by blast
qed

text \<open>A second rewriting has nothing left to do.\<close>

lemma rewrite_settled:
  assumes "\<not> hasUnseparatedDirective v"
    "\<forall>x. effective_worker (parseDirectives v) = Some x \<longrightarrow>
       (\<exists>w. map_get (parseDirectives v) ''worker-src'' = Some w \<and> ''blob:'' \<in> set (value_words w))"
    "\<forall>x. effective_connect (parseDirectives v) = Some x \<longrightarrow>
       (\<exists>w. map_get (parseDirectives v) ''connect-src'' = Some w \<and> grants_daemon (value_words w))"
    "tt \<longrightarrow> (\<exists>w. map_get (parseDirectives v) ''trusted-types'' = Some w
       \<and> ''webhid-worker'' \<in> set (value_words w))"
  shows "rewriteCspValue v tt = (v, False)"
proof -
  let ?D = "parseDirectives v"
  have "allow_worker ?D (segs, False) = (segs, False)" for segs
    using assms(2) by (auto simp: allow_worker_def effective_worker_def first_defined_def value_words_def
        split: option.splits)
  moreover have "allow_connect ?D (segs, False) = (segs, False)" for segs
    using assms(3) by (auto simp: allow_connect_def effective_connect_def first_defined_def
        allows_daemon_words split: option.splits)
  moreover have "tt \<longrightarrow> allow_trusted_types ?D (segs, False) = (segs, False)" for segs
    using assms(4) by (auto simp: allow_trusted_types_def value_words_def)
  ultimately show ?thesis
    using assms(1) by (cases tt) (simp_all add: rewriteCspValue_def Let_def join_split)
qed

section \<open>Properties\<close>

text \<open>C22: The rewriting opens what the extension needs and leaves the other directives alone.  For a header value without
  a missing semicolon: if a policy governs workers, the new value has a \<open>worker-src\<close> that keeps its
  sources and allows \<open>blob:\<close>; if one governs connections, a \<open>connect-src\<close> that keeps its sources
  and allows the daemon; if the page requires trusted types, \<open>trusted-types\<close> keeps its names and
  adds the worker's.  Every other directive, and each of these three when nothing governed it, is
  as before, and a value reported as unmodified is the given text.\<close>

theorem csp_rewrite_opens_only_what_it_must:
  assumes "\<not> hasUnseparatedDirective csp"
    and "D = parseDirectives csp" and "rewriteCspValue csp tt = (v', m)" and "D' = parseDirectives v'"
  shows "(\<forall>v. effective_worker D = Some v \<longrightarrow>
            (\<exists>w. map_get D' ''worker-src'' = Some w \<and> ''blob:'' \<in> set (value_words w)
                \<and> set (value_words v) \<subseteq> set (value_words w)))
    \<and> (\<forall>v. effective_connect D = Some v \<longrightarrow>
            (\<exists>w. map_get D' ''connect-src'' = Some w \<and> sourceListAllowsDaemonConnects w
                \<and> set (value_words v) \<subseteq> set (value_words w)))
    \<and> (tt \<longrightarrow> (\<exists>w. map_get D' ''trusted-types'' = Some w \<and> ''webhid-worker'' \<in> set (value_words w)
                \<and> (\<forall>v. map_get D ''trusted-types'' = Some v \<longrightarrow>
                     set (value_words v) \<subseteq> set (value_words w))))
    \<and> (\<forall>name. (name = ''worker-src'' \<longrightarrow> effective_worker D = None) \<longrightarrow>
            (name = ''connect-src'' \<longrightarrow> effective_connect D = None) \<longrightarrow>
            (name = ''trusted-types'' \<longrightarrow> \<not> tt) \<longrightarrow> map_get D' name = map_get D name)
    \<and> (\<not> m \<longrightarrow> v' = csp)"
proof (rule rewrite_result [OF assms(1), where tt = tt], goal_cases)
  case (1 x n E)
  then have eq: "x = v'" "n = m" "E = D'" using assms(3,4) by auto
  show ?case
    using 1(3-7) unfolding eq assms(2) allows_daemon_words by (intro conjI)
qed

theorem csp_rewrite_opens_only_what_it_must_witness:
  "\<exists>v' m w. rewriteCspValue ''img-src a'' True = (v', m)
     \<and> map_get (parseDirectives v') ''trusted-types'' = Some w \<and> ''webhid-worker'' \<in> set (value_words w)
     \<and> map_get (parseDirectives v') ''img-src'' = map_get (parseDirectives ''img-src a'') ''img-src''"
proof -
  have "\<not> hasUnseparatedDirective ''img-src a''"
    by (simp add: hasUnseparatedDirective_def CSP_DIRECTIVE_NAMES_def split_on.simps trim_def trim_left_def
        is_ws_def split_ws.simps toLowerCase_def lower_char_def)
  from csp_rewrite_opens_only_what_it_must [OF this refl _ refl, where tt = True]
  show ?thesis by (cases "rewriteCspValue ''img-src a'' True") auto
qed

text \<open>The rewriting is idempotent: a rewritten value is left alone, and reported as unmodified,
  so rewriting a header twice (a redirect, a second listener) adds nothing.\<close>

theorem csp_rewrite_idempotent:
  "rewriteCspValue (fst (rewriteCspValue csp tt)) tt = (fst (rewriteCspValue csp tt), False)"
proof (cases "hasUnseparatedDirective csp \<or> hasUnseparatedDirective (fst (rewriteCspValue csp tt))")
  case True
  then show ?thesis by (auto simp: rewriteCspValue_def)
next
  case False
  then have sep: "\<not> hasUnseparatedDirective csp" by simp
  show ?thesis
  proof (rule rewrite_result [OF sep, where tt = tt], goal_cases)
    case (1 v' m D')
    have same: "map_get D' name = map_get (parseDirectives csp) name"
      if "name = ''script-src'' \<or> name = ''default-src''" for name
      using 1(7) that by (elim allE [of _ name]) auto
    have w: "\<exists>w. map_get D' ''worker-src'' = Some w \<and> ''blob:'' \<in> set (value_words w)"
      if "effective_worker D' = Some x" for x
    proof (cases "effective_worker (parseDirectives csp)")
      case None
      then have "map_get D' ''worker-src'' = map_get (parseDirectives csp) ''worker-src''"
        using spec [OF 1(7), of "''worker-src''"] by simp
      then have "effective_worker D' = None" using None same [of "''script-src''"] same [of "''default-src''"] by (simp add: effective_worker_def)
      then show ?thesis using that by simp
    qed (use 1(4) in blast)
    have c: "\<exists>w. map_get D' ''connect-src'' = Some w \<and> grants_daemon (value_words w)"
      if "effective_connect D' = Some x" for x
    proof (cases "effective_connect (parseDirectives csp)")
      case None
      then have "map_get D' ''connect-src'' = map_get (parseDirectives csp) ''connect-src''"
        using spec [OF 1(7), of "''connect-src''"] by simp
      then have "effective_connect D' = None" using None same [of "''default-src''"] by (simp add: effective_connect_def)
      then show ?thesis using that by simp
    qed (use 1(5) in blast)
    have "rewriteCspValue v' tt = (v', False)"
    proof (rule rewrite_settled)
      show "\<not> hasUnseparatedDirective v'" using False 1(1) by simp
      show "tt \<longrightarrow> (\<exists>w. map_get (parseDirectives v') ''trusted-types'' = Some w
          \<and> ''webhid-worker'' \<in> set (value_words w))" using 1(6) unfolding 1(2) by blast
    qed (use w c in \<open>simp_all add: 1(2)\<close>)
    then show ?case by (simp add: 1(1))
  qed
qed

end
