(* ===== verification/Ws_Transport.thy ===== *)
theory Ws_Transport
  imports Js_Bytes Requests
begin

text \<open>
  \<open>addon/js/utils/websocket.js\<close>: the WebSocket to the daemon, with reconnection.  The state is
  that of the closure \<open>createWsTransport\<close>, with the ready state of every socket the browser made
  for it; the callbacks it calls are its output.  An event of a socket that its ready state rules
  out does not happen: a socket opens once, delivers while it is open, closes once.
\<close>

section \<open>State\<close>

datatype ready_state = CONNECTING | OPEN | CLOSING | CLOSED

datatype ws_data = TextData string | BinaryData bytes

datatype ws_callback =
    OnReady
  | OnAuthFailed nat
  | OnClosed "bool option"  \<comment> \<open>\<open>willReconnect\<close>, absent when called without argument\<close>
  | OnText string
  | OnBinary bytes

record ws_connect_msg =
  cm_wsPort :: nat
  cm_token :: string

record ws_state =
  ws_socket :: "nat option"
  ws_sockets :: "(nat, ready_state) js_map"
  ws_muted :: "nat list"  \<comment> \<open>the sockets whose \<open>onclose\<close> was removed\<close>
  ws_next :: nat
  ws_connectMsg :: "ws_connect_msg option"
  ws_reconnectTimer :: "nat option"  \<comment> \<open>the delay it was set with\<close>
  ws_reconnectDelay :: nat
  ws_calls :: "ws_callback list"
  ws_sent :: "(nat \<times> ws_data) list"

definition WS_CLOSE_UNKNOWN_TOKEN :: nat where "WS_CLOSE_UNKNOWN_TOKEN = 4401"
definition WS_CLOSE_BAD_TOKEN :: nat where "WS_CLOSE_BAD_TOKEN = 4402"
definition MAX_BUFFERED_BYTES :: nat where "MAX_BUFFERED_BYTES = 4 * 1024 * 1024"

definition createWsTransport :: ws_state where
  "createWsTransport = \<lparr>ws_socket = None, ws_sockets = [], ws_muted = [], ws_next = 0, ws_connectMsg = None,
     ws_reconnectTimer = None, ws_reconnectDelay = 500, ws_calls = [], ws_sent = []\<rparr>"

definition ws_call :: "ws_callback \<Rightarrow> ws_state \<Rightarrow> ws_state" where
  "ws_call c s = s\<lparr>ws_calls := ws_calls s @ [c]\<rparr>"

abbreviation socket_state :: "ws_state \<Rightarrow> nat \<Rightarrow> ready_state option" where
  "socket_state s n \<equiv> map_get (ws_sockets s) n"

section \<open>Connecting\<close>

definition ws_bump :: "ws_state \<Rightarrow> ws_state" where
  "ws_bump s = s\<lparr>ws_reconnectDelay := min (ws_reconnectDelay s * 2) 5000\<rparr>"

definition ws_reset :: "ws_state \<Rightarrow> ws_state" where
  "ws_reset s = s\<lparr>ws_reconnectDelay := 500\<rparr>"

definition ws_scheduleReconnect :: "ws_state \<Rightarrow> ws_state" where
  "ws_scheduleReconnect s =
     (if ws_connectMsg s = None \<or> ws_reconnectTimer s \<noteq> None then s
      else ws_bump (s\<lparr>ws_reconnectTimer := Some (ws_reconnectDelay s)\<rparr>))"

text \<open>\<open>ctor_ok\<close>: whether \<open>new WebSocket\<close> returns; when it throws, \<open>ws\<close> keeps its value.\<close>

definition ws_doConnect :: "bool \<Rightarrow> ws_state \<Rightarrow> ws_state" where
  "ws_doConnect ctor_ok s =
     (if ws_connectMsg s = None then s
      else if \<not> ctor_ok then ws_scheduleReconnect s
      else s\<lparr>ws_socket := Some (ws_next s), ws_sockets := map_set (ws_sockets s) (ws_next s) CONNECTING,
             ws_next := ws_next s + 1\<rparr>)"

definition ws_connect :: "ws_connect_msg \<Rightarrow> bool \<Rightarrow> ws_state \<Rightarrow> ws_state" where
  "ws_connect m ctor_ok s = ws_doConnect ctor_ok (s\<lparr>ws_connectMsg := Some m\<rparr>)"

definition ws_timerFired :: "bool \<Rightarrow> ws_state \<Rightarrow> ws_state" where
  "ws_timerFired ctor_ok s =
     (if ws_reconnectTimer s = None then s else ws_doConnect ctor_ok (s\<lparr>ws_reconnectTimer := None\<rparr>))"

section \<open>Events of a socket\<close>

definition ws_onopen :: "nat \<Rightarrow> ws_state \<Rightarrow> ws_state" where
  "ws_onopen n s =
     (if socket_state s n \<noteq> Some CONNECTING then s
      else ws_call OnReady (ws_reset (s\<lparr>ws_sockets := map_set (ws_sockets s) n OPEN\<rparr>)))"

definition ws_onclose :: "nat \<Rightarrow> nat \<Rightarrow> ws_state \<Rightarrow> ws_state" where
  "ws_onclose n code s =
     (if socket_state s n = None \<or> socket_state s n = Some CLOSED then s
      else
        let s1 = s\<lparr>ws_sockets := map_set (ws_sockets s) n CLOSED\<rparr>
        in if n \<in> set (ws_muted s) then s1
           else
             let s2 = s1\<lparr>ws_socket := None\<rparr>
             in if code = WS_CLOSE_UNKNOWN_TOKEN \<or> code = WS_CLOSE_BAD_TOKEN
                then ws_call (OnAuthFailed code) (s2\<lparr>ws_connectMsg := None\<rparr>)
                else ws_scheduleReconnect (ws_call (OnClosed (Some True)) s2))"

definition ws_onmessage :: "nat \<Rightarrow> ws_data \<Rightarrow> ws_state \<Rightarrow> ws_state" where
  "ws_onmessage n d s =
     (if socket_state s n \<noteq> Some OPEN then s
      else case d of TextData t \<Rightarrow> ws_call (OnText t) s | BinaryData b \<Rightarrow> ws_call (OnBinary b) s)"

section \<open>Operations of the owner\<close>

definition ws_isOpen :: "ws_state \<Rightarrow> bool" where
  "ws_isOpen s = (case ws_socket s of None \<Rightarrow> False | Some n \<Rightarrow> socket_state s n = Some OPEN)"

definition ws_send :: "ws_data \<Rightarrow> nat \<Rightarrow> ws_state \<Rightarrow> bool \<times> ws_state" where
  "ws_send frame bufferedAmount s =
     (case ws_socket s of
        None \<Rightarrow> (False, s)
      | Some n \<Rightarrow>
          if socket_state s n \<noteq> Some OPEN then (False, s)
          else if bufferedAmount > MAX_BUFFERED_BYTES then (False, s)
          else (True, s\<lparr>ws_sent := ws_sent s @ [(n, frame)]\<rparr>))"

definition ws_disconnect :: "ws_state \<Rightarrow> ws_state" where
  "ws_disconnect s =
     (let s1 = (case ws_socket s of
                  None \<Rightarrow> s
                | Some n \<Rightarrow> s\<lparr>ws_muted := ws_muted s @ [n], ws_socket := None,
                    ws_sockets := map_set (ws_sockets s) n
                      (if socket_state s n = Some CLOSED then CLOSED else CLOSING)\<rparr>)
      in s1\<lparr>ws_connectMsg := None, ws_reconnectTimer := None\<rparr>)"

datatype ws_event =
    WsConnect ws_connect_msg bool
  | WsTimer bool
  | WsOpen nat
  | WsClose nat nat
  | WsMessage nat ws_data
  | WsSend ws_data nat
  | WsDisconnect

fun ws_step :: "ws_event \<Rightarrow> ws_state \<Rightarrow> ws_state" where
  "ws_step (WsConnect m ctor_ok) s = ws_connect m ctor_ok s"
| "ws_step (WsTimer ctor_ok) s = ws_timerFired ctor_ok s"
| "ws_step (WsOpen n) s = ws_onopen n s"
| "ws_step (WsClose n code) s = ws_onclose n code s"
| "ws_step (WsMessage n d) s = ws_onmessage n d s"
| "ws_step (WsSend d buffered) s = snd (ws_send d buffered s)"
| "ws_step WsDisconnect s = ws_disconnect s"

text \<open>The states the transport reaches when its owner connects it only while it has no socket and
  no reconnection pending (the data worker makes a new transport for every connection).\<close>

inductive ws_reachable :: "ws_state \<Rightarrow> bool" where
  created: "ws_reachable createWsTransport"
| stepped: "ws_reachable s \<Longrightarrow> (\<And>m ok. e = WsConnect m ok \<Longrightarrow> ws_socket s = None \<and> ws_reconnectTimer s = None) \<Longrightarrow>
    ws_reachable (ws_step e s)"

section \<open>Invariants\<close>

interpretation ws_delay: backoff ws_reconnectDelay ws_bump ws_reset 500 5000
  by unfold_locales (simp_all add: ws_bump_def ws_reset_def)

text \<open>A socket that may still speak is the current one, or was muted and is closing; the current one
  is connecting or open and not muted; a transport that was told where to connect has a socket or
  a reconnection pending, never both.\<close>

definition ws_inv :: "ws_state \<Rightarrow> bool" where
  "ws_inv s \<longleftrightarrow>
     (\<forall>n. (socket_state s n = Some CONNECTING \<or> socket_state s n = Some OPEN) \<longleftrightarrow> ws_socket s = Some n)
     \<and> (\<forall>n. socket_state s n = Some CLOSING \<longrightarrow> n \<in> set (ws_muted s))
     \<and> (\<forall>n. socket_state s n \<noteq> None \<longrightarrow> n < ws_next s)
     \<and> (\<forall>n \<in> set (ws_muted s). socket_state s n = Some CLOSING \<or> socket_state s n = Some CLOSED)
     \<and> (ws_connectMsg s \<noteq> None \<longleftrightarrow> ws_socket s \<noteq> None \<or> ws_reconnectTimer s \<noteq> None)
     \<and> (ws_socket s = None \<or> ws_reconnectTimer s = None)
     \<and> ws_delay.in_range s"

lemma ws_inv_created: "ws_inv createWsTransport"
  by (simp add: ws_inv_def createWsTransport_def ws_delay.in_range_def)

lemmas ws_defs = ws_inv_def ws_delay.in_range_def ws_call_def ws_bump_def ws_reset_def
  ws_scheduleReconnect_def ws_doConnect_def

lemma ws_step_inv:
  assumes inv: "ws_inv s"
    and connect: "\<And>m ok. e = WsConnect m ok \<Longrightarrow> ws_socket s = None \<and> ws_reconnectTimer s = None"
  shows "ws_inv (ws_step e s)"
proof (cases e)
  case (WsConnect m ok)
  with connect have *: "ws_socket s = None" "ws_reconnectTimer s = None" by auto
  have "ws_next s \<notin> set (ws_muted s)" using inv by (fastforce simp: ws_inv_def)
  with inv WsConnect * show ?thesis
    by (cases ok) (auto simp: ws_defs ws_connect_def map_get_set)
next
  case (WsTimer ok)
  have "ws_next s \<notin> set (ws_muted s)" using inv by (fastforce simp: ws_inv_def)
  with inv WsTimer show ?thesis
    by (cases ok; cases "ws_reconnectTimer s") (auto simp: ws_defs ws_timerFired_def map_get_set)
next
  case (WsOpen n)
  with inv show ?thesis
    by (fastforce simp: ws_defs ws_onopen_def map_get_set)
next
  case (WsClose n code)
  show ?thesis
  proof (cases "socket_state s n = None \<or> socket_state s n = Some CLOSED")
    case True
    with inv WsClose show ?thesis by (auto simp: ws_onclose_def)
  next
    case alive: False
    show ?thesis
    proof (cases "n \<in> set (ws_muted s)")
      case True
      then have "socket_state s n = Some CLOSING \<or> socket_state s n = Some CLOSED"
        "ws_socket s = Some n \<longleftrightarrow> socket_state s n = Some CONNECTING \<or> socket_state s n = Some OPEN"
        using inv by (simp_all add: ws_inv_def)
      then have "ws_socket s \<noteq> Some n" by auto
      with True inv alive WsClose show ?thesis
        by (auto simp: ws_inv_def ws_delay.in_range_def ws_onclose_def map_get_set)
    next
      case False
      with alive inv have cur: "ws_socket s = Some n" "ws_reconnectTimer s = None" "ws_connectMsg s \<noteq> None"
        by (cases "the (socket_state s n)"; auto simp: ws_inv_def)+
      have others: "\<forall>k. k \<noteq> n \<longrightarrow> socket_state s k \<noteq> Some CONNECTING \<and> socket_state s k \<noteq> Some OPEN"
        using inv cur(1) by (auto simp: ws_inv_def)
      show ?thesis
        using WsClose alive False cur others inv
        by (auto simp: ws_defs ws_onclose_def map_get_set Let_def)
    qed
  qed
next
  case (WsMessage n d)
  with inv show ?thesis
    by (cases d) (auto simp: ws_defs ws_onmessage_def)
next
  case (WsSend d buffered)
  with inv show ?thesis
    by (auto simp: ws_defs ws_send_def split: option.split)
next
  case WsDisconnect
  show ?thesis
  proof (cases "ws_socket s")
    case None
    with inv WsDisconnect show ?thesis by (auto simp: ws_defs ws_disconnect_def)
  next
    case (Some n)
    then have "\<forall>k. k \<noteq> n \<longrightarrow> socket_state s k \<noteq> Some CONNECTING \<and> socket_state s k \<noteq> Some OPEN"
      "socket_state s n = Some CONNECTING \<or> socket_state s n = Some OPEN"
      using inv by (auto simp: ws_inv_def)
    moreover have "n < ws_next s" using inv calculation(2) by (auto simp: ws_inv_def)
    ultimately show ?thesis using inv WsDisconnect Some
      by (auto simp: ws_defs ws_disconnect_def map_get_set Let_def)
  qed
qed

lemma ws_reachable_inv: "ws_reachable s \<Longrightarrow> ws_inv s"
proof (induction rule: ws_reachable.induct)
  case created
  show ?case by (rule ws_inv_created)
next
  case (stepped s e)
  from stepped.IH show ?case by (rule ws_step_inv) (rule stepped.hyps(2))
qed

text \<open>A disconnected transport.\<close>

definition ws_quiet :: "ws_state \<Rightarrow> bool" where
  "ws_quiet s \<longleftrightarrow> ws_connectMsg s = None \<and> ws_socket s = None \<and> ws_reconnectTimer s = None
     \<and> (\<forall>n. socket_state s n \<noteq> Some CONNECTING \<and> socket_state s n \<noteq> Some OPEN)
     \<and> (\<forall>n. socket_state s n = Some CLOSING \<longrightarrow> n \<in> set (ws_muted s))"

lemma ws_disconnect_quiet:
  assumes "ws_inv s"
  shows "ws_quiet (ws_disconnect s)" "ws_calls (ws_disconnect s) = ws_calls s"
    "ws_sent (ws_disconnect s) = ws_sent s"
proof -
  show "ws_quiet (ws_disconnect s)"
  proof (cases "ws_socket s")
    case None
    with assms show ?thesis by (auto simp: ws_quiet_def ws_inv_def ws_disconnect_def)
  next
    case (Some n)
    then have "\<forall>k. k \<noteq> n \<longrightarrow> socket_state s k \<noteq> Some CONNECTING \<and> socket_state s k \<noteq> Some OPEN"
      using assms by (auto simp: ws_inv_def)
    with Some assms show ?thesis
      by (auto simp: ws_quiet_def ws_inv_def ws_disconnect_def map_get_set Let_def)
  qed
qed (simp_all add: ws_disconnect_def Let_def split: option.split)

lemma ws_quiet_step:
  assumes "ws_quiet s" "\<And>m ok. e \<noteq> WsConnect m ok"
  shows "ws_quiet (ws_step e s) \<and> ws_calls (ws_step e s) = ws_calls s \<and> ws_sent (ws_step e s) = ws_sent s"
proof (cases e)
  case (WsClose n code)
  show ?thesis
  proof (cases "socket_state s n = Some CLOSING")
    case True
    with assms(1) have "n \<in> set (ws_muted s)" by (simp add: ws_quiet_def)
    with True assms(1) WsClose show ?thesis by (auto simp: ws_quiet_def ws_onclose_def map_get_set)
  next
    case False
    have "socket_state s n = None \<or> socket_state s n = Some CLOSED"
      using False assms(1) by (cases "socket_state s n"; cases "the (socket_state s n)") (auto simp: ws_quiet_def)
    with assms(1) WsClose show ?thesis by (auto simp: ws_onclose_def)
  qed
qed (use assms in \<open>auto simp: ws_quiet_def ws_timerFired_def ws_onopen_def ws_onmessage_def ws_send_def
      ws_disconnect_def\<close>)

lemma ws_quiet_run:
  assumes "ws_quiet s" "\<forall>e \<in> set es. \<forall>m ok. e \<noteq> WsConnect m ok"
  shows "ws_quiet (fold ws_step es s) \<and> ws_calls (fold ws_step es s) = ws_calls s
    \<and> ws_sent (fold ws_step es s) = ws_sent s"
  using assms
proof (induction es arbitrary: s)
  case (Cons e es)
  have "ws_quiet (ws_step e s) \<and> ws_calls (ws_step e s) = ws_calls s \<and> ws_sent (ws_step e s) = ws_sent s"
    by (rule ws_quiet_step) (use Cons.prems in auto)
  with Cons.IH [of "ws_step e s"] Cons.prems(2) show ?case by simp
qed simp

text \<open>The loss of the current socket.\<close>

lemma ws_close_current:
  assumes "ws_inv s" "ws_socket s = Some n"
  shows "ws_step (WsClose n code) s =
      (if code = 4401 \<or> code = 4402
       then s\<lparr>ws_sockets := map_set (ws_sockets s) n CLOSED, ws_socket := None,
              ws_connectMsg := None, ws_calls := ws_calls s @ [OnAuthFailed code]\<rparr>
       else s\<lparr>ws_sockets := map_set (ws_sockets s) n CLOSED, ws_socket := None,
              ws_reconnectTimer := Some (ws_reconnectDelay s),
              ws_reconnectDelay := min (ws_reconnectDelay s * 2) 5000,
              ws_calls := ws_calls s @ [OnClosed (Some True)]\<rparr>)"
proof -
  have state: "socket_state s n = Some CONNECTING \<or> socket_state s n = Some OPEN"
    "ws_connectMsg s \<noteq> None" "ws_reconnectTimer s = None"
    using assms by (auto simp: ws_inv_def)
  have "n \<notin> set (ws_muted s)" using assms(1) state(1) by (fastforce simp: ws_inv_def)
  with state show ?thesis
    by (auto simp: ws_onclose_def ws_call_def ws_scheduleReconnect_def ws_bump_def Let_def
        WS_CLOSE_UNKNOWN_TOKEN_def WS_CLOSE_BAD_TOKEN_def)
qed

section \<open>Properties\<close>

text \<open>Disconnecting is final.  After the owner disconnected, whatever the sockets it left behind
  and the timers do, the transport calls no callback, sends nothing and schedules nothing, until
  it is told to connect again.\<close>

theorem ws_disconnect_final:
  assumes "ws_reachable s" and "\<forall>e \<in> set es. \<forall>m ok. e \<noteq> WsConnect m ok"
    and "s' = fold ws_step es (ws_step WsDisconnect s)"
  shows "ws_calls s' = ws_calls s \<and> ws_sent s' = ws_sent s \<and> \<not> ws_isOpen s'
    \<and> ws_socket s' = None \<and> ws_reconnectTimer s' = None"
  using ws_quiet_run [OF ws_disconnect_quiet(1) [OF ws_reachable_inv [OF assms(1)]] assms(2)]
    ws_disconnect_quiet(2,3) [OF ws_reachable_inv [OF assms(1)]]
  by (simp add: assms(3) ws_quiet_def ws_isOpen_def)

theorem ws_disconnect_final_witness:
  "ws_calls (fold ws_step [WsClose 0 1006, WsTimer True] (ws_step WsDisconnect
     (ws_step (WsOpen 0) (ws_step (WsConnect \<lparr>cm_wsPort = 9, cm_token = ''t''\<rparr> True) createWsTransport))))
   = [OnReady]"
proof -
  have "ws_reachable (ws_step (WsConnect \<lparr>cm_wsPort = 9, cm_token = ''t''\<rparr> True) createWsTransport)"
    by (intro ws_reachable.intros) (simp_all add: createWsTransport_def)
  then have "ws_reachable (ws_step (WsOpen 0)
      (ws_step (WsConnect \<lparr>cm_wsPort = 9, cm_token = ''t''\<rparr> True) createWsTransport))"
    by (rule ws_reachable.stepped) simp
  from ws_disconnect_final [OF this _ refl, of "[WsClose 0 1006, WsTimer True]"] show ?thesis
    by (simp add: ws_connect_def ws_doConnect_def createWsTransport_def ws_onopen_def ws_call_def ws_reset_def)
qed

text \<open>The transport is never stuck and never doubled.  While it knows where to connect it has
  exactly one of a live socket and a pending reconnection, no second socket of its own is alive,
  and its delay lies between half a second and five.  The loss of its socket is reported once: an
  authentication failure to the owner, who has to connect anew, any other loss with a
  reconnection after the current delay, which doubles.\<close>

theorem ws_loss_handled:
  assumes "ws_reachable s"
  shows "(ws_connectMsg s \<noteq> None \<longleftrightarrow> (ws_socket s \<noteq> None) \<noteq> (ws_reconnectTimer s \<noteq> None))
    \<and> {n. socket_state s n = Some CONNECTING \<or> socket_state s n = Some OPEN} = set_option (ws_socket s)
    \<and> 500 \<le> ws_reconnectDelay s \<and> ws_reconnectDelay s \<le> 5000
    \<and> (case ws_socket s of
         None \<Rightarrow> True
       | Some n \<Rightarrow>
           ws_step (WsClose n code) s =
             (if code = 4401 \<or> code = 4402
              then s\<lparr>ws_sockets := map_set (ws_sockets s) n CLOSED, ws_socket := None,
                     ws_connectMsg := None, ws_calls := ws_calls s @ [OnAuthFailed code]\<rparr>
              else s\<lparr>ws_sockets := map_set (ws_sockets s) n CLOSED, ws_socket := None,
                     ws_reconnectTimer := Some (ws_reconnectDelay s),
                     ws_reconnectDelay := min (ws_reconnectDelay s * 2) 5000,
                     ws_calls := ws_calls s @ [OnClosed (Some True)]\<rparr>))"
proof -
  have inv: "ws_inv s" using assms by (rule ws_reachable_inv)
  show ?thesis
    using inv ws_close_current [OF inv, of _ code]
    by (auto simp: ws_inv_def ws_delay.in_range_def split: option.split)
qed

theorem ws_loss_handled_witness:
  "ws_calls (ws_step (WsClose 0 4401) (ws_step (WsConnect \<lparr>cm_wsPort = 9, cm_token = ''t''\<rparr> True)
     createWsTransport)) = [OnAuthFailed 4401]"
proof -
  have "ws_reachable (ws_step (WsConnect \<lparr>cm_wsPort = 9, cm_token = ''t''\<rparr> True) createWsTransport)"
    by (intro ws_reachable.intros) (simp_all add: createWsTransport_def)
  from ws_loss_handled [OF this, of 4401] show ?thesis
    by (simp add: ws_connect_def ws_doConnect_def createWsTransport_def)
qed

end
