(* ===== verification/Data_Worker.thy ===== *)
theory Data_Worker
  imports Wire_Format Requests Ws_Transport
begin

text \<open>
  \<open>addon/js/content/isolated/worker/index.js\<close>: the data worker.  It takes the requests of the page
  from the data port, numbers them, sends them over the transport and answers the page; while the
  transport is down it queues them, a thousand at most.

  The transport is seen through what the worker asks of it: whether it is open, and whether it
  takes a frame.  Every message of the page gets a number when it arrives (\<open>w_received\<close>), which
  follows it through the queue and the pending table; \<open>w_settled\<close> records what it was answered.
\<close>

section \<open>State\<close>

datatype data_type = Send | SendFeature | ReceiveFeature | OtherType

record data_msg =
  dm_type :: data_type
  dm_reqId :: nat
  dm_reportId :: nat
  dm_data :: "bytes option"  \<comment> \<open>absent when it is no \<open>Uint8Array\<close>\<close>

datatype reply_type = SendResult | FeatureResult

record data_reply =
  rp_type :: reply_type
  rp_reqId :: nat
  rp_error :: "string option"
  rp_data :: "bytes option"

text \<open>A pending entry: the number of the message, its request id on the page, the type of its reply, and
  whether its \<open>resolve\<close> takes the data of the response, as only that of a read does.\<close>

record worker_entry =
  we_message :: nat
  we_reqId :: nat
  we_feature :: bool
  we_reads :: bool

datatype worker_outcome = Reply data_reply | Ignored

datatype control_reply = Ready | Closed | AuthFailed nat

record worker_state =
  w_nextReqId :: nat
  w_pending :: "(nat, worker_entry) js_map"
  w_timers :: "nat list"
  w_transport :: bool
  w_hasControlPort :: bool
  w_preOpen :: "(nat \<times> data_msg) list"
  w_received :: nat
  w_issued :: "nat list"
  w_settled :: "(nat \<times> worker_outcome) list"
  w_frames :: "bytes list"
  w_control :: "control_reply list"
  w_batches :: "input_report list list"

definition PENDING_REQUEST_TIMEOUT_MS :: nat where "PENDING_REQUEST_TIMEOUT_MS = 30000"
definition MAX_PREOPEN :: nat where "MAX_PREOPEN = 1024"

definition initial_worker :: worker_state where
  "initial_worker = \<lparr>w_nextReqId = 1, w_pending = [], w_timers = [], w_transport = False,
     w_hasControlPort = False, w_preOpen = [], w_received = 0, w_issued = [], w_settled = [],
     w_frames = [], w_control = [], w_batches = []\<rparr>"

record transport_view =
  tr_isOpen :: bool
  tr_send :: "bytes \<Rightarrow> bool"

definition replyData :: "nat \<Rightarrow> data_reply \<Rightarrow> worker_state \<Rightarrow> worker_state" where
  "replyData message reply s = s\<lparr>w_settled := w_settled s @ [(message, Reply reply)]\<rparr>"

definition error_reply :: "reply_type \<Rightarrow> nat \<Rightarrow> string \<Rightarrow> data_reply" where
  "error_reply t reqId err = \<lparr>rp_type = t, rp_reqId = reqId, rp_error = Some err, rp_data = None\<rparr>"

definition queue_reply_type :: "data_type \<Rightarrow> reply_type" where
  "queue_reply_type t = (if t = ReceiveFeature then FeatureResult else SendResult)"

definition entry_reply_type :: "worker_entry \<Rightarrow> reply_type" where
  "entry_reply_type en = (if we_feature en then FeatureResult else SendResult)"

section \<open>Pending requests\<close>

definition registerPending :: "nat \<Rightarrow> worker_entry \<Rightarrow> worker_state \<Rightarrow> worker_state" where
  "registerPending reqId en s =
     s\<lparr>w_timers := w_timers s @ [reqId], w_pending := map_set (w_pending s) reqId en\<rparr>"

text \<open>Rejecting an entry taken out of the table: its deadline is cleared and the page gets
  \<open>String(e.message || e)\<close>.\<close>

definition reject_entry :: "string \<Rightarrow> nat \<times> worker_entry \<Rightarrow> worker_state \<Rightarrow> worker_state" where
  "reject_entry err = (\<lambda>(reqId, en) s.
     replyData (we_message en) (error_reply (entry_reply_type en) (we_reqId en) err)
       (s\<lparr>w_timers := removeAll reqId (w_timers s)\<rparr>))"

definition resolve_entry :: "bytes option \<Rightarrow> nat \<times> worker_entry \<Rightarrow> worker_state \<Rightarrow> worker_state" where
  "resolve_entry d = (\<lambda>(reqId, en) s.
     replyData (we_message en)
       \<lparr>rp_type = entry_reply_type en, rp_reqId = we_reqId en, rp_error = None,
        rp_data = (if we_reads en then d else None)\<rparr>
       (s\<lparr>w_timers := removeAll reqId (w_timers s)\<rparr>))"

definition pendingTimeout :: "nat \<Rightarrow> worker_state \<Rightarrow> worker_state" where
  "pendingTimeout reqId s =
     (if reqId \<notin> set (w_timers s) then s
      else case map_get (w_pending s) reqId of
             None \<Rightarrow> s\<lparr>w_timers := removeAll reqId (w_timers s)\<rparr>
           | Some en \<Rightarrow> reject_entry ''request timed out'' (reqId, en)
                         (s\<lparr>w_pending := map_delete (w_pending s) reqId\<rparr>))"

section \<open>Messages of the page\<close>

text \<open>A registered request is sent; a frame the transport does not take is rejected at once.\<close>

definition send_registered :: "transport_view \<Rightarrow> bytes \<Rightarrow> worker_entry \<Rightarrow> worker_state \<Rightarrow> worker_state" where
  "send_registered tr frame en s0 =
     (let reqId = w_nextReqId s0;
          s = registerPending reqId en (s0\<lparr>w_nextReqId := reqId + 1\<rparr>)
      in if tr_send tr frame then s\<lparr>w_frames := w_frames s @ [frame]\<rparr>
         else case map_get (w_pending s) reqId of
                None \<Rightarrow> s
              | Some entry \<Rightarrow> reject_entry ''ws closed'' (reqId, entry)
                               (s\<lparr>w_pending := map_delete (w_pending s) reqId\<rparr>))"

definition handleSend :: "transport_view \<Rightarrow> nat \<Rightarrow> data_msg \<Rightarrow> nat \<Rightarrow> worker_state \<Rightarrow> worker_state" where
  "handleSend tr message msg msgType s =
     (let t = (if msgType = MSG_SEND_REPORT then SendResult else FeatureResult)
      in if \<not> w_transport s \<or> \<not> tr_isOpen tr
         then replyData message (error_reply t (dm_reqId msg) ''ws not open'') s
         else case dm_data msg of
                None \<Rightarrow> replyData message (error_reply t (dm_reqId msg) ''bad payload'') s
              | Some payload \<Rightarrow>
                  send_registered tr (buildSendFrame msgType (w_nextReqId s) (dm_reportId msg) (Some payload))
                    \<lparr>we_message = message, we_reqId = dm_reqId msg, we_feature = msgType \<noteq> MSG_SEND_REPORT,
                     we_reads = False\<rparr> s)"

definition handleReceiveFeature :: "transport_view \<Rightarrow> nat \<Rightarrow> data_msg \<Rightarrow> worker_state \<Rightarrow> worker_state" where
  "handleReceiveFeature tr message msg s =
     (if \<not> w_transport s \<or> \<not> tr_isOpen tr
      then replyData message (error_reply FeatureResult (dm_reqId msg) ''ws not open'') s
      else send_registered tr
             (buildSendFrame MSG_RECEIVE_FEATURE_REPORT (w_nextReqId s) (dm_reportId msg) None)
             \<lparr>we_message = message, we_reqId = dm_reqId msg, we_feature = True, we_reads = True\<rparr> s)"

definition handleDataPortMessage :: "transport_view \<Rightarrow> nat \<times> data_msg \<Rightarrow> worker_state \<Rightarrow> worker_state" where
  "handleDataPortMessage tr = (\<lambda>(message, msg) s.
     if \<not> w_transport s \<or> \<not> tr_isOpen tr
     then if length (w_preOpen s) \<ge> MAX_PREOPEN
          then replyData message (error_reply (queue_reply_type (dm_type msg)) (dm_reqId msg) ''busy'') s
          else s\<lparr>w_preOpen := w_preOpen s @ [(message, msg)]\<rparr>
     else case dm_type msg of
            Send \<Rightarrow> handleSend tr message msg MSG_SEND_REPORT s
          | SendFeature \<Rightarrow> handleSend tr message msg MSG_SEND_FEATURE_REPORT s
          | ReceiveFeature \<Rightarrow> handleReceiveFeature tr message msg s
          | OtherType \<Rightarrow> s\<lparr>w_settled := w_settled s @ [(message, Ignored)]\<rparr>)"

text \<open>A message arriving on the data port.\<close>

definition dataPortMessage :: "transport_view \<Rightarrow> data_msg \<Rightarrow> worker_state \<Rightarrow> worker_state" where
  "dataPortMessage tr msg s =
     handleDataPortMessage tr (w_received s, msg)
       (s\<lparr>w_received := w_received s + 1, w_issued := w_issued s @ [w_received s]\<rparr>)"

section \<open>The transport's callbacks\<close>

definition post_control :: "control_reply \<Rightarrow> worker_state \<Rightarrow> worker_state" where
  "post_control c s = (if w_hasControlPort s then s\<lparr>w_control := w_control s @ [c]\<rparr> else s)"

definition worker_onReady :: "transport_view \<Rightarrow> worker_state \<Rightarrow> worker_state" where
  "worker_onReady tr s =
     fold (handleDataPortMessage tr) (w_preOpen s) ((post_control Ready s)\<lparr>w_preOpen := []\<rparr>)"

definition reject_queued :: "nat \<times> data_msg \<Rightarrow> worker_state \<Rightarrow> worker_state" where
  "reject_queued = (\<lambda>(message, msg).
     replyData message (error_reply (queue_reply_type (dm_type msg)) (dm_reqId msg) ''ws closed''))"

definition worker_onClosed :: "bool option \<Rightarrow> worker_state \<Rightarrow> worker_state" where
  "worker_onClosed willReconnect s =
     (let s1 = (if willReconnect = Some True then s else post_control Closed s);
          s2 = (fold (reject_entry ''ws closed'') (w_pending s1) s1)\<lparr>w_pending := []\<rparr>
      in fold reject_queued (w_preOpen s2) (s2\<lparr>w_preOpen := []\<rparr>))"

definition worker_onAuthFailed :: "nat \<Rightarrow> worker_state \<Rightarrow> worker_state" where
  "worker_onAuthFailed code s = post_control (AuthFailed code) s"

definition pushInputBatch :: "bytes \<Rightarrow> nat \<Rightarrow> worker_state \<Rightarrow> worker_state" where
  "pushInputBatch batch offset s =
     (let reports = parseInputReports batch offset
      in if reports = [] then s else s\<lparr>w_batches := w_batches s @ [reports]\<rparr>)"

text \<open>The text the page gets for a rejected entry: \<open>String(e.message || e)\<close> of an object without
  a message is \<open>[object Object]\<close>.\<close>

definition settlement_reply :: "settlement \<Rightarrow> nat \<times> worker_entry \<Rightarrow> worker_state \<Rightarrow> worker_state" where
  "settlement_reply r =
     (case r of
        Resolved d \<Rightarrow> resolve_entry d
      | RejectedBlocked \<Rightarrow> reject_entry ''[object Object]''
      | RejectedError m \<Rightarrow> reject_entry m)"

definition worker_controlResponse :: "bytes \<Rightarrow> worker_state \<Rightarrow> worker_state" where
  "worker_controlResponse batch s =
     (case handleControlResponse batch (w_pending s) of
        (_, None) \<Rightarrow> s
      | (rest, Some (entry, r)) \<Rightarrow>
          settlement_reply r (le_nat (take 4 (drop 1 batch)), entry) (s\<lparr>w_pending := rest\<rparr>))"

definition worker_onBinary :: "bytes \<Rightarrow> worker_state \<Rightarrow> worker_state" where
  "worker_onBinary batch s =
     (if length batch > 0 \<and> unat (batch ! 0) = MSG_INPUT_BATCH then pushInputBatch batch 1 s
      else if length batch > 0 \<and> unat (batch ! 0) \<ge> 0x81 then worker_controlResponse batch s
      else pushInputBatch batch 0 s)"

section \<open>Steps\<close>

datatype worker_event =
    SetPorts bool
  | ConnectTransport
  | PageMessage transport_view data_msg
  | TransportReady transport_view
  | TransportClosed "bool option"
  | TransportAuthFailed nat
  | TransportBinary bytes
  | RequestTimeout nat

fun worker_step :: "worker_event \<Rightarrow> worker_state \<Rightarrow> worker_state" where
  "worker_step (SetPorts control) s = s\<lparr>w_hasControlPort := control\<rparr>"
| "worker_step ConnectTransport s = s\<lparr>w_transport := True\<rparr>"
| "worker_step (PageMessage tr msg) s = dataPortMessage tr msg s"
| "worker_step (TransportReady tr) s = worker_onReady tr s"
| "worker_step (TransportClosed willReconnect) s = worker_onClosed willReconnect s"
| "worker_step (TransportAuthFailed code) s = worker_onAuthFailed code s"
| "worker_step (TransportBinary batch) s = worker_onBinary batch s"
| "worker_step (RequestTimeout reqId) s = pendingTimeout reqId s"

section \<open>Every message is answered\<close>

text \<open>The bookkeeping while the messages \<open>q\<close> are in hand.\<close>

definition worker_wf :: "nat list \<Rightarrow> worker_state \<Rightarrow> bool" where
  "worker_wf q s \<longleftrightarrow>
     table_wf (w_pending s) (w_timers s) (w_nextReqId s)
     \<and> distinct (w_issued s) \<and> (\<forall>n \<in> set (w_issued s). n < w_received s)
     \<and> mset (w_issued s) = mset q + mset (map fst (w_preOpen s))
         + mset (map we_message (map snd (w_pending s))) + mset (map fst (w_settled s))"

text \<open>Which messages wait: those queued and those pending.\<close>

definition worker_waiting :: "worker_state \<Rightarrow> nat list" where
  "worker_waiting s = map fst (w_preOpen s) @ map we_message (map snd (w_pending s))"

definition worker_moves :: "nat list \<Rightarrow> worker_state \<Rightarrow> nat list \<Rightarrow> worker_state \<Rightarrow> bool" where
  "worker_moves q s q' s' \<longleftrightarrow> (worker_wf q s \<longrightarrow> worker_wf q' s')
     \<and> w_issued s' = w_issued s \<and> prefix (w_settled s) (w_settled s')"

lemma worker_moves_refl: "worker_moves q s q s"
  by (simp add: worker_moves_def)

lemma worker_moves_trans:
  "worker_moves q s q' s' \<Longrightarrow> worker_moves q' s' q'' s'' \<Longrightarrow> worker_moves q s q'' s''"
  by (auto simp: worker_moves_def intro: prefix_order.trans)

text \<open>A message in hand is answered.\<close>

lemma reply_moves: "worker_moves (m # q) s q (replyData m reply s)"
  by (simp add: worker_moves_def worker_wf_def replyData_def)

lemma ignored_moves: "worker_moves (m # q) s q (s\<lparr>w_settled := w_settled s @ [(m, Ignored)]\<rparr>)"
  by (simp add: worker_moves_def worker_wf_def)

lemma queue_moves: "worker_moves (m # q) s q (s\<lparr>w_preOpen := w_preOpen s @ [(m, msg)]\<rparr>)"
  by (simp add: worker_moves_def worker_wf_def)

lemma send_registered_moves:
  "worker_moves (we_message en # q) s q (send_registered tr frame en s)"
proof -
  let ?n = "w_nextReqId s"
  have get: "map_get (map_set (w_pending s) ?n en) ?n = Some en" by (simp add: map_get_set)
  have taken: "worker_wf (we_message en # q) s \<Longrightarrow> tr_send tr frame \<Longrightarrow> worker_wf q (send_registered tr frame en s)"
    using table_wf_insert(1,2) [of "w_pending s" "w_timers s" ?n en]
    by (simp add: send_registered_def registerPending_def worker_wf_def Let_def)
  have "worker_wf (we_message en # q) s \<Longrightarrow> \<not> tr_send tr frame \<Longrightarrow> worker_wf q (send_registered tr frame en s)"
    using table_wf_insert(3,4,5) [of "w_pending s" "w_timers s" ?n] get
    by (simp add: send_registered_def registerPending_def reject_entry_def replyData_def worker_wf_def Let_def)
  with taken show ?thesis
    by (auto simp: worker_moves_def send_registered_def registerPending_def reject_entry_def replyData_def Let_def
        split: option.split)
qed

lemma handleDataPortMessage_moves:
  "worker_moves (m # q) s q (handleDataPortMessage tr (m, msg) s)"
  using send_registered_moves [of "\<lparr>we_message = m, we_reqId = r, we_feature = f, we_reads = b\<rparr>" for r f b]
  by (auto simp: handleDataPortMessage_def handleSend_def handleReceiveFeature_def Let_def
      intro: reply_moves ignored_moves queue_moves split: data_type.split option.split)

lemma handle_queue_moves:
  "worker_moves (map fst items @ q) s q (fold (handleDataPortMessage tr) items s)"
proof (induction items arbitrary: s)
  case (Cons item items)
  obtain m msg where "item = (m, msg)" by fastforce
  with worker_moves_trans [OF handleDataPortMessage_moves Cons.IH] show ?case by simp
qed (simp add: worker_moves_refl)

text \<open>An entry leaves the table with its answer.\<close>

lemma settle_entry_moves:
  assumes "map_get (w_pending s) reqId = Some en" "w_pending s' = map_delete (w_pending s) reqId"
    "w_timers s' = removeAll reqId (w_timers s)" "w_nextReqId s' = w_nextReqId s"
    "w_settled s' = w_settled s @ [(we_message en, outcome)]" "w_issued s' = w_issued s"
    "w_preOpen s' = w_preOpen s" "w_received s' = w_received s"
  shows "worker_moves q s q s'"
proof -
  have "table_wf (w_pending s) (w_timers s) (w_nextReqId s) \<Longrightarrow>
      mset (map snd (w_pending s)) = add_mset en (mset (map snd (map_delete (w_pending s) reqId)))"
    using mset_map_delete assms(1) by (fastforce simp: table_wf_def)
  then have "table_wf (w_pending s) (w_timers s) (w_nextReqId s) \<Longrightarrow>
      mset (map we_message (map snd (w_pending s))) =
      add_mset (we_message en) (mset (map we_message (map snd (map_delete (w_pending s) reqId))))"
    by (simp only: mset_map image_mset_add_mset)
  then show ?thesis
    using assms by (simp add: worker_moves_def worker_wf_def table_wf_remove del: map_map)
qed

lemma settlement_moves:
  assumes "map_get (w_pending s) reqId = Some en"
  shows "worker_moves q s q (settlement_reply r (reqId, en) (s\<lparr>w_pending := map_delete (w_pending s) reqId\<rparr>))"
    and "worker_moves q s q (reject_entry err (reqId, en) (s\<lparr>w_pending := map_delete (w_pending s) reqId\<rparr>))"
  by (cases r; rule settle_entry_moves [OF assms];
      simp add: settlement_reply_def resolve_entry_def reject_entry_def replyData_def)+

lemma reject_entries_eq:
  "fold (reject_entry err) es s =
     s\<lparr>w_timers := filter (\<lambda>i. i \<notin> fst ` set es) (w_timers s),
       w_settled := w_settled s @ map (\<lambda>e. (we_message (snd e),
         Reply (error_reply (entry_reply_type (snd e)) (we_reqId (snd e)) err))) es\<rparr>"
  by (induction es arbitrary: s) (simp_all add: reject_entry_def replyData_def removeAll_neq split_beta)

lemma reject_queue_eq:
  "fold reject_queued items s =
     s\<lparr>w_settled := w_settled s @ map (\<lambda>item. (fst item,
         Reply (error_reply (queue_reply_type (dm_type (snd item))) (dm_reqId (snd item)) ''ws closed''))) items\<rparr>"
  by (induction items arbitrary: s) (simp_all add: reject_queued_def replyData_def split_beta)

lemma post_control_simps [simp]:
  "w_pending (post_control c s) = w_pending s" "w_timers (post_control c s) = w_timers s"
  "w_nextReqId (post_control c s) = w_nextReqId s" "w_preOpen (post_control c s) = w_preOpen s"
  "w_received (post_control c s) = w_received s" "w_issued (post_control c s) = w_issued s"
  "w_settled (post_control c s) = w_settled s" "w_transport (post_control c s) = w_transport s"
  by (simp_all add: post_control_def)

lemma worker_onClosed_moves: "worker_moves [] s [] (worker_onClosed willReconnect s)"
  by (auto simp: worker_moves_def worker_wf_def worker_onClosed_def Let_def reject_entries_eq
      reject_queue_eq table_wf_def comp_def filter_empty_conv)

lemma worker_onReady_moves: "worker_moves [] s [] (worker_onReady tr s)"
proof -
  have "worker_wf [] s \<Longrightarrow> worker_wf (map fst (w_preOpen s)) ((post_control Ready s)\<lparr>w_preOpen := []\<rparr>)"
    by (simp add: worker_wf_def)
  then show ?thesis
    using handle_queue_moves [of "w_preOpen s" "[]" "(post_control Ready s)\<lparr>w_preOpen := []\<rparr>" tr]
    by (simp add: worker_moves_def worker_onReady_def)
qed

lemma worker_onBinary_moves: "worker_moves [] s [] (worker_onBinary batch s)"
proof -
  have "worker_moves [] s [] (pushInputBatch batch k s)" for k
    by (simp add: pushInputBatch_def worker_moves_def worker_wf_def Let_def)
  moreover have "worker_moves [] s [] (worker_controlResponse batch s)"
  proof (cases "handleControlResponse batch (w_pending s)")
    case (Pair rest found)
    show ?thesis
    proof (cases found)
      case None
      with Pair show ?thesis by (simp add: worker_controlResponse_def worker_moves_refl)
    next
      case (Some er)
      then obtain en r where er: "found = Some (en, r)" by (cases er) auto
      with Pair have "map_get (w_pending s) (le_nat (take 4 (drop 1 batch))) = Some en"
        "rest = map_delete (w_pending s) (le_nat (take 4 (drop 1 batch)))"
        by (auto simp: handleControlResponse_def Let_def split: if_splits option.splits)
      with settlement_moves(1) Pair er show ?thesis by (simp add: worker_controlResponse_def)
    qed
  qed
  ultimately show ?thesis unfolding worker_onBinary_def by (simp only: split: if_split) simp
qed

lemma pendingTimeout_moves: "worker_moves [] s [] (pendingTimeout reqId s)"
proof (cases "reqId \<in> set (w_timers s)")
  case True
  show ?thesis
  proof (cases "map_get (w_pending s) reqId")
    case None
    then have "\<not> worker_wf [] s"
      using True by (auto simp: worker_wf_def table_wf_def map_of_eq_None_iff)
    with True None show ?thesis by (simp add: worker_moves_def pendingTimeout_def)
  next
    case (Some en)
    with settlement_moves(2) [OF Some] True show ?thesis by (simp add: pendingTimeout_def)
  qed
qed (simp add: pendingTimeout_def worker_moves_refl)

lemma dataPortMessage_wf:
  assumes "worker_wf [] s"
  shows "worker_wf [] (dataPortMessage tr msg s)"
    "w_issued (dataPortMessage tr msg s) = w_issued s @ [w_received s]"
    "prefix (w_settled s) (w_settled (dataPortMessage tr msg s))"
proof -
  let ?s = "s\<lparr>w_received := w_received s + 1, w_issued := w_issued s @ [w_received s]\<rparr>"
  have "worker_wf [w_received s] ?s"
    using assms by (auto simp: worker_wf_def less_Suc_eq)
  with handleDataPortMessage_moves [of "w_received s" "[]" ?s tr msg]
  show "worker_wf [] (dataPortMessage tr msg s)"
    "w_issued (dataPortMessage tr msg s) = w_issued s @ [w_received s]"
    "prefix (w_settled s) (w_settled (dataPortMessage tr msg s))"
    by (simp_all add: worker_moves_def dataPortMessage_def)
qed

lemma worker_step_moves:
  assumes "worker_wf [] s"
  shows "worker_wf [] (worker_step e s)" "prefix (w_issued s) (w_issued (worker_step e s))"
    "prefix (w_settled s) (w_settled (worker_step e s))"
proof -
  have plain: "worker_moves [] s [] (s\<lparr>w_hasControlPort := b\<rparr>)" "worker_moves [] s [] (s\<lparr>w_transport := b\<rparr>)"
    "worker_moves [] s [] (post_control c s)" for b c
    by (simp_all add: worker_moves_def worker_wf_def)
  have "worker_wf [] (worker_step e s) \<and> prefix (w_issued s) (w_issued (worker_step e s))
      \<and> prefix (w_settled s) (w_settled (worker_step e s))"
  proof (cases e)
    case (PageMessage tr msg)
    with dataPortMessage_wf [OF assms, of tr msg] show ?thesis by simp
  qed (use assms worker_onReady_moves [of s] worker_onClosed_moves [of s] worker_onBinary_moves [of s]
      pendingTimeout_moves [of s] plain in \<open>simp_all add: worker_moves_def worker_onAuthFailed_def\<close>)
  then show "worker_wf [] (worker_step e s)" "prefix (w_issued s) (w_issued (worker_step e s))"
    "prefix (w_settled s) (w_settled (worker_step e s))" by blast+
qed

lemma worker_wf_initial: "worker_wf [] initial_worker"
  by (simp add: worker_wf_def initial_worker_def table_wf_def)

interpretation worker_requests: requests worker_step w_issued worker_waiting w_settled "worker_wf []"
proof
  fix s :: worker_state and e :: worker_event
  assume wf: "worker_wf [] s"
  show "worker_wf [] (worker_step e s)" "prefix (w_issued s) (w_issued (worker_step e s))"
    "prefix (w_settled s) (w_settled (worker_step e s))"
    by (rule worker_step_moves [OF wf])+
  show "mset (w_issued s) = mset (worker_waiting s) + mset (map fst (w_settled s))" "distinct (w_issued s)"
    using wf by (simp_all add: worker_wf_def worker_waiting_def)
qed

section \<open>The queue\<close>

text \<open>The queue is bounded, and holds nothing while every message can be handled.\<close>

lemma handle_queue_bound:
  "length (w_preOpen s) \<le> MAX_PREOPEN \<Longrightarrow>
   length (w_preOpen (handleDataPortMessage tr item s)) \<le> MAX_PREOPEN"
  by (cases item) (auto simp: handleDataPortMessage_def handleSend_def handleReceiveFeature_def
      send_registered_def registerPending_def reject_entry_def replyData_def Let_def
      split: data_type.split option.split)

lemma worker_queue_bound:
  assumes "length (w_preOpen s) \<le> MAX_PREOPEN"
  shows "length (w_preOpen (worker_step e s)) \<le> MAX_PREOPEN"
proof -
  have ready: "length (w_preOpen (fold (handleDataPortMessage tr) items t)) \<le> MAX_PREOPEN"
    if "length (w_preOpen t) \<le> MAX_PREOPEN" for tr items t
    by (rule fold_invariant [where P = "\<lambda>s. length (w_preOpen s) \<le> MAX_PREOPEN"])
      (use that handle_queue_bound in auto)
  have settled: "w_preOpen (settlement_reply r p t) = w_preOpen t" for r p t
    by (cases p; cases r) (simp_all add: settlement_reply_def resolve_entry_def reject_entry_def replyData_def)
  have "w_preOpen (worker_onBinary batch s) = w_preOpen s" for batch
    by (auto simp: worker_onBinary_def pushInputBatch_def worker_controlResponse_def settled Let_def
        split: prod.split option.split)
  then show ?thesis
    using assms
    by (cases e) (auto simp: dataPortMessage_def worker_onReady_def worker_onClosed_def worker_onAuthFailed_def
        pendingTimeout_def reject_entry_def replyData_def reject_queue_eq Let_def
        intro!: handle_queue_bound ready split: option.split)
qed

section \<open>Properties\<close>

text \<open>C24: every request of the page is answered once.  In any run of the worker, whatever the
  transport, the timers and the page do, each message that arrived is queued, pending or answered
  and only one of these, is answered at most once, its answer never changes, and the queue never
  holds more than its bound.\<close>

theorem worker_answers_once:
  "distinct (w_issued (fold worker_step es initial_worker))
   \<and> set (w_issued (fold worker_step es initial_worker)) =
       set (worker_waiting (fold worker_step es initial_worker))
       \<union> fst ` set (w_settled (fold worker_step es initial_worker))
   \<and> set (worker_waiting (fold worker_step es initial_worker))
       \<inter> fst ` set (w_settled (fold worker_step es initial_worker)) = {}
   \<and> distinct (map fst (w_settled (fold worker_step es initial_worker)))
   \<and> prefix (w_settled (fold worker_step es initial_worker))
       (w_settled (fold worker_step es' (fold worker_step es initial_worker)))
   \<and> length (w_preOpen (fold worker_step es initial_worker)) \<le> MAX_PREOPEN"
proof -
  have wf: "worker_wf [] (fold worker_step es initial_worker)"
    by (rule worker_requests.inv_run [OF worker_wf_initial])
  have "length (w_preOpen (fold worker_step es initial_worker)) \<le> MAX_PREOPEN"
    by (rule fold_invariant [where P = "\<lambda>s. length (w_preOpen s) \<le> MAX_PREOPEN"])
      (auto simp: initial_worker_def intro: worker_queue_bound)
  then show ?thesis
    using wf by (simp add: worker_requests.issued_distinct worker_requests.issued_waiting_or_settled
        worker_requests.waiting_not_settled worker_requests.settled_once worker_requests.settled_run)
qed

text \<open>The loss of the transport answers everything.  When the transport closes, every pending
  and every queued message of the page is answered with an error, under the request id the page
  gave it and in order, nothing waits any more, and the owner hears of it unless the transport
  reconnects.\<close>

theorem worker_close_answers_all:
  "(let s' = worker_step (TransportClosed willReconnect) s
    in worker_waiting s' = []
       \<and> w_settled s' = w_settled s
           @ map (\<lambda>e. (we_message (snd e), Reply (error_reply (entry_reply_type (snd e))
                (we_reqId (snd e)) ''ws closed''))) (w_pending s)
           @ map (\<lambda>item. (fst item, Reply (error_reply (queue_reply_type (dm_type (snd item)))
                (dm_reqId (snd item)) ''ws closed''))) (w_preOpen s)
       \<and> w_control s' = w_control s
           @ (if willReconnect = Some True then [] else if w_hasControlPort s then [Closed] else []))"
  by (simp add: worker_waiting_def worker_onClosed_def reject_entries_eq reject_queue_eq post_control_def Let_def)

text \<open>What the page asked for comes back to it.  A feature read goes out as a frame that the
  daemon reads as that request, under a fresh id; the daemon's answer to the id delivers the
  device's bytes to exactly the message that asked, under the page's own request id; an answer to
  any other id leaves the message waiting.\<close>

theorem worker_feature_read:
  assumes "worker_wf [] s" and "w_transport s" and "tr_isOpen tr" and "\<And>frame. tr_send tr frame"
    and "dm_type msg = ReceiveFeature" and "dm_reportId msg < 256"
    and "w_nextReqId s < 2 ^ 32" and "reqId < 2 ^ 32" and "0 < length d" and "length d \<le> 65535"
    and "s1 = worker_step (PageMessage tr msg) s"
    and "s2 = worker_step (TransportBinary (make_feature_read_resp reqId 0 d)) s1"
  shows "(\<exists>frame. w_frames s1 = w_frames s @ [frame] \<and> parse_client_frame frame =
        Some (MSG_RECEIVE_FEATURE_REPORT, w_nextReqId s, dm_reportId msg, []))
    \<and> (if reqId = w_nextReqId s
       then w_settled s2 = w_settled s @ [(w_received s,
          Reply \<lparr>rp_type = FeatureResult, rp_reqId = dm_reqId msg, rp_error = None, rp_data = Some d\<rparr>)]
       else w_received s \<in> set (worker_waiting s2))"
proof -
  let ?n = "w_nextReqId s"
  let ?en = "\<lparr>we_message = w_received s, we_reqId = dm_reqId msg, we_feature = True, we_reads = True\<rparr>"
  have table: "table_wf (w_pending s) (w_timers s) ?n" using assms(1) by (simp add: worker_wf_def)
  note pending_new = table_wf_insert(1) [OF table, of ?en]
  have s1: "w_frames s1 = w_frames s @ [buildSendFrame MSG_RECEIVE_FEATURE_REPORT ?n (dm_reportId msg) None]"
    "w_pending s1 = map_set (w_pending s) ?n ?en" "w_settled s1 = w_settled s" "w_preOpen s1 = w_preOpen s"
    using assms(2-5) unfolding assms(11)
    by (simp_all add: dataPortMessage_def handleDataPortMessage_def handleReceiveFeature_def
        send_registered_def registerPending_def Let_def)
  have sent: "parse_client_frame (buildSendFrame MSG_RECEIVE_FEATURE_REPORT ?n (dm_reportId msg) None) =
      Some (MSG_RECEIVE_FEATURE_REPORT, ?n, dm_reportId msg, [])"
    using parse_send_frame [OF _ assms(7,6), of MSG_RECEIVE_FEATURE_REPORT None] by (simp add: msg_codes)
  note parts = feature_resp_parts [OF assms(8) _ assms(10), of 0, simplified]
  have binary: "s2 = worker_controlResponse (make_feature_read_resp reqId 0 d) s1"
    unfolding assms(12) using parts(1,2) by (simp add: worker_onBinary_def msg_codes)
  have response: "handleControlResponse (make_feature_read_resp reqId 0 d) pending =
      (case map_get pending reqId of None \<Rightarrow> (pending, None)
       | Some en \<Rightarrow> (map_delete pending reqId, Some (en, Resolved (Some d))))"
    for pending :: "(nat, worker_entry) js_map"
    using parts assms(9) by (cases "map_get pending reqId") (simp_all add: handleControlResponse_def Let_def)
  show ?thesis
  proof (cases "reqId = ?n")
    case True
    then show ?thesis
      using s1 sent unfolding binary worker_controlResponse_def response
      by (simp add: settlement_reply_def resolve_entry_def replyData_def entry_reply_type_def map_get_set)
  next
    case False
    have "(?n, ?en) \<in> set (w_pending s2)"
      using False unfolding binary worker_controlResponse_def response s1(2) pending_new
      by (auto simp: settlement_reply_def resolve_entry_def replyData_def AList.delete_eq s1 pending_new split: option.split)
    then have "w_received s \<in> set (worker_waiting s2)"
      by (force simp: worker_waiting_def)
    with False s1(1) sent show ?thesis by simp
  qed
qed

definition open_transport :: transport_view where
  "open_transport = \<lparr>tr_isOpen = True, tr_send = \<lambda>_. True\<rparr>"

theorem worker_feature_read_witness:
  "w_settled (worker_step (TransportBinary (make_feature_read_resp 1 0 [9]))
     (worker_step (PageMessage open_transport
        \<lparr>dm_type = ReceiveFeature, dm_reqId = 40, dm_reportId = 5, dm_data = None\<rparr>)
        (initial_worker\<lparr>w_transport := True\<rparr>)))
   = [(0, Reply \<lparr>rp_type = FeatureResult, rp_reqId = 40, rp_error = None, rp_data = Some [9]\<rparr>)]"
proof -
  have "worker_wf [] (initial_worker\<lparr>w_transport := True\<rparr>)"
    by (simp add: worker_wf_def initial_worker_def table_wf_def)
  from worker_feature_read [OF this, of open_transport
      "\<lparr>dm_type = ReceiveFeature, dm_reqId = 40, dm_reportId = 5, dm_data = None\<rparr>" 1 "[9]", OF _ _ _ _ _ _ _ _ _ refl refl]
  show ?thesis by (simp add: open_transport_def initial_worker_def)
qed

text \<open>A report the daemon blocks reaches the page as a plain error text, not as the \<open>blocked\<close> mark
  the page looks for.\<close>

lemma blocked_loses_mark:
  assumes "map_get (w_pending s) reqId = Some en" and "reqId < 2 ^ 32"
  shows "w_settled (worker_step (TransportBinary (make_status_resp 129 reqId 2)) s) =
    w_settled s @ [(we_message en,
      Reply (error_reply (entry_reply_type en) (we_reqId en) ''[object Object]''))]"
  using assms status_resp_parts [of reqId 129 2]
  by (simp add: worker_onBinary_def worker_controlResponse_def handleControlResponse_def
      settlement_reply_def reject_entry_def replyData_def msg_codes Let_def)

end
