(* ===== verification/Permissions_Policy.thy ===== *)
theory Permissions_Policy
  imports Js_String Js_Store
begin

text \<open>
  Who may use \<open>hid\<close>: the \<open>Permissions-Policy\<close> headers of a document
  (\<open>addon/js/background/webrequest.js\<close>: \<open>parseHidPolicy\<close> to \<open>clearPolicyTab\<close>) and the
  answer to a document that asks (\<open>messages.js\<close>: \<open>policyEntryForDocument\<close>,
  \<open>policyForRequest\<close>, \<open>handleSetFrameDelegation\<close>).

  The URL parser of the browser is the parameter \<open>origin_of\<close>: the value of
  \<open>new URL(u).origin\<close>, or \<open>None\<close> where the constructor throws.  Absent ids and documents are
  \<open>None\<close> and the empty string.
\<close>

section \<open>Allowlists\<close>

datatype allowlist = AllowAll | AllowNone | AllowList "string list"

definition strip_quote :: "string \<Rightarrow> string" where
  "strip_quote t = (case t of [] \<Rightarrow> [] | c # s \<Rightarrow> if c \<in> {CHR 0x22, CHR 0x27} then s else t)"

text \<open>\<open>raw.replace(/^['"]|['"]$/g, '')\<close>.\<close>

definition strip_quotes :: "string \<Rightarrow> string" where
  "strip_quotes t = rev (strip_quote (rev (strip_quote t)))"

text \<open>The token loop: \<open>(origins, sawStar, sawSelf)\<close>.\<close>

definition policy_token ::
    "(string \<Rightarrow> string option) \<Rightarrow> string \<Rightarrow> string list \<times> bool \<times> bool \<Rightarrow> string list \<times> bool \<times> bool"
where
  "policy_token origin_of raw = (\<lambda>(origins, sawStar, sawSelf).
     let token = strip_quotes raw
     in if token = ''*'' then (origins, True, sawSelf)
        else if token = ''self'' then (origins, sawStar, True)
        else case origin_of token of
               None \<Rightarrow> (origins, sawStar, sawSelf)
             | Some origin \<Rightarrow>
                 (if origin \<noteq> ''null'' \<and> origin \<notin> set origins then origins @ [origin] else origins,
                  sawStar, sawSelf))"

definition parseHidPolicy :: "(string \<Rightarrow> string option) \<Rightarrow> string \<Rightarrow> allowlist" where
  "parseHidPolicy origin_of val =
     (let v = trim val
      in if v = ''*'' then AllowAll
         else if v = ''self'' then AllowList [''self'']
         else if \<not> prefix ''('' v \<or> \<not> suffix '')'' v then AllowNone
         else
           let inner = trim (butlast (tl v))
           in if inner = [] then AllowNone
              else
                let (origins, sawStar, sawSelf) =
                      fold (policy_token origin_of) (split_ws inner) ([], False, False);
                    origins' = (if sawSelf then origins @ [''self''] else origins)
                in if sawStar then AllowAll
                   else if origins' = [] then AllowNone
                   else AllowList origins')"

definition intersectAllowlists :: "allowlist \<Rightarrow> allowlist \<Rightarrow> allowlist" where
  "intersectAllowlists a b =
     (if a = AllowNone \<or> b = AllowNone then AllowNone
      else if a = AllowAll then b
      else case (a, b) of
             (AllowList xs, AllowList ys) \<Rightarrow>
               let origins = filter (\<lambda>x. x \<in> set ys) xs
               in if origins = [] then AllowNone else AllowList origins
           | _ \<Rightarrow> a)"

definition listAllows :: "allowlist \<Rightarrow> string \<Rightarrow> bool" where
  "listAllows lst origin =
     (case lst of AllowAll \<Rightarrow> True | AllowNone \<Rightarrow> False | AllowList origins \<Rightarrow> origin \<in> set origins)"

section \<open>The store\<close>

definition documentFrameKey :: "nat \<Rightarrow> nat \<Rightarrow> string \<Rightarrow> string" where
  "documentFrameKey tabId frameId documentId =
     show_nat tabId @ '':'' @ show_nat frameId @ '':'' @ documentId"

record policy_entry =
  pe_tabId :: nat
  pe_frameId :: nat
  pe_documentId :: string
  pe_origin :: string
  pe_url :: string
  pe_parentFrameId :: "nat option"  \<comment> \<open>\<open>None\<close> is -1\<close>
  pe_parentDocumentId :: string
  pe_parentKey :: "string option"
  pe_self :: allowlist
  pe_effective :: allowlist

record policy_state =
  permissionsPolicy :: "(string, policy_entry) js_map"
  frameDelegations :: "(string, bool) js_map"

record header_details =
  hd_tabId :: nat
  hd_frameId :: nat
  hd_documentId :: string
  hd_parentFrameId :: "nat option"
  hd_parentDocumentId :: string
  hd_url :: string
  hd_headers :: "(string \<times> string) list"

definition urlOrigin :: "(string \<Rightarrow> string option) \<Rightarrow> string \<Rightarrow> string" where
  "urlOrigin origin_of url = (case origin_of url of Some origin \<Rightarrow> origin | None \<Rightarrow> [])"

definition policy_declarations :: "(string \<Rightarrow> string option) \<Rightarrow> (string \<times> string) list \<Rightarrow> allowlist list"
where
  "policy_declarations origin_of headers =
     concat (map (\<lambda>ph. concat (map (\<lambda>raw.
         case index_of CHR ''='' raw of
           None \<Rightarrow> []
         | Some eq \<Rightarrow>
             if toLowerCase (trim (take eq raw)) = ''hid''
             then [parseHidPolicy origin_of (drop (eq + 1) raw)] else [])
       (split_on CHR '','' ph)))
     [v. (name, v) \<leftarrow> headers, toLowerCase name = ''permissions-policy''])"

text \<open>\<open>declarations.reduce(intersectAllowlists)\<close>, then \<open>self\<close> is resolved.\<close>

definition resolve_self :: "string \<Rightarrow> allowlist \<Rightarrow> allowlist" where
  "resolve_self origin a =
     (case a of
        AllowList origins \<Rightarrow> AllowList (map (\<lambda>x. if x = ''self'' then origin else x) origins)
      | _ \<Rightarrow> a)"

definition declared_policy :: "string \<Rightarrow> allowlist list \<Rightarrow> allowlist" where
  "declared_policy origin declarations =
     (case declarations of
        [] \<Rightarrow> AllowAll
      | d # ds \<Rightarrow> resolve_self origin (fold (\<lambda>b a. intersectAllowlists a b) ds d))"

text \<open>An entry stored before its document id was known is moved to its exact key.\<close>

definition adopt_pending ::
    "string \<Rightarrow> string \<Rightarrow> string \<Rightarrow> policy_state \<Rightarrow> policy_entry option \<times> policy_state" where
  "adopt_pending pendingKey exactKey documentId s =
     (case map_get (permissionsPolicy s) pendingKey of
        None \<Rightarrow> (None, s)
      | Some entry \<Rightarrow>
          let entry' = entry\<lparr>pe_documentId := documentId\<rparr>
          in (Some entry',
              s\<lparr>permissionsPolicy :=
                 map_set (map_delete (permissionsPolicy s) pendingKey) exactKey entry'\<rparr>))"

text \<open>The parent document's entry, adopted from its pending key when the exact one is missing.\<close>

definition parent_entry ::
    "header_details \<Rightarrow> string option \<Rightarrow> policy_state \<Rightarrow> policy_entry option \<times> policy_state" where
  "parent_entry d parentKey s =
     (case parentKey of
        None \<Rightarrow> (None, s)
      | Some pk \<Rightarrow>
          (case map_get (permissionsPolicy s) pk of
             Some p \<Rightarrow> (Some p, s)
           | None \<Rightarrow>
               adopt_pending (documentFrameKey (hd_tabId d) (the (hd_parentFrameId d)) []) pk
                 (hd_parentDocumentId d) s))"

definition storePermissionsPolicy ::
    "(string \<Rightarrow> string option) \<Rightarrow> header_details \<Rightarrow> policy_state \<Rightarrow> policy_state" where
  "storePermissionsPolicy origin_of d s =
     (let origin = urlOrigin origin_of (hd_url d);
          parentKey = (case hd_parentFrameId d of
                         None \<Rightarrow> None
                       | Some pf \<Rightarrow>
                           if hd_parentDocumentId d = [] then None
                           else Some (documentFrameKey (hd_tabId d) pf (hd_parentDocumentId d)));
          self = declared_policy origin (policy_declarations origin_of (hd_headers d));
          (effective, s') =
            (if self = AllowNone then (self, s)
             else
               let (parent, s') = parent_entry d parentKey s;
                   parentEffective = (case parent of Some p \<Rightarrow> pe_effective p | None \<Rightarrow> AllowAll)
               in (if listAllows parentEffective origin then self else AllowNone, s'));
          key = documentFrameKey (hd_tabId d) (hd_frameId d) (hd_documentId d)
      in s'\<lparr>permissionsPolicy := map_set (permissionsPolicy s') key
             \<lparr>pe_tabId = hd_tabId d, pe_frameId = hd_frameId d, pe_documentId = hd_documentId d,
              pe_origin = origin, pe_url = hd_url d, pe_parentFrameId = hd_parentFrameId d,
              pe_parentDocumentId = hd_parentDocumentId d, pe_parentKey = parentKey,
              pe_self = self, pe_effective = effective\<rparr>\<rparr>)"

definition clear_prefix :: "string \<Rightarrow> policy_state \<Rightarrow> policy_state" where
  "clear_prefix pre s =
     s\<lparr>permissionsPolicy := filter (\<lambda>(key, _). \<not> prefix pre key) (permissionsPolicy s),
       frameDelegations := filter (\<lambda>(key, _). \<not> prefix pre key) (frameDelegations s)\<rparr>"

definition clearPolicyFrame :: "nat \<Rightarrow> nat \<Rightarrow> policy_state \<Rightarrow> policy_state" where
  "clearPolicyFrame tabId frameId s =
     clear_prefix (show_nat tabId @ '':'' @ show_nat frameId @ '':'') s"

definition clearPolicyTab :: "nat \<Rightarrow> policy_state \<Rightarrow> policy_state" where
  "clearPolicyTab tabId s = clear_prefix (show_nat tabId @ '':'') s"

section \<open>Requests\<close>

record frame_sender =
  sender_tabId :: "nat option"
  sender_frameId :: "nat option"
  sender_documentId :: string
  sender_url :: "string option"

record frame_request =
  freq_frameId :: "nat option"  \<comment> \<open>a non-negative integer, or absent\<close>
  freq_documentId :: string
  freq_origin :: string

definition requested_frame :: "frame_request \<Rightarrow> frame_sender \<Rightarrow> nat option" where
  "requested_frame r sender =
     (case freq_frameId r of Some f \<Rightarrow> Some f | None \<Rightarrow> sender_frameId sender)"

definition requested_document :: "frame_request \<Rightarrow> frame_sender \<Rightarrow> string" where
  "requested_document r sender =
     (if freq_documentId r \<noteq> [] then freq_documentId r
      else if requested_frame r sender = sender_frameId sender then sender_documentId sender else [])"

definition policyEntryForDocument ::
    "nat \<Rightarrow> nat \<Rightarrow> string \<Rightarrow> string \<Rightarrow> policy_state \<Rightarrow> policy_entry option \<times> policy_state" where
  "policyEntryForDocument tabId frameId documentId origin s =
     (let exactKey = documentFrameKey tabId frameId documentId;
          (entry, s') =
            (case map_get (permissionsPolicy s) exactKey of
               Some e \<Rightarrow> (Some e, s)
             | None \<Rightarrow>
                 let pendingKey = documentFrameKey tabId frameId []
                 in case map_get (permissionsPolicy s) pendingKey of
                      None \<Rightarrow> (None, s)
                    | Some e \<Rightarrow> if pe_origin e = origin
                                then adopt_pending pendingKey exactKey documentId s
                                else (Some e, s))
      in (case entry of
            Some e \<Rightarrow> if pe_origin e = origin then Some e else None
          | None \<Rightarrow> None, s'))"

text \<open>\<open>True\<close> is \<open>{policy: {hid: 'allowed'}}\<close>, \<open>False\<close> is \<open>'none'\<close>.\<close>

definition policyForRequest ::
    "(string \<Rightarrow> string option) \<Rightarrow> frame_request \<Rightarrow> frame_sender \<Rightarrow> policy_state \<Rightarrow> bool \<times> policy_state"
where
  "policyForRequest origin_of r sender s =
     (let documentId = requested_document r sender;
          origin = urlOrigin origin_of (freq_origin r)
      in case (sender_tabId sender, requested_frame r sender) of
           (Some tabId, Some frameId) \<Rightarrow>
             if documentId = [] \<or> origin = [] then (False, s)
             else
               let exactKey = documentFrameKey tabId frameId documentId;
                   (found, s') = policyEntryForDocument tabId frameId documentId origin s
               in (case found of
                     None \<Rightarrow> False
                   | Some entry \<Rightarrow>
                       pe_effective entry \<noteq> AllowNone
                       \<and> (case pe_parentFrameId entry of
                            None \<Rightarrow> True
                          | Some _ \<Rightarrow>
                              (case pe_parentKey entry of
                                 None \<Rightarrow> False
                               | Some pk \<Rightarrow>
                                   (case map_get (permissionsPolicy s') pk of
                                      None \<Rightarrow> False
                                    | Some parent \<Rightarrow>
                                        pe_origin parent \<noteq> []
                                        \<and> (pe_origin parent = pe_origin entry
                                           \<or> map_get (frameDelegations s') exactKey = Some True))))
                       \<and> listAllows (pe_effective entry) (pe_origin entry),
                   s')
         | _ \<Rightarrow> (False, s))"

definition handleSetFrameDelegation ::
    "(string \<Rightarrow> string option) \<Rightarrow> frame_request \<Rightarrow> bool \<Rightarrow> bool \<Rightarrow> frame_sender \<Rightarrow> policy_state
       \<Rightarrow> bool \<times> policy_state"
where
  "handleSetFrameDelegation origin_of r has_bridge delegated sender s =
     (let documentId = requested_document r sender;
          origin = urlOrigin origin_of (freq_origin r)
      in case (sender_tabId sender, requested_frame r sender) of
           (Some tabId, Some frameId) \<Rightarrow>
             if \<not> has_bridge \<or> documentId = [] \<or> origin = [] then (False, s)
             else
               let (found, s') = policyEntryForDocument tabId frameId documentId origin s
               in (case found of
                     None \<Rightarrow> (False, s')
                   | Some entry \<Rightarrow>
                       (True, s'\<lparr>frameDelegations :=
                          map_set (frameDelegations s') (documentFrameKey tabId frameId documentId)
                            delegated\<rparr>))
         | _ \<Rightarrow> (False, s))"

text \<open>What \<open>handleFrameDestroyed\<close> forgets of a document.\<close>

definition forgetDocument :: "frame_request \<Rightarrow> frame_sender \<Rightarrow> policy_state \<Rightarrow> policy_state" where
  "forgetDocument r sender s =
     (case (sender_tabId sender, requested_frame r sender) of
        (Some tabId, Some frameId) \<Rightarrow>
          if requested_document r sender = [] then s
          else
            let key = documentFrameKey tabId frameId (requested_document r sender)
            in s\<lparr>frameDelegations := map_delete (frameDelegations s) key,
                 permissionsPolicy := map_delete (permissionsPolicy s) key\<rparr>
      | _ \<Rightarrow> s)"

section \<open>Allowlists as a preorder\<close>

text \<open>A list allows less than another; the intersection is the greatest lower bound.\<close>

instantiation allowlist :: preorder
begin

definition less_eq_allowlist :: "allowlist \<Rightarrow> allowlist \<Rightarrow> bool" where
  "less_eq_allowlist a b =
     (case (a, b) of
        (_, AllowAll) \<Rightarrow> True
      | (AllowNone, _) \<Rightarrow> True
      | (AllowList xs, AllowList ys) \<Rightarrow> set xs \<subseteq> set ys
      | (AllowList xs, AllowNone) \<Rightarrow> xs = []
      | (AllowAll, _) \<Rightarrow> False)"

definition less_allowlist :: "allowlist \<Rightarrow> allowlist \<Rightarrow> bool" where
  "less_allowlist a b \<longleftrightarrow> a \<le> b \<and> \<not> b \<le> (a :: allowlist)"

instance
proof
  fix a b c :: allowlist
  show "a < b \<longleftrightarrow> a \<le> b \<and> \<not> b \<le> a" by (simp add: less_allowlist_def)
  show "a \<le> a" by (cases a) (simp_all add: less_eq_allowlist_def)
  show "a \<le> b \<Longrightarrow> b \<le> c \<Longrightarrow> a \<le> c"
    by (auto simp: less_eq_allowlist_def split: allowlist.splits)
qed

end

lemma le_allows: "a \<le> b \<Longrightarrow> listAllows a origin \<Longrightarrow> listAllows b origin"
  by (auto simp: less_eq_allowlist_def listAllows_def split: allowlist.splits)

lemma intersect_allows:
  "listAllows (intersectAllowlists a b) origin \<longleftrightarrow> listAllows a origin \<and> listAllows b origin"
  by (auto simp: intersectAllowlists_def listAllows_def Let_def filter_empty_conv
      split: allowlist.splits)

lemma intersect_lower: "intersectAllowlists a b \<le> a" "intersectAllowlists a b \<le> b"
  by (auto simp: intersectAllowlists_def less_eq_allowlist_def Let_def split: allowlist.splits)

lemma intersect_greatest:
  "c \<le> a \<Longrightarrow> c \<le> b \<Longrightarrow> c \<le> intersectAllowlists a b"
  by (cases a; cases b; cases c;
      auto simp: intersectAllowlists_def less_eq_allowlist_def Let_def filter_empty_conv)
    (metis in_mono list.set_intros(1) neq_Nil_conv)

lemma fold_intersect_allows:
  "listAllows (fold (\<lambda>b a. intersectAllowlists a b) ds d) origin \<longleftrightarrow>
     (\<forall>x \<in> set (d # ds). listAllows x origin)"
  by (induction ds arbitrary: d) (auto simp: intersect_allows)

section \<open>Keys\<close>

lemma documentFrameKey_inj:
  "documentFrameKey t f d = documentFrameKey t' f' d' \<longleftrightarrow> t = t' \<and> f = f' \<and> d = d'"
  by (auto simp: documentFrameKey_def append_sep_inj dest: show_nat_inj)

lemma frame_prefix_key:
  "prefix (show_nat t @ '':'' @ show_nat f @ '':'') (documentFrameKey t' f' d) \<longleftrightarrow> t = t' \<and> f = f'"
  by (auto simp: documentFrameKey_def prefix_append_sep dest: show_nat_inj)

lemma tab_prefix_key: "prefix (show_nat t @ '':'') (documentFrameKey t' f' d) \<longleftrightarrow> t = t'"
  using prefix_append_sep [of "CHR '':''" "show_nat t" "show_nat t'" "[]"]
  by (auto simp: documentFrameKey_def dest: show_nat_inj)

section \<open>Reachable stores\<close>

datatype policy_event =
    HeadersReceived header_details
  | PolicyAsked frame_request frame_sender
  | DelegationSet frame_request bool bool frame_sender
  | FrameNavigates nat nat
  | TabNavigates nat
  | DocumentDestroyed frame_request frame_sender

fun policy_step :: "(string \<Rightarrow> string option) \<Rightarrow> policy_event \<Rightarrow> policy_state \<Rightarrow> policy_state" where
  "policy_step origin_of (HeadersReceived d) s = storePermissionsPolicy origin_of d s"
| "policy_step origin_of (PolicyAsked r sender) s = snd (policyForRequest origin_of r sender s)"
| "policy_step origin_of (DelegationSet r bridge delegated sender) s =
     snd (handleSetFrameDelegation origin_of r bridge delegated sender s)"
| "policy_step origin_of (FrameNavigates tab frame) s = clearPolicyFrame tab frame s"
| "policy_step origin_of (TabNavigates tab) s = clearPolicyTab tab s"
| "policy_step origin_of (DocumentDestroyed r sender) s = forgetDocument r sender s"

definition initial_policy_state :: policy_state where
  "initial_policy_state = \<lparr>permissionsPolicy = [], frameDelegations = []\<rparr>"

inductive policy_reachable :: "(string \<Rightarrow> string option) \<Rightarrow> policy_state \<Rightarrow> bool" for origin_of where
  start: "policy_reachable origin_of initial_policy_state"
| step: "policy_reachable origin_of s \<Longrightarrow> policy_reachable origin_of (policy_step origin_of e s)"

definition policy_wf :: "policy_state \<Rightarrow> bool" where
  "policy_wf s \<longleftrightarrow> map_wf (permissionsPolicy s) \<and> map_wf (frameDelegations s)
     \<and> (\<forall>key e. map_get (permissionsPolicy s) key = Some e \<longrightarrow> pe_effective e \<le> pe_self e)"

lemma AllowNone_least: "AllowNone \<le> (a :: allowlist)"
  by (cases a) (simp_all add: less_eq_allowlist_def)

lemma adopt_pending_wf:
  "policy_wf s \<Longrightarrow> policy_wf (snd (adopt_pending pk ek doc s))"
  by (auto simp: policy_wf_def adopt_pending_def Let_def js_map_simps intro!: js_wf_intros
      split: option.split if_splits)

lemma adopt_pending_delegations [simp]:
  "frameDelegations (snd (adopt_pending pk ek doc s)) = frameDelegations s"
  by (simp add: adopt_pending_def Let_def split: option.split)

lemma policy_wf_put:
  "policy_wf s \<Longrightarrow> pe_effective e \<le> pe_self e \<Longrightarrow>
   policy_wf (s\<lparr>permissionsPolicy := map_set (permissionsPolicy s) key e\<rparr>)"
  by (auto simp: policy_wf_def js_map_simps intro: js_wf_intros split: if_splits)

lemma storePermissionsPolicy_wf:
  assumes "policy_wf s"
  shows "policy_wf (storePermissionsPolicy origin_of d s)"
proof -
  have "policy_wf (snd (parent_entry d pk s))" for pk
    using assms by (simp add: parent_entry_def adopt_pending_wf split: option.split)
  then have "policy_wf s'" if "parent_entry d pk s = (p, s')" for pk p s'
    using that by (metis snd_conv)
  with assms show ?thesis
    unfolding storePermissionsPolicy_def Let_def
    by (auto intro!: policy_wf_put simp: AllowNone_least split: prod.splits)
qed

lemma policyEntryForDocument_wf:
  "policy_wf s \<Longrightarrow> policy_wf (snd (policyEntryForDocument tab frame doc origin s))"
  using adopt_pending_wf [of s "documentFrameKey tab frame []" "documentFrameKey tab frame doc" doc]
  by (auto simp: policyEntryForDocument_def Let_def split: option.splits prod.splits)

lemma policyForRequest_state:
  "snd (policyForRequest origin_of r sender s) = s
   \<or> (\<exists>tab frame. snd (policyForRequest origin_of r sender s) =
       snd (policyEntryForDocument tab frame (requested_document r sender)
              (urlOrigin origin_of (freq_origin r)) s))"
proof (cases "\<exists>tab frame. sender_tabId sender = Some tab \<and> requested_frame r sender = Some frame
    \<and> requested_document r sender \<noteq> [] \<and> urlOrigin origin_of (freq_origin r) \<noteq> []")
  case True
  then obtain tab frame where "sender_tabId sender = Some tab" "requested_frame r sender = Some frame"
    "requested_document r sender \<noteq> []" "urlOrigin origin_of (freq_origin r) \<noteq> []" by blast
  then have "snd (policyForRequest origin_of r sender s) = snd (policyEntryForDocument tab frame
      (requested_document r sender) (urlOrigin origin_of (freq_origin r)) s)"
    by (simp add: policyForRequest_def Let_def split_beta)
  then show ?thesis by blast
next
  case False
  then show ?thesis by (auto simp: policyForRequest_def Let_def split_beta split: option.split)
qed

lemma clear_prefix_wf: "policy_wf s \<Longrightarrow> policy_wf (clear_prefix pre s)"
  by (auto simp: policy_wf_def clear_prefix_def map_get_filter intro: js_wf_intros
      split: option.splits if_splits)

lemma policy_step_wf: "policy_wf s \<Longrightarrow> policy_wf (policy_step origin_of e s)"
proof (cases e)
  case (PolicyAsked r sender)
  assume "policy_wf s"
  with PolicyAsked policyForRequest_state [of origin_of r sender s] show ?thesis
    by (auto simp: policyEntryForDocument_wf)
next
  case (DelegationSet r bridge delegated sender)
  assume wf: "policy_wf s"
  have "policy_wf (s'\<lparr>frameDelegations := map_set (frameDelegations s') k b\<rparr>)" if "policy_wf s'" for s' k b
    using that by (auto simp: policy_wf_def intro: js_wf_intros)
  with DelegationSet wf show ?thesis
    using policyEntryForDocument_wf [OF wf]
    by (auto simp: handleSetFrameDelegation_def Let_def split: option.splits prod.splits)
      (metis snd_conv)+
next
  case (DocumentDestroyed r sender)
  assume "policy_wf s"
  with DocumentDestroyed show ?thesis
    by (auto simp: forgetDocument_def Let_def policy_wf_def js_map_simps intro: js_wf_intros
        split: option.splits if_splits)
qed (simp_all add: storePermissionsPolicy_wf clearPolicyFrame_def clearPolicyTab_def clear_prefix_wf)

lemma policy_reachable_wf: "policy_reachable origin_of s \<Longrightarrow> policy_wf s"
proof (induction rule: policy_reachable.induct)
  case start
  then show ?case by (simp add: policy_wf_def initial_policy_state_def)
qed (rule policy_step_wf)

section \<open>What the decision is\<close>

lemma resolve_self_allows:
  "listAllows (resolve_self origin a) origin \<longleftrightarrow> listAllows a origin \<or> listAllows a ''self''"
  by (auto simp: resolve_self_def listAllows_def split: allowlist.splits)

lemma declared_policy_allows:
  "listAllows (declared_policy origin ds) origin \<longleftrightarrow>
     (\<forall>d \<in> set ds. listAllows d origin) \<or> (\<forall>d \<in> set ds. listAllows d ''self'')"
proof (cases ds)
  case Nil
  then show ?thesis by (simp add: declared_policy_def listAllows_def)
next
  case (Cons d ds')
  then show ?thesis
    using fold_intersect_allows [of ds' d] by (simp add: declared_policy_def resolve_self_allows)
qed

lemma not_allows_None [simp]: "\<not> listAllows AllowNone origin"
  by (simp add: listAllows_def)

lemma parent_entry_present:
  "map_get (permissionsPolicy s) pk = Some p \<Longrightarrow> parent_entry d (Some pk) s = (Some p, s)"
  by (simp add: parent_entry_def)

lemma policyEntryForDocument_present:
  "map_get (permissionsPolicy s) (documentFrameKey tab frame doc) = Some e \<Longrightarrow>
   policyEntryForDocument tab frame doc origin s = (if pe_origin e = origin then Some e else None, s)"
  by (simp add: policyEntryForDocument_def Let_def)

section \<open>Properties\<close>

text \<open>Combining declarations is intersection: a list obtained from two allows an origin exactly
  when both do, it is the greatest list below both, and so a header can only take access away.\<close>

theorem allowlist_intersection:
  "(listAllows (intersectAllowlists a b) origin \<longleftrightarrow> listAllows a origin \<and> listAllows b origin)
   \<and> intersectAllowlists a b \<le> a \<and> intersectAllowlists a b \<le> b
   \<and> (c \<le> intersectAllowlists a b \<longleftrightarrow> c \<le> a \<and> c \<le> b)"
  using intersect_lower [of a b] intersect_greatest [of c a b]
  by (auto simp: intersect_allows intro: order_trans)

text \<open>C8: the answer to a document is the one its headers, its parent and its parent's delegation
  give: after the headers of a document arrived, it may use HID exactly when every declaration
  allows its origin (or every one says self) and, in a frame, when the parent's policy allows the
  origin and the parent either has that origin or delegated to this very document.\<close>

theorem policy_decision:
  assumes "hd_documentId d \<noteq> []" and "urlOrigin origin_of (hd_url d) = origin" and "origin \<noteq> []"
    and "sender_tabId sender = Some (hd_tabId d)"
    and "requested_frame r sender = Some (hd_frameId d)"
    and "requested_document r sender = hd_documentId d"
    and "urlOrigin origin_of (freq_origin r) = origin"
    and "hd_parentFrameId d = Some pf \<Longrightarrow> hd_parentDocumentId d \<noteq> [] \<and> pf \<noteq> hd_frameId d
      \<and> pe_origin p \<noteq> [] \<and> map_get (permissionsPolicy s)
           (documentFrameKey (hd_tabId d) pf (hd_parentDocumentId d)) = Some p"
    and "hd_parentFrameId d = None \<or> hd_parentFrameId d = Some pf"
  shows "fst (policyForRequest origin_of r sender (storePermissionsPolicy origin_of d s)) \<longleftrightarrow>
     ((\<forall>x \<in> set (policy_declarations origin_of (hd_headers d)). listAllows x origin)
      \<or> (\<forall>x \<in> set (policy_declarations origin_of (hd_headers d)). listAllows x ''self''))
     \<and> (hd_parentFrameId d = Some pf \<longrightarrow>
          listAllows (pe_effective p) origin
          \<and> (pe_origin p = origin
             \<or> map_get (frameDelegations s)
                 (documentFrameKey (hd_tabId d) (hd_frameId d) (hd_documentId d)) = Some True))"
proof -
  let ?ds = "policy_declarations origin_of (hd_headers d)"
  let ?key = "documentFrameKey (hd_tabId d) (hd_frameId d) (hd_documentId d)"
  let ?s' = "storePermissionsPolicy origin_of d s"
  let ?pk = "documentFrameKey (hd_tabId d) pf (hd_parentDocumentId d)"
  note decl = declared_policy_allows [of origin ?ds]
  show ?thesis
  proof (cases "hd_parentFrameId d")
    case None
    define e where "e = \<lparr>pe_tabId = hd_tabId d, pe_frameId = hd_frameId d,
      pe_documentId = hd_documentId d, pe_origin = origin, pe_url = hd_url d,
      pe_parentFrameId = None, pe_parentDocumentId = hd_parentDocumentId d, pe_parentKey = None,
      pe_self = declared_policy origin ?ds, pe_effective = declared_policy origin ?ds\<rparr>"
    have "?s' = s\<lparr>permissionsPolicy := map_set (permissionsPolicy s) ?key e\<rparr>"
      using assms(2) None
      by (simp add: storePermissionsPolicy_def Let_def parent_entry_def e_def listAllows_def)
    then have "policyEntryForDocument (hd_tabId d) (hd_frameId d) (hd_documentId d) origin ?s' = (Some e, ?s')"
      by (subst policyEntryForDocument_present [where e = e]) (simp_all add: js_map_simps e_def)
    then have "fst (policyForRequest origin_of r sender ?s') \<longleftrightarrow>
        listAllows (declared_policy origin ?ds) origin"
      using assms None by (auto simp: policyForRequest_def Let_def e_def)
    with decl None show ?thesis by simp
  next
    case (Some pf')
    with assms(8,9) have pf: "hd_parentFrameId d = Some pf" "hd_parentDocumentId d \<noteq> []"
      "pe_origin p \<noteq> []" "map_get (permissionsPolicy s) ?pk = Some p" "?pk \<noteq> ?key"
      by (auto simp: documentFrameKey_inj)
    define e where "e = \<lparr>pe_tabId = hd_tabId d, pe_frameId = hd_frameId d,
      pe_documentId = hd_documentId d, pe_origin = origin, pe_url = hd_url d,
      pe_parentFrameId = Some pf, pe_parentDocumentId = hd_parentDocumentId d, pe_parentKey = Some ?pk,
      pe_self = declared_policy origin ?ds,
      pe_effective = (if listAllows (pe_effective p) origin then declared_policy origin ?ds else AllowNone)\<rparr>"
    have s': "?s' = s\<lparr>permissionsPolicy := map_set (permissionsPolicy s) ?key e\<rparr>"
      using assms(2) pf
      by (auto simp: storePermissionsPolicy_def Let_def parent_entry_present e_def)
    then have "policyEntryForDocument (hd_tabId d) (hd_frameId d) (hd_documentId d) origin ?s' = (Some e, ?s')"
      by (subst policyEntryForDocument_present [where e = e]) (simp_all add: js_map_simps e_def)
    then have "fst (policyForRequest origin_of r sender ?s') \<longleftrightarrow>
        listAllows (pe_effective p) origin \<and> listAllows (declared_policy origin ?ds) origin
        \<and> (pe_origin p = origin \<or> map_get (frameDelegations s) ?key = Some True)"
      using assms pf s' by (auto simp: policyForRequest_def Let_def e_def js_map_simps)
    with decl pf show ?thesis by auto
  qed
qed

definition sample_origin_of :: "string \<Rightarrow> string option" where
  "sample_origin_of u = (if u = ''https://a'' \<or> u = ''https://a/x'' then Some ''https://a''
     else if u = ''https://b'' then Some ''https://b'' else None)"

definition sample_parent :: policy_entry where
  "sample_parent = \<lparr>pe_tabId = 4, pe_frameId = 0, pe_documentId = ''top'', pe_origin = ''https://b'',
     pe_url = ''https://b'', pe_parentFrameId = None, pe_parentDocumentId = [], pe_parentKey = None,
     pe_self = AllowAll, pe_effective = AllowAll\<rparr>"

definition sample_store :: policy_state where
  "sample_store = \<lparr>permissionsPolicy = [(''4:0:top'', sample_parent)],
     frameDelegations = [(''4:2:doc'', True)]\<rparr>"

definition sample_frame :: header_details where
  "sample_frame = \<lparr>hd_tabId = 4, hd_frameId = 2, hd_documentId = ''doc'', hd_parentFrameId = Some 0,
     hd_parentDocumentId = ''top'', hd_url = ''https://a/x'',
     hd_headers = [(''Permissions-Policy'', ''hid=(self)'')]\<rparr>"

definition sample_sender :: frame_sender where
  "sample_sender = \<lparr>sender_tabId = Some 4, sender_frameId = Some 2, sender_documentId = ''doc'',
     sender_url = None\<rparr>"

definition sample_request :: frame_request where
  "sample_request = \<lparr>freq_frameId = None, freq_documentId = [], freq_origin = ''https://a''\<rparr>"

lemmas policy_samples = sample_origin_of_def sample_parent_def sample_store_def sample_frame_def
  sample_sender_def sample_request_def

lemma sample_declarations:
  "policy_declarations sample_origin_of (hd_headers sample_frame) = [AllowList [''self'']]"
  by (simp add: policy_declarations_def policy_samples toLowerCase_def lower_char_def index_of_def
      trim_def trim_left_def is_ws_def parseHidPolicy_def split_ws_word policy_token_def
      strip_quotes_def strip_quote_def Let_def suffix_to_prefix char_of_def bit_0)

theorem policy_decision_witness:
  "fst (policyForRequest sample_origin_of sample_request sample_sender
      (storePermissionsPolicy sample_origin_of sample_frame sample_store))"
proof -
  have key: "documentFrameKey 4 0 ''top'' = ''4:0:top''" "documentFrameKey 4 2 ''doc'' = ''4:2:doc''"
    by (simp_all add: documentFrameKey_def show_nat.simps char_of_def bit_0)
  show ?thesis
    by (subst policy_decision [where origin = "''https://a''" and pf = 0 and p = sample_parent])
      (simp_all add: sample_declarations, simp_all add: policy_samples urlOrigin_def key
        requested_frame_def requested_document_def listAllows_def)
qed

lemma adopt_pending_some:
  "fst (adopt_pending pk ek doc s) = Some e \<Longrightarrow>
   map_get (permissionsPolicy (snd (adopt_pending pk ek doc s))) ek = Some e"
  by (auto simp: adopt_pending_def Let_def js_map_simps split: option.splits)

lemma adopt_pending_origin:
  "map_get (permissionsPolicy s) pk = Some e0 \<Longrightarrow> fst (adopt_pending pk ek doc s) = Some (e0\<lparr>pe_documentId := doc\<rparr>)"
  by (simp add: adopt_pending_def Let_def)

lemma policyEntryForDocument_some:
  assumes "fst (policyEntryForDocument tab frame doc origin s) = Some e"
  shows "map_get (permissionsPolicy (snd (policyEntryForDocument tab frame doc origin s)))
      (documentFrameKey tab frame doc) = Some e" "pe_origin e = origin"
  using assms adopt_pending_some [of "documentFrameKey tab frame []" "documentFrameKey tab frame doc" doc s]
    adopt_pending_origin [of s "documentFrameKey tab frame []" _ "documentFrameKey tab frame doc" doc]
  by (auto simp: policyEntryForDocument_def Let_def split_beta split: option.splits if_splits)

text \<open>C10: access is never granted by default: in any state the store can reach, a document is
  answered allowed only when the store holds an entry for exactly this tab, frame and document,
  of the origin it claims, whose own headers and effective policy allow that origin, and, in a
  frame, when the parent's entry is known and is of the same origin or delegated to it.\<close>

theorem policy_never_granted_by_default:
  assumes "policy_reachable origin_of s" and "policyForRequest origin_of r sender s = (True, s')"
  shows "\<exists>tab frame e.
     sender_tabId sender = Some tab \<and> requested_frame r sender = Some frame
     \<and> requested_document r sender \<noteq> []
     \<and> map_get (permissionsPolicy s') (documentFrameKey tab frame (requested_document r sender)) = Some e
     \<and> pe_origin e = urlOrigin origin_of (freq_origin r) \<and> pe_origin e \<noteq> []
     \<and> listAllows (pe_effective e) (pe_origin e) \<and> listAllows (pe_self e) (pe_origin e)
     \<and> (pe_parentFrameId e \<noteq> None \<longrightarrow>
          (\<exists>pk p. pe_parentKey e = Some pk \<and> map_get (permissionsPolicy s') pk = Some p
                \<and> (pe_origin p = pe_origin e
                   \<or> map_get (frameDelegations s')
                       (documentFrameKey tab frame (requested_document r sender)) = Some True)))"
proof -
  let ?doc = "requested_document r sender" and ?origin = "urlOrigin origin_of (freq_origin r)"
  obtain tab frame where tf: "sender_tabId sender = Some tab" "requested_frame r sender = Some frame"
      "?doc \<noteq> []" "?origin \<noteq> []"
    using assms(2) by (auto simp: policyForRequest_def Let_def split: option.splits if_splits)
  obtain found s1 where found: "policyEntryForDocument tab frame ?doc ?origin s = (found, s1)"
    by fastforce
  with assms(2) tf have s1: "s1 = s'"
    by (auto simp: policyForRequest_def Let_def)
  from assms(2) tf found obtain e where e: "found = Some e"
    by (cases found) (auto simp: policyForRequest_def Let_def)
  have entry: "map_get (permissionsPolicy s') (documentFrameKey tab frame ?doc) = Some e"
    "pe_origin e = ?origin"
    using policyEntryForDocument_some [of tab frame ?doc ?origin s e] found e s1 by simp_all
  have "policy_wf s'"
    using policyEntryForDocument_wf [OF policy_reachable_wf [OF assms(1)], of tab frame ?doc ?origin]
      found s1 by simp
  with entry(1) have "pe_effective e \<le> pe_self e" by (simp add: policy_wf_def)
  moreover have "listAllows (pe_effective e) (pe_origin e)"
    "pe_parentFrameId e \<noteq> None \<longrightarrow>
          (\<exists>pk p. pe_parentKey e = Some pk \<and> map_get (permissionsPolicy s') pk = Some p
                \<and> (pe_origin p = pe_origin e
                   \<or> map_get (frameDelegations s') (documentFrameKey tab frame ?doc) = Some True))"
    using assms(2) tf found e s1
    by (auto simp: policyForRequest_def Let_def split: option.splits)
  moreover from calculation have "listAllows (pe_self e) (pe_origin e)" by (blast intro: le_allows)
  ultimately show ?thesis
    by (intro exI [of _ tab] exI [of _ frame] exI [of _ e] conjI) (use tf entry in simp_all)
qed

lemma map_get_clear_prefix:
  "map_wf m \<Longrightarrow> map_get (filter (\<lambda>(key, _). \<not> prefix pre key) m) k =
     (if prefix pre k then None else map_get m k)"
  by (simp add: map_get_filter split: option.split)

theorem policy_never_granted_by_default_witness:
  "\<exists>s' e. policyForRequest sample_origin_of sample_request sample_sender
       (policy_step sample_origin_of (HeadersReceived (sample_frame\<lparr>hd_parentFrameId := None\<rparr>))
          initial_policy_state) = (True, s')
     \<and> map_get (permissionsPolicy s') (documentFrameKey 4 2 [CHR ''d'', CHR ''o'', CHR ''c'']) = Some e
     \<and> listAllows (pe_self e) (pe_origin e)"
proof -
  let ?s = "policy_step sample_origin_of (HeadersReceived (sample_frame\<lparr>hd_parentFrameId := None\<rparr>))
      initial_policy_state"
  have reach: "policy_reachable sample_origin_of ?s"
    by (intro policy_reachable.step policy_reachable.start)
  have "fst (policyForRequest sample_origin_of sample_request sample_sender ?s)"
    using sample_declarations
    by (simp add: storePermissionsPolicy_def initial_policy_state_def parent_entry_def policyForRequest_def
        declared_policy_def resolve_self_def listAllows_def policyEntryForDocument_def Let_def
        requested_frame_def requested_document_def urlOrigin_def)
      (simp add: policy_samples listAllows_def policyEntryForDocument_def)
  then obtain s' where ask: "policyForRequest sample_origin_of sample_request sample_sender ?s = (True, s')"
    by (cases "policyForRequest sample_origin_of sample_request sample_sender ?s") simp
  from policy_never_granted_by_default [OF reach ask] ask show ?thesis
    by (auto simp: sample_sender_def sample_request_def requested_frame_def requested_document_def)
qed

text \<open>Navigation forgets exactly its own documents: when a frame (or a whole tab) navigates,
  every policy and delegation of its documents is gone and those of every other frame (or tab) are
  what they were, also when the numbers of one are a prefix of the other's (tabs 1 and 12).\<close>

theorem navigation_forgets_exactly:
  assumes "policy_reachable origin_of s"
  shows "(map_get (permissionsPolicy (clearPolicyFrame tab frame s)) (documentFrameKey tab' frame' doc) =
       (if tab' = tab \<and> frame' = frame then None
        else map_get (permissionsPolicy s) (documentFrameKey tab' frame' doc)))
   \<and> (map_get (frameDelegations (clearPolicyFrame tab frame s)) (documentFrameKey tab' frame' doc) =
       (if tab' = tab \<and> frame' = frame then None
        else map_get (frameDelegations s) (documentFrameKey tab' frame' doc)))
   \<and> (map_get (permissionsPolicy (clearPolicyTab tab s)) (documentFrameKey tab' frame' doc) =
       (if tab' = tab then None
        else map_get (permissionsPolicy s) (documentFrameKey tab' frame' doc)))
   \<and> (map_get (frameDelegations (clearPolicyTab tab s)) (documentFrameKey tab' frame' doc) =
       (if tab' = tab then None
        else map_get (frameDelegations s) (documentFrameKey tab' frame' doc)))"
proof -
  have wf: "map_wf (permissionsPolicy s)" "map_wf (frameDelegations s)"
    using policy_reachable_wf [OF assms] by (simp_all add: policy_wf_def)
  have "permissionsPolicy (clear_prefix pre s) = filter (\<lambda>(key, _). \<not> prefix pre key) (permissionsPolicy s)"
    "frameDelegations (clear_prefix pre s) = filter (\<lambda>(key, _). \<not> prefix pre key) (frameDelegations s)" for pre
    by (simp_all add: clear_prefix_def)
  then show ?thesis
    unfolding clearPolicyFrame_def clearPolicyTab_def
    by (simp only: map_get_clear_prefix [OF wf(1)] map_get_clear_prefix [OF wf(2)]
        frame_prefix_key tab_prefix_key eq_commute [of tab tab'] eq_commute [of frame frame'] simp_thms)
qed

theorem navigation_forgets_exactly_witness:
  "map_get (permissionsPolicy (clearPolicyTab 1 initial_policy_state)) (documentFrameKey 1 2 ''d'') = None"
  using navigation_forgets_exactly [OF policy_reachable.start, of 1 0 1 2 "''d''"] by simp

text \<open>The known gap of the intersection: \<open>self\<close> is compared as a word before it is resolved, so a
  declaration of self and one naming the document's own origin deny it.\<close>

theorem self_and_own_origin_deny:
  "\<not> listAllows (declared_policy ''https://a'' [AllowList [''self''], AllowList [''https://a'']]) ''https://a''"
  unfolding declared_policy_allows by (simp add: listAllows_def)

end
