(* ===== verification/Messages.thy ===== *)
theory Messages
  imports Native_Messaging Permissions_Policy
begin

text \<open>
  \<open>addon/js/background/messages.js\<close>: the handlers of the messages that pages, frames and the
  extension's own pages send to the background, over the Native Messaging client, the ownership
  state, the grants and the permissions policy.

  A handler that awaits is cut at its awaits: its first part runs when the message arrives, and
  leaves a task that runs later, when what it waits for is there, with any other messages, tasks
  and native messages in between.  A task that awaits the native host holds the number of the
  promise and can run once that promise is settled.  Whether the database and the browser's calls
  work (the connection and the posts of the native client, the listing of the tabs) is an argument
  (\<open>io\<close>).  \<open>bk_replies\<close> records the answer given to each message.
\<close>

section \<open>State\<close>

record bg_request =
  br_origin :: string
  br_deviceId :: nat
  br_deviceIds :: "nat list"
  br_frameKey :: string
  br_sessionToken :: string  \<comment> \<open>\<open>T\<close> of a close, \<open>sessionToken\<close> of the others\<close>
  br_clientKey :: "string option"
  br_bridgeInstanceId :: string
  br_reportId :: nat
  br_data :: bytes
  br_mode :: nat
  br_filters :: "hid_filter list"
  br_exclusionFilters :: "hid_filter list"

datatype response =
    Status nat
  | Native native_message
  | NativeFiltered native_message
  | FeatureData native_message "bytes option"
  | Hashes bool "nat list"
  | Success bool
  | DeviceIds "nat list"
  | Devices "device list"
  | DeviceInfo "device option"
  | Groups bool "grant_group list"
  | PairedDevices nat "device list"
  | Backend bool bool nat "string option"  \<comment> \<open>connected, reachable, permission, last error\<close>

datatype task =
    OpenAllowed nat bg_request nat string
  | OpenAnswered nat bg_request nat string nat
  | OpenRechecked nat bg_request nat string native_message
  | OpenAborted nat close_request nat nat  \<comment> \<open>the status to answer, then the promise\<close>
  | CloseAnswered nat bg_request nat nat
  | CleanupAnswered nat close_request nat
  | PurgeAnswered close_request nat
  | FrameDestroyedJoin nat frame_request frame_sender "nat list"
  | Forwarded nat nat
  | FeatureAnswered nat nat
  | EnumerateAnswered nat bool nat
  | PairedAnswered nat string nat
  | PairedFiltered nat string native_message
  | StatusAnswered nat nat
  | CacheAnswered nat nat
  | RevokeNext nat string "nat list" "(nat \<times> string) list" "nat list" "grant_group list"
      \<comment> \<open>the origin, devices left, sessions of the current device left, all devices, their groups\<close>
  | RevokeClosing nat string "nat list" "(nat \<times> string) list" "nat list" "grant_group list" close_request nat
  | RevokeRead nat string "nat list"
  | RevokeTold nat string "nat list" "nat list"
  | GrantStored nat "nat option" string
  | GrantRead nat bool string "nat list"

datatype bk_effect =
    AllowedDevicesChanged string "nat list"
  | RevokedEvent string nat

record background =
  bk_nm :: nm_state
  bk_db :: database
  bk_policy :: policy_state
  bk_lastHidPermission :: nat
  bk_tasks :: "task list"
  bk_replies :: "(nat \<times> response) list"
  bk_out :: "bk_effect list"

record io =
  io_db :: bool
  io_connect :: bool
  io_post :: bool
  io_tabs :: bool

definition initial_background :: background where
  "initial_background = \<lparr>bk_nm = initial_nm_state, bk_db = empty_database,
     bk_policy = \<lparr>permissionsPolicy = [], frameDelegations = []\<rparr>, bk_lastHidPermission = 2,
     bk_tasks = [], bk_replies = [], bk_out = []\<rparr>"

abbreviation own :: "background \<Rightarrow> bg_state" where
  "own s \<equiv> bg_st (nm_bg (bk_nm s))"

definition set_own :: "bg_state \<Rightarrow> background \<Rightarrow> background" where
  "set_own b s = s\<lparr>bk_nm := bk_nm s\<lparr>nm_bg := nm_bg (bk_nm s)\<lparr>bg_st := b\<rparr>\<rparr>\<rparr>"

definition respond :: "nat \<Rightarrow> response \<Rightarrow> background \<Rightarrow> background" where
  "respond r x s = s\<lparr>bk_replies := bk_replies s @ [(r, x)]\<rparr>"

definition await :: "task \<Rightarrow> background \<Rightarrow> background" where
  "await t s = s\<lparr>bk_tasks := bk_tasks s @ [t]\<rparr>"

text \<open>A request to the host, with the task that awaits its promise.\<close>

definition ask :: "io \<Rightarrow> nm_body \<Rightarrow> (nat \<Rightarrow> task) \<Rightarrow> background \<Rightarrow> background" where
  "ask e body task s =
     (let (promise, nm) = sendFrame (build_body body) (io_connect e) (io_post e) (bk_nm s)
      in await (task promise) (s\<lparr>bk_nm := nm\<rparr>))"

definition outcome_of :: "nat \<Rightarrow> background \<Rightarrow> nm_outcome option" where
  "outcome_of promise s = map_of (nm_settled (bk_nm s)) promise"

text \<open>The start of \<open>closeForCleanup\<close>, and what it does with the answer.\<close>

definition close_via_host :: "io \<Rightarrow> nat \<Rightarrow> string \<Rightarrow> (close_request \<Rightarrow> nat \<Rightarrow> task) \<Rightarrow> background \<Rightarrow> background" where
  "close_via_host e deviceId sessionToken task s =
     ask e (PlainBody (close_device_request deviceId sessionToken))
       (task (start_close deviceId sessionToken (own s))) s"

definition close_result_of :: "nm_outcome \<Rightarrow> close_result" where
  "close_result_of x = (case x of Resolved m \<Rightarrow> CloseResponse (msg_s m) | Rejected _ \<Rightarrow> CloseRejected)"

definition close_answered :: "close_request \<Rightarrow> nm_outcome \<Rightarrow> background \<Rightarrow> bool \<times> background" where
  "close_answered cr x s =
     (let (confirmed, b) = finish_close cr (close_result_of x) (own s) in (confirmed, set_own b s))"

definition request_frame :: "bg_request \<Rightarrow> nat option \<Rightarrow> string" where
  "request_frame req tabId =
     (if br_frameKey req \<noteq> [] then br_frameKey req
      else ''tab:'' @ (case tabId of None \<Rightarrow> ''undefined'' | Some tab \<Rightarrow> show_nat tab))"

section \<open>Opening a device\<close>

definition handleOpen :: "nat \<Rightarrow> bg_request \<Rightarrow> frame_sender \<Rightarrow> background \<Rightarrow> background" where
  "handleOpen r req sender s =
     (case sender_tabId sender of
        None \<Rightarrow> respond r (Status 403) s
      | Some tab \<Rightarrow>
          let frame = request_frame req (Some tab);
              (alive, b) = registerFrameLifetime (Some tab) frame (own s)
          in if \<not> alive then respond r (Status 503) s
             else await (OpenAllowed r req tab frame) (set_own b s))"

definition open_allowed :: "io \<Rightarrow> nat \<Rightarrow> bg_request \<Rightarrow> nat \<Rightarrow> string \<Rightarrow> background \<Rightarrow> background" where
  "open_allowed e r req tab frame s =
     (case getAllowedDevices (io_db e) (br_origin req) (bk_db s) of
        Inl _ \<Rightarrow> respond r (Status 500) s
      | Inr deviceIds \<Rightarrow>
          if br_deviceId req \<notin> set deviceIds then respond r (Status 403) s
          else ask e (PlainBody (open_request (br_deviceId req))) (OpenAnswered r req tab frame) s)"

definition note_permission :: "native_message \<Rightarrow> background \<Rightarrow> background" where
  "note_permission m s = (case msg_P m of None \<Rightarrow> s | Some p \<Rightarrow> s\<lparr>bk_lastHidPermission := p\<rparr>)"

definition message_device :: "native_message \<Rightarrow> nat" where
  "message_device m = (case msg_i m of None \<Rightarrow> 0 | Some i \<Rightarrow> i)"

definition message_token :: "native_message \<Rightarrow> string" where
  "message_token m = (case msg_t m of None \<Rightarrow> [] | Some t \<Rightarrow> t)"

definition open_answered ::
    "nat \<Rightarrow> bg_request \<Rightarrow> nat \<Rightarrow> string \<Rightarrow> nm_outcome \<Rightarrow> background \<Rightarrow> background" where
  "open_answered r req tab frame x s =
     (case x of
        Rejected _ \<Rightarrow> respond r (Status 500) s
      | Resolved m \<Rightarrow>
          let s1 = note_permission m s
          in if isOk (msg_s m) \<and> message_device m \<noteq> 0 then await (OpenRechecked r req tab frame m) s1
             else respond r (Native m) s1)"

text \<open>The open came back: the grant is read again and the owner must still live.\<close>

definition open_rechecked ::
    "io \<Rightarrow> nat \<Rightarrow> bg_request \<Rightarrow> nat \<Rightarrow> string \<Rightarrow> native_message \<Rightarrow> background \<Rightarrow> background" where
  "open_rechecked e r req tab frame m s =
     (case getAllowedDevices (io_db e) (br_origin req) (bk_db s) of
        Inl _ \<Rightarrow> respond r (Status 500) s
      | Inr deviceIds \<Rightarrow>
          let dev = message_device m; tok = message_token m;
              stillAllowed = (br_deviceId req \<in> set deviceIds);
              ownerStillAlive = isFrameLifetimeActive (Some tab) frame (own s)
          in if \<not> stillAllowed \<or> \<not> ownerStillAlive then
               (let status = (if ownerStillAlive then 403 else 503)
                in if tok \<noteq> [] then close_via_host e dev tok (\<lambda>cr. OpenAborted r cr status) s
                   else respond r (Status status) s)
             else
               let (registered, b) =
                 (if tok = [] then (True, own s)
                  else registerDeviceSession dev tok
                         \<lparr>req_tabId = Some tab, req_origin = br_origin req, req_frameKey = frame,
                          req_bridgeInstanceId = br_bridgeInstanceId req,
                          req_clientKey = (case br_clientKey req of None \<Rightarrow> [] | Some k \<Rightarrow> k)\<rparr> (own s));
                   s1 = set_own b s
               in if \<not> registered then close_via_host e dev tok (\<lambda>cr. OpenAborted r cr 503) s1
                  else respond r (Native m) (set_own (registerDeviceTab dev (Some tab) b) s1))"

section \<open>Closing and using a device\<close>

definition handleClose :: "io \<Rightarrow> nat \<Rightarrow> bg_request \<Rightarrow> frame_sender \<Rightarrow> background \<Rightarrow> background" where
  "handleClose e r req sender s =
     (let tabId = sender_tabId sender; frame = request_frame req tabId; tok = br_sessionToken req
      in if \<not> isTabAuthorizedForDevice tabId (br_deviceId req) (own s) then respond r (Status 403) s
         else if tok \<noteq> [] \<and> \<not> isSessionOwnedBy (br_deviceId req) tok (br_origin req) tabId (Some frame)
                                 (br_clientKey req) (own s)
         then respond r (Status 403) s
         else ask e (PlainBody (close_device_request (br_deviceId req) tok))
                (CloseAnswered r req (case tabId of None \<Rightarrow> 0 | Some tab \<Rightarrow> tab)) s)"

definition device_closed :: "nat \<Rightarrow> bg_request \<Rightarrow> nat \<Rightarrow> nm_outcome \<Rightarrow> background \<Rightarrow> background" where
  "device_closed r req tab x s =
     (case x of
        Rejected _ \<Rightarrow> respond r (Status 500) s
      | Resolved m \<Rightarrow>
          respond r (Native m)
            (if isOk (msg_s m)
             then let b = unregisterDeviceTab (br_deviceId req) (Some tab) (own s)
                  in set_own (if br_sessionToken req = [] then b
                              else unregisterDeviceSession (br_deviceId req) (br_sessionToken req) b) s
             else s))"

definition tabAllowsDevice :: "frame_sender \<Rightarrow> nat \<Rightarrow> background \<Rightarrow> bool" where
  "tabAllowsDevice sender deviceId s = isTabAuthorizedForDevice (sender_tabId sender) deviceId (own s)"

definition set_data_plane_request :: "bg_request \<Rightarrow> nm_request" where
  "set_data_plane_request req =
     (request ACT_sdp)\<lparr>rq_i := Some (br_deviceId req), rq_m := Some (br_mode req),
       rq_T := (if br_sessionToken req = [] then None else Some (br_sessionToken req))\<rparr>"

definition handleSetDataPlane :: "io \<Rightarrow> nat \<Rightarrow> bg_request \<Rightarrow> frame_sender \<Rightarrow> background \<Rightarrow> background" where
  "handleSetDataPlane e r req sender s =
     (if \<not> tabAllowsDevice sender (br_deviceId req) s then respond r (Status 403) s
      else
        let tabId = sender_tabId sender; frame = request_frame req tabId; tok = br_sessionToken req
        in if tok \<noteq> [] \<and> \<not> isSessionOwnedBy (br_deviceId req) tok (br_origin req) tabId (Some frame)
                                (br_clientKey req) (own s)
           then respond r (Status 403) s
           else ask e (PlainBody (set_data_plane_request req)) (Forwarded r) s)"

definition handleSendReport :: "io \<Rightarrow> nat \<Rightarrow> bg_request \<Rightarrow> frame_sender \<Rightarrow> background \<Rightarrow> background" where
  "handleSendReport e r req sender s =
     (if \<not> tabAllowsDevice sender (br_deviceId req) s then respond r (Status 403) s
      else ask e (PackedBody PKG_SEND_REPORT (br_deviceId req) (br_reportId req) (br_data req)) (Forwarded r) s)"

definition handleReceiveFeatureReport :: "io \<Rightarrow> nat \<Rightarrow> bg_request \<Rightarrow> frame_sender \<Rightarrow> background \<Rightarrow> background" where
  "handleReceiveFeatureReport e r req sender s =
     (if \<not> tabAllowsDevice sender (br_deviceId req) s then respond r (Status 403) s
      else ask e (PlainBody (receive_feature_request (br_deviceId req) (br_reportId req))) (FeatureAnswered r) s)"

definition handleSendFeatureReport :: "io \<Rightarrow> nat \<Rightarrow> bg_request \<Rightarrow> frame_sender \<Rightarrow> background \<Rightarrow> background" where
  "handleSendFeatureReport e r req sender s =
     (if \<not> tabAllowsDevice sender (br_deviceId req) s then respond r (Status 403) s
      else ask e (PackedBody PKG_SEND_FEATURE_REPORT (br_deviceId req) (br_reportId req) (br_data req)) (Forwarded r) s)"

definition forwarded :: "nat \<Rightarrow> nm_outcome \<Rightarrow> background \<Rightarrow> background" where
  "forwarded r x s = respond r (case x of Resolved m \<Rightarrow> Native m | Rejected _ \<Rightarrow> Status 500) s"

definition feature_answered :: "nat \<Rightarrow> nm_outcome \<Rightarrow> background \<Rightarrow> background" where
  "feature_answered r x s =
     respond r (case x of Rejected _ \<Rightarrow> Status 500
                | Resolved m \<Rightarrow> (case feature_reply m of Inl _ \<Rightarrow> Status 500 | Inr (m', d) \<Rightarrow> FeatureData m' d)) s"

section \<open>Frames and cleanup\<close>

text \<open>The closes a purge starts, each with its task, and their promises.\<close>

definition start_purge_close :: "io \<Rightarrow> close_request \<Rightarrow> background \<times> nat list \<Rightarrow> background \<times> nat list" where
  "start_purge_close e cr = (\<lambda>(s, promises).
     let (promise, nm) = sendFrame (build_body (PlainBody (close_device_request (close_device cr) (close_token cr))))
                           (io_connect e) (io_post e) (bk_nm s)
     in (await (PurgeAnswered cr promise) (s\<lparr>bk_nm := nm\<rparr>), promises @ [promise]))"

definition handleFrameDestroyed ::
    "io \<Rightarrow> nat \<Rightarrow> string \<Rightarrow> frame_request \<Rightarrow> frame_sender \<Rightarrow> background \<Rightarrow> background" where
  "handleFrameDestroyed e r frameKey fr sender s =
     (let (b, closes) = purgeFrame (sender_tabId sender) frameKey (own s);
          (s1, promises) = fold (start_purge_close e) closes (set_own b s, [])
      in await (FrameDestroyedJoin r fr sender promises) s1)"

text \<open>After all closes were answered.\<close>

definition frame_destroyed :: "nat \<Rightarrow> frame_request \<Rightarrow> frame_sender \<Rightarrow> background \<Rightarrow> background" where
  "frame_destroyed r fr sender s = respond r (Status 204) (s\<lparr>bk_policy := forgetDocument fr sender (bk_policy s)\<rparr>)"

text \<open>The disconnection of a bridge's control port, and the removal of a tab: closes without a
  reply.\<close>

definition bridge_disconnected :: "io \<Rightarrow> nat option \<Rightarrow> string \<Rightarrow> background \<Rightarrow> background" where
  "bridge_disconnected e tabId bridgeInstanceId s =
     (if bridgeInstanceId = [] \<or> tabId = None then s
      else let (b, closes) = purgeBridge tabId bridgeInstanceId (own s)
           in fst (fold (start_purge_close e) closes (set_own b s, [])))"

definition tab_removed :: "io \<Rightarrow> nat \<Rightarrow> background \<Rightarrow> background" where
  "tab_removed e tabId s =
     (let (b, closes) = purgeTab (Some tabId) (own s)
      in fst (fold (start_purge_close e) closes (set_own b s, [])))"

definition orphan_retry :: "io \<Rightarrow> background \<Rightarrow> background" where
  "orphan_retry e s =
     (let (b, closes) = retryOrphanCleanup (own s)
      in fst (fold (start_purge_close e) closes (set_own b s, [])))"

definition handleCleanupSession :: "io \<Rightarrow> nat \<Rightarrow> bg_request \<Rightarrow> background \<Rightarrow> background" where
  "handleCleanupSession e r req s =
     close_via_host e (br_deviceId req) (br_sessionToken req) (CleanupAnswered r) s"

section \<open>Enumeration\<close>

definition refreshDeviceCache :: "bool \<Rightarrow> device list \<Rightarrow> background \<Rightarrow> background" where
  "refreshDeviceCache db_ok devices s =
     (let decoded = decodeDeviceCollections devices
      in s\<lparr>bk_nm := bk_nm s\<lparr>nm_deviceCache := decoded\<rparr>, bk_db := saveDeviceInfoBatch db_ok decoded (bk_db s)\<rparr>)"

definition handleEnumerate :: "io \<Rightarrow> nat \<Rightarrow> bg_request \<Rightarrow> background \<Rightarrow> background" where
  "handleEnumerate e r req s =
     (let hasFilter = (br_filters req \<noteq> [] \<or> br_exclusionFilters req \<noteq> [])
      in ask e (PlainBody (enumerate_request (if hasFilter
              then Some \<lparr>ef_filters = br_filters req, ef_exclusionFilters = br_exclusionFilters req\<rparr> else None)))
           (EnumerateAnswered r hasFilter) s)"

definition decode_message :: "native_message \<Rightarrow> native_message" where
  "decode_message m = m\<lparr>msg_D := map_option decodeDeviceCollections (msg_D m)\<rparr>"

definition enumerate_answered :: "io \<Rightarrow> nat \<Rightarrow> bool \<Rightarrow> nm_outcome \<Rightarrow> background \<Rightarrow> background" where
  "enumerate_answered e r hasFilter x s =
     (case x of
        Rejected _ \<Rightarrow> respond r (Status 500) s
      | Resolved m \<Rightarrow>
          if isOk (msg_s m) \<and> msg_D m \<noteq> None
          then if hasFilter then respond r (NativeFiltered (decode_message m)) s
               else respond r (Native (decode_message m)) (refreshDeviceCache (io_db e) (the (msg_D m)) s)
          else respond r (if hasFilter then NativeFiltered m else Native m) s)"

definition handleEnumeratePaired :: "io \<Rightarrow> nat \<Rightarrow> bg_request \<Rightarrow> background \<Rightarrow> background" where
  "handleEnumeratePaired e r req s =
     ask e (PlainBody (enumerate_request None)) (PairedAnswered r (br_origin req)) s"

definition paired_answered :: "nat \<Rightarrow> string \<Rightarrow> nm_outcome \<Rightarrow> background \<Rightarrow> background" where
  "paired_answered r origin x s =
     (case x of
        Rejected _ \<Rightarrow> respond r (Status 500) s
      | Resolved m \<Rightarrow>
          if isOk (msg_s m) \<and> msg_D m \<noteq> None then await (PairedFiltered r origin m) s
          else respond r (Native m) s)"

definition paired_filtered :: "io \<Rightarrow> nat \<Rightarrow> string \<Rightarrow> native_message \<Rightarrow> background \<Rightarrow> background" where
  "paired_filtered e r origin m s =
     (case getAllowedDevices (io_db e) origin (bk_db s) of
        Inl _ \<Rightarrow> respond r (Status 500) s
      | Inr ids \<Rightarrow>
          let paired = filter (\<lambda>d. tlv_deviceId d \<in> set ids) (the (msg_D m))
          in respond r (PairedDevices (the (msg_s m)) (decodeDeviceCollections paired)) s)"

definition handleHandshake :: "io \<Rightarrow> nat \<Rightarrow> background \<Rightarrow> background" where
  "handleHandshake e r s = ask e (PlainBody handshake_request) (Forwarded r) s"

definition handleGetBackendStatus :: "io \<Rightarrow> nat \<Rightarrow> background \<Rightarrow> background" where
  "handleGetBackendStatus e r s = ask e (PlainBody handshake_request) (StatusAnswered r) s"

definition status_answered :: "nat \<Rightarrow> nm_outcome \<Rightarrow> background \<Rightarrow> background" where
  "status_answered r x s =
     (let (s1, reachable) = (case x of Rejected _ \<Rightarrow> (s, False) | Resolved m \<Rightarrow> (note_permission m s, isOk (msg_s m)))
      in respond r (Backend (nm_port (bk_nm s1) \<noteq> None) reachable (bk_lastHidPermission s1)
                      (case nm_lastError (bk_nm s1) of Some [] \<Rightarrow> None | err \<Rightarrow> err)) s1)"

definition handleGetDeviceCache :: "io \<Rightarrow> nat \<Rightarrow> background \<Rightarrow> background" where
  "handleGetDeviceCache e r s =
     (if nm_deviceCache (bk_nm s) = [] then ask e (PlainBody (enumerate_request None)) (CacheAnswered r) s
      else respond r (Devices (nm_deviceCache (bk_nm s)))
             (s\<lparr>bk_db := saveDeviceInfoBatch (io_db e) (nm_deviceCache (bk_nm s)) (bk_db s)\<rparr>))"

definition cache_answered :: "io \<Rightarrow> nat \<Rightarrow> nm_outcome \<Rightarrow> background \<Rightarrow> background" where
  "cache_answered e r x s =
     (let s1 = (case x of
                  Resolved m \<Rightarrow> if isOk (msg_s m) \<and> msg_D m \<noteq> None
                                then refreshDeviceCache (io_db e) (the (msg_D m)) s else s
                | Rejected _ \<Rightarrow> s)
      in respond r (Devices (nm_deviceCache (bk_nm s1))) s1)"

text \<open>The page a message comes from, and the address of the extension's own pages.\<close>

definition handleGetDeviceInfo ::
    "io \<Rightarrow> string \<Rightarrow> nat \<Rightarrow> bg_request \<Rightarrow> frame_sender \<Rightarrow> background \<Rightarrow> background" where
  "handleGetDeviceInfo e ownUrl r req sender s =
     (let fromPage = (case sender_url sender of None \<Rightarrow> False | Some url \<Rightarrow> \<not> prefix ownUrl url);
          info = DeviceInfo (getDeviceInfo (io_db e) (nm_deviceCache (bk_nm s)) (br_deviceId req) (bk_db s))
      in if \<not> fromPage then respond r info s
         else case getAllowedDevices (io_db e) (br_origin req) (bk_db s) of
                Inl _ \<Rightarrow> s  \<comment> \<open>no handler for the rejection: the message is never answered\<close>
              | Inr ids \<Rightarrow>
                  if br_deviceId req \<in> set ids
                     \<or> isTabAuthorizedForDevice (sender_tabId sender) (br_deviceId req) (own s)
                  then respond r info s else respond r (DeviceInfo None) s)"

section \<open>Grants\<close>

definition notifyAllowedDevicesChanged :: "string \<Rightarrow> nat list \<Rightarrow> background \<Rightarrow> background" where
  "notifyAllowedDevicesChanged origin deviceIds s = s\<lparr>bk_out := bk_out s @ [AllowedDevicesChanged origin deviceIds]\<rparr>"

definition handleGetPairedDevices :: "io \<Rightarrow> nat \<Rightarrow> bg_request \<Rightarrow> background \<Rightarrow> background" where
  "handleGetPairedDevices e r req s =
     (case getAllowedDevices (io_db e) (br_origin req) (bk_db s) of
        Inl _ \<Rightarrow> respond r (Hashes False []) s | Inr ids \<Rightarrow> respond r (Hashes True ids) s)"

definition handleGetAllowedDevices :: "io \<Rightarrow> nat \<Rightarrow> bg_request \<Rightarrow> background \<Rightarrow> background" where
  "handleGetAllowedDevices e r req s =
     (case getAllowedDevices (io_db e) (br_origin req) (bk_db s) of
        Inl _ \<Rightarrow> respond r (DeviceIds []) s | Inr ids \<Rightarrow> respond r (DeviceIds ids) s)"

text \<open>A change of a grant, then its tail: the devices are read again, then the tabs are listed, each
  after an await.  \<open>unpaired\<close> is the device taken away, none where one was added.\<close>

definition handlePairDevice :: "io \<Rightarrow> nat \<Rightarrow> bg_request \<Rightarrow> background \<Rightarrow> background" where
  "handlePairDevice e r req s =
     (case addAllowedDevice (io_db e) (br_origin req) (br_deviceId req) (bk_db s) of
        Inl _ \<Rightarrow> respond r (Hashes False []) s
      | Inr db \<Rightarrow> await (GrantStored r None (br_origin req)) (s\<lparr>bk_db := db\<rparr>))"

definition handleUnpairDevice :: "io \<Rightarrow> nat \<Rightarrow> bg_request \<Rightarrow> background \<Rightarrow> background" where
  "handleUnpairDevice e r req s =
     (if br_deviceId req = 0
      then (case getAllowedDevices (io_db e) (br_origin req) (bk_db s) of
              Inl _ \<Rightarrow> respond r (Success False) s | Inr ids \<Rightarrow> respond r (Hashes True ids) s)
      else (case removeAllowedDevice (io_db e) (br_origin req) (br_deviceId req) (bk_db s) of
              Inl _ \<Rightarrow> respond r (Success False) s
            | Inr db \<Rightarrow> await (GrantStored r (Some (br_deviceId req)) (br_origin req)) (s\<lparr>bk_db := db\<rparr>)))"

definition grant_failed :: "bool \<Rightarrow> response" where
  "grant_failed pairing = (if pairing then Hashes False [] else Success False)"

definition grant_stored :: "io \<Rightarrow> nat \<Rightarrow> nat option \<Rightarrow> string \<Rightarrow> background \<Rightarrow> background" where
  "grant_stored e r unpaired origin s =
     (let s1 = (case unpaired of None \<Rightarrow> s
                | Some dev \<Rightarrow> s\<lparr>bk_db := removeDeviceInfo (io_db e) dev (bk_db s)\<rparr>)
      in case getAllowedDevices (io_db e) origin (bk_db s1) of
           Inl _ \<Rightarrow> respond r (grant_failed (unpaired = None)) s1
         | Inr ids \<Rightarrow> await (GrantRead r (unpaired = None) origin ids) s1)"

definition grant_read :: "io \<Rightarrow> nat \<Rightarrow> bool \<Rightarrow> string \<Rightarrow> nat list \<Rightarrow> background \<Rightarrow> background" where
  "grant_read e r pairing origin ids s =
     (if \<not> io_tabs e then respond r (grant_failed pairing) s
      else respond r (Hashes True ids) (notifyAllowedDevicesChanged origin ids s))"

definition handleRecordGrantGroup :: "io \<Rightarrow> nat \<Rightarrow> nat \<Rightarrow> bg_request \<Rightarrow> background \<Rightarrow> background" where
  "handleRecordGrantGroup e now r req s =
     (if br_origin req = [] then respond r (Success False) s
      else respond r (Success True)
             (s\<lparr>bk_db := recordGrantGroup (io_db e) now (br_origin req) (br_deviceIds req) (bk_db s)\<rparr>))"

definition handleGetGrantGroups :: "io \<Rightarrow> nat \<Rightarrow> bg_request \<Rightarrow> background \<Rightarrow> background" where
  "handleGetGrantGroups e r req s =
     respond r (Groups True (getGrantGroupsForOrigin (io_db e) (br_origin req) (bk_db s))) s"

section \<open>Revoking\<close>

text \<open>The devices of a revocation: the targets, and every device granted together with one of
  them.\<close>

definition member_groups :: "grant_group list \<Rightarrow> nat list \<Rightarrow> grant_group list" where
  "member_groups groups targetIds = filter (\<lambda>g. \<exists>i \<in> set (gg_deviceIds g). i \<in> set targetIds) groups"

definition revoked_devices :: "grant_group list \<Rightarrow> nat list \<Rightarrow> nat list" where
  "revoked_devices groups targetIds =
     set_of_list (targetIds @ concat (map gg_deviceIds (member_groups groups targetIds)))"

definition handleRevokeDevice :: "io \<Rightarrow> nat \<Rightarrow> bg_request \<Rightarrow> background \<Rightarrow> background" where
  "handleRevokeDevice e r req s =
     (if br_origin req = [] then respond r (Success False) s
      else
        let targetIds = (if br_deviceIds req \<noteq> [] then br_deviceIds req else [br_deviceId req]);
            groups = getGrantGroupsForOrigin (io_db e) (br_origin req) (bk_db s);
            toRevoke = revoked_devices groups targetIds
        in await (RevokeNext r (br_origin req) toRevoke [] toRevoke (member_groups groups targetIds)) s)"

text \<open>The loop of \<open>revokeDevices\<close>: the sessions of the current device one by one, then the next
  device, at the end the groups, the devices left and the tabs, with an await each.\<close>

definition revoke_done :: "io \<Rightarrow> nat \<Rightarrow> string \<Rightarrow> nat list \<Rightarrow> grant_group list \<Rightarrow> background \<Rightarrow> background" where
  "revoke_done e r origin toRevoke groups s =
     await (RevokeRead r origin toRevoke) (s\<lparr>bk_db := deleteGrantGroups (io_db e) (map gg_id groups) (bk_db s)\<rparr>)"

definition revoke_read :: "io \<Rightarrow> nat \<Rightarrow> string \<Rightarrow> nat list \<Rightarrow> background \<Rightarrow> background" where
  "revoke_read e r origin toRevoke s =
     (case getAllowedDevices (io_db e) origin (bk_db s) of
        Inl _ \<Rightarrow> respond r (Success False) s
      | Inr ids \<Rightarrow> await (RevokeTold r origin toRevoke ids) s)"

definition revoke_told :: "io \<Rightarrow> nat \<Rightarrow> string \<Rightarrow> nat list \<Rightarrow> nat list \<Rightarrow> background \<Rightarrow> background" where
  "revoke_told e r origin toRevoke ids s =
     (if \<not> io_tabs e then respond r (Success False) s
      else respond r (Success True)
             (s\<lparr>bk_out := bk_out s @ map (RevokedEvent origin) toRevoke @ [AllowedDevicesChanged origin ids]\<rparr>))"

definition revoke_session ::
    "io \<Rightarrow> nat \<Rightarrow> string \<Rightarrow> nat list \<Rightarrow> nat \<times> string \<Rightarrow> (nat \<times> string) list \<Rightarrow> nat list \<Rightarrow> grant_group list
       \<Rightarrow> background \<Rightarrow> background" where
  "revoke_session e r origin devices session rest toRevoke groups s =
     (case session of (dev, tok) \<Rightarrow>
        let b = (case getDeviceSessionOwner dev tok (own s) of
                   None \<Rightarrow> own s
                 | Some owner \<Rightarrow> unregisterDeviceTab dev (Some (owner_tabId owner)) (own s))
        in close_via_host e dev tok (RevokeClosing r origin devices rest toRevoke groups) (set_own b s))"

definition revoke_next ::
    "io \<Rightarrow> nat \<Rightarrow> string \<Rightarrow> nat list \<Rightarrow> (nat \<times> string) list \<Rightarrow> nat list \<Rightarrow> grant_group list
       \<Rightarrow> background \<Rightarrow> background" where
  "revoke_next e r origin devices sessions toRevoke groups s =
     (case sessions of
        session # rest \<Rightarrow> revoke_session e r origin devices session rest toRevoke groups s
      | [] \<Rightarrow>
          (case devices of
             [] \<Rightarrow> revoke_done e r origin toRevoke groups s
           | dev # others \<Rightarrow>
               (case removeAllowedDevice (io_db e) origin dev (bk_db s) of
                  Inl _ \<Rightarrow> respond r (Success False) s
                | Inr db \<Rightarrow>
                    let s1 = s\<lparr>bk_db := removeDeviceInfo (io_db e) dev db\<rparr>
                    in case collectDeviceSessionsForOrigin dev origin (own s1) of
                         [] \<Rightarrow> await (RevokeNext r origin others [] toRevoke groups) s1
                       | tok # rest \<Rightarrow>
                           revoke_session e r origin others (dev, tok) (map (Pair dev) rest) toRevoke groups s1)))"

section \<open>Tasks\<close>

text \<open>The promises a task waits for.\<close>

fun task_promises :: "task \<Rightarrow> nat list" where
  "task_promises (OpenAnswered r req tab frame p) = [p]"
| "task_promises (OpenAborted r cr status p) = [p]"
| "task_promises (CloseAnswered r req tab p) = [p]"
| "task_promises (CleanupAnswered r cr p) = [p]"
| "task_promises (PurgeAnswered cr p) = [p]"
| "task_promises (FrameDestroyedJoin r fr sender ps) = ps"
| "task_promises (Forwarded r p) = [p]"
| "task_promises (FeatureAnswered r p) = [p]"
| "task_promises (EnumerateAnswered r hasFilter p) = [p]"
| "task_promises (PairedAnswered r origin p) = [p]"
| "task_promises (StatusAnswered r p) = [p]"
| "task_promises (CacheAnswered r p) = [p]"
| "task_promises (RevokeClosing r origin devices sessions toRevoke groups cr p) = [p]"
| "task_promises _ = []"

definition task_ready :: "background \<Rightarrow> task \<Rightarrow> bool" where
  "task_ready s t \<longleftrightarrow> (\<forall>p \<in> set (task_promises t). outcome_of p s \<noteq> None)"

abbreviation settled_as :: "background \<Rightarrow> nat \<Rightarrow> nm_outcome" where
  "settled_as s p \<equiv> the (outcome_of p s)"

fun run_task :: "io \<Rightarrow> task \<Rightarrow> background \<Rightarrow> background" where
  "run_task e (OpenAllowed r req tab frame) s = open_allowed e r req tab frame s"
| "run_task e (OpenAnswered r req tab frame p) s = open_answered r req tab frame (settled_as s p) s"
| "run_task e (OpenRechecked r req tab frame m) s = open_rechecked e r req tab frame m s"
| "run_task e (OpenAborted r cr status p) s =
     respond r (Status status) (snd (close_answered cr (settled_as s p) s))"
| "run_task e (CloseAnswered r req tab p) s = device_closed r req tab (settled_as s p) s"
| "run_task e (CleanupAnswered r cr p) s =
     (case close_answered cr (settled_as s p) s of
        (confirmed, s1) \<Rightarrow> respond r (Status (if confirmed then 204 else 503)) s1)"
| "run_task e (PurgeAnswered cr p) s = snd (close_answered cr (settled_as s p) s)"
| "run_task e (FrameDestroyedJoin r fr sender ps) s = frame_destroyed r fr sender s"
| "run_task e (Forwarded r p) s = forwarded r (settled_as s p) s"
| "run_task e (FeatureAnswered r p) s = feature_answered r (settled_as s p) s"
| "run_task e (EnumerateAnswered r hasFilter p) s = enumerate_answered e r hasFilter (settled_as s p) s"
| "run_task e (PairedAnswered r origin p) s = paired_answered r origin (settled_as s p) s"
| "run_task e (PairedFiltered r origin m) s = paired_filtered e r origin m s"
| "run_task e (StatusAnswered r p) s = status_answered r (settled_as s p) s"
| "run_task e (CacheAnswered r p) s = cache_answered e r (settled_as s p) s"
| "run_task e (RevokeNext r origin devices sessions toRevoke groups) s =
     revoke_next e r origin devices sessions toRevoke groups s"
| "run_task e (RevokeClosing r origin devices sessions toRevoke groups cr p) s =
     revoke_next e r origin devices sessions toRevoke groups (snd (close_answered cr (settled_as s p) s))"
| "run_task e (RevokeRead r origin toRevoke) s = revoke_read e r origin toRevoke s"
| "run_task e (RevokeTold r origin toRevoke ids) s = revoke_told e r origin toRevoke ids s"
| "run_task e (GrantStored r unpaired origin) s = grant_stored e r unpaired origin s"
| "run_task e (GrantRead r pairing origin ids) s = grant_read e r pairing origin ids s"

definition run_ready_task :: "io \<Rightarrow> nat \<Rightarrow> background \<Rightarrow> background" where
  "run_ready_task e i s =
     (if i < length (bk_tasks s) \<and> task_ready s (bk_tasks s ! i)
      then run_task e (bk_tasks s ! i) (s\<lparr>bk_tasks := take i (bk_tasks s) @ drop (Suc i) (bk_tasks s)\<rparr>)
      else s)"

section \<open>Steps\<close>

datatype action =
    Enumerate | EnumeratePaired | Handshake | GetBackendStatus | RecordGrantGroup nat | GetGrantGroups
  | Open | Close | FrameGone string | RevokeDevice | CleanupSession | SetDataPlane
  | SendReport | ReceiveFeatureReport | SendFeatureReport
  | GetPairedDevices | PairDevice | UnpairDevice | GetAllowedDevices
  | GetDeviceCache | GetDeviceInfo string

fun handle :: "io \<Rightarrow> action \<Rightarrow> nat \<Rightarrow> bg_request \<Rightarrow> frame_request \<Rightarrow> frame_sender \<Rightarrow> background \<Rightarrow> background" where
  "handle e Enumerate r req fr sender s = handleEnumerate e r req s"
| "handle e EnumeratePaired r req fr sender s = handleEnumeratePaired e r req s"
| "handle e Handshake r req fr sender s = handleHandshake e r s"
| "handle e GetBackendStatus r req fr sender s = handleGetBackendStatus e r s"
| "handle e (RecordGrantGroup now) r req fr sender s = handleRecordGrantGroup e now r req s"
| "handle e GetGrantGroups r req fr sender s = handleGetGrantGroups e r req s"
| "handle e Open r req fr sender s = handleOpen r req sender s"
| "handle e Close r req fr sender s = handleClose e r req sender s"
| "handle e (FrameGone frameKey) r req fr sender s = handleFrameDestroyed e r frameKey fr sender s"
| "handle e RevokeDevice r req fr sender s = handleRevokeDevice e r req s"
| "handle e CleanupSession r req fr sender s = handleCleanupSession e r req s"
| "handle e SetDataPlane r req fr sender s = handleSetDataPlane e r req sender s"
| "handle e SendReport r req fr sender s = handleSendReport e r req sender s"
| "handle e ReceiveFeatureReport r req fr sender s = handleReceiveFeatureReport e r req sender s"
| "handle e SendFeatureReport r req fr sender s = handleSendFeatureReport e r req sender s"
| "handle e GetPairedDevices r req fr sender s = handleGetPairedDevices e r req s"
| "handle e PairDevice r req fr sender s = handlePairDevice e r req s"
| "handle e UnpairDevice r req fr sender s = handleUnpairDevice e r req s"
| "handle e GetAllowedDevices r req fr sender s = handleGetAllowedDevices e r req s"
| "handle e GetDeviceCache r req fr sender s = handleGetDeviceCache e r s"
| "handle e (GetDeviceInfo ownUrl) r req fr sender s = handleGetDeviceInfo e ownUrl r req sender s"

text \<open>What happens to the background: a message, the continuation of a handler, an event of the
  native client, and the events that make it close sessions on its own.\<close>

datatype bk_event =
    Message io action nat bg_request frame_request frame_sender
  | RunTask io nat
  | NativeEvent nm_event
  | BridgeGone io "nat option" string
  | TabGone io nat
  | OrphanRetry io

definition native_only :: "nm_event \<Rightarrow> bool" where
  "native_only e \<longleftrightarrow> (case e of OwnershipChanged _ \<Rightarrow> False | _ \<Rightarrow> True)"

fun bk_step :: "bk_event \<Rightarrow> background \<Rightarrow> background" where
  "bk_step (Message e a r req fr sender) s = handle e a r req fr sender s"
| "bk_step (RunTask e i) s = run_ready_task e i s"
| "bk_step (NativeEvent ev) s = (if native_only ev then s\<lparr>bk_nm := nm_step ev (bk_nm s)\<rparr> else s)"
| "bk_step (BridgeGone e tabId bridge) s = bridge_disconnected e tabId bridge s"
| "bk_step (TabGone e tabId) s = tab_removed e tabId s"
| "bk_step (OrphanRetry e) s = orphan_retry e s"

end
