(* ===== verification/Message_Moves.thy ===== *)
theory Message_Moves
  imports Messages
begin

text \<open>
  What the handlers of \<open>messages.js\<close> and their continuations can add to the state: which messages
  they answer or leave waiting, which sessions and usable devices they add to the ownership state,
  which grants they add to the database.  One lemma per handler, then one invariant for every run
  (\<open>bk_inv\<close>), with the native client's own invariant of its requests as a part of it.
\<close>

section \<open>What an operation can add\<close>

text \<open>The sessions of a state, and the devices each tab may use.\<close>

definition sessions :: "bg_state \<Rightarrow> (nat \<times> string \<times> session_owner) set" where
  "sessions b = {(dev, tok, owner). session_of b dev tok = Some owner}"

definition usable :: "bg_state \<Rightarrow> (nat \<times> nat) set" where
  "usable b = {(tab, dev). isTabAuthorizedForDevice (Some tab) dev b}"

definition tabs_lose :: "bg_state \<Rightarrow> bg_state \<Rightarrow> bool" where
  "tabs_lose b b' \<longleftrightarrow> (tabs_wf b \<longrightarrow> tabs_wf b' \<and> usable b' \<subseteq> usable b)"

lemma tabs_lose_refl: "deviceTabMap b' = deviceTabMap b \<Longrightarrow> tabs_lose b b'"
  by (simp add: tabs_lose_def tabs_wf_def usable_def isTabAuthorizedForDevice_def)

lemma tabs_lose_trans: "tabs_lose b b' \<Longrightarrow> tabs_lose b' b'' \<Longrightarrow> tabs_lose b b''"
  by (auto simp: tabs_lose_def)

lemma usable_count: "(tab, dev) \<in> usable b \<longleftrightarrow> (\<exists>n. tab_count b dev tab = Some n \<and> n > 0)"
  by (auto simp: usable_def isTabAuthorizedForDevice_def split: option.splits)

lemma unregister_tab_loses: "tabs_lose b (unregisterDeviceTab dev tab b)"
  unfolding tabs_lose_def
proof (intro impI conjI subrelI)
  fix t d
  assume wf: "tabs_wf b" and "(t, d) \<in> usable (unregisterDeviceTab dev tab b)"
  then show "(t, d) \<in> usable b"
    by (auto simp: usable_count unregisterDeviceTab_def Let_def tabs_wf_def nested.get_put nested.get_remove
        split: option.splits if_splits)
qed (rule tab_operations_wf)

lemma drop_empty_loses: "tabs_lose b (drop_empty_tabs dev b)"
  unfolding tabs_lose_def
  by (auto simp: tab_operations_wf) (auto simp: usable_count drop_empty_tabs_def map2_simps tabs_wf_def
      split: if_splits)

lemma purge_tab_device_loses: "tabs_lose b (fst (purge_tab_device tab dev (b, closes)))"
  by (auto simp: tabs_lose_def purge_tab_device_def tabs_wf_def usable_count nested.get_remove
      nested.inv_remove split: if_splits)

text \<open>A loop over a state and the closes it started.\<close>

lemma fold_loses:
  assumes "\<And>x r. tabs_lose (fst r) (fst (f x r))"
  shows "tabs_lose (fst r) (fst (fold f xs r))"
proof (induction xs arbitrary: r)
  case (Cons x xs)
  then show ?case using tabs_lose_trans [OF assms Cons.IH] by simp
qed (simp add: tabs_lose_refl)

lemma purge_device_loses: "tabs_lose (fst r) (fst (purge_device tab tokens dev r))"
proof (cases r)
  case (Pair b closes)
  have one: "tabs_lose (fst r) (fst (purge_token dev tab tok r))" for r tok
    by (cases r) (simp add: purge_token_def Let_def unregister_tab_loses)
  obtain b1 c1 where f: "fold (purge_token dev tab) (tokens b) (b, closes) = (b1, c1)" by fastforce
  from fold_loses [where f = "purge_token dev tab", OF one, of "(b, closes)" "tokens b"]
  have "tabs_lose b b1" by (simp add: f)
  with Pair f show ?thesis
    by (simp add: purge_device_def tabs_lose_trans [OF _ drop_empty_loses])
qed

lemma purges_lose:
  "tabs_lose b (fst (purgeFrame tabId key b))" "tabs_lose b (fst (purgeBridge tabId bridge b))"
  "tabs_lose b (fst (purgeTab tabId b))" "tabs_lose b (fst (retryOrphanCleanup b))"
proof -
  have devices: "tabs_lose b (fst (fold (\<lambda>dev. purge_device tab (tokens dev) dev) devs (b', [])))"
    if "deviceTabMap b' = deviceTabMap b" for b' tab tokens devs
    using fold_loses [where f = "\<lambda>dev. purge_device tab (tokens dev) dev", OF purge_device_loses, of "(b', [])" devs]
      tabs_lose_trans [OF tabs_lose_refl [OF that]] by simp
  show "tabs_lose b (fst (purgeFrame tabId key b))"
    by (auto simp: purgeFrame_def Let_def tabs_lose_refl intro!: devices split: option.split)
  show "tabs_lose b (fst (purgeBridge tabId bridge b))"
    by (auto simp: purgeBridge_def Let_def tabs_lose_refl intro!: devices split: option.split)
  show "tabs_lose b (fst (retryOrphanCleanup b))"
    by (simp add: retryOrphanCleanup_def tabs_lose_refl)
  show "tabs_lose b (fst (purgeTab tabId b))"
  proof (cases tabId)
    case (Some tab)
    obtain b' closes where f: "fold (purge_tab_device tab) (known_devices b) (b, []) = (b', closes)" by fastforce
    have "tabs_lose (fst r) (fst (purge_tab_device tab dev r))" for dev r
      by (cases r) (simp add: purge_tab_device_loses)
    from fold_loses [where f = "purge_tab_device tab", OF this, of "(b, [])" "known_devices b"]
    have "tabs_lose b b'" by (simp add: f)
    then have "tabs_lose b (b'\<lparr>frameLifetimes := map_delete (frameLifetimes b') tab\<rparr>)"
      by (rule tabs_lose_trans) (simp add: tabs_lose_refl)
    then show ?thesis by (simp add: purgeTab_def Some f)
  qed (simp add: purgeTab_def tabs_lose_refl)
qed

text \<open>The operations that only lose.\<close>

definition own_loses :: "bg_state \<Rightarrow> bg_state \<Rightarrow> bool" where
  "own_loses b b' \<longleftrightarrow> (bg_wf b \<longrightarrow> bg_wf b' \<and> sessions b' \<subseteq> sessions b \<and> usable b' \<subseteq> usable b)"

lemma own_loses_refl [simp]: "own_loses b b"
  by (simp add: own_loses_def)

lemma own_loses_trans: "own_loses b b' \<Longrightarrow> own_loses b' b'' \<Longrightarrow> own_loses b b''"
  by (auto simp: own_loses_def)

lemma own_losesI:
  assumes "bg_wf b \<Longrightarrow> step_ok b (b', closes)" "tabs_lose b b'"
  shows "own_loses b b'"
  using assms
  by (auto simp: own_loses_def step_ok_def shrinks_def sessions_def tabs_lose_def dest: bg_wfD(1))

lemma own_loses_purges:
  "own_loses b (fst (purgeFrame tabId key b))" "own_loses b (fst (purgeBridge tabId bridge b))"
  "own_loses b (fst (purgeTab tabId b))" "own_loses b (fst (retryOrphanCleanup b))"
proof -
  have *: "own_loses b (fst r)" if "bg_wf b \<Longrightarrow> step_ok b r" "tabs_lose b (fst r)" for r
    by (rule own_losesI [where closes = "snd r"]) (simp_all add: that)
  show "own_loses b (fst (purgeFrame tabId key b))" "own_loses b (fst (purgeBridge tabId bridge b))"
    "own_loses b (fst (purgeTab tabId b))" "own_loses b (fst (retryOrphanCleanup b))"
    by (intro * operations_ok purges_lose; assumption)+
qed

lemma own_loses_operations:
  "own_loses b (unregisterDeviceTab dev tab b)" "own_loses b (unregisterDeviceSession dev tok b)"
  "own_loses b (snd (finish_close cr x b))" "own_loses b (snd (registerFrameLifetime tab key b))"
  "own_loses b (clearAuthorityOwnership b)" "own_loses b (clearDeviceOwnership dev b)"
proof -
  show "own_loses b (unregisterDeviceTab dev tab b)"
    by (rule own_losesI [where closes = "[]"]) (simp_all add: operations_ok unregister_tab_loses)
  show "own_loses b (unregisterDeviceSession dev tok b)" "own_loses b (snd (finish_close cr x b))"
    "own_loses b (snd (registerFrameLifetime tab key b))"
    by (rule own_losesI [where closes = "[]"]; simp add: operations_ok tabs_lose_refl)+
  have "tabs_lose b (clearAuthorityOwnership b)" "tabs_lose b (clearDeviceOwnership dev b)"
    by (auto simp: tabs_lose_def tabs_wf_def usable_count clearAuthorityOwnership_def
        clearDeviceOwnership_def map2_get_deleteall js_map_simps intro: js_wf_intros split: if_splits)
  then show "own_loses b (clearAuthorityOwnership b)" "own_loses b (clearDeviceOwnership dev b)"
    by (auto intro!: own_losesI [where closes = "[]"] operations_ok)
qed

section \<open>The native client\<close>

text \<open>The events of the native client leave the ownership state alone, or clear it.\<close>

abbreviation nm_own :: "nm_state \<Rightarrow> bg_state" where
  "nm_own s \<equiv> bg_st (nm_bg s)"

lemma connecting_bg [simp]:
  "nm_bg (nm_connect native_ok s) = nm_bg s" "nm_bg (nm_scheduleReconnect s) = nm_bg s"
  "nm_bg (emit es s) = nm_bg s" "nm_bg (settle_all x s) = nm_bg s" "nm_bg (bump_delay s) = nm_bg s"
  "nm_bg (reset_delay s) = nm_bg s" "nm_bg (snd (new_promise s)) = nm_bg s"
  "nm_bg (settle_promise p x s) = nm_bg s"
  by (simp_all add: nm_connect_def nm_scheduleReconnect_def emit_def settle_all_eq bump_delay_def
      reset_delay_def new_promise_def settle_promise_def)

lemma sendFrame_bg [simp]: "nm_bg (snd (sendFrame build native_ok post_ok s)) = nm_bg s"
  by (auto simp: sendFrame_def new_promise_def Let_def split: option.split sum.split)

lemma retirePort_loses: "own_loses (nm_own s) (nm_own (snd (retirePort port s)))"
  by (simp add: retirePort_def Let_def own_loses_operations)

lemma deliver_report_bg [simp]: "nm_bg (deliver_report broken targets deviceId r s) = nm_bg s"
  by (cases r) (simp add: deliver_report_def Let_def)

lemma onPackedData_bg [simp]: "nm_bg (onPackedData broken b64 s) = nm_bg s"
proof -
  have "nm_bg (fold (deliver_report broken targets deviceId) rs s) = nm_bg s" for targets deviceId rs
    by (induction rs arbitrary: s) auto
  then show ?thesis by (simp add: onPackedData_def Let_def split: sum.split option.split)
qed

lemma onControlEvent_loses: "own_loses (nm_own s) (nm_own (onControlEvent native_ok post_ok m s))"
proof -
  have "nm_bg (cache_add v s) = nm_bg s" "nm_bg (cache_remove i s) = nm_bg s"
      "nm_bg (request_refresh native_ok post_ok s) = nm_bg s" for v i
    by (simp_all add: cache_add_def cache_remove_def request_refresh_def split_beta)
  then show ?thesis
    by (auto simp: onControlEvent_def handleDeviceConnectionEvent_def Let_def own_loses_operations
        split: option.split)
qed

lemma handleNativeMessage_loses:
  "own_loses (nm_own s) (nm_own (handleNativeMessage broken native_ok post_ok m s))"
proof -
  have same: "nm_bg (snd (tryPendingResponse m s)) = nm_bg s" "nm_bg (snd (tryHostError m s)) = nm_bg s"
    by (auto simp: tryPendingResponse_def tryHostError_def settle_entry_def split: option.split)
  with onControlEvent_loses [of s native_ok post_ok m] show ?thesis
    by (auto simp: handleNativeMessage_def tryPackedData_def tryControlEvent_def
        split: prod.split bool.split option.split)
qed

lemma nm_step_loses:
  assumes "native_only ev"
  shows "own_loses (nm_own s) (nm_own (nm_step ev s))"
proof (cases ev)
  case (PortGone port)
  with retirePort_loses [of s port] show ?thesis
    by (auto simp: portDisconnected_def split: prod.split bool.split)
next
  case (NewHost host native_ok)
  with retirePort_loses [of "s\<lparr>nm_hostName := host\<rparr>"] show ?thesis
    by (auto simp: reconnectWithNewHost_def Let_def split: option.split)
next
  case (OwnershipChanged e)
  with assms show ?thesis by (simp add: native_only_def)
qed (auto simp: reconnectTimerFired_def handleNativeMessage_loses deadlineFired_def refreshAnswered_def
    Let_def split: option.split nm_outcome.split)

section \<open>Moves\<close>

text \<open>The message a task still has to answer, and the open it belongs to.\<close>

fun task_reply :: "task \<Rightarrow> nat list" where
  "task_reply (OpenAllowed r req tab frame) = [r]"
| "task_reply (OpenAnswered r req tab frame p) = [r]"
| "task_reply (OpenRechecked r req tab frame m) = [r]"
| "task_reply (OpenAborted r cr status p) = [r]"
| "task_reply (CloseAnswered r req tab p) = [r]"
| "task_reply (CleanupAnswered r cr p) = [r]"
| "task_reply (PurgeAnswered cr p) = []"
| "task_reply (FrameDestroyedJoin r fr sender ps) = [r]"
| "task_reply (Forwarded r p) = [r]"
| "task_reply (FeatureAnswered r p) = [r]"
| "task_reply (EnumerateAnswered r hasFilter p) = [r]"
| "task_reply (PairedAnswered r origin p) = [r]"
| "task_reply (PairedFiltered r origin m) = [r]"
| "task_reply (StatusAnswered r p) = [r]"
| "task_reply (CacheAnswered r p) = [r]"
| "task_reply (RevokeNext r origin devices toks toRevoke groups) = [r]"
| "task_reply (RevokeClosing r origin devices toks toRevoke groups cr p) = [r]"
| "task_reply (RevokeRead r origin toRevoke) = [r]"
| "task_reply (RevokeTold r origin toRevoke ids) = [r]"
| "task_reply (GrantStored r unpaired origin) = [r]"
| "task_reply (GrantRead r pairing origin ids) = [r]"

fun open_of :: "task \<Rightarrow> (bg_request \<times> nat \<times> string) set" where
  "open_of (OpenAllowed r req tab frame) = {(req, tab, frame)}"
| "open_of (OpenAnswered r req tab frame p) = {(req, tab, frame)}"
| "open_of (OpenRechecked r req tab frame m) = {(req, tab, frame)}"
| "open_of _ = {}"

definition waiting_replies :: "task list \<Rightarrow> nat list" where
  "waiting_replies ts = concat (map task_reply ts)"

text \<open>A move adds tasks and replies for the messages \<open>R\<close>, open tasks of \<open>O\<close>, sessions of \<open>G\<close>,
  usable devices of \<open>T\<close> and grants of \<open>D\<close>, and nothing else of these.\<close>

definition task_ok :: "nm_state \<Rightarrow> (bg_request \<times> nat \<times> string) set \<Rightarrow> task \<Rightarrow> bool" where
  "task_ok nm opens t \<longleftrightarrow> set (task_promises t) \<subseteq> set (nm_issued nm) \<and> open_of t \<subseteq> opens"

definition moves where
  "moves R opens G T D s s' \<longleftrightarrow>
     (\<exists>ts rs. bk_tasks s' = bk_tasks s @ ts \<and> bk_replies s' = bk_replies s @ rs
        \<and> mset (waiting_replies ts) + mset (map fst rs) = mset R
        \<and> list_all (task_ok (bk_nm s') opens) ts)
     \<and> req_step (bk_nm s) (bk_nm s')
     \<and> (bg_wf (own s) \<longrightarrow> bg_wf (own s') \<and> sessions (own s') \<subseteq> sessions (own s) \<union> G
          \<and> usable (own s') \<subseteq> usable (own s) \<union> T)
     \<and> grants (bk_db s') \<subseteq> grants (bk_db s) \<union> D"

abbreviation plain :: "nat list \<Rightarrow> background \<Rightarrow> background \<Rightarrow> bool" where
  "plain R s s' \<equiv> moves R {} {} {} {} s s'"

lemma task_ok_later: "task_ok nm opens t \<Longrightarrow> req_step nm nm' \<Longrightarrow> opens \<subseteq> opens' \<Longrightarrow> task_ok nm' opens' t"
  by (auto simp: task_ok_def req_step_def dest!: set_mono_prefix)

lemma moves_trans:
  assumes "moves R1 O1 G1 T1 D1 s s1" "moves R2 O2 G2 T2 D2 s1 s2"
  shows "moves (R1 @ R2) (O1 \<union> O2) (G1 \<union> G2) (T1 \<union> T2) (D1 \<union> D2) s s2"
proof -
  obtain ts1 rs1 where 1: "bk_tasks s1 = bk_tasks s @ ts1" "bk_replies s1 = bk_replies s @ rs1"
    "mset (waiting_replies ts1) + mset (map fst rs1) = mset R1" "list_all (task_ok (bk_nm s1) O1) ts1"
    using assms(1) unfolding moves_def by blast
  obtain ts2 rs2 where 2: "bk_tasks s2 = bk_tasks s1 @ ts2" "bk_replies s2 = bk_replies s1 @ rs2"
    "mset (waiting_replies ts2) + mset (map fst rs2) = mset R2" "list_all (task_ok (bk_nm s2) O2) ts2"
    using assms(2) unfolding moves_def by blast
  have step: "req_step (bk_nm s1) (bk_nm s2)" using assms(2) unfolding moves_def by blast
  have "\<exists>ts rs. bk_tasks s2 = bk_tasks s @ ts \<and> bk_replies s2 = bk_replies s @ rs
      \<and> mset (waiting_replies ts) + mset (map fst rs) = mset (R1 @ R2)
      \<and> list_all (task_ok (bk_nm s2) (O1 \<union> O2)) ts"
    using 1 2 task_ok_later [OF _ step, of O1 _ "O1 \<union> O2"] task_ok_later [OF _ req_step_refl [OF refl], of _ O2 _ "O1 \<union> O2"]
    by (intro exI [of _ "ts1 @ ts2"] exI [of _ "rs1 @ rs2"])
      (auto simp: waiting_replies_def list_all_iff simp flip: 1(3) 2(3))
  moreover have "req_step (bk_nm s) (bk_nm s2)"
    using assms req_step_trans unfolding moves_def by blast
  moreover have "bg_wf (own s) \<longrightarrow> bg_wf (own s2) \<and> sessions (own s2) \<subseteq> sessions (own s) \<union> (G1 \<union> G2)
      \<and> usable (own s2) \<subseteq> usable (own s) \<union> (T1 \<union> T2)"
    using assms unfolding moves_def by blast
  moreover have "grants (bk_db s2) \<subseteq> grants (bk_db s) \<union> (D1 \<union> D2)"
    using assms unfolding moves_def by blast
  ultimately show ?thesis unfolding moves_def by blast
qed

text \<open>A step that leaves the tasks and the replies alone.\<close>

lemma movesI:
  assumes "bk_tasks s' = bk_tasks s" "bk_replies s' = bk_replies s" "req_step (bk_nm s) (bk_nm s')"
    "own_loses (own s) (own s')" "grants (bk_db s') \<subseteq> grants (bk_db s)"
  shows "plain [] s s'"
  using assms by (simp add: moves_def waiting_replies_def own_loses_def)

lemma moves_refl: "plain [] s s"
  by (rule movesI) (simp_all add: req_step_refl)

lemma moves_then:
  assumes "moves R opens G T D s s1" "plain R' s1 s2"
  shows "moves (R @ R') opens G T D s s2"
  using moves_trans [OF assms] by simp

lemma respond_move: "plain [r] s (respond r x s)"
  by (simp add: moves_def respond_def waiting_replies_def req_step_refl)

lemma await_move:
  assumes "task_ok (bk_nm s) opens t"
  shows "moves (task_reply t) opens {} {} {} s (await t s)"
  using assms by (simp add: moves_def await_def waiting_replies_def req_step_refl)

lemma set_own_move: "own_loses (own s) b \<Longrightarrow> plain [] s (set_own b s)"
  by (rule movesI) (simp_all add: set_own_def req_step_refl)

lemma sendFrame_issues:
  "sendFrame build native_ok post_ok s = (p, s') \<Longrightarrow> p \<in> set (nm_issued s')"
proof -
  assume eq: "sendFrame build native_ok post_ok s = (p, s')"
  have "nm_issued (nm_connect native_ok t) = nm_issued t" for t
    using req_part_simps(5) [of native_ok t] by (simp add: req_part_def)
  with eq show ?thesis
    by (auto simp: sendFrame_def new_promise_def Let_def settle_promise_def emit_def
        split: option.splits sum.splits if_splits)
qed

lemma ask_move:
  assumes "\<And>p. task_promises (task p) = [p]" "\<And>p. task_reply (task p) = R" "\<And>p. open_of (task p) \<subseteq> opens"
  shows "moves R opens {} {} {} s (ask e body task s)"
proof -
  obtain p nm where send: "sendFrame (build_body body) (io_connect e) (io_post e) (bk_nm s) = (p, nm)"
    by fastforce
  have "req_step (bk_nm s) nm" "nm_bg nm = nm_bg (bk_nm s)"
    using sendFrame_step [of "bk_nm s" "build_body body" "io_connect e" "io_post e"]
      sendFrame_bg [of "build_body body" "io_connect e" "io_post e" "bk_nm s"] by (simp_all add: send)
  then have "plain [] s (s\<lparr>bk_nm := nm\<rparr>)" by (intro movesI) simp_all
  moreover have "moves R opens {} {} {} (s\<lparr>bk_nm := nm\<rparr>) (await (task p) (s\<lparr>bk_nm := nm\<rparr>))"
    using await_move [of "s\<lparr>bk_nm := nm\<rparr>" opens "task p"] sendFrame_issues [OF send] assms
    by (simp add: task_ok_def)
  ultimately show ?thesis using moves_trans by (fastforce simp: ask_def send)
qed

lemma respond_then: "plain [] s s1 \<Longrightarrow> plain [r] s (respond r x s1)"
  using moves_then [OF _ respond_move] by fastforce

lemma ask_then:
  assumes "plain [] s s1"
    and "\<And>p. task_promises (task p) = [p]" "\<And>p. task_reply (task p) = R" "\<And>p. open_of (task p) \<subseteq> opens"
  shows "moves R opens {} {} {} s (ask e body task s1)"
  using moves_trans [OF assms(1) ask_move [OF assms(2-4)]] by simp

lemma await_then:
  assumes "plain [] s s1" "task_ok (bk_nm s1) opens t" "task_reply t = R"
  shows "moves R opens {} {} {} s (await t s1)"
  using moves_trans [OF assms(1) await_move [OF assms(2)]] assms(3) by simp

lemma same_db_move:
  "plain [] s (s\<lparr>bk_lastHidPermission := p\<rparr>)" "plain [] s (s\<lparr>bk_policy := pol\<rparr>)" "plain [] s (s\<lparr>bk_out := out\<rparr>)"
  "plain [] s (note_permission m s)"
  by (auto intro!: movesI simp: req_step_refl note_permission_def split: option.split)

lemma db_move:
  "grants db \<subseteq> grants (bk_db s) \<Longrightarrow> plain [] s (s\<lparr>bk_db := db\<rparr>)"
  "grants db \<subseteq> grants (bk_db s) \<Longrightarrow> plain [] s (s\<lparr>bk_db := db, bk_out := out\<rparr>)"
  "grants db \<subseteq> grants (bk_db s) \<Longrightarrow> plain [] s (notifyAllowedDevicesChanged origin ids (s\<lparr>bk_db := db\<rparr>))"
  by (auto intro!: movesI simp: req_step_refl notifyAllowedDevicesChanged_def)

lemma refresh_move: "plain [] s (refreshDeviceCache ok ds s)"
  by (rule movesI) (simp_all add: refreshDeviceCache_def Let_def req_step_refl)

lemmas move_intros = moves_refl respond_then ask_then await_then same_db_move db_move refresh_move set_own_move
  own_loses_operations

lemma close_answered_move: "plain [] s (snd (close_answered cr x s))"
  using own_loses_operations(3) [of "own s" cr "close_result_of x"]
  by (auto simp: close_answered_def split: prod.split intro!: set_own_move)

text \<open>The closes a purge starts.\<close>

lemma start_purge_close_move:
  assumes "start_purge_close e cr (s, ps) = (s', ps')"
  shows "plain [] s s' \<and> (set ps \<subseteq> set (nm_issued (bk_nm s)) \<longrightarrow> set ps' \<subseteq> set (nm_issued (bk_nm s')))"
proof -
  let ?body = "PlainBody (close_device_request (close_device cr) (close_token cr))"
  obtain p nm where send: "sendFrame (build_body ?body) (io_connect e) (io_post e) (bk_nm s) = (p, nm)"
    by fastforce
  have s': "s' = ask e ?body (PurgeAnswered cr) s" "ps' = ps @ [p]" "bk_nm s' = nm"
    using assms send by (auto simp: start_purge_close_def ask_def await_def)
  have "req_step (bk_nm s) nm"
    using sendFrame_step [of "bk_nm s" "build_body ?body" "io_connect e" "io_post e"]
    by (simp only: send snd_conv)
  then have "set (nm_issued (bk_nm s)) \<subseteq> set (nm_issued nm)" by (auto simp: req_step_def dest: set_mono_prefix)
  then show ?thesis using s' sendFrame_issues [OF send] by (auto intro!: ask_then moves_refl)
qed

lemma start_purge_closes_move:
  assumes "fold (start_purge_close e) closes (s, ps) = (s', ps')"
  shows "plain [] s s' \<and> (set ps \<subseteq> set (nm_issued (bk_nm s)) \<longrightarrow> set ps' \<subseteq> set (nm_issued (bk_nm s')))"
  using assms
proof (induction closes arbitrary: s ps)
  case Nil
  then show ?case by (simp add: moves_refl)
next
  case (Cons cr closes)
  obtain s1 ps1 where one: "start_purge_close e cr (s, ps) = (s1, ps1)" by fastforce
  with Cons.prems have rest: "fold (start_purge_close e) closes (s1, ps1) = (s', ps')" by simp
  from start_purge_close_move [OF one] Cons.IH [OF rest] show ?case
    using moves_then [of "[]" "{}" "{}" "{}" "{}" s s1 "[]" s'] by simp
qed

lemma purging_move:
  assumes "own_loses (own s) b" "fold (start_purge_close e) closes (set_own b s, []) = (s', ps)"
  shows "plain [] s s'" "set ps \<subseteq> set (nm_issued (bk_nm s'))"
  using start_purge_closes_move [OF assms(2)] moves_then [OF set_own_move [OF assms(1)], of "[]" s']
  by simp_all

lemma handleFrameDestroyed_move: "plain [r] s (handleFrameDestroyed e r frameKey fr sender s)"
proof -
  obtain b closes where purge: "purgeFrame (sender_tabId sender) frameKey (own s) = (b, closes)" by fastforce
  obtain s1 ps where run: "fold (start_purge_close e) closes (set_own b s, []) = (s1, ps)" by fastforce
  have loses: "own_loses (own s) b"
    using own_loses_purges(1) [of "own s" "sender_tabId sender" frameKey] by (simp add: purge)
  from purging_move [OF loses run] show ?thesis
    by (auto simp: handleFrameDestroyed_def purge run task_ok_def intro!: await_then)
qed

lemma background_purges_move:
  "plain [] s (bridge_disconnected e tabId bridge s)" "plain [] s (tab_removed e tab s)"
  "plain [] s (orphan_retry e s)"
proof -
  have purge: "plain [] s (fst (fold (start_purge_close e) (snd r) (set_own (fst r) s, [])))"
    if "own_loses (own s) (fst r)" for r
    using purging_move(1) [OF that] by (metis prod.collapse)
  show "plain [] s (bridge_disconnected e tabId bridge s)"
    using purge [of "purgeBridge tabId bridge (own s)"]
    by (simp add: bridge_disconnected_def moves_refl own_loses_purges split_beta)
  show "plain [] s (tab_removed e tab s)" "plain [] s (orphan_retry e s)"
    using purge [of "purgeTab (Some tab) (own s)"] purge [of "retryOrphanCleanup (own s)"]
    by (simp_all add: tab_removed_def orphan_retry_def own_loses_purges split_beta)
qed

section \<open>Every handler answers, or leaves a task that will\<close>

lemma request_handlers_move:
  "plain [r] s (handleClose e r req sender s)" "plain [r] s (handleSetDataPlane e r req sender s)"
  "plain [r] s (handleSendReport e r req sender s)" "plain [r] s (handleReceiveFeatureReport e r req sender s)"
  "plain [r] s (handleSendFeatureReport e r req sender s)" "plain [r] s (handleCleanupSession e r req s)"
  "plain [r] s (handleEnumerate e r req s)" "plain [r] s (handleEnumeratePaired e r req s)"
  "plain [r] s (handleHandshake e r s)" "plain [r] s (handleGetBackendStatus e r s)"
  "plain [r] s (handleGetDeviceCache e r s)"
  by (auto simp: handleClose_def handleSetDataPlane_def handleSendReport_def handleReceiveFeatureReport_def
      handleSendFeatureReport_def handleCleanupSession_def handleEnumerate_def handleEnumeratePaired_def
      handleHandshake_def handleGetBackendStatus_def handleGetDeviceCache_def close_via_host_def Let_def
      intro!: move_intros)

lemma grant_handlers_move:
  "plain [r] s (handleGetPairedDevices e r req s)" "plain [r] s (handleGetAllowedDevices e r req s)"
  "plain [r] s (handleRecordGrantGroup e now r req s)" "plain [r] s (handleGetGrantGroups e r req s)"
  "plain [r] s (handleRevokeDevice e r req s)" "plain [r] s (handleUnpairDevice e r req s)"
proof -
  show "plain [r] s (handleGetPairedDevices e r req s)" "plain [r] s (handleGetAllowedDevices e r req s)"
    "plain [r] s (handleGetGrantGroups e r req s)"
    by (simp_all add: handleGetPairedDevices_def handleGetAllowedDevices_def handleGetGrantGroups_def
        respond_then moves_refl split: sum.split)
  show "plain [r] s (handleRecordGrantGroup e now r req s)"
    by (simp add: handleRecordGrantGroup_def respond_then moves_refl db_move)
  show "plain [r] s (handleRevokeDevice e r req s)"
    by (auto simp: handleRevokeDevice_def respond_then moves_refl task_ok_def Let_def intro!: await_then)
  have removed: "grants db \<subseteq> grants (bk_db s)"
    if "removeAllowedDevice ok origin dev (bk_db s) = Inr db" for ok origin dev db
    using grants_remove(1) [OF that] by auto
  show "plain [r] s (handleUnpairDevice e r req s)"
    by (auto simp: handleUnpairDevice_def task_ok_def intro!: respond_then await_then moves_refl db_move removed
        split: sum.split)
qed

lemma pair_move:
  "moves [r] {} {} {} {(br_origin req, br_deviceId req)} s (handlePairDevice e r req s)"
proof (cases "addAllowedDevice (io_db e) (br_origin req) (br_deviceId req) (bk_db s)")
  case (Inl err)
  then show ?thesis
    by (auto simp: handlePairDevice_def moves_def respond_def waiting_replies_def req_step_refl)
next
  case (Inr db)
  from grants_add [OF this] Inr show ?thesis
    by (auto simp: handlePairDevice_def moves_def await_def task_ok_def waiting_replies_def req_step_refl)
qed

lemma open_move:
  "moves [r] {(req, tab, request_frame req (Some tab)) |tab. sender_tabId sender = Some tab} {} {} {} s
     (handleOpen r req sender s)"
proof (cases "sender_tabId sender")
  case None
  then show ?thesis by (simp add: handleOpen_def respond_then moves_refl)
next
  case (Some tab)
  let ?frame = "request_frame req (Some tab)"
  obtain alive b where reg: "registerFrameLifetime (Some tab) ?frame (own s) = (alive, b)" by fastforce
  have loses: "own_loses (own s) b"
    using own_loses_operations(4) [of "own s" "Some tab" ?frame] by (simp add: reg)
  show ?thesis
  proof (cases alive)
    case True
    then have "handleOpen r req sender s = await (OpenAllowed r req tab ?frame) (set_own b s)"
      by (simp add: handleOpen_def Some reg Let_def)
    then show ?thesis using Some by (auto simp: task_ok_def intro!: await_then set_own_move [OF loses])
  next
    case False
    have "moves [r] O' {} {} {} s (respond r x s)" for O' x
      by (simp add: moves_def respond_def waiting_replies_def req_step_refl)
    with False show ?thesis by (simp add: handleOpen_def Some reg Let_def)
  qed
qed

section \<open>Every continuation answers, or leaves a task that will\<close>

text \<open>What an open checks last: the grant and the life of the frame.\<close>

definition open_granted :: "io \<Rightarrow> background \<Rightarrow> bg_request \<Rightarrow> nat \<Rightarrow> string \<Rightarrow> bool" where
  "open_granted e s req tab frame \<longleftrightarrow>
     io_db e \<and> (br_origin req, br_deviceId req) \<in> grants (bk_db s) \<and> isFrameLifetimeActive (Some tab) frame (own s)"

definition open_owner :: "bg_request \<Rightarrow> nat \<Rightarrow> string \<Rightarrow> owner_request" where
  "open_owner req tab frame =
     \<lparr>req_tabId = Some tab, req_origin = br_origin req, req_frameKey = frame,
      req_bridgeInstanceId = br_bridgeInstanceId req,
      req_clientKey = (case br_clientKey req of None \<Rightarrow> [] | Some k \<Rightarrow> k)\<rparr>"

fun added_sessions :: "io \<Rightarrow> task \<Rightarrow> background \<Rightarrow> (nat \<times> string \<times> session_owner) set" where
  "added_sessions e (OpenRechecked r req tab frame m) s =
     (if open_granted e s req tab frame
      then {(message_device m, message_token m, recorded_owner (next_ref (own s)) tab (open_owner req tab frame))}
      else {})"
| "added_sessions e _ s = {}"

fun added_usable :: "io \<Rightarrow> task \<Rightarrow> background \<Rightarrow> (nat \<times> nat) set" where
  "added_usable e (OpenRechecked r req tab frame m) s =
     (if open_granted e s req tab frame then {(tab, message_device m)} else {})"
| "added_usable e _ s = {}"

lemma register_session_adds:
  assumes "bg_wf b" "registerDeviceSession dev tok owner b = (ok, b')" "req_tabId owner = Some tab"
  shows "bg_wf b'" "sessions b' \<subseteq> sessions b \<union> {(dev, tok, recorded_owner (next_ref b) tab owner)}"
    "usable b' = usable b"
proof -
  have "world_wf \<lparr>bg_st = b, bg_flight = []\<rparr>" using assms(1) by (simp add: world_wf_def)
  from registerDeviceSession_world_wf [OF this, of dev tok owner] show "bg_wf b'"
    by (simp add: world_wf_def assms(2))
  show "usable b' = usable b"
    using registerDeviceSession_simps(1) [of dev tok owner b]
    by (simp add: assms(2) usable_def isTabAuthorizedForDevice_def)
  show "sessions b' \<subseteq> sessions b \<union> {(dev, tok, recorded_owner (next_ref b) tab owner)}"
    using assms(2,3) bg_wfD(5) [OF assms(1)]
    by (cases rule: registerDeviceSession_cases [of dev tok owner b])
      (auto simp: sessions_def nested.get_put split: if_splits)
qed

lemma register_tab_adds:
  assumes "bg_wf b"
  shows "bg_wf (registerDeviceTab dev (Some tab) b)" "sessions (registerDeviceTab dev (Some tab) b) = sessions b"
    "usable (registerDeviceTab dev (Some tab) b) \<subseteq> usable b \<union> {(tab, dev)}"
  using tab_operations_ok(1) [OF assms, of dev "Some tab"] bg_wfD(6) [OF assms]
  by (auto simp: step_ok_def sessions_def registerDeviceTab_def usable_count nested.get_put split: if_splits)

lemma own_move:
  assumes "bg_wf (own s) \<Longrightarrow> bg_wf b \<and> sessions b \<subseteq> sessions (own s) \<union> G \<and> usable b \<subseteq> usable (own s) \<union> T"
  shows "moves [] {} G T {} s (set_own b s)"
  using assms by (simp add: moves_def set_own_def waiting_replies_def req_step_refl)

lemma moves_weaken:
  "moves R {} {} {} {} s s' \<Longrightarrow> moves R opens G T {} s s'"
  using moves_trans [of "[]" opens G T "{}" s s R "{}" "{}" "{}" "{}" s']
  by (simp add: moves_def waiting_replies_def req_step_refl)

lemma open_rechecked_move:
  "moves [r] {} (added_sessions e (OpenRechecked r req tab frame m) s)
     (added_usable e (OpenRechecked r req tab frame m) s) {} s (open_rechecked e r req tab frame m s)"
proof -
  let ?dev = "message_device m" and ?tok = "message_token m"
  let ?owner = "open_owner req tab frame"
  have refused: "plain [r] s (if ?tok \<noteq> [] then close_via_host e ?dev ?tok (\<lambda>cr. OpenAborted r cr n) s
      else respond r (Status n) s)" for n
    by (auto simp: close_via_host_def intro!: ask_then respond_then moves_refl)
  show ?thesis
  proof (cases "getAllowedDevices (io_db e) (br_origin req) (bk_db s)")
    case (Inl err)
    then show ?thesis by (auto simp: open_rechecked_def intro!: moves_weaken respond_then moves_refl)
  next
    case (Inr ids)
    have granted: "open_granted e s req tab frame \<longleftrightarrow>
        br_deviceId req \<in> set ids \<and> isFrameLifetimeActive (Some tab) frame (own s)"
      using allowed_devices_set [OF Inr] Inr
      by (auto simp: open_granted_def getAllowedDevices_def split: if_splits)
    show ?thesis
    proof (cases "open_granted e s req tab frame")
      case False
      with refused granted show ?thesis
        by (simp add: open_rechecked_def Inr Let_def moves_weaken)
    next
      case True
      obtain registered b where reg:
        "(if ?tok = [] then (True, own s) else registerDeviceSession ?dev ?tok ?owner (own s)) = (registered, b)"
        by fastforce
      have b: "bg_wf b \<and> sessions b \<subseteq> sessions (own s) \<union>
            {(?dev, ?tok, recorded_owner (next_ref (own s)) tab ?owner)} \<and> usable b = usable (own s)"
        if "bg_wf (own s)"
        using register_session_adds [OF that, of ?dev ?tok ?owner registered b tab] reg that
        by (auto simp: open_owner_def split: if_splits)
      show ?thesis
      proof (cases registered)
        case True
        with \<open>open_granted e s req tab frame\<close> granted reg
        have "open_rechecked e r req tab frame m s =
            respond r (Native m) (set_own (registerDeviceTab ?dev (Some tab) b) (set_own b s))"
          by (cases "?tok = []") (auto simp: open_rechecked_def Inr Let_def open_owner_def)
        also have "set_own (registerDeviceTab ?dev (Some tab) b) (set_own b s)
            = set_own (registerDeviceTab ?dev (Some tab) b) s" by (simp add: set_own_def)
        finally have eq: "open_rechecked e r req tab frame m s =
            respond r (Native m) (set_own (registerDeviceTab ?dev (Some tab) b) s)" .
        have "moves [] {} {(?dev, ?tok, recorded_owner (next_ref (own s)) tab ?owner)} {(tab, ?dev)} {} s
            (set_own (registerDeviceTab ?dev (Some tab) b) s)"
          using b register_tab_adds [of b ?dev tab] by (intro own_move) auto
        from moves_then [OF this respond_move [of r _ "Native m"]] show ?thesis
          using \<open>open_granted e s req tab frame\<close> by (simp add: eq)
      next
        case False
        with \<open>open_granted e s req tab frame\<close> granted reg
        have eq: "open_rechecked e r req tab frame m s =
            close_via_host e ?dev ?tok (\<lambda>cr. OpenAborted r cr 503) (set_own b s)"
          by (cases "?tok = []") (auto simp: open_rechecked_def Inr Let_def open_owner_def)
        have "moves [] {} {(?dev, ?tok, recorded_owner (next_ref (own s)) tab ?owner)} {(tab, ?dev)} {} s (set_own b s)"
          using b by (intro own_move) auto
        moreover have "plain [r] (set_own b s) (open_rechecked e r req tab frame m s)"
          by (auto simp: eq close_via_host_def intro!: ask_then moves_refl)
        ultimately show ?thesis
          using \<open>open_granted e s req tab frame\<close> moves_then by fastforce
      qed
    qed
  qed
qed

lemma revoke_session_move: "plain [r] s (revoke_session e r origin devices session rest toRevoke groups s)"
  by (auto simp: revoke_session_def close_via_host_def Let_def split: prod.split option.split
      intro!: ask_then set_own_move own_loses_operations)

lemma revoke_next_move: "plain [r] s (revoke_next e r origin devices toks toRevoke groups s)"
proof -
  have removed: "grants (removeDeviceInfo ok dev db) \<subseteq> grants (bk_db s)"
    if "removeAllowedDevice ok' origin dev' (bk_db s) = Inr db" for ok ok' dev dev' db
    using grants_remove [OF that] by auto
  have rest: "plain [r] s (revoke_session e r origin devs session rest toRevoke groups s1)"
    if "plain [] s s1" for devs session rest s1
    using moves_then [OF that revoke_session_move] by simp
  show ?thesis
    by (auto simp: revoke_next_def revoke_done_def revoke_session_move Let_def task_ok_def
        intro!: respond_then await_then moves_refl db_move removed rest split: list.split sum.split)
qed

lemma grant_tail_move:
  "plain [r] s (grant_stored e r unpaired origin s)" "plain [r] s (grant_read e r pairing origin ids s)"
  "plain [r] s (revoke_read e r origin toRevoke s)" "plain [r] s (revoke_told e r origin toRevoke ids s)"
proof -
  have info: "grants (removeDeviceInfo ok dev db) = grants db" for ok dev db
    by (simp add: removeDeviceInfo_def grants_def)
  show "plain [r] s (grant_stored e r unpaired origin s)"
    by (auto simp: grant_stored_def task_ok_def Let_def info intro!: respond_then await_then moves_refl db_move
        split: sum.split option.split)
  show "plain [r] s (grant_read e r pairing origin ids s)" "plain [r] s (revoke_told e r origin toRevoke ids s)"
    by (auto simp: grant_read_def revoke_told_def notifyAllowedDevicesChanged_def intro!: respond_then moves_refl same_db_move)
  show "plain [r] s (revoke_read e r origin toRevoke s)"
    by (auto simp: revoke_read_def task_ok_def intro!: respond_then await_then moves_refl split: sum.split)
qed

lemma run_task_move:
  assumes "task_ok (bk_nm s) opens t"
  shows "moves (task_reply t) opens (added_sessions e t s) (added_usable e t s) {} s (run_task e t s)"
proof -
  have open_steps: "moves [r] {(req, tab, frame)} {} {} {} s (open_allowed e r req tab frame s)"
    "moves [r] {(req, tab, frame)} {} {} {} s (open_answered r req tab frame x s)" for r req tab frame x
  proof -
    have reply: "moves [r] opens {} {} {} s (respond r y s1)" if "plain [] s s1" for opens y s1
      using respond_then [OF that] by (rule moves_weaken)
    show "moves [r] {(req, tab, frame)} {} {} {} s (open_allowed e r req tab frame s)"
      by (auto simp: open_allowed_def intro!: reply ask_then moves_refl split: sum.split)
    show "moves [r] {(req, tab, frame)} {} {} {} s (open_answered r req tab frame x s)"
      by (auto simp: open_answered_def Let_def task_ok_def intro!: reply await_then moves_refl same_db_move
          split: nm_outcome.split)
  qed
  have one: "moves (task_reply t) (open_of t) (added_sessions e t s) (added_usable e t s) {} s (run_task e t s)"
  proof (cases t)
    case (OpenRechecked r req tab frame m)
    then show ?thesis
      using moves_trans [OF moves_weaken [OF moves_refl, of "{(req, tab, frame)}" "{}" "{}"] open_rechecked_move] by simp
  next
    case (CloseAnswered r req tab p)
    have "own_loses (own s) (unregisterDeviceSession d tok (unregisterDeviceTab d' tb (own s)))" for d tok d' tb
      by (rule own_loses_trans [OF own_loses_operations(1,2)])
    with CloseAnswered show ?thesis
      by (auto simp: device_closed_def Let_def intro!: move_intros split: nm_outcome.split)
  next
    case (CleanupAnswered r cr p)
    obtain confirmed s1 where x: "close_answered cr (settled_as s p) s = (confirmed, s1)" by fastforce
    have "plain [] s s1" using close_answered_move [of s cr "settled_as s p"] by (simp add: x)
    then show ?thesis by (simp add: CleanupAnswered x respond_then)
  next
    case (RevokeClosing r origin devices toks toRevoke groups cr p)
    then show ?thesis using moves_then [OF close_answered_move revoke_next_move] by simp
  qed (auto simp: open_steps forwarded_def feature_answered_def frame_destroyed_def enumerate_answered_def
      paired_answered_def paired_filtered_def status_answered_def cache_answered_def task_ok_def Let_def revoke_next_move grant_tail_move
      intro!: move_intros close_answered_move split: nm_outcome.split sum.split prod.split)
  have "open_of t \<subseteq> opens" using assms by (simp add: task_ok_def)
  with moves_trans [OF moves_weaken [OF moves_refl, of opens "{}" "{}"] one] show ?thesis
    by (simp add: Un_absorb2)
qed

section \<open>Runs of the background\<close>

abbreviation run :: "bk_event list \<Rightarrow> background" where
  "run es \<equiv> fold bk_step es initial_background"

text \<open>The message an event asks, the messages nobody answers, the opens and the pairings asked
  for.\<close>

fun asked_by :: "bk_event \<Rightarrow> nat list" where
  "asked_by (Message e a r req fr sender) = [r]"
| "asked_by _ = []"

definition from_page :: "string \<Rightarrow> frame_sender \<Rightarrow> bool" where
  "from_page ownUrl sender \<longleftrightarrow> (case sender_url sender of None \<Rightarrow> False | Some url \<Rightarrow> \<not> prefix ownUrl url)"

fun dropped_by :: "bk_event \<Rightarrow> nat list" where
  "dropped_by (Message e (GetDeviceInfo ownUrl) r req fr sender) =
     (if from_page ownUrl sender \<and> \<not> io_db e then [r] else [])"
| "dropped_by _ = []"

definition asked_messages :: "bk_event list \<Rightarrow> nat list" where
  "asked_messages es = concat (map asked_by es)"

definition dropped_messages :: "bk_event list \<Rightarrow> nat list" where
  "dropped_messages es = concat (map dropped_by es)"

fun opens_by :: "bk_event \<Rightarrow> (bg_request \<times> nat \<times> string) set" where
  "opens_by (Message e Open r req fr sender) =
     (case sender_tabId sender of None \<Rightarrow> {} | Some tab \<Rightarrow> {(req, tab, request_frame req (Some tab))})"
| "opens_by _ = {}"

fun pairs_by :: "bk_event \<Rightarrow> (string \<times> nat) set" where
  "pairs_by (Message e PairDevice r req fr sender) = {(br_origin req, br_deviceId req)}"
| "pairs_by _ = {}"

definition asked_opens :: "bk_event list \<Rightarrow> (bg_request \<times> nat \<times> string) set" where
  "asked_opens es = \<Union> (opens_by ` set es)"

definition asked_pairs :: "bk_event list \<Rightarrow> (string \<times> nat) set" where
  "asked_pairs es = \<Union> (pairs_by ` set es)"

definition bk_inv :: "bk_event list \<Rightarrow> background \<Rightarrow> bool" where
  "bk_inv es s \<longleftrightarrow> req_wf (bk_nm s) \<and> bg_wf (own s)
     \<and> list_all (task_ok (bk_nm s) (asked_opens es)) (bk_tasks s)
     \<and> mset (asked_messages es) =
         mset (waiting_replies (bk_tasks s)) + mset (map fst (bk_replies s)) + mset (dropped_messages es)
     \<and> grants (bk_db s) \<subseteq> asked_pairs es"

lemma handle_move:
  "\<exists>R. mset R + mset (dropped_by (Message e a r req fr sender)) = {#r#}
     \<and> moves R (asked_opens [Message e a r req fr sender]) {} {} (asked_pairs [Message e a r req fr sender])
         s (handle e a r req fr sender s)"
proof -
  have plain: "moves R opens {} {} D s s'" if "plain R s s'" for R opens D s'
    using moves_trans [of "[]" opens "{}" "{}" D s s R "{}" "{}" "{}" "{}" s'] that
    by (simp add: moves_def waiting_replies_def req_step_refl)
  show ?thesis
  proof (cases a)
    case Open
    have "{(req, tab, request_frame req (Some tab)) |tab. sender_tabId sender = Some tab}
        = asked_opens [Message e a r req fr sender]" by (auto simp: asked_opens_def Open split: option.split)
    with open_move [of r req sender s] Open show ?thesis
      by (intro exI [of _ "[r]"]) (simp add: asked_pairs_def)
  next
    case PairDevice
    then show ?thesis using pair_move [of r req s e]
      by (intro exI [of _ "[r]"]) (auto simp: asked_pairs_def asked_opens_def)
  next
    case (GetDeviceInfo ownUrl)
    show ?thesis
    proof (cases "from_page ownUrl sender \<and> \<not> io_db e")
      case True
      then have "handle e a r req fr sender s = s"
        by (simp add: GetDeviceInfo handleGetDeviceInfo_def getAllowedDevices_def from_page_def Let_def)
      with True show ?thesis by (intro exI [of _ "[]"]) (simp add: GetDeviceInfo plain moves_refl)
    next
      case False
      then have "\<exists>x. handle e a r req fr sender s = respond r x s"
        by (auto simp: GetDeviceInfo handleGetDeviceInfo_def getAllowedDevices_def from_page_def Let_def)
      then obtain x where x: "handle e a r req fr sender s = respond r x s" by blast
      show ?thesis unfolding x
        using False by (intro exI [of _ "[r]"]) (simp add: GetDeviceInfo plain respond_then moves_refl)
    qed
  qed (intro exI [of _ "[r]"];
      auto intro!: plain request_handlers_move grant_handlers_move handleFrameDestroyed_move)+
qed

text \<open>What a step adds to the sessions and to the usable devices.\<close>

fun step_sessions :: "bk_event \<Rightarrow> background \<Rightarrow> (nat \<times> string \<times> session_owner) set" where
  "step_sessions (RunTask e i) s =
     (if i < length (bk_tasks s) then added_sessions e (bk_tasks s ! i) s else {})"
| "step_sessions _ s = {}"

fun step_usable :: "bk_event \<Rightarrow> background \<Rightarrow> (nat \<times> nat) set" where
  "step_usable (RunTask e i) s =
     (if i < length (bk_tasks s) then added_usable e (bk_tasks s ! i) s else {})"
| "step_usable _ s = {}"

abbreviation without_task :: "nat \<Rightarrow> background \<Rightarrow> background" where
  "without_task i s \<equiv> s\<lparr>bk_tasks := take i (bk_tasks s) @ drop (Suc i) (bk_tasks s)\<rparr>"

lemma added_other_tasks [simp]:
  "added_sessions e t (s\<lparr>bk_tasks := ts\<rparr>) = added_sessions e t s"
  "added_usable e t (s\<lparr>bk_tasks := ts\<rparr>) = added_usable e t s"
  by (cases t; simp add: open_granted_def)+

lemma asked_simps:
  "asked_messages (es @ [ev]) = asked_messages es @ asked_by ev"
  "dropped_messages (es @ [ev]) = dropped_messages es @ dropped_by ev"
  "asked_opens (es @ [ev]) = asked_opens es \<union> asked_opens [ev]"
  "asked_pairs (es @ [ev]) = asked_pairs es \<union> asked_pairs [ev]"
  by (auto simp: asked_messages_def dropped_messages_def asked_opens_def asked_pairs_def)

lemma remove_task_mset:
  "i < length ts \<Longrightarrow> mset (waiting_replies ts) =
     mset (waiting_replies (take i ts @ drop (Suc i) ts)) + mset (task_reply (ts ! i))"
  by (subst (1) id_take_nth_drop [of i ts]) (simp_all add: waiting_replies_def)

text \<open>A move keeps the invariant.\<close>

lemma moves_inv:
  assumes inv: "bk_inv es s" and tasks: "list_all (task_ok (bk_nm s) (asked_opens es)) ts0"
    and move: "moves R opens G T D (s\<lparr>bk_tasks := ts0\<rparr>) s'"
    and count: "mset (asked_messages (es @ [ev])) =
      mset (waiting_replies ts0) + mset (map fst (bk_replies s)) + mset R + mset (dropped_messages (es @ [ev]))"
    and opens: "opens \<subseteq> asked_opens (es @ [ev])" and pairs: "D \<subseteq> asked_pairs (es @ [ev])"
  shows "bk_inv (es @ [ev]) s'"
proof -
  obtain ts rs where m: "bk_tasks s' = ts0 @ ts" "bk_replies s' = bk_replies s @ rs"
    "mset (waiting_replies ts) + mset (map fst rs) = mset R" "list_all (task_ok (bk_nm s') opens) ts"
    using move unfolding moves_def by auto
  have step: "req_step (bk_nm s) (bk_nm s')" and wf: "bg_wf (own s) \<longrightarrow> bg_wf (own s')"
    and db: "grants (bk_db s') \<subseteq> grants (bk_db s) \<union> D"
    using move unfolding moves_def by auto
  have more: "asked_opens es \<subseteq> asked_opens (es @ [ev])" "asked_pairs es \<subseteq> asked_pairs (es @ [ev])"
    by (auto simp: asked_simps)
  have "list_all (task_ok (bk_nm s') (asked_opens (es @ [ev]))) (bk_tasks s')"
    using tasks m(4) task_ok_later [OF _ step more(1)] task_ok_later [OF _ req_step_refl [OF refl] opens]
    by (auto simp: m(1) list_all_iff)
  moreover have "mset (asked_messages (es @ [ev])) =
      mset (waiting_replies (bk_tasks s')) + mset (map fst (bk_replies s')) + mset (dropped_messages (es @ [ev]))"
    unfolding count m(1,2) m(3) [symmetric] by (simp add: waiting_replies_def)
  moreover have "grants (bk_db s') \<subseteq> asked_pairs (es @ [ev])"
    using db inv more(2) pairs unfolding bk_inv_def by blast
  ultimately show ?thesis using inv step wf by (simp add: bk_inv_def req_step_def)
qed

lemma native_event_move:
  assumes "native_only ev"
  shows "plain [] s (s\<lparr>bk_nm := nm_step ev (bk_nm s)\<rparr>)"
  by (rule movesI) (simp_all add: nm_step_req nm_step_loses [OF assms])

text \<open>The task a step takes out.\<close>

fun ran :: "bk_event \<Rightarrow> background \<Rightarrow> task set" where
  "ran (RunTask e i) s =
     (if i < length (bk_tasks s) \<and> task_ready s (bk_tasks s ! i) then {bk_tasks s ! i} else {})"
| "ran _ s = {}"

definition step_moves :: "bk_event list \<Rightarrow> bk_event \<Rightarrow> background \<Rightarrow> bool" where
  "step_moves es ev s \<longleftrightarrow> bk_inv (es @ [ev]) (bk_step ev s)
     \<and> set (bk_tasks s) \<subseteq> set (bk_tasks (bk_step ev s)) \<union> ran ev s
     \<and> set (bk_replies s) \<subseteq> set (bk_replies (bk_step ev s))
     \<and> grants (bk_db (bk_step ev s)) \<subseteq> grants (bk_db s) \<union> asked_pairs [ev]
     \<and> sessions (own (bk_step ev s)) \<subseteq> sessions (own s) \<union> step_sessions ev s
     \<and> usable (own (bk_step ev s)) \<subseteq> usable (own s) \<union> step_usable ev s
     \<and> req_step (bk_nm s) (bk_nm (bk_step ev s))"

lemma step_movesI:
  assumes "bk_inv es s" "moves R (asked_opens [ev]) {} {} (asked_pairs [ev]) s (bk_step ev s)"
    "mset (asked_by ev) = mset R + mset (dropped_by ev)"
  shows "step_moves es ev s"
proof -
  have "bk_inv (es @ [ev]) (bk_step ev s)"
    by (rule moves_inv [OF assms(1), of "bk_tasks s" R _ _ _ _ _ ev])
      (use assms in \<open>auto simp: bk_inv_def asked_simps\<close>)
  with assms(1,2) show ?thesis by (auto simp: step_moves_def moves_def bk_inv_def)
qed

lemma run_ready_task_moves:
  assumes "bk_inv es s"
  shows "step_moves es (RunTask e i) s"
proof (cases "i < length (bk_tasks s) \<and> task_ready s (bk_tasks s ! i)")
  case False
  then have "bk_step (RunTask e i) s = s" by (auto simp: run_ready_task_def)
  then show ?thesis using moves_refl [of s]
    by (intro step_movesI [OF assms, of "[]"]) (simp_all add: asked_opens_def asked_pairs_def)
next
  case True
  let ?t = "bk_tasks s ! i" and ?s = "without_task i s"
  let ?ts0 = "take i (bk_tasks s) @ drop (Suc i) (bk_tasks s)"
  have ok: "list_all (task_ok (bk_nm s) (asked_opens es)) (bk_tasks s)" using assms by (simp add: bk_inv_def)
  have "task_ok (bk_nm ?s) (asked_opens es) ?t" using ok True by (simp add: list_all_iff)
  note move = run_task_move [OF this, of e]
  have "bk_inv (es @ [RunTask e i]) (run_task e ?t ?s)"
  proof (rule moves_inv [OF assms _ move])
    show "list_all (task_ok (bk_nm s) (asked_opens es)) ?ts0"
      using ok by (auto simp: list_all_iff dest: in_set_takeD in_set_dropD)
    show "mset (asked_messages (es @ [RunTask e i])) = mset (waiting_replies ?ts0) + mset (map fst (bk_replies s))
        + mset (task_reply ?t) + mset (dropped_messages (es @ [RunTask e i]))"
      using assms True remove_task_mset [of i "bk_tasks s"] by (simp add: bk_inv_def asked_simps)
  qed (auto simp: asked_simps)
  moreover have "sessions (own (run_task e ?t ?s)) \<subseteq> sessions (own s) \<union> added_sessions e ?t s"
    "usable (own (run_task e ?t ?s)) \<subseteq> usable (own s) \<union> added_usable e ?t s"
    "req_step (bk_nm s) (bk_nm (run_task e ?t ?s))" "grants (bk_db (run_task e ?t ?s)) \<subseteq> grants (bk_db s)"
    "set (bk_replies s) \<subseteq> set (bk_replies (run_task e ?t ?s))" "set ?ts0 \<subseteq> set (bk_tasks (run_task e ?t ?s))"
    using move assms by (auto simp: moves_def bk_inv_def)
  moreover have "set (bk_tasks s) \<subseteq> set ?ts0 \<union> {?t}"
    using True id_take_nth_drop [of i "bk_tasks s"] by (metis Un_insert_right list.simps(15) set_append subset_refl sup_bot_right)
  ultimately have "step_moves es (RunTask e i) s \<longleftrightarrow> True"
    using True unfolding step_moves_def bk_step.simps run_ready_task_def by auto
  then show ?thesis by simp
qed

lemma bk_step_moves:
  assumes "bk_inv es s"
  shows "step_moves es ev s"
proof (cases ev)
  case (Message e a r req fr sender)
  obtain R where R: "mset R + mset (dropped_by ev) = {#r#}"
    "moves R (asked_opens [ev]) {} {} (asked_pairs [ev]) s (bk_step ev s)"
    using handle_move [of e a r req fr sender s] Message by auto
  then show ?thesis by (intro step_movesI [OF assms R(2)]) (simp add: Message)
next
  case (RunTask e i)
  then show ?thesis using run_ready_task_moves [OF assms] by simp
next
  case (NativeEvent nev)
  then show ?thesis using native_event_move moves_refl
    by (intro step_movesI [OF assms, of "[]"]) (auto simp: asked_opens_def asked_pairs_def)
qed (intro step_movesI [OF assms, of "[]"]; simp add: asked_opens_def asked_pairs_def background_purges_move)+

lemma bk_inv_run: "bk_inv es (run es)"
proof (induction es rule: rev_induct)
  case Nil
  show ?case
    using req_wf_initial initial_world_wf
    by (simp add: bk_inv_def initial_background_def asked_messages_def dropped_messages_def waiting_replies_def
        initial_nm_state_def world_wf_def empty_database_def grants_def req_wf_def)
next
  case (snoc ev es)
  then show ?case using bk_step_moves [OF snoc, of ev] by (simp add: step_moves_def)
qed

end
