(* ===== verification/Message_Safety.thy ===== *)
theory Message_Safety
  imports Message_Moves
begin

text \<open>
  The properties of the handlers of \<open>messages.js\<close> in whole runs of the background, with the native
  client, the ownership state and the grants: every message gets one answer, and sessions and the
  use of devices go back to opens the user had granted.
\<close>

section \<open>Every message can be answered\<close>

text \<open>Deadlines and continuations are enough: whatever the host does, they bring every waiting
  message to its answer.\<close>

definition drives :: "io \<Rightarrow> bk_event list \<Rightarrow> bool" where
  "drives e es \<longleftrightarrow> set es \<subseteq> range (\<lambda>n. NativeEvent (DeadlineFired n)) \<union> range (RunTask e)"

lemma drives_simps: "drives e []" "drives e (es @ es') \<longleftrightarrow> drives e es \<and> drives e es'"
  by (auto simp: drives_def)

lemma bk_inv_steps: "bk_inv es s \<Longrightarrow> bk_inv (es @ es') (fold bk_step es' s)"
proof (induction es' arbitrary: es s)
  case (Cons ev es')
  from Cons.IH [of "es @ [ev]" "bk_step ev s"] bk_step_moves [OF Cons.prems, of ev] show ?case
    by (simp add: step_moves_def)
qed simp

lemma settled_later:
  "bk_inv es s \<Longrightarrow> prefix (nm_settled (bk_nm s)) (nm_settled (bk_nm (fold bk_step es' s)))"
proof (induction es' arbitrary: es s)
  case (Cons ev es')
  have "prefix (nm_settled (bk_nm s)) (nm_settled (bk_nm (bk_step ev s)))"
    "bk_inv (es @ [ev]) (bk_step ev s)"
    using bk_step_moves [OF Cons.prems, of ev] by (simp_all add: step_moves_def req_step_def)
  with Cons.IH show ?case by (auto intro: prefix_order.trans)
qed simp

lemma outcome_settled: "outcome_of p s \<noteq> None \<longleftrightarrow> p \<in> fst ` set (nm_settled (bk_nm s))"
  by (simp add: outcome_of_def map_of_eq_None_iff)

lemma settle_promises:
  assumes "bk_inv es s" "set ps \<subseteq> set (nm_issued (bk_nm s))"
  shows "\<exists>es'. drives e es' \<and> bk_tasks (fold bk_step es' s) = bk_tasks s
     \<and> (\<forall>p \<in> set ps. outcome_of p (fold bk_step es' s) \<noteq> None)"
  using assms
proof (induction ps arbitrary: es s)
  case Nil
  show ?case by (intro exI [of _ "[]"]) (simp add: drives_simps)
next
  case (Cons p ps)
  have wf: "req_wf (bk_nm s)" using Cons.prems(1) by (simp add: bk_inv_def)
  obtain ds where ds: "drives e ds" "bk_tasks (fold bk_step ds s) = bk_tasks s"
    "outcome_of p (fold bk_step ds s) \<noteq> None" "nm_issued (bk_nm (fold bk_step ds s)) = nm_issued (bk_nm s)"
  proof (cases "outcome_of p s = None")
    case True
    then have "p \<in> set (map snd (nm_pending (bk_nm s)))"
      using nm_requests.issued_waiting_or_settled [OF wf] Cons.prems(2)
      by (auto simp: outcome_of_def map_of_eq_None_iff)
    then obtain reqId where settled: "nm_settled (nm_step (DeadlineFired reqId) (bk_nm s)) =
        nm_settled (bk_nm s) @ [(p, Rejected (JsError ''NM request timed out''))]"
      using waiting_has_deadline [OF wf] by blast
    then have "outcome_of p (fold bk_step [NativeEvent (DeadlineFired reqId)] s) \<noteq> None"
      unfolding outcome_settled by (simp add: native_only_def)
    moreover have "nm_issued (deadlineFired reqId (bk_nm s)) = nm_issued (bk_nm s)"
      by (auto simp: deadlineFired_def settle_promise_def Let_def split: option.split)
    ultimately show ?thesis
      by (intro that [of "[NativeEvent (DeadlineFired reqId)]"]) (simp_all add: drives_def native_only_def)
  next
    case False
    then show ?thesis by (intro that [of "[]"]) (simp_all add: drives_simps)
  qed
  obtain es' where es': "drives e es'" "bk_tasks (fold bk_step es' (fold bk_step ds s)) = bk_tasks s"
    "\<forall>p \<in> set ps. outcome_of p (fold bk_step es' (fold bk_step ds s)) \<noteq> None"
    using Cons.IH [OF bk_inv_steps [OF Cons.prems(1)], of ds] Cons.prems(2) ds(2,4) by fastforce
  have "prefix (nm_settled (bk_nm (fold bk_step ds s))) (nm_settled (bk_nm (fold bk_step es' (fold bk_step ds s))))"
    by (rule settled_later [OF bk_inv_steps [OF Cons.prems(1)]])
  then have "outcome_of p (fold bk_step es' (fold bk_step ds s)) \<noteq> None"
    using ds(3) unfolding outcome_settled by (auto dest: set_mono_prefix)
  with ds(1) es' show ?case by (intro exI [of _ "ds @ es'"]) (simp add: drives_simps)
qed

text \<open>A continuation leaves at most one task, nearer to the answer.\<close>

fun task_rank :: "task \<Rightarrow> nat \<times> nat" where
  "task_rank (OpenAllowed r req tab frame) = (0, 4)"
| "task_rank (OpenAnswered r req tab frame p) = (0, 3)"
| "task_rank (OpenRechecked r req tab frame m) = (0, 2)"
| "task_rank (PairedAnswered r origin p) = (0, 2)"
| "task_rank (RevokeRead r origin toRevoke) = (0, 2)"
| "task_rank (GrantStored r unpaired origin) = (0, 2)"
| "task_rank (RevokeNext r origin devices toks toRevoke groups) = (Suc (length devices), length toks)"
| "task_rank (RevokeClosing r origin devices toks toRevoke groups cr p) = (Suc (length devices), length toks)"
| "task_rank _ = (0, 1)"

abbreviation nearer :: "((nat \<times> nat) \<times> (nat \<times> nat)) set" where
  "nearer \<equiv> less_than <*lex*> less_than"

definition leaves :: "task \<Rightarrow> background \<Rightarrow> background \<Rightarrow> bool" where
  "leaves t s s' \<longleftrightarrow> bk_tasks s' = bk_tasks s
     \<or> (\<exists>t'. bk_tasks s' = bk_tasks s @ [t'] \<and> (task_rank t', task_rank t) \<in> nearer)"

lemma bk_tasks_simps [simp]:
  "bk_tasks (respond r x s) = bk_tasks s" "bk_tasks (set_own b s) = bk_tasks s"
  "bk_tasks (note_permission m s) = bk_tasks s" "bk_tasks (refreshDeviceCache ok ds s) = bk_tasks s"
  "bk_tasks (await t s) = bk_tasks s @ [t]" "bk_tasks (snd (close_answered cr y s)) = bk_tasks s"
  by (auto simp: respond_def set_own_def note_permission_def refreshDeviceCache_def await_def close_answered_def
      Let_def split: option.split prod.split)

lemma ask_leaves:
  "(\<And>p. (task_rank (task p), task_rank t) \<in> nearer) \<Longrightarrow> bk_tasks s' = bk_tasks s
   \<Longrightarrow> leaves t s (ask e body task s')"
  by (auto simp: leaves_def ask_def split: prod.split)

lemma same_leaves: "bk_tasks s' = bk_tasks s \<Longrightarrow> leaves t s s'"
  by (simp add: leaves_def)

lemma await_leaves:
  "(task_rank t', task_rank t) \<in> nearer \<Longrightarrow> bk_tasks s' = bk_tasks s \<Longrightarrow> leaves t s (await t' s')"
  by (simp add: leaves_def)

lemmas leaves_intros = ask_leaves same_leaves await_leaves

lemma revoke_next_leaves:
  assumes "task_rank t = (Suc (length devices), length toks)" "bk_tasks s1 = bk_tasks s"
  shows "leaves t s (revoke_next e r origin devices toks toRevoke groups s1)"
proof -
  have one: "leaves t s (revoke_session e r origin devs session rest toRevoke groups s2)"
    if "((Suc (length devs), length rest), task_rank t) \<in> nearer" "bk_tasks s2 = bk_tasks s"
    for devs session rest s2
    using that by (auto simp: revoke_session_def close_via_host_def Let_def split: prod.split option.split
        intro!: ask_leaves)
  have finished: "leaves t s (revoke_done e r origin toRevoke groups s1)"
    by (auto simp: revoke_done_def assms intro!: await_leaves)
  show ?thesis
  proof (cases toks)
    case Nil
    show ?thesis
      by (cases devices) (simp_all add: revoke_next_def Nil finished Let_def assms one await_leaves same_leaves
          split: list.split sum.split)
  next
    case (Cons session rest)
    then show ?thesis by (simp add: revoke_next_def one assms)
  qed
qed

lemma run_task_leaves: "leaves t s (run_task e t s)"
proof (cases t)
  case (CleanupAnswered r cr p)
  obtain confirmed s1 where x: "close_answered cr (settled_as s p) s = (confirmed, s1)" by fastforce
  show ?thesis
    using bk_tasks_simps(6) [of cr "settled_as s p" s] by (simp add: CleanupAnswered x same_leaves)
next
  case (OpenRechecked r req tab frame m)
  then show ?thesis
    by (simp add: open_rechecked_def close_via_host_def Let_def leaves_intros split: sum.split prod.split)
qed (simp_all add: open_allowed_def open_answered_def device_closed_def forwarded_def feature_answered_def
    frame_destroyed_def enumerate_answered_def paired_answered_def paired_filtered_def status_answered_def
    cache_answered_def revoke_read_def revoke_told_def grant_stored_def grant_read_def notifyAllowedDevicesChanged_def
    Let_def leaves_intros revoke_next_leaves split: nm_outcome.split sum.split option.split)

lemma drive_last:
  "bk_inv es s \<Longrightarrow> bk_tasks s = ts @ [t] \<Longrightarrow>
   \<exists>es'. drives e es' \<and> bk_tasks (fold bk_step es' s) = ts"
proof (induction t arbitrary: es s rule: wf_induct_rule [OF wf_inv_image [OF wf_lex_prod [OF wf_less_than wf_less_than], of task_rank]])
  case (1 t)
  have "set (task_promises t) \<subseteq> set (nm_issued (bk_nm s))"
    using 1(2,3) by (simp add: bk_inv_def task_ok_def)
  from settle_promises [OF 1(2) this, of e] obtain ds where ds: "drives e ds"
    "bk_tasks (fold bk_step ds s) = ts @ [t]" "task_ready (fold bk_step ds s) t"
    unfolding task_ready_def 1(3) by blast
  let ?s1 = "fold bk_step ds s" and ?ev = "RunTask e (length ts)"
  let ?s2 = "bk_step ?ev ?s1"
  have s2: "?s2 = run_task e t (?s1\<lparr>bk_tasks := ts\<rparr>)"
    using ds(2,3) by (simp add: run_ready_task_def)
  have inv: "bk_inv (es @ ds @ [?ev]) ?s2"
    using bk_inv_steps [OF 1(2), of "ds @ [?ev]"] by simp
  have drive: "drives e (ds @ [?ev])" using ds(1) by (simp add: drives_def)
  from run_task_leaves [of t "?s1\<lparr>bk_tasks := ts\<rparr>" e] show ?case
    unfolding leaves_def s2 [symmetric]
  proof (elim disjE exE conjE)
    assume "bk_tasks ?s2 = bk_tasks (?s1\<lparr>bk_tasks := ts\<rparr>)"
    then show ?thesis using drive by (intro exI [of _ "ds @ [?ev]"]) simp
  next
    fix t'
    assume t': "bk_tasks ?s2 = bk_tasks (?s1\<lparr>bk_tasks := ts\<rparr>) @ [t']" "(task_rank t', task_rank t) \<in> nearer"
    then obtain es' where "drives e es'" "bk_tasks (fold bk_step es' ?s2) = ts"
      using 1(1) [of t', OF _ inv] by auto
    then show ?thesis using drive
      by (intro exI [of _ "(ds @ [?ev]) @ es'"]) (simp add: drives_simps(2) [of e "_ @ _"] del: append_assoc)
  qed
qed

lemma drive_all:
  "bk_inv es s \<Longrightarrow> \<exists>es'. drives e es' \<and> bk_tasks (fold bk_step es' s) = []"
proof (induction "bk_tasks s" arbitrary: es s rule: rev_induct)
  case Nil
  then show ?case by (intro exI [of _ "[]"]) (simp add: drives_simps)
next
  case (snoc t ts)
  obtain es1 where es1: "drives e es1" "bk_tasks (fold bk_step es1 s) = ts"
    using drive_last [OF snoc.prems snoc.hyps(2) [symmetric]] by blast
  from snoc.hyps(1) [OF es1(2) [symmetric] bk_inv_steps [OF snoc.prems]] obtain es2
    where "drives e es2" "bk_tasks (fold bk_step es2 (fold bk_step es1 s)) = []" by blast
  with es1(1) show ?case by (intro exI [of _ "es1 @ es2"]) (simp add: drives_simps)
qed

section \<open>Where sessions and usable devices come from\<close>

text \<open>The event \<open>ev\<close>, after the run \<open>es\<close>, completes an open of the device for the tab: the grant was
  there and the frame was alive at that moment.\<close>

definition completes_open ::
    "bk_event list \<Rightarrow> bk_event \<Rightarrow> nat \<Rightarrow> nat \<Rightarrow> bg_request \<Rightarrow> string \<Rightarrow> bool" where
  "completes_open es ev tab dev req frame \<longleftrightarrow>
     (\<exists>e i r m. ev = RunTask e i \<and> i < length (bk_tasks (run es))
        \<and> bk_tasks (run es) ! i = OpenRechecked r req tab frame m \<and> message_device m = dev
        \<and> open_granted e (run es) req tab frame)"

text \<open>It was asked for by a message from that tab, and the pairing by a message before.\<close>

lemma completes_open_asked:
  assumes "completes_open es ev tab dev req frame"
  shows "(req, tab, frame) \<in> asked_opens es" "(br_origin req, br_deviceId req) \<in> asked_pairs es"
proof -
  obtain e i r m where t: "i < length (bk_tasks (run es))"
      "bk_tasks (run es) ! i = OpenRechecked r req tab frame m" "open_granted e (run es) req tab frame"
    using assms unfolding completes_open_def by blast
  have "task_ok (bk_nm (run es)) (asked_opens es) (bk_tasks (run es) ! i)"
    using bk_inv_run [of es] t(1) by (simp add: bk_inv_def list_all_length)
  with t show "(req, tab, frame) \<in> asked_opens es" by (simp add: task_ok_def)
  show "(br_origin req, br_deviceId req) \<in> asked_pairs es"
    using bk_inv_run [of es] t(3) by (auto simp: bk_inv_def open_granted_def)
qed

lemma asked_opensD:
  assumes "(req, tab, frame) \<in> asked_opens es"
  shows "\<exists>e r fr sender. Message e Open r req fr sender \<in> set es \<and> sender_tabId sender = Some tab
     \<and> frame = request_frame req (Some tab)"
proof -
  have "\<exists>e r fr sender. ev = Message e Open r req fr sender \<and> sender_tabId sender = Some tab
      \<and> frame = request_frame req (Some tab)" if "(req, tab, frame) \<in> opens_by ev" for ev
    using that by (cases ev rule: opens_by.cases) (auto split: option.splits)
  then show ?thesis using assms unfolding asked_opens_def by blast
qed

lemma asked_pairsD:
  assumes "(origin, dev) \<in> asked_pairs es"
  shows "\<exists>e r req fr sender. Message e PairDevice r req fr sender \<in> set es \<and> br_origin req = origin \<and> br_deviceId req = dev"
proof -
  have "\<exists>e r req fr sender. ev = Message e PairDevice r req fr sender \<and> br_origin req = origin
      \<and> br_deviceId req = dev" if "(origin, dev) \<in> pairs_by ev" for ev
    using that by (cases ev rule: pairs_by.cases) auto
  then show ?thesis using assms unfolding asked_pairs_def by blast
qed

lemma step_added:
  "(tab, dev) \<in> step_usable ev (run es) \<Longrightarrow> \<exists>req frame. completes_open es ev tab dev req frame"
  "(dev, tok, owner) \<in> step_sessions ev (run es) \<Longrightarrow> \<exists>req tab frame. completes_open es ev tab dev req frame
     \<and> owner = recorded_owner (next_ref (own (run es))) tab (open_owner req tab frame)"
proof -
  have task: "added_usable e t s = {} \<and> added_sessions e t s = {}
      \<or> (\<exists>r req tab frame m. t = OpenRechecked r req tab frame m \<and> open_granted e s req tab frame)" for e t s
    by (cases t) auto
  show "(tab, dev) \<in> step_usable ev (run es) \<Longrightarrow> \<exists>req frame. completes_open es ev tab dev req frame"
    unfolding completes_open_def
  proof (cases ev)
    case (RunTask e i)
    assume "(tab, dev) \<in> step_usable ev (run es)"
    with RunTask task [of e "bk_tasks (run es) ! i" "run es"]
    show "\<exists>req frame e i r m. ev = RunTask e i \<and> i < length (bk_tasks (run es))
        \<and> bk_tasks (run es) ! i = OpenRechecked r req tab frame m \<and> message_device m = dev
        \<and> open_granted e (run es) req tab frame"
      by (auto split: if_splits)
  qed simp_all
  show "(dev, tok, owner) \<in> step_sessions ev (run es) \<Longrightarrow> \<exists>req tab frame. completes_open es ev tab dev req frame
     \<and> owner = recorded_owner (next_ref (own (run es))) tab (open_owner req tab frame)"
    unfolding completes_open_def
  proof (cases ev)
    case (RunTask e i)
    assume "(dev, tok, owner) \<in> step_sessions ev (run es)"
    with RunTask task [of e "bk_tasks (run es) ! i" "run es"]
    show "\<exists>req tab frame. (\<exists>e i r m. ev = RunTask e i \<and> i < length (bk_tasks (run es))
        \<and> bk_tasks (run es) ! i = OpenRechecked r req tab frame m \<and> message_device m = dev
        \<and> open_granted e (run es) req tab frame)
        \<and> owner = recorded_owner (next_ref (own (run es))) tab (open_owner req tab frame)"
      by (auto split: if_splits)
  qed simp_all
qed

lemma run_step: "step_moves es ev (run es)"
  using bk_step_moves [OF bk_inv_run] .

lemma usable_history:
  "(tab, dev) \<in> usable (own (run es)) \<Longrightarrow>
   \<exists>es1 ev es2 req frame. es = es1 @ ev # es2 \<and> completes_open es1 ev tab dev req frame"
proof (induction es rule: rev_induct)
  case Nil
  then show ?case
    by (simp add: initial_background_def initial_nm_state_def initial_bg_world_def initial_bg_state_def
        usable_count js_map_simps)
next
  case (snoc ev es)
  then consider "(tab, dev) \<in> usable (own (run es))" | "(tab, dev) \<in> step_usable ev (run es)"
    using run_step [of es ev] by (auto simp: step_moves_def)
  then show ?case
  proof cases
    case 1
    from snoc.IH [OF this] show ?thesis by fastforce
  next
    case 2
    from step_added(1) [OF this] show ?thesis by blast
  qed
qed

lemma sessions_history:
  "(dev, tok, owner) \<in> sessions (own (run es)) \<Longrightarrow>
   \<exists>es1 ev es2 req tab frame. es = es1 @ ev # es2 \<and> completes_open es1 ev tab dev req frame
     \<and> owner = recorded_owner (next_ref (own (run es1))) tab (open_owner req tab frame)"
proof (induction es rule: rev_induct)
  case Nil
  then show ?case
    by (simp add: initial_background_def initial_nm_state_def initial_bg_world_def initial_bg_state_def
        sessions_def js_map_simps)
next
  case (snoc ev es)
  then consider "(dev, tok, owner) \<in> sessions (own (run es))" | "(dev, tok, owner) \<in> step_sessions ev (run es)"
    using run_step [of es ev] by (auto simp: step_moves_def)
  then show ?case
  proof cases
    case 1
    from snoc.IH [OF this] show ?thesis by fastforce
  next
    case 2
    from step_added(2) [OF this] show ?thesis by blast
  qed
qed

section \<open>A run\<close>

definition sample_io :: io where "sample_io = \<lparr>io_db = True, io_connect = True, io_post = True, io_tabs = True\<rparr>"

definition sample_request :: bg_request where
  "sample_request = \<lparr>br_origin = ''https://a'', br_deviceId = 7, br_deviceIds = [], br_frameKey = ''b/f'',
     br_sessionToken = [], br_clientKey = None, br_bridgeInstanceId = ''b'', br_reportId = 2, br_data = [],
     br_mode = 0, br_filters = [], br_exclusionFilters = []\<rparr>"

definition sample_sender :: frame_sender where
  "sample_sender = \<lparr>sender_tabId = Some 3, sender_frameId = Some 0, sender_documentId = [], sender_url = None\<rparr>"

definition sample_frame :: frame_request where
  "sample_frame = \<lparr>freq_frameId = None, freq_documentId = [], freq_origin = []\<rparr>"

abbreviation sample_message :: "action \<Rightarrow> nat \<Rightarrow> bk_event" where
  "sample_message a r \<equiv> Message sample_io a r sample_request sample_frame sample_sender"

text \<open>A pairing, then an open up to the host's answer, which gives the session \<open>t\<close>.\<close>

definition sample_run :: "bk_event list" where
  "sample_run = [NativeEvent (Connect True), sample_message PairDevice 1,
     RunTask sample_io 0, RunTask sample_io 0, sample_message Open 2, RunTask sample_io 0,
     NativeEvent (HostMessage [] True True (empty_message\<lparr>msg_s := Some 200, msg_n := Some 1, msg_i := Some 7,
       msg_t := Some ''t''\<rparr>)),
     RunTask sample_io 0, RunTask sample_io 0]"

lemma sample_run_session:
  "map_option owner_origin (session_of (own (run sample_run)) 7 ''t'') = Some ''https://a''"
  by code_simp

lemma sample_run_use:
  "length (bk_tasks (bk_step (sample_message SendReport 9) (run sample_run))) = Suc (length (bk_tasks (run sample_run)))"
proof -
  have "length (bk_tasks (ask e body task s)) = Suc (length (bk_tasks s))" for e body task s
    by (simp add: ask_def split: prod.split)
  moreover have "isTabAuthorizedForDevice (Some 3) 7 (own (run sample_run))" by code_simp
  ultimately show ?thesis
    by (simp add: handleSendReport_def tabAllowsDevice_def sample_request_def sample_sender_def)
qed

section \<open>Properties\<close>


text \<open>C1: a session belongs to an origin the user granted the device to.  Every session recorded in
  any run was recorded by an open that a message asked for, from the tab, the frame and the origin
  that own the session, at a moment when the database still had the origin's grant for the device
  asked for and the frame was alive; and the grant was made by a pairing message before.\<close>

theorem sessions_only_for_granted_opens:
  assumes "session_of (own (run es)) dev tok = Some owner"
  shows "\<exists>es1 ev es2 req tab frame. es = es1 @ ev # es2 \<and> completes_open es1 ev tab dev req frame
    \<and> owner_tabId owner = tab \<and> owner_origin owner = br_origin req \<and> owner_frameKey owner = frame
    \<and> owner_bridgeInstanceId owner = br_bridgeInstanceId req
    \<and> (\<exists>e r fr sender. Message e Open r req fr sender \<in> set es1 \<and> sender_tabId sender = Some tab
         \<and> frame = request_frame req (Some tab))
    \<and> (\<exists>e r preq fr sender. Message e PairDevice r preq fr sender \<in> set es1
         \<and> br_origin preq = br_origin req \<and> br_deviceId preq = br_deviceId req)"
proof -
  obtain es1 ev es2 req tab frame where h: "es = es1 @ ev # es2" "completes_open es1 ev tab dev req frame"
      "owner = recorded_owner (next_ref (own (run es1))) tab (open_owner req tab frame)"
    using sessions_history [of dev tok owner es] assms by (auto simp: sessions_def)
  note asked = asked_opensD [OF completes_open_asked(1) [OF h(2)]] asked_pairsD [OF completes_open_asked(2) [OF h(2)]]
  then have "frame \<noteq> []" by (auto simp: request_frame_def split: if_splits)
  then have "owner_tabId owner = tab \<and> owner_origin owner = br_origin req \<and> owner_frameKey owner = frame
      \<and> owner_bridgeInstanceId owner = br_bridgeInstanceId req"
    by (simp add: h(3) recorded_owner_def open_owner_def effective_frameKey_def)
  with h(1,2) asked show ?thesis by blast
qed

theorem sessions_only_for_granted_opens_witness:
  "\<exists>es1 ev es2 req tab frame. sample_run = es1 @ ev # es2 \<and> completes_open es1 ev tab 7 req frame
     \<and> br_origin req = ''https://a''"
proof -
  obtain owner where "session_of (own (run sample_run)) 7 ''t'' = Some owner" "owner_origin owner = ''https://a''"
    using sample_run_session by auto
  with sessions_only_for_granted_opens [OF this(1)] show ?thesis by metis
qed

text \<open>C5: a device is used only from a tab that opened it.  If a close, a change of the data plane, a
  report or a feature report of a page makes the background send anything to the native host, then
  the tab of the page completed an open of that very device before, with the grant and the live
  frame of that open, and the other requests leave the whole state alone but for the answer 403.\<close>

theorem device_use_needs_granted_open:
  assumes "a \<in> {Close, SetDataPlane, SendReport, ReceiveFeatureReport, SendFeatureReport}"
  shows "bk_step (Message e a r req fr sender) (run es) = respond r (Status 403) (run es)
    \<or> (\<exists>tab es1 ev es2 oreq frame. sender_tabId sender = Some tab \<and> es = es1 @ ev # es2
         \<and> completes_open es1 ev tab (br_deviceId req) oreq frame
         \<and> (\<exists>e' r' preq fr' sender'. Message e' PairDevice r' preq fr' sender' \<in> set es1
              \<and> br_origin preq = br_origin oreq \<and> br_deviceId preq = br_deviceId oreq))"
proof (cases "isTabAuthorizedForDevice (sender_tabId sender) (br_deviceId req) (own (run es))")
  case False
  with assms show ?thesis
    by (auto simp: handleClose_def handleSetDataPlane_def handleSendReport_def handleReceiveFeatureReport_def
        handleSendFeatureReport_def tabAllowsDevice_def Let_def)
next
  case True
  then obtain tab where tab: "sender_tabId sender = Some tab"
    by (cases "sender_tabId sender") (auto simp: isTabAuthorizedForDevice_def)
  with True have "(tab, br_deviceId req) \<in> usable (own (run es))" by (simp add: usable_def)
  from usable_history [OF this] tab show ?thesis
    using asked_pairsD [OF completes_open_asked(2)] by metis
qed

theorem device_use_needs_granted_open_witness:
  "\<exists>es1 ev es2 oreq frame. sample_run = es1 @ ev # es2 \<and> completes_open es1 ev 3 7 oreq frame"
proof -
  have "bk_step (sample_message SendReport 9) (run sample_run) \<noteq> respond 9 (Status 403) (run sample_run)"
    using sample_run_use bk_tasks_simps(1) [of 9 "Status 403" "run sample_run"] by (metis Suc_n_not_n)
  moreover have "sender_tabId sample_sender = Some 3" "br_deviceId sample_request = 7"
    by (simp_all add: sample_sender_def sample_request_def)
  ultimately show ?thesis
    using device_use_needs_granted_open [of SendReport sample_io 9 sample_request sample_frame sample_sender sample_run]
    by auto
qed

end
