(* ===== verification/Meta_Csp.thy ===== *)
theory Meta_Csp
  imports Csp Permissions_Policy Js_Bytes
begin

text \<open>
  The policy a document states in a \<open>meta\<close> tag (\<open>background/webrequest.js\<close>): \<open>handleMetaCsp\<close> holds the
  body of a response back until the end of its head, rewrites the tags and lets the page have the
  body. The regular expressions of the code are functions on strings; \<open>TextDecoder\<close> and
  \<open>TextEncoder\<close> are a \<open>text_codec\<close>, whose texts are of Latin-1 code units as in \<open>Js_String\<close>. Then
  \<open>rewriteCspHeaders\<close>, \<open>storeFrameCspInfo\<close> and the record of the session storage that
  \<open>handleGetCspInfo\<close> (\<open>background/messages.js\<close>) reads.
\<close>

section \<open>Strings\<close>

text \<open>\<open>indexOf\<close> of a string; \<open>None\<close> is -1.\<close>

fun index_of_str :: "string \<Rightarrow> string \<Rightarrow> nat option" where
  "index_of_str t [] = (if t = [] then Some 0 else None)"
| "index_of_str t (c # s) =
     (if prefix t (c # s) then Some 0 else map_option Suc (index_of_str t s))"

text \<open>A prefix up to case, for the flag \<open>i\<close> of a regular expression.\<close>

definition prefix_ci :: "string \<Rightarrow> string \<Rightarrow> bool" where
  "prefix_ci t s \<longleftrightarrow> prefix t (toLowerCase (take (length t) s))"

definition is_word_char :: "char \<Rightarrow> bool" where
  "is_word_char c \<longleftrightarrow>
     (let n = of_char c :: nat in 48 \<le> n \<and> n \<le> 57 \<or> 65 \<le> n \<and> n \<le> 90 \<or> n = 95 \<or> 97 \<le> n \<and> n \<le> 122)"

abbreviation dquote :: char where "dquote \<equiv> CHR 0x22"
abbreviation squote :: char where "squote \<equiv> CHR 0x27"

text \<open>What \<open>replace\<close> makes of its second argument: \<open>$$\<close>, \<open>$&\<close>, \<open>$`\<close> and \<open>$'\<close> stand for a dollar
  sign, the match, the text before and the text behind it.\<close>

fun expand_replacement :: "string \<Rightarrow> string \<Rightarrow> string \<Rightarrow> string \<Rightarrow> string" where
  "expand_replacement m before behind (c # d # s) =
     (if c = CHR ''$'' \<and> d = CHR ''$'' then c # expand_replacement m before behind s
      else if c = CHR ''$'' \<and> d = CHR ''&'' then m @ expand_replacement m before behind s
      else if c = CHR ''$'' \<and> d = CHR 0x60 then before @ expand_replacement m before behind s
      else if c = CHR ''$'' \<and> d = squote then behind @ expand_replacement m before behind s
      else c # expand_replacement m before behind (d # s))"
| "expand_replacement m before behind s = s"

text \<open>\<open>s.replace(t, r)\<close> with a string: the first occurrence.\<close>

definition replace_str :: "string \<Rightarrow> string \<Rightarrow> string \<Rightarrow> string" where
  "replace_str s t r =
     (case index_of_str t s of
        None \<Rightarrow> s
      | Some i \<Rightarrow>
          let before = take i s; behind = drop (i + length t) s
          in before @ expand_replacement t before behind r @ behind)"

section \<open>The tags of a head\<close>

text \<open>\<open>/<meta\s[^>]*>/i\<close> at the start of a text: the tag and the text behind it.\<close>

definition meta_tag :: "string \<Rightarrow> (string \<times> string) option" where
  "meta_tag s =
     (if prefix_ci ''<meta'' s
         \<and> (case drop 5 s of [] \<Rightarrow> False | c # r \<Rightarrow> is_ws c \<and> CHR ''>'' \<in> set r)
      then let n = Suc (length (takeWhile (\<lambda>c. c \<noteq> CHR ''>'') s)) in Some (take n s, drop n s)
      else None)"

lemma meta_tag_length: "meta_tag s = Some (tag, rest) \<Longrightarrow> length rest < length s"
  by (cases s) (auto simp: meta_tag_def Let_def prefix_ci_def split: if_splits)

text \<open>\<open>head.replace(/<meta\s[^>]*>/gi, f)\<close>, with what each call of \<open>f\<close> found.\<close>

function replace_tags :: "(string \<Rightarrow> string \<times> 'r) \<Rightarrow> string \<Rightarrow> string \<times> 'r list" where
  "replace_tags f [] = ([], [])"
| "replace_tags f (c # s) =
     (case meta_tag (c # s) of
        None \<Rightarrow> let (t, rs) = replace_tags f s in (c # t, rs)
      | Some (tag, rest) \<Rightarrow>
          let (tag', r) = f tag; (t, rs) = replace_tags f rest in (tag' @ t, r # rs))"
  by pat_completeness auto
termination by (relation "measure (\<lambda>(f, s). length s)") (auto dest: meta_tag_length)

text \<open>\<open>/http-equiv\s*=\s*["']?\s*content-security-policy\s*["']?/i\<close>.\<close>

definition http_equiv_at :: "string \<Rightarrow> bool" where
  "http_equiv_at s \<longleftrightarrow>
     prefix_ci ''http-equiv'' s
     \<and> (case trim_left (drop 10 s) of
          [] \<Rightarrow> False
        | c # r \<Rightarrow>
            c = CHR ''=''
            \<and> (let v = trim_left r;
                   w = (case v of [] \<Rightarrow> [] | q # u \<Rightarrow> if q = dquote \<or> q = squote then trim_left u else v)
               in prefix_ci ''content-security-policy'' w))"

fun is_csp_tag :: "string \<Rightarrow> bool" where
  "is_csp_tag [] \<longleftrightarrow> False"
| "is_csp_tag (c # s) \<longleftrightarrow> http_equiv_at (c # s) \<or> is_csp_tag s"

text \<open>\<open>/\bcontent\s*=\s*("([^"]*)"|'([^']*)'|([^\s>]+))/i\<close>: the quote (none for the third
  alternative), the policy and the number of characters matched.\<close>

record content_match =
  cm_quote :: "char option"
  cm_csp :: string
  cm_length :: nat

definition quoted_text :: "char \<Rightarrow> string \<Rightarrow> string option" where
  "quoted_text q s =
     (case s of
        [] \<Rightarrow> None
      | c # r \<Rightarrow> if c = q \<and> q \<in> set r then Some (takeWhile (\<lambda>x. x \<noteq> q) r) else None)"

definition content_at :: "string \<Rightarrow> content_match option" where
  "content_at s =
     (if \<not> prefix_ci ''content'' s then None
      else case trim_left (drop 7 s) of
        [] \<Rightarrow> None
      | c # r \<Rightarrow>
          if c \<noteq> CHR ''='' then None
          else
            let v = trim_left r; n = length s - length v
            in case (quoted_text dquote v, quoted_text squote v) of
                 (Some csp, _) \<Rightarrow> Some \<lparr>cm_quote = Some dquote, cm_csp = csp, cm_length = n + length csp + 2\<rparr>
               | (None, Some csp) \<Rightarrow> Some \<lparr>cm_quote = Some squote, cm_csp = csp, cm_length = n + length csp + 2\<rparr>
               | (None, None) \<Rightarrow>
                   let csp = takeWhile (\<lambda>x. \<not> is_ws x \<and> x \<noteq> CHR ''>'') v
                   in if csp = [] then None
                      else Some \<lparr>cm_quote = None, cm_csp = csp, cm_length = n + length csp\<rparr>)"

text \<open>The first match in a tag, with the text from it on; \<open>word\<close>: is the character before a word character?\<close>

fun content_match_from :: "bool \<Rightarrow> string \<Rightarrow> (content_match \<times> string) option" where
  "content_match_from word [] = None"
| "content_match_from word (c # s) =
     (case (if word then None else content_at (c # s)) of
        Some m \<Rightarrow> Some (m, take (cm_length m) (c # s))
      | None \<Rightarrow> content_match_from (is_word_char c) s)"

section \<open>Rewriting the tags\<close>

text \<open>The new policy, and whether it changed.\<close>

definition meta_policy :: "string \<Rightarrow> string option \<Rightarrow> csp_info \<Rightarrow> string \<Rightarrow> string \<times> bool" where
  "meta_policy mode scriptHashToken info csp =
     (let (v1, changed1) =
            (if mode = ''blob'' \<and> needsBlobFallback info
             then let (v, modified) = rewriteCspValue csp (hasTrustedTypesRequire info)
                  in if modified then (v, True) else (csp, False)
             else (csp, False))
      in case scriptHashToken of
           None \<Rightarrow> (v1, changed1)
         | Some token \<Rightarrow>
             (case allowInlineScript v1 token of None \<Rightarrow> (v1, changed1) | Some v \<Rightarrow> (v, True)))"

text \<open>The function given to \<open>replace\<close>: the new tag, the policy it found, and whether it changed it.\<close>

definition rewriteMetaTag :: "string \<Rightarrow> string option \<Rightarrow> string \<Rightarrow> string \<Rightarrow> string \<times> csp_info option \<times> bool" where
  "rewriteMetaTag mode scriptHashToken origin tag =
     (if \<not> is_csp_tag tag then (tag, None, False)
      else case content_match_from False tag of
        None \<Rightarrow> (tag, None, False)
      | Some (m, matched) \<Rightarrow>
          (case parseCspForWorkerSpawn [cm_csp m] mode origin of
             None \<Rightarrow> (tag, None, False)
           | Some info \<Rightarrow>
               let (v, changed) = meta_policy mode scriptHashToken info (cm_csp m);
                   quote = (case cm_quote m of Some q \<Rightarrow> [q] | None \<Rightarrow> [dquote])
               in if \<not> changed then (tag, Some info, False)
                  else (replace_str tag matched (''content='' @ quote @ v @ quote), Some info, True)))"

definition rewriteHead ::
    "string \<Rightarrow> string option \<Rightarrow> string \<Rightarrow> string \<Rightarrow> string \<times> csp_info list \<times> bool" where
  "rewriteHead mode scriptHashToken origin head =
     (let (head', found) = replace_tags (rewriteMetaTag mode scriptHashToken origin) head
      in (head', List.map_filter fst found, list_ex snd found))"
section \<open>The filter of a response\<close>

record 'd text_codec =
  tc_start :: 'd
  tc_decode :: "bytes \<Rightarrow> 'd \<Rightarrow> string \<times> 'd"
  tc_flush :: "'d \<Rightarrow> string"
  tc_encode :: "string \<Rightarrow> bytes"

text \<open>A filter holds the response back until it is disconnected, which lets the rest through as it
  comes, or closed, which ends the response.\<close>

datatype filter_state = Filtering | Disconnected | Closed

record 'd meta_filter =
  mf_filter :: filter_state
  mf_page :: bytes              \<comment> \<open>what the page was given\<close>
  mf_rawChunks :: "bytes list"
  mf_decoder :: 'd
  mf_scanText :: string
  mf_gaveUp :: bool
  mf_processed :: bool
  mf_waiting :: "nat option option"   \<comment> \<open>\<open>process\<close> waits for the mode and the token, with its \<open>headEnd\<close>\<close>
  mf_metaInfos :: "csp_info list"

definition new_meta_filter :: "'d text_codec \<Rightarrow> 'd meta_filter" where
  "new_meta_filter tc =
     \<lparr>mf_filter = Filtering, mf_page = [], mf_rawChunks = [], mf_decoder = tc_start tc,
      mf_scanText = [], mf_gaveUp = False, mf_processed = False, mf_waiting = None, mf_metaInfos = []\<rparr>"

text \<open>\<open>process\<close> up to its first await.\<close>

definition meta_process :: "bool \<Rightarrow> 'd meta_filter \<Rightarrow> 'd meta_filter" where
  "meta_process eof s =
     (if mf_processed s then s
      else
        let headEnd = index_of_str ''</head>'' (toLowerCase (mf_scanText s))
        in if headEnd = None \<and> \<not> eof \<and> \<not> mf_gaveUp s then s
           else s\<lparr>mf_processed := True, mf_waiting := Some headEnd\<rparr>)"

definition meta_html :: "'d text_codec \<Rightarrow> 'd meta_filter \<Rightarrow> string" where
  "meta_html tc s = mf_scanText s @ tc_flush tc (mf_decoder s)"

definition meta_head :: "'d text_codec \<Rightarrow> 'd meta_filter \<Rightarrow> nat option \<Rightarrow> string" where
  "meta_head tc s headEnd =
     (case headEnd of None \<Rightarrow> meta_html tc s | Some e \<Rightarrow> take e (meta_html tc s))"

definition meta_tail :: "'d text_codec \<Rightarrow> 'd meta_filter \<Rightarrow> nat option \<Rightarrow> string" where
  "meta_tail tc s headEnd =
     (case headEnd of None \<Rightarrow> [] | Some e \<Rightarrow> drop e (meta_html tc s))"

text \<open>The rest of \<open>process\<close>. A write to a filter that was disconnected by an error throws.\<close>

definition meta_resume ::
    "'d text_codec \<Rightarrow> string \<Rightarrow> string \<Rightarrow> string option \<Rightarrow> 'd meta_filter \<Rightarrow> 'd meta_filter" where
  "meta_resume tc origin mode scriptHashToken s =
     (case mf_waiting s of
        None \<Rightarrow> s
      | Some headEnd \<Rightarrow>
          let (rewrittenHead, metaInfos, anyChange) =
                rewriteHead mode scriptHashToken origin (meta_head tc s headEnd);
              s = s\<lparr>mf_waiting := None, mf_metaInfos := metaInfos\<rparr>
          in if mf_filter s \<noteq> Filtering then s
             else if \<not> anyChange
             then s\<lparr>mf_page := mf_page s @ concat (mf_rawChunks s), mf_filter := Disconnected\<rparr>
             else s\<lparr>mf_page := mf_page s @ tc_encode tc (rewrittenHead @ meta_tail tc s headEnd),
                     mf_filter := Closed\<rparr>)"

text \<open>What happens to a filter: a chunk of the body arrives, which is the page's when the filter is
  disconnected and lost when it is closed; the body ends; the request fails; \<open>process\<close> has its mode
  and its token.\<close>

datatype meta_event =
    BodyChunk bytes
  | BodyEnd
  | BodyFailed
  | ModeKnown string "string option"

definition meta_data :: "'d text_codec \<Rightarrow> bytes \<Rightarrow> 'd meta_filter \<Rightarrow> 'd meta_filter" where
  "meta_data tc chunk s =
     (let s = s\<lparr>mf_rawChunks := mf_rawChunks s @ [chunk]\<rparr>
      in if mf_processed s then s
         else meta_process False
                (if length (mf_scanText s) < 262144
                 then let (text, d) = tc_decode tc chunk (mf_decoder s)
                      in s\<lparr>mf_scanText := mf_scanText s @ text, mf_decoder := d\<rparr>
                 else s\<lparr>mf_gaveUp := True\<rparr>))"

fun meta_step :: "'d text_codec \<Rightarrow> string \<Rightarrow> meta_event \<Rightarrow> 'd meta_filter \<Rightarrow> 'd meta_filter" where
  "meta_step tc origin (BodyChunk chunk) s =
     (case mf_filter s of
        Filtering \<Rightarrow> meta_data tc chunk s
      | Disconnected \<Rightarrow> s\<lparr>mf_page := mf_page s @ chunk\<rparr>
      | Closed \<Rightarrow> s)"
| "meta_step tc origin BodyEnd s =
     (if mf_filter s = Filtering then meta_process True s else s)"
| "meta_step tc origin BodyFailed s =
     (if mf_filter s = Filtering then s\<lparr>mf_filter := Disconnected\<rparr> else s)"
| "meta_step tc origin (ModeKnown mode token) s = meta_resume tc origin mode token s"

definition meta_run :: "'d text_codec \<Rightarrow> string \<Rightarrow> meta_event list \<Rightarrow> 'd meta_filter" where
  "meta_run tc origin es = fold (meta_step tc origin) es (new_meta_filter tc)"

text \<open>The body that arrived.\<close>

definition body_of :: "meta_event list \<Rightarrow> bytes" where
  "body_of es = concat (List.map_filter (\<lambda>e. case e of BodyChunk c \<Rightarrow> Some c | _ \<Rightarrow> None) es)"

section \<open>The session storage\<close>

text \<open>The record of a frame: the analysis of its header, or that of its tags over the record there was.
  \<open>None\<close> and \<open>False\<close> are absent fields too.\<close>

record stored_csp =
  sc_workerSrc :: "string option"
  sc_connectSrc :: "string option"
  sc_workerSrcBlocked :: bool
  sc_connectSrcBlocked :: bool
  sc_hasTrustedTypesRequire :: bool
  sc_trustedTypesNames :: "string list option"
  sc_shadowBlocked :: bool
  sc_metaShadowBlocked :: bool
  sc_headerShadowBlocked :: bool
  sc_needsBlobFallback :: bool
  sc_rewrittenCsp :: "string list option"

definition merge_meta_csp :: "csp_info list \<Rightarrow> stored_csp option \<Rightarrow> stored_csp" where
  "merge_meta_csp metaInfos existing =
     (let had = (\<lambda>f. case existing of None \<Rightarrow> False | Some e \<Rightarrow> f e);
          had_src = (\<lambda>f. case existing of None \<Rightarrow> None | Some e \<Rightarrow> f e);
          some = (\<lambda>f. list_ex f metaInfos)
      in \<lparr>sc_workerSrc = first_defined (workerSrc (hd metaInfos)) (had_src sc_workerSrc),
          sc_connectSrc = first_defined (connectSrc (hd metaInfos)) (had_src sc_connectSrc),
          sc_workerSrcBlocked = (some workerSrcBlocked \<or> had sc_workerSrcBlocked),
          sc_connectSrcBlocked = (some connectSrcBlocked \<or> had sc_connectSrcBlocked),
          sc_hasTrustedTypesRequire = (some hasTrustedTypesRequire \<or> had sc_hasTrustedTypesRequire),
          sc_trustedTypesNames = None,
          sc_shadowBlocked = (some shadowBlocked \<or> had sc_shadowBlocked),
          sc_metaShadowBlocked = (some shadowBlocked \<or> had sc_metaShadowBlocked),
          sc_headerShadowBlocked = had sc_headerShadowBlocked,
          sc_needsBlobFallback = (some needsBlobFallback \<or> had sc_needsBlobFallback),
          sc_rewrittenCsp = None\<rparr>)"

type_synonym session_store = "(string, stored_csp) js_map"

definition frameKey :: "nat \<Rightarrow> nat \<Rightarrow> string \<Rightarrow> string" where
  "frameKey tabId frameId origin = show_nat tabId @ '':'' @ show_nat frameId @ '':'' @ origin"

definition csp_key :: "nat \<Rightarrow> nat \<Rightarrow> string \<Rightarrow> string" where
  "csp_key tabId frameId origin = ''csp:'' @ frameKey tabId frameId origin"

text \<open>The part of \<open>process\<close> that records what it found.\<close>

definition store_meta_csp :: "nat \<Rightarrow> nat \<Rightarrow> string \<Rightarrow> csp_info list \<Rightarrow> session_store \<Rightarrow> session_store" where
  "store_meta_csp tabId frameId origin metaInfos st =
     (if metaInfos = [] then st
      else let key = csp_key tabId frameId origin
           in map_set st key (merge_meta_csp metaInfos (map_get st key)))"

text \<open>\<open>rewriteCspHeaders\<close> and \<open>storeFrameCspInfo\<close>. The settings that \<open>resolveSiteSpawnMode\<close> awaits and
  the token are arguments; \<open>isMv2\<close> is the manifest's.\<close>

definition is_csp_header :: "header \<Rightarrow> bool" where
  "is_csp_header h \<longleftrightarrow> toLowerCase (fst h) = ''content-security-policy''"

definition rewriteCspHeaders :: "header list \<Rightarrow> (string \<Rightarrow> string option) \<Rightarrow> header list option" where
  "rewriteCspHeaders headers rewrite =
     (let out = map (\<lambda>h. if \<not> is_csp_header h then (h, False)
                          else case rewrite (snd h) of
                            None \<Rightarrow> (h, False)
                          | Some v \<Rightarrow> if v = snd h then (h, False) else ((fst h, v), True)) headers
      in if list_ex snd out then Some (map fst out) else None)"

definition resolveSiteSpawnMode :: "string \<Rightarrow> string \<Rightarrow> string option \<Rightarrow> string" where
  "resolveSiteSpawnMode origin global site =
     (if origin = [] then global else case site of Some mode \<Rightarrow> mode | None \<Rightarrow> global)"

definition stored_of_header :: "csp_info \<Rightarrow> string list option \<Rightarrow> stored_csp" where
  "stored_of_header info rewritten =
     \<lparr>sc_workerSrc = workerSrc info, sc_connectSrc = connectSrc info,
      sc_workerSrcBlocked = workerSrcBlocked info, sc_connectSrcBlocked = connectSrcBlocked info,
      sc_hasTrustedTypesRequire = hasTrustedTypesRequire info,
      sc_trustedTypesNames = Some (trustedTypesNames info), sc_shadowBlocked = shadowBlocked info,
      sc_metaShadowBlocked = False, sc_headerShadowBlocked = shadowBlocked info,
      sc_needsBlobFallback = needsBlobFallback info, sc_rewrittenCsp = rewritten\<rparr>"

definition storeFrameCspInfo ::
    "bool \<Rightarrow> string option \<Rightarrow> string \<Rightarrow> nat \<Rightarrow> nat \<Rightarrow> string \<Rightarrow> header list \<Rightarrow> session_store
     \<Rightarrow> session_store \<times> header list option" where
  "storeFrameCspInfo isMv2 token mode tabId frameId origin responseHeaders st =
     (let cspValues = map snd (filter is_csp_header responseHeaders);
          key = csp_key tabId frameId origin;
          cspInfo = parseCspForWorkerSpawn cspValues mode origin;
          blob = (case cspInfo of
                    Some info \<Rightarrow>
                      if isMv2 \<and> needsBlobFallback info
                      then rewriteCspForBlob responseHeaders (hasTrustedTypesRequire info) else None
                  | None \<Rightarrow> None);
          headers = (case blob of Some hs \<Rightarrow> hs | None \<Rightarrow> responseHeaders);
          inline = (if isMv2 \<and> cspValues \<noteq> []
                    then case token of
                           Some t \<Rightarrow> rewriteCspHeaders headers (\<lambda>v. allowInlineScript v t)
                         | None \<Rightarrow> None
                    else None);
          modified = (case inline of Some hs \<Rightarrow> Some hs | None \<Rightarrow> blob);
          rewritten = map_option (\<lambda>hs. map snd (filter is_csp_header hs)) blob
      in (case cspInfo of
            Some info \<Rightarrow> map_set st key (stored_of_header info rewritten)
          | None \<Rightarrow> map_delete st key,
          modified))"

text \<open>The records forgotten when a frame navigates and when a tab is closed.\<close>

definition clear_csp_frame :: "nat \<Rightarrow> nat \<Rightarrow> session_store \<Rightarrow> session_store" where
  "clear_csp_frame tabId frameId =
     filter (\<lambda>(k, _). \<not> prefix (''csp:'' @ show_nat tabId @ '':'' @ show_nat frameId @ '':'') k)"

definition clear_csp_tab :: "nat \<Rightarrow> session_store \<Rightarrow> session_store" where
  "clear_csp_tab tabId = filter (\<lambda>(k, _). \<not> prefix (''csp:'' @ show_nat tabId @ '':'') k)"

definition handleGetCspInfo ::
    "(string \<Rightarrow> string option) \<Rightarrow> nat option \<Rightarrow> nat \<Rightarrow> string \<Rightarrow> session_store \<Rightarrow> stored_csp option" where
  "handleGetCspInfo origin_of tabId frameId url st =
     (case tabId of
        None \<Rightarrow> None
      | Some tab \<Rightarrow> map_get st (csp_key tab frameId (urlOrigin origin_of url)))"
section \<open>What a filter does with a body\<close>

definition chunks_of :: "meta_event list \<Rightarrow> bytes list" where
  "chunks_of es = List.map_filter (\<lambda>e. case e of BodyChunk c \<Rightarrow> Some c | _ \<Rightarrow> None) es"

definition decode_chunks :: "'d text_codec \<Rightarrow> bytes list \<Rightarrow> string \<times> 'd" where
  "decode_chunks tc cs =
     fold (\<lambda>c (t, d). let (u, d') = tc_decode tc c d in (t @ u, d')) cs ([], tc_start tc)"

lemma body_of_chunks: "body_of es = concat (chunks_of es)"
  by (simp add: body_of_def chunks_of_def)

lemma chunks_of_snoc [simp]:
  "chunks_of [] = []"
  "chunks_of (es @ [e]) = (case e of BodyChunk c \<Rightarrow> chunks_of es @ [c] | _ \<Rightarrow> chunks_of es)"
  by (auto simp: chunks_of_def List.map_filter_def split: meta_event.splits)

text \<open>Where the head ends in the text that was scanned, and when it counts as read: its end was found, the
  body ended, or as much was scanned as ever is.\<close>

definition head_end :: "'d meta_filter \<Rightarrow> nat option" where
  "head_end s = index_of_str ''</head>'' (toLowerCase (mf_scanText s))"

definition head_read :: "meta_event list \<Rightarrow> 'd meta_filter \<Rightarrow> bool" where
  "head_read es s \<longleftrightarrow> head_end s \<noteq> None \<or> BodyEnd \<in> set es \<or> 262144 \<le> length (mf_scanText s)"

definition head_inv :: "meta_event list \<Rightarrow> 'd meta_filter \<Rightarrow> bool" where
  "head_inv es s \<longleftrightarrow>
     (mf_processed s \<longrightarrow> head_read es s)
     \<and> (\<forall>h. mf_waiting s = Some h \<longrightarrow> h = head_end s \<and> mf_processed s)
     \<and> (mf_filter s = Filtering \<and> \<not> mf_processed s \<longrightarrow> head_end s = None)
     \<and> (mf_filter s = Disconnected \<longrightarrow> BodyFailed \<in> set es \<or> mf_processed s)
     \<and> (mf_filter s = Closed \<longrightarrow> mf_processed s)
     \<and> (mf_gaveUp s \<longrightarrow> 262144 \<le> length (mf_scanText s))"

lemma head_end_update [simp]:
  "head_end (s\<lparr>mf_waiting := w\<rparr>) = head_end s" "head_end (s\<lparr>mf_metaInfos := is\<rparr>) = head_end s"
  "head_end (s\<lparr>mf_page := p\<rparr>) = head_end s" "head_end (s\<lparr>mf_filter := f\<rparr>) = head_end s"
  "head_end (s\<lparr>mf_rawChunks := cs\<rparr>) = head_end s" "head_end (s\<lparr>mf_gaveUp := g\<rparr>) = head_end s"
  "head_end (s\<lparr>mf_processed := b\<rparr>) = head_end s" "head_end (s\<lparr>mf_decoder := d\<rparr>) = head_end s"
  by (simp_all add: head_end_def)

lemma head_process:
  assumes "mf_filter s = Filtering" "mf_gaveUp s \<longrightarrow> 262144 \<le> length (mf_scanText s)" "eof \<longrightarrow> BodyEnd \<in> set es"
    "mf_processed s \<longrightarrow> head_inv es s" "\<not> mf_processed s \<longrightarrow> mf_waiting s = None"
  shows "head_inv es (meta_process eof s)"
  using assms
  by (cases "head_end s") (auto simp: meta_process_def Let_def head_inv_def head_read_def head_end_def)

lemma head_more: "head_inv es s \<Longrightarrow> head_inv (es @ [e]) s"
  by (auto simp: head_inv_def head_read_def)

lemma head_data:
  assumes "head_inv es s" "mf_filter s = Filtering"
  shows "head_inv (es @ [BodyChunk c]) (meta_data tc c s)"
proof (cases "mf_processed s")
  case True
  then show ?thesis
    using assms by (auto simp: head_inv_def head_read_def meta_data_def)
next
  case False
  let ?s = "s\<lparr>mf_rawChunks := mf_rawChunks s @ [c]\<rparr>"
  let ?t = "if length (mf_scanText ?s) < 262144
      then let (text, d) = tc_decode tc c (mf_decoder ?s) in ?s\<lparr>mf_scanText := mf_scanText ?s @ text, mf_decoder := d\<rparr>
      else ?s\<lparr>mf_gaveUp := True\<rparr>"
  have w: "mf_waiting s = None"
  proof (rule ccontr)
    assume "mf_waiting s \<noteq> None"
    then obtain h where "mf_waiting s = Some h" by blast
    with assms(1) False show False unfolding head_inv_def by blast
  qed
  have g: "mf_gaveUp s \<longrightarrow> 262144 \<le> length (mf_scanText s)" using assms(1) unfolding head_inv_def by blast
  have "head_inv (es @ [BodyChunk c]) (meta_process False ?t)"
    by (rule head_process) (use assms False w g in \<open>auto simp: Let_def split: prod.split\<close>)
  then show ?thesis using False by (simp add: meta_data_def Let_def)
qed

lemma head_step:
  assumes "head_inv es s"
  shows "head_inv (es @ [e]) (meta_step tc origin e s)"
proof (cases e)
  case (BodyChunk c)
  then show ?thesis using assms head_data [OF assms] head_more [OF assms, of e]
    by (cases "mf_filter s") (auto simp: head_inv_def head_read_def)
next
  case BodyEnd
  have "head_inv (es @ [BodyEnd]) (meta_process True s)" if f: "mf_filter s = Filtering"
  proof (rule head_process [OF f])
    show "mf_gaveUp s \<longrightarrow> 262144 \<le> length (mf_scanText s)" using assms unfolding head_inv_def by blast
    show "mf_processed s \<longrightarrow> head_inv (es @ [BodyEnd]) s" using head_more [OF assms] by blast
    show "\<not> mf_processed s \<longrightarrow> mf_waiting s = None" using assms unfolding head_inv_def by (metis option.exhaust)
  qed simp
  then show ?thesis using BodyEnd head_more [OF assms, of e] by simp
next
  case BodyFailed
  then show ?thesis using assms by (auto simp: head_inv_def head_read_def)
next
  case (ModeKnown mode token)
  then show ?thesis
    using assms by (auto simp: meta_resume_def head_inv_def head_read_def Let_def split: option.split prod.split)
qed

lemma head_run: "head_inv es (meta_run tc origin es)"
proof (induction es rule: rev_induct)
  case Nil
  show ?case by (simp add: meta_run_def head_inv_def new_meta_filter_def head_end_def toLowerCase_def index_of_str.simps)
next
  case (snoc e es)
  then show ?case using head_step [of es "meta_run tc origin es" e] by (simp add: meta_run_def)
qed

text \<open>What a closed filter gave the page: the text scanned, with its tags rewritten.\<close>

definition rewritten_page :: "'d text_codec \<Rightarrow> string \<Rightarrow> meta_event list \<Rightarrow> 'd meta_filter \<Rightarrow> bool" where
  "rewritten_page tc origin es s \<longleftrightarrow>
     (\<exists>mode token head infos. ModeKnown mode token \<in> set es
        \<and> rewriteHead mode token origin (meta_head tc s (head_end s)) = (head, infos, True)
        \<and> mf_page s = tc_encode tc (head @ meta_tail tc s (head_end s)))"

definition scanned :: "'d text_codec \<Rightarrow> meta_event list \<Rightarrow> 'd meta_filter \<Rightarrow> bool" where
  "scanned tc es s \<longleftrightarrow> (\<exists>n. (mf_scanText s, mf_decoder s) = decode_chunks tc (take n (chunks_of es)))"

definition meta_inv :: "'d text_codec \<Rightarrow> string \<Rightarrow> meta_event list \<Rightarrow> 'd meta_filter \<Rightarrow> bool" where
  "meta_inv tc origin es s \<longleftrightarrow>
     scanned tc es s
     \<and> (mf_filter s = Filtering \<longrightarrow>
          mf_page s = [] \<and> mf_rawChunks s = chunks_of es
          \<and> (if mf_processed s then mf_waiting s \<noteq> None
             else mf_waiting s = None \<and> \<not> mf_gaveUp s
               \<and> (mf_scanText s, mf_decoder s) = decode_chunks tc (chunks_of es)))
     \<and> (mf_filter s = Disconnected \<longrightarrow> BodyFailed \<in> set es \<or> mf_page s = body_of es)
     \<and> (mf_filter s = Closed \<longrightarrow> rewritten_page tc origin es s)"

lemma scanned_more: "scanned tc es s \<Longrightarrow> scanned tc (es @ [e]) s"
proof -
  assume "scanned tc es s"
  then obtain n where "(mf_scanText s, mf_decoder s) = decode_chunks tc (take n (chunks_of es))"
    by (auto simp: scanned_def)
  then have "(mf_scanText s, mf_decoder s)
      = decode_chunks tc (take (min n (length (chunks_of es))) (chunks_of (es @ [e])))"
    by (cases e) (auto simp: min_def)
  then show ?thesis unfolding scanned_def by blast
qed

lemma rewritten_more: "rewritten_page tc origin es s \<Longrightarrow> rewritten_page tc origin (es @ [e]) s"
  unfolding rewritten_page_def set_append by blast

lemma meta_text_update [simp]:
  "meta_html tc (s\<lparr>mf_waiting := w\<rparr>) = meta_html tc s" "meta_html tc (s\<lparr>mf_metaInfos := is\<rparr>) = meta_html tc s"
  "meta_html tc (s\<lparr>mf_page := p\<rparr>) = meta_html tc s" "meta_html tc (s\<lparr>mf_filter := f\<rparr>) = meta_html tc s"
  "meta_head tc (s\<lparr>mf_waiting := w\<rparr>) = meta_head tc s" "meta_head tc (s\<lparr>mf_metaInfos := is\<rparr>) = meta_head tc s"
  "meta_head tc (s\<lparr>mf_page := p\<rparr>) = meta_head tc s" "meta_head tc (s\<lparr>mf_filter := f\<rparr>) = meta_head tc s"
  "meta_tail tc (s\<lparr>mf_waiting := w\<rparr>) = meta_tail tc s" "meta_tail tc (s\<lparr>mf_metaInfos := is\<rparr>) = meta_tail tc s"
  "meta_tail tc (s\<lparr>mf_page := p\<rparr>) = meta_tail tc s" "meta_tail tc (s\<lparr>mf_filter := f\<rparr>) = meta_tail tc s"
  by (auto simp: meta_html_def meta_head_def meta_tail_def fun_eq_iff split: option.splits)

lemma scanned_update [simp]:
  "scanned tc es (s\<lparr>mf_waiting := w\<rparr>) = scanned tc es s"
  "scanned tc es (s\<lparr>mf_metaInfos := is\<rparr>) = scanned tc es s"
  "scanned tc es (s\<lparr>mf_page := p\<rparr>) = scanned tc es s"
  "scanned tc es (s\<lparr>mf_filter := f\<rparr>) = scanned tc es s"
  "scanned tc es (s\<lparr>mf_rawChunks := cs\<rparr>) = scanned tc es s"
  "scanned tc es (s\<lparr>mf_gaveUp := g\<rparr>) = scanned tc es s"
  "scanned tc es (s\<lparr>mf_processed := b\<rparr>) = scanned tc es s"
  by (simp_all add: scanned_def)

lemma meta_process_inv:
  assumes "mf_filter s = Filtering" "mf_page s = []" "mf_rawChunks s = chunks_of es" "scanned tc es s"
    and "if mf_processed s then mf_waiting s \<noteq> None
         else mf_waiting s = None
           \<and> (\<not> mf_gaveUp s \<longrightarrow> (mf_scanText s, mf_decoder s) = decode_chunks tc (chunks_of es))"
  shows "meta_inv tc origin es (meta_process eof s)"
proof -
  have "scanned tc es (meta_process eof s)"
    using assms(4) by (simp add: scanned_def meta_process_def Let_def)
  with assms(1-3,5) show ?thesis
    unfolding meta_inv_def by (simp add: meta_process_def Let_def split: if_splits)
qed

lemma decode_chunks_snoc:
  "decode_chunks tc (cs @ [c]) =
     (let (t, d) = decode_chunks tc cs; (u, d') = tc_decode tc c d in (t @ u, d'))"
  by (simp add: decode_chunks_def case_prod_beta Let_def)

lemma meta_data_inv:
  assumes "meta_inv tc origin es s" "mf_filter s = Filtering"
  shows "meta_inv tc origin (es @ [BodyChunk c]) (meta_data tc c s)"
proof (cases "mf_processed s")
  case True
  then show ?thesis
    using assms scanned_more [of tc es s "BodyChunk c"]
    by (simp add: meta_inv_def meta_data_def Let_def)
next
  case False
  have now: "(mf_scanText s, mf_decoder s) = decode_chunks tc (chunks_of es)"
    using assms False by (simp add: meta_inv_def)
  then have all: "decode_chunks tc (chunks_of (es @ [BodyChunk c]))
      = (let (u, d') = tc_decode tc c (mf_decoder s) in (mf_scanText s @ u, d'))"
    by (simp add: decode_chunks_snoc flip: now)
  obtain u d' where dec: "tc_decode tc c (mf_decoder s) = (u, d')" by fastforce
  have sc: "scanned tc (es @ [BodyChunk c])
      (if length (mf_scanText s) < 262144
       then s\<lparr>mf_rawChunks := mf_rawChunks s @ [c], mf_scanText := mf_scanText s @ u, mf_decoder := d'\<rparr>
       else s\<lparr>mf_rawChunks := mf_rawChunks s @ [c], mf_gaveUp := True\<rparr>)"
  proof (cases "length (mf_scanText s) < 262144")
    case True
    then show ?thesis
      using all dec by (auto simp: scanned_def intro!: exI [of _ "Suc (length (chunks_of es))"])
  next
    case False
    then show ?thesis using scanned_more [of tc es s "BodyChunk c"] assms(1)
      by (simp add: meta_inv_def Let_def)
  qed
  let ?s = "if length (mf_scanText s) < 262144
    then s\<lparr>mf_rawChunks := mf_rawChunks s @ [c], mf_scanText := mf_scanText s @ u, mf_decoder := d'\<rparr>
    else s\<lparr>mf_rawChunks := mf_rawChunks s @ [c], mf_gaveUp := True\<rparr>"
  have "meta_data tc c s = meta_process False ?s"
    using False dec by (simp add: meta_data_def Let_def)
  moreover have "meta_inv tc origin (es @ [BodyChunk c]) (meta_process False ?s)"
  proof (rule meta_process_inv [OF _ _ _ sc])
    show "mf_filter ?s = Filtering" "mf_page ?s = []" "mf_rawChunks ?s = chunks_of (es @ [BodyChunk c])"
      using assms by (auto simp: meta_inv_def)
    show "if mf_processed ?s then mf_waiting ?s \<noteq> None
      else mf_waiting ?s = None \<and> (\<not> mf_gaveUp ?s \<longrightarrow>
        (mf_scanText ?s, mf_decoder ?s) = decode_chunks tc (chunks_of (es @ [BodyChunk c])))"
      using assms False all dec by (simp add: meta_inv_def)
  qed
  ultimately show ?thesis by simp
qed

lemma meta_resume_inv:
  assumes "meta_inv tc origin es s" and read: "head_inv es s"
  shows "meta_inv tc origin (es @ [ModeKnown mode token]) (meta_resume tc origin mode token s)"
proof (cases "mf_waiting s")
  case None
  then show ?thesis
    using assms scanned_more [of tc es s "ModeKnown mode token"]
      rewritten_more [of tc origin es s "ModeKnown mode token"]
    by (auto simp: meta_inv_def meta_resume_def body_of_chunks)
next
  case (Some headEnd)
  have e: "headEnd = head_end s" using read Some unfolding head_inv_def by blast
  obtain head infos change where rw: "rewriteHead mode token origin (meta_head tc s headEnd) = (head, infos, change)"
    by (metis prod_cases3)
  have more: "scanned tc (es @ [ModeKnown mode token]) s"
    using assms scanned_more by (auto simp: meta_inv_def)
  show ?thesis
  proof (cases "mf_filter s")
    case Filtering
    have "rewritten_page tc origin (es @ [ModeKnown mode token])
            (s\<lparr>mf_waiting := None, mf_metaInfos := infos,
               mf_page := mf_page s @ tc_encode tc (head @ meta_tail tc s headEnd), mf_filter := Closed\<rparr>)" if change
      unfolding rewritten_page_def
      by (rule exI [of _ mode], rule exI [of _ token], rule exI [of _ head], rule exI [of _ infos])
        (use rw that Filtering assms(1) e in \<open>simp add: meta_inv_def\<close>)
    then show ?thesis
      using assms Some rw Filtering more
      by (simp add: meta_inv_def meta_resume_def body_of_chunks Let_def)
  next
    case Disconnected
    then show ?thesis using assms Some rw more
      by (auto simp: meta_inv_def meta_resume_def body_of_chunks Let_def)
  next
    case Closed
    have "rewritten_page tc origin (es @ [ModeKnown mode token]) (s\<lparr>mf_waiting := None, mf_metaInfos := infos\<rparr>)"
      using assms Closed rewritten_more [of tc origin es s "ModeKnown mode token"]
      by (simp add: meta_inv_def rewritten_page_def)
    then show ?thesis using Some rw Closed more
      by (simp add: meta_inv_def meta_resume_def Let_def)
  qed
qed

lemma meta_step_inv:
  assumes "meta_inv tc origin es s" and read: "head_inv es s"
  shows "meta_inv tc origin (es @ [e]) (meta_step tc origin e s)"
proof (cases e)
  case (BodyChunk c)
  show ?thesis
  proof (cases "mf_filter s")
    case Filtering
    then show ?thesis using meta_data_inv [OF assms(1) Filtering, of c] BodyChunk by simp
  next
    case Disconnected
    then show ?thesis using assms scanned_more [of tc es s e] BodyChunk
      by (simp add: meta_inv_def body_of_chunks)
  next
    case Closed
    then show ?thesis using assms scanned_more [of tc es s e] rewritten_more [of tc origin es s e] BodyChunk
      by (simp add: meta_inv_def)
  qed
next
  case BodyEnd
  show ?thesis
  proof (cases "mf_filter s = Filtering")
    case True
    have "meta_inv tc origin (es @ [e]) (meta_process True s)"
      by (rule meta_process_inv)
        (use assms True scanned_more [of tc es s e] BodyEnd in \<open>auto simp: meta_inv_def\<close>)
    then show ?thesis using True BodyEnd by simp
  next
    case False
    then show ?thesis using assms scanned_more [of tc es s e] rewritten_more [of tc origin es s e] BodyEnd
      by (cases "mf_filter s") (auto simp: meta_inv_def body_of_chunks)
  qed
next
  case BodyFailed
  then show ?thesis using assms scanned_more [of tc es s e] rewritten_more [of tc origin es s e]
    by (cases "mf_filter s") (auto simp: meta_inv_def scanned_def)
next
  case (ModeKnown mode token)
  then show ?thesis using meta_resume_inv [OF assms, of mode token] by simp
qed

lemma meta_run_inv: "meta_inv tc origin es (meta_run tc origin es)"
proof (induction es rule: rev_induct)
  case Nil
  have "scanned tc [] (new_meta_filter tc)"
    by (simp add: scanned_def new_meta_filter_def decode_chunks_def)
  then show ?case
    by (simp add: meta_run_def meta_inv_def new_meta_filter_def decode_chunks_def)
next
  case (snoc e es)
  then show ?case using meta_step_inv [of tc origin es "meta_run tc origin es" e] head_run [of es tc origin]
    by (simp add: meta_run_def)
qed
lemma meta_processed_stays:
  assumes "mf_filter s = Filtering \<longrightarrow> mf_processed s"
  shows "mf_filter (meta_step tc origin e s) = Filtering \<longrightarrow> mf_processed (meta_step tc origin e s)"
  using assms
  by (cases e) (auto simp: meta_data_def meta_process_def meta_resume_def Let_def
      split: filter_state.splits option.splits prod.splits if_splits)

lemma meta_processed_run:
  "(mf_filter s = Filtering \<longrightarrow> mf_processed s) \<Longrightarrow>
   mf_filter (fold (meta_step tc origin) es s) = Filtering \<longrightarrow> mf_processed (fold (meta_step tc origin) es s)"
proof (induction es arbitrary: s)
  case (Cons e es)
  show ?case using Cons.IH [OF meta_processed_stays [OF Cons.prems]] by simp
qed simp

lemma meta_filter_completes:
  "mf_filter (meta_run tc origin (es @ BodyEnd # es' @ [ModeKnown mode token])) \<noteq> Filtering"
proof -
  let ?s = "meta_run tc origin (es @ BodyEnd # es')"
  have "mf_filter (meta_step tc origin BodyEnd s) = Filtering \<longrightarrow> mf_processed (meta_step tc origin BodyEnd s)"
    for s :: "'a meta_filter"
    by (auto simp: meta_process_def Let_def split: if_splits)
  then have "mf_filter ?s = Filtering \<longrightarrow> mf_processed ?s"
    using meta_processed_run by (fastforce simp: meta_run_def)
  then have "mf_filter ?s = Filtering \<longrightarrow> mf_waiting ?s \<noteq> None"
    using meta_run_inv [of tc origin "es @ BodyEnd # es'"] by (auto simp: meta_inv_def)
  moreover have "meta_run tc origin (es @ BodyEnd # es' @ [ModeKnown mode token])
      = meta_resume tc origin mode token ?s" by (simp add: meta_run_def)
  ultimately show ?thesis
    by (auto simp: meta_resume_def Let_def split: option.splits prod.splits)
qed

section \<open>What the rewriting touches\<close>

lemma meta_tag_parts:
  assumes "meta_tag s = Some (tag, rest)"
  shows "s = tag @ rest" "meta_tag tag = Some (tag, [])"
proof -
  obtain c r where d: "drop 5 s = c # r" "is_ws c" "CHR ''>'' \<in> set r" and p: "prefix_ci ''<meta'' s"
    and tag: "tag = take (Suc (length (takeWhile (\<lambda>c. c \<noteq> CHR ''>'') s))) s"
    and rest: "rest = drop (Suc (length (takeWhile (\<lambda>c. c \<noteq> CHR ''>'') s))) s"
    using assms by (auto simp: meta_tag_def Let_def split: if_splits list.splits)
  show "s = tag @ rest" using tag rest by simp
  let ?a = "take 5 s"
  have s: "s = ?a @ c # r" using d(1) by (metis append_take_drop_id)
  have len: "length ?a = 5" using d(1) by (cases "length s < 5") auto
  have low: "toLowerCase ?a = ''<meta''"
  proof -
    have "prefix ''<meta'' (toLowerCase ?a)" using p by (simp add: prefix_ci_def numeral_eq_Suc)
    then obtain u where u: "toLowerCase ?a = ''<meta'' @ u" by (auto simp: prefix_def)
    moreover have "length (toLowerCase ?a) = 5" using len by (simp add: toLowerCase_def)
    ultimately show ?thesis by simp
  qed
  have a: "CHR ''>'' \<notin> set ?a"
  proof
    assume "CHR ''>'' \<in> set ?a"
    then have "lower_char CHR ''>'' \<in> set (toLowerCase ?a)" by (simp add: toLowerCase_def)
    then show False by (simp add: low lower_char_def Let_def)
  qed
  have c: "c \<noteq> CHR ''>''" using d(2) by (auto simp: is_ws_def)
  obtain r1 r2 where r: "r = r1 @ CHR ''>'' # r2" "CHR ''>'' \<notin> set r1" using d(3) by (meson split_list_first)
  let ?t = "?a @ c # r1"
  have sp: "s = ?t @ CHR ''>'' # r2" using s r(1) by simp
  have out: "CHR ''>'' \<notin> set ?t" using a c r(2) by auto
  have n: "takeWhile (\<lambda>c. c \<noteq> CHR ''>'') (?t @ CHR ''>'' # u) = ?t" for u
  proof -
    have "takeWhile (\<lambda>c. c \<noteq> CHR ''>'') (?t @ CHR ''>'' # u)
        = ?t @ takeWhile (\<lambda>c. c \<noteq> CHR ''>'') (CHR ''>'' # u)"
      by (rule takeWhile_append2) (use out in auto)
    then show ?thesis by simp
  qed
  have t: "tag = ?t @ [CHR ''>'']"
  proof -
    have "takeWhile (\<lambda>c. c \<noteq> CHR ''>'') s = ?t" by (subst sp) (rule n)
    moreover have "take (Suc (length t)) (t @ x # u) = t @ [x]" for t u :: string and x by simp
    then have "take (Suc (length ?t)) s = ?t @ [CHR ''>'']" by (metis sp)
    ultimately show ?thesis unfolding tag by simp
  qed
  have "take 5 tag = ?a" "drop 5 tag = c # r1 @ [CHR ''>'']" using t len by auto
  moreover have "takeWhile (\<lambda>c. c \<noteq> CHR ''>'') tag = ?t" unfolding t by (rule n)
  moreover have "prefix_ci ''<meta'' tag" using p \<open>take 5 tag = ?a\<close> by (simp add: prefix_ci_def numeral_eq_Suc)
  moreover have "Suc (length ?t) = length tag" by (simp add: t)
  ultimately show "meta_tag tag = Some (tag, [])"
    using d(2) by (simp add: meta_tag_def Let_def)
qed

lemma replace_tags_parts:
  "\<exists>parts. s = concat (map fst parts) \<and> fst (replace_tags f s) = concat (map snd parts)
     \<and> list_all (\<lambda>p. fst p = snd p \<or> meta_tag (fst p) = Some (fst p, []) \<and> snd p = fst (f (fst p))) parts
     \<and> snd (replace_tags f s) = List.map_filter (\<lambda>p. if meta_tag (fst p) = None then None else Some (snd (f (fst p)))) parts"
proof (induction f s rule: replace_tags.induct)
  case (1 f)
  show ?case by (rule exI [of _ "[]"]) (simp add: List.map_filter_def)
next
  case (2 f c s)
  show ?case
  proof (cases "meta_tag (c # s)")
    case None
    obtain parts where p: "s = concat (map fst parts)" "fst (replace_tags f s) = concat (map snd parts)"
      "list_all (\<lambda>p. fst p = snd p \<or> meta_tag (fst p) = Some (fst p, []) \<and> snd p = fst (f (fst p))) parts"
      "snd (replace_tags f s) = List.map_filter (\<lambda>p. if meta_tag (fst p) = None then None else Some (snd (f (fst p)))) parts"
      using "2.IH"(1) [OF None] by blast
    have "meta_tag [c] = None" by (simp add: meta_tag_def)
    with None p show ?thesis
      by (intro exI [of _ "([c], [c]) # parts"]) (simp add: List.map_filter_simps case_prod_beta Let_def)
  next
    case (Some tr)
    obtain tag rest where tr: "tr = (tag, rest)" by fastforce
    obtain tag' r where f: "f tag = (tag', r)" by fastforce
    obtain parts where p: "rest = concat (map fst parts)" "fst (replace_tags f rest) = concat (map snd parts)"
      "list_all (\<lambda>p. fst p = snd p \<or> meta_tag (fst p) = Some (fst p, []) \<and> snd p = fst (f (fst p))) parts"
      "snd (replace_tags f rest) = List.map_filter (\<lambda>p. if meta_tag (fst p) = None then None else Some (snd (f (fst p)))) parts"
      using "2.IH"(2) [OF Some] tr f by fastforce
    have tag: "c # s = tag @ rest" "meta_tag tag = Some (tag, [])"
      using meta_tag_parts [of "c # s" tag rest] Some tr by simp_all
    have rep: "replace_tags f (c # s) = (tag' @ fst (replace_tags f rest), r # snd (replace_tags f rest))"
      using Some tr f by (simp add: case_prod_beta Let_def)
    show ?thesis
      unfolding rep unfolding tag(1)
      by (rule exI [of _ "(tag, tag') # parts"]) (use f p tag(2) in \<open>simp add: List.map_filter_simps\<close>)
  qed
qed
lemma index_of_str_take: "index_of_str t s = Some i \<Longrightarrow> take (length t) (drop i s) = t"
proof (induction t s arbitrary: i rule: index_of_str.induct)
  case (2 t c s)
  then show ?case
    by (cases "prefix t (c # s)") (auto simp: prefix_def)
qed (auto split: if_splits)

lemma index_of_str_sublist: "sublist t s \<Longrightarrow> \<exists>i. index_of_str t s = Some i"
  by (induction t s rule: index_of_str.induct) (auto simp: sublist_Cons_right)

lemma content_match_sublist: "content_match_from word s = Some (m, matched) \<Longrightarrow> sublist matched s"
proof (induction word s rule: content_match_from.induct)
  case (2 word c s)
  show ?case
  proof (cases "if word then None else content_at (c # s)")
    case None
    then show ?thesis using 2 by (simp add: sublist_Cons_right)
  next
    case (Some m')
    then have "matched = take (cm_length m) (c # s)" using "2.prems" by auto
    then show ?thesis by (metis prefix_imp_sublist take_is_prefix)
  qed
qed simp

text \<open>What the rewriting may do to a tag: it puts the new policy where the first occurrence of the
  matched text is.\<close>

definition tag_edited :: "string \<Rightarrow> string option \<Rightarrow> string \<Rightarrow> string \<Rightarrow> string \<Rightarrow> bool" where
  "tag_edited mode token origin a b \<longleftrightarrow>
     meta_tag a = Some (a, []) \<and> is_csp_tag a
     \<and> (\<exists>m matched info v i. content_match_from False a = Some (m, matched)
          \<and> parseCspForWorkerSpawn [cm_csp m] mode origin = Some info
          \<and> meta_policy mode token info (cm_csp m) = (v, True)
          \<and> take (length matched) (drop i a) = matched
          \<and> (let q = (case cm_quote m of Some q \<Rightarrow> [q] | None \<Rightarrow> [dquote]);
                 before = take i a; behind = drop (i + length matched) a
             in b = before @ expand_replacement matched before behind (''content='' @ q @ v @ q) @ behind))"

lemma rewriteMetaTag_cases:
  assumes "rewriteMetaTag mode token origin a = (b, info, changed)" "meta_tag a = Some (a, [])"
  shows "if changed then tag_edited mode token origin a b else b = a"
proof (cases changed)
  case False
  then show ?thesis using assms(1)
    by (auto simp: rewriteMetaTag_def Let_def split: if_splits option.splits prod.splits)
next
  case True
  obtain m matched where m: "is_csp_tag a" "content_match_from False a = Some (m, matched)"
    using assms(1) True by (auto simp: rewriteMetaTag_def split: if_splits option.splits)
  obtain info' where info: "parseCspForWorkerSpawn [cm_csp m] mode origin = Some info'"
    using assms(1) True m by (auto simp: rewriteMetaTag_def split: option.splits)
  obtain v where v: "meta_policy mode token info' (cm_csp m) = (v, True)"
    and b: "b = replace_str a matched
      (''content='' @ (case cm_quote m of Some q \<Rightarrow> [q] | None \<Rightarrow> [dquote]) @ v
         @ (case cm_quote m of Some q \<Rightarrow> [q] | None \<Rightarrow> [dquote]))"
    using assms(1) True m info by (auto simp: rewriteMetaTag_def Let_def split: if_splits prod.splits)
  obtain i where i: "index_of_str matched a = Some i"
    using index_of_str_sublist [OF content_match_sublist [OF m(2)]] by blast
  have "tag_edited mode token origin a b"
    unfolding tag_edited_def
    using assms(2) m info v index_of_str_take [OF i] b i
    by (simp add: replace_str_def Let_def) blast
  then show ?thesis using True by simp
qed

text \<open>Without a token, and in another mode than \<open>blob\<close>, no policy changes.\<close>

lemma meta_policy_untouched: "mode \<noteq> ''blob'' \<Longrightarrow> meta_policy mode None info csp = (csp, False)"
  by (simp add: meta_policy_def)

lemma replace_tags_unchanged:
  "(\<And>a. snd (snd (rewriteMetaTag mode token origin a)) = False) \<Longrightarrow>
   snd (snd (rewriteHead mode token origin head)) = False"
proof -
  assume *: "\<And>a. snd (snd (rewriteMetaTag mode token origin a)) = False"
  obtain parts :: "(string \<times> string) list" where "snd (replace_tags (rewriteMetaTag mode token origin) head) =
      List.map_filter (\<lambda>p. if meta_tag (fst p) = None then None
        else Some (snd (rewriteMetaTag mode token origin (fst p)))) parts"
    using replace_tags_parts [of head "rewriteMetaTag mode token origin"] by (elim exE conjE) simp
  then have "\<not> list_ex snd (snd (replace_tags (rewriteMetaTag mode token origin) head))"
    using * by (auto simp: list_ex_iff List.map_filter_def split: if_splits)
  then show ?thesis by (simp add: rewriteHead_def case_prod_beta Let_def)
qed

lemma rewriteMetaTag_untouched:
  "mode \<noteq> ''blob'' \<Longrightarrow> snd (snd (rewriteMetaTag mode None origin a)) = False"
  by (simp add: rewriteMetaTag_def meta_policy_untouched Let_def split: option.splits prod.splits)

section \<open>Keys of the session storage\<close>

lemma csp_key_inj:
  "csp_key tab frame origin = csp_key tab' frame' origin' \<longleftrightarrow> tab = tab' \<and> frame = frame' \<and> origin = origin'"
  by (auto simp: csp_key_def frameKey_def append_sep_inj dest: show_nat_inj)

lemma clear_csp_frame_get:
  "map_get (clear_csp_frame tab frame st) (csp_key tab' frame' origin) =
     (if tab = tab' \<and> frame = frame' then None else map_get st (csp_key tab' frame' origin))"
proof -
  have "prefix (''csp:'' @ show_nat tab @ '':'' @ show_nat frame @ '':'') (csp_key tab' frame' origin)
      \<longleftrightarrow> tab = tab' \<and> frame = frame'"
    by (auto simp: csp_key_def frameKey_def prefix_append_sep dest: show_nat_inj)
  then show ?thesis
    by (induction st) (auto simp: clear_csp_frame_def)
qed
section \<open>Properties\<close>

lemma meta_head_completes:
  assumes "head_end (meta_run tc origin es) \<noteq> None"
  shows "mf_filter (meta_run tc origin (es @ [ModeKnown mode token])) \<noteq> Filtering"
proof -
  let ?s = "meta_run tc origin es"
  have "mf_filter ?s = Filtering \<longrightarrow> mf_processed ?s" using head_run [of es tc origin] assms unfolding head_inv_def by blast
  then have "mf_filter ?s = Filtering \<longrightarrow> mf_waiting ?s \<noteq> None"
    using meta_run_inv [of tc origin es] by (auto simp: meta_inv_def)
  moreover have "meta_run tc origin (es @ [ModeKnown mode token]) = meta_resume tc origin mode token ?s"
    by (simp add: meta_run_def)
  ultimately show ?thesis by (auto simp: meta_resume_def Let_def split: option.splits prod.splits)
qed

text \<open>C34: A response is held back until its head was read, that is until the end of the head was found
  in the text scanned so far, the body ended, or the scan gave up after 262144 characters (or until the
  request failed).  Then the page gets, whatever chunks the body came in, either exactly the bytes of
  the body, or the scanned text with the policies of the tags before the end of the head rewritten and
  the rest behind it.  A response whose head was found, or whose body ended, is let go as soon as the
  mode is known.\<close>

theorem meta_filter_passes_or_rewrites:
  fixes tc :: "'d text_codec"
  shows "(case mf_filter (meta_run tc origin es) of
      Filtering \<Rightarrow> mf_page (meta_run tc origin es) = []
    | Disconnected \<Rightarrow>
        if BodyFailed \<in> set es then True
        else mf_page (meta_run tc origin es) = body_of es \<and> head_read es (meta_run tc origin es)
    | Closed \<Rightarrow> rewritten_page tc origin es (meta_run tc origin es) \<and> head_read es (meta_run tc origin es))
    \<and> (\<exists>n. (mf_scanText (meta_run tc origin es), mf_decoder (meta_run tc origin es)) = decode_chunks tc (take n (chunks_of es)))
    \<and> (if head_end (meta_run tc origin es) = None then True
       else mf_filter (meta_run tc origin (es @ [ModeKnown mode token])) \<noteq> Filtering)
    \<and> mf_filter (meta_run tc origin (es @ BodyEnd # es' @ [ModeKnown mode token])) \<noteq> Filtering"
proof -
  have "meta_inv tc origin es (meta_run tc origin es)" by (rule meta_run_inv)
  moreover have "head_inv es (meta_run tc origin es)" by (rule head_run)
  moreover have "mf_filter (meta_run tc origin (es @ BodyEnd # es' @ [ModeKnown mode token])) \<noteq> Filtering"
    by (rule meta_filter_completes)
  ultimately show ?thesis
    using meta_head_completes [of tc origin es mode token]
    by (auto simp: meta_inv_def head_inv_def scanned_def split: filter_state.splits)
qed

text \<open>C35: The rewriting of a head leaves the text between the tags, and the tags that state no policy,
  alone; in a tag that states one it puts the new policy where the old one was. Without a token, and in
  another mode than \<open>blob\<close>, it leaves everything alone.\<close>

theorem meta_rewrite_frame:
  "(\<exists>parts. head = concat (map fst parts)
      \<and> fst (rewriteHead mode token origin head) = concat (map snd parts)
      \<and> list_all (\<lambda>p. fst p = snd p \<or> tag_edited mode token origin (fst p) (snd p)) parts)
   \<and> (if mode \<noteq> ''blob'' \<and> token = None then \<not> snd (snd (rewriteHead mode token origin head)) else True)"
proof -
  let ?f = "rewriteMetaTag mode token origin"
  obtain parts where p: "head = concat (map fst parts)" "fst (replace_tags ?f head) = concat (map snd parts)"
    and l: "list_all (\<lambda>p. fst p = snd p \<or> meta_tag (fst p) = Some (fst p, []) \<and> snd p = fst (?f (fst p))) parts"
    using replace_tags_parts [of head ?f] by blast
  have "list_all (\<lambda>p. fst p = snd p \<or> tag_edited mode token origin (fst p) (snd p)) parts"
    unfolding list_all_iff
  proof (intro ballI)
    fix p assume "p \<in> set parts"
    then have "fst p = snd p \<or> meta_tag (fst p) = Some (fst p, []) \<and> snd p = fst (?f (fst p))"
      using l by (auto simp: list_all_iff)
    then show "fst p = snd p \<or> tag_edited mode token origin (fst p) (snd p)"
      using rewriteMetaTag_cases [of mode token origin "fst p"]
      by (cases "?f (fst p)") (auto split: if_splits)
  qed
  moreover have "fst (rewriteHead mode token origin head) = fst (replace_tags ?f head)"
    by (simp add: rewriteHead_def case_prod_beta Let_def)
  moreover have "\<not> snd (snd (rewriteHead mode token origin head))" if "mode \<noteq> ''blob''" "token = None"
    using replace_tags_unchanged [OF rewriteMetaTag_untouched] that by simp
  ultimately show ?thesis using p by auto
qed

text \<open>The bridge of the top frame asks for the policy of any frame of its tab, as frame 0: what the
  headers and the tags of another frame said is never its answer.\<close>

lemma sub_frame_csp_not_found:
  assumes "frame \<noteq> 0"
  shows "handleGetCspInfo origin_of (Some tab) 0 url
           (fst (storeFrameCspInfo isMv2 token mode tab frame origin headers st)) =
         handleGetCspInfo origin_of (Some tab) 0 url st"
    and "handleGetCspInfo origin_of (Some tab) 0 url (store_meta_csp tab frame origin infos st) =
         handleGetCspInfo origin_of (Some tab) 0 url st"
proof -
  have "csp_key tab frame origin \<noteq> csp_key tab 0 o'" "csp_key tab 0 o' \<noteq> csp_key tab frame origin" for o'
    using assms by (simp_all add: csp_key_inj)
  then show "handleGetCspInfo origin_of (Some tab) 0 url
           (fst (storeFrameCspInfo isMv2 token mode tab frame origin headers st)) =
         handleGetCspInfo origin_of (Some tab) 0 url st"
    "handleGetCspInfo origin_of (Some tab) 0 url (store_meta_csp tab frame origin infos st) =
         handleGetCspInfo origin_of (Some tab) 0 url st"
    by (auto simp: handleGetCspInfo_def storeFrameCspInfo_def store_meta_csp_def Let_def
        js_map_simps update_conv' delete_conv' split: option.splits)
qed

text \<open>The tags of a frame make the names of the policies its header allows unknown.\<close>

lemma meta_forgets_policy_names:
  "infos \<noteq> [] \<Longrightarrow>
   map_option sc_trustedTypesNames (map_get (store_meta_csp tab frame origin infos st) (csp_key tab frame origin))
     = Some None"
  by (simp add: store_meta_csp_def merge_meta_csp_def Let_def update_conv')

text \<open>When a tag was rewritten, the chunks behind the one that completed the head are lost.\<close>

lemma closed_filter_loses_the_rest:
  "mf_filter s = Closed \<Longrightarrow> mf_page (fold (meta_step tc origin) es s) = mf_page s"
proof (induction es arbitrary: s)
  case (Cons e es)
  have "mf_filter (meta_step tc origin e s) = Closed \<and> mf_page (meta_step tc origin e s) = mf_page s"
    using Cons.prems by (cases e) (auto simp: meta_resume_def Let_def split: option.splits prod.splits)
  then show ?case using Cons.IH by simp
qed simp

definition latin1_codec :: "unit text_codec" where
  "latin1_codec = \<lparr>tc_start = (), tc_decode = (\<lambda>bs _. (map (\<lambda>b. char_of (unat b)) bs, ())),
     tc_flush = (\<lambda>_. []), tc_encode = map (\<lambda>c. word_of_nat (of_char c))\<rparr>"

definition sample_head :: string where
  "sample_head = ''<meta http-equiv=Content-Security-Policy content=\"script-src a\"></head>''"

lemma latin1_decodes: "tc_decode latin1_codec (tc_encode latin1_codec t) d = (t, ())"
proof -
  have "char_of (unat (word_of_nat (of_char c) :: byte)) = c" for c :: char
  proof -
    have "unat (word_of_nat (of_char c) :: byte) = (of_char c :: nat)"
      using unat_byte_of_nat [of "of_char c"] by simp
    then show ?thesis by simp
  qed
  then show ?thesis by (simp add: latin1_codec_def comp_def del: unat_byte_of_nat)
qed

lemma latin1_flush: "tc_start latin1_codec = ()" "tc_flush latin1_codec d = []"
  by (simp_all add: latin1_codec_def)

lemma sample_head_rewritten:
  "rewriteHead ''shadow'' (Some ''T'') ''https://a'' (take 64 sample_head) =
     (''<meta http-equiv=Content-Security-Policy content=\"script-src a T\">'',
      snd (rewriteHead ''shadow'' (Some ''T'') ''https://a'' (take 64 sample_head)))
   \<and> snd (snd (rewriteHead ''shadow'' (Some ''T'') ''https://a'' (take 64 sample_head)))"
  by code_simp

lemma sample_head_end: "index_of_str ''</head>'' (toLowerCase sample_head) = Some 64" "drop 64 sample_head = ''</head>''"
  by code_simp+

lemma sample_body_lost:
  "let s = meta_run latin1_codec ''https://a''
       [BodyChunk (tc_encode latin1_codec sample_head), ModeKnown ''shadow'' (Some ''T''),
        BodyChunk (tc_encode latin1_codec ''<p>''), BodyEnd]
   in mf_filter s = Closed
      \<and> mf_page s = tc_encode latin1_codec
           ''<meta http-equiv=Content-Security-Policy content=\"script-src a T\"></head>''"
proof -
  obtain h infos c where r: "rewriteHead ''shadow'' (Some ''T'') ''https://a'' (take 64 sample_head) = (h, infos, c)"
    by (metis prod_cases3)
  with sample_head_rewritten
  have "h = ''<meta http-equiv=Content-Security-Policy content=\"script-src a T\">''" "c" by simp_all
  then show ?thesis
    by (simp add: meta_run_def new_meta_filter_def meta_data_def meta_process_def meta_resume_def meta_head_def
        meta_tail_def meta_html_def latin1_decodes latin1_flush sample_head_end r Let_def)
qed

text \<open>A token in quotes ends an attribute in single quotes.\<close>

lemma sample_single_quotes:
  "fst (rewriteHead ''shadow'' (Some (quoted ''sha256-x'' @ [squote])) ''https://a''
      (''<meta http-equiv=Content-Security-Policy content='' @ [squote] @ ''script-src a'' @ [squote] @ ''>''))
   = ''<meta http-equiv=Content-Security-Policy content='' @ [squote] @ ''script-src a ''
       @ [squote] @ ''sha256-x'' @ [squote, squote] @ ''>''"
  by code_simp

end
