(* ===== verification/Page_Action.thy ===== *)
theory Page_Action
  imports Js_Prelude
begin

text \<open>
  The page action of Firefox (\<open>background/state.js\<close>) and the pickers that use it
  (\<open>background/messages.js\<close>): the wish of a tab, the chain of reconciliations that bring what the browser
  shows to it, and the pickers waiting in the tabs. Tab ids are numbers; the icons, the notifications and
  the window of a picker are only logged.
\<close>

section \<open>State\<close>

datatype picker_mode = PageActionPicker | WindowPicker

record picker_request =
  pk_requestId :: string
  pk_tabId :: nat
  pk_origin :: string
  pk_mode :: picker_mode

text \<open>A reconciliation that was asked for: it waits for the one before it of its tab, or its call of the
  browser, to show or to hide, is under way.\<close>

datatype phase = Waiting "nat option" | Calling bool

text \<open>\<open>pa_loops\<close> are the reconciliations under way with their tabs, \<open>pa_chains\<close> the last one asked for in
  each tab, \<open>pa_queries\<close> the listings of the tabs under way, \<open>pa_shown\<close> what the browser shows.
  \<open>pa_opening\<close> are the reconciliations at whose end a picker is put into the popup of the tab.
  \<open>pa_popups\<close> (whether a tab's popup was set to the picker, in the order of the calls), \<open>pa_windows\<close> and
  \<open>pa_messages\<close> are what was done besides.\<close>

record page_action =
  pa_hidePageAction :: bool
  pa_usedTabs :: "nat list"
  pa_pendingPicker :: "(nat, picker_request) js_map"
  pa_chains :: "(nat, nat) js_map"
  pa_loops :: "(nat, nat \<times> phase) js_map"
  pa_next :: nat
  pa_queries :: nat
  pa_shown :: "nat list"
  pa_opening :: "nat list"
  pa_popups :: "(nat \<times> bool) list"
  pa_windows :: nat
  pa_messages :: "(nat \<times> string \<times> bool) list"

definition initial_page_action :: page_action where
  "initial_page_action = \<lparr>pa_hidePageAction = False, pa_usedTabs = [], pa_pendingPicker = [], pa_chains = [],
     pa_loops = [], pa_next = 0, pa_queries = 0, pa_shown = [], pa_opening = [],
     pa_popups = [], pa_windows = 0, pa_messages = []\<rparr>"

section \<open>Visibility\<close>

definition pageActionDesired :: "nat \<Rightarrow> page_action \<Rightarrow> bool" where
  "pageActionDesired tab s \<longleftrightarrow>
     map_option pk_mode (map_get (pa_pendingPicker s) tab) = Some PageActionPicker \<or>
     (\<not> pa_hidePageAction s \<and> tab \<in> set (pa_usedTabs s))"

definition reconcilePageAction :: "nat \<Rightarrow> page_action \<Rightarrow> page_action" where
  "reconcilePageAction tab s =
     s\<lparr>pa_loops := map_set (pa_loops s) (pa_next s) (tab, Waiting (map_get (pa_chains s) tab)),
       pa_chains := map_set (pa_chains s) tab (pa_next s),
       pa_next := pa_next s + 1\<rparr>"

text \<open>A reconciliation goes on once the one before it ended, however it ended.\<close>

definition loop_begun :: "nat \<Rightarrow> page_action \<Rightarrow> page_action" where
  "loop_begun n s =
     (case map_get (pa_loops s) n of
        Some (tab, Waiting before) \<Rightarrow>
          if (case before of None \<Rightarrow> False | Some b \<Rightarrow> map_has (pa_loops s) b) then s
          else s\<lparr>pa_loops := map_set (pa_loops s) n (tab, Calling (pageActionDesired tab s))\<rparr>
      | _ \<Rightarrow> s)"

text \<open>The call of the browser ends, well or not; the loop ends when the wish is still the one it called for.
  Where a picker asked for it, the popup of the tab is then set to the picker.\<close>

definition call_ended :: "nat \<Rightarrow> bool \<Rightarrow> page_action \<Rightarrow> page_action" where
  "call_ended n ok s =
     (case map_get (pa_loops s) n of
        Some (tab, Calling visible) \<Rightarrow>
          let s1 = (if ok then s\<lparr>pa_shown := (if visible then set_add (pa_shown s) tab else set_delete (pa_shown s) tab)\<rparr> else s)
          in if pageActionDesired tab s1 = visible
             then s1\<lparr>pa_loops := map_delete (pa_loops s1) n,
                     pa_chains := (if map_get (pa_chains s1) tab = Some n then map_delete (pa_chains s1) tab else pa_chains s1),
                     pa_popups := pa_popups s1 @ (if n \<in> set (pa_opening s1) then [(tab, True)] else [])\<rparr>
             else s1\<lparr>pa_loops := map_set (pa_loops s1) n (tab, Calling (pageActionDesired tab s1))\<rparr>
      | _ \<Rightarrow> s)"

definition setHidden :: "bool \<Rightarrow> page_action \<Rightarrow> page_action" where
  "setHidden hidden s = s\<lparr>pa_hidePageAction := hidden, pa_queries := pa_queries s + 1\<rparr>"

text \<open>The tabs were listed.\<close>

definition tabs_listed :: "nat list \<Rightarrow> page_action \<Rightarrow> page_action" where
  "tabs_listed tabs s =
     (if pa_queries s = 0 then s
      else fold reconcilePageAction tabs (s\<lparr>pa_queries := pa_queries s - 1\<rparr>))"

definition markUsed :: "nat \<Rightarrow> page_action \<Rightarrow> page_action" where
  "markUsed tab s = reconcilePageAction tab (s\<lparr>pa_usedTabs := set_add (pa_usedTabs s) tab\<rparr>)"

definition clearTab :: "nat \<Rightarrow> page_action \<Rightarrow> page_action" where
  "clearTab tab s = s\<lparr>pa_usedTabs := set_delete (pa_usedTabs s) tab, pa_chains := map_delete (pa_chains s) tab\<rparr>"

section \<open>Pickers\<close>

text \<open>The popup of a picker is set once the reconciliation asked for here has ended; the one of the page
  action is set back at once.\<close>

definition openPickerPageAction :: "nat \<Rightarrow> page_action \<Rightarrow> page_action" where
  "openPickerPageAction tab s = (reconcilePageAction tab s)\<lparr>pa_opening := pa_opening s @ [pa_next s]\<rparr>"

definition restorePageAction :: "nat \<Rightarrow> page_action \<Rightarrow> page_action" where
  "restorePageAction tab s = (reconcilePageAction tab s)\<lparr>pa_popups := pa_popups s @ [(tab, False)]\<rparr>"

definition handleShowPicker :: "nat \<Rightarrow> string \<Rightarrow> string \<Rightarrow> picker_mode \<Rightarrow> page_action \<Rightarrow> page_action" where
  "handleShowPicker tab requestId origin mode s =
     (let s1 = s\<lparr>pa_pendingPicker := map_set (pa_pendingPicker s) tab
                   \<lparr>pk_requestId = requestId, pk_tabId = tab, pk_origin = origin, pk_mode = mode\<rparr>\<rparr>
      in if mode = WindowPicker then s1\<lparr>pa_windows := pa_windows s1 + 1\<rparr> else openPickerPageAction tab s1)"

definition handleCancelPicker :: "nat \<Rightarrow> string \<Rightarrow> page_action \<Rightarrow> page_action" where
  "handleCancelPicker tab requestId s =
     (case map_get (pa_pendingPicker s) tab of
        None \<Rightarrow> s
      | Some req \<Rightarrow>
          if pk_requestId req = requestId
          then let s1 = s\<lparr>pa_pendingPicker := map_delete (pa_pendingPicker s) tab\<rparr>
               in if pk_mode req = PageActionPicker then restorePageAction tab s1 else s1
          else s)"

definition handleGetPendingPicker :: "page_action \<Rightarrow> picker_request option" where
  "handleGetPendingPicker s = (case pa_pendingPicker s of [] \<Rightarrow> None | (_, req) # _ \<Rightarrow> Some req)"

text \<open>The tab of a result is the one it names, else that of the first picker. Only the picker page may say it.\<close>

definition picker_done :: "nat option \<Rightarrow> string \<Rightarrow> bool \<Rightarrow> page_action \<Rightarrow> page_action" where
  "picker_done tabId requestId selected s =
     (case (case tabId of Some t \<Rightarrow> Some t | None \<Rightarrow> (case pa_pendingPicker s of [] \<Rightarrow> None | (t, _) # _ \<Rightarrow> Some t)) of
        None \<Rightarrow> s
      | Some tab \<Rightarrow>
          let req = map_get (pa_pendingPicker s) tab;
              s1 = s\<lparr>pa_pendingPicker := map_delete (pa_pendingPicker s) tab\<rparr>;
              s2 = (if map_option pk_mode req = Some PageActionPicker then restorePageAction tab s1 else s1)
          in s2\<lparr>pa_messages := pa_messages s2 @ [(tab, requestId, selected)]\<rparr>)"

definition handlePickerResult :: "bool \<Rightarrow> nat option \<Rightarrow> string \<Rightarrow> bool \<Rightarrow> page_action \<Rightarrow> page_action" where
  "handlePickerResult fromPicker tabId requestId selected s =
     (if \<not> fromPicker then s else picker_done tabId requestId selected s)"

datatype page_action_event =
    SetHidden bool | TabsListed "nat list" | MarkUsed nat | TabRemoved nat
  | ShowPicker nat string string picker_mode | CancelPicker nat string | PickerResult bool "nat option" string bool
  | LoopBegun nat | CallEnded nat bool

fun page_action_step :: "page_action_event \<Rightarrow> page_action \<Rightarrow> page_action" where
  "page_action_step (SetHidden h) s = setHidden h s"
| "page_action_step (TabsListed tabs) s = tabs_listed tabs s"
| "page_action_step (MarkUsed tab) s = markUsed tab s"
| "page_action_step (TabRemoved tab) s = clearTab tab s"
| "page_action_step (ShowPicker tab requestId origin mode) s = handleShowPicker tab requestId origin mode s"
| "page_action_step (CancelPicker tab requestId) s = handleCancelPicker tab requestId s"
| "page_action_step (PickerResult fromPicker tabId requestId selected) s = handlePickerResult fromPicker tabId requestId selected s"
| "page_action_step (LoopBegun n) s = loop_begun n s"
| "page_action_step (CallEnded n ok) s = call_ended n ok s"

section \<open>Reconciliations of a tab take turns\<close>

definition loop_tab :: "page_action \<Rightarrow> nat \<Rightarrow> nat option" where
  "loop_tab s n = map_option fst (map_get (pa_loops s) n)"

text \<open>Of the reconciliations of a tab all but the first wait for another one of the tab, and the last is the
  one in \<open>chains\<close>. \<open>R\<close> are the tabs that were removed.\<close>

definition chained :: "nat list \<Rightarrow> page_action \<Rightarrow> bool" where
  "chained R s \<longleftrightarrow>
     map_wf (pa_loops s) \<and>
     (\<forall>n tab ph. map_get (pa_loops s) n = Some (tab, ph) \<longrightarrow> n < pa_next s) \<and>
     (\<forall>tab n. map_get (pa_chains s) tab = Some n \<longrightarrow> loop_tab s n = Some tab) \<and>
     (\<forall>n tab ph. map_get (pa_loops s) n = Some (tab, ph) \<longrightarrow> tab \<notin> set R \<longrightarrow>
        (\<exists>m. map_get (pa_chains s) tab = Some m \<and> n \<le> m)) \<and>
     (\<forall>n m tab ph ph'. map_get (pa_loops s) n = Some (tab, ph) \<longrightarrow> map_get (pa_loops s) m = Some (tab, ph') \<longrightarrow>
        tab \<notin> set R \<longrightarrow> n < m \<longrightarrow> (\<exists>b. ph' = Waiting (Some b) \<and> n \<le> b \<and> b < m \<and> loop_tab s b = Some tab))"

lemma chained_initial: "chained [] initial_page_action"
  by (simp add: chained_def initial_page_action_def)

lemma chained_frame:
  "\<lbrakk>chained R s; pa_loops s' = pa_loops s; pa_chains s' = pa_chains s; pa_next s' = pa_next s\<rbrakk> \<Longrightarrow> chained R s'"
proof -
  assume a: "chained R s" "pa_loops s' = pa_loops s" "pa_chains s' = pa_chains s" "pa_next s' = pa_next s"
  have t: "loop_tab s' = loop_tab s" using a(2) by (simp add: loop_tab_def fun_eq_iff)
  show ?thesis using a(1) unfolding chained_def a(2-4) t .
qed

lemma chained_turn:
  "\<lbrakk>chained R s; map_get (pa_loops s) n = Some (tab, ph); map_get (pa_loops s) m = Some (tab, ph'); tab \<notin> set R; n < m\<rbrakk> \<Longrightarrow>
   \<exists>b. ph' = Waiting (Some b) \<and> n \<le> b \<and> b < m \<and> loop_tab s b = Some tab"
  unfolding chained_def by blast

lemma chained_wf: "chained R s \<Longrightarrow> map_wf (pa_loops s)"
  unfolding chained_def by blast

lemma chained_bound: "\<lbrakk>chained R s; map_get (pa_loops s) n = Some (tab, ph)\<rbrakk> \<Longrightarrow> n < pa_next s"
  unfolding chained_def by blast

lemma chained_own: "\<lbrakk>chained R s; map_get (pa_chains s) tab = Some n\<rbrakk> \<Longrightarrow> loop_tab s n = Some tab"
  unfolding chained_def by blast

lemma chained_last:
  "\<lbrakk>chained R s; map_get (pa_loops s) n = Some (tab, ph); tab \<notin> set R\<rbrakk> \<Longrightarrow> \<exists>m. map_get (pa_chains s) tab = Some m \<and> n \<le> m"
  unfolding chained_def by blast

lemma chained_reconcile:
  assumes "chained R s"
  shows "chained R (reconcilePageAction tab s)"
proof -
  let ?s = "reconcilePageAction tab s"
  let ?n = "pa_next s"
  have new: "map_get (pa_loops s) ?n = None"
    using assms unfolding chained_def by (metis nat_less_le not_None_eq surj_pair)
  have loops: "map_get (pa_loops ?s) n = (if n = ?n then Some (tab, Waiting (map_get (pa_chains s) tab)) else map_get (pa_loops s) n)" for n
    by (simp add: reconcilePageAction_def js_map_simps)
  have chains: "map_get (pa_chains ?s) t = (if t = tab then Some ?n else map_get (pa_chains s) t)" for t
    by (simp add: reconcilePageAction_def js_map_simps)
  have tabs: "loop_tab ?s n = (if n = ?n then Some tab else loop_tab s n)" for n
    by (simp add: loop_tab_def loops)
  have bound: "n < ?n" if "map_get (pa_loops s) n = Some (t, ph)" for n t ph
    using assms that unfolding chained_def by blast
  have last: "\<exists>m. map_get (pa_chains s) t = Some m \<and> n \<le> m" if "map_get (pa_loops s) n = Some (t, ph)" "t \<notin> set R" for n t ph
    using assms that unfolding chained_def by blast
  have own: "loop_tab s n = Some t" if "map_get (pa_chains s) t = Some n" for n t
    using assms that unfolding chained_def by blast
  have own_bound: "n < ?n" if "map_get (pa_chains s) t = Some n" for n t
    using own [OF that] bound by (auto simp: loop_tab_def)
  have turn: "\<exists>b. ph' = Waiting (Some b) \<and> n \<le> b \<and> b < m \<and> loop_tab s b = Some t"
    if "map_get (pa_loops s) n = Some (t, ph)" "map_get (pa_loops s) m = Some (t, ph')" "t \<notin> set R" "n < m" for n m t ph ph'
    using assms that unfolding chained_def by blast
  show ?thesis unfolding chained_def
  proof (intro conjI allI impI)
    show "map_wf (pa_loops ?s)" using assms by (auto simp: chained_def reconcilePageAction_def intro: js_wf_intros)
  next
    fix n t ph assume "map_get (pa_loops ?s) n = Some (t, ph)"
    then have "n = ?n \<or> n < ?n" using bound by (auto simp: loops split: if_splits)
    then show "n < pa_next ?s" by (auto simp: reconcilePageAction_def)
  next
    fix t n assume "map_get (pa_chains ?s) t = Some n"
    then show "loop_tab ?s n = Some t" using own own_bound by (fastforce simp: chains tabs split: if_splits)
  next
    fix n t ph assume n: "map_get (pa_loops ?s) n = Some (t, ph)" "t \<notin> set R"
    show "\<exists>m. map_get (pa_chains ?s) t = Some m \<and> n \<le> m"
    proof (cases "t = tab")
      case True
      then show ?thesis using n bound by (fastforce simp: loops chains split: if_splits)
    next
      case False
      then show ?thesis using n last by (auto simp: loops chains split: if_splits)
    qed
  next
    fix n m t ph ph'
    assume n: "map_get (pa_loops ?s) n = Some (t, ph)" and m: "map_get (pa_loops ?s) m = Some (t, ph')"
      and t: "t \<notin> set R" "n < m"
    show "\<exists>b. ph' = Waiting (Some b) \<and> n \<le> b \<and> b < m \<and> loop_tab ?s b = Some t"
    proof (cases "m = ?n")
      case True
      then have n': "map_get (pa_loops s) n = Some (t, ph)" "t = tab" "ph' = Waiting (map_get (pa_chains s) tab)"
        using n m t by (auto simp: loops split: if_splits)
      then obtain b where "map_get (pa_chains s) tab = Some b" "n \<le> b" using last t by blast
      then show ?thesis using n' own own_bound True by (auto simp: tabs)
    next
      case False
      moreover from this have "n \<noteq> ?n" using m bound t by (fastforce simp: loops)
      ultimately have "map_get (pa_loops s) n = Some (t, ph)" "map_get (pa_loops s) m = Some (t, ph')"
        using n m by (simp_all add: loops)
      then obtain b where "ph' = Waiting (Some b)" "n \<le> b" "b < m" "loop_tab s b = Some t"
        using t turn by blast
      moreover have "b \<noteq> ?n" using \<open>loop_tab s b = Some t\<close> new by (auto simp: loop_tab_def)
      ultimately show ?thesis by (auto simp: tabs)
    qed
  qed
qed

text \<open>A reconciliation that may go on is the first of its tab.\<close>

lemma chained_begun:
  assumes "chained R s"
  shows "chained R (loop_begun n s)"
proof (cases "\<exists>tab before. map_get (pa_loops s) n = Some (tab, Waiting before) \<and>
    \<not> (case before of None \<Rightarrow> False | Some b \<Rightarrow> map_has (pa_loops s) b)")
  case True
  then obtain tab before where n: "map_get (pa_loops s) n = Some (tab, Waiting before)"
    and free: "\<not> (case before of None \<Rightarrow> False | Some b \<Rightarrow> map_has (pa_loops s) b)" by blast
  let ?s = "s\<lparr>pa_loops := map_set (pa_loops s) n (tab, Calling (pageActionDesired tab s))\<rparr>"
  have eq: "loop_begun n s = ?s" using n free by (auto simp: loop_begun_def split: option.splits)
  have first: "False" if "map_get (pa_loops s) m = Some (tab, ph)" "m < n" "tab \<notin> set R" for m ph
  proof -
    from chained_turn [OF assms that(1) n that(3,2)]
    obtain b where "before = Some b" "loop_tab s b = Some tab" by blast
    moreover have "map_has (pa_loops s) b" using calculation(2) map_has_get [of b "pa_loops s"] by (auto simp: loop_tab_def)
    ultimately show False using free by simp
  qed
  have tabs: "loop_tab ?s m = loop_tab s m" for m using n by (simp add: loop_tab_def js_map_simps)
  have loops: "map_get (pa_loops ?s) m = (if m = n then Some (tab, Calling (pageActionDesired tab s)) else map_get (pa_loops s) m)" for m
    by (simp add: js_map_simps)
  show ?thesis unfolding eq chained_def tabs
  proof (intro conjI allI impI)
    show "map_wf (pa_loops ?s)" using chained_wf [OF assms] by (auto intro: js_wf_intros)
  next
    fix m t ph assume "map_get (pa_loops ?s) m = Some (t, ph)"
    then have "\<exists>t ph. map_get (pa_loops s) m = Some (t, ph)" using n unfolding loops by (auto split: if_splits)
    then show "m < pa_next ?s" using chained_bound [OF assms] by auto
  next
    fix t m assume "map_get (pa_chains ?s) t = Some m"
    then show "loop_tab s m = Some t" using chained_own [OF assms] by simp
  next
    fix m t ph assume m: "map_get (pa_loops ?s) m = Some (t, ph)" "t \<notin> set R"
    then have "\<exists>ph. map_get (pa_loops s) m = Some (t, ph)" using n unfolding loops by (auto split: if_splits)
    then show "\<exists>k. map_get (pa_chains ?s) t = Some k \<and> m \<le> k" using chained_last [OF assms _ m(2)] by auto
  next
    fix k m t ph ph'
    assume k: "map_get (pa_loops ?s) k = Some (t, ph)" and m: "map_get (pa_loops ?s) m = Some (t, ph')"
      and t: "t \<notin> set R" "k < m"
    have k': "\<exists>ph. map_get (pa_loops s) k = Some (t, ph)" using k n unfolding loops by (auto split: if_splits)
    have "m \<noteq> n"
    proof
      assume "m = n"
      then have "t = tab" using m unfolding loops by simp
      then show False using first k' t \<open>m = n\<close> by blast
    qed
    then have "map_get (pa_loops s) m = Some (t, ph')" using m unfolding loops by simp
    then show "\<exists>b. ph' = Waiting (Some b) \<and> k \<le> b \<and> b < m \<and> loop_tab s b = Some t"
      using chained_turn [OF assms _ _ t] k' by blast
  qed
next
  case False
  then have "loop_begun n s = s" by (auto simp: loop_begun_def split: option.splits prod.splits phase.splits)
  with assms show ?thesis by simp
qed

lemma chained_ended:
  assumes "chained R s"
  shows "chained R (call_ended n ok s)"
proof (cases "\<exists>tab visible. map_get (pa_loops s) n = Some (tab, Calling visible)")
  case True
  then obtain tab visible where n: "map_get (pa_loops s) n = Some (tab, Calling visible)" by blast
  define s1 where "s1 = (if ok then s\<lparr>pa_shown := (if visible then set_add (pa_shown s) tab else set_delete (pa_shown s) tab)\<rparr> else s)"
  have s1: "pa_loops s1 = pa_loops s" "pa_chains s1 = pa_chains s" "pa_next s1 = pa_next s" by (simp_all add: s1_def)
  have inv: "chained R s1" using chained_frame [OF assms s1] .
  have first: False if "map_get (pa_loops s) m = Some (tab, ph)" "m < n" "tab \<notin> set R" for m ph
    using chained_turn [OF assms that(1) n that(3,2)] by blast
  show ?thesis
  proof (cases "pageActionDesired tab s1 = visible")
    case True
    let ?c = "if map_get (pa_chains s1) tab = Some n then map_delete (pa_chains s1) tab else pa_chains s1"
    let ?s = "s1\<lparr>pa_loops := map_delete (pa_loops s1) n, pa_chains := ?c,
      pa_popups := pa_popups s1 @ (if n \<in> set (pa_opening s1) then [(tab, True)] else [])\<rparr>"
    have eq: "call_ended n ok s = ?s" using True n by (simp add: call_ended_def Let_def flip: s1_def)
    have loops: "map_get (pa_loops ?s) m = (if m = n then None else map_get (pa_loops s) m)" for m
      using s1 by (simp add: js_map_simps)
    have tabs: "loop_tab ?s m = (if m = n then None else loop_tab s m)" for m unfolding loop_tab_def loops by simp
    have chains: "map_get (pa_chains ?s) t = Some m \<longleftrightarrow> map_get (pa_chains s) t = Some m \<and> m \<noteq> n" for t m
    proof -
      have own: "t = tab" if "map_get (pa_chains s) t = Some n"
        using chained_own [OF assms that] n by (simp add: loop_tab_def)
      show ?thesis
      proof (cases "map_get (pa_chains s) tab = Some n")
        case True
        then show ?thesis using s1 own by (cases "t = tab") (auto simp: map_get_delete)
      next
        case False
        then have "map_get (pa_chains s) t \<noteq> Some n" using own by blast
        then show ?thesis using s1 False by auto
      qed
    qed
    show ?thesis unfolding eq chained_def
    proof (intro conjI allI impI)
      show "map_wf (pa_loops ?s)" using chained_wf [OF assms] s1 by (auto intro: js_wf_intros)
    next
      fix m t ph assume "map_get (pa_loops ?s) m = Some (t, ph)"
      then have "map_get (pa_loops s) m = Some (t, ph)" unfolding loops by (simp split: if_splits)
      then show "m < pa_next ?s" using chained_bound [OF assms] s1 by simp
    next
      fix t m assume "map_get (pa_chains ?s) t = Some m"
      then show "loop_tab ?s m = Some t" using chained_own [OF assms] unfolding tabs chains by auto
    next
      fix m t ph assume m: "map_get (pa_loops ?s) m = Some (t, ph)" "t \<notin> set R"
      then have m': "map_get (pa_loops s) m = Some (t, ph)" "m \<noteq> n" unfolding loops by (simp_all split: if_splits)
      then obtain k where k: "map_get (pa_chains s) t = Some k" "m \<le> k" using chained_last [OF assms _ m(2)] by blast
      have "k \<noteq> n"
      proof
        assume "k = n"
        then have "t = tab" using chained_own [OF assms k(1)] n by (simp add: loop_tab_def)
        moreover have "m < n" using m'(2) k(2) \<open>k = n\<close> by simp
        ultimately show False using first m'(1) m(2) by blast
      qed
      then show "\<exists>k. map_get (pa_chains ?s) t = Some k \<and> m \<le> k" using k unfolding chains by blast
    next
      fix k m t ph ph'
      assume k: "map_get (pa_loops ?s) k = Some (t, ph)" and m: "map_get (pa_loops ?s) m = Some (t, ph')"
        and t: "t \<notin> set R" "k < m"
      have k': "map_get (pa_loops s) k = Some (t, ph)" "k \<noteq> n" and m': "map_get (pa_loops s) m = Some (t, ph')" "m \<noteq> n"
        using k m unfolding loops by (simp_all split: if_splits)
      obtain b where b: "ph' = Waiting (Some b)" "k \<le> b" "b < m" "loop_tab s b = Some t"
        using chained_turn [OF assms k'(1) m'(1) t] by blast
      have "b \<noteq> n"
      proof
        assume "b = n"
        then have "t = tab" using b(4) n by (simp add: loop_tab_def)
        moreover have "k < n" using k'(2) b(2) \<open>b = n\<close> by simp
        ultimately show False using first k'(1) t(1) by blast
      qed
      then show "\<exists>b. ph' = Waiting (Some b) \<and> k \<le> b \<and> b < m \<and> loop_tab ?s b = Some t" using b unfolding tabs by auto
    qed
  next
    case False
    let ?s = "s1\<lparr>pa_loops := map_set (pa_loops s1) n (tab, Calling (pageActionDesired tab s1))\<rparr>"
    have eq: "call_ended n ok s = ?s" using False n by (simp add: call_ended_def Let_def flip: s1_def)
    have loops: "map_get (pa_loops ?s) m = (if m = n then Some (tab, Calling (pageActionDesired tab s1)) else map_get (pa_loops s) m)" for m
      using s1 by (simp add: js_map_simps)
    have old: "\<exists>ph. map_get (pa_loops s) m = Some (t, ph)" if "map_get (pa_loops ?s) m = Some (t, ph)" for m t ph
      using n that unfolding loops by (auto split: if_splits)
    have tabs: "loop_tab ?s m = loop_tab s m" for m using n unfolding loop_tab_def loops by simp
    show ?thesis unfolding eq chained_def tabs
    proof (intro conjI allI impI)
      show "map_wf (pa_loops ?s)" using chained_wf [OF assms] s1 by (auto intro: js_wf_intros)
    next
      fix m t ph assume "map_get (pa_loops ?s) m = Some (t, ph)"
      from old [OF this] show "m < pa_next ?s" using chained_bound [OF assms] s1 by auto
    next
      fix t m assume "map_get (pa_chains ?s) t = Some m"
      then show "loop_tab s m = Some t" using chained_own [OF assms] s1 by simp
    next
      fix m t ph assume m: "map_get (pa_loops ?s) m = Some (t, ph)" "t \<notin> set R"
      from old [OF m(1)] show "\<exists>k. map_get (pa_chains ?s) t = Some k \<and> m \<le> k" using chained_last [OF assms _ m(2)] s1 by auto
    next
      fix k m t ph ph'
      assume k: "map_get (pa_loops ?s) k = Some (t, ph)" and m: "map_get (pa_loops ?s) m = Some (t, ph')"
        and t: "t \<notin> set R" "k < m"
      obtain ph2 where k': "map_get (pa_loops s) k = Some (t, ph2)" using old [OF k] by blast
      have "m \<noteq> n"
    proof
      assume "m = n"
      then have "t = tab" using m unfolding loops by simp
      then show False using first k' t \<open>m = n\<close> by blast
    qed
      then have "map_get (pa_loops s) m = Some (t, ph')" using m unfolding loops by simp
      from chained_turn [OF assms k' this t]
      show "\<exists>b. ph' = Waiting (Some b) \<and> k \<le> b \<and> b < m \<and> loop_tab s b = Some t" .
    qed
  qed
next
  case False
  then have "call_ended n ok s = s" by (auto simp: call_ended_def split: option.splits prod.splits phase.splits)
  with assms show ?thesis by simp
qed

text \<open>A tab that is removed leaves the chain of its reconciliations.\<close>

lemma chained_cleared:
  assumes "chained R s"
  shows "chained (tab # R) (clearTab tab s)"
proof -
  let ?s = "clearTab tab s"
  have loops: "pa_loops ?s = pa_loops s" "pa_next ?s = pa_next s" by (simp_all add: clearTab_def)
  have tabs: "loop_tab ?s = loop_tab s" by (simp add: loop_tab_def loops fun_eq_iff)
  have chains: "map_get (pa_chains ?s) t = (if t = tab then None else map_get (pa_chains s) t)" for t
    by (simp add: clearTab_def js_map_simps)
  show ?thesis unfolding chained_def loops tabs
  proof (intro conjI allI impI)
    show "map_wf (pa_loops s)" by (rule chained_wf [OF assms])
    show "n < pa_next s" if "map_get (pa_loops s) n = Some (t, ph)" for n t ph by (rule chained_bound [OF assms that])
    show "loop_tab s n = Some t" if "map_get (pa_chains ?s) t = Some n" for n t
      using that chained_own [OF assms] unfolding chains by (auto split: if_splits)
    show "\<exists>m. map_get (pa_chains ?s) t = Some m \<and> n \<le> m" if "map_get (pa_loops s) n = Some (t, ph)" "t \<notin> set (tab # R)" for n t ph
      using that chained_last [OF assms that(1)] unfolding chains by auto
    show "\<exists>b. ph' = Waiting (Some b) \<and> n \<le> b \<and> b < m \<and> loop_tab s b = Some t"
      if "map_get (pa_loops s) n = Some (t, ph)" "map_get (pa_loops s) m = Some (t, ph')" "t \<notin> set (tab # R)" "n < m" for n m t ph ph'
      using chained_turn [OF assms that(1,2)] that(3,4) by simp
  qed
qed

lemma chained_mono: "chained R s \<Longrightarrow> set R \<subseteq> set R' \<Longrightarrow> chained R' s"
  unfolding chained_def by blast

lemma chained_reconcile_all: "chained R s \<Longrightarrow> chained R (fold reconcilePageAction tabs s)"
  by (induction tabs arbitrary: s) (simp_all add: chained_reconcile)

fun removed_tab :: "page_action_event \<Rightarrow> nat list" where
  "removed_tab (TabRemoved tab) = [tab]"
| "removed_tab _ = []"

lemma chained_step: "chained R s \<Longrightarrow> chained (removed_tab e @ R) (page_action_step e s)"
proof (cases e)
  case (PickerResult fromPicker tabId requestId selected)
  assume c: "chained R s"
  have p: "chained R (s\<lparr>pa_pendingPicker := p\<rparr>)" for p using c by (rule chained_frame) simp_all
  have m: "chained R s' \<Longrightarrow> chained R (s'\<lparr>pa_messages := x\<rparr>)" for s' x by (erule chained_frame) simp_all
  have q: "chained R s' \<Longrightarrow> chained R (s'\<lparr>pa_popups := x\<rparr>)" for s' x by (erule chained_frame) simp_all
  show ?thesis using c unfolding PickerResult
    by (auto simp: handlePickerResult_def picker_done_def Let_def restorePageAction_def intro!: m q chained_reconcile p split: option.split)
next
  case (ShowPicker tab requestId origin mode)
  assume c: "chained R s"
  have p: "chained R (s\<lparr>pa_pendingPicker := p, pa_windows := w\<rparr>)" "chained R (s\<lparr>pa_pendingPicker := p\<rparr>)" for p w
    using c by (auto elim: chained_frame)
  have q: "chained R s' \<Longrightarrow> chained R (s'\<lparr>pa_opening := x\<rparr>)" for s' x by (erule chained_frame) simp_all
  show ?thesis unfolding ShowPicker
    by (auto simp: handleShowPicker_def Let_def openPickerPageAction_def intro!: p q chained_reconcile)
next
  case (CancelPicker tab requestId)
  assume c: "chained R s"
  have p: "chained R (s\<lparr>pa_pendingPicker := p\<rparr>)" for p using c by (rule chained_frame) simp_all
  have q: "chained R s' \<Longrightarrow> chained R (s'\<lparr>pa_popups := x\<rparr>)" for s' x by (erule chained_frame) simp_all
  show ?thesis using c unfolding CancelPicker
    by (auto simp: handleCancelPicker_def Let_def restorePageAction_def intro!: q chained_reconcile p split: option.split)
next
  case (SetHidden h)
  assume "chained R s"
  then show ?thesis unfolding SetHidden by (auto simp: setHidden_def elim: chained_frame)
next
  case (TabsListed tabs)
  assume c: "chained R s"
  have "chained R (s\<lparr>pa_queries := q\<rparr>)" for q using c by (rule chained_frame) simp_all
  then show ?thesis using c unfolding TabsListed by (simp add: tabs_listed_def chained_reconcile_all)
next
  case (MarkUsed tab)
  assume c: "chained R s"
  have "chained R (s\<lparr>pa_usedTabs := u\<rparr>)" for u using c by (rule chained_frame) simp_all
  then show ?thesis unfolding MarkUsed by (simp add: markUsed_def chained_reconcile)
qed (simp_all add: chained_cleared chained_begun chained_ended)

lemma chained_run: "chained (concat (map removed_tab (rev events))) (fold page_action_step events initial_page_action)"
  by (induction events rule: rev_induct) (simp_all add: chained_initial chained_step)

section \<open>What the browser shows\<close>

text \<open>Where the wish of a tab differs from what is shown, somebody is on it: a reconciliation of the tab, or
  a listing of the tabs; or nobody will, since the last call of the browser failed, the tab was removed,
  or a window picker took the place of the picker that had the page action shown.\<close>

fun disturbs :: "page_action_event \<Rightarrow> bool" where
  "disturbs (TabRemoved _) = True"
| "disturbs (ShowPicker _ _ _ mode) = (mode = WindowPicker)"
| "disturbs (CallEnded _ ok) = (\<not> ok)"
| "disturbs _ = False"

definition attended :: "nat \<Rightarrow> page_action \<Rightarrow> bool" where
  "attended tab s \<longleftrightarrow> (tab \<in> set (pa_shown s) \<longleftrightarrow> pageActionDesired tab s) \<or> (\<exists>n. loop_tab s n = Some tab)"

text \<open>A listing of the tabs names every tab there is.\<close>

definition all_tabs :: "nat list \<Rightarrow> page_action_event \<Rightarrow> bool" where
  "all_tabs tabs e = (case e of TabsListed ts \<Rightarrow> set tabs \<subseteq> set ts | _ \<Rightarrow> True)"

lemma attended_frame:
  "\<lbrakk>attended tab s; pa_loops s' = pa_loops s; pa_shown s' = pa_shown s; pageActionDesired tab s' = pageActionDesired tab s\<rbrakk>
   \<Longrightarrow> attended tab s'"
  by (simp add: attended_def loop_tab_def)

lemma attended_reconcile: "chained R s \<Longrightarrow> attended tab s \<or> t = tab \<Longrightarrow> attended tab (reconcilePageAction t s)"
proof -
  assume c: "chained R s" and a: "attended tab s \<or> t = tab"
  let ?s = "reconcilePageAction t s"
  have tabs: "loop_tab ?s n = (if n = pa_next s then Some t else loop_tab s n)" for n
    by (simp add: loop_tab_def reconcilePageAction_def js_map_simps)
  have fresh: "loop_tab s (pa_next s) = None"
    using chained_bound [OF c, of "pa_next s"] by (cases "map_get (pa_loops s) (pa_next s)") (auto simp: loop_tab_def)
  have same: "pa_shown ?s = pa_shown s" "pageActionDesired tab ?s = pageActionDesired tab s"
    by (simp_all add: reconcilePageAction_def pageActionDesired_def)
  show ?thesis using a fresh unfolding attended_def same tabs by (metis option.distinct(1))
qed

lemma attended_reconcile_all:
  "chained R s \<Longrightarrow> attended tab s \<or> tab \<in> set ts \<Longrightarrow> attended tab (fold reconcilePageAction ts s)"
  by (induction ts arbitrary: s) (auto simp: chained_reconcile attended_reconcile)

lemma desired_logs [simp]:
  "pageActionDesired tab (s\<lparr>pa_popups := a\<rparr>) = pageActionDesired tab s"
  "pageActionDesired tab (s\<lparr>pa_opening := op\<rparr>) = pageActionDesired tab s"
  "pageActionDesired tab (s\<lparr>pa_messages := b\<rparr>) = pageActionDesired tab s"
  "pageActionDesired tab (s\<lparr>pa_windows := c\<rparr>) = pageActionDesired tab s"
  "pageActionDesired tab (s\<lparr>pa_queries := d\<rparr>) = pageActionDesired tab s"
  "pageActionDesired tab (s\<lparr>pa_loops := l\<rparr>) = pageActionDesired tab s"
  "pageActionDesired tab (s\<lparr>pa_chains := ch\<rparr>) = pageActionDesired tab s"
  "pageActionDesired tab (s\<lparr>pa_shown := sh\<rparr>) = pageActionDesired tab s"
  by (simp_all add: pageActionDesired_def)

lemma attended_logs:
  "attended tab s \<Longrightarrow> attended tab (s\<lparr>pa_opening := op\<rparr>)"
  "attended tab s \<Longrightarrow> attended tab (s\<lparr>pa_popups := a\<rparr>)" "attended tab s \<Longrightarrow> attended tab (s\<lparr>pa_messages := b\<rparr>)"
  by (erule attended_frame; simp)+

lemma desired_other:
  "tab \<noteq> t \<Longrightarrow> pageActionDesired tab (s\<lparr>pa_pendingPicker := map_set (pa_pendingPicker s) t r\<rparr>) = pageActionDesired tab s"
  "tab \<noteq> t \<Longrightarrow> pageActionDesired tab (s\<lparr>pa_pendingPicker := map_delete (pa_pendingPicker s) t\<rparr>) = pageActionDesired tab s"
  "tab \<noteq> t \<Longrightarrow> pageActionDesired tab (s\<lparr>pa_usedTabs := set_add (pa_usedTabs s) t\<rparr>) = pageActionDesired tab s"
  "map_option pk_mode (map_get (pa_pendingPicker s) t) \<noteq> Some PageActionPicker \<Longrightarrow>
   pageActionDesired tab (s\<lparr>pa_pendingPicker := map_delete (pa_pendingPicker s) t\<rparr>) = pageActionDesired tab s"
  by (auto simp: pageActionDesired_def js_map_simps)

lemma attended_ended:
  assumes c: "chained R s" and a: "attended tab s"
  shows "attended tab (call_ended n True s)"
proof (cases "\<exists>t visible. map_get (pa_loops s) n = Some (t, Calling visible)")
  case True
  then obtain t visible where n: "map_get (pa_loops s) n = Some (t, Calling visible)" by blast
  let ?s1 = "s\<lparr>pa_shown := (if visible then set_add (pa_shown s) t else set_delete (pa_shown s) t)\<rparr>"
  have shown: "tab \<in> set (pa_shown ?s1) \<longleftrightarrow> (if tab = t then visible else tab \<in> set (pa_shown s))"
    by (auto simp: js_map_simps set_delete_def)
  show ?thesis
  proof (cases "pageActionDesired t ?s1 = visible")
    case True
    have loops: "loop_tab (call_ended n True s) m = (if m = n then None else loop_tab s m)" for m
      using True n by (simp add: call_ended_def loop_tab_def js_map_simps Let_def)
    have same: "pa_shown (call_ended n True s) = pa_shown ?s1" "pageActionDesired tab (call_ended n True s) = pageActionDesired tab s"
      using True n by (simp_all add: call_ended_def Let_def)
    show ?thesis
    proof (cases "tab = t")
      case True
      then show ?thesis using \<open>pageActionDesired t ?s1 = visible\<close> shown unfolding attended_def same by simp
    next
      case False
      then have "loop_tab s n \<noteq> Some tab" using n by (simp add: loop_tab_def)
      then show ?thesis using a shown False unfolding attended_def same loops by metis
    qed
  next
    case False
    have loops: "loop_tab (call_ended n True s) m = loop_tab s m" for m
      using False n by (simp add: call_ended_def loop_tab_def js_map_simps Let_def)
    have same: "pa_shown (call_ended n True s) = pa_shown ?s1" "pageActionDesired tab (call_ended n True s) = pageActionDesired tab s"
      using False n by (simp_all add: call_ended_def Let_def)
    show ?thesis using a shown n unfolding attended_def same loops by (auto simp: loop_tab_def)
  qed
next
  case False
  then have "call_ended n True s = s" by (auto simp: call_ended_def split: option.splits prod.splits phase.splits)
  with a show ?thesis by simp
qed

lemma queries_reconcile [simp]: "pa_queries (reconcilePageAction t s) = pa_queries s"
  by (simp add: reconcilePageAction_def)

lemma queries_reconcile_all [simp]: "pa_queries (fold reconcilePageAction ts s) = pa_queries s"
  by (induction ts arbitrary: s) simp_all

definition settled_tab :: "nat \<Rightarrow> page_action \<Rightarrow> bool" where
  "settled_tab tab s \<longleftrightarrow> attended tab s \<or> pa_queries s > 0"

lemma settled_frame:
  "\<lbrakk>settled_tab tab s; pa_loops s' = pa_loops s; pa_shown s' = pa_shown s; pa_queries s' = pa_queries s;
    pageActionDesired tab s' = pageActionDesired tab s\<rbrakk> \<Longrightarrow> settled_tab tab s'"
  using attended_frame [of tab s s'] by (auto simp: settled_tab_def)

lemma settled_reconcile: "chained R s \<Longrightarrow> settled_tab tab s \<or> t = tab \<Longrightarrow> settled_tab tab (reconcilePageAction t s)"
  using attended_reconcile [of R s tab t] by (auto simp: settled_tab_def)

lemma settled_logs:
  "settled_tab tab s \<Longrightarrow> settled_tab tab (s\<lparr>pa_opening := op\<rparr>)"
  "settled_tab tab s \<Longrightarrow> settled_tab tab (s\<lparr>pa_popups := a\<rparr>)" "settled_tab tab s \<Longrightarrow> settled_tab tab (s\<lparr>pa_messages := b\<rparr>)"
  by (erule settled_frame; simp)+

lemma settled_begun: "settled_tab tab s \<Longrightarrow> settled_tab tab (loop_begun n s)"
proof (cases "\<exists>t before. map_get (pa_loops s) n = Some (t, Waiting before)")
  case True
  then obtain t before where n: "map_get (pa_loops s) n = Some (t, Waiting before)" by blast
  assume a: "settled_tab tab s"
  have "loop_tab (loop_begun n s) m = loop_tab s m" for m
    using n by (cases before) (simp_all add: loop_begun_def loop_tab_def js_map_simps)
  moreover have "pa_shown (loop_begun n s) = pa_shown s" "pa_queries (loop_begun n s) = pa_queries s"
    "pageActionDesired tab (loop_begun n s) = pageActionDesired tab s"
    using n by (cases before; simp add: loop_begun_def)+
  ultimately show ?thesis using a by (simp add: settled_tab_def attended_def)
next
  case False
  then have "loop_begun n s = s" by (auto simp: loop_begun_def split: option.splits prod.splits phase.splits)
  then show "settled_tab tab s \<Longrightarrow> settled_tab tab (loop_begun n s)" by simp
qed

lemma settled_picker_gone:
  assumes c: "chained R s" and a: "settled_tab tab s" and r: "map_get (pa_pendingPicker s) t = Some req"
  shows "settled_tab tab (let s1 = s\<lparr>pa_pendingPicker := map_delete (pa_pendingPicker s) t\<rparr>
           in if pk_mode req = PageActionPicker then restorePageAction t s1 else s1)"
proof -
  let ?s1 = "s\<lparr>pa_pendingPicker := map_delete (pa_pendingPicker s) t\<rparr>"
  have c1: "chained R ?s1" using c by (rule chained_frame) simp_all
  have other: "tab \<noteq> t \<Longrightarrow> settled_tab tab ?s1" using a by (rule settled_frame) (simp_all add: desired_other)
  show ?thesis
  proof (cases "pk_mode req = PageActionPicker")
    case True
    have "settled_tab tab (reconcilePageAction t ?s1)" using settled_reconcile [OF c1, of tab t] other by blast
    with True show ?thesis by (simp add: Let_def restorePageAction_def settled_logs)
  next
    case False
    then have "settled_tab tab ?s1" using a r by (intro settled_frame [OF a]) (simp_all add: desired_other)
    with False show ?thesis by (simp add: Let_def)
  qed
qed

lemma settled_ended: "chained R s \<Longrightarrow> settled_tab tab s \<Longrightarrow> settled_tab tab (call_ended n True s)"
proof -
  assume c: "chained R s" and a: "settled_tab tab s"
  have "pa_queries (call_ended n True s) = pa_queries s"
    by (auto simp: call_ended_def Let_def split: option.split prod.split phase.split)
  then show ?thesis using a attended_ended [OF c] by (auto simp: settled_tab_def)
qed

lemma settled_step:
  assumes c: "chained R s" and a: "settled_tab tab s" and e: "\<not> disturbs e" "all_tabs tabs e" "tab \<in> set tabs"
  shows "settled_tab tab (page_action_step e s)"
proof (cases e)
  case (SetHidden h)
  then show ?thesis by (simp add: settled_tab_def setHidden_def)
next
  case (TabsListed ts)
  let ?s = "s\<lparr>pa_queries := pa_queries s - 1\<rparr>"
  have "chained R ?s" using c by (rule chained_frame) simp_all
  moreover have "tab \<in> set ts" using e TabsListed by (auto simp: all_tabs_def)
  ultimately have "attended tab (fold reconcilePageAction ts ?s)" using attended_reconcile_all by blast
  then show ?thesis using a TabsListed by (auto simp: tabs_listed_def settled_tab_def)
next
  case (MarkUsed t)
  let ?s = "s\<lparr>pa_usedTabs := set_add (pa_usedTabs s) t\<rparr>"
  have c1: "chained R ?s" using c by (rule chained_frame) simp_all
  have "tab \<noteq> t \<Longrightarrow> settled_tab tab ?s" using a by (rule settled_frame) (simp_all add: desired_other)
  then show ?thesis using settled_reconcile [OF c1, of tab t] unfolding MarkUsed by (auto simp: markUsed_def)
next
  case (ShowPicker t requestId origin mode)
  then have mode: "mode = PageActionPicker" using e(1) by (cases mode) auto
  let ?s = "s\<lparr>pa_pendingPicker := map_set (pa_pendingPicker s) t
      \<lparr>pk_requestId = requestId, pk_tabId = t, pk_origin = origin, pk_mode = mode\<rparr>\<rparr>"
  have c1: "chained R ?s" using c by (rule chained_frame) simp_all
  have "tab \<noteq> t \<Longrightarrow> settled_tab tab ?s" using a by (rule settled_frame) (simp_all add: desired_other)
  then have "settled_tab tab (reconcilePageAction t ?s)" using settled_reconcile [OF c1, of tab t] by blast
  then show ?thesis unfolding ShowPicker using mode
    by (simp add: handleShowPicker_def Let_def openPickerPageAction_def settled_logs)
next
  case (CancelPicker t requestId)
  then show ?thesis using a settled_picker_gone [OF c a, of t]
    by (auto simp: handleCancelPicker_def Let_def split: option.split)
next
  case (PickerResult fromPicker tabId requestId selected)
  define t where "t = (case tabId of Some t \<Rightarrow> Some t | None \<Rightarrow> (case pa_pendingPicker s of [] \<Rightarrow> None | (t, _) # _ \<Rightarrow> Some t))"
  show ?thesis
  proof (cases t)
    case None
    then show ?thesis using a unfolding PickerResult page_action_step.simps handlePickerResult_def picker_done_def t_def [symmetric] by simp
  next
    case (Some tb)
    let ?s1 = "s\<lparr>pa_pendingPicker := map_delete (pa_pendingPicker s) tb\<rparr>"
    have "settled_tab tab (if map_option pk_mode (map_get (pa_pendingPicker s) tb) = Some PageActionPicker then restorePageAction tb ?s1 else ?s1)"
    proof (cases "map_get (pa_pendingPicker s) tb")
      case None
      then have "settled_tab tab ?s1" by (intro settled_frame [OF a]) (simp_all add: desired_other)
      with None show ?thesis by simp
    next
      case (Some req)
      then show ?thesis using settled_picker_gone [OF c a Some] by (simp add: Let_def)
    qed
    then have "settled_tab tab (picker_done tabId requestId selected s)"
      unfolding picker_done_def t_def [symmetric] Some option.case Let_def by (intro settled_logs) simp
    then show ?thesis using a unfolding PickerResult by (simp add: handlePickerResult_def)
  qed
next
  case (LoopBegun n)
  then show ?thesis using settled_begun [OF a] by simp
next
  case (CallEnded n ok)
  then show ?thesis using settled_ended [OF c a] e(1) by simp
qed (use e in simp)

lemma settled_tab_run:
  assumes "list_all (\<lambda>e. \<not> disturbs e \<and> all_tabs tabs e) events" "tab \<in> set tabs"
  shows "settled_tab tab (fold page_action_step events initial_page_action)"
  using assms
proof (induction events rule: rev_induct)
  case Nil
  then show ?case by (simp add: settled_tab_def attended_def initial_page_action_def pageActionDesired_def)
next
  case (snoc e es)
  then show ?case using settled_step [OF chained_run [of es], of tab e tabs] by simp
qed

section \<open>Reconciliations come to an end\<close>

text \<open>The browser and the promises go on, and nothing else: for each reconciliation, in the order they were
  asked for, its begin and the end of at most two calls.\<close>

definition settle_events :: "nat \<Rightarrow> page_action_event list" where
  "settle_events n = concat (map (\<lambda>i. [LoopBegun i, CallEnded i True, CallEnded i True]) [0..<n])"

definition waits_back :: "page_action \<Rightarrow> bool" where
  "waits_back s \<longleftrightarrow> (\<forall>n tab b. map_get (pa_loops s) n = Some (tab, Waiting (Some b)) \<longrightarrow> b < n)"

lemma waits_back_sub:
  "waits_back s \<Longrightarrow> (\<And>n tab b. map_get (pa_loops s') n = Some (tab, Waiting (Some b)) \<Longrightarrow> map_get (pa_loops s) n = Some (tab, Waiting (Some b)))
   \<Longrightarrow> waits_back s'"
  unfolding waits_back_def by blast

lemma waits_back_reconcile: "chained R s \<Longrightarrow> waits_back s \<Longrightarrow> waits_back (reconcilePageAction t s)"
  using chained_own [of R s] chained_bound [of R s]
  by (fastforce simp: waits_back_def reconcilePageAction_def js_map_simps loop_tab_def split: if_splits)

lemma waits_back_reconcile_all: "chained R s \<Longrightarrow> waits_back s \<Longrightarrow> waits_back (fold reconcilePageAction ts s)"
  by (induction ts arbitrary: s) (simp_all add: chained_reconcile waits_back_reconcile)

lemma waits_back_logs: "waits_back s \<Longrightarrow> pa_loops s' = pa_loops s \<Longrightarrow> waits_back s'"
  by (simp add: waits_back_def)

lemma waits_back_step:
  assumes c: "chained R s" and w: "waits_back s"
  shows "waits_back (page_action_step e s)"
proof -
  have r: "waits_back (reconcilePageAction t s')" if "pa_loops s' = pa_loops s" "pa_chains s' = pa_chains s" "pa_next s' = pa_next s" for s' t
    using waits_back_reconcile chained_frame [OF c that] waits_back_logs [OF w that(1)] by blast
  have l: "waits_back s'" if "pa_loops s' = pa_loops s" for s' using waits_back_logs [OF w that] .
  have q: "waits_back s' \<Longrightarrow> waits_back (s'\<lparr>pa_opening := x\<rparr>)" for s' x by (simp add: waits_back_def)
  have q': "waits_back s' \<Longrightarrow> waits_back (s'\<lparr>pa_popups := x\<rparr>)" "waits_back s' \<Longrightarrow> waits_back (s'\<lparr>pa_messages := y\<rparr>)"
    for s' x y by (simp_all add: waits_back_def)
  show ?thesis
  proof (cases e)
    case (TabsListed ts)
    have "chained R (s\<lparr>pa_queries := pa_queries s - 1\<rparr>)" using c by (rule chained_frame) simp_all
    then show ?thesis unfolding TabsListed using w l waits_back_reconcile_all [of R "s\<lparr>pa_queries := pa_queries s - 1\<rparr>"]
      by (simp add: tabs_listed_def)
  next
    case (LoopBegun n)
    show ?thesis unfolding LoopBegun page_action_step.simps
      by (rule waits_back_sub [OF w]) (auto simp: loop_begun_def js_map_simps split: option.splits prod.splits phase.splits if_splits)
  next
    case (CallEnded n ok)
    show ?thesis unfolding CallEnded page_action_step.simps
      by (rule waits_back_sub [OF w]) (auto simp: call_ended_def js_map_simps Let_def split: option.splits prod.splits phase.splits if_splits)
  qed (auto simp: setHidden_def markUsed_def clearTab_def handleShowPicker_def openPickerPageAction_def handleCancelPicker_def
      handlePickerResult_def picker_done_def restorePageAction_def Let_def intro!: q q' r intro: l split: option.split)
qed

lemma waits_back_run: "waits_back (fold page_action_step events initial_page_action)"
proof (induction events rule: rev_induct)
  case Nil
  then show ?case by (simp add: waits_back_def initial_page_action_def)
next
  case (snoc e es)
  then show ?case using waits_back_step [OF chained_run] by simp
qed

lemma ended_parts:
  assumes "map_get (pa_loops s) n = Some (t, Calling v)"
  shows "map_get (pa_loops (call_ended n True s)) m =
      (if m = n then if pageActionDesired t s = v then None else Some (t, Calling (pageActionDesired t s)) else map_get (pa_loops s) m)"
    and "pageActionDesired tab (call_ended n True s) = pageActionDesired tab s" "pa_queries (call_ended n True s) = pa_queries s"
    "pa_next (call_ended n True s) = pa_next s"
  using assms by (auto simp: call_ended_def Let_def js_map_simps)

lemma ended_none:
  assumes "map_get (pa_loops s) n = None"
  shows "call_ended n ok s = s" "loop_begun n s = s"
  using assms by (simp_all add: call_ended_def loop_begun_def)

lemma begun_parts:
  assumes "map_get (pa_loops s) n = Some (t, ph)" "waits_back s" "\<And>m. map_has (pa_loops s) m \<Longrightarrow> n \<le> m"
  shows "\<exists>v. map_get (pa_loops (loop_begun n s)) n = Some (t, Calling v)"
    and "m \<noteq> n \<Longrightarrow> map_get (pa_loops (loop_begun n s)) m = map_get (pa_loops s) m"
    and "pageActionDesired tab (loop_begun n s) = pageActionDesired tab s" "pa_queries (loop_begun n s) = pa_queries s"
    "pa_next (loop_begun n s) = pa_next s"
proof -
  have free: "\<not> (case before of None \<Rightarrow> False | Some b \<Rightarrow> map_has (pa_loops s) b)" if "ph = Waiting before" for before
    using assms that unfolding waits_back_def by (metis leD option.case_eq_if option.collapse)
  show "\<exists>v. map_get (pa_loops (loop_begun n s)) n = Some (t, Calling v)"
    using assms(1) free by (cases ph) (auto simp: loop_begun_def js_map_simps)
  show "m \<noteq> n \<Longrightarrow> map_get (pa_loops (loop_begun n s)) m = map_get (pa_loops s) m"
    using assms(1) by (cases ph) (auto simp: loop_begun_def js_map_simps)
  show "pageActionDesired tab (loop_begun n s) = pageActionDesired tab s" "pa_queries (loop_begun n s) = pa_queries s"
    "pa_next (loop_begun n s) = pa_next s"
    using assms(1) by (cases ph; auto simp: loop_begun_def)+
qed

lemma settle_one:
  assumes w: "waits_back s" and first: "\<And>m. map_has (pa_loops s) m \<Longrightarrow> n \<le> m"
  defines "s' \<equiv> fold page_action_step [LoopBegun n, CallEnded n True, CallEnded n True] s"
  shows "map_get (pa_loops s') m = (if m = n then None else map_get (pa_loops s) m)"
    and "pageActionDesired tab s' = pageActionDesired tab s" "pa_queries s' = pa_queries s" "pa_next s' = pa_next s"
proof -
  have all: "map_get (pa_loops s') m = (if m = n then None else map_get (pa_loops s) m) \<and>
    pageActionDesired tab s' = pageActionDesired tab s \<and> pa_queries s' = pa_queries s \<and> pa_next s' = pa_next s"
  proof (cases "map_get (pa_loops s) n")
    case None
    then show ?thesis by (simp add: s'_def ended_none)
  next
    case (Some e)
    obtain t ph where e: "map_get (pa_loops s) n = Some (t, ph)" using Some by (cases e) simp
    let ?s1 = "loop_begun n s"
    obtain v where v: "map_get (pa_loops ?s1) n = Some (t, Calling v)" using begun_parts(1) [OF e w first] by blast
    have s': "s' = call_ended n True (call_ended n True ?s1)" by (simp add: s'_def)
    show ?thesis
    proof (cases "pageActionDesired t ?s1 = v")
      case True
      then have "map_get (pa_loops (call_ended n True ?s1)) n = None" using ended_parts(1) [OF v, of n] by simp
      then have "s' = call_ended n True ?s1" unfolding s' by (rule ended_none)
      then show ?thesis using True ended_parts [OF v] begun_parts [OF e w first] by simp
    next
      case False
      then have n2: "map_get (pa_loops (call_ended n True ?s1)) n = Some (t, Calling (pageActionDesired t ?s1))"
        using ended_parts(1) [OF v, of n] by simp
      show ?thesis unfolding s'
        using ended_parts [OF n2] ended_parts [OF v] begun_parts [OF e w first] by simp
    qed
  qed
  then show "map_get (pa_loops s') m = (if m = n then None else map_get (pa_loops s) m)"
    "pageActionDesired tab s' = pageActionDesired tab s" "pa_queries s' = pa_queries s" "pa_next s' = pa_next s" by blast+
qed

lemma settle_all:
  assumes "chained R s" "waits_back s"
  shows "map_get (pa_loops (fold page_action_step (settle_events n) s)) m = (if m < n then None else map_get (pa_loops s) m)
    \<and> pageActionDesired tab (fold page_action_step (settle_events n) s) = pageActionDesired tab s
    \<and> pa_queries (fold page_action_step (settle_events n) s) = pa_queries s"
proof -
  have "(\<forall>m. map_get (pa_loops (fold page_action_step (settle_events n) s)) m = (if m < n then None else map_get (pa_loops s) m))
    \<and> pageActionDesired tab (fold page_action_step (settle_events n) s) = pageActionDesired tab s
    \<and> pa_queries (fold page_action_step (settle_events n) s) = pa_queries s
    \<and> waits_back (fold page_action_step (settle_events n) s) \<and> (\<exists>R. chained R (fold page_action_step (settle_events n) s))"
  proof (induction n)
    case 0
    then show ?case using assms by (auto simp: settle_events_def)
  next
    case (Suc n)
    define t where "t = fold page_action_step (settle_events n) s"
    have ev: "settle_events (Suc n) = settle_events n @ [LoopBegun n, CallEnded n True, CallEnded n True]"
      by (simp add: settle_events_def)
    define t' where "t' = fold page_action_step [LoopBegun n, CallEnded n True, CallEnded n True] t"
    have run: "fold page_action_step (settle_events (Suc n)) s = t'"
      unfolding ev t'_def t_def by (simp only: fold_append comp_apply)
    have ih: "\<And>m. map_get (pa_loops t) m = (if m < n then None else map_get (pa_loops s) m)"
      "pageActionDesired tab t = pageActionDesired tab s" "pa_queries t = pa_queries s" "waits_back t" "\<exists>R. chained R t"
      using Suc.IH unfolding t_def by blast+
    have first: "n \<le> m" if "map_has (pa_loops t) m" for m
      using that map_has_get [of m "pa_loops t"] ih(1) [of m] by (auto split: if_splits)
    note one = settle_one [OF ih(4) first, folded t'_def]
    have step: "waits_back (page_action_step e u) \<and> (\<exists>R. chained R (page_action_step e u))"
      if "waits_back u \<and> (\<exists>R. chained R u)" for e u
      using that waits_back_step chained_step by blast
    have "waits_back t' \<and> (\<exists>R. chained R t')"
      unfolding t'_def fold.simps comp_apply id_apply by (intro step) (use ih(4,5) in blast)
    then show ?case using one ih(1,2,3) unfolding run by (auto simp: less_Suc_eq)
  qed
  then show ?thesis by blast
qed

section \<open>When a page action should be shown\<close>

text \<open>What was asked for, read off the events alone: the pickers of the page action that wait, in the order
  of their tabs, whether the page action was last hidden, and the tabs that used the API.\<close>

fun wait_picker :: "page_action_event \<Rightarrow> (nat \<times> string) list \<Rightarrow> (nat \<times> string) list" where
  "wait_picker (ShowPicker tab requestId _ _) ws =
     (if tab \<in> fst ` set ws then map (\<lambda>w. if fst w = tab then (tab, requestId) else w) ws else ws @ [(tab, requestId)])"
| "wait_picker (CancelPicker tab requestId) ws = filter (\<lambda>w. w \<noteq> (tab, requestId)) ws"
| "wait_picker (PickerResult True (Some tab) _ _) ws = filter (\<lambda>w. fst w \<noteq> tab) ws"
| "wait_picker (PickerResult True None _ _) ws = drop 1 ws"
| "wait_picker _ ws = ws"

definition picker_waits :: "page_action_event list \<Rightarrow> nat \<Rightarrow> bool" where
  "picker_waits events tab \<longleftrightarrow> tab \<in> fst ` set (fold wait_picker events [])"

definition last_hidden :: "page_action_event list \<Rightarrow> bool" where
  "last_hidden events = fold (\<lambda>e h. case e of SetHidden b \<Rightarrow> b | _ \<Rightarrow> h) events False"

definition shown_by_history :: "page_action_event list \<Rightarrow> nat \<Rightarrow> bool" where
  "shown_by_history events tab \<longleftrightarrow>
     picker_waits events tab \<or> \<not> last_hidden events \<and> MarkUsed tab \<in> set events"

definition requests_of :: "(nat, picker_request) js_map \<Rightarrow> (nat \<times> string) list" where
  "requests_of m = map (\<lambda>(t, p). (t, pk_requestId p)) m"

lemma requests_of_simps [simp]:
  "requests_of [] = []" "requests_of (e # m) = (fst e, pk_requestId (snd e)) # requests_of m"
  "requests_of (m @ m') = requests_of m @ requests_of m'"
  by (simp_all add: requests_of_def split_beta)

lemma requests_of_keys [simp]: "fst ` set (requests_of m) = fst ` set m"
  by (induction m) simp_all

lemma requests_of_key: "w \<in> set (requests_of m) \<Longrightarrow> fst w \<in> fst ` set m"
  by (metis imageI requests_of_keys)

definition history_fields :: "page_action_event list \<Rightarrow> page_action \<Rightarrow> bool" where
  "history_fields events s \<longleftrightarrow>
     requests_of (pa_pendingPicker s) = fold wait_picker events []
     \<and> map_wf (pa_pendingPicker s)
     \<and> (\<forall>e \<in> set (pa_pendingPicker s). pk_mode (snd e) = PageActionPicker)
     \<and> pa_hidePageAction s = last_hidden events
     \<and> set (pa_usedTabs s) = {tab. MarkUsed tab \<in> set events}"

lemma reconcile_fields [simp]:
  "pa_pendingPicker (reconcilePageAction t s) = pa_pendingPicker s"
  "pa_hidePageAction (reconcilePageAction t s) = pa_hidePageAction s"
  "pa_usedTabs (reconcilePageAction t s) = pa_usedTabs s"
  by (simp_all add: reconcilePageAction_def)

lemma reconcile_all_fields [simp]:
  "pa_pendingPicker (fold reconcilePageAction ts s) = pa_pendingPicker s"
  "pa_hidePageAction (fold reconcilePageAction ts s) = pa_hidePageAction s"
  "pa_usedTabs (fold reconcilePageAction ts s) = pa_usedTabs s"
  by (induction ts arbitrary: s) simp_all

lemma loop_fields [simp]:
  "pa_pendingPicker (loop_begun n s) = pa_pendingPicker s" "pa_pendingPicker (call_ended n ok s) = pa_pendingPicker s"
  "pa_hidePageAction (loop_begun n s) = pa_hidePageAction s" "pa_hidePageAction (call_ended n ok s) = pa_hidePageAction s"
  "pa_usedTabs (loop_begun n s) = pa_usedTabs s" "pa_usedTabs (call_ended n ok s) = pa_usedTabs s"
  by (simp_all add: loop_begun_def call_ended_def Let_def split: option.split phase.split prod.split)

lemma requests_of_set:
  "map_wf m \<Longrightarrow> requests_of (map_set m tab p) =
     (if tab \<in> fst ` set m then map (\<lambda>w. if fst w = tab then (tab, pk_requestId p) else w) (requests_of m)
      else requests_of m @ [(tab, pk_requestId p)])"
proof (induction m)
  case (Cons e m)
  have "map (\<lambda>w. if fst w = k then (k, r) else w) (requests_of m) = requests_of m" if "k \<notin> fst ` set m" for k r
    by (rule map_idI) (use that requests_of_key in fastforce)
  with Cons show ?case by (cases e) auto
qed simp

lemma requests_of_delete:
  "requests_of (map_delete m tab) = filter (\<lambda>w. fst w \<noteq> tab) (requests_of m)"
  by (induction m) (auto simp: AList.delete_eq)

lemma cancel_requests:
  "map_wf m \<Longrightarrow> filter (\<lambda>w. w \<noteq> (tab, r)) (requests_of m) =
     requests_of (if map_option pk_requestId (map_get m tab) = Some r then map_delete m tab else m)"
proof (induction m)
  case (Cons e m)
  show ?case
  proof (cases "fst e = tab")
    case True
    then have "tab \<notin> fst ` set m" using Cons.prems by simp
    then have "filter (\<lambda>w. w \<noteq> (tab, r)) (requests_of m) = requests_of m" "map_delete m tab = m"
      using requests_of_key [of _ m] by (fastforce simp: filter_id_conv, simp add: delete_idem)
    with True show ?thesis by (cases e) simp
  next
    case False
    with Cons show ?thesis by (cases e; cases "map_get m tab") (auto simp del: map_of_eq_Some_iff)
  qed
qed simp

lemma mem_map_set: "e \<in> set (map_set m k v) \<Longrightarrow> e = (k, v) \<or> e \<in> set m"
  by (induction m) (auto split: if_splits)

lemma mem_map_delete: "e \<in> set (map_delete m k) \<Longrightarrow> e \<in> set m" for e m k
  by (auto simp: AList.delete_eq)

lemma restore_fields [simp]:
  "pa_pendingPicker (restorePageAction t s) = pa_pendingPicker s" "pa_hidePageAction (restorePageAction t s) = pa_hidePageAction s"
  "pa_usedTabs (restorePageAction t s) = pa_usedTabs s"
  "pa_pendingPicker (openPickerPageAction t s) = pa_pendingPicker s" "pa_hidePageAction (openPickerPageAction t s) = pa_hidePageAction s"
  "pa_usedTabs (openPickerPageAction t s) = pa_usedTabs s"
  by (simp_all add: restorePageAction_def openPickerPageAction_def)

lemma history_fields_cancel:
  assumes "history_fields events s"
  shows "history_fields (events @ [CancelPicker tab r]) (handleCancelPicker tab r s)"
proof -
  have p: "pa_pendingPicker (handleCancelPicker tab r s) =
      (if map_option pk_requestId (map_get (pa_pendingPicker s) tab) = Some r then map_delete (pa_pendingPicker s) tab
       else pa_pendingPicker s)"
    and f: "pa_hidePageAction (handleCancelPicker tab r s) = pa_hidePageAction s"
      "pa_usedTabs (handleCancelPicker tab r s) = pa_usedTabs s"
    by (simp_all add: handleCancelPicker_def Let_def split: option.split)
  have ws: "filter (\<lambda>w. w \<noteq> (tab, r)) (fold wait_picker events [])
      = requests_of (pa_pendingPicker (handleCancelPicker tab r s))"
    using assms cancel_requests unfolding history_fields_def p by metis
  have sub: "x \<in> set (pa_pendingPicker s)" if "x \<in> set (pa_pendingPicker (handleCancelPicker tab r s))" for x
    using that mem_map_delete [where e = x and m = "pa_pendingPicker s"] unfolding p by (auto split: if_splits)
  have wf: "map_wf (pa_pendingPicker (handleCancelPicker tab r s))"
    using assms unfolding p by (auto simp: history_fields_def distinct_delete)
  show ?thesis
    using assms wf sub ws unfolding history_fields_def f by (simp add: last_hidden_def)
qed

lemma history_fields_result:
  assumes "history_fields events s"
  shows "history_fields (events @ [PickerResult fp t r sel]) (handlePickerResult fp t r sel s)"
proof -
  let ?m = "pa_pendingPicker s"
  have p: "pa_pendingPicker (handlePickerResult fp t r sel s) =
      (if \<not> fp then ?m else case t of Some tab \<Rightarrow> map_delete ?m tab | None \<Rightarrow> (case ?m of [] \<Rightarrow> [] | (tab, _) # _ \<Rightarrow> map_delete ?m tab))"
    and f: "pa_hidePageAction (handlePickerResult fp t r sel s) = pa_hidePageAction s"
      "pa_usedTabs (handlePickerResult fp t r sel s) = pa_usedTabs s"
    by (simp_all add: handlePickerResult_def picker_done_def Let_def split: option.split list.split)
  have d: "drop 1 (requests_of ?m) = requests_of (case ?m of [] \<Rightarrow> [] | (tab, _) # _ \<Rightarrow> map_delete ?m tab)"
  proof -
    have "map_wf ?m" using assms by (simp add: history_fields_def)
    then show ?thesis by (cases ?m) (auto simp: delete_idem)
  qed
  have ws: "wait_picker (PickerResult fp t r sel) (fold wait_picker events [])
      = requests_of (pa_pendingPicker (handlePickerResult fp t r sel s))"
  proof -
    have e: "fold wait_picker events [] = requests_of ?m"
      using assms by (simp add: history_fields_def)
    show ?thesis unfolding e p by (cases fp; cases t) (simp_all only: wait_picker.simps d requests_of_delete if_True if_False option.case not_True_eq_False not_False_eq_True simp_thms)
  qed
  have sub: "x \<in> set ?m" if "x \<in> set (pa_pendingPicker (handlePickerResult fp t r sel s))" for x
    using that mem_map_delete [where e = x and m = ?m] unfolding p by (auto split: if_splits option.splits list.splits)
  have wf: "map_wf (pa_pendingPicker (handlePickerResult fp t r sel s))"
    using assms unfolding p by (auto simp: history_fields_def distinct_delete split: option.split list.split)
  show ?thesis
    using assms wf sub ws unfolding history_fields_def f by (simp add: last_hidden_def)
qed

lemma history_fields_show:
  assumes "history_fields events s"
  shows "history_fields (events @ [ShowPicker tab r o' PageActionPicker]) (handleShowPicker tab r o' PageActionPicker s)"
proof -
  let ?p = "\<lparr>pk_requestId = r, pk_tabId = tab, pk_origin = o', pk_mode = PageActionPicker\<rparr>"
  let ?s = "handleShowPicker tab r o' PageActionPicker s"
  have f: "pa_pendingPicker ?s = map_set (pa_pendingPicker s) tab ?p"
    "pa_hidePageAction ?s = pa_hidePageAction s" "pa_usedTabs ?s = pa_usedTabs s"
    by (simp_all add: handleShowPicker_def Let_def)
  have h: "fold wait_picker events [] = requests_of (pa_pendingPicker s)" "map_wf (pa_pendingPicker s)"
    using assms by (simp_all add: history_fields_def)
  have ws: "wait_picker (ShowPicker tab r o' PageActionPicker) (fold wait_picker events []) = requests_of (pa_pendingPicker ?s)"
    unfolding h(1) f(1) requests_of_set [OF h(2)] by simp
  have modes: "\<forall>e \<in> set (pa_pendingPicker ?s). pk_mode (snd e) = PageActionPicker"
    using assms mem_map_set [of _ tab ?p "pa_pendingPicker s"] unfolding f(1) history_fields_def by fastforce
  show ?thesis
    using assms ws modes unfolding history_fields_def f(2,3)
    by (simp add: last_hidden_def f(1) distinct_update del: wait_picker.simps)
qed

lemma history_fields_step:
  assumes "history_fields events s" "\<not> disturbs e"
  shows "history_fields (events @ [e]) (page_action_step e s)"
proof (cases e)
  case (ShowPicker tab r o' mode)
  then have "mode = PageActionPicker" using assms(2) by (cases mode) simp_all
  with ShowPicker show ?thesis using history_fields_show [OF assms(1)] by simp
next
  case (CancelPicker tab r)
  then show ?thesis using history_fields_cancel [OF assms(1)] by simp
next
  case (PickerResult fp t r sel)
  then show ?thesis using history_fields_result [OF assms(1)] by simp
next
  case (SetHidden h)
  then show ?thesis using assms(1) by (auto simp: history_fields_def setHidden_def last_hidden_def)
next
  case (MarkUsed t)
  then show ?thesis using assms(1) by (auto simp: history_fields_def markUsed_def last_hidden_def set_add_def)
next
  case (TabsListed ts)
  then show ?thesis using assms(1) by (auto simp: history_fields_def tabs_listed_def last_hidden_def)
next
  case (LoopBegun n)
  then show ?thesis using assms(1) by (auto simp: history_fields_def last_hidden_def)
next
  case (CallEnded n ok)
  then show ?thesis using assms(1) by (auto simp: history_fields_def last_hidden_def)
qed (use assms in simp)

lemma history_fields_run:
  "list_all (\<lambda>e. \<not> disturbs e) events \<Longrightarrow> history_fields events (fold page_action_step events initial_page_action)"
proof (induction events rule: rev_induct)
  case Nil
  then show ?case by (simp add: history_fields_def initial_page_action_def last_hidden_def)
next
  case (snoc e events)
  then show ?case using history_fields_step by simp
qed

lemma desired_by_history:
  assumes "history_fields events s"
  shows "pageActionDesired tab s \<longleftrightarrow> shown_by_history events tab"
proof -
  have "fold wait_picker events [] = requests_of (pa_pendingPicker s)"
    using assms by (simp add: history_fields_def)
  then have "picker_waits events tab \<longleftrightarrow> tab \<in> fst ` set (pa_pendingPicker s)"
    unfolding picker_waits_def by simp
  also have "\<dots> \<longleftrightarrow> map_get (pa_pendingPicker s) tab \<noteq> None" using map_has_get [of tab "pa_pendingPicker s"] by simp
  also have "\<dots> \<longleftrightarrow> map_option pk_mode (map_get (pa_pendingPicker s) tab) = Some PageActionPicker"
    using assms map_get_mem [of "pa_pendingPicker s" tab]
    by (cases "map_get (pa_pendingPicker s) tab") (auto simp: history_fields_def simp del: map_of_eq_Some_iff)
  finally show ?thesis using assms by (simp add: pageActionDesired_def shown_by_history_def history_fields_def)
qed

section \<open>Properties\<close>

text \<open>C36: In a run in which no call of the browser fails, no tab is removed, no window picker is shown and
  every listing of the tabs names the tab: once no listing is under way and the reconciliations under way
  have run in the order they were asked for, none is left, and the browser shows the page action of the
  tab exactly when a picker of the page action waits in it, or the page action was not last hidden and
  the tab used the API.\<close>

theorem page_action_converges:
  assumes "list_all (\<lambda>e. \<not> disturbs e \<and> all_tabs tabs e) events" "tab \<in> set tabs"
    and "pa_queries (fold page_action_step events initial_page_action) = 0"
  shows "(let s = fold page_action_step events initial_page_action;
              s' = fold page_action_step (settle_events (pa_next s)) s
          in pa_loops s' = [] \<and> (tab \<in> set (pa_shown s') \<longleftrightarrow> shown_by_history events tab))"
proof -
  define s where "s = fold page_action_step events initial_page_action"
  define s' where "s' = fold page_action_step (settle_events (pa_next s)) s"
  have inv: "chained (concat (map removed_tab (rev events))) s" "waits_back s"
    unfolding s_def by (rule chained_run waits_back_run)+
  have all: "map_get (pa_loops s') m = None" "pageActionDesired tab s' = pageActionDesired tab s" "pa_queries s' = 0" for m
  proof -
    show "map_get (pa_loops s') m = None"
      using settle_all [OF inv, of "pa_next s" m tab] chained_bound [OF inv(1), of m] unfolding s'_def
      by (cases "map_get (pa_loops s) m") auto
    show "pageActionDesired tab s' = pageActionDesired tab s" "pa_queries s' = 0"
      using settle_all [OF inv, of "pa_next s" m tab] assms(3) unfolding s'_def s_def by simp_all
  qed
  have "pa_loops s' = []"
  proof (rule ccontr)
    assume "pa_loops s' \<noteq> []"
    then have "fst (hd (pa_loops s')) \<in> set (map_keys (pa_loops s'))" by simp
    then show False using map_has_get [of "fst (hd (pa_loops s'))" "pa_loops s'"] all(1) by simp
  qed
  have s'_run: "s' = fold page_action_step (events @ settle_events (pa_next s)) initial_page_action"
    by (simp add: s'_def s_def)
  have "list_all (\<lambda>e. \<not> disturbs e \<and> all_tabs tabs e) (settle_events k)" for k
    by (auto simp: settle_events_def list_all_iff all_tabs_def)
  then have "settled_tab tab s'" unfolding s'_run using assms(1,2) by (intro settled_tab_run) simp_all
  then have "attended tab s'" using all(3) by (simp add: settled_tab_def)
  then have "tab \<in> set (pa_shown s') \<longleftrightarrow> pageActionDesired tab s"
    using all(1,2) by (simp add: attended_def loop_tab_def)
  also have "\<dots> \<longleftrightarrow> shown_by_history events tab"
    unfolding s_def by (intro desired_by_history history_fields_run) (use assms(1) in \<open>simp add: list_all_iff\<close>)
  finally show ?thesis using \<open>pa_loops s' = []\<close> unfolding Let_def s'_def s_def by blast
qed

definition example_page_events :: "page_action_event list" where
  "example_page_events = [MarkUsed 1, LoopBegun 0, SetHidden True, ShowPicker 2 ''r'' ''https://a'' PageActionPicker,
     TabsListed [1, 2], CallEnded 0 True]"

theorem page_action_converges_witness:
  "(let s = fold page_action_step example_page_events initial_page_action;
        s' = fold page_action_step (settle_events (pa_next s)) s
    in pa_loops s' = [] \<and> 1 \<notin> set (pa_shown s') \<and> 2 \<in> set (pa_shown s')) \<and> pa_queries (fold page_action_step example_page_events initial_page_action) = 0"
proof -
  have h: "list_all (\<lambda>e. \<not> disturbs e \<and> all_tabs [1, 2] e) example_page_events"
    "pa_queries (fold page_action_step example_page_events initial_page_action) = 0"
    "\<not> shown_by_history example_page_events 1" "shown_by_history example_page_events 2"
    by code_simp+
  show ?thesis
    using page_action_converges [OF h(1) _ h(2), of 1] page_action_converges [OF h(1) _ h(2), of 2] h(2-4)
    by (simp add: Let_def)
qed

text \<open>The calls of the browser for one tab never overlap, as long as the tab is not removed.\<close>

theorem page_action_calls_in_turn:
  "tab \<in> set (concat (map removed_tab events)) \<or>
   length (filter (\<lambda>(n, t, ph). t = tab \<and> (case ph of Calling _ \<Rightarrow> True | _ \<Rightarrow> False))
     (pa_loops (fold page_action_step events initial_page_action))) \<le> 1"
proof (cases "tab \<in> set (concat (map removed_tab events))")
  case False
  define s where "s = fold page_action_step events initial_page_action"
  have c: "chained (concat (map removed_tab (rev events))) s" unfolding s_def by (rule chained_run)
  have R: "tab \<notin> set (concat (map removed_tab (rev events)))" using False by simp
  let ?xs = "filter (\<lambda>(n, t, ph). t = tab \<and> (case ph of Calling _ \<Rightarrow> True | _ \<Rightarrow> False)) (pa_loops s)"
  have no_two: "n = m" if "(n, t, ph) \<in> set ?xs" "(m, t', ph') \<in> set ?xs" for n m t t' ph ph'
  proof -
    have mem: "map_get (pa_loops s) n = Some (tab, ph)" "map_get (pa_loops s) m = Some (tab, ph')"
      using that map_mem_get [OF chained_wf [OF c]] by auto
    have calls: "\<exists>v. ph = Calling v" "\<exists>v. ph' = Calling v" using that by (auto split: phase.splits)
    have "\<not> n < m"
    proof
      assume "n < m"
      from chained_turn [OF c mem R this] calls(2) show False by blast
    qed
    moreover have "\<not> m < n"
    proof
      assume "m < n"
      from chained_turn [OF c mem(2,1) R this] calls(1) show False by blast
    qed
    ultimately show "n = m" by simp
  qed
  have short: "length xs \<le> 1" if d: "distinct (map fst xs)" and same: "\<And>x y. x \<in> set xs \<Longrightarrow> y \<in> set xs \<Longrightarrow> fst x = fst y"
    for xs :: "(nat \<times> nat \<times> phase) list"
  proof (rule ccontr)
    assume "\<not> length xs \<le> 1"
    then obtain x y zs where xs: "xs = x # y # zs" by (metis One_nat_def le_numeral_extra(4) length_Cons list.exhaust list.size(3) zero_le_one)
    then have "fst x = fst y" by (intro same) simp_all
    with d xs show False by simp
  qed
  have "length ?xs \<le> 1"
  proof (rule short)
    show "distinct (map fst ?xs)" using chained_wf [OF c] by (rule map_wf_filter)
    show "fst x = fst y" if "x \<in> set ?xs" "y \<in> set ?xs" for x y
    proof -
      obtain n t ph where x: "x = (n, t, ph)" by (rule prod_cases3)
      obtain m t' ph' where y: "y = (m, t', ph')" by (rule prod_cases3)
      from no_two [OF that [unfolded x y]] show ?thesis unfolding x y by simp
    qed
  qed
  then show ?thesis by (simp add: s_def)
qed simp

text \<open>A picker of a tab that was closed stays, and it is the one that every picker page is shown, for the
  request of another tab as well.\<close>

lemma stale_picker_shown:
  "map_option pk_tabId (handleGetPendingPicker (fold page_action_step
     [ShowPicker 1 ''r'' ''https://a'' WindowPicker, TabRemoved 1, ShowPicker 2 ''q'' ''https://b'' WindowPicker]
     initial_page_action)) = Some 1"
  by code_simp

text \<open>A window picker in the place of a page action picker: the page action stays, with nobody on it.\<close>

lemma replaced_picker_keeps_page_action:
  "(let s = fold page_action_step
     [ShowPicker 1 ''r'' ''https://a'' PageActionPicker, LoopBegun 0, CallEnded 0 True,
      ShowPicker 1 ''q'' ''https://b'' WindowPicker, PickerResult True (Some 1) ''q'' True] initial_page_action
    in pa_shown s = [1] \<and> pa_loops s = [] \<and> \<not> pageActionDesired 1 s \<and> last (pa_popups s) = (1, True))"
  by code_simp

text \<open>A picker that is cancelled before the reconciliation it waits for has ended is put into the popup
  after the popup was set back: the used page action then opens the picker of nobody.\<close>

lemma cancelled_picker_keeps_popup:
  "(let s = fold page_action_step
     [ShowPicker 1 ''r'' ''https://a'' PageActionPicker, LoopBegun 0, CancelPicker 1 ''r'', MarkUsed 1, CallEnded 0 True,
      LoopBegun 1, CallEnded 1 True, LoopBegun 2, CallEnded 2 True] initial_page_action
    in pa_shown s = [1] \<and> pa_loops s = [] \<and> pa_pendingPicker s = [] \<and> pa_popups s = [(1, False), (1, True)])"
  by code_simp

end
