(* ===== verification/Page_Device.thy ===== *)
theory Page_Device
  imports Complex_Main Data_Requests Descriptor_Tlv Wire_Format
begin

text \<open>
  The devices of the page (\<open>content/main/index.js\<close>): the objects behind \<open>navigator.hid\<close>, opening, closing
  and forgetting them, reports over a data port or an in-page plane, and the messages of the bridge about
  planes and devices. An event is what runs to its end: a call of the API, an answer to a request of the
  bridge, a message of a port, a callback of a transport. A request is always answered: at its deadline
  with status 504. The bridge is ready, so \<open>await bridgeReady\<close> only lets promise reactions run.
\<close>

section \<open>Report ids\<close>

text \<open>The number a report id converts to; none where the conversion throws or gives no finite number.\<close>

definition convertEnforcedOctet :: "rat option \<Rightarrow> nat option" where
  "convertEnforcedOctet v =
     (case v of
        None \<Rightarrow> None
      | Some x \<Rightarrow> if x < 0 \<or> x > 255 then None else Some (nat \<lfloor>x\<rfloor>))"

fun node_report_id :: "tlv_node \<Rightarrow> nat" where
  "node_report_id (ReportNode i _) = i"
| "node_report_id _ = 0"

fun collectionUsesReportIds :: "tlv_node \<Rightarrow> bool" where
  "collectionUsesReportIds (CollectionNode _ _ _ children inputs outputs features) =
     (list_ex (\<lambda>r. node_report_id r \<noteq> 0) (inputs @ outputs @ features) \<or>
      list_ex collectionUsesReportIds children)"
| "collectionUsesReportIds _ = False"

definition deviceUsesReportIds :: "tlv_node list \<Rightarrow> bool" where
  "deviceUsesReportIds cs = list_ex collectionUsesReportIds cs"

definition validateReportId :: "nat \<Rightarrow> tlv_node list \<Rightarrow> nat option" where
  "validateReportId reportId cs =
     (let usesReportIds = deviceUsesReportIds cs
      in if reportId = 0 \<and> usesReportIds then None
         else if reportId \<noteq> 0 \<and> \<not> usesReportIds then None
         else Some reportId)"

lemma octet_bound: "convertEnforcedOctet v = Some n \<Longrightarrow> n < 256"
proof (cases v)
  case (Some x)
  assume "convertEnforcedOctet v = Some n"
  with Some have x: "x \<le> 255" "n = nat \<lfloor>x\<rfloor>" by (auto simp: convertEnforcedOctet_def split: if_splits)
  from x(1) have "\<lfloor>x\<rfloor> < 256" by (simp add: floor_less_iff)
  with x(2) show ?thesis by linarith
qed (simp add: convertEnforcedOctet_def)

lemma validated: "validateReportId n cs = Some m \<Longrightarrow> m = n \<and> (n = 0 \<longleftrightarrow> \<not> deviceUsesReportIds cs)"
  by (auto simp: validateReportId_def Let_def split: if_splits)

section \<open>State\<close>

text \<open>A promise of the API is settled with a value or a DOM exception by its name.\<close>

datatype page_error = InvalidStateError | NetworkError | NotAllowedError | AbortError | NotATypeError

datatype page_outcome = Fulfilled | FulfilledView bytes | Rejected page_error

text \<open>A device object, as its entry of \<open>devState\<close>. \<open>pd_pending\<close> is \<open>dataPending\<close>: the request id of a
  report, the promise it settles and whether it reads.\<close>

record page_device =
  pd_deviceId :: string
  pd_collections :: "tlv_node list"
  pd_reportSize :: nat
  pd_opened :: bool
  pd_opening :: bool
  pd_forgotten :: bool
  pd_gen :: nat
  pd_ready :: bool
  pd_unavailable :: bool
  pd_unavailableGen :: "nat option"
  pd_port :: "nat option"
  pd_portGen :: "nat option"
  pd_pending :: "(nat, nat \<times> report_kind) js_map"

text \<open>What a promise waits for: the answer to a request of the bridge.\<close>

datatype page_task =
    OpenAnswer nat nat
  | ReadyAnswer nat nat
  | UnreadyClosed nat nat
  | CloseAnswer nat nat
  | ForgetAnswer nat nat
  | ForgottenClosed nat "nat option"

datatype main_request = OpenRequest string nat | CloseRequest string | WaitReadyRequest string nat | UnpairRequest string

datatype page_device_event = OpenEvent | CloseEvent | DisconnectEvent | InputReport nat bytes

text \<open>What goes to the bridge apart from requests: the wiring of a data port, through a worker or not, and
  the word about an in-page plane.\<close>

datatype bridge_post = DataPortPosted string nat bool | PlaneAnswered nat bool | PlaneClosed string nat | PlaneAuthFailed string nat

text \<open>The state of the page: the device objects and the registry that names one by its id, the in-page
  planes with their generations, the reports waiting on them, the workers by device, the requests
  waiting. The rest is history: reports posted (object, report id, kind), promises given and settled,
  events dispatched.\<close>

record page =
  pg_devices :: "(nat, page_device) js_map"
  pg_registry :: "(string, nat) js_map"
  pg_planes :: "(string, nat) js_map"
  pg_inPending :: "(nat, string \<times> nat \<times> report_kind) js_map"
  pg_workers :: "(string, nat) js_map"
  pg_nextReq :: nat
  pg_nextPort :: nat
  pg_tasks :: "(nat, page_task) js_map"
  pg_requests :: "(nat \<times> main_request) list"
  pg_posts :: "bridge_post list"
  pg_reports :: "(nat \<times> nat \<times> report_kind) list"
  pg_promises :: nat
  pg_settled :: "(nat \<times> page_outcome) list"
  pg_events :: "(nat \<times> page_device_event) list"

definition initial_page :: page where
  "initial_page = \<lparr>pg_devices = [], pg_registry = [], pg_planes = [], pg_inPending = [], pg_workers = [],
     pg_nextReq = 0, pg_nextPort = 0, pg_tasks = [], pg_requests = [], pg_posts = [], pg_reports = [],
     pg_promises = 0, pg_settled = [], pg_events = []\<rparr>"

text \<open>The object of a device that is known.\<close>

definition registered :: "string \<Rightarrow> page \<Rightarrow> nat option" where
  "registered deviceId s = (if deviceId = [] then None else map_get (pg_registry s) deviceId)"

definition createHIDDevice :: "string \<Rightarrow> tlv_node list \<Rightarrow> nat \<Rightarrow> page_device" where
  "createHIDDevice deviceId cs maxInput =
     \<lparr>pd_deviceId = deviceId, pd_collections = cs, pd_reportSize = (if maxInput = 0 then 64 else maxInput),
      pd_opened = False, pd_opening = False, pd_forgotten = False, pd_gen = 0, pd_ready = False,
      pd_unavailable = False, pd_unavailableGen = None, pd_port = None, pd_portGen = None, pd_pending = []\<rparr>"

definition getOrCreateDevice :: "string \<Rightarrow> tlv_node list \<Rightarrow> nat \<Rightarrow> page \<Rightarrow> nat \<times> page" where
  "getOrCreateDevice deviceId cs maxInput s =
     (case registered deviceId s of
        Some obj \<Rightarrow> (obj, s)
      | None \<Rightarrow>
          let obj = length (pg_devices s);
              s1 = s\<lparr>pg_devices := pg_devices s @ [(obj, createHIDDevice deviceId cs maxInput)]\<rparr>
          in (obj, if deviceId = [] then s1 else s1\<lparr>pg_registry := map_set (pg_registry s1) deviceId obj\<rparr>))"

definition set_device :: "nat \<Rightarrow> page_device \<Rightarrow> page \<Rightarrow> page" where
  "set_device obj d s = s\<lparr>pg_devices := map_set (pg_devices s) obj d\<rparr>"

definition settle_page_promise :: "nat \<Rightarrow> page_outcome \<Rightarrow> page \<Rightarrow> page" where
  "settle_page_promise op out s = s\<lparr>pg_settled := pg_settled s @ [(op, out)]\<rparr>"

definition dispatch :: "nat \<Rightarrow> page_device_event \<Rightarrow> page \<Rightarrow> page" where
  "dispatch obj ev s = s\<lparr>pg_events := pg_events s @ [(obj, ev)]\<rparr>"

text \<open>\<open>sendRequest\<close>: its promise always settles, by an answer or, at its deadline, by a status 504. The task
  is what runs then; a request whose answer nobody looks at has none.\<close>

definition sendRequest :: "main_request \<Rightarrow> page_task option \<Rightarrow> page \<Rightarrow> page" where
  "sendRequest r t s =
     (let n = pg_nextReq s + 1
      in s\<lparr>pg_nextReq := n, pg_requests := pg_requests s @ [(n, r)],
           pg_tasks := (case t of None \<Rightarrow> pg_tasks s | Some t \<Rightarrow> map_set (pg_tasks s) n t)\<rparr>)"

section \<open>Reports that wait\<close>

definition rejectPendingReports :: "nat \<Rightarrow> page_error \<Rightarrow> page \<Rightarrow> page" where
  "rejectPendingReports obj e s =
     (case map_get (pg_devices s) obj of
        None \<Rightarrow> s
      | Some d \<Rightarrow>
          (set_device obj (d\<lparr>pd_pending := []\<rparr>) s)
            \<lparr>pg_settled := pg_settled s @ map (\<lambda>(_, op, _). (op, Rejected e)) (pd_pending d)\<rparr>)"

definition rejectInPagePending :: "string \<Rightarrow> page \<Rightarrow> page" where
  "rejectInPagePending deviceId s =
     s\<lparr>pg_inPending := filter (\<lambda>(_, dev, _, _). dev \<noteq> deviceId) (pg_inPending s),
       pg_settled := pg_settled s @
         map (\<lambda>(_, _, op, _). (op, Rejected NetworkError)) (filter (\<lambda>(_, dev, _, _). dev = deviceId) (pg_inPending s))\<rparr>"

section \<open>Wiring and loss of a data port\<close>

definition detachDataPort :: "page_device \<Rightarrow> page_device" where
  "detachDataPort d = d\<lparr>pd_port := None, pd_portGen := None\<rparr>"

text \<open>A new channel for the generation; its other end goes to the worker of the device or to the bridge.\<close>

definition wireDevicePort :: "nat \<Rightarrow> nat \<Rightarrow> page \<Rightarrow> page" where
  "wireDevicePort obj gen s =
     (case map_get (pg_devices s) obj of
        None \<Rightarrow> s
      | Some d0 \<Rightarrow>
          if pd_port d0 \<noteq> None \<and> pd_portGen d0 = Some gen then s
          else let s1 = (if pd_port d0 \<noteq> None then rejectPendingReports obj NetworkError s else s);
                   d = (if pd_port d0 \<noteq> None then detachDataPort (d0\<lparr>pd_pending := []\<rparr>) else d0);
                   d' = d\<lparr>pd_unavailableGen := (if gen \<noteq> pd_gen d then None else pd_unavailableGen d),
                          pd_gen := gen, pd_ready := False,
                          pd_unavailable := (pd_opened d \<or> pd_unavailable d),
                          pd_port := Some (pg_nextPort s1), pd_portGen := Some gen\<rparr>
               in (set_device obj d' s1)
                    \<lparr>pg_nextPort := pg_nextPort s1 + 1,
                     pg_posts := pg_posts s1 @ [DataPortPosted (pd_deviceId d) gen (map_has (pg_workers s1) (pd_deviceId d))]\<rparr>)"

definition reconcileAuthoritativeLifetime :: "nat \<Rightarrow> bool \<Rightarrow> page \<Rightarrow> page" where
  "reconcileAuthoritativeLifetime obj forgotten s =
     (let s1 = rejectPendingReports obj AbortError s
      in case map_get (pg_devices s1) obj of
           None \<Rightarrow> s1
         | Some d \<Rightarrow>
             let d1 = d\<lparr>pd_opening := False, pd_forgotten := (forgotten \<or> pd_forgotten d), pd_opened := False,
                        pd_ready := False, pd_unavailable := False, pd_unavailableGen := None\<rparr>
             in set_device obj (if pd_port d1 = None then d1 else detachDataPort d1) s1)"

section \<open>Opening and closing\<close>

record answer =
  an_ok :: bool
  an_generation :: "nat option"
  an_ready :: bool
  an_success :: bool

text \<open>A call of the API gets the next promise.\<close>

definition begin_call :: "page \<Rightarrow> page" where
  "begin_call s = s\<lparr>pg_promises := pg_promises s + 1\<rparr>"

definition open_failed :: "nat \<Rightarrow> nat \<Rightarrow> page_error \<Rightarrow> page \<Rightarrow> page" where
  "open_failed obj op e s =
     (case map_get (pg_devices s) obj of
        None \<Rightarrow> settle_page_promise op (Rejected e) s
      | Some d \<Rightarrow> settle_page_promise op (Rejected e) (set_device obj (d\<lparr>pd_opening := False\<rparr>) s))"

definition open_device :: "nat \<Rightarrow> page \<Rightarrow> page" where
  "open_device obj s =
     (let op = pg_promises s; s1 = begin_call s
      in case map_get (pg_devices s) obj of
           None \<Rightarrow> settle_page_promise op (Rejected InvalidStateError) s1
         | Some d \<Rightarrow>
             if pd_forgotten d \<or> pd_opened d \<or> pd_opening d then settle_page_promise op (Rejected InvalidStateError) s1
             else sendRequest (OpenRequest (pd_deviceId d) (pd_reportSize d + 3)) (Some (OpenAnswer obj op))
                    (set_device obj (d\<lparr>pd_opening := True\<rparr>) s1))"

definition openAnswered :: "nat \<Rightarrow> nat \<Rightarrow> answer \<Rightarrow> page \<Rightarrow> page" where
  "openAnswered obj op a s =
     (case map_get (pg_devices s) obj of
        None \<Rightarrow> settle_page_promise op (Rejected NetworkError) s
      | Some d \<Rightarrow>
          if pd_forgotten d
          then open_failed obj op InvalidStateError (sendRequest (CloseRequest (pd_deviceId d)) None s)
          else if \<not> an_ok a then open_failed obj op NetworkError s
          else case an_generation a of
                 None \<Rightarrow> open_failed obj op NetworkError s
               | Some gen \<Rightarrow>
                   sendRequest (WaitReadyRequest (pd_deviceId d) gen) (Some (ReadyAnswer obj op))
                     (wireDevicePort obj gen (set_device obj (d\<lparr>pd_gen := gen\<rparr>) s)))"

definition readyAnswered :: "nat \<Rightarrow> nat \<Rightarrow> answer \<Rightarrow> page \<Rightarrow> page" where
  "readyAnswered obj op a s =
     (case map_get (pg_devices s) obj of
        None \<Rightarrow> settle_page_promise op (Rejected NetworkError) s
      | Some d \<Rightarrow>
          if \<not> an_ready a
          then sendRequest (CloseRequest (pd_deviceId d)) (Some (UnreadyClosed obj op))
                 (set_device obj (d\<lparr>pd_port := None\<rparr>) s)
          else settle_page_promise op Fulfilled
                 (dispatch obj OpenEvent
                   (set_device obj (d\<lparr>pd_ready := True, pd_unavailable := False, pd_opened := True, pd_opening := False\<rparr>) s)))"

definition close_device :: "nat \<Rightarrow> page \<Rightarrow> page" where
  "close_device obj s =
     (let op = pg_promises s; s1 = begin_call s
      in case map_get (pg_devices s) obj of
           None \<Rightarrow> settle_page_promise op Fulfilled s1
         | Some d \<Rightarrow>
             if pd_forgotten d then settle_page_promise op (Rejected InvalidStateError) s1
             else if \<not> pd_opened d then settle_page_promise op Fulfilled s1
             else sendRequest (CloseRequest (pd_deviceId d)) (Some (CloseAnswer obj op)) s1)"

definition closeAnswered :: "nat \<Rightarrow> nat \<Rightarrow> answer \<Rightarrow> page \<Rightarrow> page" where
  "closeAnswered obj op a s =
     (if \<not> an_ok a then settle_page_promise op (Rejected InvalidStateError) s
      else let s1 = rejectPendingReports obj AbortError s
           in case map_get (pg_devices s1) obj of
                None \<Rightarrow> settle_page_promise op Fulfilled s1
              | Some d \<Rightarrow>
                  let d1 = d\<lparr>pd_opened := False, pd_ready := False, pd_unavailable := False, pd_unavailableGen := None\<rparr>
                  in settle_page_promise op Fulfilled (dispatch obj CloseEvent
                       (set_device obj (if pd_port d1 = None then d1 else detachDataPort d1) s1)))"

section \<open>Forgetting\<close>

definition forgotten_done :: "nat \<Rightarrow> bool \<Rightarrow> nat option \<Rightarrow> page \<Rightarrow> page" where
  "forgotten_done obj wasOpened op s =
     (let s1 = reconcileAuthoritativeLifetime obj True s;
          s2 = (if wasOpened then dispatch obj CloseEvent s1 else s1);
          s3 = (case map_get (pg_devices s2) obj of
                  None \<Rightarrow> s2 | Some d \<Rightarrow> s2\<lparr>pg_registry := map_delete (pg_registry s2) (pd_deviceId d)\<rparr>)
      in case op of None \<Rightarrow> s3 | Some p \<Rightarrow> settle_page_promise p Fulfilled s3)"

definition teardownForgottenDevice :: "nat \<Rightarrow> nat option \<Rightarrow> page \<Rightarrow> page" where
  "teardownForgottenDevice obj op s =
     (case map_get (pg_devices s) obj of
        None \<Rightarrow> (case op of None \<Rightarrow> s | Some p \<Rightarrow> settle_page_promise p Fulfilled s)
      | Some d \<Rightarrow>
          if pd_opened d then sendRequest (CloseRequest (pd_deviceId d)) (Some (ForgottenClosed obj op)) s
          else forgotten_done obj False op s)"

definition forget_device :: "nat \<Rightarrow> page \<Rightarrow> page" where
  "forget_device obj s =
     (let op = pg_promises s; s1 = begin_call s
      in case map_get (pg_devices s) obj of
           None \<Rightarrow> settle_page_promise op Fulfilled s1
         | Some d \<Rightarrow>
             if pd_forgotten d then settle_page_promise op Fulfilled s1
             else sendRequest (UnpairRequest (pd_deviceId d)) (Some (ForgetAnswer obj op)) s1)"

definition forceForgetDevice :: "string \<Rightarrow> page \<Rightarrow> page" where
  "forceForgetDevice deviceId s =
     (case map_get (pg_registry s) deviceId of
        None \<Rightarrow> s
      | Some obj \<Rightarrow>
          (case map_get (pg_devices s) obj of
             None \<Rightarrow> s
           | Some d \<Rightarrow> if pd_forgotten d then s else teardownForgottenDevice obj None s))"

text \<open>The answer to a request, to the task that waits for it.\<close>

definition run_page_task :: "page_task \<Rightarrow> answer \<Rightarrow> page \<Rightarrow> page" where
  "run_page_task t a s =
     (case t of
        OpenAnswer obj op \<Rightarrow> openAnswered obj op a s
      | ReadyAnswer obj op \<Rightarrow> readyAnswered obj op a s
      | UnreadyClosed obj op \<Rightarrow> open_failed obj op NetworkError s
      | CloseAnswer obj op \<Rightarrow> closeAnswered obj op a s
      | ForgetAnswer obj op \<Rightarrow>
          if an_success a then teardownForgottenDevice obj (Some op) s
          else settle_page_promise op (Rejected NetworkError) s
      | ForgottenClosed obj op \<Rightarrow> forgotten_done obj True op s)"

definition handleResponseMessage :: "nat \<Rightarrow> answer \<Rightarrow> page \<Rightarrow> page" where
  "handleResponseMessage req a s =
     (case map_get (pg_tasks s) req of
        None \<Rightarrow> s
      | Some t \<Rightarrow> run_page_task t a (s\<lparr>pg_tasks := map_delete (pg_tasks s) req\<rparr>))"

section \<open>Reports\<close>

text \<open>\<open>inOpen\<close>, \<open>inSent\<close>: the in-page transport is open, and took the frame; \<open>posted\<close>: the data port took
  the message.\<close>

definition sendDeviceRequest ::
    "nat \<Rightarrow> nat \<Rightarrow> page_device \<Rightarrow> report_kind \<Rightarrow> nat \<Rightarrow> bool \<Rightarrow> bool \<Rightarrow> bool \<Rightarrow> page \<Rightarrow> page" where
  "sendDeviceRequest obj op d kind reportId inOpen inSent posted s =
     (if pd_unavailable d \<or> \<not> pd_ready d then settle_page_promise op (Rejected NetworkError) s
      else let n = pg_nextReq s + 1;
               s1 = s\<lparr>pg_nextReq := n, pg_reports := pg_reports s @ [(obj, reportId, kind)]\<rparr>
           in if map_has (pg_planes s) (pd_deviceId d) \<and> inOpen
              then if inSent
                   then s1\<lparr>pg_inPending := map_set (pg_inPending s1) n (pd_deviceId d, op, kind)\<rparr>
                   else settle_page_promise op (Rejected NetworkError) (s\<lparr>pg_nextReq := n\<rparr>)
              else if pd_port d = None \<or> pd_portGen d \<noteq> Some (pd_gen d)
                   then settle_page_promise op (Rejected NetworkError) s
                   else if posted
                        then set_device obj (d\<lparr>pd_pending := map_set (pd_pending d) n (op, kind)\<rparr>) s1
                        else settle_page_promise op (Rejected NetworkError) (s\<lparr>pg_nextReq := n\<rparr>))"

definition send_report :: "nat \<Rightarrow> report_kind \<Rightarrow> rat option \<Rightarrow> bool \<Rightarrow> bool \<Rightarrow> bool \<Rightarrow> page \<Rightarrow> page" where
  "send_report obj kind v inOpen inSent posted s =
     (let op = pg_promises s; s1 = begin_call s
      in case convertEnforcedOctet v of
           None \<Rightarrow> settle_page_promise op (Rejected NotATypeError) s1
         | Some n \<Rightarrow>
             (case map_get (pg_devices s) obj of
                None \<Rightarrow> settle_page_promise op (Rejected InvalidStateError) s1
              | Some d \<Rightarrow>
                  if \<not> pd_opened d then settle_page_promise op (Rejected InvalidStateError) s1
                  else (case validateReportId n (pd_collections d) of
                          None \<Rightarrow> settle_page_promise op (Rejected NotATypeError) s1
                        | Some n \<Rightarrow> sendDeviceRequest obj op d kind n inOpen inSent posted s1)))"

text \<open>\<open>mapResolve\<close>: a write resolves with nothing, a read with a view of what came, empty where nothing
  came.\<close>

definition resolved :: "report_kind \<Rightarrow> bytes option \<Rightarrow> page_outcome" where
  "resolved kind data =
     (if kind = ReceiveFeature then FulfilledView (case data of None \<Rightarrow> [] | Some b \<Rightarrow> b) else Fulfilled)"

definition handleReportResult :: "nat \<Rightarrow> bytes data_result \<Rightarrow> page \<Rightarrow> page" where
  "handleReportResult obj r s =
     (case map_get (pg_devices s) obj of
        None \<Rightarrow> s
      | Some d \<Rightarrow>
          (case map_get (pd_pending d) (rs_reqId r) of
             None \<Rightarrow> s
           | Some (op, kind) \<Rightarrow>
               settle_page_promise op
                 (if rs_error r \<notin> {None, Some ''''} then Rejected NetworkError
                  else if rs_type r = ''featureResult'' then resolved kind (rs_data r)
                  else resolved kind None)
                 (set_device obj (d\<lparr>pd_pending := map_delete (pd_pending d) (rs_reqId r)\<rparr>) s)))"

text \<open>What a data port brings; entries of a batch may be missing.\<close>

datatype port_message = ReportResult "bytes data_result" | InputBatch "(nat \<times> bytes) option list"
  | InputMessage nat bytes | PortDisconnect

definition pageDataPortMessage :: "nat \<Rightarrow> nat \<Rightarrow> port_message \<Rightarrow> page \<Rightarrow> page" where
  "pageDataPortMessage obj port m s =
     (case map_get (pg_devices s) obj of
        None \<Rightarrow> s
      | Some d \<Rightarrow>
          if pd_port d \<noteq> Some port then s
          else case m of
                 ReportResult r \<Rightarrow> handleReportResult obj r s
               | InputBatch rs \<Rightarrow> fold (\<lambda>r s. case r of None \<Rightarrow> s | Some (i, b) \<Rightarrow> dispatch obj (InputReport i b) s) rs s
               | InputMessage i b \<Rightarrow> dispatch obj (InputReport i b) s
               | PortDisconnect \<Rightarrow> dispatch obj DisconnectEvent (reconcileAuthoritativeLifetime obj False s))"

section \<open>What the bridge says of a plane\<close>

definition handleDataPlaneReady :: "string \<Rightarrow> nat \<Rightarrow> page \<Rightarrow> page" where
  "handleDataPlaneReady deviceId gen s =
     (case registered deviceId s of
        None \<Rightarrow> s
      | Some obj \<Rightarrow>
          (case map_get (pg_devices s) obj of
             None \<Rightarrow> s
           | Some d \<Rightarrow>
               if gen \<noteq> pd_gen d \<or> pd_unavailableGen d = Some gen \<or> (\<not> pd_opened d \<and> \<not> pd_opening d) then s
               else set_device obj (d\<lparr>pd_gen := gen, pd_ready := True, pd_unavailable := False, pd_unavailableGen := None\<rparr>) s))"

definition handleDataPlaneUnavailable :: "string \<Rightarrow> nat \<Rightarrow> page \<Rightarrow> page" where
  "handleDataPlaneUnavailable deviceId gen s =
     (case registered deviceId s of
        None \<Rightarrow> s
      | Some obj \<Rightarrow>
          (case map_get (pg_devices s) obj of
             None \<Rightarrow> s
           | Some d \<Rightarrow>
               if gen < pd_gen d \<or> (\<not> pd_opened d \<and> \<not> pd_opening d) then s
               else let s1 = rejectPendingReports obj NetworkError s
                    in set_device obj (detachDataPort (d\<lparr>pd_gen := gen, pd_ready := False, pd_unavailable := True,
                         pd_unavailableGen := Some gen, pd_pending := []\<rparr>)) s1))"

definition handleWireWorkerPort :: "string \<Rightarrow> nat \<Rightarrow> page \<Rightarrow> page" where
  "handleWireWorkerPort deviceId gen s =
     (case registered deviceId s of
        None \<Rightarrow> s
      | Some obj \<Rightarrow>
          (case map_get (pg_devices s) obj of
             None \<Rightarrow> s
           | Some d \<Rightarrow> if (\<not> pd_opened d \<and> \<not> pd_opening d) \<or> gen < pd_gen d then s else wireDevicePort obj gen s))"

definition post_bridge :: "bridge_post \<Rightarrow> page \<Rightarrow> page" where
  "post_bridge p s = s\<lparr>pg_posts := pg_posts s @ [p]\<rparr>"

definition handleDataPlaneConnect :: "nat \<Rightarrow> string \<Rightarrow> nat \<Rightarrow> page \<Rightarrow> page" where
  "handleDataPlaneConnect req deviceId gen s =
     (case Option.bind (registered deviceId s) (\<lambda>obj. map_option (\<lambda>d. (obj, d)) (map_get (pg_devices s) obj)) of
        None \<Rightarrow> s\<lparr>pg_planes := map_set (pg_planes s) deviceId gen\<rparr>
      | Some (obj, d) \<Rightarrow>
          if gen < pd_gen d \<or> (gen = pd_gen d \<and> pd_ready d) then post_bridge (PlaneAnswered req False) s
          else (set_device obj (d\<lparr>pd_gen := gen, pd_ready := False, pd_unavailable := True, pd_unavailableGen := None\<rparr>) s)
                 \<lparr>pg_planes := map_set (pg_planes s) deviceId gen\<rparr>)"

definition handleDataPlaneDisconnect :: "string \<Rightarrow> nat option \<Rightarrow> page \<Rightarrow> page" where
  "handleDataPlaneDisconnect deviceId gen s =
     (case map_get (pg_planes s) deviceId of
        None \<Rightarrow> s
      | Some g \<Rightarrow>
          if gen = None \<or> gen = Some g
          then rejectInPagePending deviceId (s\<lparr>pg_planes := map_delete (pg_planes s) deviceId\<rparr>) else s)"

text \<open>The callbacks of an in-page transport made for a generation.\<close>

definition planeReady :: "nat \<Rightarrow> page \<Rightarrow> page" where
  "planeReady req s = (if PlaneAnswered req True \<in> set (pg_posts s) then s else post_bridge (PlaneAnswered req True) s)"

definition planeClosed :: "string \<Rightarrow> nat \<Rightarrow> bool \<Rightarrow> page \<Rightarrow> page" where
  "planeClosed deviceId gen willReconnect s =
     (if map_get (pg_planes s) deviceId \<noteq> Some gen then s
      else let s1 = rejectInPagePending deviceId s
           in if willReconnect then s1
              else post_bridge (PlaneClosed deviceId gen) (s1\<lparr>pg_planes := map_delete (pg_planes s1) deviceId\<rparr>))"

definition planeAuthFailed :: "string \<Rightarrow> nat \<Rightarrow> page \<Rightarrow> page" where
  "planeAuthFailed deviceId gen s =
     (if map_get (pg_planes s) deviceId \<noteq> Some gen then s
      else post_bridge (PlaneAuthFailed deviceId gen)
             (rejectInPagePending deviceId (s\<lparr>pg_planes := map_delete (pg_planes s) deviceId\<rparr>)))"

definition in_page_outcome :: "report_kind \<Rightarrow> settlement \<Rightarrow> page_outcome" where
  "in_page_outcome kind r =
     (case r of settlement.Resolved d \<Rightarrow> resolved kind d | RejectedBlocked \<Rightarrow> Rejected NotAllowedError | RejectedError _ \<Rightarrow> Rejected NetworkError)"

definition pushInPageBatch :: "string \<Rightarrow> bytes \<Rightarrow> nat \<Rightarrow> page \<Rightarrow> page" where
  "pushInPageBatch deviceId batch offset s =
     (case registered deviceId s of
        None \<Rightarrow> s
      | Some obj \<Rightarrow> fold (\<lambda>r s. dispatch obj (InputReport (rep_id r) (case rep_data r of None \<Rightarrow> [] | Some b \<Rightarrow> b)) s) (parseInputReports batch offset) s)"

definition planeBinary :: "string \<Rightarrow> nat \<Rightarrow> bytes \<Rightarrow> page \<Rightarrow> page" where
  "planeBinary deviceId gen batch s =
     (if map_get (pg_planes s) deviceId \<noteq> Some gen then s
      else if batch \<noteq> [] \<and> unat (batch ! 0) \<ge> 129
      then (case handleControlResponse batch (pg_inPending s) of
              (_, None) \<Rightarrow> s
            | (pending, Some ((_, op, kind), r)) \<Rightarrow>
                settle_page_promise op (in_page_outcome kind r) (s\<lparr>pg_inPending := pending\<rparr>))
      else pushInPageBatch deviceId batch (if batch \<noteq> [] \<and> unat (batch ! 0) = MSG_INPUT_BATCH then 1 else 0) s)"

section \<open>Workers and device events\<close>

definition workerSpawned :: "string \<Rightarrow> nat \<Rightarrow> page \<Rightarrow> page" where
  "workerSpawned deviceId gen s = s\<lparr>pg_workers := map_set (pg_workers s) deviceId gen\<rparr>"

definition workerEnded :: "string \<Rightarrow> nat option \<Rightarrow> page \<Rightarrow> page" where
  "workerEnded deviceId gen s =
     (if map_has (pg_workers s) deviceId \<and> (gen = None \<or> map_get (pg_workers s) deviceId = gen)
      then s\<lparr>pg_workers := map_delete (pg_workers s) deviceId\<rparr> else s)"

definition deviceDisconnected :: "string \<Rightarrow> page \<Rightarrow> page" where
  "deviceDisconnected deviceId s =
     (case registered deviceId s of
        None \<Rightarrow> s
      | Some obj \<Rightarrow>
          let s1 = reconcileAuthoritativeLifetime obj False s
          in s1\<lparr>pg_registry := map_delete (pg_registry s1) deviceId\<rparr>)"

datatype page_event =
    DeviceShown string "tlv_node list" nat
  | OpenCall nat | CloseCall nat | ForgetCall nat
  | ReportCall nat report_kind "rat option" bool bool bool
  | Answered nat answer
  | PortMessage nat nat port_message
  | PlaneReadySaid string nat | PlaneUnavailableSaid string nat | WireSaid string nat
  | PlaneConnect nat string nat | PlaneDisconnect string "nat option"
  | WtReady nat | WtClosed string nat bool | WtAuthFailed string nat | WtBinary string nat bytes
  | WorkerSpawned string nat | WorkerEnded string "nat option"
  | DeviceGone string | DeviceRevoked string

fun page_step :: "page_event \<Rightarrow> page \<Rightarrow> page" where
  "page_step (DeviceShown deviceId cs maxInput) s = snd (getOrCreateDevice deviceId cs maxInput s)"
| "page_step (OpenCall obj) s = open_device obj s"
| "page_step (CloseCall obj) s = close_device obj s"
| "page_step (ForgetCall obj) s = forget_device obj s"
| "page_step (ReportCall obj kind v inOpen inSent posted) s = send_report obj kind v inOpen inSent posted s"
| "page_step (Answered req a) s = handleResponseMessage req a s"
| "page_step (PortMessage obj port m) s = pageDataPortMessage obj port m s"
| "page_step (PlaneReadySaid deviceId gen) s = handleDataPlaneReady deviceId gen s"
| "page_step (PlaneUnavailableSaid deviceId gen) s = handleDataPlaneUnavailable deviceId gen s"
| "page_step (WireSaid deviceId gen) s = handleWireWorkerPort deviceId gen s"
| "page_step (PlaneConnect req deviceId gen) s = handleDataPlaneConnect req deviceId gen s"
| "page_step (PlaneDisconnect deviceId gen) s = handleDataPlaneDisconnect deviceId gen s"
| "page_step (WtReady req) s = planeReady req s"
| "page_step (WtClosed deviceId gen willReconnect) s = planeClosed deviceId gen willReconnect s"
| "page_step (WtAuthFailed deviceId gen) s = planeAuthFailed deviceId gen s"
| "page_step (WtBinary deviceId gen batch) s = planeBinary deviceId gen batch s"
| "page_step (WorkerSpawned deviceId gen) s = workerSpawned deviceId gen s"
| "page_step (WorkerEnded deviceId gen) s = workerEnded deviceId gen s"
| "page_step (DeviceGone deviceId) s = deviceDisconnected deviceId s"
| "page_step (DeviceRevoked deviceId) s = forceForgetDevice deviceId s"

section \<open>The promises of the page\<close>

definition gather :: "('v \<Rightarrow> nat list) \<Rightarrow> ('k, 'v) js_map \<Rightarrow> nat list" where
  "gather f m = concat (map (\<lambda>e. f (snd e)) m)"

lemma gather_Nil [simp]: "gather f [] = []"
  by (simp add: gather_def)

lemma gather_append: "gather f (m @ m') = gather f m @ gather f m'"
  by (simp add: gather_def)

lemma delete_absent: "map_get m k = None \<Longrightarrow> map_delete m k = m"
  by (induction m) (auto split: if_splits)

lemma set_absent: "map_get m k = None \<Longrightarrow> map_set m k v = m @ [(k, v)]"
  by (induction m) (auto split: if_splits)

lemma gather_delete:
  "map_wf m \<Longrightarrow> map_get m k = Some v \<Longrightarrow> mset (gather f m) = mset (f v) + mset (gather f (map_delete m k))"
proof (induction m)
  case (Cons e m)
  show ?case
  proof (cases "fst e = k")
    case True
    then have "map_delete (e # m) k = m" using Cons.prems(1) delete_absent [of m k]
      by (cases e) (auto simp: map_of_eq_None_iff)
    with True Cons.prems show ?thesis by (cases e) (simp add: gather_def)
  next
    case False
    then have "map_delete (e # m) k = e # map_delete m k" by (cases e) simp
    with False Cons show ?thesis by (cases e) (auto simp: gather_def)
  qed
qed simp

lemma gather_set:
  "map_wf m \<Longrightarrow> mset (gather f (map_set m k v)) = mset (f v) + mset (gather f (map_delete m k))"
proof (induction m)
  case (Cons e m)
  show ?case
  proof (cases "fst e = k")
    case True
    then have "map_delete (e # m) k = m" using Cons.prems(1) delete_absent [of m k]
      by (cases e) (auto simp: map_of_eq_None_iff)
    with True show ?thesis by (cases e) (simp add: gather_def)
  next
    case False
    then have "map_delete (e # m) k = e # map_delete m k" "map_set (e # m) k v = e # map_set m k v"
      by (cases e; simp)+
    with False Cons show ?thesis by (cases e) (auto simp: gather_def)
  qed
qed (simp add: gather_def)

fun page_task_promises :: "page_task \<Rightarrow> nat list" where
  "page_task_promises (OpenAnswer _ op) = [op]"
| "page_task_promises (ReadyAnswer _ op) = [op]"
| "page_task_promises (UnreadyClosed _ op) = [op]"
| "page_task_promises (CloseAnswer _ op) = [op]"
| "page_task_promises (ForgetAnswer _ op) = [op]"
| "page_task_promises (ForgottenClosed _ op) = (case op of None \<Rightarrow> [] | Some p \<Rightarrow> [p])"

definition device_promises :: "page_device \<Rightarrow> nat list" where
  "device_promises d = map (\<lambda>e. fst (snd e)) (pd_pending d)"

definition in_promise :: "string \<times> nat \<times> report_kind \<Rightarrow> nat list" where
  "in_promise e = [fst (snd e)]"

definition waiting_promises :: "page \<Rightarrow> nat list" where
  "waiting_promises s = gather page_task_promises (pg_tasks s) @ gather device_promises (pg_devices s) @ gather in_promise (pg_inPending s)"

text \<open>Of a device: its table is a map, only an open one has reports waiting, an open one's plane is ready
  or known to be unavailable, and its data port has a generation.\<close>

definition device_ok :: "nat \<Rightarrow> page_device \<Rightarrow> bool" where
  "device_ok n d \<longleftrightarrow>
     map_wf (pd_pending d) \<and> (\<forall>k \<in> set (map_keys (pd_pending d)). k \<le> n) \<and>
     (pd_opened d \<or> pd_pending d = []) \<and> (pd_ready d \<or> pd_unavailable d \<or> \<not> pd_opened d) \<and>
     (pd_port d = None \<or> pd_portGen d \<noteq> None)"

text \<open>Of a report that was sent: its id is an octet, and zero exactly for devices without report ids.\<close>

definition report_typed :: "page \<Rightarrow> nat \<times> nat \<times> report_kind \<Rightarrow> bool" where
  "report_typed s r \<longleftrightarrow>
     (case map_get (pg_devices s) (fst r) of
        None \<Rightarrow> False
      | Some d \<Rightarrow> fst (snd r) < 256 \<and> (fst (snd r) = 0 \<longleftrightarrow> \<not> deviceUsesReportIds (pd_collections d)))"

text \<open>\<open>hand\<close> are the promises the running operation holds.\<close>

definition page_inv :: "nat list \<Rightarrow> page \<Rightarrow> bool" where
  "page_inv hand s \<longleftrightarrow>
     mset [0..<pg_promises s] = mset hand + mset (map fst (pg_settled s)) + mset (waiting_promises s) \<and>
     map_wf (pg_tasks s) \<and> map_wf (pg_devices s) \<and> map_wf (pg_inPending s) \<and>
     (\<forall>k \<in> set (map_keys (pg_tasks s)) \<union> set (map_keys (pg_inPending s)). k \<le> pg_nextReq s) \<and>
     map_keys (pg_devices s) = [0..<length (pg_devices s)] \<and>
     (\<forall>(k, d) \<in> set (pg_devices s). device_ok (pg_nextReq s) d) \<and>
     (\<forall>r \<in> set (pg_reports s). report_typed s r)"

lemma page_inv_initial: "page_inv [] initial_page"
  by (simp add: page_inv_def initial_page_def waiting_promises_def)

lemma page_inv_perm: "page_inv hand s \<Longrightarrow> mset hand = mset hand' \<Longrightarrow> page_inv hand' s"
  by (simp add: page_inv_def)

lemma page_inv_device: "page_inv hand s \<Longrightarrow> map_get (pg_devices s) obj = Some d \<Longrightarrow> device_ok (pg_nextReq s) d"
  by (auto simp: page_inv_def dest: map_get_mem)

lemma device_ok_mono: "device_ok n d \<Longrightarrow> n \<le> m \<Longrightarrow> device_ok m d"
  by (auto simp: device_ok_def)

text \<open>Operations that change only logs, planes, workers, ports or the registry.\<close>

lemma page_inv_frame:
  assumes "page_inv hand s"
    and "pg_promises s' = pg_promises s" "pg_settled s' = pg_settled s" "pg_tasks s' = pg_tasks s"
      "pg_devices s' = pg_devices s" "pg_inPending s' = pg_inPending s" "pg_reports s' = pg_reports s"
      "pg_nextReq s \<le> pg_nextReq s'"
  shows "page_inv hand s'"
proof -
  have "report_typed s' = report_typed s" using assms(5) by (simp add: report_typed_def fun_eq_iff)
  moreover have "device_ok (pg_nextReq s') d" if "(k, d) \<in> set (pg_devices s)" for k d
    using assms(1,8) that device_ok_mono by (fastforce simp: page_inv_def)
  ultimately show ?thesis using assms unfolding page_inv_def waiting_promises_def
    by (auto intro: order_trans)
qed

lemma page_inv_settle: "page_inv (op # hand) s \<Longrightarrow> page_inv hand (settle_page_promise op out s)"
  unfolding page_inv_def settle_page_promise_def waiting_promises_def report_typed_def by simp

lemma page_inv_dispatch [intro]: "page_inv hand s \<Longrightarrow> page_inv hand (dispatch obj ev s)"
  by (erule page_inv_frame) (simp_all add: dispatch_def)

lemma page_inv_post [intro]: "page_inv hand s \<Longrightarrow> page_inv hand (post_bridge p s)"
  by (erule page_inv_frame) (simp_all add: post_bridge_def)

lemma page_inv_begin: "page_inv [] s \<Longrightarrow> page_inv [pg_promises s] (begin_call s)"
  unfolding page_inv_def begin_call_def waiting_promises_def report_typed_def by simp

lemma page_inv_request:
  assumes "page_inv ((case t of None \<Rightarrow> [] | Some t \<Rightarrow> page_task_promises t) @ hand) s"
  shows "page_inv hand (sendRequest r t s)"
proof (cases t)
  case None
  then show ?thesis using assms by (auto intro: page_inv_frame simp: sendRequest_def Let_def)
next
  case (Some t')
  let ?n = "pg_nextReq s + 1"
  have "?n \<notin> set (map_keys (pg_tasks s))" using assms unfolding page_inv_def by force
  then have "map_get (pg_tasks s) ?n = None" by (simp add: map_of_eq_None_iff)
  then have g: "mset (gather page_task_promises (map_set (pg_tasks s) ?n t')) = mset (page_task_promises t') + mset (gather page_task_promises (pg_tasks s))"
    using gather_set [of "pg_tasks s" page_task_promises ?n t'] assms delete_absent [of "pg_tasks s" ?n] by (simp add: page_inv_def)
  have d: "device_ok (Suc (pg_nextReq s)) d" if "(k, d) \<in> set (pg_devices s)" for k d
    using assms that device_ok_mono [of "pg_nextReq s" d "Suc (pg_nextReq s)"] by (fastforce simp: page_inv_def)
  have typed: "report_typed (s\<lparr>pg_nextReq := a, pg_requests := b, pg_tasks := c\<rparr>) = report_typed s" for a b c
    by (simp add: report_typed_def fun_eq_iff)
  have old: "\<forall>k \<in> set (map_keys (pg_tasks s)) \<union> set (map_keys (pg_inPending s)). k \<le> pg_nextReq s"
    using assms unfolding page_inv_def by (elim conjE) assumption
  have k: "\<forall>k \<in> set (map_keys (map_set (pg_tasks s) ?n t')) \<union> set (map_keys (pg_inPending s)). k \<le> ?n"
    unfolding keys_map_set using old by (auto simp del: set_map intro: le_SucI)
  have wf: "map_wf (map_set (pg_tasks s) ?n t')" using assms by (auto simp: page_inv_def intro: js_wf_intros)
  show ?thesis using assms g d k wf unfolding page_inv_def sendRequest_def Let_def waiting_promises_def Some
    by (auto simp: typed simp del: set_map)
qed

text \<open>A device is replaced by one with the same collections; its reports in hand or not.\<close>

lemma page_inv_device_set:
  assumes inv: "page_inv hand s" and d: "map_get (pg_devices s) obj = Some d"
    and d': "device_ok (pg_nextReq s) d'" "pd_collections d' = pd_collections d"
    and m: "mset hand + mset (device_promises d) = mset hand' + mset (device_promises d')"
  shows "page_inv hand' (set_device obj d' s)"
proof -
  let ?m = "map_set (pg_devices s) obj d'"
  have wf: "map_wf (pg_devices s)" using inv by (simp add: page_inv_def)
  have "obj \<in> set (map_keys (pg_devices s))" using d map_has_get [of obj "pg_devices s"] by simp
  then have keys: "map_keys ?m = map_keys (pg_devices s)" by (simp add: AList.update_keys)
  then have len: "length ?m = length (pg_devices s)" by (metis length_map)
  have g: "mset (gather device_promises ?m) + mset (device_promises d) =
      mset (gather device_promises (pg_devices s)) + mset (device_promises d')"
    using gather_set [OF wf, of device_promises obj d'] gather_delete [OF wf d, of device_promises] by simp
  have typed: "report_typed (set_device obj d' s) r = report_typed s r" for r
    using d d'(2) by (auto simp: report_typed_def set_device_def js_map_simps split: option.splits)
  have ok: "device_ok (pg_nextReq s) x" if "(k, x) \<in> set ?m" for k x
  proof -
    have "map_get ?m k = Some x" using that keys wf by simp
    then have "x = d' \<or> map_get (pg_devices s) k = Some x" by (auto simp: js_map_simps split: if_splits)
    then show ?thesis using d'(1) page_inv_device [OF inv] by auto
  qed
  have "mset [0..<pg_promises s] = mset hand' + mset (map fst (pg_settled s)) +
      mset (gather page_task_promises (pg_tasks s) @ gather device_promises ?m @ gather in_promise (pg_inPending s))"
    (is "?all = _ + ?st + ?w'")
  proof (rule multiset_eqI)
    fix x
    have "mset [0..<pg_promises s] = mset hand + mset (map fst (pg_settled s)) + (mset (gather page_task_promises (pg_tasks s)) +
        (mset (gather device_promises (pg_devices s)) + mset (gather in_promise (pg_inPending s))))"
      using inv by (simp add: page_inv_def waiting_promises_def)
    from arg_cong [OF this, of "\<lambda>M. count M x"] arg_cong [OF g, of "\<lambda>M. count M x"] arg_cong [OF m, of "\<lambda>M. count M x"]
    show "count ?all x = count (mset hand' + ?st + ?w') x"
      by (simp only: count_union mset_append)
  qed
  then show ?thesis using inv ok keys len typed wf unfolding page_inv_def waiting_promises_def
    by (auto simp: set_device_def)
qed

lemma page_inv_device_keep:
  assumes "page_inv hand s" "map_get (pg_devices s) obj = Some d"
    "device_ok (pg_nextReq s) d'" "pd_collections d' = pd_collections d" "pd_pending d' = pd_pending d"
  shows "page_inv hand (set_device obj d' s)"
  using page_inv_device_set [OF assms(1,2,3,4)] assms(5) by (simp add: device_promises_def)

section \<open>Every operation keeps them\<close>

lemma devices_settle [simp]: "pg_devices (settle_page_promise op out s) = pg_devices s" "pg_nextReq (settle_page_promise op out s) = pg_nextReq s"
  by (simp_all add: settle_page_promise_def)

lemma devices_dispatch [simp]: "pg_devices (dispatch obj ev s) = pg_devices s" "pg_nextReq (dispatch obj ev s) = pg_nextReq s"
  by (simp_all add: dispatch_def)

lemma devices_begin [simp]: "pg_devices (begin_call s) = pg_devices s" "pg_nextReq (begin_call s) = pg_nextReq s"
  by (simp_all add: begin_call_def)

lemma devices_request [simp]: "pg_devices (sendRequest r t s) = pg_devices s"
  by (simp add: sendRequest_def Let_def)

lemma get_set_device [simp]: "map_get (pg_devices (set_device obj d s)) obj' = (if obj' = obj then Some d else map_get (pg_devices s) obj')"
  "pg_nextReq (set_device obj d s) = pg_nextReq s"
  by (simp_all add: set_device_def js_map_simps)

lemma get_reject_pending:
  "map_get (pg_devices (rejectPendingReports obj e s)) obj' =
     (if obj' = obj then map_option (\<lambda>d. d\<lparr>pd_pending := []\<rparr>) (map_get (pg_devices s) obj) else map_get (pg_devices s) obj')"
  "pg_nextReq (rejectPendingReports obj e s) = pg_nextReq s"
  by (auto simp: rejectPendingReports_def split: option.split)

lemma settle_many:
  "page_inv (map f xs @ hand) s \<Longrightarrow> page_inv hand (s\<lparr>pg_settled := pg_settled s @ map (\<lambda>x. (f x, out)) xs\<rparr>)"
  unfolding page_inv_def waiting_promises_def report_typed_def by (simp add: comp_def)

lemma page_inv_reject_pending:
  assumes "page_inv hand s"
  shows "page_inv hand (rejectPendingReports obj e s)"
proof (cases "map_get (pg_devices s) obj")
  case (Some d)
  have "device_ok (pg_nextReq s) (d\<lparr>pd_pending := []\<rparr>)"
    using page_inv_device [OF assms Some] by (simp add: device_ok_def)
  then have "page_inv (map (\<lambda>e. fst (snd e)) (pd_pending d) @ hand) (set_device obj (d\<lparr>pd_pending := []\<rparr>) s)"
    by (rule page_inv_device_set [OF assms Some]) (simp_all add: device_promises_def)
  from settle_many [OF this, of "Rejected e"] show ?thesis
    by (simp add: rejectPendingReports_def Some set_device_def case_prod_unfold)
qed (use assms in \<open>simp add: rejectPendingReports_def\<close>)

lemma gather_filter:
  "mset (gather f m) = mset (gather f (filter P m)) + mset (gather f (filter (\<lambda>e. \<not> P e) m))"
  by (induction m) (auto simp: gather_def)

lemma page_inv_reject_in_page:
  assumes "page_inv hand s"
  shows "page_inv hand (rejectInPagePending deviceId s)"
proof -
  let ?P = "\<lambda>e :: nat \<times> string \<times> nat \<times> report_kind. fst (snd e) \<noteq> deviceId"
  let ?t = "s\<lparr>pg_inPending := filter ?P (pg_inPending s)\<rparr>"
  let ?out = "filter (\<lambda>e. \<not> ?P e) (pg_inPending s)"
  have keys: "set (map_keys (filter ?P (pg_inPending s))) \<subseteq> set (map_keys (pg_inPending s))" by auto
  have "gather in_promise ?out = map (\<lambda>e. fst (snd (snd e))) ?out"
    by (induction "pg_inPending s") (auto simp: gather_def in_promise_def)
  then have "gather in_promise ?out = map (\<lambda>e. fst (snd (snd e))) ?out" .
  then have g: "mset (gather in_promise (pg_inPending s)) =
      mset (gather in_promise (filter ?P (pg_inPending s))) + mset (map (\<lambda>e. fst (snd (snd e))) ?out)"
    using gather_filter [of in_promise "pg_inPending s" ?P] by simp
  have typed: "report_typed ?t r = report_typed s r" for r by (simp add: report_typed_def)
  have "page_inv (map (\<lambda>e. fst (snd (snd e))) ?out @ hand) ?t"
    using assms g keys typed unfolding page_inv_def waiting_promises_def
    by (auto simp: map_wf_filter simp del: set_map)
  from settle_many [OF this, of "Rejected NetworkError"] show ?thesis
    by (simp add: rejectInPagePending_def case_prod_unfold)
qed

lemma page_inv_wire:
  assumes "page_inv hand s"
  shows "page_inv hand (wireDevicePort obj gen s)"
proof (cases "map_get (pg_devices s) obj")
  case (Some d0)
  note ok = page_inv_device [OF assms Some]
  define s1 where "s1 = (if pd_port d0 \<noteq> None then rejectPendingReports obj NetworkError s else s)"
  define d where "d = (if pd_port d0 \<noteq> None then detachDataPort (d0\<lparr>pd_pending := []\<rparr>) else d0)"
  define d' where "d' = d\<lparr>pd_unavailableGen := (if gen \<noteq> pd_gen d then None else pd_unavailableGen d),
                          pd_gen := gen, pd_ready := False, pd_unavailable := (pd_opened d \<or> pd_unavailable d),
                          pd_port := Some (pg_nextPort s1), pd_portGen := Some gen\<rparr>"
  have inv1: "page_inv hand s1" using assms page_inv_reject_pending by (simp add: s1_def)
  have n1: "pg_nextReq s1 = pg_nextReq s" by (simp add: s1_def get_reject_pending)
  have d1: "map_get (pg_devices s1) obj = Some (if pd_port d0 \<noteq> None then d0\<lparr>pd_pending := []\<rparr> else d0)"
    by (simp add: s1_def get_reject_pending Some)
  have "device_ok (pg_nextReq s1) d'" using ok unfolding n1 d'_def d_def
    by (auto simp: device_ok_def detachDataPort_def)
  then have "page_inv hand (set_device obj d' s1)"
    by (rule page_inv_device_keep [OF inv1 d1]) (simp_all add: d'_def d_def detachDataPort_def)
  moreover have "wireDevicePort obj gen s =
      (if pd_port d0 \<noteq> None \<and> pd_portGen d0 = Some gen then s
       else (set_device obj d' s1)\<lparr>pg_nextPort := pg_nextPort s1 + 1,
         pg_posts := pg_posts s1 @ [DataPortPosted (pd_deviceId d) gen (map_has (pg_workers s1) (pd_deviceId d))]\<rparr>)"
    unfolding wireDevicePort_def Some option.case Let_def d'_def d_def s1_def by simp
  ultimately show ?thesis using assms by (auto intro: page_inv_frame)
qed (use assms in \<open>simp add: wireDevicePort_def\<close>)

lemma page_inv_reconcile:
  assumes "page_inv hand s"
  shows "page_inv hand (reconcileAuthoritativeLifetime obj forgotten s)"
proof (cases "map_get (pg_devices s) obj")
  case (Some d)
  define s1 where "s1 = rejectPendingReports obj AbortError s"
  have inv1: "page_inv hand s1" using page_inv_reject_pending [OF assms] by (simp add: s1_def)
  have d1: "map_get (pg_devices s1) obj = Some (d\<lparr>pd_pending := []\<rparr>)" by (simp add: s1_def get_reject_pending Some)
  show ?thesis unfolding reconcileAuthoritativeLifetime_def Let_def s1_def [symmetric] d1 option.case
    using page_inv_device [OF inv1 d1]
    by (intro page_inv_device_keep [OF inv1 d1]) (auto simp: device_ok_def detachDataPort_def)
qed (use page_inv_reject_pending [OF assms] in \<open>simp add: reconcileAuthoritativeLifetime_def get_reject_pending\<close>)

lemma page_inv_open_failed:
  assumes "page_inv (op # hand) s"
  shows "page_inv hand (open_failed obj op e s)"
proof (cases "map_get (pg_devices s) obj")
  case (Some d)
  have "page_inv (op # hand) (set_device obj (d\<lparr>pd_opening := False\<rparr>) s)"
    using page_inv_device [OF assms Some] by (intro page_inv_device_keep [OF assms Some]) (simp_all add: device_ok_def)
  then show ?thesis by (simp add: open_failed_def Some page_inv_settle)
qed (use assms in \<open>simp add: open_failed_def page_inv_settle\<close>)

lemmas page_inv_moves = page_inv_settle page_inv_dispatch page_inv_post page_inv_reject_pending page_inv_reject_in_page
  page_inv_wire page_inv_reconcile page_inv_open_failed

lemma page_inv_open:
  assumes "page_inv [] s"
  shows "page_inv [] (open_device obj s)"
proof (cases "map_get (pg_devices s) obj")
  case None
  then show ?thesis using page_inv_begin [OF assms] by (simp add: open_device_def Let_def page_inv_settle)
next
  case (Some d)
  have "page_inv [pg_promises s] (set_device obj (d\<lparr>pd_opening := True\<rparr>) (begin_call s))"
    using page_inv_begin [OF assms] Some page_inv_device [OF assms Some]
    by (intro page_inv_device_keep [of _ _ _ d]) (auto simp: device_ok_def)
  then show ?thesis using Some page_inv_begin [OF assms]
    by (simp add: open_device_def Let_def page_inv_settle page_inv_request)
qed

lemma page_inv_openAnswered:
  assumes "page_inv [op] s"
  shows "page_inv [] (openAnswered obj op a s)"
proof (cases "map_get (pg_devices s) obj")
  case None
  then show ?thesis using assms by (simp add: openAnswered_def page_inv_settle)
next
  case (Some d)
  have "page_inv [op] (wireDevicePort obj gen (set_device obj (d\<lparr>pd_gen := gen\<rparr>) s))" for gen
    using page_inv_device [OF assms Some]
    by (intro page_inv_wire page_inv_device_keep [OF assms Some]) (auto simp: device_ok_def)
  moreover have "page_inv [op] (sendRequest (CloseRequest (pd_deviceId d)) None s)"
    using assms by (simp add: page_inv_request)
  ultimately show ?thesis using assms Some
    by (auto simp: openAnswered_def intro!: page_inv_open_failed page_inv_request split: option.split)
qed

lemma page_inv_readyAnswered:
  assumes "page_inv [op] s"
  shows "page_inv [] (readyAnswered obj op a s)"
proof (cases "map_get (pg_devices s) obj")
  case None
  then show ?thesis using assms by (simp add: readyAnswered_def page_inv_settle)
next
  case (Some d)
  have "page_inv [op] (set_device obj (d\<lparr>pd_port := None\<rparr>) s)"
    "page_inv [op] (set_device obj (d\<lparr>pd_ready := True, pd_unavailable := False, pd_opened := True, pd_opening := False\<rparr>) s)"
    using page_inv_device [OF assms Some] by (auto intro!: page_inv_device_keep [OF assms Some] simp: device_ok_def)
  then show ?thesis using Some
    by (auto simp: readyAnswered_def intro!: page_inv_request page_inv_settle page_inv_dispatch)
qed

lemma page_inv_close:
  assumes "page_inv [] s"
  shows "page_inv [] (close_device obj s)"
  using page_inv_begin [OF assms]
  by (auto simp: close_device_def Let_def intro!: page_inv_settle page_inv_request split: option.split)

lemma page_inv_closeAnswered:
  assumes "page_inv [op] s"
  shows "page_inv [] (closeAnswered obj op a s)"
proof -
  let ?s = "rejectPendingReports obj AbortError s"
  note inv = page_inv_reject_pending [OF assms, of obj AbortError]
  show ?thesis
  proof (cases "map_get (pg_devices s) obj")
    case None
    then show ?thesis using assms inv by (simp add: closeAnswered_def Let_def get_reject_pending page_inv_settle)
  next
    case (Some d)
    then have d: "map_get (pg_devices ?s) obj = Some (d\<lparr>pd_pending := []\<rparr>)" by (simp add: get_reject_pending)
    have "page_inv [op] (set_device obj d' ?s)"
      if "d' \<in> {d\<lparr>pd_pending := [], pd_opened := False, pd_ready := False, pd_unavailable := False, pd_unavailableGen := None\<rparr>,
               detachDataPort (d\<lparr>pd_pending := [], pd_opened := False, pd_ready := False, pd_unavailable := False, pd_unavailableGen := None\<rparr>)}" for d'
      using that page_inv_device [OF inv d]
      by (intro page_inv_device_keep [OF inv d]) (auto simp: device_ok_def detachDataPort_def)
    then show ?thesis using assms unfolding closeAnswered_def Let_def d
      by (auto intro!: page_inv_settle page_inv_dispatch)
  qed
qed

lemma page_inv_registry: "page_inv hand s \<Longrightarrow> page_inv hand (s\<lparr>pg_registry := r\<rparr>)"
  by (erule page_inv_frame) simp_all

lemma page_inv_forgotten_done:
  assumes "page_inv (case op of None \<Rightarrow> [] | Some p \<Rightarrow> [p]) s"
  shows "page_inv [] (forgotten_done obj wasOpened op s)"
proof -
  have "page_inv (case op of None \<Rightarrow> [] | Some p \<Rightarrow> [p]) (reconcileAuthoritativeLifetime obj True s)"
    by (rule page_inv_reconcile [OF assms])
  then show ?thesis
    by (cases op) (auto simp: forgotten_done_def Let_def intro!: page_inv_settle page_inv_registry page_inv_dispatch
        split: option.splits)
qed

lemma page_inv_teardown:
  assumes "page_inv (case op of None \<Rightarrow> [] | Some p \<Rightarrow> [p]) s"
  shows "page_inv [] (teardownForgottenDevice obj op s)"
  using assms page_inv_forgotten_done [OF assms]
  by (auto simp: teardownForgottenDevice_def intro!: page_inv_settle page_inv_request split: option.splits)

lemma page_inv_forget:
  assumes "page_inv [] s"
  shows "page_inv [] (forget_device obj s)"
  using page_inv_begin [OF assms]
  by (auto simp: forget_device_def Let_def intro!: page_inv_settle page_inv_request split: option.split)

lemma page_inv_forceForget: "page_inv [] s \<Longrightarrow> page_inv [] (forceForgetDevice deviceId s)"
  using page_inv_teardown [of None s] by (simp add: forceForgetDevice_def split: option.split)

lemma page_inv_run_task: "page_inv (page_task_promises t) s \<Longrightarrow> page_inv [] (run_page_task t a s)"
  by (cases t) (auto simp: run_page_task_def intro: page_inv_openAnswered page_inv_readyAnswered page_inv_open_failed
      page_inv_closeAnswered page_inv_teardown page_inv_settle page_inv_forgotten_done)

lemma page_inv_answer:
  assumes "page_inv [] s"
  shows "page_inv [] (handleResponseMessage req a s)"
proof (cases "map_get (pg_tasks s) req")
  case (Some t)
  let ?t = "s\<lparr>pg_tasks := map_delete (pg_tasks s) req\<rparr>"
  have typed: "report_typed ?t r = report_typed s r" for r by (simp add: report_typed_def)
  have keys: "set (map_keys (map_delete (pg_tasks s) req)) \<subseteq> set (map_keys (pg_tasks s))" using keys_map_delete by fast
  have "mset (gather page_task_promises (pg_tasks s)) = mset (page_task_promises t) + mset (gather page_task_promises (map_delete (pg_tasks s) req))"
    using assms Some by (intro gather_delete) (simp_all add: page_inv_def)
  moreover have "map_wf (map_delete (pg_tasks s) req)" using assms by (auto simp: page_inv_def intro: js_wf_intros)
  ultimately have "page_inv (page_task_promises t) ?t"
    using assms keys unfolding page_inv_def waiting_promises_def by (auto simp: typed simp del: set_map)
  then show ?thesis by (simp add: handleResponseMessage_def Some page_inv_run_task)
qed (use assms in \<open>simp add: handleResponseMessage_def\<close>)

text \<open>A report that is sent.\<close>

lemma page_inv_report_logged:
  assumes "page_inv hand s" "map_get (pg_devices s) obj = Some d" "n < 256" "n = 0 \<longleftrightarrow> \<not> deviceUsesReportIds (pd_collections d)"
  shows "page_inv hand (s\<lparr>pg_nextReq := pg_nextReq s + 1, pg_reports := pg_reports s @ [(obj, n, kind)]\<rparr>)"
proof -
  have inv: "page_inv hand (s\<lparr>pg_nextReq := pg_nextReq s + 1\<rparr>)" using assms(1) by (rule page_inv_frame) simp_all
  have typed: "report_typed (s\<lparr>pg_nextReq := a, pg_reports := b\<rparr>) r = report_typed s r"
    "report_typed (s\<lparr>pg_nextReq := a\<rparr>) r = report_typed s r" for a b r by (simp_all add: report_typed_def)
  have "report_typed s (obj, n, kind)" using assms by (simp add: report_typed_def)
  with inv show ?thesis unfolding page_inv_def waiting_promises_def by (simp add: typed)
qed

lemma page_inv_in_pending:
  assumes "page_inv (op # hand) s" "pg_nextReq s = Suc n" "\<forall>k \<in> set (map_keys (pg_inPending s)). k \<le> n"
  shows "page_inv hand (s\<lparr>pg_inPending := map_set (pg_inPending s) (Suc n) (deviceId, op, kind)\<rparr>)"
proof -
  have "Suc n \<notin> set (map_keys (pg_inPending s))" using assms(3) by fastforce
  then have "map_get (pg_inPending s) (Suc n) = None" by (simp add: map_of_eq_None_iff)
  then have g: "mset (gather in_promise (map_set (pg_inPending s) (Suc n) (deviceId, op, kind))) = add_mset op (mset (gather in_promise (pg_inPending s)))"
    using gather_set [of "pg_inPending s" in_promise "Suc n" "(deviceId, op, kind)"] assms(1) delete_absent [of "pg_inPending s" "Suc n"]
    by (simp add: page_inv_def in_promise_def)
  have old: "\<forall>k \<in> set (map_keys (pg_tasks s)) \<union> set (map_keys (pg_inPending s)). k \<le> pg_nextReq s"
    using assms(1) unfolding page_inv_def by (elim conjE) assumption
  have k: "\<forall>k \<in> set (map_keys (pg_tasks s)) \<union> set (map_keys (map_set (pg_inPending s) (Suc n) (deviceId, op, kind))). k \<le> pg_nextReq s"
    unfolding keys_map_set using old assms(2) by (auto simp del: set_map)
  have wf: "map_wf (map_set (pg_inPending s) (Suc n) (deviceId, op, kind))" using assms(1) by (auto simp: page_inv_def intro: js_wf_intros)
  have typed: "report_typed (s\<lparr>pg_inPending := a\<rparr>) r = report_typed s r" for a r by (simp add: report_typed_def)
  show ?thesis using assms(1) g k wf unfolding page_inv_def waiting_promises_def
    by (auto simp: typed simp del: set_map)
qed

lemma page_inv_next: "page_inv hand s \<Longrightarrow> page_inv hand (s\<lparr>pg_nextReq := pg_nextReq s + 1\<rparr>)"
  by (erule page_inv_frame) simp_all

lemma page_inv_sendDeviceRequest:
  assumes inv: "page_inv [op] s" and d: "map_get (pg_devices s) obj = Some d" "pd_opened d"
    and n: "n < 256" "n = 0 \<longleftrightarrow> \<not> deviceUsesReportIds (pd_collections d)"
  shows "page_inv [] (sendDeviceRequest obj op d kind n inOpen inSent posted s)"
proof -
  let ?s1 = "s\<lparr>pg_nextReq := pg_nextReq s + 1, pg_reports := pg_reports s @ [(obj, n, kind)]\<rparr>"
  have inv1: "page_inv [op] ?s1" by (rule page_inv_report_logged [OF inv d(1) n])
  have keys: "\<forall>k \<in> set (map_keys (pg_tasks s)) \<union> set (map_keys (pg_inPending s)). k \<le> pg_nextReq s"
    using inv unfolding page_inv_def by (elim conjE) assumption
  have "\<forall>k \<in> set (map_keys (pg_inPending ?s1)). k \<le> pg_nextReq s"
    using keys by (auto simp del: set_map)
  then have in_page: "page_inv [] (?s1\<lparr>pg_inPending := map_set (pg_inPending ?s1) (pg_nextReq s + 1) (pd_deviceId d, op, kind)\<rparr>)"
    using page_inv_in_pending [of op "[]" ?s1 "pg_nextReq s"] inv1 by simp
  let ?d = "d\<lparr>pd_pending := map_set (pd_pending d) (pg_nextReq s + 1) (op, kind)\<rparr>"
  have ok: "device_ok (pg_nextReq s) d" by (rule page_inv_device [OF inv d(1)])
  have fresh: "pg_nextReq s + 1 \<notin> set (map_keys (pd_pending d))"
    using ok by (fastforce simp: device_ok_def)
  then have "device_promises ?d = device_promises d @ [op]"
    by (simp add: device_promises_def set_absent map_of_eq_None_iff)
  moreover have "device_ok (pg_nextReq ?s1) ?d" using ok d(2)
    by (auto simp: device_ok_def js_map_simps le_Suc_eq simp del: set_map intro: js_wf_intros)
  ultimately have port: "page_inv [] (set_device obj ?d ?s1)"
    using d(1) by (intro page_inv_device_set [OF inv1]) simp_all
  show ?thesis using inv in_page port page_inv_next [OF inv]
    by (simp add: sendDeviceRequest_def Let_def page_inv_settle)
qed

lemma page_inv_send_report:
  assumes "page_inv [] s"
  shows "page_inv [] (send_report obj kind v inOpen inSent posted s)"
proof -
  note b = page_inv_begin [OF assms]
  have "page_inv [] (sendDeviceRequest obj (pg_promises s) d kind m inOpen inSent posted (begin_call s))"
    if "map_get (pg_devices s) obj = Some d" "pd_opened d" "convertEnforcedOctet v = Some n"
      "validateReportId n (pd_collections d) = Some m" for d n m
    using that b octet_bound [OF that(3)] validated [OF that(4)] by (intro page_inv_sendDeviceRequest) auto
  then show ?thesis using b by (auto simp: send_report_def Let_def intro: page_inv_settle split: option.splits)
qed

lemma page_inv_report_result:
  assumes "page_inv [] s"
  shows "page_inv [] (handleReportResult obj r s)"
proof (cases "map_get (pg_devices s) obj")
  case (Some d)
  show ?thesis
  proof (cases "map_get (pd_pending d) (rs_reqId r)")
    case (Some e)
    obtain op kind where e: "e = (op, kind)" by (cases e)
    let ?d = "d\<lparr>pd_pending := map_delete (pd_pending d) (rs_reqId r)\<rparr>"
    have ok: "device_ok (pg_nextReq s) d" by (rule page_inv_device [OF assms \<open>map_get (pg_devices s) obj = Some d\<close>])
    have g: "mset (device_promises d) = add_mset op (mset (device_promises ?d))"
      using gather_delete [of "pd_pending d" "rs_reqId r" e "\<lambda>e. [fst e]"] ok Some e
      by (simp add: device_ok_def device_promises_def gather_def concat_map_singleton)
    have "device_ok (pg_nextReq s) ?d" using ok Some
      by (auto simp: device_ok_def keys_map_delete simp del: set_map intro: js_wf_intros)
    then have "page_inv [op] (set_device obj ?d s)"
      using g by (intro page_inv_device_set [OF assms \<open>map_get (pg_devices s) obj = Some d\<close>]) simp_all
    then show ?thesis using \<open>map_get (pg_devices s) obj = Some d\<close> Some e
      by (simp add: handleReportResult_def page_inv_settle)
  qed (use assms Some in \<open>simp add: handleReportResult_def\<close>)
qed (use assms in \<open>simp add: handleReportResult_def\<close>)

lemma page_inv_dispatch_all: "page_inv hand s \<Longrightarrow> page_inv hand (fold (\<lambda>r s. dispatch obj (f r) s) rs s)"
  by (induction rs arbitrary: s) (auto intro: page_inv_dispatch)

lemma page_inv_dispatch_some:
  "page_inv hand s \<Longrightarrow> page_inv hand (fold (\<lambda>r s. case r of None \<Rightarrow> s | Some (i, b) \<Rightarrow> dispatch obj (InputReport i b) s) rs s)"
  by (induction rs arbitrary: s) (auto intro: page_inv_dispatch split: option.split)

lemma page_inv_port_message: "page_inv [] s \<Longrightarrow> page_inv [] (pageDataPortMessage obj port m s)"
  by (auto simp: pageDataPortMessage_def intro!: page_inv_report_result page_inv_dispatch_some page_inv_dispatch page_inv_reconcile
      split: option.split port_message.split)

lemma page_inv_plane_ready: "page_inv [] s \<Longrightarrow> page_inv [] (handleDataPlaneReady deviceId gen s)"
  unfolding handleDataPlaneReady_def
  by (auto split: option.split intro!: page_inv_device_keep dest: page_inv_device simp: device_ok_def)

lemma page_inv_plane_unavailable:
  assumes "page_inv [] s"
  shows "page_inv [] (handleDataPlaneUnavailable deviceId gen s)"
proof -
  have "page_inv [] (set_device obj (detachDataPort (d\<lparr>pd_gen := gen, pd_ready := False, pd_unavailable := True,
      pd_unavailableGen := Some gen, pd_pending := []\<rparr>)) (rejectPendingReports obj NetworkError s))"
    if "map_get (pg_devices s) obj = Some d" for obj d
  proof -
    have d: "map_get (pg_devices (rejectPendingReports obj NetworkError s)) obj = Some (d\<lparr>pd_pending := []\<rparr>)"
      using that by (simp add: get_reject_pending)
    show ?thesis by (rule page_inv_device_keep [OF page_inv_reject_pending [OF assms] d])
        (simp_all add: device_ok_def detachDataPort_def)
  qed
  then show ?thesis using assms by (auto simp: handleDataPlaneUnavailable_def Let_def split: option.split)
qed

lemma page_inv_wire_said: "page_inv [] s \<Longrightarrow> page_inv [] (handleWireWorkerPort deviceId gen s)"
  by (auto simp: handleWireWorkerPort_def intro: page_inv_wire split: option.split)

lemma page_inv_planes: "page_inv hand s \<Longrightarrow> page_inv hand (s\<lparr>pg_planes := p\<rparr>)"
  by (erule page_inv_frame) simp_all

lemma page_inv_connect:
  assumes "page_inv [] s"
  shows "page_inv [] (handleDataPlaneConnect req deviceId gen s)"
proof -
  have "page_inv [] (set_device obj (d\<lparr>pd_gen := gen, pd_ready := False, pd_unavailable := True, pd_unavailableGen := None\<rparr>) s)"
    if "map_get (pg_devices s) obj = Some d" for obj d
    using page_inv_device [OF assms that] by (intro page_inv_device_keep [OF assms that]) (auto simp: device_ok_def)
  then show ?thesis using assms
    by (auto simp: handleDataPlaneConnect_def bind_eq_Some_conv intro!: page_inv_planes page_inv_post split: option.split)
qed

lemma page_inv_plane_events:
  assumes "page_inv [] s"
  shows "page_inv [] (handleDataPlaneDisconnect deviceId g s)" "page_inv [] (planeReady req s)"
    "page_inv [] (planeClosed deviceId gen willReconnect s)" "page_inv [] (planeAuthFailed deviceId gen s)"
  using assms by (auto simp: handleDataPlaneDisconnect_def planeReady_def planeClosed_def planeAuthFailed_def Let_def
      intro!: page_inv_reject_in_page page_inv_post page_inv_planes split: option.split)

lemma control_response_pending:
  "handleControlResponse batch pending = (pending', Some (e, r)) \<Longrightarrow>
   \<exists>k. map_get pending k = Some e \<and> pending' = map_delete pending k"
  by (auto simp: handleControlResponse_def Let_def split: if_splits option.splits)

lemma page_inv_binary:
  assumes "page_inv [] s"
  shows "page_inv [] (planeBinary deviceId gen batch s)"
proof -
  have "page_inv [] (settle_page_promise op out (s\<lparr>pg_inPending := pending\<rparr>))"
    if "handleControlResponse batch (pg_inPending s) = (pending, Some ((dev, op, kind), r))" for pending dev op kind r out
  proof -
    from control_response_pending [OF that]
    obtain k where k: "map_get (pg_inPending s) k = Some (dev, op, kind)" "pending = map_delete (pg_inPending s) k"
      by blast
    have "mset (gather in_promise (pg_inPending s)) = add_mset op (mset (gather in_promise pending))"
      using gather_delete [OF _ k(1), of in_promise] assms k(2) by (simp add: page_inv_def in_promise_def)
    moreover have "map_wf pending" using assms k(2) by (auto simp: page_inv_def intro: js_wf_intros)
    moreover have "set (map_keys pending) \<subseteq> set (map_keys (pg_inPending s))" unfolding k(2) keys_map_delete by blast
    moreover have "report_typed (s\<lparr>pg_inPending := a\<rparr>) r = report_typed s r" for a r by (simp add: report_typed_def)
    ultimately have "page_inv [op] (s\<lparr>pg_inPending := pending\<rparr>)"
      using assms unfolding page_inv_def waiting_promises_def by (auto simp del: set_map)
    then show ?thesis by (rule page_inv_settle)
  qed
  moreover have "page_inv [] (pushInPageBatch deviceId batch offset s)" for offset
    using assms by (auto simp: pushInPageBatch_def intro: page_inv_dispatch_all split: option.split)
  ultimately show ?thesis using assms by (auto simp: planeBinary_def split: prod.split option.split)
qed

lemma page_inv_shown:
  assumes "page_inv [] s"
  shows "page_inv [] (snd (getOrCreateDevice deviceId cs maxInput s))"
proof (cases "registered deviceId s")
  case None
  let ?n = "length (pg_devices s)"
  let ?d = "createHIDDevice deviceId cs maxInput"
  let ?s1 = "s\<lparr>pg_devices := pg_devices s @ [(?n, ?d)]\<rparr>"
  have keys: "map_keys (pg_devices s) = [0..<?n]" using assms by (simp add: page_inv_def)
  then have new: "?n \<notin> set (map_keys (pg_devices s))" by simp
  have typed: "report_typed s r \<Longrightarrow> report_typed ?s1 r" for r
    using new by (auto simp: report_typed_def map_add_def split: option.splits)
  have ok: "device_ok (pg_nextReq s) ?d" by (simp add: device_ok_def createHIDDevice_def)
  have "device_promises ?d = []" by (simp add: device_promises_def createHIDDevice_def)
  then have "page_inv [] ?s1" using assms keys new ok typed unfolding page_inv_def waiting_promises_def
    by (auto simp: gather_append gather_def simp del: set_map)
  note inv1 = this
  have "page_inv [] (if deviceId = [] then ?s1 else ?s1\<lparr>pg_registry := map_set (pg_registry ?s1) deviceId ?n\<rparr>)"
    using inv1 page_inv_registry [OF inv1] by (intro if_split [where P = "page_inv []", THEN iffD2]) blast
  then show ?thesis unfolding getOrCreateDevice_def None option.case Let_def snd_conv .
qed (use assms in \<open>simp add: getOrCreateDevice_def\<close>)

lemma page_inv_workers: "page_inv hand s \<Longrightarrow> page_inv hand (s\<lparr>pg_workers := w\<rparr>)"
  by (erule page_inv_frame) simp_all

lemma page_inv_step: "page_inv [] s \<Longrightarrow> page_inv [] (page_step e s)"
  by (cases e) (auto simp: workerSpawned_def workerEnded_def deviceDisconnected_def Let_def
      intro: page_inv_shown page_inv_open page_inv_close page_inv_forget page_inv_send_report page_inv_answer
        page_inv_port_message page_inv_plane_ready page_inv_plane_unavailable page_inv_wire_said page_inv_connect
        page_inv_plane_events page_inv_binary page_inv_forceForget page_inv_workers
      intro!: page_inv_registry page_inv_reconcile
      split: option.split)

lemma page_inv_run: "page_inv [] (fold page_step events initial_page)"
  by (rule fold_invariant [where P = "page_inv []"]) (simp_all add: page_inv_step page_inv_initial)

section \<open>Properties\<close>

text \<open>C33: Every promise the API of the page gives is settled once or waits, never both and never twice:
  opens, closes, forgets and reports, whatever the bridge, the data ports, the in-page planes and the
  devices do.\<close>

theorem page_promises_settled_once:
  "(let s = fold page_step events initial_page
    in mset [0..<pg_promises s] = mset (map fst (pg_settled s)) + mset (waiting_promises s))"
  using page_inv_run [of events] by (simp add: page_inv_def Let_def)

text \<open>C37: A device object that is not open has no report waiting on its data port, and one that is open
  has a plane that is ready or that it knows to be unavailable.  Reports on an in-page plane are no part
  of this: a close leaves them waiting (\<open>close_leaves_in_page_report\<close>).\<close>

theorem page_devices_consistent:
  "list_all (\<lambda>(obj, d). if pd_opened d then pd_ready d \<or> pd_unavailable d else pd_pending d = [])
     (pg_devices (fold page_step events initial_page))"
  using page_inv_run [of events] unfolding page_inv_def device_ok_def list_all_iff by fastforce

text \<open>The reports anywhere in the collections of a device.\<close>

fun all_reports :: "tlv_node \<Rightarrow> tlv_node list" where
  "all_reports (CollectionNode _ _ _ children inputs outputs features) =
     inputs @ outputs @ features @ concat (map all_reports children)"
| "all_reports _ = []"

lemma uses_report_ids: "collectionUsesReportIds c \<longleftrightarrow> list_ex (\<lambda>r. node_report_id r \<noteq> 0) (all_reports c)"
  by (induction c rule: all_reports.induct) (auto simp: list_ex_iff)

lemma device_uses_report_ids:
  "deviceUsesReportIds cs \<longleftrightarrow> list_ex (\<lambda>r. node_report_id r \<noteq> 0) (concat (map all_reports cs))"
  by (auto simp: deviceUsesReportIds_def list_ex_iff uses_report_ids)

text \<open>C38: Every report that leaves the page has a report id that is an octet, and zero exactly when no
  report anywhere in the collections of its device has an id.\<close>

theorem sent_report_ids:
  "(let s = fold page_step events initial_page
    in list_all (\<lambda>(obj, reportId, kind).
         case map_get (pg_devices s) obj of
           None \<Rightarrow> False
         | Some d \<Rightarrow> reportId < 256 \<and>
             (reportId = 0 \<longleftrightarrow> \<not> list_ex (\<lambda>r. node_report_id r \<noteq> 0) (concat (map all_reports (pd_collections d)))))
       (pg_reports s))"
proof -
  have "\<forall>r \<in> set (pg_reports (fold page_step events initial_page)). report_typed (fold page_step events initial_page) r"
    using page_inv_run [of events] unfolding page_inv_def by (elim conjE) assumption
  then show ?thesis unfolding Let_def list_all_iff report_typed_def device_uses_report_ids
    by (auto split: option.splits)
qed

text \<open>Over Native Messaging, what a report's promise becomes by the status of the response: a write
  fulfils exactly with a good status; a read is rejected only when it is blocked, and any other failed
  read fulfils with an empty view. A blocked report is a network error, where an in-page plane says
  that it is not allowed.  The specification of the project promises otherwise: it has blocked reports
  not allowed on every path, and failed reads rejected.\<close>

theorem report_outcome_over_nm:
  assumes "map_get (pg_devices s) obj = Some d" "map_get (pd_pending d) reqId = Some (op, kind)"
  shows "pg_settled (handleReportResult obj (handleWorkerReportResponse kind reqId status response) s) =
    pg_settled s @
      [(op, if kind = ReceiveFeature
            then if status = Some 403 then Rejected NetworkError
                 else FulfilledView (if isOk status then case response of None \<Rightarrow> [] | Some b \<Rightarrow> b else [])
            else if isOk status \<and> status \<noteq> Some 403 then Fulfilled else Rejected NetworkError)]
    \<and> in_page_outcome kind RejectedBlocked = Rejected NotAllowedError"
  using assms
  by (cases kind) (auto simp: handleReportResult_def handleWorkerReportResponse_def settle_page_promise_def set_device_def
      resolved_def in_page_outcome_def)

definition example_device :: page_device where
  "example_device = (createHIDDevice ''d'' [] 0)\<lparr>pd_opened := True, pd_ready := True, pd_pending := [(1, 0, ReceiveFeature)]\<rparr>"

theorem report_outcome_over_nm_witness:
  "pg_settled (handleReportResult 0 (handleWorkerReportResponse ReceiveFeature 1 (Some 500) None)
     (initial_page\<lparr>pg_devices := [(0, example_device)]\<rparr>)) = [(0, FulfilledView [])]"
  using report_outcome_over_nm [of "initial_page\<lparr>pg_devices := [(0, example_device)]\<rparr>" 0 example_device 1 0 ReceiveFeature "Some 500" None]
  by (simp add: example_device_def initial_page_def isOk_def)

text \<open>An open that waits for its data plane does not notice that the device went: the promise is fulfilled
  and the object, no longer registered, is open without a data port. Likewise for a device that was
  forgotten meanwhile.\<close>

definition opened_answer :: answer where
  "opened_answer = \<lparr>an_ok = True, an_generation = Some 1, an_ready = True, an_success = True\<rparr>"

lemma open_survives_disconnect:
  "(let s = fold page_step [DeviceShown ''d'' [] 0, OpenCall 0, Answered 1 opened_answer, DeviceGone ''d'', Answered 2 opened_answer] initial_page
    in pg_settled s = [(0, Fulfilled)] \<and> map_option pd_opened (map_get (pg_devices s) 0) = Some True \<and>
       map_option pd_port (map_get (pg_devices s) 0) = Some None \<and> pg_registry s = [])"
  by code_simp

lemma open_survives_revocation:
  "(let s = fold page_step [DeviceShown ''d'' [] 0, OpenCall 0, Answered 1 opened_answer, DeviceRevoked ''d'', Answered 2 opened_answer] initial_page
    in pg_settled s = [(0, Fulfilled)] \<and>
       map_option (\<lambda>d. (pd_opened d, pd_forgotten d)) (map_get (pg_devices s) 0) = Some (True, True) \<and>
       map snd (pg_requests s) = [OpenRequest ''d'' 67, WaitReadyRequest ''d'' 1])"
  by code_simp

text \<open>A close settles no report that waits on an in-page plane: the device is closed and its report still
  waits.  It is rejected when the bridge takes the plane away, with a network error.\<close>

definition in_page_close :: "page_event list" where
  "in_page_close =
     [DeviceShown ''d'' [] 0, OpenCall 0, Answered 1 opened_answer, PlaneConnect 7 ''d'' 1, WtReady 7,
      Answered 2 opened_answer, ReportCall 0 SendReport (Some 0) True True True, CloseCall 0, Answered 4 opened_answer]"

lemma close_leaves_in_page_report:
  "(let s = fold page_step in_page_close initial_page
    in map_option pd_opened (map_get (pg_devices s) 0) = Some False \<and> pg_inPending s = [(3, ''d'', 1, SendReport)]
       \<and> map fst (pg_settled s) = [0, 2] \<and> pg_tasks s = [])"
  "last (pg_settled (fold page_step (in_page_close @ [PlaneDisconnect ''d'' (Some 1)]) initial_page)) = (1, Rejected NetworkError)"
  by code_simp+

end
