(* ===== verification/Settings.thy ===== *)
theory Settings
  imports Js_String Native_Messaging
begin

text \<open>
  The settings (\<open>utils/settings.js\<close>): the keys of the local storage, the defaults, the load of a
  site's effective settings, the reactive stores; the live settings of the bridge
  (\<open>content/isolated/bridge.js\<close>); and the part of \<open>background/index.js\<close> that migrates the legacy
  storage and follows the settings. A load or a migration reads the storage once; what the awaits in
  it let through is an event of its own before or after it.
\<close>

section \<open>Values and keys\<close>

text \<open>What the local storage holds.\<close>

datatype json = JNull | JBool bool | JNum int | JStr string | JArr "json list" | JObj "(string \<times> json) list"

type_synonym local_storage = "(string, json) js_map"

text \<open>The separator of storage keys; \<open>split(' :: ')\<close> cuts at its occurrences from the left.\<close>

definition SEP :: string where
  "SEP = '' :: ''"

function split_sep :: "string \<Rightarrow> string \<Rightarrow> string list" where
  "split_sep acc [] = [acc]"
| "split_sep acc (c # s) =
     (if take 4 (c # s) = SEP then acc # split_sep [] (drop 4 (c # s)) else split_sep (acc @ [c]) s)"
  by pat_completeness auto

termination
  by (relation "measure (\<lambda>(_, s). length s)") auto

declare split_sep.simps(2) [simp del]

definition globalSettingKey :: "string \<Rightarrow> string" where
  "globalSettingKey name = ''settings'' @ SEP @ name"

definition siteSettingKey :: "string \<Rightarrow> string \<Rightarrow> string" where
  "siteSettingKey origin name = ''settings'' @ SEP @ origin @ SEP @ name"

datatype settings_key = GlobalSetting string | SiteSetting string string

definition parseSettingsKey :: "string \<Rightarrow> settings_key option" where
  "parseSettingsKey key =
     (case split_sep [] key of
        [a, name] \<Rightarrow> if a = ''settings'' then Some (GlobalSetting name) else None
      | [a, origin, name] \<Rightarrow> if a = ''settings'' then Some (SiteSetting origin name) else None
      | _ \<Rightarrow> None)"

lemma split_sep_word: "CHR '' '' \<notin> set w \<Longrightarrow> split_sep acc w = [acc @ w]"
proof (induction w arbitrary: acc)
  case (Cons c w)
  then have "take 4 (c # w) \<noteq> SEP" by (auto simp: SEP_def)
  with Cons show ?case by (simp add: split_sep.simps)
qed simp

lemma split_sep_append: "CHR '' '' \<notin> set w \<Longrightarrow> split_sep acc (w @ SEP @ s) = (acc @ w) # split_sep [] s"
proof (induction w arbitrary: acc)
  case Nil
  have "SEP @ s = CHR '' '' # (CHR '':'' # CHR '':'' # CHR '' '' # s)" by (simp add: SEP_def)
  then show ?case by (simp add: split_sep.simps SEP_def)
next
  case (Cons c w)
  then have "take 4 ((c # w) @ SEP @ s) \<noteq> SEP" by (auto simp: SEP_def)
  with Cons show ?case by (simp add: split_sep.simps)
qed

lemma parse_global: "CHR '' '' \<notin> set n \<Longrightarrow> parseSettingsKey (globalSettingKey n) = Some (GlobalSetting n)"
  using split_sep_append [of "''settings''" "[]" n] split_sep_word [of n "[]"]
  by (simp add: parseSettingsKey_def globalSettingKey_def)

lemma parse_site:
  "CHR '' '' \<notin> set o' \<Longrightarrow> CHR '' '' \<notin> set n \<Longrightarrow> parseSettingsKey (siteSettingKey o' n) = Some (SiteSetting o' n)"
  using split_sep_append [of "''settings''" "[]" "o' @ SEP @ n"] split_sep_append [of o' "[]" n] split_sep_word [of n "[]"]
  by (simp add: parseSettingsKey_def siteSettingKey_def)

section \<open>Loading\<close>

record platform =
  hasWebTransport :: bool
  onChromium :: bool
  onMv2 :: bool

definition GLOBAL_DEFAULTS :: "platform \<Rightarrow> (string, json) js_map" where
  "GLOBAL_DEFAULTS p =
     [(''dataPlane'', JStr (if hasWebTransport p then ''wt'' else ''ws'')),
      (''logLevel'', JNum 1),
      (''daemonAsNmHost'', JBool False),
      (''hidePageAction'', JBool False),
      (''devicePickerMode'', JStr ''modal''),
      (''workerPolyfillEnabled'', JBool False),
      (''workerSpawnMode'', JStr (if onChromium p \<or> onMv2 p then ''blob'' else ''shadow'')),
      (''useWorker'', JBool True),
      (''allowActivationlessRequestDevice'', JBool False)]"

definition SETTING_NAMES :: "string list" where
  "SETTING_NAMES = [''dataPlane'', ''logLevel'', ''daemonAsNmHost'', ''hidePageAction'', ''devicePickerMode'',
     ''workerPolyfillEnabled'', ''workerSpawnMode'', ''useWorker'', ''allowActivationlessRequestDevice'']"

definition SITE_SETTING_NAMES :: "string list" where
  "SITE_SETTING_NAMES = filter (\<lambda>n. n \<noteq> ''daemonAsNmHost'' \<and> n \<noteq> ''hidePageAction'') SETTING_NAMES"

definition loadGlobalSettings :: "platform \<Rightarrow> local_storage \<Rightarrow> (string, json) js_map" where
  "loadGlobalSettings p raw =
     map (\<lambda>name. (name, case map_get raw (globalSettingKey name) of
                          Some v \<Rightarrow> v
                        | None \<Rightarrow> the (map_get (GLOBAL_DEFAULTS p) name))) SETTING_NAMES"

definition loadSiteSettings :: "string \<Rightarrow> local_storage \<Rightarrow> (string, json) js_map" where
  "loadSiteSettings origin raw =
     concat (map (\<lambda>name. case map_get raw (siteSettingKey origin name) of Some v \<Rightarrow> [(name, v)] | None \<Rightarrow> [])
       SITE_SETTING_NAMES)"

definition loadEffectiveSettings :: "platform \<Rightarrow> string \<Rightarrow> local_storage \<Rightarrow> (string, json) js_map" where
  "loadEffectiveSettings p origin raw =
     (let global = loadGlobalSettings p raw
      in if origin = [] then global
         else fold (\<lambda>(k, v) g. map_set g k v) (loadSiteSettings origin raw) global)"

definition saveGlobalSetting :: "string \<Rightarrow> json \<Rightarrow> local_storage \<Rightarrow> local_storage" where
  "saveGlobalSetting name v raw = map_set raw (globalSettingKey name) v"

definition saveSiteSetting :: "string \<Rightarrow> string \<Rightarrow> json \<Rightarrow> local_storage \<Rightarrow> local_storage" where
  "saveSiteSetting origin name v raw = map_set raw (siteSettingKey origin name) v"

lemma names_distinct: "distinct SETTING_NAMES" "distinct SITE_SETTING_NAMES"
  by code_simp+

lemma site_names: "n \<in> set SITE_SETTING_NAMES \<longleftrightarrow>
    n \<in> set SETTING_NAMES \<and> n \<noteq> ''daemonAsNmHost'' \<and> n \<noteq> ''hidePageAction''"
  by (auto simp: SITE_SETTING_NAMES_def)

lemma map_get_named: "map_get (map (\<lambda>n. (n, f n)) ns) n = (if n \<in> set ns then Some (f n) else None)"
  by (induction ns) auto

lemma map_get_present:
  "map_get (concat (map (\<lambda>n. case f n of Some v \<Rightarrow> [(n, v)] | None \<Rightarrow> []) ns)) n = (if n \<in> set ns then f n else None)"
  by (induction ns) (auto split: option.splits)

lemma map_get_overlay:
  "distinct (map fst kvs) \<Longrightarrow>
   map_get (fold (\<lambda>(k, v) g. map_set g k v) kvs g) n = (case map_get kvs n of Some v \<Rightarrow> Some v | None \<Rightarrow> map_get g n)"
proof (induction kvs arbitrary: g)
  case (Cons e kvs)
  obtain k v where e: "e = (k, v)" by (cases e)
  have "map_get kvs k = None" using Cons.prems e by (simp add: map_of_eq_None_iff)
  with Cons e show ?case by (auto simp: js_map_simps split: option.split)
qed simp

lemma site_distinct: "distinct (map fst (loadSiteSettings origin raw))"
proof -
  have "distinct ns \<Longrightarrow> distinct (map fst (concat (map (\<lambda>n. case f n of Some v \<Rightarrow> [(n, v)] | None \<Rightarrow> []) ns)))"
    for f :: "string \<Rightarrow> json option" and ns
    by (induction ns) (auto split: option.splits)
  then show ?thesis unfolding loadSiteSettings_def using names_distinct(2) .
qed

text \<open>The effective value of a setting: the site's, else the global one, else the default.\<close>

lemma effective_value:
  "map_get (loadEffectiveSettings p origin raw) n =
     (if n \<notin> set SETTING_NAMES then None
      else case (if origin \<noteq> [] \<and> n \<in> set SITE_SETTING_NAMES then map_get raw (siteSettingKey origin n) else None) of
             Some v \<Rightarrow> Some v
           | None \<Rightarrow> (case map_get raw (globalSettingKey n) of
                       Some v \<Rightarrow> Some v | None \<Rightarrow> Some (the (map_get (GLOBAL_DEFAULTS p) n))))"
proof (cases "origin = []")
  case True
  then show ?thesis
    by (auto simp: loadEffectiveSettings_def loadGlobalSettings_def map_get_named split: option.split)
next
  case False
  have "map_get (loadSiteSettings origin raw) n = (if n \<in> set SITE_SETTING_NAMES then map_get raw (siteSettingKey origin n) else None)"
    unfolding loadSiteSettings_def by (rule map_get_present)
  with False show ?thesis
    using map_get_overlay [OF site_distinct, of origin raw "loadGlobalSettings p raw" n] site_names [of n]
    by (auto simp: loadEffectiveSettings_def Let_def loadGlobalSettings_def map_get_named split: option.split)
qed

section \<open>Stores\<close>

text \<open>A store: its values (\<open>None\<close> is a key set to \<open>undefined\<close>), its listeners by key in the order
  they came, and what was emitted to them.\<close>

record settings_store =
  ss_values :: "(string, json option) js_map"
  ss_listeners :: "(string, nat list) js_map"
  ss_emitted :: "(nat \<times> string \<times> json option) list"

text \<open>\<open>k in api\<close> also sees what every object inherits.\<close>

definition API_KEYS :: "string list" where
  "API_KEYS = [''on'', ''set'', ''getAll'', ''constructor'', ''__defineGetter__'', ''__defineSetter__'', ''hasOwnProperty'',
     ''__lookupGetter__'', ''__lookupSetter__'', ''isPrototypeOf'', ''propertyIsEnumerable'', ''toString'', ''valueOf'',
     ''__proto__'', ''toLocaleString'']"

definition createSettingsStore :: "(string, json) js_map \<Rightarrow> settings_store" where
  "createSettingsStore defaults =
     \<lparr>ss_values = map (\<lambda>(k, v). (k, Some v)) defaults, ss_listeners = [], ss_emitted = []\<rparr>"

definition store_value :: "settings_store \<Rightarrow> string \<Rightarrow> json option" where
  "store_value s k = (case map_get (ss_values s) k of Some v \<Rightarrow> v | None \<Rightarrow> None)"

definition store_emit :: "string \<Rightarrow> json option \<Rightarrow> settings_store \<Rightarrow> settings_store" where
  "store_emit k v s =
     (case map_get (ss_listeners s) k of
        None \<Rightarrow> s
      | Some cbs \<Rightarrow> s\<lparr>ss_emitted := ss_emitted s @ map (\<lambda>c. (c, k, v)) cbs\<rparr>)"

definition store_on :: "string list \<Rightarrow> nat \<Rightarrow> settings_store \<Rightarrow> settings_store" where
  "store_on ks cb s =
     fold (\<lambda>k s. s\<lparr>ss_listeners := map_set (ss_listeners s) k
       (set_add (case map_get (ss_listeners s) k of Some cbs \<Rightarrow> cbs | None \<Rightarrow> []) cb)\<rparr>) ks s"

definition store_off :: "string list \<Rightarrow> nat \<Rightarrow> settings_store \<Rightarrow> settings_store" where
  "store_off ks cb s =
     fold (\<lambda>k s. case map_get (ss_listeners s) k of
                   None \<Rightarrow> s
                 | Some cbs \<Rightarrow> s\<lparr>ss_listeners := map_set (ss_listeners s) k (set_delete cbs cb)\<rparr>) ks s"

text \<open>The language's \<open>===\<close>; an array or object that comes from the storage is a copy of its own.\<close>

fun same_value :: "json option \<Rightarrow> json option \<Rightarrow> bool" where
  "same_value (Some (JArr _)) _ = False"
| "same_value (Some (JObj _)) _ = False"
| "same_value a b = (a = b)"

text \<open>One entry of a patch; a key that is one of the store's methods is skipped.\<close>

definition store_put :: "string \<times> json option \<Rightarrow> settings_store \<Rightarrow> settings_store" where
  "store_put e s =
     (if fst e \<in> set API_KEYS \<or> same_value (store_value s (fst e)) (snd e) then s
      else store_emit (fst e) (snd e) (s\<lparr>ss_values := map_set (ss_values s) (fst e) (snd e)\<rparr>))"

definition store_set :: "(string \<times> json option) list \<Rightarrow> settings_store \<Rightarrow> settings_store" where
  "store_set patch s = fold store_put patch s"

lemma store_emit_values [simp]: "ss_values (store_emit k v s) = ss_values s" "ss_listeners (store_emit k v s) = ss_listeners s"
  by (simp_all add: store_emit_def split: option.split)

lemma same_value_eq: "same_value a b \<Longrightarrow> a = b"
  by (induction a b rule: same_value.induct) auto

lemma store_value_put:
  "store_value (store_put e s) k = (if k = fst e \<and> k \<notin> set API_KEYS then snd e else store_value s k)"
  using same_value_eq [of "store_value s (fst e)" "snd e"] by (auto simp: store_put_def store_value_def js_map_simps)

lemma store_value_set:
  "distinct (map fst patch) \<Longrightarrow>
   store_value (store_set patch s) k =
     (case map_get patch k of Some v \<Rightarrow> if k \<in> set API_KEYS then store_value s k else v | None \<Rightarrow> store_value s k)"
proof (induction patch arbitrary: s)
  case (Cons e patch)
  have "map_get patch (fst e) = None" using Cons.prems by (simp add: map_of_eq_None_iff)
  with Cons show ?case by (cases e) (auto simp: store_set_def store_value_put split: option.split)
qed (simp add: store_set_def)

section \<open>The live settings of the bridge\<close>

text \<open>The stores of the origins in a tab, and a change of the local storage: the key and its new value,
  none where it was removed.\<close>

definition settingsForOrigin :: "platform \<Rightarrow> string \<Rightarrow> (string, settings_store) js_map \<Rightarrow> (string, settings_store) js_map" where
  "settingsForOrigin p origin stores =
     (if map_has stores origin then stores
      else map_set stores origin (createSettingsStore (GLOBAL_DEFAULTS p)))"

definition storageChanged ::
    "platform \<Rightarrow> string \<times> json option \<Rightarrow> (string, settings_store) js_map \<Rightarrow> (string, settings_store) js_map" where
  "storageChanged p change stores =
     (case parseSettingsKey (fst change) of
        None \<Rightarrow> stores
      | Some (GlobalSetting name) \<Rightarrow> map (\<lambda>(o', st). (o', store_set [(name, snd change)] st)) stores
      | Some (SiteSetting origin name) \<Rightarrow>
          let stores' = settingsForOrigin p origin stores
          in map_set stores' origin (store_set [(name, snd change)] (the (map_get stores' origin))))"

text \<open>A store holds what the storage says of its origin.\<close>

definition in_step :: "platform \<Rightarrow> local_storage \<Rightarrow> string \<Rightarrow> settings_store \<Rightarrow> bool" where
  "in_step p raw origin st \<longleftrightarrow>
     list_all (\<lambda>n. store_value st n = map_get (loadEffectiveSettings p origin raw) n) SETTING_NAMES"

lemma api_not_setting: "n \<in> set SETTING_NAMES \<Longrightarrow> n \<notin> set API_KEYS" "n \<in> set SETTING_NAMES \<Longrightarrow> CHR '' '' \<notin> set n"
  by (auto simp: SETTING_NAMES_def API_KEYS_def)

lemma parse_key_inj:
  "parseSettingsKey k = Some x \<Longrightarrow> parseSettingsKey k' = Some y \<Longrightarrow> x \<noteq> y \<Longrightarrow> k \<noteq> k'"
  by auto

lemma effective_after_save:
  assumes "n \<in> set SETTING_NAMES" "m \<in> set SETTING_NAMES" "CHR '' '' \<notin> set origin" "origin \<noteq> []"
  shows "map_get (loadEffectiveSettings p origin (saveGlobalSetting m v raw)) n =
      (if n = m \<and> (n \<notin> set SITE_SETTING_NAMES \<or> map_get raw (siteSettingKey origin n) = None) then Some v
       else map_get (loadEffectiveSettings p origin raw) n)"
    and "m \<in> set SITE_SETTING_NAMES \<Longrightarrow>
      map_get (loadEffectiveSettings p origin (saveSiteSetting origin m v raw)) n =
      (if n = m then Some v else map_get (loadEffectiveSettings p origin raw) n)"
proof -
  have ns: "CHR '' '' \<notin> set n" "CHR '' '' \<notin> set m" using assms api_not_setting(2) by blast+
  have keys: "siteSettingKey origin n \<noteq> globalSettingKey m" "siteSettingKey origin m \<noteq> globalSettingKey n"
    "globalSettingKey n = globalSettingKey m \<longleftrightarrow> n = m" "siteSettingKey origin n = siteSettingKey origin m \<longleftrightarrow> n = m"
    using parse_key_inj [OF parse_site [OF assms(3) ns(1)] parse_global [OF ns(2)]]
      parse_key_inj [OF parse_site [OF assms(3) ns(2)] parse_global [OF ns(1)]]
      parse_key_inj [OF parse_global [OF ns(1)] parse_global [OF ns(2)]]
      parse_key_inj [OF parse_site [OF assms(3) ns(1)] parse_site [OF assms(3) ns(2)]] by auto
  show "map_get (loadEffectiveSettings p origin (saveGlobalSetting m v raw)) n =
      (if n = m \<and> (n \<notin> set SITE_SETTING_NAMES \<or> map_get raw (siteSettingKey origin n) = None) then Some v
       else map_get (loadEffectiveSettings p origin raw) n)"
    using assms keys by (auto simp: effective_value saveGlobalSetting_def js_map_simps split: option.split)
  show "map_get (loadEffectiveSettings p origin (saveSiteSetting origin m v raw)) n =
      (if n = m then Some v else map_get (loadEffectiveSettings p origin raw) n)" if "m \<in> set SITE_SETTING_NAMES"
    using assms keys that by (auto simp: effective_value saveSiteSetting_def js_map_simps split: option.split)
qed

text \<open>Only a global change under a site's override leads the two apart: the listener sets the value
  in the store of every origin, where a load gives the override precedence.\<close>

lemma storage_changed_global:
  "m \<in> set SETTING_NAMES \<Longrightarrow>
   storageChanged p (globalSettingKey m, v) stores = map (\<lambda>(o', st). (o', store_set [(m, v)] st)) stores"
  by (simp add: storageChanged_def parse_global api_not_setting)

lemma storage_changed_site:
  "m \<in> set SETTING_NAMES \<Longrightarrow> CHR '' '' \<notin> set origin \<Longrightarrow> map_get stores origin = Some st \<Longrightarrow>
   map_get (storageChanged p (siteSettingKey origin m, v) stores) origin = Some (store_set [(m, v)] st)"
  using map_of_SomeD [of stores origin st]
  by (auto simp: storageChanged_def parse_site api_not_setting settingsForOrigin_def js_map_simps image_iff)

lemma map_get_apply: "map_get (map (\<lambda>(k, x). (k, f x)) m) k = map_option f (map_get m k)"
  by (induction m) auto

lemma store_value_set1:
  "n \<in> set SETTING_NAMES \<Longrightarrow>
   store_value (store_set [(m, v)] st) n = (if n = m then v else store_value st n)"
  using api_not_setting(1) [of n] by (simp add: store_set_def store_value_put)

lemma live_settings_follow:
  assumes st: "map_get stores origin = Some st" "in_step p raw origin st"
    and n: "m \<in> set SETTING_NAMES" and o': "CHR '' '' \<notin> set origin" "origin \<noteq> []"
  shows "map_option (in_step p (saveGlobalSetting m v raw) origin)
           (map_get (storageChanged p (globalSettingKey m, Some v) stores) origin) =
         Some (m \<in> set SITE_SETTING_NAMES \<longrightarrow> map_get raw (siteSettingKey origin m) \<in> {None, Some v})"
    and "m \<in> set SITE_SETTING_NAMES \<Longrightarrow>
         map_option (in_step p (saveSiteSetting origin m v raw) origin)
           (map_get (storageChanged p (siteSettingKey origin m, Some v) stores) origin) = Some True"
proof -
  have old: "store_value st n = map_get (loadEffectiveSettings p origin raw) n" if "n \<in> set SETTING_NAMES" for n
    using st(2) that by (auto simp: in_step_def list_all_iff)
  have site: "map_get (loadEffectiveSettings p origin raw) m = Some w"
    if "m \<in> set SITE_SETTING_NAMES" "map_get raw (siteSettingKey origin m) = Some w" for w
    using that n o' by (simp add: effective_value)
  have "in_step p (saveGlobalSetting m v raw) origin (store_set [(m, Some v)] st) \<longleftrightarrow>
      (m \<in> set SITE_SETTING_NAMES \<longrightarrow> map_get raw (siteSettingKey origin m) \<in> {None, Some v})"
    using n o' site
    by (cases "map_get raw (siteSettingKey origin m)") (auto simp: in_step_def list_all_iff store_value_set1 effective_after_save old split: if_splits)
  then show "map_option (in_step p (saveGlobalSetting m v raw) origin)
           (map_get (storageChanged p (globalSettingKey m, Some v) stores) origin) =
         Some (m \<in> set SITE_SETTING_NAMES \<longrightarrow> map_get raw (siteSettingKey origin m) \<in> {None, Some v})"
    using n st(1) by (simp add: storage_changed_global map_get_apply)
  show "map_option (in_step p (saveSiteSetting origin m v raw) origin)
           (map_get (storageChanged p (siteSettingKey origin m, Some v) stores) origin) = Some True"
    if m: "m \<in> set SITE_SETTING_NAMES"
  proof -
    have "in_step p (saveSiteSetting origin m v raw) origin (store_set [(m, Some v)] st)"
      using n o' m by (auto simp: in_step_def list_all_iff store_value_set1 effective_after_save old)
    then show ?thesis using n o' st(1) by (simp add: storage_changed_site)
  qed
qed

section \<open>Migration of the legacy storage\<close>

text \<open>A put in the database: the description of a device, or a device of an origin. The key and the
  device id are the legacy ones, which \<open>Number\<close> and \<open>decodeURIComponent\<close> read.\<close>

datatype db_put = PutDeviceInfo string json | PutOrigin string json

definition starts_with :: "string \<Rightarrow> string \<Rightarrow> bool" where
  "starts_with p s \<longleftrightarrow> take (length p) s = p"

text \<open>The puts of each legacy key, in the order of the keys.\<close>

definition deviceInfoPuts :: "local_storage \<Rightarrow> (string \<times> db_put list) list" where
  "deviceInfoPuts all =
     concat (map (\<lambda>(key, v). if starts_with ''deviceInfo:'' key
                              then [(key, [PutDeviceInfo (drop 11 key) v])] else []) all)"

definition originPuts :: "local_storage \<Rightarrow> (string \<times> db_put list) list" where
  "originPuts all =
     concat (map (\<lambda>(key, v).
       if starts_with ''deviceInfo:'' key \<or> starts_with ''site:'' key \<or> starts_with ''settings :: '' key
          \<or> starts_with ''meta :: '' key \<or> key \<in> set SETTING_NAMES then []
       else case v of JArr ids \<Rightarrow> [(key, map (PutOrigin key) ids)] | _ \<Rightarrow> []) all)"

text \<open>Runs the transactions: the puts done, the keys whose transaction ended, and whether none failed.
  A put the database does not take throws, and the migration ends there.\<close>

fun run_puts :: "(db_put \<Rightarrow> bool) \<Rightarrow> (string \<times> db_put list) list \<Rightarrow> db_put list \<times> string list \<times> bool" where
  "run_puts takes [] = ([], [], True)"
| "run_puts takes ((key, puts) # rest) =
     (if list_all takes puts
      then let (done', keys, ok) = run_puts takes rest in (puts @ done', key # keys, ok)
      else (takeWhile takes puts, [], False))"

definition migrateDeviceInfoEntries :: "(db_put \<Rightarrow> bool) \<Rightarrow> local_storage \<Rightarrow> db_put list \<times> string list \<times> bool" where
  "migrateDeviceInfoEntries takes all = run_puts takes (deviceInfoPuts all)"

definition migrateOriginEntries :: "(db_put \<Rightarrow> bool) \<Rightarrow> local_storage \<Rightarrow> db_put list \<times> string list \<times> bool" where
  "migrateOriginEntries takes all = run_puts takes (originPuts all)"

text \<open>\<open>Object.entries\<close> of a value; it throws on \<open>null\<close>.\<close>

fun object_entries :: "json \<Rightarrow> (string \<times> json) list option" where
  "object_entries JNull = None"
| "object_entries (JBool _) = Some []"
| "object_entries (JNum _) = Some []"
| "object_entries (JStr s) = Some (zip (map show_nat [0..<length s]) (map (\<lambda>c. JStr [c]) s))"
| "object_entries (JArr xs) = Some (zip (map show_nat [0..<length xs]) xs)"
| "object_entries (JObj kvs) = Some kvs"

definition site_puts :: "string \<Rightarrow> (string \<times> json) list \<Rightarrow> (string \<times> json) list" where
  "site_puts origin kvs = map (\<lambda>(name, v). (siteSettingKey origin name, v)) kvs"

text \<open>The patch, as the assignments in their order, and the keys to remove.\<close>

fun migrateSiteEntries :: "local_storage \<Rightarrow> ((string \<times> json) list \<times> string list) option" where
  "migrateSiteEntries [] = Some ([], [])"
| "migrateSiteEntries ((key, v) # all) =
     (if starts_with ''site:'' key
      then (case (object_entries v, migrateSiteEntries all) of
              (Some kvs, Some (patch, keys)) \<Rightarrow>
                Some (site_puts (drop 5 key) kvs @ patch, key # keys)
            | _ \<Rightarrow> None)
      else migrateSiteEntries all)"

definition migrateGlobalEntries :: "local_storage \<Rightarrow> (string \<times> json) list \<times> string list" where
  "migrateGlobalEntries all =
     (let names = filter (\<lambda>n. map_has all n) SETTING_NAMES
      in (map (\<lambda>n. (globalSettingKey n, the (map_get all n))) names, names))"

text \<open>The assignments of a patch, one after another.\<close>

definition put_all :: "(string \<times> json) list \<Rightarrow> local_storage \<Rightarrow> local_storage" where
  "put_all kvs m = fold (\<lambda>(k, v) m. map_set m k v) kvs m"

record migrated =
  mg_local :: local_storage
  mg_puts :: "db_put list"
  mg_ok :: bool

text \<open>Which calls of the browser are resolved; one that is rejected throws in the code, and changed
  nothing.\<close>

record storage_calls =
  sc_get_version :: bool
  sc_get_all :: bool
  sc_open_db :: bool
  sc_set :: bool
  sc_remove :: bool
  sc_set_version :: bool

definition migrateLegacyStorage :: "(db_put \<Rightarrow> bool) \<Rightarrow> storage_calls \<Rightarrow> local_storage \<Rightarrow> migrated" where
  "migrateLegacyStorage takes calls all =
     (if \<not> sc_get_all calls \<or> \<not> sc_open_db calls then \<lparr>mg_local = all, mg_puts = [], mg_ok = False\<rparr>
      else
        let (puts1, keys1, ok1) = migrateDeviceInfoEntries takes all
        in if \<not> ok1 then \<lparr>mg_local = all, mg_puts = puts1, mg_ok = False\<rparr>
           else
             let (puts2, keys2, ok2) = migrateOriginEntries takes all;
                 puts = puts1 @ puts2
             in if \<not> ok2 then \<lparr>mg_local = all, mg_puts = puts, mg_ok = False\<rparr>
                else (case migrateSiteEntries all of
                        None \<Rightarrow> \<lparr>mg_local = all, mg_puts = puts, mg_ok = False\<rparr>
                      | Some (site, siteKeys) \<Rightarrow>
                          let (globals, globalKeys) = migrateGlobalEntries all;
                              patch = site @ globals;
                              keysToRemove = keys1 @ keys2 @ siteKeys @ globalKeys;
                              patched = put_all patch all
                          in if patch \<noteq> [] \<and> \<not> sc_set calls then \<lparr>mg_local = all, mg_puts = puts, mg_ok = False\<rparr>
                             else if keysToRemove \<noteq> [] \<and> \<not> sc_remove calls
                             then \<lparr>mg_local = patched, mg_puts = puts, mg_ok = False\<rparr>
                             else \<lparr>mg_local = fold (\<lambda>k m. map_delete m k) keysToRemove patched, mg_puts = puts, mg_ok = True\<rparr>))"

definition VERSION_KEY :: string where
  "VERSION_KEY = ''meta :: storage :: version''"

definition STORAGE_SCHEMA_VERSION :: json where
  "STORAGE_SCHEMA_VERSION = JNum 1"

definition ensureStorageSchemaVersion :: "(db_put \<Rightarrow> bool) \<Rightarrow> storage_calls \<Rightarrow> local_storage \<Rightarrow> migrated" where
  "ensureStorageSchemaVersion takes calls raw =
     (if \<not> sc_get_version calls then \<lparr>mg_local = raw, mg_puts = [], mg_ok = False\<rparr>
      else if map_get raw VERSION_KEY = Some STORAGE_SCHEMA_VERSION
      then \<lparr>mg_local = raw, mg_puts = [], mg_ok = True\<rparr>
      else let m = (if map_get raw VERSION_KEY = None then migrateLegacyStorage takes calls raw
                    else \<lparr>mg_local = raw, mg_puts = [], mg_ok = True\<rparr>)
           in if \<not> mg_ok m then m
              else if \<not> sc_set_version calls then m\<lparr>mg_ok := False\<rparr>
              else m\<lparr>mg_local := map_set (mg_local m) VERSION_KEY STORAGE_SCHEMA_VERSION\<rparr>)"

section \<open>What a migration keeps\<close>

text \<open>What the settings were worth in the legacy storage.\<close>

definition legacy_effective :: "platform \<Rightarrow> string \<Rightarrow> local_storage \<Rightarrow> string \<Rightarrow> json option" where
  "legacy_effective p origin all n =
     (case (if n \<in> set SITE_SETTING_NAMES
            then Option.bind (map_get all (''site:'' @ origin)) (\<lambda>v. case v of JObj kvs \<Rightarrow> map_get kvs n | _ \<Rightarrow> None)
            else None) of
        Some v \<Rightarrow> Some v
      | None \<Rightarrow> (case map_get all n of Some v \<Rightarrow> Some v | None \<Rightarrow> Some (the (map_get (GLOBAL_DEFAULTS p) n))))"

text \<open>A storage of the legacy version: none of the new keys, and a site's settings under names and an
  origin without blanks.\<close>

definition legacy_entry :: "string \<times> json \<Rightarrow> bool" where
  "legacy_entry e \<longleftrightarrow> \<not> starts_with ''settings :: '' (fst e) \<and>
     (if starts_with ''site:'' (fst e)
      then CHR '' '' \<notin> set (fst e) \<and>
        (case snd e of JObj kvs \<Rightarrow> map_wf kvs \<and> list_all (\<lambda>kv. CHR '' '' \<notin> set (fst kv)) kvs | _ \<Rightarrow> False)
      else True)"

lemma map_get_overlay_unique:
  assumes "\<And>v'. (k, v') \<in> set kvs \<Longrightarrow> v' = v" "(k, v) \<in> set kvs"
  shows "map_get (fold (\<lambda>(k, v) m. map_set m k v) kvs []) k = Some v"
proof -
  have "k \<in> fst ` set (rev kvs)" using assms(2) by force
  then obtain v' where v': "map_of (rev kvs) k = Some v'" using map_of_eq_None_iff [of "rev kvs" k] by fast
  then have "v' = v" using assms(1) map_of_SomeD [OF v'] by simp
  then show ?thesis using v' flat.get_put_all [of "[]" kvs k] by simp
qed

lemma map_get_overlay_absent:
  assumes "k \<notin> fst ` set kvs"
  shows "map_get (fold (\<lambda>(k, v) m. map_set m k v) kvs []) k = None"
proof -
  have "map_of (rev kvs) k = None" using assms by (simp add: map_of_eq_None_iff)
  then show ?thesis using flat.get_put_all [of "[]" kvs k] by simp
qed

text \<open>The patch, as one object, is what the assignments leave.\<close>

lemma map_get_patched:
  "map_wf m \<Longrightarrow> map_get (fold (\<lambda>(k, v) m. map_set m k v) kvs m) k =
     (case map_get (fold (\<lambda>(k, v) m. map_set m k v) kvs []) k of Some v \<Rightarrow> Some v | None \<Rightarrow> map_get m k)"
  using flat.get_put_all [of m kvs k] flat.get_put_all [of "[]" kvs k] by (simp split: option.split)

lemma map_get_delete_all:
  "map_get (fold (\<lambda>k m. map_delete m k) ks m) k = (if k \<in> set ks then None else map_get m k)"
  by (induction ks arbitrary: m) (auto simp: js_map_simps)

lemma run_puts_keys: "run_puts takes plan = (puts, ks, True) \<Longrightarrow> ks = map fst plan \<and> puts = concat (map snd plan)"
  by (induction takes plan arbitrary: puts ks rule: run_puts.induct) (auto split: if_splits prod.splits)

lemma site_patch_step:
  assumes "migrateSiteEntries ((key, w) # all) = Some (patch, ks)" "starts_with ''site:'' key"
  obtains kvs patch' ks' where "object_entries w = Some kvs" "migrateSiteEntries all = Some (patch', ks')"
    "patch = site_puts (drop 5 key) kvs @ patch'" "ks = key # ks'"
  using assms by (auto split: option.splits prod.splits)

lemma site_keys: "migrateSiteEntries all = Some (patch, ks) \<Longrightarrow> ks = map fst (filter (\<lambda>e. starts_with ''site:'' (fst e)) all)"
proof (induction all arbitrary: patch ks)
  case (Cons e all)
  obtain key w where e: "e = (key, w)" by (cases e)
  show ?case
  proof (cases "starts_with ''site:'' key")
    case True
    with Cons.prems e obtain patch' ks' where "migrateSiteEntries all = Some (patch', ks')" "ks = key # ks'"
      by (blast elim: site_patch_step)
    with Cons.IH True e show ?thesis by simp
  next
    case False
    with Cons e show ?thesis by simp
  qed
qed simp

lemma site_patch:
  "migrateSiteEntries all = Some (patch, ks) \<Longrightarrow>
   (k, v) \<in> set patch \<longleftrightarrow>
      (\<exists>key w kvs n. (key, w) \<in> set all \<and> starts_with ''site:'' key \<and> object_entries w = Some kvs \<and>
         (n, v) \<in> set kvs \<and> k = siteSettingKey (drop 5 key) n)"
proof (induction all arbitrary: patch ks)
  case (Cons e all)
  obtain key w where e: "e = (key, w)" by (cases e)
  show ?case
  proof (cases "starts_with ''site:'' key")
    case True
    with Cons.prems e obtain kvs patch' ks' where p: "object_entries w = Some kvs"
      "migrateSiteEntries all = Some (patch', ks')" "patch = site_puts (drop 5 key) kvs @ patch'"
      by (blast elim: site_patch_step)
    have "(k, v) \<in> set (site_puts (drop 5 key) kvs) \<longleftrightarrow> (\<exists>n. (n, v) \<in> set kvs \<and> k = siteSettingKey (drop 5 key) n)"
      by (auto simp: site_puts_def)
    moreover have "(\<exists>key' w' kvs n. (key', w') \<in> set (e # all) \<and> starts_with ''site:'' key' \<and> object_entries w' = Some kvs \<and>
         (n, v) \<in> set kvs \<and> k = siteSettingKey (drop 5 key') n) \<longleftrightarrow>
       (\<exists>n. (n, v) \<in> set kvs \<and> k = siteSettingKey (drop 5 key) n) \<or>
       (\<exists>key w kvs n. (key, w) \<in> set all \<and> starts_with ''site:'' key \<and> object_entries w = Some kvs \<and>
         (n, v) \<in> set kvs \<and> k = siteSettingKey (drop 5 key) n)"
      using p(1) True unfolding e by fastforce
    ultimately show ?thesis using Cons.IH [OF p(2)] p(3) by simp
  next
    case False
    with Cons e show ?thesis by auto
  qed
qed simp

lemma global_key_inj [simp]: "globalSettingKey a = globalSettingKey b \<longleftrightarrow> a = b"
  by (simp add: globalSettingKey_def)

lemma settings_keys_new: "starts_with ''settings :: '' (siteSettingKey o' n)" "starts_with ''settings :: '' (globalSettingKey n)"
  by (simp_all add: starts_with_def siteSettingKey_def globalSettingKey_def SEP_def)

lemma site_length: "length ''site:'' = 5"
  by simp

lemma site_key_split: "starts_with ''site:'' key \<Longrightarrow> key = ''site:'' @ drop 5 key"
  unfolding starts_with_def site_length by (metis append_take_drop_id)

lemma site_prefix [simp]: "starts_with ''site:'' (''site:'' @ s)" "starts_with ''site:'' (CHR ''s'' # CHR ''i'' # CHR ''t'' # CHR ''e'' # CHR '':'' # s)"
  by (simp_all add: starts_with_def)

lemma site_key_inj:
  assumes "CHR '' '' \<notin> set o'" "CHR '' '' \<notin> set n" "CHR '' '' \<notin> set o2" "CHR '' '' \<notin> set n2"
    "siteSettingKey o' n = siteSettingKey o2 n2"
  shows "o' = o2 \<and> n = n2"
proof -
  have "Some (SiteSetting o' n) = Some (SiteSetting o2 n2)"
    using parse_site [OF assms(1,2)] parse_site [OF assms(3,4)] unfolding assms(5) by (rule trans [OF sym])
  then show ?thesis by blast
qed

lemma site_global_differ:
  assumes "CHR '' '' \<notin> set o'" "CHR '' '' \<notin> set n" "CHR '' '' \<notin> set m"
  shows "siteSettingKey o' n \<noteq> globalSettingKey m"
  using parse_key_inj [OF parse_site [OF assms(1,2)] parse_global [OF assms(3)]] by simp

lemma migrated_site_value:
  assumes m: "migrateSiteEntries all = Some (site, siteKeys)" "migrateGlobalEntries all = (globals, globalKeys)"
    and wf: "map_wf all" "list_all legacy_entry all" and n: "CHR '' '' \<notin> set n" "CHR '' '' \<notin> set origin"
  shows "map_get (fold (\<lambda>(k, v) m. map_set m k v) (site @ globals) []) (siteSettingKey origin n) =
         Option.bind (map_get all (''site:'' @ origin)) (\<lambda>v. case v of JObj kvs \<Rightarrow> map_get kvs n | _ \<Rightarrow> None)"
    (is "_ = ?worth")
proof -
  have no_global: "(siteSettingKey origin n, v) \<notin> set globals" for v
    using m(2) site_global_differ [OF n(2,1)] api_not_setting(2)
    by (force simp: migrateGlobalEntries_def Let_def)
  have mem: "(siteSettingKey origin n, v) \<in> set site \<longleftrightarrow> ?worth = Some v" for v
  proof
    assume "(siteSettingKey origin n, v) \<in> set site"
    then obtain key w kvs n' where e: "(key, w) \<in> set all" "starts_with ''site:'' key" "object_entries w = Some kvs"
      "(n', v) \<in> set kvs" "siteSettingKey origin n = siteSettingKey (drop 5 key) n'"
      using site_patch [OF m(1)] by blast
    have "legacy_entry (key, w)" using wf(2) e(1) by (simp add: list_all_iff)
    then have l: "w = JObj kvs" "map_wf kvs" "CHR '' '' \<notin> set n'" "CHR '' '' \<notin> set key"
      using e(2,3,4) by (auto simp: legacy_entry_def list_all_iff split: json.splits)
    have "CHR '' '' \<notin> set (drop 5 key)" using l(4) in_set_dropD by metis
    then have "origin = drop 5 key \<and> n = n'" using site_key_inj [OF n(2,1) _ l(3) e(5)] by blast
    then have "key = ''site:'' @ origin" "n = n'" using site_key_split [OF e(2)] by metis+
    then show "?worth = Some v"
      using map_mem_get [OF wf(1) e(1)] map_mem_get [OF l(2) e(4)] l(1) by simp
  next
    assume v: "?worth = Some v"
    then obtain kvs where "map_get all (''site:'' @ origin) = Some (JObj kvs)" "map_get kvs n = Some v"
      by (cases "map_get all (''site:'' @ origin)") (auto split: json.splits)
    then have "(''site:'' @ origin, JObj kvs) \<in> set all" "(n, v) \<in> set kvs"
      by (auto dest: map_get_mem)
    moreover have "drop 5 (''site:'' @ origin) = origin" by simp
    ultimately show "(siteSettingKey origin n, v) \<in> set site"
      using site_patch [OF m(1), of "siteSettingKey origin n" v] site_prefix(1) [of origin] object_entries.simps(6) by metis
  qed
  show ?thesis
  proof (cases ?worth)
    case None
    then have "siteSettingKey origin n \<notin> fst ` set (site @ globals)" using mem no_global by force
    then show ?thesis unfolding None by (rule map_get_overlay_absent)
  next
    case (Some v)
    show ?thesis unfolding Some
    proof (rule map_get_overlay_unique)
      show "(siteSettingKey origin n, v) \<in> set (site @ globals)" using mem [of v] Some by simp
      show "v' = v" if "(siteSettingKey origin n, v') \<in> set (site @ globals)" for v'
        using that mem [of v'] no_global Some by simp
    qed
  qed
qed

lemma migrated_global_value:
  assumes m: "migrateSiteEntries all = Some (site, siteKeys)" "migrateGlobalEntries all = (globals, globalKeys)"
    and wf: "list_all legacy_entry all" and n: "n \<in> set SETTING_NAMES"
  shows "map_get (fold (\<lambda>(k, v) m. map_set m k v) (site @ globals) []) (globalSettingKey n) = map_get all n"
proof -
  have sp: "CHR '' '' \<notin> set x" if "x \<in> set SETTING_NAMES" for x using that api_not_setting(2) by blast
  have no_site: "(globalSettingKey n, v) \<notin> set site" for v
  proof
    assume "(globalSettingKey n, v) \<in> set site"
    then obtain key w kvs n' where e: "(key, w) \<in> set all" "starts_with ''site:'' key" "object_entries w = Some kvs"
      "(n', v) \<in> set kvs" "globalSettingKey n = siteSettingKey (drop 5 key) n'"
      using site_patch [OF m(1)] by blast
    have "legacy_entry (key, w)" using wf e(1) by (simp add: list_all_iff)
    then have "CHR '' '' \<notin> set n'" "CHR '' '' \<notin> set key"
      using e(2,3,4) by (auto simp: legacy_entry_def list_all_iff split: json.splits)
    then have "CHR '' '' \<notin> set n'" "CHR '' '' \<notin> set (drop 5 key)" using in_set_dropD by metis+
    then show False using site_global_differ sp [OF n] e(5) by metis
  qed
  have mem: "(globalSettingKey n, v) \<in> set globals \<longleftrightarrow> map_get all n = Some v" for v
  proof
    assume "(globalSettingKey n, v) \<in> set globals"
    then have "map_has all n" "v = the (map_get all n)"
      using m(2) by (force simp: migrateGlobalEntries_def Let_def)+
    then show "map_get all n = Some v" using map_has_get [of n all] by auto
  next
    assume v: "map_get all n = Some v"
    then have "map_has all n" using map_has_get [of n all] by simp
    then show "(globalSettingKey n, v) \<in> set globals"
      using m(2) n v by (force simp: migrateGlobalEntries_def Let_def)
  qed
  show ?thesis
  proof (cases "map_get all n")
    case None
    then have "globalSettingKey n \<notin> fst ` set (site @ globals)" using mem no_site by force
    then show ?thesis unfolding None by (rule map_get_overlay_absent)
  next
    case (Some v)
    show ?thesis unfolding Some
    proof (rule map_get_overlay_unique)
      show "(globalSettingKey n, v) \<in> set (site @ globals)" using mem [of v] Some by simp
      show "v' = v" if "(globalSettingKey n, v') \<in> set (site @ globals)" for v'
        using that mem [of v'] no_site Some by simp
    qed
  qed
qed

text \<open>The storage without the keys of the new settings, and what the patch of a legacy storage says of
  these keys.\<close>

definition rest_of :: "local_storage \<Rightarrow> local_storage" where
  "rest_of l = filter (\<lambda>e. \<not> starts_with ''settings :: '' (fst e)) l"

definition legacy_patch :: "local_storage \<Rightarrow> (string \<times> json) list" where
  "legacy_patch l = (case migrateSiteEntries l of None \<Rightarrow> [] | Some (site, _) \<Rightarrow> site @ fst (migrateGlobalEntries l))"

lemma put_all_simps [simp]: "put_all [] m = m" "put_all ((k, v) # kvs) m = put_all kvs (map_set m k v)"
  by (simp_all add: put_all_def)

definition legacy_key :: "string \<Rightarrow> bool" where
  "legacy_key k \<longleftrightarrow> starts_with ''site:'' k \<or> k \<in> set SETTING_NAMES"

lemma settings_key_apart:
  assumes "starts_with ''settings :: '' k"
  shows "\<not> starts_with ''site:'' k" "\<not> starts_with ''deviceInfo:'' k" "k \<notin> set SETTING_NAMES" "k \<noteq> VERSION_KEY"
proof -
  show "\<not> starts_with ''site:'' k" "\<not> starts_with ''deviceInfo:'' k"
    using assms by (cases k; cases "tl k"; auto simp: starts_with_def)+
  have "\<forall>n \<in> set SETTING_NAMES. \<not> starts_with ''settings :: '' n" "\<not> starts_with ''settings :: '' VERSION_KEY" by code_simp+
  with assms show "k \<notin> set SETTING_NAMES" "k \<noteq> VERSION_KEY" by blast+
qed

lemma rest_set: "starts_with ''settings :: '' k \<Longrightarrow> rest_of (map_set m k v) = rest_of m"
  by (induction m) (auto simp: rest_of_def)

lemma rest_put_all: "\<forall>k \<in> fst ` set kvs. starts_with ''settings :: '' k \<Longrightarrow> rest_of (put_all kvs m) = rest_of m"
proof (induction kvs arbitrary: m)
  case (Cons e kvs)
  then show ?case by (cases e) (simp add: rest_set)
qed simp

lemma rest_keys: "k \<in> set (map fst (rest_of l)) \<longleftrightarrow> k \<in> set (map fst l) \<and> \<not> starts_with ''settings :: '' k"
  by (auto simp: rest_of_def)

lemma rest_get: "\<not> starts_with ''settings :: '' k \<Longrightarrow> map_get (rest_of l) k = map_get l k"
  by (induction l) (auto simp: rest_of_def)

lemma site_entries_rest: "migrateSiteEntries (rest_of l) = migrateSiteEntries l"
proof (induction l)
  case (Cons e l)
  obtain k w where e: "e = (k, w)" by (cases e)
  show ?case
  proof (cases "starts_with ''settings :: '' k")
    case True
    then show ?thesis using Cons settings_key_apart(1) [OF True] e by (simp add: rest_of_def)
  next
    case False
    then show ?thesis using Cons e by (simp add: rest_of_def)
  qed
qed (simp add: rest_of_def)

lemma global_entries_rest: "migrateGlobalEntries (rest_of l) = migrateGlobalEntries l"
proof -
  have n: "\<not> starts_with ''settings :: '' n" if "n \<in> set SETTING_NAMES" for n
    using settings_key_apart(3) that by blast
  have "filter (\<lambda>n. map_has (rest_of l) n) SETTING_NAMES = filter (\<lambda>n. map_has l n) SETTING_NAMES"
    by (rule filter_cong) (use n rest_keys in auto)
  moreover have "map (\<lambda>n. (globalSettingKey n, the (map_get (rest_of l) n))) (filter (\<lambda>n. map_has l n) SETTING_NAMES)
      = map (\<lambda>n. (globalSettingKey n, the (map_get l n))) (filter (\<lambda>n. map_has l n) SETTING_NAMES)"
    by (rule map_cong) (use n rest_get in auto)
  ultimately show ?thesis by (simp add: migrateGlobalEntries_def)
qed

lemma legacy_patch_rest: "legacy_patch (rest_of l) = legacy_patch l"
  unfolding legacy_patch_def site_entries_rest global_entries_rest ..

lemma legacy_patch_keys: "\<forall>k \<in> fst ` set (legacy_patch l). starts_with ''settings :: '' k"
proof -
  have "starts_with ''settings :: '' k" if "migrateSiteEntries l = Some (site, ks)" "(k, v) \<in> set site" for site ks k v
    using site_patch [OF that(1), of k v] that(2) settings_keys_new(1) by auto
  moreover have "\<forall>k \<in> fst ` set (fst (migrateGlobalEntries l)). starts_with ''settings :: '' k"
    using settings_keys_new(2) by (auto simp: migrateGlobalEntries_def Let_def)
  ultimately show ?thesis
    by (cases "migrateSiteEntries l") (fastforce simp: legacy_patch_def)+
qed

lemma no_legacy_patch:
  assumes "\<forall>k \<in> set (map fst l). \<not> legacy_key k"
  shows "legacy_patch l = []"
proof -
  have "migrateSiteEntries l = Some ([], [])" using assms by (induction l) (auto simp: legacy_key_def)
  moreover have "migrateGlobalEntries l = ([], [])"
    using assms by (auto simp: migrateGlobalEntries_def Let_def legacy_key_def filter_empty_conv)
  ultimately show ?thesis by (simp add: legacy_patch_def)
qed

text \<open>What a migration can leave: the storage as it was, with the patch, or with the patch and without the
  legacy keys.\<close>

lemma migrate_leaves:
  fixes takes calls l
  defines "m \<equiv> migrateLegacyStorage takes calls l"
  shows "mg_local m = l \<and> \<not> mg_ok m \<or> mg_local m = put_all (legacy_patch l) l \<and> \<not> mg_ok m
     \<or> (\<exists>ks. mg_local m = fold (\<lambda>k m. map_delete m k) ks (put_all (legacy_patch l) l) \<and> mg_ok m
          \<and> (\<forall>k \<in> set ks. \<not> starts_with ''settings :: '' k) \<and> (\<forall>k \<in> set (map fst l). legacy_key k \<longrightarrow> k \<in> set ks))"
proof -
  obtain puts1 keys1 ok1 where 1: "migrateDeviceInfoEntries takes l = (puts1, keys1, ok1)" by (metis prod_cases3)
  obtain puts2 keys2 ok2 where 2: "migrateOriginEntries takes l = (puts2, keys2, ok2)" by (metis prod_cases3)
  obtain globals globalKeys where g: "migrateGlobalEntries l = (globals, globalKeys)" by (metis surj_pair)
  show ?thesis
  proof (cases "migrateSiteEntries l")
    case None
    then show ?thesis by (auto simp: m_def migrateLegacyStorage_def 1 2 Let_def)
  next
    case (Some x)
    then obtain site siteKeys where s: "migrateSiteEntries l = Some (site, siteKeys)" by (cases x) auto
    have patch: "legacy_patch l = site @ globals" by (simp add: legacy_patch_def s g)
    let ?ks = "keys1 @ keys2 @ siteKeys @ globalKeys"
    have "\<forall>k \<in> set (map fst l). legacy_key k \<longrightarrow> k \<in> set ?ks"
      using site_keys [OF s] g by (force simp: legacy_key_def migrateGlobalEntries_def Let_def)
    moreover have "\<forall>k \<in> set ?ks. \<not> starts_with ''settings :: '' k" if "ok1" "ok2"
    proof -
      have "keys1 = map fst (deviceInfoPuts l)" "keys2 = map fst (originPuts l)"
        using 1 2 that run_puts_keys by (auto simp: migrateDeviceInfoEntries_def migrateOriginEntries_def)
      moreover have "\<not> starts_with ''settings :: '' k" if "k \<in> set (map fst (deviceInfoPuts l))" for k
        using that settings_key_apart(2) by (auto simp: deviceInfoPuts_def split: if_splits)
      moreover have "\<not> starts_with ''settings :: '' k" if "k \<in> set (map fst (originPuts l))" for k
        using that by (auto simp: originPuts_def split: if_splits json.splits)
      moreover have "\<not> starts_with ''settings :: '' k" if "k \<in> set siteKeys" for k
        using that site_keys [OF s] settings_key_apart(1) by auto
      moreover have "\<not> starts_with ''settings :: '' k" if "k \<in> set globalKeys" for k
        using that g settings_key_apart(3) by (auto simp: migrateGlobalEntries_def Let_def)
      ultimately show ?thesis by auto
    qed
    moreover have "mg_local m = l \<and> \<not> mg_ok m \<or> mg_local m = put_all (legacy_patch l) l \<and> \<not> mg_ok m
        \<or> mg_local m = fold (\<lambda>k m. map_delete m k) ?ks (put_all (legacy_patch l) l) \<and> mg_ok m \<and> ok1 \<and> ok2"
      unfolding m_def migrateLegacyStorage_def 1 2 s g patch by (simp add: Let_def)
    ultimately show ?thesis by blast
  qed
qed

text \<open>How far the migration of a legacy storage has come: it was not begun, or every new key is what the
  patch says and the legacy keys are all there, or gone.\<close>

definition migrating :: "local_storage \<Rightarrow> local_storage \<Rightarrow> bool" where
  "migrating all l \<longleftrightarrow> l = all \<or>
     map_wf l \<and> (\<forall>k. starts_with ''settings :: '' k \<longrightarrow> map_get l k = map_get (put_all (legacy_patch all) []) k)
     \<and> (map_get l VERSION_KEY = Some STORAGE_SCHEMA_VERSION
        \<or> map_get l VERSION_KEY = None \<and> (rest_of l = all \<or> (\<forall>k \<in> set (map fst l). \<not> legacy_key k)))"

lemma wf_put_all: "map_wf m \<Longrightarrow> map_wf (put_all kvs m)"
  by (induction kvs arbitrary: m) (auto simp: distinct_update)

lemma wf_delete_all: "map_wf m \<Longrightarrow> map_wf (fold (\<lambda>k m. map_delete m k) ks m)"
  by (induction ks arbitrary: m) (auto simp: distinct_delete)

lemma keys_delete_all: "set (map fst (fold (\<lambda>k m. map_delete m k) ks m)) = set (map fst m) - set ks"
  by (induction ks arbitrary: m) (auto simp del: set_map simp add: delete_keys)

lemma map_get_put_all:
  "map_wf m \<Longrightarrow> map_get (put_all kvs m) k = (case map_get (put_all kvs []) k of Some v \<Rightarrow> Some v | None \<Rightarrow> map_get m k)"
  unfolding put_all_def by (rule map_get_patched)

lemma put_all_absent: "k \<notin> fst ` set kvs \<Longrightarrow> map_get (put_all kvs []) k = None"
  unfolding put_all_def by (rule map_get_overlay_absent)

lemma legacy_no_settings:
  assumes "list_all legacy_entry all"
  shows "rest_of all = all" "starts_with ''settings :: '' k \<Longrightarrow> map_get all k = None"
proof -
  have e: "\<forall>e \<in> set all. \<not> starts_with ''settings :: '' (fst e)" using assms by (auto simp: list_all_iff legacy_entry_def)
  then show "rest_of all = all" by (simp add: rest_of_def)
  show "map_get all k = None" if "starts_with ''settings :: '' k"
    using e that by (auto simp: map_of_eq_None_iff)
qed

text \<open>The patch, written over a storage that has it already or has none of the new keys, is in it.\<close>

lemma patched_settings:
  assumes "map_wf l" "legacy_patch l = patch" "starts_with ''settings :: '' k"
    "map_get l k = None \<or> map_get l k = map_get (put_all patch []) k"
  shows "map_get (put_all patch l) k = map_get (put_all patch []) k"
  using assms(4) unfolding map_get_put_all [OF assms(1), of patch k] by (cases "map_get (put_all patch []) k") auto

lemma migrating_migrate:
  assumes all: "map_wf all" "list_all legacy_entry all" "map_get all VERSION_KEY = None"
    and l: "migrating all l" "map_get l VERSION_KEY = None"
    and l': "l' = put_all (legacy_patch l) l \<or> (\<exists>ks. l' = fold (\<lambda>k m. map_delete m k) ks (put_all (legacy_patch l) l)
      \<and> (\<forall>k \<in> set ks. \<not> starts_with ''settings :: '' k) \<and> (\<forall>k \<in> set (map fst l). legacy_key k \<longrightarrow> k \<in> set ks))"
  shows "map_wf l' \<and> map_get l' VERSION_KEY = None
    \<and> (\<forall>k. starts_with ''settings :: '' k \<longrightarrow> map_get l' k = map_get (put_all (legacy_patch all) []) k)
    \<and> (rest_of l' = all \<or> (\<forall>k \<in> set (map fst l'). \<not> legacy_key k))"
proof -
  have wf: "map_wf l" using l(1) all(1) by (auto simp: migrating_def)
  let ?patched = "put_all (legacy_patch l) l"
  have version: "map_get ?patched VERSION_KEY = None"
  proof -
    have "VERSION_KEY \<notin> fst ` set (legacy_patch l)" using legacy_patch_keys settings_key_apart(4) by blast
    then show ?thesis
      using map_get_put_all [OF wf, of "legacy_patch l" VERSION_KEY] put_all_absent l(2) by (auto split: option.split)
  qed
  have settings: "map_get ?patched k = map_get (put_all (legacy_patch all) []) k" if k: "starts_with ''settings :: '' k" for k
  proof (cases "\<forall>k \<in> set (map fst l). \<not> legacy_key k")
    case True
    with no_legacy_patch [OF True] have "?patched = l" by simp
    moreover have "map_get l k = map_get (put_all (legacy_patch all) []) k"
    proof (cases "l = all")
      case True': True
      with no_legacy_patch [OF True] show ?thesis using legacy_no_settings(2) [OF all(2) k] by simp
    qed (use l(1) k in \<open>simp add: migrating_def\<close>)
    ultimately show ?thesis by simp
  next
    case False
    then have "l = all \<or> rest_of l = all \<and> map_get l k = map_get (put_all (legacy_patch all) []) k"
      using l k by (auto simp: migrating_def)
    then have "legacy_patch l = legacy_patch all" "map_get l k = None \<or> map_get l k = map_get (put_all (legacy_patch all) []) k"
      using legacy_patch_rest [of l] legacy_no_settings(2) [OF all(2) k] by auto
    then show ?thesis using patched_settings [OF wf _ k] by simp
  qed
  have rest: "rest_of ?patched = all \<or> (\<forall>k \<in> set (map fst ?patched). \<not> legacy_key k)"
  proof (cases "\<forall>k \<in> set (map fst l). \<not> legacy_key k")
    case True
    with no_legacy_patch [OF True] show ?thesis by simp
  next
    case False
    then have "rest_of l = all" using l legacy_no_settings(1) [OF all(2)] by (auto simp: migrating_def)
    then show ?thesis using rest_put_all [OF legacy_patch_keys] by simp
  qed
  from l' show ?thesis
  proof (elim disjE exE conjE)
    assume "l' = ?patched"
    then show ?thesis using wf_put_all [OF wf] version settings rest by simp
  next
    fix ks
    assume ks: "l' = fold (\<lambda>k m. map_delete m k) ks ?patched" "\<forall>k \<in> set ks. \<not> starts_with ''settings :: '' k"
      "\<forall>k \<in> set (map fst l). legacy_key k \<longrightarrow> k \<in> set ks"
    have "\<not> legacy_key k" if k: "k \<in> set (map fst l')" for k
    proof
      assume legacy: "legacy_key k"
      then have "\<not> starts_with ''settings :: '' k" using settings_key_apart(1,3) by (auto simp: legacy_key_def)
      moreover have "k \<in> set (map fst ?patched)" "k \<notin> set ks" using k unfolding ks(1) keys_delete_all by blast+
      ultimately have "k \<in> set (map fst (rest_of ?patched))" unfolding rest_keys by simp
      then have "k \<in> set (map fst l)" unfolding rest_put_all [OF legacy_patch_keys] rest_keys by simp
      with ks(3) legacy \<open>k \<notin> set ks\<close> show False by blast
    qed
    moreover have "map_get l' k = map_get ?patched k" if "starts_with ''settings :: '' k" for k
      using ks(2) that by (auto simp: ks(1) map_get_delete_all)
    ultimately show ?thesis
      using wf_delete_all [OF wf_put_all [OF wf]] version settings by (simp add: ks(1) map_get_delete_all)
  qed
qed

text \<open>Every attempt, whatever fails in it, leads from one such storage to another.\<close>

lemma migrating_step:
  assumes all: "map_wf all" "list_all legacy_entry all" "map_get all VERSION_KEY = None" and l: "migrating all l"
  shows "migrating all (mg_local (ensureStorageSchemaVersion takes calls l))"
proof (cases "sc_get_version calls \<and> map_get l VERSION_KEY = None")
  case False
  then have "mg_local (ensureStorageSchemaVersion takes calls l) = l"
    using l all(3) by (auto simp: ensureStorageSchemaVersion_def migrating_def)
  with l show ?thesis by simp
next
  case True
  note version = conjunct2 [OF True]
  let ?m = "migrateLegacyStorage takes calls l"
  have set: "migrating all (map_set l' VERSION_KEY STORAGE_SCHEMA_VERSION)" "migrating all l'"
    if "map_wf l'" "map_get l' VERSION_KEY = None"
      "\<forall>k. starts_with ''settings :: '' k \<longrightarrow> map_get l' k = map_get (put_all (legacy_patch all) []) k"
      "rest_of l' = all \<or> (\<forall>k \<in> set (map fst l'). \<not> legacy_key k)" for l'
    using that settings_key_apart(4) by (auto simp: migrating_def js_map_simps distinct_update)
  have e: "mg_local (ensureStorageSchemaVersion takes calls l) =
      (if mg_ok ?m \<and> sc_set_version calls then map_set (mg_local ?m) VERSION_KEY STORAGE_SCHEMA_VERSION else mg_local ?m)"
    using True by (simp add: ensureStorageSchemaVersion_def Let_def STORAGE_SCHEMA_VERSION_def)
  show ?thesis
  proof (cases "mg_local ?m = l \<and> \<not> mg_ok ?m")
    case True
    with l show ?thesis unfolding e by simp
  next
    case False
    then have "mg_local ?m = put_all (legacy_patch l) l
      \<or> (\<exists>ks. mg_local ?m = fold (\<lambda>k m. map_delete m k) ks (put_all (legacy_patch l) l)
          \<and> (\<forall>k \<in> set ks. \<not> starts_with ''settings :: '' k) \<and> (\<forall>k \<in> set (map fst l). legacy_key k \<longrightarrow> k \<in> set ks))"
      using migrate_leaves [of takes calls l] by blast
    from migrating_migrate [OF all l version this] have
      "map_wf (mg_local ?m)" "map_get (mg_local ?m) VERSION_KEY = None"
      "\<forall>k. starts_with ''settings :: '' k \<longrightarrow> map_get (mg_local ?m) k = map_get (put_all (legacy_patch all) []) k"
      "rest_of (mg_local ?m) = all \<or> (\<forall>k \<in> set (map fst (mg_local ?m)). \<not> legacy_key k)"
      by blast+
    from set [OF this] show ?thesis unfolding e by simp
  qed
qed

text \<open>An attempt that ends has begun from a legacy storage whose sites have settings the code can read, and
  ends with the version.\<close>

lemma migration_ends:
  assumes "mg_ok (ensureStorageSchemaVersion takes calls l)"
  shows "map_get (mg_local (ensureStorageSchemaVersion takes calls l)) VERSION_KEY = Some STORAGE_SCHEMA_VERSION"
  using assms by (auto simp: ensureStorageSchemaVersion_def Let_def js_map_simps split: if_splits)

lemma migrated_stays:
  assumes "map_get l VERSION_KEY = Some STORAGE_SCHEMA_VERSION"
  shows "mg_local (ensureStorageSchemaVersion takes calls l) = l" "mg_puts (ensureStorageSchemaVersion takes calls l) = []"
  using assms by (simp_all add: ensureStorageSchemaVersion_def)

text \<open>The attempts of several starts of the background.\<close>

definition migration_attempts :: "((db_put \<Rightarrow> bool) \<times> storage_calls) list \<Rightarrow> local_storage \<Rightarrow> local_storage" where
  "migration_attempts attempts l = fold (\<lambda>(takes, calls) l. mg_local (ensureStorageSchemaVersion takes calls l)) attempts l"

lemma migrating_attempts:
  assumes "map_wf all" "list_all legacy_entry all" "map_get all VERSION_KEY = None"
  shows "migrating all (migration_attempts attempts all)"
proof -
  have "migrating all l \<Longrightarrow> migrating all (migration_attempts attempts l)" for l
    by (induction attempts arbitrary: l) (auto simp: migration_attempts_def migrating_step [OF assms])
  then show ?thesis by (simp add: migrating_def)
qed

text \<open>Where the patch is, every setting has its legacy worth.\<close>

lemma patch_worth:
  assumes "migrateSiteEntries all = Some (site, siteKeys)" and wf: "map_wf all" "list_all legacy_entry all"
    and l: "\<forall>k. starts_with ''settings :: '' k \<longrightarrow> map_get l k = map_get (put_all (legacy_patch all) []) k"
    and n: "n \<in> set SETTING_NAMES" and o': "CHR '' '' \<notin> set origin" "origin \<noteq> []"
  shows "map_get (loadEffectiveSettings p origin l) n = legacy_effective p origin all n"
proof -
  obtain globals globalKeys where g: "migrateGlobalEntries all = (globals, globalKeys)" by (metis surj_pair)
  have patch: "legacy_patch all = site @ globals" by (simp add: legacy_patch_def assms(1) g)
  have s: "map_get l (siteSettingKey origin n) =
      Option.bind (map_get all (''site:'' @ origin)) (\<lambda>v. case v of JObj kvs \<Rightarrow> map_get kvs n | _ \<Rightarrow> None)"
    using l settings_keys_new(1) migrated_site_value [OF assms(1) g wf api_not_setting(2) [OF n] o'(1)]
    unfolding patch put_all_def by metis
  have g': "map_get l (globalSettingKey n) = map_get all n"
    using l settings_keys_new(2) migrated_global_value [OF assms(1) g wf(2) n] unfolding patch put_all_def by metis
  show ?thesis using n o'(2) unfolding effective_value legacy_effective_def s g' by simp
qed

text \<open>The settings of a legacy storage's sites are objects, so that the migration of the sites returns.\<close>

lemma legacy_sites: "list_all legacy_entry all \<Longrightarrow> \<exists>patch. migrateSiteEntries all = Some patch"
  by (induction all) (auto simp: legacy_entry_def split: json.splits)

lemma version_key_apart: "siteSettingKey o' n \<noteq> VERSION_KEY" "globalSettingKey n \<noteq> VERSION_KEY"
  by (simp_all add: siteSettingKey_def globalSettingKey_def VERSION_KEY_def)

lemma unsaved_site_setting:
  assumes "m \<notin> set SITE_SETTING_NAMES" "m \<in> set SETTING_NAMES" "CHR '' '' \<notin> set origin"
  shows "n \<in> set SETTING_NAMES \<Longrightarrow>
    map_get (loadEffectiveSettings p origin (saveSiteSetting origin m v raw)) n = map_get (loadEffectiveSettings p origin raw) n"
proof -
  assume n: "n \<in> set SETTING_NAMES"
  have "CHR '' '' \<notin> set m" "CHR '' '' \<notin> set n" using assms(2) n api_not_setting(2) by blast+
  then have "siteSettingKey origin m \<noteq> globalSettingKey n" "siteSettingKey origin n = siteSettingKey origin m \<longleftrightarrow> n = m"
    using site_global_differ [OF assms(3)] site_key_inj [OF assms(3) _ assms(3)] by blast+
  then have g: "map_get (map_set raw (siteSettingKey origin m) v) (globalSettingKey n) = map_get raw (globalSettingKey n)"
    and s: "n \<in> set SITE_SETTING_NAMES \<Longrightarrow>
      map_get (map_set raw (siteSettingKey origin m) v) (siteSettingKey origin n) = map_get raw (siteSettingKey origin n)"
    using assms(1) by (metis map_get_set)+
  show ?thesis unfolding effective_value saveSiteSetting_def g
    by (cases "n \<in> set SITE_SETTING_NAMES") (simp_all add: s)
qed

section \<open>The settings of the background\<close>

text \<open>The background's store, the host the client connects to and how often it was told to reconnect, the
  visibility the page actions were told, and the sites with the worker polyfill.\<close>

record live_background =
  bk_settings :: settings_store
  bk_nm_host :: string
  bk_reconnects :: nat
  bk_hidden :: "bool list"
  bk_polyfill :: "string list"

fun truthy :: "json option \<Rightarrow> bool" where
  "truthy None = False"
| "truthy (Some JNull) = False"
| "truthy (Some (JBool b)) = b"
| "truthy (Some (JNum n)) = (n \<noteq> 0)"
| "truthy (Some (JStr s)) = (s \<noteq> [])"
| "truthy (Some (JArr _)) = True"
| "truthy (Some (JObj _)) = True"

definition nmHostName :: "settings_store \<Rightarrow> string" where
  "nmHostName s = (if truthy (store_value s ''daemonAsNmHost'') then NM_HOST_DAEMON else NM_HOST_FORWARDER)"

definition initial_live :: "platform \<Rightarrow> live_background" where
  "initial_live p =
     \<lparr>bk_settings = store_on [''daemonAsNmHost''] 0 (createSettingsStore (GLOBAL_DEFAULTS p)),
      bk_nm_host = NM_HOST_FORWARDER, bk_reconnects = 0, bk_hidden = [], bk_polyfill = []\<rparr>"

text \<open>A patch of the store, with its listener of the host.\<close>

definition set_settings :: "(string \<times> json option) list \<Rightarrow> live_background \<Rightarrow> live_background" where
  "set_settings patch b =
     (let s = store_set patch (bk_settings b);
          heard = drop (length (ss_emitted (bk_settings b))) (ss_emitted s);
          b1 = b\<lparr>bk_settings := s\<rparr>
      in if heard = [] then b1
         else b1\<lparr>bk_nm_host := nmHostName s, bk_reconnects := bk_reconnects b + length heard\<rparr>)"

text \<open>What a start loads, and what it saves: on Windows and macOS the daemon is the host unless chosen
  otherwise.\<close>

definition loaded_global :: "platform \<Rightarrow> string \<Rightarrow> local_storage \<Rightarrow> (string, json) js_map" where
  "loaded_global p os raw =
     (let g = loadGlobalSettings p raw
      in if map_get raw (globalSettingKey ''daemonAsNmHost'') = None \<and> os \<in> {''win'', ''mac''}
         then map_set g ''daemonAsNmHost'' (JBool True) else g)"

definition loaded_storage :: "string \<Rightarrow> local_storage \<Rightarrow> local_storage" where
  "loaded_storage os raw =
     (if map_get raw (globalSettingKey ''daemonAsNmHost'') = None \<and> os \<in> {''win'', ''mac''}
      then saveGlobalSetting ''daemonAsNmHost'' (JBool True) raw else raw)"

definition loadNmHostSetting :: "platform \<Rightarrow> string \<Rightarrow> local_storage \<Rightarrow> live_background \<Rightarrow> live_background" where
  "loadNmHostSetting p os raw b =
     (let g = loaded_global p os raw;
          b1 = set_settings (map (\<lambda>(k, v). (k, Some v)) g) b
      in b1\<lparr>bk_hidden := bk_hidden b1 @ [truthy (map_get g ''hidePageAction'')],
            bk_nm_host := nmHostName (bk_settings b1)\<rparr>)"

text \<open>The two ends of a refresh of the polyfill's sites: it forgets them, and adds those that the
  storage it then read names.\<close>

definition refreshStarted :: "live_background \<Rightarrow> live_background" where
  "refreshStarted b = b\<lparr>bk_polyfill := []\<rparr>"

definition polyfill_site :: "string \<times> json \<Rightarrow> string option" where
  "polyfill_site e =
     (case parseSettingsKey (fst e) of
        Some (SiteSetting origin name) \<Rightarrow>
          if name = ''workerPolyfillEnabled'' \<and> truthy (Some (snd e)) then Some origin else None
      | _ \<Rightarrow> None)"

definition refreshRead :: "local_storage \<Rightarrow> live_background \<Rightarrow> live_background" where
  "refreshRead all b = b\<lparr>bk_polyfill := fold (\<lambda>o' s. set_add s o') (List.map_filter polyfill_site all) (bk_polyfill b)\<rparr>"

text \<open>A change of the storage, all its keys at once.\<close>

definition global_patch :: "(string \<times> json option) list \<Rightarrow> (string, json option) js_map" where
  "global_patch changes =
     fold (\<lambda>(key, v) patch. case parseSettingsKey key of Some (GlobalSetting name) \<Rightarrow> map_set patch name v | _ \<Rightarrow> patch)
       changes []"

definition has_site_change :: "(string \<times> json option) list \<Rightarrow> bool" where
  "has_site_change changes =
     list_ex (\<lambda>(key, _). case parseSettingsKey key of
        Some (SiteSetting _ name) \<Rightarrow> name = ''workerPolyfillEnabled'' | _ \<Rightarrow> False) changes"

definition onChanged :: "(string \<times> json option) list \<Rightarrow> live_background \<Rightarrow> live_background" where
  "onChanged changes b =
     (let b1 = (if has_site_change changes then refreshStarted b else b);
          patch = global_patch changes
      in if patch = [] then b1
         else let b2 = set_settings patch b1
              in (case map_get patch ''hidePageAction'' of
                    Some v \<Rightarrow> b2\<lparr>bk_hidden := bk_hidden b2 @ [truthy v]\<rparr>
                  | None \<Rightarrow> b2))"

datatype settings_event = Loaded string local_storage | StorageChanged "(string \<times> json option) list"
  | RefreshStart | RefreshRead local_storage

fun settings_step :: "platform \<Rightarrow> settings_event \<Rightarrow> live_background \<Rightarrow> live_background" where
  "settings_step p (Loaded os raw) b = loadNmHostSetting p os raw b"
| "settings_step p (StorageChanged changes) b = onChanged changes b"
| "settings_step p RefreshStart b = refreshStarted b"
| "settings_step p (RefreshRead raw) b = refreshRead raw b"

text \<open>The client's host is always the one the settings name; only the host is listened to.\<close>

definition host_follows :: "live_background \<Rightarrow> bool" where
  "host_follows b \<longleftrightarrow> bk_nm_host b = nmHostName (bk_settings b) \<and>
     ss_listeners (bk_settings b) = [(''daemonAsNmHost'', [0])]"

lemma store_put_listeners [simp]: "ss_listeners (store_put e s) = ss_listeners s"
  by (simp add: store_put_def)

lemma store_set_listeners [simp]: "ss_listeners (store_set patch s) = ss_listeners s"
  unfolding store_set_def by (induction patch arbitrary: s) simp_all

lemma store_put_emitted:
  "\<exists>new. ss_emitted (store_put e s) = ss_emitted s @ new \<and>
     (if new = [] then ss_listeners s = [(''daemonAsNmHost'', [0])] \<longrightarrow>
        store_value (store_put e s) ''daemonAsNmHost'' = store_value s ''daemonAsNmHost'' else True)"
proof (cases "fst e \<in> set API_KEYS \<or> same_value (store_value s (fst e)) (snd e)")
  case True
  then show ?thesis by (simp add: store_put_def)
next
  case False
  define s' where "s' = s\<lparr>ss_values := map_set (ss_values s) (fst e) (snd e)\<rparr>"
  have p: "store_put e s = store_emit (fst e) (snd e) s'" using False by (simp add: store_put_def s'_def)
  show ?thesis
  proof (cases "map_get (ss_listeners s') (fst e)")
    case None
    have "fst e \<noteq> ''daemonAsNmHost''" if "ss_listeners s = [(''daemonAsNmHost'', [0])]"
      using None that by (auto simp: s'_def)
    then show ?thesis using None unfolding p
      by (auto simp: store_emit_def store_value_def s'_def js_map_simps)
  next
    case (Some cbs)
    then have "ss_emitted (store_put e s) = ss_emitted s @ map (\<lambda>c. (c, fst e, snd e)) cbs"
      unfolding p by (simp add: store_emit_def s'_def)
    moreover have "store_value (store_put e s) ''daemonAsNmHost'' = store_value s ''daemonAsNmHost''"
      if "cbs = []" "ss_listeners s = [(''daemonAsNmHost'', [0])]"
      using Some that by (auto simp: s'_def split: if_splits)
    ultimately show ?thesis by auto
  qed
qed

lemma store_set_emitted:
  "\<exists>new. ss_emitted (store_set patch s) = ss_emitted s @ new \<and>
     (if new = [] then ss_listeners s = [(''daemonAsNmHost'', [0])] \<longrightarrow>
        store_value (store_set patch s) ''daemonAsNmHost'' = store_value s ''daemonAsNmHost'' else True)"
proof (induction patch arbitrary: s)
  case (Cons e patch)
  obtain n1 where n1: "ss_emitted (store_put e s) = ss_emitted s @ n1"
    "n1 = [] \<Longrightarrow> ss_listeners s = [(''daemonAsNmHost'', [0])] \<longrightarrow>
        store_value (store_put e s) ''daemonAsNmHost'' = store_value s ''daemonAsNmHost''"
    using store_put_emitted [of e s] by (metis (full_types))
  obtain n2 where n2: "ss_emitted (store_set patch (store_put e s)) = ss_emitted (store_put e s) @ n2"
    "n2 = [] \<Longrightarrow> ss_listeners (store_put e s) = [(''daemonAsNmHost'', [0])] \<longrightarrow>
        store_value (store_set patch (store_put e s)) ''daemonAsNmHost'' = store_value (store_put e s) ''daemonAsNmHost''"
    using Cons.IH [of "store_put e s"] by (metis (full_types))
  have eq: "store_set (e # patch) s = store_set patch (store_put e s)" by (simp add: store_set_def)
  show ?case unfolding eq by (rule exI [of _ "n1 @ n2"]) (use n1 n2 in auto)
qed (simp add: store_set_def)

lemma host_follows_set: "host_follows b \<Longrightarrow> host_follows (set_settings patch b)"
  using store_set_emitted [of patch "bk_settings b"]
  by (auto simp: host_follows_def set_settings_def Let_def nmHostName_def)

lemma set_settings_listeners [simp]: "ss_listeners (bk_settings (set_settings patch b)) = ss_listeners (bk_settings b)"
  by (simp add: set_settings_def Let_def)

lemma host_follows_step: "host_follows b \<Longrightarrow> host_follows (settings_step p e b)"
proof (cases e)
  case (StorageChanged changes)
  assume b: "host_follows b"
  define b1 where "b1 = (if has_site_change changes then refreshStarted b else b)"
  have "host_follows b1" using b by (simp add: b1_def host_follows_def refreshStarted_def)
  then have "host_follows (set_settings (global_patch changes) b1)" by (rule host_follows_set)
  with \<open>host_follows b1\<close> show ?thesis unfolding StorageChanged
    by (simp add: onChanged_def Let_def flip: b1_def) (simp add: host_follows_def split: option.split)
qed (simp_all add: host_follows_def loadNmHostSetting_def Let_def refreshStarted_def refreshRead_def)

section \<open>Properties\<close>

text \<open>C31: The store of an origin that shows what the storage says of it still does after a saved change
  of a site setting, and after a saved change of a global setting exactly when the site does not
  override that setting with another value.\<close>

theorem settings_follow_storage:
  assumes "map_get stores origin = Some st" "in_step p raw origin st"
    and "m \<in> set SETTING_NAMES" and "CHR '' '' \<notin> set origin" "origin \<noteq> []"
  shows "map_option (in_step p (saveGlobalSetting m v raw) origin)
           (map_get (storageChanged p (globalSettingKey m, Some v) stores) origin) =
         Some (m \<notin> set SITE_SETTING_NAMES \<or> map_get raw (siteSettingKey origin m) \<in> {None, Some v}) \<and>
         map_option (in_step p (saveSiteSetting origin m v raw) origin)
           (map_get (storageChanged p (siteSettingKey origin m, Some v) stores) origin) =
         Some (m \<in> set SITE_SETTING_NAMES \<or> map_get (loadEffectiveSettings p origin raw) m = Some v)"
proof -
  have old: "store_value st n = map_get (loadEffectiveSettings p origin raw) n" if "n \<in> set SETTING_NAMES" for n
    using assms(2) that by (auto simp: in_step_def list_all_iff)
  have "m \<notin> set SITE_SETTING_NAMES \<Longrightarrow>
      in_step p (saveSiteSetting origin m v raw) origin (store_set [(m, Some v)] st) \<longleftrightarrow>
      map_get (loadEffectiveSettings p origin raw) m = Some v"
    using assms(3) old unsaved_site_setting [OF _ assms(3,4)]
    by (auto simp: in_step_def list_all_iff store_value_set1)
  then show ?thesis
    using live_settings_follow [OF assms, of v] storage_changed_site [OF assms(3,4,1), of p "Some v"]
    by (cases "m \<in> set SITE_SETTING_NAMES") auto
qed

definition example_platform :: platform where
  "example_platform = \<lparr>hasWebTransport = True, onChromium = False, onMv2 = False\<rparr>"

theorem settings_follow_storage_witness:
  "map_option (in_step example_platform (saveGlobalSetting ''useWorker'' (JBool False) []) ''https://a'')
     (map_get (storageChanged example_platform (globalSettingKey ''useWorker'', Some (JBool False))
        [(''https://a'', createSettingsStore (GLOBAL_DEFAULTS example_platform))]) ''https://a'') = Some True"
proof -
  have "in_step example_platform [] ''https://a'' (createSettingsStore (GLOBAL_DEFAULTS example_platform))"
    by code_simp
  moreover have "''useWorker'' \<in> set SETTING_NAMES" "''useWorker'' \<in> set SITE_SETTING_NAMES" by code_simp+
  ultimately show ?thesis
    using settings_follow_storage [of "[(''https://a'', createSettingsStore (GLOBAL_DEFAULTS example_platform))]"
        "''https://a''" _ example_platform "[]" "''useWorker''" "JBool False"] by simp
qed

text \<open>C32: However many starts of the background attempt the migration of a legacy storage, and whichever of
  their calls of the browser or puts into the database fail, the local storage is as it was, or every
  setting of every site is already worth what it was: the site's own value, else the global one, else
  the default.  (A removal of the legacy keys, or the note of the version, that fails comes after the
  patch was written.)  An attempt that ends leaves every setting its worth, and after one that ended no
  further one changes the storage or puts anything.\<close>

theorem migration_keeps_settings:
  assumes "map_wf all" "list_all legacy_entry all" "map_get all VERSION_KEY = None"
    and "n \<in> set SETTING_NAMES" "CHR '' '' \<notin> set origin" "origin \<noteq> []"
  shows "let l = migration_attempts attempts all;
             worth = (\<lambda>l. map_get (loadEffectiveSettings p origin l) n = legacy_effective p origin all n);
             m = ensureStorageSchemaVersion takes calls l;
             m' = ensureStorageSchemaVersion takes' calls' (mg_local m)
         in (l = all \<or> worth l)
            \<and> (if mg_ok m then worth (mg_local m) \<and> mg_local m' = mg_local m \<and> mg_puts m' = [] else True)"
proof -
  define l where "l = migration_attempts attempts all"
  define m where "m = ensureStorageSchemaVersion takes calls l"
  have l: "migrating all l" unfolding l_def by (rule migrating_attempts [OF assms(1-3)])
  have m: "migrating all (mg_local m)" unfolding m_def by (rule migrating_step [OF assms(1-3) l])
  obtain site siteKeys where s: "migrateSiteEntries all = Some (site, siteKeys)"
    using legacy_sites [OF assms(2)] by auto
  note worth = patch_worth [OF s assms(1,2) _ assms(4-6)]
  have "l = all \<or> map_get (loadEffectiveSettings p origin l) n = legacy_effective p origin all n"
    using l worth by (auto simp: migrating_def)
  moreover have "map_get (loadEffectiveSettings p origin (mg_local m)) n = legacy_effective p origin all n
      \<and> mg_local (ensureStorageSchemaVersion takes' calls' (mg_local m)) = mg_local m
      \<and> mg_puts (ensureStorageSchemaVersion takes' calls' (mg_local m)) = []" if "mg_ok m"
  proof -
    have v: "map_get (mg_local m) VERSION_KEY = Some STORAGE_SCHEMA_VERSION" using migration_ends that by (simp add: m_def)
    with assms(3) have "mg_local m \<noteq> all" by auto
    with m worth migrated_stays [OF v] show ?thesis by (auto simp: migrating_def)
  qed
  ultimately show ?thesis by (simp add: Let_def l_def [symmetric] m_def [symmetric])
qed

definition all_calls :: storage_calls where
  "all_calls = \<lparr>sc_get_version = True, sc_get_all = True, sc_open_db = True, sc_set = True, sc_remove = True, sc_set_version = True\<rparr>"

text \<open>The first start cannot remove the legacy keys, the second one migrates.\<close>

theorem migration_keeps_settings_witness:
  "map_get (loadEffectiveSettings example_platform ''https://a''
     (mg_local (ensureStorageSchemaVersion (\<lambda>_. True) all_calls
        (migration_attempts [(\<lambda>_. True, all_calls\<lparr>sc_remove := False\<rparr>)]
          [(''site:https://a'', JObj [(''useWorker'', JBool False)]), (''useWorker'', JBool True), (''https%3A//b'', JArr [JNum 7])]))))
     ''useWorker'' = Some (JBool False)"
proof -
  let ?l = "[(''site:https://a'', JObj [(''useWorker'', JBool False)]), (''useWorker'', JBool True), (''https%3A//b'', JArr [JNum 7])]"
  let ?a = "[(\<lambda>_. True, all_calls\<lparr>sc_remove := False\<rparr>)]"
  have "map_wf ?l" "list_all legacy_entry ?l" "map_get ?l VERSION_KEY = None" "''useWorker'' \<in> set SETTING_NAMES"
    "mg_ok (ensureStorageSchemaVersion (\<lambda>_. True) all_calls (migration_attempts ?a ?l))"
    "legacy_effective example_platform ''https://a'' ?l ''useWorker'' = Some (JBool False)"
    by code_simp+
  then show ?thesis
    using migration_keeps_settings [of ?l "''useWorker''" "''https://a''" ?a example_platform "\<lambda>_. True" all_calls "\<lambda>_. True" all_calls]
    by (simp add: Let_def)
qed

text \<open>A removal that is rejected leaves a changed storage behind a migration that failed.\<close>

lemma failed_removal_changes_storage:
  "let l = [(''useWorker'', JBool True)]; m = ensureStorageSchemaVersion (\<lambda>_. True) (all_calls\<lparr>sc_remove := False\<rparr>) l
   in \<not> mg_ok m \<and> mg_local m = l @ [(globalSettingKey ''useWorker'', JBool True)]"
  by code_simp

text \<open>Whatever is loaded, changed and refreshed, the host the Native Messaging client is told is the
  one that the settings of the background name, for every change of the setting.\<close>

theorem nm_host_follows_setting:
  "(let b = fold (settings_step p) events (initial_live p) in bk_nm_host b = nmHostName (bk_settings b))"
proof -
  have "host_follows (initial_live p)"
    by (simp add: host_follows_def initial_live_def store_on_def createSettingsStore_def set_add_def
        nmHostName_def store_value_def GLOBAL_DEFAULTS_def)
  then have "host_follows (fold (settings_step p) events (initial_live p))"
    by (induction events arbitrary: p rule: rev_induct) (auto intro: host_follows_step)
  then show ?thesis by (simp add: host_follows_def Let_def)
qed

text \<open>Two refreshes that overlap: the first one reads the storage before a site is switched off and
  answers after the second has cleared the set, and the site stays in it.\<close>

lemma overlapping_refresh_keeps_removed_site:
  "bk_polyfill (fold (settings_step example_platform)
     [RefreshStart, RefreshStart,
      RefreshRead [(siteSettingKey ''https://a'' ''workerPolyfillEnabled'', JBool True)],
      RefreshRead [(siteSettingKey ''https://a'' ''workerPolyfillEnabled'', JBool False)]]
     (initial_live example_platform)) = [''https://a'']"
  by code_simp

end
