(* ===== verification/Plane_Spawn.thy ===== *)
theory Plane_Spawn
  imports Data_Planes Requests
begin

text \<open>
  How the bridge brings a data plane up and down (\<open>content/isolated/bridge.js\<close>): \<open>spawnDataPlane\<close> and
  the workers or in-page planes it asks the page for, \<open>despawnDataPlane\<close>, the fallback to Native
  Messaging, the recovery of a plane that was lost, and the switch of all planes when a setting
  changes. The maps of the code are only touched at the key of the plane at hand, so the model is that
  of one plane, with its generations and waits in \<open>Data_Planes\<close> and the requests over the shared runtime
  port in \<open>Data_Requests\<close>. The ports of the page take what is posted; the loads of settings do not fail.
\<close>

section \<open>State\<close>

datatype plane_setting = UseNm | UseWs | UseWt | OtherPlane

datatype spawn_mode = ShadowMode | BlobMode | NmMode

text \<open>Who waits for the generation a spawn or a fallback returns: nobody, an open, or a wait for a
  plane whose deadline passed.\<close>

datatype plane_caller = Nobody | OpenCaller nat | WaitCaller nat

text \<open>What goes on when \<open>despawnDataPlane\<close> returned.\<close>

datatype after_despawn =
    DespawnDone
  | ThenRecover
  | ThenFallback plane_caller
  | ThenRejected plane_caller
  | ThenGone plane_caller
  | ThenApply plane_setting
  | ThenApplyRejected

text \<open>The calls that wait: for the answer to a \<open>terminate\<close>, for the hash of the token, for the mode of the
  spawn, for the text of the bundle, for the worker or the in-page plane of the page, for the
  background. \<open>wt\<close>: over WebTransport; \<open>rewire\<close>: the page is told to wire its port.\<close>

datatype spawn_task =
    Terminating bool after_despawn
  | StaleTerminating nat bool bool plane_caller
  | Hashing nat bool bool plane_caller
  | ModeWait nat bool bool plane_caller
  | BundleWait nat bool bool plane_caller
  | Spawning nat bool bool plane_caller
  | InPageHashing nat bool plane_caller
  | InPageWait nat bool plane_caller
  | SettingPlane nat bool plane_caller
  | ApplyWait plane_setting
  | ApplySetting

datatype plane_post =
    AskSpawn nat spawn_mode
  | AskTerminate nat
  | StopProxy nat
  | AskConnect nat
  | AskDisconnect "nat option"
  | ConnectWorker nat bool
  | WirePort nat
  | PlaneUnavailable nat
  | PostSetDataPlane plane_setting
  | EnsureRuntimePort
  | MaybeDisconnectRuntimePort
  | ClosePort nat
  | DropReports

text \<open>\<open>sp_running\<close> are the workers the page said run and was not told to terminate.\<close>

record spawner =
  sp_planes :: planes
  sp_worker :: "(bool \<times> nat) option"     \<comment> \<open>\<open>workers\<close>: ready or spawning, generation\<close>
  sp_record :: "nat option"              \<comment> \<open>\<open>workerGenerations\<close>\<close>
  sp_workerReady :: bool
  sp_inPage :: bool
  sp_params :: "bool option"             \<comment> \<open>\<open>connectParams\<close>: over WebTransport\<close>
  sp_transport :: "bool option"          \<comment> \<open>\<open>deviceTransports\<close>\<close>
  sp_nm :: bool
  sp_ports :: "nat list"
  sp_tasks :: "(nat, spawn_task) js_map"
  sp_next :: nat
  sp_opens :: nat
  sp_answered :: "(nat \<times> nat option) list"
  sp_alive :: bool
  sp_client :: bool
  sp_useWorker :: bool
  sp_dataPlane :: plane_setting
  sp_wtPort :: bool
  sp_running :: "nat list"
  sp_posts :: "plane_post list"

definition initial_spawner :: spawner where
  "initial_spawner =
     \<lparr>sp_planes = initial_planes, sp_worker = None, sp_record = None, sp_workerReady = False,
      sp_inPage = False, sp_params = None, sp_transport = None, sp_nm = False, sp_ports = [],
      sp_tasks = [], sp_next = 0, sp_opens = 0, sp_answered = [], sp_alive = True, sp_client = True,
      sp_useWorker = True, sp_dataPlane = UseWs, sp_wtPort = False, sp_running = [], sp_posts = []\<rparr>"

definition plane_gen :: "string \<Rightarrow> spawner \<Rightarrow> nat option" where
  "plane_gen k s = map_get (pl_spawnGen (sp_planes s)) k"

definition on_planes :: "(planes \<Rightarrow> planes) \<Rightarrow> spawner \<Rightarrow> spawner" where
  "on_planes f s = s\<lparr>sp_planes := f (sp_planes s)\<rparr>"

definition plane_post :: "plane_post \<Rightarrow> spawner \<Rightarrow> spawner" where
  "plane_post x s = s\<lparr>sp_posts := sp_posts s @ [x]\<rparr>"

definition add_task :: "spawn_task \<Rightarrow> spawner \<Rightarrow> spawner" where
  "add_task t s = s\<lparr>sp_tasks := sp_tasks s @ [(sp_next s, t)], sp_next := sp_next s + 1\<rparr>"

text \<open>The frame context of the plane is registered and has its client.\<close>

definition client_there :: "spawner \<Rightarrow> bool" where
  "client_there s \<longleftrightarrow> sp_alive s \<and> sp_client s"

definition notifyPlaneUnavailable :: "string \<Rightarrow> nat option \<Rightarrow> spawner \<Rightarrow> spawner" where
  "notifyPlaneUnavailable k generation s =
     (case generation of
        Some g \<Rightarrow> if plane_gen k s = Some g \<and> client_there s then plane_post (PlaneUnavailable g) s else s
      | None \<Rightarrow> s)"

definition mark_authoritative :: "string \<Rightarrow> nat \<Rightarrow> spawner \<Rightarrow> spawner" where
  "mark_authoritative k g s = on_planes (markPlanePrerequisite (client_there s) k g Authoritative) s"

text \<open>A worker is told to end: \<open>requestMainWorldSpawn\<close> with the mode \<open>terminate\<close>.\<close>

definition ask_terminate :: "nat \<Rightarrow> spawner \<Rightarrow> spawner" where
  "ask_terminate g s = plane_post (AskTerminate g) (s\<lparr>sp_running := removeAll g (sp_running s)\<rparr>)"

text \<open>The entry of the worker is removed; a proxy is told to stop.\<close>

definition drop_worker :: "spawner \<Rightarrow> spawner" where
  "drop_worker s =
     (let s1 = s\<lparr>sp_worker := None, sp_workerReady := False, sp_record := None\<rparr>
      in case sp_worker s of Some (True, g) \<Rightarrow> plane_post (StopProxy g) s1 | _ \<Rightarrow> s1)"

definition worker_generation :: "spawner \<Rightarrow> nat option" where
  "worker_generation s = (case sp_worker s of Some (_, g) \<Rightarrow> Some g | None \<Rightarrow> sp_record s)"

section \<open>Falling back and spawning\<close>

text \<open>The promise of an async function is fulfilled with a generation, or with \<open>null\<close>.\<close>

definition return_to :: "plane_caller \<Rightarrow> nat option \<Rightarrow> spawner \<Rightarrow> spawner" where
  "return_to caller result s =
     (case caller of
        Nobody \<Rightarrow> s
      | OpenCaller p \<Rightarrow> s\<lparr>sp_answered := sp_answered s @ [(p, result)]\<rparr>
      | WaitCaller p \<Rightarrow> on_planes (fallbackReturned (sp_alive s) p result) s)"

text \<open>\<open>fallbackToNm\<close> from its second check on; without \<open>retire\<close> the first check is the same.\<close>

definition fallbackToNm :: "string \<Rightarrow> nat option \<Rightarrow> bool \<Rightarrow> plane_caller \<Rightarrow> spawner \<Rightarrow> spawner" where
  "fallbackToNm k generation rewire caller s =
     (case generation of
        Some g \<Rightarrow>
          if sp_alive s \<and> plane_gen k s = Some g
          then add_task (SettingPlane g rewire caller)
                 (plane_post (PostSetDataPlane UseNm) (plane_post EnsureRuntimePort s))
          else return_to caller None s
      | None \<Rightarrow> return_to caller None s)"

text \<open>The end of \<open>spawnDataPlane\<close>.\<close>

definition spawn_failed :: "string \<Rightarrow> nat \<Rightarrow> bool \<Rightarrow> plane_caller \<Rightarrow> spawner \<Rightarrow> spawner" where
  "spawn_failed k gen rewire caller s =
     (if plane_gen k s = Some gen then fallbackToNm k (Some gen) rewire caller s
      else return_to caller (Some gen) s)"

definition spawn_succeeded :: "nat \<Rightarrow> bool \<Rightarrow> plane_caller \<Rightarrow> spawner \<Rightarrow> spawner" where
  "spawn_succeeded gen rewire caller s =
     return_to caller (Some gen) (if rewire then plane_post (WirePort gen) s else s)"

text \<open>\<open>spawnWorker\<close> up to its first await.\<close>

definition spawnWorker :: "nat \<Rightarrow> bool \<Rightarrow> bool \<Rightarrow> plane_caller \<Rightarrow> spawner \<Rightarrow> spawner" where
  "spawnWorker gen wt rewire caller s =
     (if \<exists>r. sp_worker s = Some (r, gen) then spawn_succeeded gen rewire caller s
      else case worker_generation s of
        None \<Rightarrow> add_task (Hashing gen wt rewire caller) s
      | Some old \<Rightarrow>
          add_task (StaleTerminating gen wt rewire caller)
            (ask_terminate old ((drop_worker s)\<lparr>sp_params := None\<rparr>)))"

definition spawnDataPlane :: "string \<Rightarrow> bool \<Rightarrow> bool \<Rightarrow> plane_caller \<Rightarrow> spawner \<Rightarrow> spawner" where
  "spawnDataPlane k wt rewire caller s =
     (let s1 = on_planes (beginPlaneGeneration k) s;
          gen = the (plane_gen k s1)
      in if \<not> sp_useWorker s1 \<and> wt then add_task (InPageHashing gen rewire caller) s1
         else spawnWorker gen wt rewire caller s1)"

text \<open>\<open>recoverDataPlane\<close> behind its await.\<close>

definition recover_rest :: "string \<Rightarrow> spawner \<Rightarrow> spawner" where
  "recover_rest k s =
     (if \<not> sp_alive s then s
      else case sp_dataPlane s of
        UseNm \<Rightarrow> fallbackToNm k (plane_gen k s) True Nobody s
      | UseWt \<Rightarrow> spawnDataPlane k (sp_wtPort s) True Nobody s
      | UseWs \<Rightarrow> spawnDataPlane k False True Nobody s
      | OtherPlane \<Rightarrow> fallbackToNm k (plane_gen k s) True Nobody s)"

section \<open>Bringing a plane down\<close>

definition after_despawn :: "string \<Rightarrow> after_despawn \<Rightarrow> spawner \<Rightarrow> spawner" where
  "after_despawn k next s =
     (case next of
        DespawnDone \<Rightarrow> s
      | ThenRecover \<Rightarrow> recover_rest k s
      | ThenFallback caller \<Rightarrow> fallbackToNm k (plane_gen k s) True caller s
      | ThenRejected caller \<Rightarrow> return_to caller None (notifyPlaneUnavailable k (plane_gen k s) s)
      | ThenGone caller \<Rightarrow> return_to caller None s
      | ThenApply dp \<Rightarrow> add_task (ApplyWait dp) s
      | ThenApplyRejected \<Rightarrow> notifyPlaneUnavailable k (plane_gen k s) s)"

primrec in_page_wait :: "spawn_task \<Rightarrow> (nat \<times> bool \<times> plane_caller) option" where
  "in_page_wait (InPageWait g rewire caller) = Some (g, rewire, caller)"
| "in_page_wait (Terminating a b) = None"
| "in_page_wait (StaleTerminating a b c d) = None"
| "in_page_wait (Hashing a b c d) = None"
| "in_page_wait (ModeWait a b c d) = None"
| "in_page_wait (BundleWait a b c d) = None"
| "in_page_wait (Spawning a b c d) = None"
| "in_page_wait (InPageHashing a b c) = None"
| "in_page_wait (SettingPlane a b c) = None"
| "in_page_wait (ApplyWait a) = None"
| "in_page_wait ApplySetting = None"

text \<open>\<open>despawnDataPlane\<close> behind its await. The in-page planes that are waited for are given up; the calls
  that wait for them run on after the caller of \<open>despawnDataPlane\<close> did.\<close>

definition despawn_rest :: "string \<Rightarrow> bool \<Rightarrow> after_despawn \<Rightarrow> spawner \<Rightarrow> spawner" where
  "despawn_rest k keepPort next s =
     (let given_up = List.map_filter (in_page_wait \<circ> snd) (sp_tasks s);
          s1 = (if keepPort then s
                else fold (\<lambda>p. plane_post (ClosePort p)) (sp_ports s) (s\<lparr>sp_ports := []\<rparr>));
          s2 = plane_post DropReports
                 (s1\<lparr>sp_tasks := filter (\<lambda>(_, t). in_page_wait t = None) (sp_tasks s1),
                     sp_params := None, sp_transport := None, sp_nm := False\<rparr>);
          s3 = plane_post MaybeDisconnectRuntimePort (on_planes (forgetReadiness k) s2)
      in fold (\<lambda>(g, rewire, caller). spawn_failed k g rewire caller) given_up (after_despawn k next s3))"

definition despawnDataPlane :: "string \<Rightarrow> bool \<Rightarrow> bool \<Rightarrow> after_despawn \<Rightarrow> spawner \<Rightarrow> spawner" where
  "despawnDataPlane k keepPort notifyUnavailable next s =
     (let g = plane_gen k s;
          s1 = (if notifyUnavailable then notifyPlaneUnavailable k g s else s);
          s2 = on_planes (beginPlaneGeneration k) s1;
          s3 = (if sp_inPage s2 then plane_post (AskDisconnect g) (s2\<lparr>sp_inPage := False\<rparr>) else s2);
          s4 = drop_worker s3
      in case worker_generation s3 of
           None \<Rightarrow> despawn_rest k keepPort next s4
         | Some w \<Rightarrow> add_task (Terminating keepPort next) (ask_terminate w s4))"
section \<open>What the calls wait for\<close>

text \<open>\<open>resolveSpawnMode\<close>: the mode cached for the origin, or what the settings and the policy of the frame
  say; \<open>info\<close>: whether the policy needs a fallback and whether its header blocks the shadow URL, \<open>None\<close>
  where there is no record or the question failed.\<close>

definition resolveSpawnMode ::
    "spawn_mode option \<Rightarrow> bool \<Rightarrow> bool \<Rightarrow> string \<Rightarrow> string option \<Rightarrow> (bool \<times> bool) option \<Rightarrow> spawn_mode" where
  "resolveSpawnMode cached isChromium mv2 setting site info =
     (case cached of
        Some mode \<Rightarrow> mode
      | None \<Rightarrow>
          if isChromium then BlobMode
          else
            let mode = (case site of Some m \<Rightarrow> m | None \<Rightarrow> setting)
            in if mode = ''blob'' then BlobMode
               else case info of
                 Some (True, headerShadowBlocked) \<Rightarrow>
                   if mode = ''shadow'' \<or> \<not> mv2 \<and> headerShadowBlocked then NmMode else BlobMode
               | _ \<Rightarrow> ShadowMode)"

datatype plane_answer =
    TerminateDone
  | HashIs bool
  | ModeIs spawn_mode
  | BundleIs bool
  | SpawnAnswer bool
  | InPageAnswer bool
  | InPageTimeout
  | SetPlaneAnswer bool
  | LoopGoesOn bool

definition end_task :: "nat \<Rightarrow> spawner \<Rightarrow> spawner" where
  "end_task n s = s\<lparr>sp_tasks := map_delete (sp_tasks s) n\<rparr>"

text \<open>A worker of the page runs; if the plane was given a new generation meanwhile it is ended.\<close>

definition worker_spawned :: "string \<Rightarrow> nat \<Rightarrow> bool \<Rightarrow> bool \<Rightarrow> plane_caller \<Rightarrow> spawner \<Rightarrow> spawner" where
  "worker_spawned k gen wt rewire caller s =
     (let s1 = s\<lparr>sp_running := sp_running s @ [gen]\<rparr>
      in if plane_gen k s1 \<noteq> Some gen then spawn_failed k gen rewire caller (ask_terminate gen s1)
         else spawn_succeeded gen rewire caller
                (s1\<lparr>sp_worker := Some (False, gen), sp_transport := Some wt, sp_params := Some wt,
                    sp_record := Some gen\<rparr>))"

text \<open>\<open>setDataPlane\<close> was answered to \<open>fallbackToNm\<close>.\<close>

definition plane_set :: "string \<Rightarrow> nat \<Rightarrow> bool \<Rightarrow> plane_caller \<Rightarrow> bool \<Rightarrow> spawner \<Rightarrow> spawner" where
  "plane_set k g rewire caller ok s =
     (if \<not> ok then
        if plane_gen k s = Some g then despawnDataPlane k False False (ThenRejected caller) s
        else return_to caller None s
      else if \<not> sp_alive s \<or> plane_gen k s \<noteq> Some g then
        if plane_gen k s = Some g then despawnDataPlane k False False (ThenGone caller) s
        else return_to caller None s
      else
        let s1 = mark_authoritative k g (s\<lparr>sp_nm := True, sp_transport := None\<rparr>)
        in return_to caller (Some g) (if rewire then plane_post (WirePort g) s1 else s1))"

text \<open>\<open>applyDataPlane\<close>, at the plane, after all planes were brought down; \<open>session\<close>: the client still has
  its session (\<open>respawnPlanesForMode\<close> looks again).\<close>

definition apply_rest :: "string \<Rightarrow> plane_setting \<Rightarrow> bool \<Rightarrow> spawner \<Rightarrow> spawner" where
  "apply_rest k dp session s =
     (if dp = UseNm then add_task ApplySetting (plane_post (PostSetDataPlane UseNm) s)
      else plane_post (PostSetDataPlane dp)
             (if dp = OtherPlane \<or> \<not> session \<or> \<not> sp_alive s then s
              else spawnDataPlane k (dp = UseWt \<and> sp_wtPort s) True Nobody s))"

definition apply_set :: "string \<Rightarrow> bool \<Rightarrow> spawner \<Rightarrow> spawner" where
  "apply_set k ok s =
     (if \<not> ok then despawnDataPlane k False False ThenApplyRejected s
      else
        let g = the (plane_gen k s)
        in plane_post (WirePort g)
             (mark_authoritative k g ((plane_post EnsureRuntimePort s)\<lparr>sp_nm := True\<rparr>)))"

text \<open>The calls of the page: a worker is asked for with the text of the bundle or without, an in-page plane
  once the token is hashed; and what comes back of an in-page plane, or nothing in ten seconds.\<close>

definition attemptWorkerSpawn :: "nat \<Rightarrow> bool \<Rightarrow> bool \<Rightarrow> plane_caller \<Rightarrow> spawn_mode \<Rightarrow> spawner \<Rightarrow> spawner" where
  "attemptWorkerSpawn g wt rewire caller mode s =
     (if mode = BlobMode then add_task (BundleWait g wt rewire caller) s
      else add_task (Spawning g wt rewire caller) (plane_post (AskSpawn g ShadowMode) s))"

definition bundle_fetched :: "string \<Rightarrow> nat \<Rightarrow> bool \<Rightarrow> bool \<Rightarrow> plane_caller \<Rightarrow> bool \<Rightarrow> spawner \<Rightarrow> spawner" where
  "bundle_fetched k g wt rewire caller fetched s =
     (if fetched then add_task (Spawning g wt rewire caller) (plane_post (AskSpawn g BlobMode) s)
      else spawn_failed k g rewire caller s)"

definition spawnInPageDataPlane :: "string \<Rightarrow> nat \<Rightarrow> bool \<Rightarrow> plane_caller \<Rightarrow> bool \<Rightarrow> spawner \<Rightarrow> spawner" where
  "spawnInPageDataPlane k g rewire caller hashed s =
     (if \<not> hashed then spawn_failed k g rewire caller s
      else add_task (InPageWait g rewire caller) (plane_post (AskConnect g) (s\<lparr>sp_inPage := True\<rparr>)))"

definition in_page_timeout :: "string \<Rightarrow> nat \<Rightarrow> bool \<Rightarrow> plane_caller \<Rightarrow> spawner \<Rightarrow> spawner" where
  "in_page_timeout k g rewire caller s = spawn_failed k g rewire caller (s\<lparr>sp_inPage := False\<rparr>)"

definition handlePlaneResponse :: "string \<Rightarrow> nat \<Rightarrow> bool \<Rightarrow> plane_caller \<Rightarrow> bool \<Rightarrow> spawner \<Rightarrow> spawner" where
  "handlePlaneResponse k g rewire caller ok s =
     (if ok then return_to caller (Some g) (on_planes (markPlaneReady (client_there s) k g) s)
      else spawn_failed k g rewire caller s)"

declare attemptWorkerSpawn_def [simp] bundle_fetched_def [simp] spawnInPageDataPlane_def [simp]
  in_page_timeout_def [simp] handlePlaneResponse_def [simp]

primrec resume_task :: "string \<Rightarrow> spawn_task \<Rightarrow> plane_answer \<Rightarrow> spawner \<Rightarrow> spawner" where
  "resume_task k (Terminating keepPort next) a s = despawn_rest k keepPort next s"
| "resume_task k (StaleTerminating g wt rw c) a s = add_task (Hashing g wt rw c) s"
| "resume_task k (Hashing g wt rw c) a s =
     (if a = HashIs True then add_task (ModeWait g wt rw c) s else spawn_failed k g rw c s)"
| "resume_task k (ModeWait g wt rw c) a s =
     (if a = ModeIs ShadowMode then attemptWorkerSpawn g wt rw c ShadowMode s
      else if a = ModeIs BlobMode then attemptWorkerSpawn g wt rw c BlobMode s
      else spawn_failed k g rw c s)"
| "resume_task k (BundleWait g wt rw c) a s = bundle_fetched k g wt rw c (a = BundleIs True) s"
| "resume_task k (Spawning g wt rw c) a s =
     (if a = SpawnAnswer True then worker_spawned k g wt rw c s else spawn_failed k g rw c s)"
| "resume_task k (InPageHashing g rw c) a s = spawnInPageDataPlane k g rw c (a = HashIs True) s"
| "resume_task k (InPageWait g rw c) a s =
     (if a = InPageTimeout then in_page_timeout k g rw c s
      else handlePlaneResponse k g rw c (a = InPageAnswer True) s)"
| "resume_task k (SettingPlane g rw c) a s = plane_set k g rw c (a = SetPlaneAnswer True) s"
| "resume_task k (ApplyWait dp) a s = apply_rest k dp (a = LoopGoesOn True) s"
| "resume_task k ApplySetting a s = apply_set k (a = SetPlaneAnswer True) s"

text \<open>Whether an answer is one the task waits for.\<close>

primrec answers :: "spawn_task \<Rightarrow> plane_answer \<Rightarrow> bool" where
  "answers (Terminating _ _) a \<longleftrightarrow> a = TerminateDone"
| "answers (StaleTerminating _ _ _ _) a \<longleftrightarrow> a = TerminateDone"
| "answers (Hashing _ _ _ _) a \<longleftrightarrow> a \<in> {HashIs True, HashIs False}"
| "answers (ModeWait _ _ _ _) a \<longleftrightarrow> a \<in> {ModeIs ShadowMode, ModeIs BlobMode, ModeIs NmMode}"
| "answers (BundleWait _ _ _ _) a \<longleftrightarrow> a \<in> {BundleIs True, BundleIs False}"
| "answers (Spawning _ _ _ _) a \<longleftrightarrow> a \<in> {SpawnAnswer True, SpawnAnswer False}"
| "answers (InPageHashing _ _ _) a \<longleftrightarrow> a \<in> {HashIs True, HashIs False}"
| "answers (InPageWait _ _ _) a \<longleftrightarrow> a \<in> {InPageAnswer True, InPageAnswer False} \<or> a = InPageTimeout"
| "answers (SettingPlane _ _ _) a \<longleftrightarrow> a \<in> {SetPlaneAnswer True, SetPlaneAnswer False}"
| "answers (ApplyWait _) a \<longleftrightarrow> a \<in> {LoopGoesOn True, LoopGoesOn False}"
| "answers ApplySetting a \<longleftrightarrow> a \<in> {SetPlaneAnswer True, SetPlaneAnswer False}"

definition resume :: "string \<Rightarrow> nat \<Rightarrow> plane_answer \<Rightarrow> spawner \<Rightarrow> spawner" where
  "resume k n a s =
     (case map_get (sp_tasks s) n of
        None \<Rightarrow> s
      | Some t \<Rightarrow> if answers t a then resume_task k t a (end_task n s) else s)"

section \<open>Events\<close>

text \<open>The part of \<open>handleOpenSuccess\<close> about the plane.\<close>

definition open_plane :: "string \<Rightarrow> spawner \<Rightarrow> spawner" where
  "open_plane k s0 =
     (let p = sp_opens s0; s = s0\<lparr>sp_opens := p + 1\<rparr>
      in if sp_dataPlane s = UseNm \<or> sp_nm s
         then let s1 = on_planes (beginPlaneGeneration k) s; g = the (plane_gen k s1)
              in return_to (OpenCaller p) (Some g)
                   (mark_authoritative k g (plane_post EnsureRuntimePort (s1\<lparr>sp_nm := True\<rparr>)))
         else case sp_dataPlane s of
           UseWs \<Rightarrow> spawnDataPlane k False False (OpenCaller p) s
         | UseWt \<Rightarrow> spawnDataPlane k (sp_wtPort s) False (OpenCaller p) s
         | _ \<Rightarrow> return_to (OpenCaller p) None s)"

text \<open>\<open>handleWorkerErrorEvent\<close> and \<open>recoverDataPlane\<close> up to its await; \<open>token\<close>: the client has a session.\<close>

definition worker_error :: "string \<Rightarrow> nat option \<Rightarrow> bool \<Rightarrow> spawner \<Rightarrow> spawner" where
  "worker_error k signal token s =
     (if \<not> client_there s then s
      else if signal \<noteq> None \<and> plane_gen k s \<noteq> signal then s
      else if \<not> token then despawnDataPlane k False False DespawnDone s
      else despawnDataPlane k False True ThenRecover s)"

definition plane_event_closed :: "string \<Rightarrow> nat \<Rightarrow> bool \<Rightarrow> spawner \<Rightarrow> spawner" where
  "plane_event_closed k g token s =
     (if \<not> client_there s \<or> plane_gen k s \<noteq> Some g then s
      else worker_error k (Some g) token (s\<lparr>sp_inPage := False\<rparr>))"

text \<open>\<open>handleDataPortRequest\<close> of a client that passed its checks: the port of the worker, or one of the
  page over Native Messaging.\<close>

definition data_port :: "string \<Rightarrow> nat \<Rightarrow> nat \<Rightarrow> spawner \<Rightarrow> spawner" where
  "data_port k g port s =
     (if plane_gen k s \<noteq> Some g then plane_post (ClosePort port) s
      else if \<exists>r. sp_worker s = Some (r, g) then
        (case sp_params s of
           Some wt \<Rightarrow> plane_post (ConnectWorker g wt) (s\<lparr>sp_worker := Some (True, g), sp_params := None\<rparr>)
         | None \<Rightarrow> s\<lparr>sp_worker := Some (True, g)\<rparr>)
      else on_planes (markPlanePrerequisite (client_there s) k g Local)
             (s\<lparr>sp_ports := set_add (sp_ports s) port\<rparr>))"

definition proxy_ready :: "string \<Rightarrow> nat \<Rightarrow> spawner \<Rightarrow> spawner" where
  "proxy_ready k g s = on_planes (markPlaneReady (client_there s) k g) (s\<lparr>sp_workerReady := True\<rparr>)"

text \<open>The proxy of a worker says that its transport was refused or is gone.\<close>

definition proxy_lost :: "string \<Rightarrow> nat \<Rightarrow> bool \<Rightarrow> spawner \<Rightarrow> spawner" where
  "proxy_lost k g token s =
     (if sp_worker s = Some (True, g) then worker_error k (Some g) token s else s)"

text \<open>The deadline of a wait of \<open>waitForPlaneReady\<close>, and its fallback with \<open>retire\<close>.\<close>

definition wait_deadline :: "string \<Rightarrow> nat \<Rightarrow> spawner \<Rightarrow> spawner" where
  "wait_deadline k p s =
     (let s1 = on_planes (waitTimedOut p) s
      in if map_get (pl_recovering (sp_planes s)) p = None \<and> map_get (pl_recovering (sp_planes s1)) p \<noteq> None
         then despawnDataPlane k False True (ThenFallback (WaitCaller p)) s1
         else s1)"

datatype spawner_event =
    OpenPlane
  | ClosePlane
  | WorkerError "nat option" bool
  | PlaneEventClosed nat bool
  | DataPort nat nat
  | ProxyReady nat
  | ProxyLost nat bool
  | AwaitReady nat
  | AwaitDeadline nat
  | ApplyDataPlane plane_setting
  | Answered nat plane_answer
  | FrameGone
  | ClientGone
  | SettingsNow bool plane_setting bool

fun spawner_step :: "string \<Rightarrow> spawner_event \<Rightarrow> spawner \<Rightarrow> spawner" where
  "spawner_step k OpenPlane s = open_plane k s"
| "spawner_step k ClosePlane s = despawnDataPlane k False False DespawnDone s"
| "spawner_step k (WorkerError signal token) s = worker_error k signal token s"
| "spawner_step k (PlaneEventClosed g token) s = plane_event_closed k g token s"
| "spawner_step k (DataPort g port) s = data_port k g port s"
| "spawner_step k (ProxyReady g) s = proxy_ready k g s"
| "spawner_step k (ProxyLost g token) s = proxy_lost k g token s"
| "spawner_step k (AwaitReady g) s = on_planes (waitForPlaneReady (sp_alive s) k g) s"
| "spawner_step k (AwaitDeadline p) s = wait_deadline k p s"
| "spawner_step k (ApplyDataPlane dp) s = despawnDataPlane k True True (ThenApply dp) s"
| "spawner_step k (Answered n a) s = resume k n a s"
| "spawner_step k FrameGone s = s\<lparr>sp_alive := False\<rparr>"
| "spawner_step k ClientGone s = s\<lparr>sp_client := False\<rparr>"
| "spawner_step k (SettingsNow useWorker dp wt) s =
     s\<lparr>sp_useWorker := useWorker, sp_dataPlane := dp, sp_wtPort := wt\<rparr>"

definition spawner_run :: "string \<Rightarrow> spawner_event list \<Rightarrow> spawner" where
  "spawner_run k es = fold (spawner_step k) es initial_spawner"
section \<open>The invariant\<close>

text \<open>The opens a task answers for, and the worker it is about to have; \<open>next_opens\<close> of what follows a
  \<open>despawnDataPlane\<close>.\<close>

primrec caller_opens :: "plane_caller \<Rightarrow> nat multiset" where
  "caller_opens Nobody = {#}"
| "caller_opens (OpenCaller p) = {#p#}"
| "caller_opens (WaitCaller p) = {#}"

primrec next_opens :: "after_despawn \<Rightarrow> nat multiset" where
  "next_opens DespawnDone = {#}"
| "next_opens ThenRecover = {#}"
| "next_opens (ThenFallback c) = caller_opens c"
| "next_opens (ThenRejected c) = caller_opens c"
| "next_opens (ThenGone c) = caller_opens c"
| "next_opens (ThenApply dp) = {#}"
| "next_opens ThenApplyRejected = {#}"

primrec task_opens :: "spawn_task \<Rightarrow> nat multiset" where
  "task_opens (Terminating kp next) = next_opens next"
| "task_opens (StaleTerminating g wt rw c) = caller_opens c"
| "task_opens (Hashing g wt rw c) = caller_opens c"
| "task_opens (ModeWait g wt rw c) = caller_opens c"
| "task_opens (BundleWait g wt rw c) = caller_opens c"
| "task_opens (Spawning g wt rw c) = caller_opens c"
| "task_opens (InPageHashing g rw c) = caller_opens c"
| "task_opens (InPageWait g rw c) = caller_opens c"
| "task_opens (SettingPlane g rw c) = caller_opens c"
| "task_opens (ApplyWait dp) = {#}"
| "task_opens ApplySetting = {#}"

primrec task_worker :: "spawn_task \<Rightarrow> nat multiset" where
  "task_worker (Terminating kp next) = {#}"
| "task_worker (StaleTerminating g wt rw c) = {#g#}"
| "task_worker (Hashing g wt rw c) = {#g#}"
| "task_worker (ModeWait g wt rw c) = {#g#}"
| "task_worker (BundleWait g wt rw c) = {#g#}"
| "task_worker (Spawning g wt rw c) = {#g#}"
| "task_worker (InPageHashing g rw c) = {#}"
| "task_worker (InPageWait g rw c) = {#}"
| "task_worker (SettingPlane g rw c) = {#}"
| "task_worker (ApplyWait dp) = {#}"
| "task_worker ApplySetting = {#}"

definition tasks_of :: "spawner \<Rightarrow> spawn_task list" where
  "tasks_of s = map snd (sp_tasks s)"

definition waiting_opens :: "spawner \<Rightarrow> nat multiset" where
  "waiting_opens s = sum_list (map task_opens (tasks_of s))"

definition coming_workers :: "spawner \<Rightarrow> nat multiset" where
  "coming_workers s = sum_list (map task_worker (tasks_of s))"

definition gen_num :: "string \<Rightarrow> spawner \<Rightarrow> nat" where
  "gen_num k s = (case plane_gen k s of None \<Rightarrow> 0 | Some g \<Rightarrow> g)"

definition planes_reached :: "spawner \<Rightarrow> bool" where
  "planes_reached s \<longleftrightarrow> (\<exists>es. sp_planes s = fold plane_step es initial_planes)"

definition opens_inv :: "nat multiset \<Rightarrow> spawner \<Rightarrow> bool" where
  "opens_inv H s \<longleftrightarrow> waiting_opens s + mset (map fst (sp_answered s)) + H = mset [0..<sp_opens s]"

text \<open>The workers: the one that has an entry is the only one that runs; the ones to come are of distinct
  generations that were begun, and older than the entry.\<close>

definition workers_ok :: "nat multiset \<Rightarrow> nat \<Rightarrow> (bool \<times> nat) option \<Rightarrow> nat option \<Rightarrow> nat list \<Rightarrow> bool" where
  "workers_ok W cur worker rec running \<longleftrightarrow>
     (case worker of
        None \<Rightarrow> rec = None \<and> running = []
      | Some (_, e) \<Rightarrow> rec = Some e \<and> set running \<subseteq> {e} \<and> e \<le> cur \<and> (\<forall>g \<in># W. g < e))
     \<and> (\<forall>g. count W g \<le> 1)
     \<and> (\<forall>g \<in># W. g \<le> cur)"

definition workers_inv :: "string \<Rightarrow> nat multiset \<Rightarrow> spawner \<Rightarrow> bool" where
  "workers_inv k G s \<longleftrightarrow>
     workers_ok (coming_workers s + G) (gen_num k s) (sp_worker s) (sp_record s) (sp_running s)"

definition ids_inv :: "spawner \<Rightarrow> bool" where
  "ids_inv s \<longleftrightarrow> map_wf (sp_tasks s) \<and> (\<forall>n \<in> set (map_keys (sp_tasks s)). n < sp_next s)"

text \<open>The invariant with the opens \<open>H\<close> and the coming workers \<open>G\<close> of the call that runs.\<close>

definition spawner_inv :: "string \<Rightarrow> nat multiset \<Rightarrow> nat multiset \<Rightarrow> spawner \<Rightarrow> bool" where
  "spawner_inv k H G s \<longleftrightarrow> planes_reached s \<and> ids_inv s \<and> opens_inv H s \<and> workers_inv k G s"

lemma spawner_inv_cong:
  assumes "sp_planes s' = sp_planes s" "sp_tasks s' = sp_tasks s" "sp_next s' = sp_next s"
    and "sp_answered s' = sp_answered s" "sp_opens s' = sp_opens s" "sp_worker s' = sp_worker s"
    and "sp_record s' = sp_record s" "sp_running s' = sp_running s"
  shows "spawner_inv k H G s' = spawner_inv k H G s"
proof -
  have "waiting_opens s' = waiting_opens s" "coming_workers s' = coming_workers s" "gen_num k s' = gen_num k s"
    using assms by (simp_all add: waiting_opens_def coming_workers_def tasks_of_def gen_num_def plane_gen_def)
  then show ?thesis
    using assms unfolding spawner_inv_def planes_reached_def ids_inv_def opens_inv_def workers_inv_def by simp
qed

lemma spawner_inv_update [simp]:
  "spawner_inv k H G (s\<lparr>sp_workerReady := a\<rparr>) = spawner_inv k H G s"
  "spawner_inv k H G (s\<lparr>sp_inPage := a\<rparr>) = spawner_inv k H G s"
  "spawner_inv k H G (s\<lparr>sp_params := b\<rparr>) = spawner_inv k H G s"
  "spawner_inv k H G (s\<lparr>sp_transport := b\<rparr>) = spawner_inv k H G s"
  "spawner_inv k H G (s\<lparr>sp_nm := a\<rparr>) = spawner_inv k H G s"
  "spawner_inv k H G (s\<lparr>sp_ports := c\<rparr>) = spawner_inv k H G s"
  "spawner_inv k H G (s\<lparr>sp_alive := a\<rparr>) = spawner_inv k H G s"
  "spawner_inv k H G (s\<lparr>sp_client := a\<rparr>) = spawner_inv k H G s"
  "spawner_inv k H G (s\<lparr>sp_useWorker := a\<rparr>) = spawner_inv k H G s"
  "spawner_inv k H G (s\<lparr>sp_dataPlane := d\<rparr>) = spawner_inv k H G s"
  "spawner_inv k H G (s\<lparr>sp_wtPort := a\<rparr>) = spawner_inv k H G s"
  "spawner_inv k H G (s\<lparr>sp_posts := e\<rparr>) = spawner_inv k H G s"
  "spawner_inv k H G (plane_post x s) = spawner_inv k H G s"
  by (rule spawner_inv_cong; simp add: plane_post_def)+

lemma spawner_inv_notify [simp]:
  "spawner_inv k H G (notifyPlaneUnavailable k' g s) = spawner_inv k H G s"
  by (simp add: notifyPlaneUnavailable_def split: option.split)

text \<open>Operations on the planes that begin no generation.\<close>

lemma spawnGen_kept [simp]:
  "pl_spawnGen (plane_note x p) = pl_spawnGen p"
  "pl_spawnGen (resolve_pending k' w r p) = pl_spawnGen p"
  "pl_spawnGen (notifyPlaneReady ex k' g p) = pl_spawnGen p"
  by (simp_all add: plane_note_def resolve_pending_def notifyPlaneReady_def)

lemma spawnGen_mark [simp]: "pl_spawnGen (markPlanePrerequisite ex k' g q p) = pl_spawnGen p"
  by (simp add: markPlanePrerequisite_def Let_def split: option.split)

lemma spawnGen_wait [simp]: "pl_spawnGen (wait_ready al k' g n p) = pl_spawnGen p"
  by (simp add: wait_ready_def)

lemma spawnGen_step: "(\<forall>k'. e \<noteq> Begin k') \<Longrightarrow> pl_spawnGen (plane_step e p) = pl_spawnGen p"
  by (cases e) (auto simp: markPlaneReady_def forgetReadiness_def waitForPlaneReady_def waitTimedOut_def
      fallbackReturned_def Let_def split: option.split prod.split)

lemma planes_reached_step: "planes_reached s \<Longrightarrow> planes_reached (on_planes (plane_step e) s)"
proof -
  assume "planes_reached s"
  then obtain es where "sp_planes s = fold plane_step es initial_planes" by (auto simp: planes_reached_def)
  then have "sp_planes (on_planes (plane_step e) s) = fold plane_step (es @ [e]) initial_planes"
    by (simp add: on_planes_def)
  then show ?thesis unfolding planes_reached_def by blast
qed

lemma on_planes_fields [simp]:
  "sp_worker (on_planes f s) = sp_worker s" "sp_record (on_planes f s) = sp_record s"
  "sp_running (on_planes f s) = sp_running s" "sp_tasks (on_planes f s) = sp_tasks s"
  "sp_next (on_planes f s) = sp_next s" "sp_answered (on_planes f s) = sp_answered s"
  "sp_opens (on_planes f s) = sp_opens s" "sp_alive (on_planes f s) = sp_alive s"
  "sp_useWorker (on_planes f s) = sp_useWorker s" "sp_inPage (on_planes f s) = sp_inPage s"
  by (simp_all add: on_planes_def)

lemma spawner_inv_plane_step:
  assumes "spawner_inv k H G s" "\<forall>k'. e \<noteq> Begin k'"
  shows "spawner_inv k H G (on_planes (plane_step e) s)"
proof -
  let ?s = "on_planes (plane_step e) s"
  have "plane_gen k ?s = plane_gen k s"
    by (simp add: plane_gen_def on_planes_def spawnGen_step [OF assms(2)])
  then have "waiting_opens ?s = waiting_opens s" "coming_workers ?s = coming_workers s" "gen_num k ?s = gen_num k s"
    by (simp_all add: waiting_opens_def coming_workers_def tasks_of_def gen_num_def)
  moreover have "planes_reached ?s" using planes_reached_step [of s e] assms(1) by (simp add: spawner_inv_def)
  ultimately show ?thesis
    using assms(1) unfolding spawner_inv_def ids_inv_def opens_inv_def workers_inv_def by simp
qed

lemma spawner_inv_planes:
  assumes "spawner_inv k H G s"
  shows "spawner_inv k H G (mark_authoritative k' g s)"
    and "spawner_inv k H G (on_planes (markPlanePrerequisite ex k' g q) s)"
    and "spawner_inv k H G (on_planes (markPlaneReady ex k' g) s)"
    and "spawner_inv k H G (on_planes (forgetReadiness k') s)"
    and "spawner_inv k H G (on_planes (waitForPlaneReady al k' g) s)"
    and "spawner_inv k H G (on_planes (waitTimedOut n) s)"
    and "spawner_inv k H G (on_planes (fallbackReturned al n r) s)"
  using spawner_inv_plane_step [OF assms, of "Mark ex k' g q"]
    spawner_inv_plane_step [OF assms, of "Mark (client_there s) k' g Authoritative"]
    spawner_inv_plane_step [OF assms, of "MarkReady ex k' g"] spawner_inv_plane_step [OF assms, of "Forget k'"]
    spawner_inv_plane_step [OF assms, of "Wait al k' g"] spawner_inv_plane_step [OF assms, of "WaitDeadline n"]
    spawner_inv_plane_step [OF assms, of "FallbackReturned al n r"]
  by (simp_all add: on_planes_def mark_authoritative_def)

text \<open>A new generation.\<close>

lemma plane_gen_begin:
  "plane_gen k (on_planes (beginPlaneGeneration k) s) = Some (gen_num k s + 1)"
  by (simp add: plane_gen_def on_planes_def beginPlaneGeneration_def gen_num_def Let_def js_map_simps
      split: option.split)

lemma spawner_inv_begin:
  assumes "spawner_inv k H G s"
  shows "spawner_inv k H G (on_planes (beginPlaneGeneration k) s)"
proof -
  let ?s = "on_planes (beginPlaneGeneration k) s"
  have n: "gen_num k ?s = gen_num k s + 1"
    by (simp add: gen_num_def [of k ?s] plane_gen_begin)
  have same: "waiting_opens ?s = waiting_opens s" "coming_workers ?s = coming_workers s"
    by (simp_all add: waiting_opens_def coming_workers_def tasks_of_def)
  have "workers_inv k G ?s"
    using assms unfolding spawner_inv_def workers_inv_def n same workers_ok_def on_planes_fields
    by (fastforce split: option.splits)
  moreover have "planes_reached ?s"
    using planes_reached_step [of s "Begin k"] assms by (simp add: spawner_inv_def on_planes_def)
  ultimately show ?thesis
    using assms same unfolding spawner_inv_def ids_inv_def opens_inv_def by simp
qed
text \<open>Tasks that are added and taken.\<close>

lemma tasks_of_add [simp]: "tasks_of (add_task t s) = tasks_of s @ [t]"
  by (simp add: tasks_of_def add_task_def)

lemma add_task_fields [simp]:
  "sp_planes (add_task t s) = sp_planes s" "sp_answered (add_task t s) = sp_answered s"
  "sp_opens (add_task t s) = sp_opens s" "sp_worker (add_task t s) = sp_worker s"
  "sp_record (add_task t s) = sp_record s" "sp_running (add_task t s) = sp_running s"
  by (simp_all add: add_task_def)

lemma plane_gen_add_task [simp]: "plane_gen k (add_task t s) = plane_gen k s"
  by (simp add: plane_gen_def)

lemma spawner_inv_add_task:
  assumes "spawner_inv k (H + task_opens t) (G + task_worker t) s"
  shows "spawner_inv k H G (add_task t s)"
proof -
  let ?s = "add_task t s"
  have eq: "waiting_opens ?s = waiting_opens s + task_opens t" "coming_workers ?s = coming_workers s + task_worker t"
    "gen_num k ?s = gen_num k s"
    by (simp_all add: waiting_opens_def coming_workers_def gen_num_def)
  have "ids_inv ?s"
    using assms by (fastforce simp: spawner_inv_def ids_inv_def add_task_def)
  moreover have "opens_inv H ?s"
    using assms unfolding spawner_inv_def opens_inv_def eq by (simp add: ac_simps)
  moreover have "workers_inv k G ?s"
    using assms unfolding spawner_inv_def workers_inv_def eq by (simp add: ac_simps)
  ultimately show ?thesis
    using assms unfolding spawner_inv_def by (simp add: planes_reached_def)
qed

lemma sum_list_map_mset: "sum_list (map f xs) = sum_mset (image_mset f (mset xs))" for f :: "'a \<Rightarrow> 'b multiset"
  by (induction xs) auto

lemma spawner_inv_end_task:
  assumes "spawner_inv k H G s" "map_get (sp_tasks s) n = Some t"
  shows "spawner_inv k (H + task_opens t) (G + task_worker t) (end_task n s)"
proof -
  let ?s = "end_task n s"
  have wf: "map_wf (sp_tasks s)" using assms(1) by (simp add: spawner_inv_def ids_inv_def)
  have m: "mset (tasks_of s) = add_mset t (mset (tasks_of ?s))"
    using mset_map_delete [OF wf assms(2)] by (simp add: tasks_of_def end_task_def)
  have eq: "waiting_opens s = waiting_opens ?s + task_opens t" "coming_workers s = coming_workers ?s + task_worker t"
    "gen_num k ?s = gen_num k s"
    by (simp_all add: waiting_opens_def coming_workers_def sum_list_map_mset m gen_num_def plane_gen_def end_task_def)
  have "ids_inv ?s"
    using assms(1) map_wf_delete [OF wf, of n] keys_map_delete [of n "sp_tasks s"]
    unfolding spawner_inv_def ids_inv_def by (simp add: end_task_def) blast
  moreover have "opens_inv (H + task_opens t) ?s"
    using assms(1) unfolding spawner_inv_def opens_inv_def eq by (simp add: end_task_def ac_simps)
  moreover have "workers_inv k (G + task_worker t) ?s"
  proof -
    have "sp_worker ?s = sp_worker s" "sp_record ?s = sp_record s" "sp_running ?s = sp_running s"
      by (simp_all add: end_task_def)
    then show ?thesis
      using assms(1) unfolding spawner_inv_def workers_inv_def eq by (simp add: ac_simps)
  qed
  ultimately show ?thesis
    using assms(1) unfolding spawner_inv_def by (simp add: planes_reached_def end_task_def)
qed

lemma spawner_inv_forget_worker: "spawner_inv k H (G + G') s \<Longrightarrow> spawner_inv k H G s"
  unfolding spawner_inv_def workers_inv_def workers_ok_def
  by (auto split: option.splits) (metis add_leD1 group_cancel.add1)+

section \<open>Every operation keeps it\<close>

lemma spawner_inv_return:
  assumes "spawner_inv k (H + caller_opens c) G s"
  shows "spawner_inv k H G (return_to c r s)"
proof (cases c)
  case (OpenCaller p)
  let ?s = "s\<lparr>sp_answered := sp_answered s @ [(p, r)]\<rparr>"
  have "waiting_opens ?s = waiting_opens s" "coming_workers ?s = coming_workers s" "gen_num k ?s = gen_num k s"
    by (simp_all add: waiting_opens_def coming_workers_def tasks_of_def gen_num_def plane_gen_def)
  then have "spawner_inv k H G ?s"
    using assms OpenCaller unfolding spawner_inv_def ids_inv_def opens_inv_def workers_inv_def planes_reached_def
    by simp
  then show ?thesis by (simp add: return_to_def OpenCaller)
qed (use assms in \<open>simp_all add: return_to_def spawner_inv_planes\<close>)

lemma spawner_inv_fallback:
  assumes "spawner_inv k (H + caller_opens c) G s"
  shows "spawner_inv k H G (fallbackToNm k g rw c s)"
proof -
  have "spawner_inv k H G (add_task (SettingPlane g' rw c) s')" if "spawner_inv k (H + caller_opens c) G s'" for g' s'
    by (rule spawner_inv_add_task) (use that in simp)
  then show ?thesis
    using assms spawner_inv_return [OF assms, of None] by (simp add: fallbackToNm_def split: option.split)
qed

lemma spawner_inv_spawn_failed:
  "spawner_inv k (H + caller_opens c) G s \<Longrightarrow> spawner_inv k H G (spawn_failed k g rw c s)"
  by (simp add: spawn_failed_def spawner_inv_fallback spawner_inv_return)

lemma spawner_inv_spawn_succeeded:
  "spawner_inv k (H + caller_opens c) G s \<Longrightarrow> spawner_inv k H G (spawn_succeeded g rw c s)"
  by (simp add: spawn_succeeded_def spawner_inv_return)

text \<open>Without its entry, the worker of the plane is told to end.\<close>

lemma drop_worker_fields [simp]:
  "sp_planes (drop_worker s) = sp_planes s" "sp_tasks (drop_worker s) = sp_tasks s"
  "sp_next (drop_worker s) = sp_next s" "sp_answered (drop_worker s) = sp_answered s"
  "sp_opens (drop_worker s) = sp_opens s" "sp_running (drop_worker s) = sp_running s"
  "sp_worker (drop_worker s) = None" "sp_record (drop_worker s) = None"
  by (simp_all add: drop_worker_def plane_post_def Let_def split: option.split prod.split bool.split)

lemma spawner_inv_drop_worker:
  assumes "spawner_inv k H G s"
  shows "case worker_generation s of
      None \<Rightarrow> spawner_inv k H G (drop_worker s)
    | Some w \<Rightarrow> spawner_inv k H G (ask_terminate w (drop_worker s))"
proof -
  have eq: "waiting_opens (drop_worker s) = waiting_opens s" "coming_workers (drop_worker s) = coming_workers s"
    "gen_num k (drop_worker s) = gen_num k s"
    by (simp_all add: waiting_opens_def coming_workers_def tasks_of_def gen_num_def plane_gen_def)
  have eq': "waiting_opens (ask_terminate w (drop_worker s)) = waiting_opens s"
    "coming_workers (ask_terminate w (drop_worker s)) = coming_workers s"
    "gen_num k (ask_terminate w (drop_worker s)) = gen_num k s"
    "sp_planes (ask_terminate w (drop_worker s)) = sp_planes s" "sp_tasks (ask_terminate w (drop_worker s)) = sp_tasks s"
    "sp_next (ask_terminate w (drop_worker s)) = sp_next s" "sp_answered (ask_terminate w (drop_worker s)) = sp_answered s"
    "sp_opens (ask_terminate w (drop_worker s)) = sp_opens s" "sp_worker (ask_terminate w (drop_worker s)) = None"
    "sp_record (ask_terminate w (drop_worker s)) = None"
    "sp_running (ask_terminate w (drop_worker s)) = removeAll w (sp_running s)" for w
    by (simp_all add: ask_terminate_def plane_post_def waiting_opens_def coming_workers_def tasks_of_def gen_num_def
        plane_gen_def)
  have none: "removeAll w (sp_running s) = []" if "worker_generation s = Some w" for w
  proof -
    have "set (sp_running s) \<subseteq> {w}"
      using assms that by (auto simp: spawner_inv_def workers_inv_def workers_ok_def worker_generation_def split: option.splits)
    then show ?thesis by (metis Diff_eq_empty_iff set_empty set_removeAll)
  qed
  show ?thesis
  proof (cases "worker_generation s")
    case None
    then have "sp_running s = []"
      using assms by (auto simp: spawner_inv_def workers_inv_def workers_ok_def worker_generation_def split: option.splits)
    then show ?thesis
      using assms None unfolding spawner_inv_def ids_inv_def opens_inv_def workers_inv_def planes_reached_def
      by (auto simp: eq workers_ok_def split: option.splits)
  next
    case (Some w)
    then show ?thesis
      using assms none [OF Some]
      unfolding spawner_inv_def ids_inv_def opens_inv_def workers_inv_def planes_reached_def
      by (auto simp: eq' workers_ok_def split: option.splits)
  qed
qed

lemma spawner_inv_new_worker:
  assumes "spawner_inv k H G s" "sp_worker s = None" "gen \<notin># coming_workers s + G" "gen \<le> gen_num k s"
  shows "spawner_inv k H (G + {#gen#}) s"
  using assms unfolding spawner_inv_def workers_inv_def workers_ok_def
  by (auto simp: le_Suc_eq not_in_iff)

lemma spawner_inv_spawnWorker:
  assumes "spawner_inv k (H + caller_opens c) G s" "\<nexists>r. sp_worker s = Some (r, gen)"
    and gen: "gen \<notin># coming_workers s + G" "gen \<le> gen_num k s"
  shows "spawner_inv k H G (spawnWorker gen wt rw c s)"
proof (cases "worker_generation s")
  case None
  have "sp_worker s = None" using None by (auto simp: worker_generation_def split: option.splits)
  then have "spawner_inv k (H + caller_opens c) (G + {#gen#}) s"
    by (intro spawner_inv_new_worker assms)
  then show ?thesis using assms(2) None by (auto simp: spawnWorker_def intro!: spawner_inv_add_task)
next
  case (Some w)
  let ?s = "(ask_terminate w (drop_worker s))\<lparr>sp_params := None\<rparr>"
  have "spawner_inv k (H + caller_opens c) G ?s"
    using spawner_inv_drop_worker [OF assms(1)] Some by simp
  moreover have "sp_worker ?s = None" "coming_workers ?s = coming_workers s" "gen_num k ?s = gen_num k s"
    by (simp_all add: ask_terminate_def plane_post_def coming_workers_def tasks_of_def gen_num_def plane_gen_def)
  ultimately have "spawner_inv k (H + caller_opens c) (G + {#gen#}) ?s"
    using gen by (intro spawner_inv_new_worker) simp_all
  moreover have "ask_terminate w ((drop_worker s)\<lparr>sp_params := None\<rparr>) = ?s"
    by (simp add: ask_terminate_def plane_post_def)
  ultimately show ?thesis
    using assms(2) Some by (auto simp: spawnWorker_def intro!: spawner_inv_add_task simp del: spawner_inv_update)
qed

text \<open>A fresh generation is newer than all others.\<close>

lemma spawner_inv_spawnDataPlane:
  assumes "spawner_inv k (H + caller_opens c) G s"
  shows "spawner_inv k H G (spawnDataPlane k wt rw c s)"
proof -
  let ?b = "on_planes (beginPlaneGeneration k) s"
  have b: "spawner_inv k (H + caller_opens c) G ?b" by (rule spawner_inv_begin [OF assms])
  have gen: "plane_gen k ?b = Some (gen_num k s + 1)" by (rule plane_gen_begin)
  have old: "\<forall>g \<in># coming_workers s + G. g \<le> gen_num k s" "\<nexists>r. sp_worker s = Some (r, gen_num k s + 1)"
    using assms by (auto simp: spawner_inv_def workers_inv_def workers_ok_def split: option.splits)
  have "gen_num k s + 1 \<notin># coming_workers s + G" using old(1) by force
  then have "spawner_inv k H G (spawnWorker (gen_num k s + 1) wt rw c ?b)"
    using old(2) gen
    by (intro spawner_inv_spawnWorker b) (simp_all add: coming_workers_def tasks_of_def gen_num_def [of k ?b])
  moreover have "spawner_inv k H G (add_task (InPageHashing g rw c) ?b)" for g
    by (rule spawner_inv_add_task) (use b in simp)
  ultimately show ?thesis by (simp add: spawnDataPlane_def gen Let_def)
qed

lemma spawner_inv_recover: "spawner_inv k H G s \<Longrightarrow> spawner_inv k H G (recover_rest k s)"
  by (auto simp: recover_rest_def intro!: spawner_inv_fallback spawner_inv_spawnDataPlane split: plane_setting.split)

lemma spawner_inv_after_despawn:
  assumes "spawner_inv k (H + next_opens next) G s"
  shows "spawner_inv k H G (after_despawn k next s)"
  using assms
  by (cases "next") (auto simp: after_despawn_def
      intro!: spawner_inv_recover spawner_inv_fallback spawner_inv_return spawner_inv_add_task)

definition given_up_opens :: "(nat \<times> bool \<times> plane_caller) list \<Rightarrow> nat multiset" where
  "given_up_opens xs = sum_list (map (\<lambda>(g, rw, c). caller_opens c) xs)"

lemma spawner_inv_given_up:
  "spawner_inv k (H + given_up_opens xs) G s \<Longrightarrow>
   spawner_inv k H G (fold (\<lambda>(g, rw, c). spawn_failed k g rw c) xs s)"
proof (induction xs arbitrary: s)
  case (Cons x xs)
  obtain g rw c where x: "x = (g, rw, c)" by (cases x)
  have "spawner_inv k ((H + given_up_opens xs) + caller_opens c) G s"
    using Cons.prems by (simp add: x given_up_opens_def ac_simps)
  then show ?case using Cons.IH [OF spawner_inv_spawn_failed] by (simp add: x)
qed (simp add: given_up_opens_def)

lemma given_up_opens_Cons: "given_up_opens (x # xs) = caller_opens (snd (snd x)) + given_up_opens xs"
  by (simp add: given_up_opens_def case_prod_beta)

text \<open>Taking the in-page planes that are waited for.\<close>

lemma take_in_page_opens:
  "sum_list (map task_opens (map snd ts)) =
     sum_list (map task_opens (map snd (filter (\<lambda>(_, t). in_page_wait t = None) ts)))
     + given_up_opens (List.map_filter (in_page_wait \<circ> snd) ts)"
proof (induction ts)
  case (Cons e ts)
  show ?case
  proof (cases "in_page_wait (snd e)")
    case None
    then show ?thesis using Cons.IH by (simp add: List.map_filter_simps case_prod_beta)
  next
    case (Some x)
    have "task_opens (snd e) = caller_opens (snd (snd x))" using Some by (cases "snd e") auto
    then show ?thesis
      using Some Cons.IH by (simp add: List.map_filter_simps given_up_opens_Cons union_lcomm case_prod_beta)
  qed
qed (simp add: given_up_opens_def List.map_filter_simps)

lemma take_in_page_workers:
  "sum_list (map task_worker (map snd (filter (\<lambda>(_, t). in_page_wait t = None) ts))) =
     sum_list (map task_worker (map snd ts))"
proof (induction ts)
  case (Cons e ts)
  then show ?case by (cases "snd e") (auto simp: case_prod_beta)
qed simp

lemma spawner_inv_take_in_page:
  assumes "spawner_inv k H G s"
  shows "spawner_inv k (H + given_up_opens (List.map_filter (in_page_wait \<circ> snd) (sp_tasks s))) G
           (s\<lparr>sp_tasks := filter (\<lambda>(_, t). in_page_wait t = None) (sp_tasks s)\<rparr>)"
proof -
  let ?s = "s\<lparr>sp_tasks := filter (\<lambda>(_, t). in_page_wait t = None) (sp_tasks s)\<rparr>"
  let ?x = "List.map_filter (in_page_wait \<circ> snd) (sp_tasks s)"
  have o: "waiting_opens s = waiting_opens ?s + given_up_opens ?x"
    using take_in_page_opens [of "sp_tasks s"] by (simp add: waiting_opens_def tasks_of_def)
  have w: "coming_workers ?s = coming_workers s"
    using take_in_page_workers [of "sp_tasks s"] by (simp add: coming_workers_def tasks_of_def)
  have n: "gen_num k ?s = gen_num k s" by (simp add: gen_num_def plane_gen_def)
  have "ids_inv ?s"
    using assms map_wf_filter [of "sp_tasks s" "\<lambda>(_, t). in_page_wait t = None"]
    by (auto simp: spawner_inv_def ids_inv_def)
  moreover have "opens_inv (H + given_up_opens ?x) ?s"
    using assms unfolding spawner_inv_def opens_inv_def o by (simp add: ac_simps)
  ultimately show ?thesis
    using assms unfolding spawner_inv_def workers_inv_def planes_reached_def w n by simp
qed

lemma fold_plane_post [simp]:
  "spawner_inv k H G (fold (\<lambda>p. plane_post (f p)) ps s) = spawner_inv k H G s"
  "sp_tasks (fold (\<lambda>p. plane_post (f p)) ps s) = sp_tasks s"
  by (induction ps arbitrary: s) (auto simp: plane_post_def)

lemma spawner_inv_despawn_rest:
  assumes "spawner_inv k (H + next_opens next) G s"
  shows "spawner_inv k H G (despawn_rest k keepPort next s)"
proof -
  define s1 where "s1 = (if keepPort then s
      else fold (\<lambda>p. plane_post (ClosePort p)) (sp_ports s) (s\<lparr>sp_ports := []\<rparr>))"
  let ?x = "List.map_filter (in_page_wait \<circ> snd) (sp_tasks s)"
  have t: "sp_tasks s1 = sp_tasks s" by (simp add: s1_def)
  have "spawner_inv k (H + next_opens next) G s1" using assms by (simp add: s1_def)
  then have "spawner_inv k ((H + next_opens next) + given_up_opens ?x) G
      (s1\<lparr>sp_tasks := filter (\<lambda>(_, t). in_page_wait t = None) (sp_tasks s1)\<rparr>)"
    using spawner_inv_take_in_page [of k _ G s1] t by metis
  then have "spawner_inv k ((H + given_up_opens ?x) + next_opens next) G
      (plane_post MaybeDisconnectRuntimePort (on_planes (forgetReadiness k) (plane_post DropReports
        (s1\<lparr>sp_tasks := filter (\<lambda>(_, t). in_page_wait t = None) (sp_tasks s1),
            sp_params := None, sp_transport := None, sp_nm := False\<rparr>))))"
    by (simp add: spawner_inv_planes ac_simps)
  then show ?thesis
    unfolding despawn_rest_def Let_def s1_def [symmetric]
    by (intro spawner_inv_given_up spawner_inv_after_despawn)
qed

lemma spawner_inv_despawn:
  assumes "spawner_inv k (H + next_opens next) G s"
  shows "spawner_inv k H G (despawnDataPlane k keepPort un next s)"
proof -
  define s3 where "s3 = (let s2 = on_planes (beginPlaneGeneration k)
        (if un then notifyPlaneUnavailable k (plane_gen k s) s else s)
      in if sp_inPage s2 then plane_post (AskDisconnect (plane_gen k s)) (s2\<lparr>sp_inPage := False\<rparr>) else s2)"
  have "spawner_inv k (H + next_opens next) G s3"
    using assms by (simp add: s3_def Let_def spawner_inv_begin)
  note d = spawner_inv_drop_worker [OF this]
  have "despawnDataPlane k keepPort un next s =
      (case worker_generation s3 of
         None \<Rightarrow> despawn_rest k keepPort next (drop_worker s3)
       | Some w \<Rightarrow> add_task (Terminating keepPort next) (ask_terminate w (drop_worker s3)))"
    unfolding despawnDataPlane_def s3_def Let_def ..
  then show ?thesis
    using d by (auto intro!: spawner_inv_despawn_rest spawner_inv_add_task split: option.splits)
qed
lemma spawner_inv_worker_spawned:
  assumes "spawner_inv k (H + caller_opens c) (G + {#gen#}) s"
  shows "spawner_inv k H G (worker_spawned k gen wt rw c s)"
proof (cases "plane_gen k s = Some gen")
  case False
  let ?s = "ask_terminate gen (s\<lparr>sp_running := sp_running s @ [gen]\<rparr>)"
  have eq: "waiting_opens ?s = waiting_opens s" "coming_workers ?s = coming_workers s" "gen_num k ?s = gen_num k s"
    "sp_planes ?s = sp_planes s" "sp_tasks ?s = sp_tasks s" "sp_next ?s = sp_next s" "sp_answered ?s = sp_answered s"
    "sp_opens ?s = sp_opens s" "sp_worker ?s = sp_worker s" "sp_record ?s = sp_record s"
    "set (sp_running ?s) \<subseteq> set (sp_running s)"
    by (auto simp: ask_terminate_def plane_post_def waiting_opens_def coming_workers_def tasks_of_def gen_num_def
        plane_gen_def)
  have "workers_ok (coming_workers s + (G + {#gen#})) (gen_num k s) (sp_worker s) (sp_record s) (sp_running ?s)"
    using assms eq(11) unfolding spawner_inv_def workers_inv_def workers_ok_def by (fastforce split: option.splits)
  then have "spawner_inv k (H + caller_opens c) (G + {#gen#}) ?s"
    using assms unfolding spawner_inv_def ids_inv_def opens_inv_def workers_inv_def planes_reached_def eq by blast
  then have "spawner_inv k (H + caller_opens c) G ?s" by (rule spawner_inv_forget_worker)
  with False show ?thesis
    by (simp add: worker_spawned_def plane_gen_def spawner_inv_spawn_failed)
next
  case True
  let ?s = "s\<lparr>sp_running := sp_running s @ [gen], sp_worker := Some (False, gen), sp_transport := Some wt,
    sp_params := Some wt, sp_record := Some gen\<rparr>"
  have num: "gen_num k s = gen" using True by (simp add: gen_num_def)
  have ok: "workers_ok (coming_workers s + (G + {#gen#})) gen (sp_worker s) (sp_record s) (sp_running s)"
    using assms num by (simp add: spawner_inv_def workers_inv_def)
  then have none: "sp_worker s = None" "sp_running s = []"
    by (auto simp: workers_ok_def split: option.splits)
  have cnt: "count (coming_workers s + G) g + (if g = gen then 1 else 0) \<le> 1"
    and le: "g \<in># coming_workers s + G \<Longrightarrow> g \<le> gen" for g
  proof -
    have "count (coming_workers s + (G + {#gen#})) g \<le> 1" using ok unfolding workers_ok_def by blast
    then show "count (coming_workers s + G) g + (if g = gen then 1 else 0) \<le> 1" by (cases "g = gen") auto
    show "g \<in># coming_workers s + G \<Longrightarrow> g \<le> gen" using ok unfolding workers_ok_def by auto
  qed
  have less: "g < gen" if "g \<in># coming_workers s + G" for g
  proof -
    have "count (coming_workers s + G) g > 0" using that by (simp only: count_greater_zero_iff)
    moreover have "g = gen \<Longrightarrow> count (coming_workers s + G) g + 1 \<le> 1" using cnt [of g] by (simp only: simp_thms if_True)
    ultimately have "g \<noteq> gen" by linarith
    then show ?thesis using le [OF that] by simp
  qed
  have "waiting_opens ?s = waiting_opens s" "coming_workers ?s = coming_workers s" "gen_num k ?s = gen"
    by (simp_all add: waiting_opens_def coming_workers_def tasks_of_def gen_num_def plane_gen_def True [unfolded plane_gen_def])
  moreover have "workers_ok (coming_workers s + G) gen (Some (False, gen)) (Some gen) [gen]"
    unfolding workers_ok_def
  proof (intro conjI allI ballI)
    show "count (coming_workers s + G) g \<le> 1" for g using cnt [of g] by (auto split: if_splits)
    show "case Some (False, gen) of None \<Rightarrow> Some gen = None \<and> [gen] = []
      | Some (_, e) \<Rightarrow> Some gen = Some e \<and> set [gen] \<subseteq> {e} \<and> e \<le> gen \<and> (\<forall>g \<in># coming_workers s + G. g < e)"
      using less by simp
  qed (use le in blast)
  ultimately have "spawner_inv k (H + caller_opens c) G ?s"
    using assms none unfolding spawner_inv_def ids_inv_def opens_inv_def workers_inv_def planes_reached_def by simp
  then show ?thesis
    using True by (simp add: worker_spawned_def plane_gen_def spawner_inv_spawn_succeeded)
qed

lemma spawner_inv_plane_set:
  "spawner_inv k (H + caller_opens c) G s \<Longrightarrow> spawner_inv k H G (plane_set k g rw c ok s)"
  by (auto simp: plane_set_def Let_def spawner_inv_planes
      intro!: spawner_inv_despawn spawner_inv_return)

lemma spawner_inv_apply_rest: "spawner_inv k H G s \<Longrightarrow> spawner_inv k H G (apply_rest k dp session s)"
  by (auto simp: apply_rest_def intro!: spawner_inv_add_task spawner_inv_spawnDataPlane)

lemma spawner_inv_apply_set: "spawner_inv k H G s \<Longrightarrow> spawner_inv k H G (apply_set k ok s)"
  by (auto simp: apply_set_def Let_def spawner_inv_planes intro!: spawner_inv_despawn)

lemma spawner_inv_resume_task:
  assumes "spawner_inv k (H + task_opens t) (G + task_worker t) s"
  shows "spawner_inv k H G (resume_task k t a s)"
proof -
  have weak: "spawner_inv k (H + task_opens t) G s" using assms by (rule spawner_inv_forget_worker)
  show ?thesis
    using assms weak
    by (cases t) (auto simp: spawner_inv_planes intro!: spawner_inv_despawn_rest spawner_inv_spawn_failed
        spawner_inv_worker_spawned spawner_inv_plane_set spawner_inv_apply_rest spawner_inv_apply_set
        spawner_inv_add_task spawner_inv_return)
qed

lemma spawner_inv_resume: "spawner_inv k H G s \<Longrightarrow> spawner_inv k H G (resume k n a s)"
  by (auto simp: resume_def intro!: spawner_inv_resume_task spawner_inv_end_task split: option.split)

lemma spawner_inv_open: "spawner_inv k {#} {#} s \<Longrightarrow> spawner_inv k {#} {#} (open_plane k s)"
proof -
  let ?p = "sp_opens s" and ?s = "s\<lparr>sp_opens := Suc (sp_opens s)\<rparr>"
  assume s: "spawner_inv k {#} {#} s"
  have eq: "waiting_opens ?s = waiting_opens s" "coming_workers ?s = coming_workers s" "gen_num k ?s = gen_num k s"
    by (simp_all add: waiting_opens_def coming_workers_def tasks_of_def gen_num_def plane_gen_def)
  have m: "mset [0..<Suc n] = add_mset n (mset [0..<n])" for n by simp
  have "spawner_inv k {#?p#} {#} ?s"
    using s unfolding spawner_inv_def ids_inv_def opens_inv_def workers_inv_def planes_reached_def
    by (simp add: eq m del: upt_Suc mset_upt)
  then have *: "spawner_inv k ({#} + caller_opens (OpenCaller ?p)) {#} ?s" by simp
  then have "spawner_inv k {#} {#} (return_to (OpenCaller ?p) (Some g)
      (mark_authoritative k g (plane_post EnsureRuntimePort ((on_planes (beginPlaneGeneration k) ?s)\<lparr>sp_nm := True\<rparr>))))" for g
    by (intro spawner_inv_return spawner_inv_planes) (simp add: spawner_inv_begin)
  with * show ?thesis
    by (auto simp: open_plane_def Let_def intro: spawner_inv_return spawner_inv_spawnDataPlane split: plane_setting.split)
qed

lemma spawner_inv_worker_error: "spawner_inv k H G s \<Longrightarrow> spawner_inv k H G (worker_error k sig token s)"
  by (auto simp: worker_error_def intro!: spawner_inv_despawn)

lemma spawner_inv_data_port:
  assumes "spawner_inv k H G s"
  shows "spawner_inv k H G (data_port k g port s)"
proof -
  have ready: "spawner_inv k H G (s\<lparr>sp_worker := Some (True, g)\<rparr>)" if "sp_worker s = Some (r, g)" for r
  proof -
    let ?s = "s\<lparr>sp_worker := Some (True, g)\<rparr>"
    have "waiting_opens ?s = waiting_opens s" "coming_workers ?s = coming_workers s" "gen_num k ?s = gen_num k s"
      by (simp_all add: waiting_opens_def coming_workers_def tasks_of_def gen_num_def plane_gen_def)
    then show ?thesis
      using assms that
      unfolding spawner_inv_def ids_inv_def opens_inv_def workers_inv_def planes_reached_def workers_ok_def
      by simp
  qed
  have "spawner_inv k H G (plane_post x (s\<lparr>sp_worker := Some (True, g), sp_params := None\<rparr>))"
    if "sp_worker s = Some (r, g)" for r x
    using ready [OF that] by simp
  with ready show ?thesis
    using assms by (auto simp: data_port_def spawner_inv_planes split: option.split)
qed

lemma spawner_inv_step:
  assumes "spawner_inv k {#} {#} s"
  shows "spawner_inv k {#} {#} (spawner_step k e s)"
proof (cases e)
  case (AwaitDeadline p)
  then show ?thesis
    using assms by (auto simp: wait_deadline_def Let_def spawner_inv_planes intro!: spawner_inv_despawn)
qed (use assms in \<open>auto simp: plane_event_closed_def proxy_ready_def proxy_lost_def spawner_inv_planes
    intro!: spawner_inv_open spawner_inv_despawn spawner_inv_worker_error spawner_inv_data_port spawner_inv_resume\<close>)

lemma spawner_run_inv: "spawner_inv k {#} {#} (spawner_run k es)"
proof -
  have "spawner_inv k {#} {#} initial_spawner"
    by (auto simp: spawner_inv_def planes_reached_def ids_inv_def opens_inv_def workers_inv_def workers_ok_def
        initial_spawner_def waiting_opens_def coming_workers_def tasks_of_def gen_num_def plane_gen_def
        initial_planes_def intro: exI [of _ "[]"])
  then show ?thesis
    unfolding spawner_run_def by (induction es rule: rev_induct) (simp_all add: spawner_inv_step)
qed
section \<open>How far an open is from its answer\<close>

text \<open>The answers an open may still have to wait for, at most: nine when it begins.\<close>

primrec next_rank :: "after_despawn \<Rightarrow> nat" where
  "next_rank DespawnDone = 1"
| "next_rank ThenRecover = 1"
| "next_rank (ThenFallback c) = 4"
| "next_rank (ThenRejected c) = 1"
| "next_rank (ThenGone c) = 1"
| "next_rank (ThenApply dp) = 1"
| "next_rank ThenApplyRejected = 1"

primrec spawn_rank :: "spawn_task \<Rightarrow> nat" where
  "spawn_rank (Terminating kp next) = next_rank next"
| "spawn_rank (StaleTerminating g wt rw c) = 9"
| "spawn_rank (Hashing g wt rw c) = 8"
| "spawn_rank (ModeWait g wt rw c) = 7"
| "spawn_rank (BundleWait g wt rw c) = 6"
| "spawn_rank (Spawning g wt rw c) = 5"
| "spawn_rank (InPageHashing g rw c) = 7"
| "spawn_rank (InPageWait g rw c) = 5"
| "spawn_rank (SettingPlane g rw c) = 3"
| "spawn_rank (ApplyWait dp) = 1"
| "spawn_rank ApplySetting = 1"

definition rank_in :: "nat \<Rightarrow> spawn_task \<Rightarrow> nat" where
  "rank_in p t = (if p \<in># task_opens t then spawn_rank t else 0)"

definition open_rank :: "nat \<Rightarrow> spawner \<Rightarrow> nat" where
  "open_rank p s = sum_list (map (rank_in p) (tasks_of s))"

definition caller_rank :: "nat \<Rightarrow> nat \<Rightarrow> plane_caller \<Rightarrow> nat" where
  "caller_rank p n c = (if p \<in># caller_opens c then n else 0)"

lemma open_rank_cong: "sp_tasks s' = sp_tasks s \<Longrightarrow> open_rank p s' = open_rank p s"
  by (simp add: open_rank_def tasks_of_def)

lemma open_rank_update [simp]:
  "open_rank p (s\<lparr>sp_worker := a1\<rparr>) = open_rank p s" "open_rank p (s\<lparr>sp_record := a2\<rparr>) = open_rank p s"
  "open_rank p (s\<lparr>sp_workerReady := a3\<rparr>) = open_rank p s" "open_rank p (s\<lparr>sp_inPage := a3\<rparr>) = open_rank p s"
  "open_rank p (s\<lparr>sp_params := a4\<rparr>) = open_rank p s" "open_rank p (s\<lparr>sp_transport := a4\<rparr>) = open_rank p s"
  "open_rank p (s\<lparr>sp_nm := a3\<rparr>) = open_rank p s" "open_rank p (s\<lparr>sp_ports := a5\<rparr>) = open_rank p s"
  "open_rank p (s\<lparr>sp_opens := a6\<rparr>) = open_rank p s" "open_rank p (s\<lparr>sp_answered := a7\<rparr>) = open_rank p s"
  "open_rank p (s\<lparr>sp_alive := a3\<rparr>) = open_rank p s" "open_rank p (s\<lparr>sp_client := a3\<rparr>) = open_rank p s"
  "open_rank p (s\<lparr>sp_useWorker := a3\<rparr>) = open_rank p s" "open_rank p (s\<lparr>sp_dataPlane := a8\<rparr>) = open_rank p s"
  "open_rank p (s\<lparr>sp_wtPort := a3\<rparr>) = open_rank p s" "open_rank p (s\<lparr>sp_running := a5\<rparr>) = open_rank p s"
  "open_rank p (s\<lparr>sp_posts := a9\<rparr>) = open_rank p s" "open_rank p (on_planes f s) = open_rank p s"
  "open_rank p (plane_post x s) = open_rank p s" "open_rank p (mark_authoritative k g s) = open_rank p s"
  "open_rank p (drop_worker s) = open_rank p s" "open_rank p (ask_terminate g s) = open_rank p s"
  "open_rank p (return_to c r s) = open_rank p s" "open_rank p (notifyPlaneUnavailable k g' s) = open_rank p s"
  "open_rank p (fold (\<lambda>p. plane_post (f' p)) ps s) = open_rank p s"
  by (rule open_rank_cong; auto simp: plane_post_def mark_authoritative_def ask_terminate_def return_to_def
      notifyPlaneUnavailable_def split: plane_caller.split option.split)+

lemma open_rank_add_task [simp]: "open_rank p (add_task t s) = open_rank p s + rank_in p t"
  by (simp add: open_rank_def)

lemma open_rank_fallback:
  "caller_rank p 3 c \<le> m \<Longrightarrow> open_rank p (fallbackToNm k g rw c s) \<le> open_rank p s + m"
  by (auto simp: fallbackToNm_def rank_in_def caller_rank_def split: option.split if_splits)

lemma open_rank_spawn_failed:
  "caller_rank p 3 c \<le> m \<Longrightarrow> open_rank p (spawn_failed k g rw c s) \<le> open_rank p s + m"
  by (simp add: spawn_failed_def open_rank_fallback)

lemma open_rank_spawnWorker:
  "open_rank p (spawnWorker g wt rw c s) \<le> open_rank p s + caller_rank p 9 c"
  by (auto simp: spawnWorker_def spawn_succeeded_def rank_in_def caller_rank_def split: option.split if_splits)

lemma open_rank_spawnDataPlane:
  "open_rank p (spawnDataPlane k wt rw c s) \<le> open_rank p s + caller_rank p 9 c"
  using open_rank_spawnWorker [of p _ wt rw c "on_planes (beginPlaneGeneration k) s"]
  by (auto simp: spawnDataPlane_def Let_def rank_in_def caller_rank_def)

lemma caller_rank_Nobody [simp]: "caller_rank p n Nobody = 0"
  by (simp add: caller_rank_def)

lemma open_rank_recover: "open_rank p (recover_rest k s) \<le> open_rank p s"
  using open_rank_fallback [of p Nobody 0 k _ _ s] open_rank_spawnDataPlane [of p k _ _ Nobody s]
  by (auto simp: recover_rest_def split: plane_setting.split)

definition next_cost :: "nat \<Rightarrow> after_despawn \<Rightarrow> nat" where
  "next_cost p next = (case next of ThenFallback c \<Rightarrow> caller_rank p 3 c | _ \<Rightarrow> 0)"

lemma open_rank_after_despawn: "open_rank p (after_despawn k next s) \<le> open_rank p s + next_cost p next"
proof (cases "next")
  case (ThenApply dp)
  then show ?thesis by (simp add: after_despawn_def next_cost_def rank_in_def)
qed (use open_rank_recover [of p k s] open_rank_fallback in \<open>auto simp: after_despawn_def next_cost_def\<close>)

lemma open_rank_given_up:
  "open_rank p (fold (\<lambda>(g, rw, c). spawn_failed k g rw c) xs s) \<le>
     open_rank p s + sum_list (map (\<lambda>x. caller_rank p 3 (snd (snd x))) xs)"
proof (induction xs arbitrary: s)
  case (Cons x xs)
  obtain g rw c where x: "x = (g, rw, c)" by (cases x)
  have "open_rank p (spawn_failed k g rw c s) \<le> open_rank p s + caller_rank p 3 c"
    by (rule open_rank_spawn_failed) simp
  then show ?case using Cons.IH [of "spawn_failed k g rw c s"] by (simp add: x)
qed simp

lemma rank_taken:
  "sum_list (map (rank_in p) (map snd (filter (\<lambda>(_, t). in_page_wait t = None) ts)))
     + sum_list (map (\<lambda>x. caller_rank p 3 (snd (snd x))) (List.map_filter (in_page_wait \<circ> snd) ts))
   \<le> sum_list (map (rank_in p) (map snd ts))"
proof (induction ts)
  case (Cons e ts)
  show ?case
  proof (cases "in_page_wait (snd e)")
    case None
    then show ?thesis using Cons.IH by (simp add: List.map_filter_simps case_prod_beta)
  next
    case (Some x)
    then have "caller_rank p 3 (snd (snd x)) \<le> rank_in p (snd e)"
      by (cases "snd e") (auto simp: rank_in_def caller_rank_def)
    then show ?thesis using Some Cons.IH by (simp add: List.map_filter_simps case_prod_beta)
  qed
qed (simp add: List.map_filter_simps)

lemma open_rank_despawn_rest:
  "open_rank p (despawn_rest k keepPort next s) \<le> open_rank p s + next_cost p next"
proof -
  define s1 where "s1 = (if keepPort then s
      else fold (\<lambda>p. plane_post (ClosePort p)) (sp_ports s) (s\<lparr>sp_ports := []\<rparr>))"
  define s3 where "s3 = plane_post MaybeDisconnectRuntimePort (on_planes (forgetReadiness k) (plane_post DropReports
        (s1\<lparr>sp_tasks := filter (\<lambda>(_, t). in_page_wait t = None) (sp_tasks s1),
            sp_params := None, sp_transport := None, sp_nm := False\<rparr>)))"
  let ?x = "List.map_filter (in_page_wait \<circ> snd) (sp_tasks s)"
  have t: "sp_tasks s1 = sp_tasks s" by (simp add: s1_def)
  have "despawn_rest k keepPort next s = fold (\<lambda>(g, rw, c). spawn_failed k g rw c) ?x (after_despawn k next s3)"
    unfolding despawn_rest_def Let_def s1_def [symmetric] s3_def [symmetric] ..
  then have "open_rank p (despawn_rest k keepPort next s) \<le>
      open_rank p s3 + next_cost p next + sum_list (map (\<lambda>x. caller_rank p 3 (snd (snd x))) ?x)"
    using open_rank_given_up [of p k ?x "after_despawn k next s3"] open_rank_after_despawn [of p k "next" s3] by simp
  moreover have "open_rank p s3 = sum_list (map (rank_in p) (map snd (filter (\<lambda>(_, t). in_page_wait t = None) (sp_tasks s))))"
    by (simp add: s3_def t open_rank_def tasks_of_def plane_post_def)
  moreover have "open_rank p s = sum_list (map (rank_in p) (map snd (sp_tasks s)))"
    by (simp add: open_rank_def tasks_of_def)
  ultimately show ?thesis using rank_taken [of p "sp_tasks s"] by simp
qed

definition next_total :: "nat \<Rightarrow> after_despawn \<Rightarrow> nat" where
  "next_total p next = (if p \<in># next_opens next then next_rank next else 0)"

lemma next_cost_total: "next_cost p next \<le> next_total p next"
  by (cases "next") (auto simp: next_cost_def next_total_def caller_rank_def)

lemma open_rank_despawn:
  "open_rank p (despawnDataPlane k keepPort un next s) \<le> open_rank p s + next_total p next"
proof -
  define s3 where "s3 = (let s2 = on_planes (beginPlaneGeneration k)
        (if un then notifyPlaneUnavailable k (plane_gen k s) s else s)
      in if sp_inPage s2 then plane_post (AskDisconnect (plane_gen k s)) (s2\<lparr>sp_inPage := False\<rparr>) else s2)"
  have r: "open_rank p s3 = open_rank p s" by (simp add: s3_def Let_def)
  have "despawnDataPlane k keepPort un next s =
      (case worker_generation s3 of
         None \<Rightarrow> despawn_rest k keepPort next (drop_worker s3)
       | Some w \<Rightarrow> add_task (Terminating keepPort next) (ask_terminate w (drop_worker s3)))"
    unfolding despawnDataPlane_def s3_def Let_def ..
  then show ?thesis
    using open_rank_despawn_rest [of p k keepPort "next" "drop_worker s3"] next_cost_total [of p "next"] r
    by (auto simp: rank_in_def next_total_def split: option.split)
qed

lemma open_rank_plane_set:
  "open_rank p (plane_set k g rw c ok s) \<le> open_rank p s + caller_rank p 1 c"
  using open_rank_despawn [of p k False False "ThenRejected c" s] open_rank_despawn [of p k False False "ThenGone c" s]
  by (auto simp: plane_set_def Let_def next_total_def caller_rank_def)

lemma open_rank_worker_spawned:
  "open_rank p (worker_spawned k g wt rw c s) \<le> open_rank p s + caller_rank p 3 c"
  using open_rank_spawn_failed [of p c "caller_rank p 3 c" k g rw "ask_terminate g (s\<lparr>sp_running := sp_running s @ [g]\<rparr>)"]
  by (auto simp: worker_spawned_def Let_def spawn_succeeded_def)

text \<open>An answer brings the open of its task closer, and takes none further away.\<close>

lemma open_rank_resume_task:
  "open_rank p (resume_task k t a s) + (if p \<in># task_opens t then 1 else 0) \<le> open_rank p s + rank_in p t"
proof -
  have f: "open_rank p (spawn_failed k g rw c s') \<le> open_rank p s' + caller_rank p 3 c" for g rw c s'
    by (rule open_rank_spawn_failed) simp
  have mem: "p \<in># caller_opens c \<longleftrightarrow> caller_rank p (Suc 0) c = 1" for c by (simp add: caller_rank_def)
  show ?thesis
  proof (cases t)
    case (Terminating kp nx)
    have "next_cost p nx + (if p \<in># next_opens nx then 1 else 0) \<le> next_total p nx"
      by (cases nx) (auto simp: next_cost_def next_total_def caller_rank_def)
    then show ?thesis
      using open_rank_despawn_rest [of p k kp nx s] Terminating by (auto simp: rank_in_def next_total_def)
  next
    case (InPageWait g rw c)
    then show ?thesis
      using f [of g rw c s] f [of g rw c "s\<lparr>sp_inPage := False\<rparr>"] by (auto simp: rank_in_def caller_rank_def)
  next
    case (SettingPlane g rw c)
    then show ?thesis
      using open_rank_plane_set [of p k g rw c "a = SetPlaneAnswer True" s] by (auto simp: rank_in_def caller_rank_def)
  next
    case (Spawning g wt rw c)
    then show ?thesis
      using f [of g rw c s] open_rank_worker_spawned [of p k g wt rw c s] by (auto simp: rank_in_def caller_rank_def)
  next
    case (ApplyWait dp)
    then show ?thesis
      using open_rank_spawnDataPlane [of p k _ True Nobody s] by (auto simp: apply_rest_def rank_in_def)
  next
    case ApplySetting
    then show ?thesis
      using open_rank_despawn [of p k False False ThenApplyRejected s]
      by (auto simp: apply_set_def Let_def rank_in_def next_total_def)
  next
    case (Hashing g wt rw c)
    then show ?thesis using f [of g rw c s] by (auto simp: rank_in_def caller_rank_def)
  next
    case (ModeWait g wt rw c)
    then show ?thesis using f [of g rw c s] by (auto simp: rank_in_def caller_rank_def)
  next
    case (BundleWait g wt rw c)
    then show ?thesis using f [of g rw c s] by (auto simp: rank_in_def caller_rank_def)
  next
    case (InPageHashing g rw c)
    then show ?thesis using f [of g rw c s] by (auto simp: rank_in_def caller_rank_def)
  qed (auto simp: rank_in_def)
qed

lemma open_rank_end_task:
  assumes "ids_inv s" "map_get (sp_tasks s) n = Some t"
  shows "open_rank p s = open_rank p (end_task n s) + rank_in p t"
proof -
  have "mset (tasks_of s) = add_mset t (mset (tasks_of (end_task n s)))"
    using mset_map_delete [of "sp_tasks s" n t] assms by (simp add: tasks_of_def end_task_def ids_inv_def)
  then have "sum_mset (image_mset (rank_in p) (mset (tasks_of s)))
      = rank_in p t + sum_mset (image_mset (rank_in p) (mset (tasks_of (end_task n s))))"
    by simp
  then show ?thesis by (simp add: open_rank_def sum_mset_sum_list [symmetric] del: sum_mset_sum_list)
qed

lemma open_rank_resume:
  assumes "ids_inv s"
  shows "open_rank p (resume k n a s) \<le> open_rank p s"
    and "map_get (sp_tasks s) n = Some t \<Longrightarrow> answers t a \<Longrightarrow> p \<in># task_opens t \<Longrightarrow>
         open_rank p (resume k n a s) < open_rank p s"
proof -
  have "open_rank p (resume_task k t a (end_task n s)) + (if p \<in># task_opens t then 1 else 0) \<le> open_rank p s"
    if "map_get (sp_tasks s) n = Some t" for t
    using open_rank_resume_task [of p k t a "end_task n s"] open_rank_end_task [OF assms that, of p] by simp
  then show "open_rank p (resume k n a s) \<le> open_rank p s"
    and "map_get (sp_tasks s) n = Some t \<Longrightarrow> answers t a \<Longrightarrow> p \<in># task_opens t \<Longrightarrow>
         open_rank p (resume k n a s) < open_rank p s"
    by (auto simp: resume_def split: option.split)
qed

lemma open_rank_worker_error: "open_rank p (worker_error k sig token s) \<le> open_rank p s"
  using open_rank_despawn [of p k False False DespawnDone s] open_rank_despawn [of p k False True ThenRecover s]
  by (auto simp: worker_error_def next_total_def)

lemma open_rank_open:
  "open_rank p (open_plane k s) \<le> open_rank p s + (if p = sp_opens s then 9 else 0)"
  using open_rank_spawnDataPlane [of p k _ False "OpenCaller (sp_opens s)" "s\<lparr>sp_opens := Suc (sp_opens s)\<rparr>"]
  by (auto simp: open_plane_def Let_def caller_rank_def split: plane_setting.split if_splits)

lemma open_rank_step:
  assumes "ids_inv s"
  shows "open_rank p (spawner_step k e s) \<le> open_rank p s + (if p = sp_opens s then 9 else 0)"
proof (cases e)
  case OpenPlane
  then show ?thesis using open_rank_open [of p k s] by simp
next
  case ClosePlane
  then show ?thesis using open_rank_despawn [of p k False False DespawnDone s] by (simp add: next_total_def)
next
  case (WorkerError sig token)
  then show ?thesis using open_rank_worker_error [of p k sig token s] by simp
next
  case (PlaneEventClosed g token)
  then show ?thesis
    using open_rank_worker_error [of p k "Some g" token "s\<lparr>sp_inPage := False\<rparr>"] by (simp add: plane_event_closed_def trans_le_add1)
next
  case (DataPort g port)
  then show ?thesis by (simp add: data_port_def split: option.split)
next
  case (ProxyReady g)
  then show ?thesis by (simp add: proxy_ready_def)
next
  case (ProxyLost g token)
  then show ?thesis using open_rank_worker_error [of p k "Some g" token s] by (simp add: proxy_lost_def trans_le_add1)
next
  case (AwaitDeadline q)
  then show ?thesis
    using open_rank_despawn [of p k False True "ThenFallback (WaitCaller q)" "on_planes (waitTimedOut q) s"]
    by (simp add: wait_deadline_def Let_def next_total_def trans_le_add1)
next
  case (ApplyDataPlane dp)
  then show ?thesis using open_rank_despawn [of p k True True "ThenApply dp" s] by (simp add: next_total_def)
next
  case (Answered n a)
  then show ?thesis using open_rank_resume(1) [OF assms, of p k n a] by simp
qed simp_all
section \<open>Properties\<close>

text \<open>Whatever calls interleave, at most one worker of a plane runs that was not told to end: the one
  the bridge has an entry for, of a generation that was begun. A worker that starts after its
  generation was replaced is ended.\<close>

theorem no_stray_worker:
  "case sp_worker (spawner_run k es) of
     None \<Rightarrow> sp_running (spawner_run k es) = []
   | Some (ready, e) \<Rightarrow> set (sp_running (spawner_run k es)) \<subseteq> {e}
       \<and> sp_record (spawner_run k es) = Some e \<and> e \<le> gen_num k (spawner_run k es)"
  using spawner_run_inv [of k es]
  by (auto simp: spawner_inv_def workers_inv_def workers_ok_def split: option.splits)

text \<open>Every run of the calls that spawn, recover, switch and bring down a plane is, on generations,
  readiness and waits, a run of \<open>Data_Planes\<close>: generations begin in order, and a plane is announced, or a
  wait answered ready, only for the current generation with both its prerequisites.\<close>

theorem spawning_refines_planes:
  "\<exists>steps. sp_planes (spawner_run k es) = fold plane_step steps initial_planes
     \<and> plane_log_ok (pl_log (sp_planes (spawner_run k es)))"
proof -
  obtain steps where "sp_planes (spawner_run k es) = fold plane_step steps initial_planes"
    using spawner_run_inv [of k es] by (auto simp: spawner_inv_def planes_reached_def)
  then show ?thesis using planes_run(1) [of steps] by (auto simp: planes_inv_def)
qed

text \<open>An open waits as long as it has a task, that is as long as it is not at rank zero.\<close>

lemma spawn_rank_positive: "0 < spawn_rank t"
proof (cases t)
  case (Terminating kp nx)
  then show ?thesis by (cases nx) simp_all
qed simp_all

lemma open_rank_zero: "open_rank p s = 0 \<longleftrightarrow> p \<notin># waiting_opens s"
proof -
  have "p \<in># waiting_opens s \<longleftrightarrow> (\<exists>t \<in> set (tasks_of s). p \<in># task_opens t)"
    unfolding waiting_opens_def by (induction "tasks_of s" arbitrary: s) (auto simp: sum_list_map_mset)
  moreover have "open_rank p s = 0 \<longleftrightarrow> (\<forall>t \<in> set (tasks_of s). rank_in p t = 0)"
    by (simp add: open_rank_def)
  moreover have "rank_in p t = 0 \<longleftrightarrow> p \<notin># task_opens t" for t
    using spawn_rank_positive [of t] by (simp add: rank_in_def)
  ultimately show ?thesis by simp
qed

text \<open>C39: Every open of a plane waits in one task or was answered, with a generation or without one, and
  never both or twice.  The number of answers of the page, the background or a timer that it may still
  have to wait for is zero exactly when it does not wait; it is nine at most when the open begins, no
  event makes it larger, and each answer to the task the open is in, of the kind that task waits for,
  makes it smaller.\<close>

theorem plane_opens_answered:
  "waiting_opens (spawner_run k es) + mset (map fst (sp_answered (spawner_run k es)))
     = mset [0..<sp_opens (spawner_run k es)]
   \<and> (open_rank p (spawner_run k es) = 0 \<longleftrightarrow> p \<notin># waiting_opens (spawner_run k es))
   \<and> open_rank p (spawner_run k (es @ [e]))
     \<le> open_rank p (spawner_run k es) + (if p = sp_opens (spawner_run k es) then 9 else 0)
   \<and> (case map_get (sp_tasks (spawner_run k es)) n of
        None \<Rightarrow> True
      | Some t \<Rightarrow> if answers t a \<and> p \<in># task_opens t
                   then open_rank p (spawner_run k (es @ [Answered n a])) < open_rank p (spawner_run k es)
                   else True)"
proof -
  let ?s = "spawner_run k es"
  have inv: "spawner_inv k {#} {#} ?s" by (rule spawner_run_inv)
  then have ids: "ids_inv ?s" by (simp add: spawner_inv_def)
  have snoc: "spawner_run k (es @ [x]) = spawner_step k x ?s" for x by (simp add: spawner_run_def)
  have "open_rank p (spawner_run k (es @ [e])) \<le> open_rank p ?s + (if p = sp_opens ?s then 9 else 0)"
    unfolding snoc by (rule open_rank_step [OF ids])
  moreover have "case map_get (sp_tasks ?s) n of None \<Rightarrow> True
    | Some t \<Rightarrow> if answers t a \<and> p \<in># task_opens t
        then open_rank p (spawner_run k (es @ [Answered n a])) < open_rank p ?s else True"
    using open_rank_resume(2) [OF ids, of n _ a p k] by (simp add: snoc split: option.split)
  ultimately show ?thesis using inv open_rank_zero [of p ?s] by (simp add: spawner_inv_def opens_inv_def)
qed

text \<open>A \<open>despawnDataPlane\<close> that waited for a worker to end forgets the plane there is by then: here a
  recovery waits, the plane is switched to Native Messaging and is ready, and then its port is closed and
  its readiness forgotten, for the same generation.\<close>

definition late_despawn_events :: "spawner_event list" where
  "late_despawn_events =
     [OpenPlane, Answered 0 (HashIs True), Answered 1 (ModeIs ShadowMode), Answered 2 (SpawnAnswer True),
      WorkerError (Some 1) True, SettingsNow True UseNm False, ApplyDataPlane UseNm,
      Answered 4 (LoopGoesOn True), Answered 5 (SetPlaneAnswer True), DataPort 3 7]"

lemma late_despawn_closes_new_plane:
  "map_get (pl_readyGenerations (sp_planes (spawner_run ''k'' late_despawn_events))) ''k'' = Some 3
   \<and> (let s = spawner_run ''k'' (late_despawn_events @ [Answered 3 TerminateDone])
      in plane_gen ''k'' s = Some 3 \<and> Announced ''k'' 3 \<in> set (pl_log (sp_planes s))
         \<and> ClosePort 7 \<in> set (sp_posts s) \<and> map_get (pl_readyGenerations (sp_planes s)) ''k'' = None)"
  by code_simp

text \<open>A switch to Native Messaging that is answered late is taken for the plane there is by then, here one of
  a worker that the next switch spawned.\<close>

lemma late_switch_marks_worker_plane:
  "let s = spawner_run ''k'' [SettingsNow True UseNm False, ApplyDataPlane UseNm, Answered 0 (LoopGoesOn True),
      SettingsNow True UseWs False, ApplyDataPlane UseWs, Answered 2 (LoopGoesOn True), Answered 3 (HashIs True),
      Answered 4 (ModeIs ShadowMode), Answered 5 (SpawnAnswer True), Answered 1 (SetPlaneAnswer True)]
   in sp_nm s \<and> plane_gen ''k'' s = Some 3 \<and> sp_worker s = Some (False, 3)
      \<and> Marked ''k'' 3 Authoritative \<in> set (pl_log (sp_planes s))"
  by code_simp

end
