(* ===== verification/Revocation.thy ===== *)
theory Revocation
  imports Message_Safety
begin

text \<open>
  Revoking a device (\<open>handleRevokeDevice\<close> and \<open>revokeDevices\<close> of \<open>messages.js\<close>) in whole runs of the
  background: an invariant that follows the loop through its continuations, kept by every other
  event but a new pairing of the same grant.
\<close>

section \<open>What a revocation still has to do\<close>

text \<open>The state of the loop of \<open>revokeDevices\<close> in its task: the message, the origin, the devices left,
  the sessions left of the current device, and the close in flight.\<close>

fun revoke_view :: "task \<Rightarrow> (nat \<times> string \<times> nat list \<times> (nat \<times> string) list \<times> close_request option) option" where
  "revoke_view (RevokeNext r origin devices toks toRevoke groups) = Some (r, origin, devices, toks, None)"
| "revoke_view (RevokeClosing r origin devices toks toRevoke groups cr p) = Some (r, origin, devices, toks, Some cr)"
| "revoke_view (RevokeRead r origin toRevoke) = Some (r, origin, [], [], None)"
| "revoke_view (RevokeTold r origin toRevoke ids) = Some (r, origin, [], [], None)"
| "revoke_view _ = None"

definition ungranted :: "string \<Rightarrow> nat \<Rightarrow> background \<Rightarrow> bool" where
  "ungranted origin dev s \<longleftrightarrow> (origin, dev) \<notin> grants (bk_db s)"

text \<open>Every session of the origin on the device is among those the loop still closes.\<close>

definition covered ::
    "string \<Rightarrow> nat \<Rightarrow> (nat \<times> string) list \<Rightarrow> close_request option \<Rightarrow> bg_state \<Rightarrow> bool" where
  "covered origin dev toks c b \<longleftrightarrow>
     (\<forall>tok owner. (dev, tok, owner) \<in> sessions b \<and> owner_origin owner = origin \<longrightarrow>
        (dev, tok) \<in> set toks
        \<or> (\<exists>cr. c = Some cr \<and> close_device cr = dev \<and> close_token cr = tok \<and> close_owner cr = Some owner))"

lemma covered_less: "covered origin dev toks c b \<Longrightarrow> sessions b' \<subseteq> sessions b \<Longrightarrow> covered origin dev toks c b'"
  by (auto simp: covered_def)

definition at_work :: "nat \<Rightarrow> string \<Rightarrow> nat \<Rightarrow> background \<Rightarrow> task \<Rightarrow> bool" where
  "at_work r origin dev s t \<longleftrightarrow> (\<exists>devices toks c. revoke_view t = Some (r, origin, devices, toks, c)
     \<and> (dev \<in> set devices \<or> (ungranted origin dev s \<and> covered origin dev toks c (own s))))"

definition clean :: "string \<Rightarrow> nat \<Rightarrow> background \<Rightarrow> bool" where
  "clean origin dev s \<longleftrightarrow> ungranted origin dev s \<and> covered origin dev [] None (own s)"

definition failed :: "nat \<Rightarrow> background \<Rightarrow> bool" where
  "failed r s \<longleftrightarrow> (r, Success False) \<in> set (bk_replies s)"

definition revoke_inv :: "nat \<Rightarrow> string \<Rightarrow> nat \<Rightarrow> background \<Rightarrow> bool" where
  "revoke_inv r origin dev s \<longleftrightarrow> failed r s \<or> clean origin dev s \<or> (\<exists>t \<in> set (bk_tasks s). at_work r origin dev s t)"

section \<open>The steps of the loop\<close>

lemma ask_simps [simp]:
  "bk_db (ask e body task s) = bk_db s" "own (ask e body task s) = own s"
  "bk_replies (ask e body task s) = bk_replies s"
proof -
  obtain p nm where send: "sendFrame (build_body body) (io_connect e) (io_post e) (bk_nm s) = (p, nm)"
    by fastforce
  have "nm_bg nm = nm_bg (bk_nm s)"
    using sendFrame_bg [of "build_body body" "io_connect e" "io_post e" "bk_nm s"] by (simp add: send)
  then show "bk_db (ask e body task s) = bk_db s" "own (ask e body task s) = own s"
    "bk_replies (ask e body task s) = bk_replies s" by (simp_all add: ask_def send await_def)
qed

lemma ask_task: "\<exists>p. task p \<in> set (bk_tasks (ask e body task s))"
  by (auto simp: ask_def await_def split: prod.split)

lemma set_own_simps [simp]: "own (set_own b s) = b" "bk_db (set_own b s) = bk_db s"
  by (simp_all add: set_own_def)

lemma bg_wf_sessions:
  assumes "bg_wf b" "(dev, tok, owner) \<in> sessions b"
  shows "dev \<noteq> 0" "tok \<noteq> []" "session_of b dev tok = Some owner"
  using assms by (auto simp: sessions_def bg_wf_def sessions_wf_def)

text \<open>Starting the close of a session takes it over from the list.\<close>

lemma revoke_session_works:
  assumes "bg_wf (own s)"
    and "dev \<in> set devices \<or> ungranted origin dev s \<and> covered origin dev (session # rest) None (own s)"
  shows "\<exists>t \<in> set (bk_tasks (revoke_session e r origin devices session rest toRevoke groups s)).
     at_work r origin dev (revoke_session e r origin devices session rest toRevoke groups s) t"
proof -
  obtain d tok where session: "session = (d, tok)" by fastforce
  let ?b = "case getDeviceSessionOwner d tok (own s) of None \<Rightarrow> own s
     | Some owner \<Rightarrow> unregisterDeviceTab d (Some (owner_tabId owner)) (own s)"
  let ?s = "revoke_session e r origin devices session rest toRevoke groups s"
  let ?cr = "start_close d tok ?b"
  have s: "?s = ask e (PlainBody (close_device_request d tok))
      (RevokeClosing r origin devices rest toRevoke groups ?cr) (set_own ?b s)"
    by (simp add: revoke_session_def session close_via_host_def Let_def)
  have "deviceSessions ?b = deviceSessions (own s)"
    by (auto simp: unregisterDeviceTab_def Let_def split: option.split)
  then have same: "sessions ?b = sessions (own s)" "session_of ?b d tok = session_of (own s) d tok"
    by (simp_all add: sessions_def)
  have "covered origin dev rest (Some ?cr) ?b" if "covered origin dev (session # rest) None (own s)"
    using that unfolding covered_def same(1) start_close_def same(2)
    by (auto simp: session sessions_def)
  moreover have "bk_db ?s = bk_db s" "own ?s = ?b" by (simp_all add: s)
  ultimately have "at_work r origin dev ?s (RevokeClosing r origin devices rest toRevoke groups ?cr p)" for p
    using assms(2) by (auto simp: at_work_def ungranted_def)
  with ask_task show ?thesis unfolding s by blast
qed

lemma revoke_next_works:
  assumes wf: "bg_wf (own s)" and origin: "origin \<noteq> []"
    and "dev \<in> set devices \<or> ungranted origin dev s \<and> covered origin dev toks None (own s)"
  shows "revoke_inv r origin dev (revoke_next e r origin devices toks toRevoke groups s)"
proof (cases toks)
  case (Cons session rest)
  have "dev \<in> set devices \<or> ungranted origin dev s \<and> covered origin dev (session # rest) None (own s)"
    using assms(3) by (simp add: Cons)
  from revoke_session_works [OF wf this] show ?thesis by (simp add: revoke_inv_def revoke_next_def Cons)
next
  case toks: Nil
  show ?thesis
  proof (cases devices)
    case Nil
    then have "clean origin dev s" using assms(3) by (simp add: clean_def toks)
    then show ?thesis
      by (auto simp: revoke_next_def toks Nil revoke_done_def revoke_inv_def clean_def ungranted_def await_def)
  next
    case (Cons d others)
    show ?thesis
    proof (cases "removeAllowedDevice (io_db e) origin d (bk_db s)")
      case (Inl err)
      then show ?thesis
        by (simp add: revoke_next_def toks Cons revoke_inv_def failed_def respond_def)
    next
      case (Inr db)
      let ?s = "s\<lparr>bk_db := removeDeviceInfo (io_db e) d db\<rparr>"
      let ?toks = "collectDeviceSessionsForOrigin d origin (own s)"
      note db = grants_remove [OF Inr]
      have all: "tok \<in> set ?toks \<longleftrightarrow> (\<exists>owner. (d, tok, owner) \<in> sessions (own s) \<and> owner_origin owner = origin)" for tok
        using set_tokens_where [OF bg_wfD(5) [OF wf], of tok "\<lambda>owner. owner_origin owner = origin" d] origin
        by (auto simp: collectDeviceSessionsForOrigin_def tokens_where_def sessions_def)
      have left: "dev \<in> set others \<or> ungranted origin dev ?s \<and> covered origin dev (map (Pair d) ?toks) None (own ?s)"
      proof (cases "dev = d")
        case True
        with all show ?thesis by (auto simp: ungranted_def db covered_def)
      next
        case False
        with assms(3) Cons toks show ?thesis by (auto simp: ungranted_def db covered_def)
      qed
      show ?thesis
      proof (cases ?toks)
        case Nil
        then have "revoke_next e r origin devices toks toRevoke groups s
            = await (RevokeNext r origin others [] toRevoke groups) ?s"
          by (simp add: revoke_next_def toks Cons Inr Let_def)
        with left Nil show ?thesis
          by (auto simp: revoke_inv_def await_def at_work_def ungranted_def)
      next
        case toks': (Cons tok rest)
        then have "revoke_next e r origin devices toks toRevoke groups s
            = revoke_session e r origin others (d, tok) (map (Pair d) rest) toRevoke groups ?s"
          by (simp add: revoke_next_def toks Cons Inr Let_def)
        with left toks' revoke_session_works [of ?s dev others origin "(d, tok)" "map (Pair d) rest" e r toRevoke groups] wf
        show ?thesis by (simp add: revoke_inv_def)
      qed
    qed
  qed
qed

text \<open>The answer to a close, whatever it is, ends the session.\<close>

lemma finish_close_ends:
  assumes "bg_wf b" "close_owner cr = Some owner" "(close_device cr, close_token cr, owner) \<in> sessions b"
  shows "(close_device cr, close_token cr, o') \<notin> sessions (snd (finish_close cr x b))"
proof -
  note s = bg_wf_sessions [OF assms(1,3)]
  have gone: "session_of (unregisterDeviceSession (close_device cr) (close_token cr) b) (close_device cr) (close_token cr) = None"
    using unregister_session_of [OF bg_wfD(5) [OF assms(1)]] s by simp
  then show ?thesis
    by (auto simp: sessions_def finish_close_def retainOrphanCleanup_def Let_def assms(2) s(3)
        split: close_result.splits if_splits)
qed

lemma close_answered_covers:
  assumes "bg_wf (own s)" "covered origin dev toks (Some cr) (own s)"
  shows "covered origin dev toks None (own (snd (close_answered cr x s)))"
proof -
  have own': "own (snd (close_answered cr x s)) = snd (finish_close cr (close_result_of x) (own s))"
    by (simp add: close_answered_def split_beta)
  have less: "sessions (snd (finish_close cr (close_result_of x) (own s))) \<subseteq> sessions (own s)"
    using own_loses_operations(3) [of "own s" cr "close_result_of x"] assms(1) by (simp add: own_loses_def)
  show ?thesis
    unfolding own' covered_def
  proof (intro allI impI)
    fix tok owner
    assume new: "(dev, tok, owner) \<in> sessions (snd (finish_close cr (close_result_of x) (own s)))
        \<and> owner_origin owner = origin"
    with less have old: "(dev, tok, owner) \<in> sessions (own s)" by blast
    show "(dev, tok) \<in> set toks \<or> (\<exists>cr. None = Some cr \<and> close_device cr = dev \<and> close_token cr = tok
        \<and> close_owner cr = Some owner)"
      using assms(2) new old finish_close_ends [OF assms(1), of cr owner owner "close_result_of x"]
      by (auto simp: covered_def)
  qed
qed

lemma run_revoke_task:
  assumes "bg_wf (own s)" "origin \<noteq> []" "at_work r origin dev s t"
  shows "revoke_inv r origin dev (run_task e t s)"
proof -
  from assms(3) obtain devices toks c where v: "revoke_view t = Some (r, origin, devices, toks, c)"
    and w: "dev \<in> set devices \<or> (ungranted origin dev s \<and> covered origin dev toks c (own s))"
    by (auto simp: at_work_def)
  show ?thesis
  proof (cases t)
    case (RevokeNext r' origin' devices' toks' toRevoke groups)
    with v w show ?thesis using revoke_next_works [OF assms(1,2)] by simp
  next
    case (RevokeClosing r' origin' devices' toks' toRevoke groups cr p)
    let ?s = "snd (close_answered cr (settled_as s p) s)"
    have "bg_wf (own ?s)" "bk_db ?s = bk_db s"
      using own_loses_operations(3) [of "own s" cr "close_result_of (settled_as s p)"] assms(1)
      by (simp_all add: close_answered_def split_beta own_loses_def)
    then have "dev \<in> set devices \<or> ungranted origin dev ?s \<and> covered origin dev toks None (own ?s)"
      using w close_answered_covers [OF assms(1)] v RevokeClosing by (auto simp: ungranted_def)
    from revoke_next_works [OF \<open>bg_wf (own ?s)\<close> assms(2) this] show ?thesis
      using v RevokeClosing by simp
  next
    case (RevokeRead r' origin' toRevoke)
    with v w have "clean origin dev s" by (simp add: clean_def)
    then show ?thesis
      by (auto simp: RevokeRead revoke_read_def revoke_inv_def clean_def ungranted_def await_def respond_def
          split: sum.split)
  next
    case (RevokeTold r' origin' toRevoke ids)
    with v w have "clean origin dev s" by (simp add: clean_def)
    then show ?thesis
      by (auto simp: RevokeTold revoke_told_def revoke_inv_def clean_def ungranted_def respond_def)
  qed (use v in simp_all)
qed

lemma replies_kept: "set (bk_replies (run es)) \<subseteq> set (bk_replies (run (es @ es')))"
proof (induction es' rule: rev_induct)
  case (snoc ev es')
  then show ?case using run_step [of "es @ es'" ev] by (auto simp: step_moves_def)
qed simp

lemma replies_unique:
  assumes "n + count (mset (map fst xs)) r \<le> 1" "(r, x) \<in> set xs" "(r, y) \<in> set xs"
  shows "x = y"
proof (rule ccontr)
  assume "x \<noteq> y"
  obtain us vs where xs: "xs = us @ (r, x) # vs" using split_list [OF assms(2)] by blast
  with assms(3) \<open>x \<noteq> y\<close> have "r \<in># mset (map fst (us @ vs))" by force
  then have "0 < count (mset (map fst (us @ vs))) r" by simp
  with assms(1) show False by (simp add: xs)
qed

section \<open>Every step keeps the revocation going\<close>

text \<open>The host opens the device it was asked to open: each answer to an open that a continuation
  takes up names the device of the request.\<close>

definition answers_as_asked :: "bk_event \<Rightarrow> background \<Rightarrow> bool" where
  "answers_as_asked ev s \<longleftrightarrow>
     (case ev of
        RunTask e i \<Rightarrow>
          i < length (bk_tasks s) \<longrightarrow>
          (case bk_tasks s ! i of
             OpenRechecked r req tab frame m \<Rightarrow> message_device m = br_deviceId req
           | _ \<Rightarrow> True)
      | _ \<Rightarrow> True)"

fun host_opens_as_asked :: "background \<Rightarrow> bk_event list \<Rightarrow> bool" where
  "host_opens_as_asked s [] = True"
| "host_opens_as_asked s (ev # es) = (answers_as_asked ev s \<and> host_opens_as_asked (bk_step ev s) es)"

lemma host_opens_append:
  "host_opens_as_asked s (es @ es') \<longleftrightarrow> host_opens_as_asked s es \<and> host_opens_as_asked (fold bk_step es s) es'"
  by (induction es arbitrary: s) auto

lemma covered_step:
  assumes "ungranted origin dev (run es)" "covered origin dev toks c (own (run es))"
    "answers_as_asked ev (run es)"
  shows "covered origin dev toks c (own (bk_step ev (run es)))"
proof -
  have no_new: "owner_origin owner \<noteq> origin" if new: "(dev, tok, owner) \<in> step_sessions ev (run es)" for tok owner
  proof
    assume o1: "owner_origin owner = origin"
    obtain req tab frame where c: "completes_open es ev tab dev req frame"
      "owner = recorded_owner (next_ref (own (run es))) tab (open_owner req tab frame)"
      using step_added(2) [OF new] by blast
    then obtain e i r m where t: "ev = RunTask e i" "i < length (bk_tasks (run es))"
      "bk_tasks (run es) ! i = OpenRechecked r req tab frame m" "message_device m = dev"
      "open_granted e (run es) req tab frame"
      unfolding completes_open_def by blast
    then have "br_deviceId req = dev" using assms(3) by (simp add: answers_as_asked_def)
    moreover have "br_origin req = origin" using o1 by (simp add: c(2) recorded_owner_def open_owner_def)
    ultimately show False using t(5) assms(1) by (simp add: open_granted_def ungranted_def)
  qed
  have "sessions (own (bk_step ev (run es))) \<subseteq> sessions (own (run es)) \<union> step_sessions ev (run es)"
    using run_step [of es ev] by (simp add: step_moves_def)
  with no_new assms(2) show ?thesis unfolding covered_def by blast
qed

lemma ungranted_step:
  "ungranted origin dev (run es) \<Longrightarrow> (origin, dev) \<notin> asked_pairs [ev] \<Longrightarrow> ungranted origin dev (bk_step ev (run es))"
  using run_step [of es ev] by (auto simp: step_moves_def ungranted_def)

lemma ranE:
  "t \<in> ran ev s \<Longrightarrow> \<exists>e i. ev = RunTask e i \<and> i < length (bk_tasks s) \<and> task_ready s t \<and> bk_tasks s ! i = t"
  by (cases ev) (auto split: if_splits)

lemma revoke_inv_step:
  assumes inv: "revoke_inv r origin dev (run es)" and origin: "origin \<noteq> []"
    and pair: "(origin, dev) \<notin> asked_pairs [ev]" and host: "answers_as_asked ev (run es)"
  shows "revoke_inv r origin dev (bk_step ev (run es))"
proof -
  let ?s = "run es" and ?s' = "bk_step ev (run es)"
  have step: "set (bk_tasks ?s) \<subseteq> set (bk_tasks ?s') \<union> ran ev ?s" "set (bk_replies ?s) \<subseteq> set (bk_replies ?s')"
    using run_step [of es ev] by (simp_all add: step_moves_def)
  consider "failed r ?s" | "clean origin dev ?s"
    | t where "t \<in> set (bk_tasks ?s)" "at_work r origin dev ?s t" using inv by (auto simp: revoke_inv_def)
  then show ?thesis
  proof cases
    case 1
    with step(2) show ?thesis by (auto simp: revoke_inv_def failed_def)
  next
    case 2
    then have "clean origin dev ?s'"
      using ungranted_step [OF _ pair] covered_step [OF _ _ host] by (simp add: clean_def)
    then show ?thesis by (simp add: revoke_inv_def)
  next
    case t: 3
    show ?thesis
    proof (cases "t \<in> ran ev ?s")
      case False
      then have "t \<in> set (bk_tasks ?s')" using t(1) step(1) by blast
      moreover have "at_work r origin dev ?s' t"
        using t(2) ungranted_step [OF _ pair] covered_step [OF _ _ host] unfolding at_work_def by blast
      ultimately show ?thesis by (auto simp: revoke_inv_def)
    next
      case True
      then obtain e i where ev: "ev = RunTask e i" "i < length (bk_tasks ?s)" "task_ready ?s t"
        "bk_tasks ?s ! i = t"
        using ranE by metis
      then have "?s' = run_task e t (without_task i ?s)" by (simp add: run_ready_task_def)
      moreover have "bg_wf (own (without_task i ?s))" using bk_inv_run [of es] by (simp add: bk_inv_def)
      moreover have "at_work r origin dev (without_task i ?s) t"
        using t(2) by (simp add: at_work_def ungranted_def)
      ultimately show ?thesis using run_revoke_task [OF _ origin] by simp
    qed
  qed
qed

lemma revoke_inv_run:
  assumes "revoke_inv r origin dev (run es)" "origin \<noteq> []" "(origin, dev) \<notin> asked_pairs es'"
    "host_opens_as_asked (run es) es'"
  shows "revoke_inv r origin dev (run (es @ es'))"
  using assms(3,4)
proof (induction es' rule: rev_induct)
  case (snoc ev es')
  have "revoke_inv r origin dev (run (es @ es'))" "(origin, dev) \<notin> asked_pairs [ev]"
    "answers_as_asked ev (run (es @ es'))"
    using snoc by (simp_all add: asked_simps host_opens_append)
  from revoke_inv_step [OF this(1) assms(2) this(2,3)] show ?case by simp
qed (use assms(1) in simp)

text \<open>The devices a revocation is asked for.\<close>

definition revocation_targets :: "bg_request \<Rightarrow> nat list" where
  "revocation_targets req = (if br_deviceIds req \<noteq> [] then br_deviceIds req else [br_deviceId req])"

lemma revoked_devices_set:
  "dev \<in> set (revoked_devices groups targets) \<longleftrightarrow> dev \<in> set targets
     \<or> (\<exists>g \<in> set groups. dev \<in> set (gg_deviceIds g) \<and> set (gg_deviceIds g) \<inter> set targets \<noteq> {})"
  by (auto simp: revoked_devices_def member_groups_def set_set_of_list)

lemma revoke_started:
  assumes "br_origin req \<noteq> []"
    and "dev \<in> set (revoked_devices (getGrantGroupsForOrigin (io_db e) (br_origin req) (bk_db s)) (revocation_targets req))"
  shows "revoke_inv r (br_origin req) dev (handleRevokeDevice e r req s)"
  using assms by (simp add: revoke_inv_def handleRevokeDevice_def Let_def await_def at_work_def revocation_targets_def)

section \<open>Properties\<close>

text \<open>C2: a revocation that is acknowledged is complete.  When the background answers a revocation
  with success, the origin has no grant and no session left for any device that was named or was
  granted in one group with a named one, whatever other messages, answers and failures came in
  between, unless a pairing message asked for that grant again; the host is assumed to open only
  the devices it was asked to open.\<close>

theorem revocation_is_complete:
  assumes "distinct (asked_messages (es @ Message e RevokeDevice r req fr sender # es'))"
    and "dev \<in> set (revocation_targets req)
      \<or> (\<exists>g \<in> set (getGrantGroupsForOrigin (io_db e) (br_origin req) (bk_db (run es))).
           dev \<in> set (gg_deviceIds g) \<and> set (gg_deviceIds g) \<inter> set (revocation_targets req) \<noteq> {})"
    and "(br_origin req, dev) \<notin> asked_pairs es'"
    and "host_opens_as_asked (run (es @ [Message e RevokeDevice r req fr sender])) es'"
    and "(r, Success True) \<in> set (bk_replies (run (es @ Message e RevokeDevice r req fr sender # es')))"
  shows "(br_origin req, dev) \<notin> grants (bk_db (run (es @ Message e RevokeDevice r req fr sender # es')))
    \<and> (\<forall>tok owner. session_of (own (run (es @ Message e RevokeDevice r req fr sender # es'))) dev tok = Some owner
         \<longrightarrow> owner_origin owner \<noteq> br_origin req)"
proof -
  let ?m = "Message e RevokeDevice r req fr sender"
  let ?final = "run (es @ ?m # es')"
  have count: "count (mset (waiting_replies (bk_tasks ?final))) r + count (mset (map fst (bk_replies ?final))) r \<le> 1"
  proof -
    have "count (mset (asked_messages (es @ ?m # es'))) r \<le> 1"
      using assms(1) by (simp add: distinct_count_atmost_1)
    moreover have "mset (asked_messages (es @ ?m # es')) = mset (waiting_replies (bk_tasks ?final))
        + mset (map fst (bk_replies ?final)) + mset (dropped_messages (es @ ?m # es'))"
      using bk_inv_run [of "es @ ?m # es'"] by (simp add: bk_inv_def)
    ultimately show ?thesis by simp
  qed
  have "r \<in># mset (map fst (bk_replies ?final))" using assms(5) by force
  then have "0 < count (mset (map fst (bk_replies ?final))) r" by (simp only: count_greater_zero_iff)
  with count have "count (mset (waiting_replies (bk_tasks ?final))) r = 0" by linarith
  then have waits: "r \<notin> set (waiting_replies (bk_tasks ?final))" by (simp add: count_eq_zero_iff)
  have origin: "br_origin req \<noteq> []"
  proof
    assume "br_origin req = []"
    then have "(r, Success False) \<in> set (bk_replies (run (es @ [?m])))"
      by (simp add: handleRevokeDevice_def respond_def)
    then have "(r, Success False) \<in> set (bk_replies ?final)" using replies_kept [of "es @ [?m]" es'] by auto
    then show False using assms(5) replies_unique [OF count] by blast
  qed
  have "revoke_inv r (br_origin req) dev (run (es @ [?m]))"
    using revoke_started [OF origin] assms(2) by (simp add: revoked_devices_set)
  from revoke_inv_run [OF this origin assms(3,4)] have "revoke_inv r (br_origin req) dev ?final" by simp
  moreover have "\<not> failed r ?final" using assms(5) replies_unique [OF count] by (auto simp: failed_def)
  moreover have "\<not> at_work r (br_origin req) dev ?final t" if "t \<in> set (bk_tasks ?final)" for t
  proof
    assume "at_work r (br_origin req) dev ?final t"
    then have "task_reply t = [r]" by (cases t) (auto simp: at_work_def)
    with that waits show False by (force simp: waiting_replies_def)
  qed
  ultimately have "clean (br_origin req) dev ?final" by (auto simp: revoke_inv_def)
  then show ?thesis by (auto simp: clean_def ungranted_def covered_def sessions_def)
qed

text \<open>The session of the sample run is revoked: a continuation, the host's answer to the close, and the
  last continuation.\<close>

definition sample_revocation :: "bk_event list" where
  "sample_revocation = [RunTask sample_io 0,
     NativeEvent (HostMessage [] True True (empty_message\<lparr>msg_s := Some 200, msg_n := Some 2\<rparr>)),
     RunTask sample_io 0, RunTask sample_io 0, RunTask sample_io 0]"

lemma sample_revocation_runs:
  "distinct (asked_messages (sample_run @ sample_message RevokeDevice 3 # sample_revocation))"
  "host_opens_as_asked (run (sample_run @ [sample_message RevokeDevice 3])) sample_revocation"
  "bk_replies (run (sample_run @ sample_message RevokeDevice 3 # sample_revocation)) ! 2 = (3, Success True)"
  "length (bk_replies (run (sample_run @ sample_message RevokeDevice 3 # sample_revocation))) = 3"
  by code_simp+

theorem revocation_is_complete_witness:
  "(''https://a'', 7) \<notin> grants (bk_db (run (sample_run @ sample_message RevokeDevice 3 # sample_revocation)))
   \<and> map_option owner_origin
       (session_of (own (run (sample_run @ sample_message RevokeDevice 3 # sample_revocation))) 7 ''t'') \<noteq> Some ''https://a''"
proof -
  have req: "br_origin sample_request = ''https://a''" "7 \<in> set (revocation_targets sample_request)"
    by (simp_all add: sample_request_def revocation_targets_def)
  have "(''https://a'', 7) \<notin> asked_pairs sample_revocation" by (simp add: asked_pairs_def sample_revocation_def)
  moreover have "(3, Success True) \<in> set (bk_replies (run (sample_run @ sample_message RevokeDevice 3 # sample_revocation)))"
    using sample_revocation_runs(3,4) nth_mem [of 2] by (metis lessI numeral_2_eq_2 numeral_3_eq_3)
  ultimately show ?thesis
    using revocation_is_complete [OF sample_revocation_runs(1) disjI1 _ sample_revocation_runs(2), of 7] req by auto
qed

end
