(* ===== verification/Tlv_Encoder.thy ===== *)
theory Tlv_Encoder
  imports Descriptor_Tlv
begin

text \<open>
  The other end of the collections blob: the encoder of the daemon
  (\<open>crates/webhid/src/collections_tlv.rs\<close>), and the proof that the extension's decoder inverts
  it.  The notion that carries the proof is \<open>reads p v x\<close>: wherever the bytes \<open>v\<close> stand in a
  buffer, the reader \<open>p\<close> started there returns \<open>x\<close> and stops right behind them.
\<close>

named_theorems reads_intros "what a reader returns on the bytes an encoder wrote"

section \<open>The encoder\<close>

text \<open>\<open>write_varint\<close> on a \<open>u32\<close>; a length is cast with \<open>as u32\<close>.\<close>

fun write_varint :: "nat \<Rightarrow> bytes" where
  "write_varint value =
     (let byte = (word_of_nat value :: byte) AND 127; rest = value div 128
      in if rest \<noteq> 0 then (byte OR 128) # write_varint rest else [byte])"

declare write_varint.simps [simp del]

definition as_u32 :: "nat \<Rightarrow> nat" where "as_u32 n = n mod 4294967296"

definition i32_le_bytes :: "int \<Rightarrow> bytes" where
  "i32_le_bytes x = le32 (unat (word_of_int x :: 32 word))"

definition i8_byte :: "int \<Rightarrow> byte" where
  "i8_byte x = word_of_int x"

definition write_node :: "nat \<Rightarrow> bytes \<Rightarrow> bytes" where
  "write_node tag v = word_of_nat tag # write_varint (as_u32 (length v)) @ v"

definition unit_system_to_tag :: "string \<Rightarrow> nat" where
  "unit_system_to_tag s =
     (case find (\<lambda>i. UNIT_SYSTEMS ! i = s) [0 ..< length UNIT_SYSTEMS] of Some i \<Rightarrow> i | None \<Rightarrow> 6)"

definition encode_field_flags :: "tlv_field \<Rightarrow> 16 word" where
  "encode_field_flags f =
     fold (\<lambda>(i, set) flags. if set then flags OR push_bit i 1 else flags)
       (enumerate 0 [isAbsolute f, isArray f, isRange f, isConstant f, isLinear f, isVolatile f,
          isBufferedBytes f, hasNull f, hasPreferredState f, wrap f]) 0"

definition or_else :: "'a option \<Rightarrow> 'a \<Rightarrow> 'a" where
  "or_else opt d = (case opt of None \<Rightarrow> d | Some x \<Rightarrow> x)"

definition encode_field_usages :: "tlv_field \<Rightarrow> bytes" where
  "encode_field_usages f =
     (if isRange f then le32 (or_else (usageMinimum f) 0) @ le32 (or_else (usageMaximum f) 0)
      else (case usages f of
              Some us \<Rightarrow> write_varint (as_u32 (length us)) @ concat (map le32 us)
            | None \<Rightarrow> write_varint 0))"

definition encode_field_strings :: "bytes list \<Rightarrow> bytes" where
  "encode_field_strings strs =
     write_varint (as_u32 (length strs)) @
     concat (map (\<lambda>s. write_varint (as_u32 (length s)) @ s) strs)"

definition encode_field_value :: "tlv_field \<Rightarrow> bytes" where
  "encode_field_value f =
     le16 (unat (encode_field_flags f)) @
     write_varint (reportSize f) @ write_varint (reportCount f) @
     i32_le_bytes (logicalMinimum f) @ i32_le_bytes (logicalMaximum f) @
     i32_le_bytes (physicalMinimum f) @ i32_le_bytes (physicalMaximum f) @
     [i8_byte (unitExponent f)] @ [word_of_nat (unit_system_to_tag (unitSystem f))] @
     map i8_byte (unitFactors f) @
     encode_field_usages f @ encode_field_strings (strings f)"

definition encode_field :: "tlv_field \<Rightarrow> bytes" where
  "encode_field f = write_node TAG_FIELD (encode_field_value f)"

datatype hid_report = Report (rp_id: nat) (rp_items: "tlv_field list")

datatype hid_collection =
  Collection (hc_type: nat) (hc_usage_page: "nat option") (hc_usage: "nat option")
    (hc_children: "hid_collection list") (hc_inputs: "hid_report list")
    (hc_outputs: "hid_report list") (hc_features: "hid_report list")

definition encode_report :: "nat \<Rightarrow> hid_report \<Rightarrow> bytes" where
  "encode_report tag r =
     write_node tag (word_of_nat (rp_id r) # concat (map encode_field (rp_items r)))"

definition collection_head :: "nat option \<Rightarrow> nat option \<Rightarrow> nat \<Rightarrow> bytes" where
  "collection_head page usage type =
     (word_of_nat ((if page = None then 0 else 1) OR (if usage = None then 0 else 2))) #
     (case page of None \<Rightarrow> [] | Some u \<Rightarrow> le16 u) @
     (case usage of None \<Rightarrow> [] | Some u \<Rightarrow> le16 u) @ [word_of_nat type]"

fun encode_collection :: "hid_collection \<Rightarrow> bytes" where
  "encode_collection (Collection type page usage children inputs outputs features) =
     write_node TAG_COLLECTION
       (collection_head page usage type @
        concat (map encode_collection children) @
        concat (map (encode_report TAG_INPUT_REPORT) inputs) @
        concat (map (encode_report TAG_OUTPUT_REPORT) outputs) @
        concat (map (encode_report TAG_FEATURE_REPORT) features))"

section \<open>What the decoder should return\<close>

text \<open>The wire has one form for an absent usage list and an empty one, and always carries both
  ends of a range.\<close>

definition wire_field :: "tlv_field \<Rightarrow> tlv_field" where
  "wire_field f =
     (if isRange f
      then f\<lparr>usages := None, usageMinimum := Some (or_else (usageMinimum f) 0),
             usageMaximum := Some (or_else (usageMaximum f) 0)\<rparr>
      else f\<lparr>usages := Some (or_else (usages f) []), usageMinimum := None, usageMaximum := None\<rparr>)"

definition report_node :: "hid_report \<Rightarrow> tlv_node" where
  "report_node r = ReportNode (rp_id r) (map (FieldNode \<circ> wire_field) (rp_items r))"

fun collection_node :: "hid_collection \<Rightarrow> tlv_node" where
  "collection_node (Collection type page usage children inputs outputs features) =
     CollectionNode type page usage (map collection_node children) (map report_node inputs)
       (map report_node outputs) (map report_node features)"

text \<open>The values the Rust types admit: \<open>u8\<close>, \<open>u16\<close>, \<open>u32\<close>, \<open>i32\<close>, exponents that fit the
  \<open>i8\<close> they are cast to, a unit system of the shared table.\<close>

definition field_ok :: "tlv_field \<Rightarrow> bool" where
  "field_ok f \<longleftrightarrow>
     reportSize f < 2 ^ 32 \<and> reportCount f < 2 ^ 32 \<and>
     (\<forall>x \<in> {logicalMinimum f, logicalMaximum f, physicalMinimum f, physicalMaximum f}.
        - (2 ^ 31) \<le> x \<and> x < 2 ^ 31) \<and>
     (\<forall>x \<in> insert (unitExponent f) (set (unitFactors f)). - 128 \<le> x \<and> x < 128) \<and>
     length (unitFactors f) = 6 \<and> unitSystem f \<in> set UNIT_SYSTEMS \<and>
     or_else (usageMinimum f) 0 < 2 ^ 32 \<and> or_else (usageMaximum f) 0 < 2 ^ 32 \<and>
     (\<forall>u \<in> set (or_else (usages f) []). u < 2 ^ 32)"

definition hid_report_ok :: "hid_report \<Rightarrow> bool" where
  "hid_report_ok r \<longleftrightarrow> rp_id r < 256 \<and> list_all field_ok (rp_items r)"

fun collection_ok :: "hid_collection \<Rightarrow> bool" where
  "collection_ok (Collection type page usage children inputs outputs features) \<longleftrightarrow>
     type < 256 \<and> or_else page 0 < 2 ^ 16 \<and> or_else usage 0 < 2 ^ 16 \<and>
     list_all collection_ok children \<and> list_all hid_report_ok inputs \<and>
     list_all hid_report_ok outputs \<and> list_all hid_report_ok features"

section \<open>Readers on encoded bytes\<close>

definition reads :: "(bytes \<Rightarrow> 'a reader) \<Rightarrow> bytes \<Rightarrow> 'a \<Rightarrow> bool" where
  "reads p v x \<longleftrightarrow>
     (\<forall>pre post. p (pre @ v @ post) (length pre) = Inr (x, length pre + length v))"

lemma readsD: "reads p v x \<Longrightarrow> p (pre @ v @ post) (length pre) = Inr (x, length pre + length v)"
  by (simp add: reads_def)

lemma reads_bind:
  assumes "reads p v x" and "reads (\<lambda>bin. f bin x) w y"
  shows "reads (\<lambda>bin. rd_bind (p bin) (f bin)) (v @ w) y"
proof -
  have "rd_bind (p (pre @ (v @ w) @ post)) (f (pre @ (v @ w) @ post)) (length pre)
        = Inr (y, length pre + length (v @ w))" for pre post
    using readsD [OF assms(1), of pre "w @ post"] readsD [OF assms(2), of "pre @ v" post]
    by (simp add: rd_bind_def)
  then show ?thesis by (simp add: reads_def)
qed

lemma reads_return: "reads (\<lambda>bin. rd_return x) [] x"
  by (simp add: reads_def rd_return_def)

lemma reads_map:
  assumes "reads p v x"
  shows "reads (\<lambda>bin. rd_bind (p bin) (\<lambda>y. rd_return (f y))) v (f x)"
  using reads_bind [OF assms, of "\<lambda>bin y. rd_return (f y)" "[]" "f x"] reads_return [of "f x"]
  by simp

lemma reads_u8: "n < 256 \<Longrightarrow> reads rd_u8 [word_of_nat n] n"
  by (simp add: reads_def rd_u8_def rd_fixed_def getUint8_def view_bytes_def)

lemma reads_u16: "n < 2 ^ 16 \<Longrightarrow> reads rd_u16 (le16 n) n"
  by (simp add: reads_def rd_u16_def rd_fixed_def getUint16_le16)

lemma reads_u32: "n < 2 ^ 32 \<Longrightarrow> reads rd_u32 (le32 n) n"
  by (simp add: reads_def rd_u32_def rd_fixed_def getUint32_le32)

lemma sint_of_int_range:
  fixes x :: int
  assumes "- (2 ^ (LENGTH('a) - 1)) \<le> x" "x < 2 ^ (LENGTH('a) - 1)"
  shows "sint (word_of_int x :: 'a :: len word) = x"
  using assms by (simp add: sint_sbintrunc' signed_take_bit_int_eq_self)

lemma reads_i8: "- 128 \<le> x \<Longrightarrow> x < 128 \<Longrightarrow> reads rd_i8 [i8_byte x] x"
  by (simp add: reads_def rd_i8_def rd_fixed_def getInt8_def view_bytes_def i8_byte_def
      sint_of_int_range)

lemma reads_i32:
  assumes "- (2 ^ 31) \<le> x" "x < 2 ^ 31"
  shows "reads rd_i32 (i32_le_bytes x) x"
proof -
  have "unat (word_of_int x :: 32 word) mod 4294967296 = unat (word_of_int x :: 32 word)"
    using unsigned_less [where ?'a = nat, of "word_of_int x :: 32 word"] by simp
  with assms show ?thesis
    by (simp add: reads_def rd_i32_def rd_fixed_def getInt32_def view_bytes_append
        i32_le_bytes_def sint_of_int_range)
qed

lemma reads_times:
  assumes "\<And>x. x \<in> set xs \<Longrightarrow> reads p (enc x) (f x)"
  shows "reads (\<lambda>bin. rd_times (length xs) (p bin)) (concat (map enc xs)) (map f xs)"
  using assms
proof (induction xs)
  case Nil
  then show ?case by (simp add: reads_return)
next
  case (Cons a xs)
  then have "reads p (enc a) (f a)"
    and "reads (\<lambda>bin. rd_times (length xs) (p bin)) (concat (map enc xs)) (map f xs)" by simp_all
  from reads_bind [OF this(1) reads_map [OF this(2)]] show ?case by simp
qed

text \<open>Varints: the bit tests of the reader on the bytes of the writer.\<close>

lemma and_low7: "(x::nat) AND 127 = x mod 128"
  using take_bit_eq_mask [of 7 x] by (simp add: take_bit_eq_mod mask_eq_exp_minus_1)

lemma and_high_bit: "((x::nat) AND 128 \<noteq> 0) = bit x 7"
  using and_exp_eq_0_iff_not_bit [of x 7] by simp

lemma or_high_bit: "(x::nat) < 128 \<Longrightarrow> x OR 128 = x + 128"
  using or_shift_add [of x 7 1] by (simp add: push_bit_eq_mult)

lemma unat_varint_low: "unat ((word_of_nat n :: byte) AND 127) = n mod 128"
  using mod_mod_cancel [of 128 256 n] by (simp add: unsigned_and_eq and_low7)

lemma unat_varint_high: "unat (((word_of_nat n :: byte) AND 127) OR 128) = n mod 128 + 128"
  using unat_varint_low [of n] by (simp add: unsigned_or_eq or_high_bit)

lemma high_bit_small: "m < 128 \<Longrightarrow> (m::nat) AND 128 = 0"
  using and_high_bit [of m] by (simp add: bit_nat_def)

lemma high_bit_large: "m < 128 \<Longrightarrow> (m + 128::nat) AND 128 \<noteq> 0"
  unfolding and_high_bit using div_add_self2 [of 128 m] by (simp add: bit_nat_def)

lemma word_or_shift:
  fixes result :: "32 word"
  assumes "unat result < 2 ^ s" and "m * 2 ^ s < 2 ^ 32"
  shows "unat (result OR push_bit s (word_of_nat m)) = unat result + 2 ^ s * m"
proof -
  from assms(2) have "m < 2 ^ 32" 
    by (metis (no_types) mult.right_neutral le_less_trans mult_le_mono2 one_le_numeral one_le_power)
  then have "unat (word_of_nat m :: 32 word) = m"
    by (simp add: unsigned_of_nat take_bit_nat_eq_self)
  moreover from assms(2) have "push_bit s m < 2 ^ 32" by (simp add: push_bit_eq_mult)
  ultimately have "unat (push_bit s (word_of_nat m) :: 32 word) = push_bit s m"
    by (simp add: unsigned_push_bit_eq take_bit_nat_eq_self)
  with assms(1) show ?thesis by (simp add: unsigned_or_eq or_shift_add)
qed

lemma readVarint_loop_write:
  assumes "unat result < 2 ^ s" "n * 2 ^ s < 2 ^ 32" "s < 32"
  shows "reads (\<lambda>bin. readVarint_loop bin result s) (write_varint n) (unat result + 2 ^ s * n)"
  using assms
proof (induction n arbitrary: result s rule: write_varint.induct)
  case (1 n)
  define m where "m = n mod 128"
  have m: "m < 128" "m * 2 ^ s < 2 ^ 32"
  proof -
    show "m < 128" by (simp add: m_def)
    have "m * 2 ^ s \<le> n * 2 ^ s" by (simp add: m_def)
    with "1.prems"(2) show "m * 2 ^ s < 2 ^ 32" by linarith
  qed
  define result' where "result' = result OR push_bit s (word_of_nat m :: 32 word)"
  have result': "unat result' = unat result + 2 ^ s * m"
    using word_or_shift [OF "1.prems"(1) m(2)] by (simp add: result'_def)
  have get: "getUint8 (pre @ b # w) (length pre) = Inr (unat b)" for pre w and b :: byte
    by (simp add: getUint8_def view_bytes_def)
  show ?case
  proof (cases "n < 128")
    case True
    then have "m = n" by (simp add: m_def)
    have varint: "write_varint n = [(word_of_nat n :: byte) AND 127]"
      using True by (subst write_varint.simps) (simp add: Let_def)
    have "readVarint_loop (pre @ write_varint n @ post) result s (length pre)
      = Inr (unat result + 2 ^ s * n, length pre + length (write_varint n))" for pre post
      using "1.prems"(3) m(1) result' unfolding result'_def \<open>m = n\<close> varint
      by (subst readVarint_loop.simps)
        (simp add: get Let_def unat_varint_low high_bit_small and_low7)
    then show ?thesis by (simp add: reads_def)
  next
    case False
    define q where "q = n div 128"
    have n: "n = 128 * q + m" by (simp add: q_def m_def)
    have q: "q \<noteq> 0" using False by (simp add: q_def)
    have s: "s + 7 < 32"
    proof (rule ccontr)
      assume "\<not> s + 7 < 32"
      then have "(2::nat) ^ 25 \<le> 2 ^ s" by (intro power_increasing) auto
      then have "128 * 2 ^ 25 \<le> n * 2 ^ s" using False by (intro mult_le_mono) auto
      with "1.prems"(2) show False by simp
    qed
    have low: "unat result' < 2 ^ (s + 7)"
    proof -
      have "unat result + 2 ^ s * m < 2 ^ s + 2 ^ s * m" using "1.prems"(1) by simp
      also have "\<dots> = 2 ^ s * (m + 1)" by simp
      also have "\<dots> \<le> 2 ^ s * 128" using m(1) by (intro mult_le_mono2) simp
      finally show ?thesis by (simp add: result' power_add)
    qed
    have "q * 2 ^ (s + 7) = (128 * q) * 2 ^ s" by (simp add: power_add)
    also have "\<dots> \<le> n * 2 ^ s" by (intro mult_le_mono1) (simp add: n)
    finally have high: "q * 2 ^ (s + 7) < 2 ^ 32" using "1.prems"(2) by linarith
    have IH: "reads (\<lambda>bin. readVarint_loop bin result' (s + 7)) (write_varint q)
        (unat result' + 2 ^ (s + 7) * q)"
      by (rule "1.IH" [OF refl q_def q low high s])
    have varint: "write_varint n = (((word_of_nat n :: byte) AND 127) OR 128) # write_varint q"
      using q by (subst write_varint.simps) (simp add: Let_def q_def)
    have "readVarint_loop (pre @ write_varint n @ post) result s (length pre)
      = Inr (unat result + 2 ^ s * n, length pre + length (write_varint n))" for pre post
      using "1.prems"(3) readsD [OF IH, of "pre @ [((word_of_nat n :: byte) AND 127) OR 128]" post]
        high_bit_large [OF m(1)] m(1)
      unfolding varint
      by (subst readVarint_loop.simps)
        (simp add: get Let_def unat_varint_high and_low7 result' flip: m_def result'_def, simp add: n power_add algebra_simps)
    then show ?thesis by (simp add: reads_def)
  qed
qed

lemma reads_varint: "n < 2 ^ 32 \<Longrightarrow> reads readVarint (write_varint n) n"
  using readVarint_loop_write [of 0 0 n] by (simp add: reads_def readVarint_def)

lemma reads_varint_u32: "n < 2 ^ 32 \<Longrightarrow> reads readVarint (write_varint (as_u32 n)) n"
  by (simp add: as_u32_def reads_varint)

lemma bit_fold_flags:
  "bit (fold (\<lambda>(i, set) flags. if set then flags OR push_bit i 1 else flags) (enumerate k bs) (w :: 16 word)) j
   \<longleftrightarrow> bit w j \<or> (k \<le> j \<and> j - k < length bs \<and> bs ! (j - k) \<and> j < 16)"
proof (induction bs arbitrary: k w)
  case Nil
  then show ?case by simp
next
  case (Cons b bs)
  have "(j - k < Suc (length bs) \<and> (b # bs) ! (j - k)) =
     (if j = k then b else j - Suc k < length bs \<and> bs ! (j - Suc k))" if "k \<le> j"
    using that by (auto simp: nth_Cons')
  then show ?case
    by (auto simp: Cons.IH bit_or_iff bit_exp_iff possible_bit_word not_less split: if_splits)
qed

lemma bit_field_flags:
  "bit (unat (encode_field_flags f)) j \<longleftrightarrow>
     j < 10 \<and> [isAbsolute f, isArray f, isRange f, isConstant f, isLinear f, isVolatile f,
          isBufferedBytes f, hasNull f, hasPreferredState f, wrap f] ! j"
  unfolding encode_field_flags_def bit_unsigned_iff bit_fold_flags by auto

lemma flags_read:
  fixes f :: tlv_field
  defines "flags \<equiv> unat (encode_field_flags f)"
  shows "flags AND 1 \<noteq> 0 \<longleftrightarrow> isAbsolute f" "flags AND 2 \<noteq> 0 \<longleftrightarrow> isArray f"
    "flags AND 4 \<noteq> 0 \<longleftrightarrow> isRange f" "flags AND 8 \<noteq> 0 \<longleftrightarrow> isConstant f"
    "flags AND 16 \<noteq> 0 \<longleftrightarrow> isLinear f" "flags AND 32 \<noteq> 0 \<longleftrightarrow> isVolatile f"
    "flags AND 64 \<noteq> 0 \<longleftrightarrow> isBufferedBytes f" "flags AND 128 \<noteq> 0 \<longleftrightarrow> hasNull f"
    "flags AND 256 \<noteq> 0 \<longleftrightarrow> hasPreferredState f" "flags AND 512 \<noteq> 0 \<longleftrightarrow> wrap f"
proof -
  have "flags AND 2 ^ j \<noteq> 0 \<longleftrightarrow> bit flags j" for j
    by (simp add: and_exp_eq_0_iff_not_bit)
  from this [of 0] this [of 1] this [of 2] this [of 3] this [of 4] this [of 5] this [of 6]
    this [of 7] this [of 8] this [of 9]
  show "flags AND 1 \<noteq> 0 \<longleftrightarrow> isAbsolute f" "flags AND 2 \<noteq> 0 \<longleftrightarrow> isArray f"
    "flags AND 4 \<noteq> 0 \<longleftrightarrow> isRange f" "flags AND 8 \<noteq> 0 \<longleftrightarrow> isConstant f"
    "flags AND 16 \<noteq> 0 \<longleftrightarrow> isLinear f" "flags AND 32 \<noteq> 0 \<longleftrightarrow> isVolatile f"
    "flags AND 64 \<noteq> 0 \<longleftrightarrow> isBufferedBytes f" "flags AND 128 \<noteq> 0 \<longleftrightarrow> hasNull f"
    "flags AND 256 \<noteq> 0 \<longleftrightarrow> hasPreferredState f" "flags AND 512 \<noteq> 0 \<longleftrightarrow> wrap f"
    by (simp_all add: flags_def bit_field_flags)
qed

lemma reads_unit_system:
  assumes "s \<in> set UNIT_SYSTEMS"
  shows "unit_system_to_tag s < 256" "unit_system_name (unit_system_to_tag s) = s"
  using assms by (auto simp: UNIT_SYSTEMS_def unit_system_to_tag_def unit_system_name_def upt_rec)


lemma reads_factors:
  assumes "\<forall>x \<in> set xs. - 128 \<le> x \<and> x < 128" "length xs = 6"
  shows "reads readUnitFactors (map i8_byte xs) xs"
  using reads_times [of xs rd_i8 "\<lambda>x. [i8_byte x]" id] assms
  by (simp add: readUnitFactors_def [abs_def] reads_i8 concat_map_singleton)

lemma reads_usages_range:
  assumes "a < 2 ^ 32" "b < 2 ^ 32"
  shows "reads (\<lambda>bin. readUsages bin True) (le32 a @ le32 b) (None, Some a, Some b)"
  unfolding readUsages_def if_True
  by (rule reads_bind [OF reads_u32 [OF assms(1)]], rule reads_map [OF reads_u32 [OF assms(2)]])

lemma reads_usages_list:
  assumes "\<forall>u \<in> set us. u < 2 ^ 32" "length us < 2 ^ 32"
  shows "reads (\<lambda>bin. readUsages bin False) (write_varint (as_u32 (length us)) @ concat (map le32 us))
    (Some us, None, None)"
proof -
  have "reads (\<lambda>bin. rd_times (length us) (rd_u32 bin)) (concat (map le32 us)) us"
    using reads_times [of us rd_u32 le32 id] assms(1) by (simp add: reads_u32)
  then show ?thesis
    unfolding readUsages_def if_False
    by (intro reads_bind [OF reads_varint_u32 [OF assms(2)]]) (rule reads_map)
qed

lemma reads_usages:
  assumes "field_ok f" "\<not> isRange f \<Longrightarrow> length (or_else (usages f) []) < 2 ^ 32"
  shows "reads (\<lambda>bin. readUsages bin (isRange f)) (encode_field_usages f)
    (usages (wire_field f), usageMinimum (wire_field f), usageMaximum (wire_field f))"
proof (cases "isRange f")
  case True
  with assms show ?thesis
    by (simp add: encode_field_usages_def wire_field_def field_ok_def reads_usages_range)
next
  case False
  have none: "as_u32 0 = 0" by (simp add: as_u32_def)
  from False assms reads_usages_list [of "or_else (usages f) []"] show ?thesis
    by (cases "usages f")
      (simp_all add: encode_field_usages_def wire_field_def field_ok_def or_else_def none)
qed

lemma reads_string:
  assumes "length s < 2 ^ 32"
  shows "reads readString (write_varint (as_u32 (length s)) @ s) s"
proof -
  have "reads (\<lambda>bin off. Inr (take (length s) (drop off bin), off + length s)) s s"
    by (simp add: reads_def)
  then show ?thesis
    unfolding readString_def [abs_def] by (rule reads_bind [OF reads_varint_u32 [OF assms]])
qed

lemma reads_strings:
  assumes "\<forall>s \<in> set strs. length s < 2 ^ 32" "length strs < 2 ^ 32"
  shows "reads readStrings (encode_field_strings strs) strs"
proof -
  have "reads (\<lambda>bin. rd_times (length strs) (readString bin))
      (concat (map (\<lambda>s. write_varint (as_u32 (length s)) @ s) strs)) strs"
    using reads_times [of strs readString "\<lambda>s. write_varint (as_u32 (length s)) @ s" id] assms(1)
    by (simp add: reads_string)
  then show ?thesis
    unfolding readStrings_def [abs_def] encode_field_strings_def
    by (rule reads_bind [OF reads_varint_u32 [OF assms(2)]])
qed

text \<open>The counts of a field fit a \<open>u32\<close> because its bytes do.\<close>

lemma length_concat_le32: "length (concat (map le32 us)) = 4 * length us"
  by (induction us) auto

lemma write_varint_length: "length (write_varint n) \<ge> 1"
  by (subst write_varint.simps) (simp add: Let_def)

lemma length_strings_bound:
  "length strs \<le> length (concat (map (\<lambda>s. write_varint (as_u32 (length s)) @ s) strs))"
proof (induction strs)
  case Nil
  then show ?case by simp
next
  case (Cons s strs)
  with write_varint_length [of "as_u32 (length s)"] show ?case by simp
qed

lemma length_string_bound:
  "s \<in> set strs \<Longrightarrow>
   length s \<le> length (concat (map (\<lambda>s. write_varint (as_u32 (length s)) @ s) strs))"
  by (induction strs) auto

lemma field_counts_bounded:
  assumes "length (encode_field_value f) < 2 ^ 32" "\<not> isRange f"
  shows "length (or_else (usages f) []) < 2 ^ 32" 
proof -
  have "length (or_else (usages f) []) \<le> length (encode_field_usages f)"
    using assms(2)
    by (cases "usages f") (auto simp: encode_field_usages_def or_else_def length_concat_le32)
  with assms(1) show ?thesis by (simp add: encode_field_value_def)
qed

lemma field_strings_bounded:
  assumes "length (encode_field_value f) < 2 ^ 32"
  shows "length (strings f) < 2 ^ 32" "\<forall>s \<in> set (strings f). length s < 2 ^ 32"
proof -
  have *: "length (concat (map (\<lambda>s. write_varint (as_u32 (length s)) @ s) (strings f)))
      < 2 ^ 32"
    using assms by (simp add: encode_field_value_def encode_field_strings_def)
  show "length (strings f) < 2 ^ 32"
    using * length_strings_bound [of "strings f"] by linarith
  show "\<forall>s \<in> set (strings f). length s < 2 ^ 32"
    using * length_string_bound le_less_trans by blast
qed

lemma reads_map_eq:
  "reads p v x \<Longrightarrow> f x = y \<Longrightarrow> reads (\<lambda>bin. rd_bind (p bin) (\<lambda>x. rd_return (f x))) v y"
  by (drule reads_map [where f = f]) simp

lemma reads_field:
  assumes ok: "field_ok f" and len: "length (encode_field_value f) < 2 ^ 32"
  shows "reads readField (encode_field_value f) (wire_field f)"
proof -
  have flags: "unat (encode_field_flags f) < 2 ^ 16"
    using unsigned_less [where ?'a = nat, of "encode_field_flags f"] by simp
  have usage: "reads (\<lambda>bin. readUsages bin (isRange f)) (encode_field_usages f)
      (usages (wire_field f), usageMinimum (wire_field f), usageMaximum (wire_field f))"
    by (rule reads_usages [OF ok field_counts_bounded [OF len]])
  have *: "reportSize f < 2 ^ 32" "reportCount f < 2 ^ 32"
    "- (2 ^ 31) \<le> logicalMinimum f" "logicalMinimum f < 2 ^ 31"
    "- (2 ^ 31) \<le> logicalMaximum f" "logicalMaximum f < 2 ^ 31"
    "- (2 ^ 31) \<le> physicalMinimum f" "physicalMinimum f < 2 ^ 31"
    "- (2 ^ 31) \<le> physicalMaximum f" "physicalMaximum f < 2 ^ 31"
    "- 128 \<le> unitExponent f" "unitExponent f < 128"
    "\<forall>x \<in> set (unitFactors f). - 128 \<le> x \<and> x < 128" "length (unitFactors f) = 6"
    "unitSystem f \<in> set UNIT_SYSTEMS"
    using ok unfolding field_ok_def by blast+
  note readers = reads_u16 [OF flags] reads_varint [OF *(1)] reads_varint [OF *(2)]
    reads_i32 [OF *(3,4)] reads_i32 [OF *(5,6)] reads_i32 [OF *(7,8)] reads_i32 [OF *(9,10)]
    reads_i8 [OF *(11,12)] reads_u8 [OF reads_unit_system(1) [OF *(15)]]
    reads_factors [OF *(13,14)] 
  show ?thesis
    unfolding readField_def [abs_def] encode_field_value_def
    apply (rule reads_bind, rule readers)+
    unfolding flags_read reads_unit_system(2) [OF *(15)]
    apply (rule reads_bind, rule usage)
    apply (simp only: prod.case)
    apply (rule reads_map_eq, rule reads_strings [OF field_strings_bounded(2) [OF len] field_strings_bounded(1) [OF len]])
    apply (simp add: wire_field_def)
    done
qed

section \<open>Nodes\<close>

definition node_reads :: "nat \<Rightarrow> bytes \<Rightarrow> tlv_node \<Rightarrow> bool" where
  "node_reads tag v node \<longleftrightarrow>
     (\<forall>pre post. readBody (pre @ v @ post) tag (length pre + length v) (length pre) = Inr (Some node))"

definition items_read :: "bytes \<Rightarrow> (nat \<times> tlv_node option) list \<Rightarrow> bool" where
  "items_read v items \<longleftrightarrow>
     (\<forall>pre post end_off. length pre + length v \<le> end_off \<longrightarrow>
        readItems (pre @ v @ post) end_off (length pre)
        = rbind (readItems (pre @ v @ post) end_off (length pre + length v))
            (\<lambda>rest. Inr (items @ rest)))"

lemma items_readD:
  "items_read v items \<Longrightarrow> length pre + length v \<le> end_off \<Longrightarrow>
   readItems (pre @ v @ post) end_off (length pre)
   = rbind (readItems (pre @ v @ post) end_off (length pre + length v)) (\<lambda>rest. Inr (items @ rest))"
  by (simp add: items_read_def)

lemma rbind_return [simp]: "rbind r (\<lambda>x. Inr x) = r"
  by (cases r) simp_all

lemma rbind_assoc: "rbind (rbind r f) g = rbind r (\<lambda>x. rbind (f x) g)"
  by (cases r) simp_all

lemma items_read_Nil: "items_read [] []"
  by (simp add: items_read_def)

lemma items_read_append:
  assumes "items_read v xs" "items_read w ys"
  shows "items_read (v @ w) (xs @ ys)"
proof -
  have "readItems (pre @ (v @ w) @ post) end_off (length pre)
      = rbind (readItems (pre @ (v @ w) @ post) end_off (length pre + length (v @ w)))
          (\<lambda>rest. Inr ((xs @ ys) @ rest))"
    if "length pre + length (v @ w) \<le> end_off" for pre post end_off
    using that items_readD [OF assms(1), of pre end_off "w @ post"]
      items_readD [OF assms(2), of "pre @ v" end_off post]
    by (simp add: rbind_assoc ac_simps)
  then show ?thesis by (simp add: items_read_def)
qed

lemma items_read_concat:
  assumes "\<And>x. x \<in> set xs \<Longrightarrow> items_read (enc x) [(tag, Some (f x))]"
  shows "items_read (concat (map enc xs)) (map (\<lambda>x. (tag, Some (f x))) xs)"
  using assms
proof (induction xs)
  case Nil
  then show ?case by (simp add: items_read_Nil)
next
  case (Cons a xs)
  then have "items_read (enc a) [(tag, Some (f a))]"
    and "items_read (concat (map enc xs)) (map (\<lambda>x. (tag, Some (f x))) xs)" by simp_all
  from items_read_append [OF this] show ?case by simp
qed

lemma items_read_all:
  "items_read v items \<Longrightarrow>
   readItems (pre @ v @ post) (length pre + length v) (length pre) = Inr items"
  using items_readD [of v items pre "length pre + length v" post]
  by (simp add: readItems.simps [where off = "length pre + length v"])

lemma readHeader_write_node:
  assumes "length v < 2 ^ 32" "tag < 256"
  shows "readHeader (pre @ write_node tag v @ post) (length pre)
    = Inr ((tag, length pre + length (write_node tag v)),
           length pre + 1 + length (write_varint (as_u32 (length v))))"
  using readsD [OF reads_u8 [OF assms(2)], of pre "write_varint (as_u32 (length v)) @ v @ post"]
    readsD [OF reads_varint_u32 [OF assms(1)], of "pre @ [word_of_nat tag]" "v @ post"]
  by (simp add: readHeader_def rd_bind_def write_node_def)

lemma items_read_node:
  assumes node: "node_reads tag v node" and len: "length v < 2 ^ 32" and tag: "tag < 256"
  shows "items_read (write_node tag v) [(tag, Some node)]"
proof -
  let ?h = "word_of_nat tag # write_varint (as_u32 (length v))"
  have split: "write_node tag v = ?h @ v" by (simp add: write_node_def)
  have "readItems (pre @ write_node tag v @ post) end_off (length pre)
      = rbind (readItems (pre @ write_node tag v @ post) end_off
                (length pre + length (write_node tag v))) (\<lambda>rest. Inr ([(tag, Some node)] @ rest))"
    if "length pre + length (write_node tag v) \<le> end_off" for pre post end_off
  proof -
    have body: "readBody (pre @ write_node tag v @ post) tag
        (length pre + length (write_node tag v))
        (length pre + 1 + length (write_varint (as_u32 (length v)))) = Inr (Some node)"
      using node [unfolded node_reads_def, THEN spec [of _ "pre @ ?h"], THEN spec [of _ post]]
      by (simp add: split ac_simps)
    have "length pre < end_off" using that by (simp add: split)
    then show ?thesis
      using readHeader_write_node [OF len tag, of pre post] body
      by (subst readItems.simps) simp
  qed
  then show ?thesis by (simp add: items_read_def)
qed

lemma node_reads_field:
  assumes "field_ok f" "length (encode_field_value f) < 2 ^ 32"
  shows "node_reads TAG_FIELD (encode_field_value f) (FieldNode (wire_field f))"
  using readsD [OF reads_field [OF assms]]
  by (simp add: node_reads_def readBody.simps tlv_tags)

lemma items_read_field:
  assumes "field_ok f" "length (encode_field f) < 2 ^ 32"
  shows "items_read (encode_field f) [(TAG_FIELD, Some (FieldNode (wire_field f)))]"
proof -
  have "length (encode_field_value f) < 2 ^ 32"
    using assms(2) by (simp add: encode_field_def write_node_def)
  then show ?thesis
    unfolding encode_field_def
    by (intro items_read_node node_reads_field assms(1)) (simp_all add: TAG_FIELD_def)
qed

lemma length_concat_mem: "x \<in> set xs \<Longrightarrow> length (enc x) \<le> length (concat (map enc xs))"
  by (induction xs) auto

lemma items_read_fields:
  assumes "list_all field_ok fs" "length (concat (map encode_field fs)) < 2 ^ 32"
  shows "items_read (concat (map encode_field fs))
    (map (\<lambda>f. (TAG_FIELD, Some (FieldNode (wire_field f)))) fs)"
proof (rule items_read_concat)
  fix f assume "f \<in> set fs"
  with assms length_concat_mem [of f fs encode_field] show
    "items_read (encode_field f) [(TAG_FIELD, Some (FieldNode (wire_field f)))]"
    by (intro items_read_field) (auto simp: list_all_iff)
qed

definition report_tag :: "nat \<Rightarrow> bool" where
  "report_tag tag \<longleftrightarrow> tag = TAG_INPUT_REPORT \<or> tag = TAG_OUTPUT_REPORT \<or> tag = TAG_FEATURE_REPORT"

lemma items_read_report:
  assumes ok: "hid_report_ok r" and len: "length (encode_report tag r) < 2 ^ 32"
    and tag: "report_tag tag"
  shows "items_read (encode_report tag r) [(tag, Some (report_node r))]"
proof -
  let ?fs = "concat (map encode_field (rp_items r))"
  have len': "length (word_of_nat (rp_id r) # ?fs) < 2 ^ 32"
    using len by (simp add: encode_report_def write_node_def)
  have fields: "items_read ?fs (map (\<lambda>f. (TAG_FIELD, Some (FieldNode (wire_field f)))) (rp_items r))"
    using ok len' by (intro items_read_fields) (auto simp: hid_report_ok_def)
  have "getUint8 (pre @ (word_of_nat (rp_id r) # ?fs) @ post) (length pre) = Inr (rp_id r)"
    for pre post
    using ok by (simp add: getUint8_def view_bytes_def hid_report_ok_def)
  moreover have "readItems (pre @ (word_of_nat (rp_id r) # ?fs) @ post)
      (length pre + length (word_of_nat (rp_id r) # ?fs)) (length pre + 1)
    = Inr (map (\<lambda>f. (TAG_FIELD, Some (FieldNode (wire_field f)))) (rp_items r))" for pre post
    using items_read_all [OF fields, of "pre @ [word_of_nat (rp_id r)]" post] by simp
  ultimately have "node_reads tag (word_of_nat (rp_id r) # ?fs) (report_node r)"
    using tag
    by (auto simp: node_reads_def readBody.simps report_tag_def tlv_tags report_node_def
        comp_def concat_map_singleton)
  then show ?thesis
    unfolding encode_report_def using len' tag
    by (intro items_read_node) (auto simp: report_tag_def tlv_tags)
qed


lemma items_read_reports:
  assumes "list_all hid_report_ok rs" "length (concat (map (encode_report tag) rs)) < 2 ^ 32"
    "report_tag tag"
  shows "items_read (concat (map (encode_report tag) rs))
    (map (\<lambda>r. (tag, Some (report_node r))) rs)"
proof (rule items_read_concat)
  fix r assume "r \<in> set rs"
  with assms length_concat_mem [of r rs "encode_report tag"] show
    "items_read (encode_report tag r) [(tag, Some (report_node r))]"
    by (intro items_read_report) (auto simp: list_all_iff)
qed

lemma reads_optional_u16:
  assumes "or_else opt 0 < 2 ^ 16"
  shows "reads (\<lambda>bin. if opt \<noteq> None then rd_bind (rd_u16 bin) (\<lambda>u. rd_return (Some u)) else rd_return None)
    (case opt of None \<Rightarrow> [] | Some u \<Rightarrow> le16 u) opt"
proof (cases opt)
  case None
  then show ?thesis by (simp add: reads_return)
next
  case (Some u)
  with assms reads_map [OF reads_u16 [of u], of Some] show ?thesis by (simp add: or_else_def)
qed

lemma presence_bits:
  fixes p q :: bool
  defines "presence \<equiv> (if p then 0 else 1) OR (if q then 0 else (2::nat))"
  shows "presence < 256" "presence AND 1 \<noteq> 0 \<longleftrightarrow> \<not> p" "presence AND 2 \<noteq> 0 \<longleftrightarrow> \<not> q"
  by (simp_all add: presence_def)

lemma reads_collection_head:
  assumes "or_else page 0 < 2 ^ 16" "or_else usage 0 < 2 ^ 16" "type < 256"
  shows "reads readCollectionHead (collection_head page usage type) (page, usage, type)"
proof -
  have head: "collection_head page usage type =
    [word_of_nat ((if page = None then 0 else 1) OR (if usage = None then 0 else 2))] @
     (case page of None \<Rightarrow> [] | Some u \<Rightarrow> le16 u) @
     (case usage of None \<Rightarrow> [] | Some u \<Rightarrow> le16 u) @ [word_of_nat type]"
    by (simp add: collection_head_def)
  show ?thesis
    unfolding readCollectionHead_def [abs_def] head
    apply (rule reads_bind, rule reads_u8 [OF presence_bits(1)])
    unfolding presence_bits
    apply (rule reads_bind, rule reads_optional_u16 [OF assms(1)])
    apply (rule reads_bind, rule reads_optional_u16 [OF assms(2)])
    apply (rule reads_map_eq, rule reads_u8 [OF assms(3)], rule refl)
    done
qed

lemma nodes_tagged_append: "nodes_tagged tag (xs @ ys) = nodes_tagged tag xs @ nodes_tagged tag ys"
  by (simp add: nodes_tagged_def)

lemma nodes_tagged_map:
  "nodes_tagged tag (map (\<lambda>x. (tag', Some (f x))) xs) = (if tag = tag' then map f xs else [])"
  by (induction xs) (auto simp: nodes_tagged_def)

lemma items_read_collection:
  "collection_ok c \<Longrightarrow> length (encode_collection c) < 2 ^ 32 \<Longrightarrow>
   items_read (encode_collection c) [(TAG_COLLECTION, Some (collection_node c))]"
proof (induction c)
  case (Collection type page usage children inputs outputs features)
  let ?cs = "concat (map encode_collection children)"
  let ?is = "concat (map (encode_report TAG_INPUT_REPORT) inputs)"
  let ?os = "concat (map (encode_report TAG_OUTPUT_REPORT) outputs)"
  let ?fs = "concat (map (encode_report TAG_FEATURE_REPORT) features)"
  let ?v = "collection_head page usage type @ ?cs @ ?is @ ?os @ ?fs"
  let ?items = "map (\<lambda>c. (TAG_COLLECTION, Some (collection_node c))) children @
    map (\<lambda>r. (TAG_INPUT_REPORT, Some (report_node r))) inputs @
    map (\<lambda>r. (TAG_OUTPUT_REPORT, Some (report_node r))) outputs @
    map (\<lambda>r. (TAG_FEATURE_REPORT, Some (report_node r))) features"
  have len: "length ?v < 2 ^ 32" using Collection.prems(2) by (simp add: write_node_def)
  have "items_read ?cs (map (\<lambda>c. (TAG_COLLECTION, Some (collection_node c))) children)"
  proof (rule items_read_concat)
    fix c assume "c \<in> set children"
    then show "items_read (encode_collection c) [(TAG_COLLECTION, Some (collection_node c))]"
      using Collection.prems(1) len length_concat_mem [of c children encode_collection]
      by (intro Collection.IH) (auto simp: list_all_iff)
  qed
  then have items: "items_read (?cs @ ?is @ ?os @ ?fs) ?items"
    using Collection.prems(1) len
    by (intro items_read_append items_read_reports) (auto simp: report_tag_def)
  have head: "reads readCollectionHead (collection_head page usage type) (page, usage, type)"
    using Collection.prems(1) by (intro reads_collection_head) auto
  have "node_reads TAG_COLLECTION ?v (collection_node (Collection type page usage children inputs outputs features))"
    unfolding node_reads_def
  proof (intro allI)
    fix pre post
    have "readCollectionHead (pre @ ?v @ post) (length pre)
        = Inr ((page, usage, type), length pre + length (collection_head page usage type))"
      using readsD [OF head, of pre "?cs @ ?is @ ?os @ ?fs @ post"] by simp
    moreover have "readItems (pre @ ?v @ post) (length pre + length ?v)
        (length pre + length (collection_head page usage type)) = Inr ?items"
      using items_read_all [OF items, of "pre @ collection_head page usage type" post]
      by (simp add: add.assoc)
    ultimately show "readBody (pre @ ?v @ post) TAG_COLLECTION (length pre + length ?v) (length pre)
      = Inr (Some (collection_node (Collection type page usage children inputs outputs features)))"
      by (subst readBody.simps) (simp add: nodes_tagged_append nodes_tagged_map tlv_tags)
  qed
  with len show ?case
    unfolding encode_collection.simps by (intro items_read_node) (simp_all add: TAG_COLLECTION_def)
qed

section \<open>Properties\<close>

text \<open>C21: the blob the daemon writes decodes to the collections it was written from: every tree
  of collections the Rust types admit (whose blob is below 4 GiB), nested collections, reports
  in the order input, output, feature, and fields with their flags, ranges, usages, unit and
  strings, comes back node for node.  The bytes of one collection after the other are read to
  the end, so nothing of the blob is left over or read twice.\<close>

theorem collections_blob_roundtrip:
  assumes "list_all collection_ok cols"
    and "length (concat (map encode_collection cols)) < 2 ^ 32"
  shows "decodeCollections (concat (map encode_collection cols)) = Inr (map collection_node cols)"
proof -
  let ?v = "concat (map encode_collection cols)"
  have "items_read ?v (map (\<lambda>c. (TAG_COLLECTION, Some (collection_node c))) cols)"
  proof (rule items_read_concat)
    fix c assume "c \<in> set cols"
    with assms length_concat_mem [of c cols encode_collection] show
      "items_read (encode_collection c) [(TAG_COLLECTION, Some (collection_node c))]"
      by (intro items_read_collection) (auto simp: list_all_iff)
  qed
  from items_read_all [OF this, of "[]" "[]"] show ?thesis
    by (simp add: decodeCollections_def nodes_tagged_map)
qed

lemma length_write_varint_le: "n < 128 ^ Suc k \<Longrightarrow> length (write_varint n) \<le> Suc k"
proof (induction k arbitrary: n)
  case 0
  then show ?case by (subst write_varint.simps) (simp add: Let_def)
next
  case (Suc k)
  then have "n div 128 < 128 ^ Suc k" by (simp add: less_mult_imp_div_less mult.commute)
  from Suc.IH [OF this] show ?case by (subst write_varint.simps) (simp add: Let_def)
qed

lemma length_varint_u32: "length (write_varint (as_u32 n)) \<le> 5"
proof -
  have "as_u32 n < 4294967296" by (simp add: as_u32_def)
  also have "(4294967296::nat) \<le> 128 ^ Suc 4" by simp
  finally show ?thesis using length_write_varint_le [of "as_u32 n" 4] by simp
qed

lemma length_write_node_le: "length (write_node tag v) \<le> length v + 6"
  using length_varint_u32 [of "length v"] by (simp add: write_node_def)

definition sample_field :: tlv_field where
  "sample_field =
     \<lparr>isAbsolute = True, isArray = False, isRange = False, isConstant = False, isLinear = True,
      isVolatile = False, isBufferedBytes = False, hasNull = True, hasPreferredState = False,
      wrap = True, reportSize = 8, reportCount = 300, logicalMinimum = - 127,
      logicalMaximum = 127, physicalMinimum = 0, physicalMaximum = - 1, unitExponent = - 3,
      unitSystem = ''si-linear'', unitFactors = [1, 0, - 2, 0, 0, 0], usages = Some [65584, 65585],
      usageMinimum = None, usageMaximum = None, strings = [[72, 105]]\<rparr>"

definition sample_collection :: hid_collection where
  "sample_collection =
     Collection 1 (Some 1) (Some 5)
       [Collection 0 None (Some 2) [] [Report 3 [sample_field]] [] []] []
       [Report 0 [sample_field]] []"

lemma sample_field_value_length: "length (encode_field_value sample_field) \<le> 94"
  using length_varint_u32 [of "Suc (Suc 0)"] length_varint_u32 [of "Suc 0"] length_write_varint_le [of 8 0]
    length_write_varint_le [of 300 1]
  by (simp add: encode_field_value_def sample_field_def encode_field_usages_def
      encode_field_strings_def i32_le_bytes_def)

lemma sample_field_length: "length (encode_field sample_field) \<le> 100"
  using length_write_node_le [of TAG_FIELD "encode_field_value sample_field"]
    sample_field_value_length
  by (simp add: encode_field_def)

lemma sample_report_length: "length (encode_report tag (Report n [sample_field])) \<le> 107"
  using length_write_node_le [of tag "word_of_nat n # encode_field sample_field"]
    sample_field_length
  by (simp add: encode_report_def)

lemma sample_collection_length: "length (encode_collection sample_collection) < 2 ^ 32"
proof -
  let ?inner = "Collection 0 None (Some 2) [] [Report 3 [sample_field]] [] []"
  have inner: "length (encode_collection ?inner) \<le> 117"
    using length_write_node_le [of TAG_COLLECTION "collection_head None (Some 2) 0 @
      encode_report TAG_INPUT_REPORT (Report 3 [sample_field])"]
      sample_report_length [of TAG_INPUT_REPORT 3]
    by (simp add: collection_head_def)
  have "length (encode_collection sample_collection) \<le> 300"
    using length_write_node_le [of TAG_COLLECTION "collection_head (Some 1) (Some 5) 1 @
        encode_collection ?inner @ encode_report TAG_OUTPUT_REPORT (Report 0 [sample_field])"]
      inner sample_report_length [of TAG_OUTPUT_REPORT 0]
    by (simp add: sample_collection_def collection_head_def del: encode_collection.simps(1))
      (simp add: collection_head_def)
  then show ?thesis by simp
qed

theorem collections_blob_roundtrip_witness:
  "decodeCollections (concat (map encode_collection [sample_collection]))
   = Inr (map collection_node [sample_collection])"
proof (rule collections_blob_roundtrip)
  show "list_all collection_ok [sample_collection]"
    by (simp add: sample_collection_def sample_field_def hid_report_ok_def field_ok_def
        or_else_def UNIT_SYSTEMS_def)
  show "length (concat (map encode_collection [sample_collection])) < 2 ^ 32"
    using sample_collection_length by simp
qed

text \<open>One bad blob costs only its own device: decoding a list of devices keeps the devices
  and their order, leaves a device without a blob as it is, turns a blob that decodes into its
  tree, and a blob that does not (bad base64, a node cut short) into the empty list, so no raw
  blob is left.\<close>

lemma device_blobs_isolated:
  "length (decodeDeviceCollections devs) = length devs
   \<and> (\<forall>i < length devs.
        tlv_deviceId (decodeDeviceCollections devs ! i) = tlv_deviceId (devs ! i)
        \<and> collections (decodeDeviceCollections devs ! i) =
            (case collections (devs ! i) of
               RawCollections b64 \<Rightarrow>
                 DecodedCollections
                   (case rbind (fromBase64 b64 no_options) decodeCollections of
                      Inr tree \<Rightarrow> if b64 = [] then [] else tree | Inl _ \<Rightarrow> [])
             | c \<Rightarrow> c))"
  by (auto simp: decodeDeviceCollections_def decodeDevice_def decodeCollectionsTlv_def
      split: collections_value.splits sum.splits)

end
