(* ===== verification/Wt_Transport.thy ===== *)
theory Wt_Transport
  imports Ws_Transport Framing Js_String
begin

text \<open>
  \<open>addon/js/utils/webtransport.js\<close>: the WebTransport session to the daemon, its one persistent
  stream of length-prefixed frames, and its reconnection.  The state is that of the closure
  \<open>createWtTransport\<close>; sessions and streams are numbered by creation.  What the browser's
  promises do (\<open>ready\<close>, \<open>closed\<close>, the creation of the stream, reads and writes) are events; they
  carry the session they belong to, which the code does not look at.
\<close>

section \<open>Certificate hashes\<close>

definition hex_digit :: "char \<Rightarrow> nat option" where
  "hex_digit c =
     (let n = of_char c :: nat
      in if 48 \<le> n \<and> n \<le> 57 then Some (n - 48)
         else if 97 \<le> n \<and> n \<le> 102 then Some (n - 87)
         else if 65 \<le> n \<and> n \<le> 70 then Some (n - 55) else None)"

text \<open>\<open>parseInt(s, 16)\<close>: white space, a sign and a \<open>0x\<close> are skipped, then the longest run of digits;
  without a digit it is \<open>NaN\<close>.\<close>

definition parseInt16 :: "string \<Rightarrow> int option" where
  "parseInt16 s =
     (let t = trim_left s;
          neg = (t \<noteq> [] \<and> hd t = CHR ''-'');
          u = (if t \<noteq> [] \<and> hd t \<in> {CHR ''-'', CHR ''+''} then tl t else t);
          v = (if take 2 u = ''0x'' \<or> take 2 u = ''0X'' then drop 2 u else u);
          ds = takeWhile (\<lambda>c. hex_digit c \<noteq> None) v;
          n = foldl (\<lambda>acc c. acc * 16 + int (the (hex_digit c))) 0 ds
      in if ds = [] then None else Some (if neg then - n else n))"

definition hexToBytes :: "string \<Rightarrow> bytes" where
  "hexToBytes hex =
     map (\<lambda>i. case parseInt16 (take 2 (drop (i * 2) hex)) of None \<Rightarrow> 0 | Some n \<Rightarrow> word_of_int n)
       [0 ..< length hex div 2]"

definition concatBytes :: "bytes \<Rightarrow> bytes \<Rightarrow> bytes" where
  "concatBytes a b = a @ b"

section \<open>State\<close>

record wt_connect_msg =
  wm_wtPort :: nat
  wm_token :: string
  wm_certHash :: string

record wt_state =
  wt_session :: "nat option"
  wt_next :: nat
  wt_options :: "(nat \<times> bytes option) list"  \<comment> \<open>the certificate hash each session was made with\<close>
  wt_connectMsg :: "wt_connect_msg option"
  wt_streamWriter :: "nat option"
  wt_streamReader :: "nat option"
  wt_authTimer :: bool
  wt_reconnectTimer :: "nat option"
  wt_reconnectDelay :: nat
  wt_open :: bool
  wt_closedHandled :: bool
  wt_failed :: bool
  wt_attaching :: nat  \<comment> \<open>the stream creations in progress\<close>
  wt_nextStream :: nat
  wt_readers :: "(nat, bytes) js_map"  \<comment> \<open>the streams being read, with the bytes kept\<close>
  wt_closed :: "nat list"  \<comment> \<open>the sessions closed by the transport\<close>
  wt_writes :: "(nat \<times> bytes) list"
  wt_calls :: "ws_callback list"

definition createWtTransport :: wt_state where
  "createWtTransport = \<lparr>wt_session = None, wt_next = 0, wt_options = [], wt_connectMsg = None,
     wt_streamWriter = None, wt_streamReader = None, wt_authTimer = False, wt_reconnectTimer = None,
     wt_reconnectDelay = 500, wt_open = False, wt_closedHandled = True, wt_failed = False,
     wt_attaching = 0, wt_nextStream = 0, wt_readers = [], wt_closed = [], wt_writes = [], wt_calls = []\<rparr>"

definition wt_call :: "ws_callback \<Rightarrow> wt_state \<Rightarrow> wt_state" where
  "wt_call c s = s\<lparr>wt_calls := wt_calls s @ [c]\<rparr>"

section \<open>Failure and reconnection\<close>

definition wt_bump :: "wt_state \<Rightarrow> wt_state" where
  "wt_bump s = s\<lparr>wt_reconnectDelay := min (wt_reconnectDelay s * 2) 5000\<rparr>"

definition wt_reset :: "wt_state \<Rightarrow> wt_state" where
  "wt_reset s = s\<lparr>wt_reconnectDelay := 500\<rparr>"

definition wt_scheduleReconnect :: "wt_state \<Rightarrow> wt_state" where
  "wt_scheduleReconnect s =
     (if wt_connectMsg s = None \<or> wt_reconnectTimer s \<noteq> None then s
      else wt_bump (s\<lparr>wt_reconnectTimer := Some (wt_reconnectDelay s)\<rparr>))"

definition failTransport :: "wt_state \<Rightarrow> wt_state" where
  "failTransport s =
     (if wt_failed s \<or> wt_connectMsg s = None then s
      else
        let s1 = (case wt_session s of None \<Rightarrow> s
                  | Some n \<Rightarrow> s\<lparr>wt_closed := wt_closed s @ [n], wt_session := None\<rparr>)
        in wt_scheduleReconnect (wt_call (OnClosed (Some True))
             (s1\<lparr>wt_failed := True, wt_open := False, wt_streamWriter := None, wt_streamReader := None,
                 wt_closedHandled := True\<rparr>)))"

definition handleClosed :: "wt_state \<Rightarrow> wt_state" where
  "handleClosed s =
     (if wt_closedHandled s \<or> wt_session s = None then s
      else
        let authPending = wt_authTimer s; wasReady = wt_open s;
            s1 = s\<lparr>wt_closedHandled := True, wt_authTimer := False, wt_open := False, wt_session := None,
                   wt_streamWriter := None, wt_streamReader := None\<rparr>
        in if \<not> wasReady \<or> authPending then wt_call (OnAuthFailed 0) s1
           else wt_scheduleReconnect (wt_call (OnClosed (Some True)) s1))"

section \<open>Frames\<close>

text \<open>The first frame of the bytes received: \<open>[length u32 LE][frame]\<close>.\<close>

definition wt_frame :: "bytes \<Rightarrow> (bytes \<times> bytes) option" where
  "wt_frame buf =
     (if length buf < 4 then None
      else let len = le_nat (take 4 buf)
           in if length buf < 4 + len then None else Some (take len (drop 4 buf), drop (4 + len) buf))"

lemma wt_frame_shorter: "wt_frame buf = Some (frame, rest) \<Longrightarrow> length rest < length buf"
  by (auto simp: wt_frame_def Let_def split: if_splits)

text \<open>The inner loop of \<open>readFrames\<close>: the frames it passes on, and the bytes it keeps.\<close>

function wt_drain :: "bytes \<Rightarrow> bytes list \<times> bytes" where
  "wt_drain buf =
     (case wt_frame buf of
        None \<Rightarrow> ([], buf)
      | Some (frame, rest) \<Rightarrow> (frame # fst (wt_drain rest), snd (wt_drain rest)))"
  by pat_completeness auto
termination
  by (relation "measure length") (auto dest: wt_frame_shorter)

declare wt_drain.simps [simp del]

definition readFrames_chunk :: "nat \<Rightarrow> bytes \<Rightarrow> wt_state \<Rightarrow> wt_state" where
  "readFrames_chunk stream chunk s =
     (case map_get (wt_readers s) stream of
        None \<Rightarrow> s
      | Some buf \<Rightarrow>
          let (frames, rest) = wt_drain (concatBytes buf chunk)
          in fold (\<lambda>frame. wt_call (OnBinary frame)) frames
               (s\<lparr>wt_readers := map_set (wt_readers s) stream rest\<rparr>))"

text \<open>The end of the stream, or an error of a read.\<close>

definition readFrames_end :: "nat \<Rightarrow> wt_state \<Rightarrow> wt_state" where
  "readFrames_end stream s =
     (if map_get (wt_readers s) stream = None then s
      else s\<lparr>wt_readers := map_delete (wt_readers s) stream, wt_streamReader := None\<rparr>)"

section \<open>Connecting\<close>

definition wt_doConnect :: "bool \<Rightarrow> wt_state \<Rightarrow> wt_state" where
  "wt_doConnect ctor_ok s =
     (case wt_connectMsg s of
        None \<Rightarrow> s
      | Some m \<Rightarrow>
          let certHash = (if wm_certHash m = [] then None else Some (hexToBytes (wm_certHash m)));
              s1 = s\<lparr>wt_closedHandled := False, wt_failed := False\<rparr>
          in if ctor_ok
             then s1\<lparr>wt_session := Some (wt_next s), wt_next := wt_next s + 1,
                     wt_options := wt_options s @ [(wt_next s, certHash)]\<rparr>
             else wt_call (OnClosed None) (s1\<lparr>wt_session := None, wt_closedHandled := True\<rparr>))"

text \<open>\<open>ready\<close> resolved, followed by the synchronous part of \<open>attachStream\<close>.\<close>

definition wt_ready :: "nat \<Rightarrow> wt_state \<Rightarrow> wt_state" where
  "wt_ready session s =
     (if wt_session s = None then s
      else (wt_reset s)\<lparr>wt_open := True, wt_authTimer := True, wt_attaching := wt_attaching s + 1\<rparr>)"

definition wt_readyRejected :: "nat \<Rightarrow> wt_state \<Rightarrow> wt_state" where
  "wt_readyRejected session s =
     wt_call (OnAuthFailed 0)
       (s\<lparr>wt_closedHandled := True, wt_open := False, wt_session := None,
          wt_streamWriter := None, wt_streamReader := None\<rparr>)"

text \<open>The rest of \<open>attachStream\<close>, when the stream is there or could not be made.\<close>

definition attachStream :: "bool \<Rightarrow> wt_state \<Rightarrow> wt_state" where
  "attachStream ok s =
     (if wt_attaching s = 0 then s
      else
        let s1 = s\<lparr>wt_attaching := wt_attaching s - 1\<rparr>; n = wt_nextStream s
        in if \<not> ok then failTransport s1
           else if wt_session s1 = None then s1
           else wt_call OnReady
                  (s1\<lparr>wt_authTimer := False, wt_nextStream := n + 1, wt_streamWriter := Some n,
                      wt_streamReader := Some n, wt_readers := map_set (wt_readers s1) n []\<rparr>))"

definition wt_timerFired :: "bool \<Rightarrow> wt_state \<Rightarrow> wt_state" where
  "wt_timerFired ctor_ok s =
     (if wt_reconnectTimer s = None then s else wt_doConnect ctor_ok (s\<lparr>wt_reconnectTimer := None\<rparr>))"

section \<open>Operations of the owner\<close>

definition wt_connect :: "wt_connect_msg \<Rightarrow> bool \<Rightarrow> wt_state \<Rightarrow> wt_state" where
  "wt_connect m ctor_ok s = wt_doConnect ctor_ok (s\<lparr>wt_connectMsg := Some m\<rparr>)"

definition wt_isOpen :: "wt_state \<Rightarrow> bool" where
  "wt_isOpen s \<longleftrightarrow> wt_open s \<and> wt_streamWriter s \<noteq> None"

text \<open>\<open>encode\<close> is the browser's UTF-8 encoder.\<close>

definition wt_send :: "(string \<Rightarrow> bytes) \<Rightarrow> ws_data \<Rightarrow> wt_state \<Rightarrow> bool \<times> wt_state" where
  "wt_send encode frame s =
     (case wt_streamWriter s of
        None \<Rightarrow> (False, s)
      | Some w \<Rightarrow>
          if wt_session s = None \<or> \<not> wt_open s then (False, s)
          else
            let d = (case frame of TextData t \<Rightarrow> encode t | BinaryData b \<Rightarrow> b)
            in (True, s\<lparr>wt_writes := wt_writes s @ [(w, le32 (length d)), (w, d)]\<rparr>))"

definition wt_disconnect :: "wt_state \<Rightarrow> wt_state" where
  "wt_disconnect s =
     s\<lparr>wt_reconnectTimer := None,
       wt_readers := (case wt_streamReader s of None \<Rightarrow> wt_readers s
                      | Some r \<Rightarrow> map_delete (wt_readers s) r),
       wt_streamReader := None, wt_streamWriter := None, wt_authTimer := False,
       wt_closed := wt_closed s @ (case wt_session s of None \<Rightarrow> [] | Some n \<Rightarrow> [n]), wt_session := None,
       wt_open := False, wt_closedHandled := True, wt_failed := True, wt_connectMsg := None\<rparr>"

datatype wt_event =
    WtConnect wt_connect_msg bool
  | WtTimer bool
  | WtAuthTimer
  | WtReady nat
  | WtReadyRejected nat
  | WtClosed nat
  | WtAttached bool
  | WtChunk nat bytes
  | WtEnd nat
  | WtWriteError
  | WtSend bytes
  | WtDisconnect

fun wt_step :: "wt_event \<Rightarrow> wt_state \<Rightarrow> wt_state" where
  "wt_step (WtConnect m ctor_ok) s = wt_connect m ctor_ok s"
| "wt_step (WtTimer ctor_ok) s = wt_timerFired ctor_ok s"
| "wt_step WtAuthTimer s = s\<lparr>wt_authTimer := False\<rparr>"
| "wt_step (WtReady n) s = wt_ready n s"
| "wt_step (WtReadyRejected n) s = wt_readyRejected n s"
| "wt_step (WtClosed n) s = handleClosed s"
| "wt_step (WtAttached ok) s = attachStream ok s"
| "wt_step (WtChunk stream chunk) s = readFrames_chunk stream chunk s"
| "wt_step (WtEnd stream) s = readFrames_end stream s"
| "wt_step WtWriteError s = failTransport s"
| "wt_step (WtSend d) s = snd (wt_send (\<lambda>_. []) (BinaryData d) s)"
| "wt_step WtDisconnect s = wt_disconnect s"

section \<open>The stream of frames\<close>

definition wt_encode :: "bytes \<Rightarrow> bytes" where
  "wt_encode frame = le32 (length frame) @ frame"

lemma wt_frame_encode: "length frame < 2 ^ 32 \<Longrightarrow> wt_frame (wt_encode frame @ rest) = Some (frame, rest)"
  by (simp add: wt_frame_def wt_encode_def Let_def del: le_nat_simps) 

lemma wt_frame_extend: "wt_frame buf = Some (frame, rest) \<Longrightarrow> wt_frame (buf @ extra) = Some (frame, rest @ extra)"
  by (auto simp: wt_frame_def Let_def split: if_splits)

interpretation wt_frames: framing wt_encode "\<lambda>frame. length frame < 2 ^ 32" wt_frame wt_drain
proof
  show "wt_drain bs = (case wt_frame bs of None \<Rightarrow> ([], bs)
      | Some (f, rest) \<Rightarrow> (f # fst (wt_drain rest), snd (wt_drain rest)))" for bs
    by (rule wt_drain.simps)
qed (auto intro: wt_frame_encode wt_frame_shorter wt_frame_extend)

lemma fold_binary_calls:
  "fold (\<lambda>frame. wt_call (OnBinary frame)) frames s = s\<lparr>wt_calls := wt_calls s @ map OnBinary frames\<rparr>"
  by (induction frames arbitrary: s) (simp_all add: wt_call_def)

text \<open>Reading the chunks of a stream is the loop of the interface.\<close>

definition chunk_loop :: "bytes \<times> bytes list \<Rightarrow> bytes \<Rightarrow> bytes \<times> bytes list" where
  "chunk_loop = (\<lambda>(buf, out) chunk. (snd (wt_drain (buf @ chunk)), out @ fst (wt_drain (buf @ chunk))))"

lemma read_chunks:
  assumes "map_get (wt_readers s) stream = Some buf" "wt_calls s = calls @ map OnBinary out"
  shows "map_get (wt_readers (fold (readFrames_chunk stream) chunks s)) stream =
      Some (fst (foldl chunk_loop (buf, out) chunks))
    \<and> wt_calls (fold (readFrames_chunk stream) chunks s) =
        calls @ map OnBinary (snd (foldl chunk_loop (buf, out) chunks))"
  using assms
proof (induction chunks arbitrary: s buf out)
  case (Cons chunk chunks)
  let ?s1 = "readFrames_chunk stream chunk s"
  have "map_get (wt_readers ?s1) stream = Some (snd (wt_drain (buf @ chunk)))"
    "wt_calls ?s1 = calls @ map OnBinary (out @ fst (wt_drain (buf @ chunk)))"
    using Cons.prems
    by (simp_all add: readFrames_chunk_def concatBytes_def fold_binary_calls split_beta map_get_set)
  from Cons.IH [OF this] show ?case by (simp add: chunk_loop_def)
qed simp

lemma read_chunks_drain:
  assumes "map_get (wt_readers s) stream = Some []"
  shows "wt_calls (fold (readFrames_chunk stream) chunks s) =
    wt_calls s @ map OnBinary (fst (wt_drain (concat chunks)))"
proof -
  have "wt_frame [] = None" by (simp add: wt_frame_def)
  from wt_frames.feed_chunks [of chunk_loop "[]" "[]" chunks, OF _ this] read_chunks [OF assms]
  show ?thesis
    using wt_frames.feed_chunks [of chunk_loop "[]" "[]" chunks] read_chunks [OF assms, of "wt_calls s" "[]" chunks]
    by (simp add: chunk_loop_def)
qed

section \<open>Certificate hashes\<close>

definition hex_char :: "nat \<Rightarrow> char" where
  "hex_char n = ''0123456789abcdef'' ! n"

definition hex_of_byte :: "byte \<Rightarrow> string" where
  "hex_of_byte b = [hex_char (unat b div 16), hex_char (unat b mod 16)]"

lemma hex_char_facts:
  assumes "n < 16"
  shows "hex_digit (hex_char n) = Some n" "\<not> is_ws (hex_char n)"
    "hex_char n \<noteq> CHR ''-''" "hex_char n \<noteq> CHR ''+''" "hex_char n \<noteq> CHR ''x''" "hex_char n \<noteq> CHR ''X''"
proof -
  have "list_all (\<lambda>n. hex_digit (hex_char n) = Some n \<and> \<not> is_ws (hex_char n)
      \<and> hex_char n \<notin> {CHR ''-'', CHR ''+'', CHR ''x'', CHR ''X''}) [0..<16]"
    by code_simp
  then have "hex_digit (hex_char n) = Some n \<and> \<not> is_ws (hex_char n)
      \<and> hex_char n \<notin> {CHR ''-'', CHR ''+'', CHR ''x'', CHR ''X''}"
    using assms by (simp add: list_all_iff)
  then show "hex_digit (hex_char n) = Some n" "\<not> is_ws (hex_char n)"
    "hex_char n \<noteq> CHR ''-''" "hex_char n \<noteq> CHR ''+''" "hex_char n \<noteq> CHR ''x''" "hex_char n \<noteq> CHR ''X''"
    by auto
qed

lemma parse_hex_byte: "parseInt16 (hex_of_byte b) = Some (int (unat b))"
proof -
  have "unat b div 16 < 16" "unat b mod 16 < 16" using byte_lt [of b] by auto
  note hi = hex_char_facts [OF this(1)] and lo = hex_char_facts [OF this(2)]
  have "int (unat b div 16) * 16 + int (unat b mod 16) = int (unat b)"
    by (metis div_mult_mod_eq of_nat_add of_nat_mult of_nat_numeral)
  then show ?thesis
    using hi lo by (simp add: parseInt16_def hex_of_byte_def trim_left_def Let_def)
qed

lemma hexToBytes_append: "hexToBytes (hex_of_byte b @ rest) = b # hexToBytes rest"
proof -
  have len: "length (hex_of_byte b) = 2" by (simp add: hex_of_byte_def)
  have "[0 ..< length (hex_of_byte b @ rest) div 2] = 0 # map Suc [0 ..< length rest div 2]"
    by (simp add: len upt_conv_Cons map_Suc_upt del: upt_Suc)
  moreover have "drop (Suc i * 2) (hex_of_byte b @ rest) = drop (i * 2) rest" for i
    by (simp add: len)
  moreover have "word_of_int (int (unat b)) = b" by simp
  ultimately show ?thesis
    using parse_hex_byte [of b] by (simp add: hexToBytes_def len comp_def del: drop_append)
qed

lemma hex_roundtrip: "hexToBytes (concat (map hex_of_byte bs)) = bs"
  by (induction bs) (simp add: hexToBytes_def, simp add: hexToBytes_append)

section \<open>Invariants\<close>

interpretation wt_delay: backoff wt_reconnectDelay wt_bump wt_reset 500 5000
  by unfold_locales (simp_all add: wt_bump_def wt_reset_def)

text \<open>A transport without a session is not open and has no writer; a reconnection is pending only
  without a session; one that was told nothing has neither; a failed one has no session.\<close>

definition wt_inv :: "wt_state \<Rightarrow> bool" where
  "wt_inv s \<longleftrightarrow>
     (wt_session s = None \<longrightarrow> \<not> wt_open s \<and> wt_streamWriter s = None)
     \<and> (wt_reconnectTimer s \<noteq> None \<longrightarrow> wt_session s = None)
     \<and> (wt_connectMsg s = None \<longrightarrow> wt_session s = None \<and> wt_reconnectTimer s = None)
     \<and> (wt_failed s \<longrightarrow> wt_session s = None)
     \<and> (wt_session s \<noteq> None \<longrightarrow> \<not> wt_closedHandled s)
     \<and> wt_delay.in_range s"

inductive wt_reachable :: "wt_state \<Rightarrow> bool" where
  created: "wt_reachable createWtTransport"
| stepped: "wt_reachable s \<Longrightarrow> (\<And>m ok. e = WtConnect m ok \<Longrightarrow> wt_session s = None \<and> wt_reconnectTimer s = None) \<Longrightarrow>
    wt_reachable (wt_step e s)"

lemmas wt_defs = wt_inv_def wt_delay.in_range_def wt_call_def wt_bump_def wt_reset_def
  wt_scheduleReconnect_def wt_doConnect_def failTransport_def

lemma failTransport_inv: "wt_inv s \<Longrightarrow> wt_inv (failTransport s)"
  by (auto simp: wt_defs Let_def split: option.split)

lemma readFrames_chunk_eq:
  "readFrames_chunk stream chunk s =
     (case map_get (wt_readers s) stream of None \<Rightarrow> s
      | Some buf \<Rightarrow> s\<lparr>wt_readers := map_set (wt_readers s) stream (snd (wt_drain (buf @ chunk))),
                      wt_calls := wt_calls s @ map OnBinary (fst (wt_drain (buf @ chunk)))\<rparr>)"
  by (auto simp: readFrames_chunk_def concatBytes_def fold_binary_calls split_beta split: option.split)

lemma wt_step_inv:
  assumes inv: "wt_inv s"
    and connect: "\<And>m ok. e = WtConnect m ok \<Longrightarrow> wt_session s = None \<and> wt_reconnectTimer s = None"
  shows "wt_inv (wt_step e s)"
proof (cases e)
  case (WtConnect m ok)
  with connect have "wt_session s = None" "wt_reconnectTimer s = None" by auto
  with inv WtConnect show ?thesis by (cases ok) (auto simp: wt_defs wt_connect_def Let_def)
next
  case (WtTimer ok)
  with inv show ?thesis
    by (cases ok; cases "wt_reconnectTimer s") (auto simp: wt_defs wt_timerFired_def Let_def split: option.split)
next
  case (WtAttached ok)
  have "wt_inv (s\<lparr>wt_attaching := n\<rparr>)" for n using inv by (simp add: wt_inv_def wt_delay.in_range_def)
  note failTransport_inv [OF this]
  with inv WtAttached show ?thesis
    by (auto simp: attachStream_def Let_def wt_inv_def wt_delay.in_range_def wt_call_def)
next
  case (WtClosed n)
  with inv show ?thesis by (auto simp: wt_defs handleClosed_def Let_def)
next
  case (WtChunk st chunk)
  with inv show ?thesis
    by (auto simp: wt_inv_def wt_delay.in_range_def readFrames_chunk_eq split: option.split)
next
  case (WtSend d)
  with inv show ?thesis
    by (auto simp: wt_inv_def wt_delay.in_range_def wt_send_def Let_def split: option.split)
next
  case (WtReady n)
  with inv show ?thesis by (auto simp: wt_defs wt_ready_def)
qed (use inv failTransport_inv [OF inv] in \<open>auto simp: wt_defs wt_ready_def wt_readyRejected_def
      readFrames_end_def wt_disconnect_def simp del: failTransport_def\<close>)

lemma wt_reachable_inv: "wt_reachable s \<Longrightarrow> wt_inv s"
proof (induction rule: wt_reachable.induct)
  case created
  show ?case by (simp add: createWtTransport_def wt_inv_def wt_delay.in_range_def)
next
  case (stepped s e)
  from stepped.IH show ?case by (rule wt_step_inv) (rule stepped.hyps(2))
qed

text \<open>A disconnected transport, and one whose failure was reported.\<close>

definition wt_quiet :: "wt_state \<Rightarrow> bool" where
  "wt_quiet s \<longleftrightarrow> wt_connectMsg s = None \<and> wt_session s = None \<and> wt_reconnectTimer s = None
     \<and> wt_closedHandled s \<and> \<not> wt_open s \<and> wt_streamWriter s = None"

definition not_data :: "ws_callback \<Rightarrow> bool" where
  "not_data c \<longleftrightarrow> (\<forall>b. c \<noteq> OnBinary b)"

lemma no_data_binary [simp]: "filter not_data (map OnBinary frames) = []"
  by (auto simp: not_data_def filter_empty_conv)

lemma wt_quiet_step:
  assumes "wt_quiet s" "\<And>m ok. e \<noteq> WtConnect m ok"
  shows "wt_quiet (wt_step e s) \<and> wt_writes (wt_step e s) = wt_writes s
    \<and> filter not_data (wt_calls (wt_step e s)) =
        filter not_data (wt_calls s) @ (case e of WtReadyRejected _ \<Rightarrow> [OnAuthFailed 0] | _ \<Rightarrow> [])"
proof (cases e)
  case (WtChunk st chunk)
  with assms(1) show ?thesis by (auto simp: wt_quiet_def readFrames_chunk_eq split: option.split)
qed (use assms in \<open>auto simp: wt_quiet_def wt_timerFired_def wt_ready_def wt_readyRejected_def wt_call_def
      handleClosed_def attachStream_def failTransport_def readFrames_end_def wt_send_def wt_disconnect_def
      not_data_def Let_def\<close>)

definition rejections :: "wt_event list \<Rightarrow> nat" where
  "rejections es = length (filter (\<lambda>e. \<exists>n. e = WtReadyRejected n) es)"

lemma wt_quiet_run:
  assumes "wt_quiet s" "\<forall>e \<in> set es. \<forall>m ok. e \<noteq> WtConnect m ok"
  shows "wt_quiet (fold wt_step es s) \<and> wt_writes (fold wt_step es s) = wt_writes s
    \<and> filter not_data (wt_calls (fold wt_step es s)) =
        filter not_data (wt_calls s) @ replicate (rejections es) (OnAuthFailed 0)"
  using assms
proof (induction es arbitrary: s)
  case (Cons e es)
  note step = wt_quiet_step [of s e]
  from Cons.prems have "wt_quiet (wt_step e s)" using step by simp
  from Cons.IH [OF this] Cons.prems step show ?case
    by (cases e) (auto simp: rejections_def)
qed (simp add: rejections_def)

definition wt_failure :: "wt_event \<Rightarrow> bool" where
  "wt_failure e \<longleftrightarrow> e = WtWriteError \<or> e = WtAttached False \<or> e = WtAuthTimer
     \<or> (\<exists>n. e = WtClosed n \<or> e = WtEnd n)"

lemma wt_failed_silent:
  assumes "wt_failed s" "wt_closedHandled s" "wt_failure e"
  shows "wt_failed (wt_step e s) \<and> wt_closedHandled (wt_step e s) \<and> wt_calls (wt_step e s) = wt_calls s
    \<and> wt_reconnectTimer (wt_step e s) = wt_reconnectTimer s"
  using assms
  by (auto simp: wt_failure_def failTransport_def attachStream_def handleClosed_def readFrames_end_def Let_def)

lemma wt_failed_silent_run:
  assumes "wt_failed s" "wt_closedHandled s" "\<forall>e \<in> set es. wt_failure e"
  shows "wt_calls (fold wt_step es s) = wt_calls s
    \<and> wt_reconnectTimer (fold wt_step es s) = wt_reconnectTimer s"
  using assms
proof (induction es arbitrary: s)
  case (Cons e es)
  from wt_failed_silent [of s e] Cons.prems Cons.IH [of "wt_step e s"] show ?case by simp
qed simp

lemma wt_sends:
  assumes "wt_session s \<noteq> None" "wt_open s" "wt_streamWriter s = Some w"
  shows "wt_writes (fold wt_step (map WtSend frames) s) =
    wt_writes s @ concat (map (\<lambda>d. [(w, le32 (length d)), (w, d)]) frames)"
  using assms
proof (induction frames arbitrary: s)
  case (Cons d frames)
  then have "wt_step (WtSend d) s = s\<lparr>wt_writes := wt_writes s @ [(w, le32 (length d)), (w, d)]\<rparr>"
    by (auto simp: wt_send_def)
  with Cons show ?case by simp
qed simp

section \<open>Properties\<close>

text \<open>C25: the frames one end sends are the frames the other end reads, in order and unbroken,
  whatever pieces the stream arrives in: if the bytes written by a sequence of sends are cut into
  chunks anywhere, reading the chunks calls \<open>onBinary\<close> once for every frame, with its bytes.\<close>

theorem wt_stream_any_chunking:
  assumes "wt_reachable a" and "wt_isOpen a" and "list_all (\<lambda>d. length d < 2 ^ 32) frames"
    and "concat chunks = concat (map snd (drop (length (wt_writes a))
           (wt_writes (fold wt_step (map WtSend frames) a))))"
    and "map_get (wt_readers b) stream = Some []"
  shows "wt_calls (fold wt_step (map (WtChunk stream) chunks) b) = wt_calls b @ map OnBinary frames"
proof -
  obtain w where w: "wt_streamWriter a = Some w" and op: "wt_open a" using assms(2) by (auto simp: wt_isOpen_def)
  have "wt_session a \<noteq> None" using wt_reachable_inv [OF assms(1)] op by (auto simp: wt_inv_def)
  note sends = wt_sends [OF this op w, of frames]
  have "concat chunks = concat (map wt_encode frames)"
    unfolding assms(4) sends by (induction frames) (simp_all add: wt_encode_def)
  moreover have "wt_drain (concat (map wt_encode frames) @ []) = (frames, [])"
    by (rule wt_frames.drain_encoded [OF assms(3)]) (simp add: wt_frame_def)
  moreover have "fold wt_step (map (WtChunk stream) chunks) b = fold (readFrames_chunk stream) chunks b"
    by (induction chunks arbitrary: b) simp_all
  ultimately show ?thesis using read_chunks_drain [OF assms(5), of chunks] by simp
qed

text \<open>A failure is reported once.  Of all the signs that a live connection broke (failed writes,
  the stream, the session's end) the first tells the owner and schedules a reconnection after the
  current delay; the others, in any number and order before the reconnection, change nothing the
  owner sees.\<close>

theorem wt_failure_reported_once:
  assumes "wt_reachable s" and "wt_session s \<noteq> None" and "\<forall>e \<in> set es. wt_failure e"
    and "s' = fold wt_step es (wt_step WtWriteError s)"
  shows "wt_calls s' = wt_calls s @ [OnClosed (Some True)]
    \<and> wt_reconnectTimer s' = Some (wt_reconnectDelay s)
    \<and> 500 \<le> wt_reconnectDelay s \<and> wt_reconnectDelay s \<le> 5000"
proof -
  have inv: "wt_inv s" by (rule wt_reachable_inv [OF assms(1)])
  then have live: "\<not> wt_failed s" "wt_connectMsg s \<noteq> None" "wt_reconnectTimer s = None"
    using assms(2) by (auto simp: wt_inv_def)
  let ?s1 = "wt_step WtWriteError s"
  have "wt_failed ?s1" "wt_closedHandled ?s1" "wt_calls ?s1 = wt_calls s @ [OnClosed (Some True)]"
    "wt_reconnectTimer ?s1 = Some (wt_reconnectDelay s)"
    using live assms(2) by (auto simp: failTransport_def wt_call_def wt_scheduleReconnect_def wt_bump_def Let_def)
  with wt_failed_silent_run [of ?s1 es] assms(3) inv show ?thesis
    unfolding assms(4) by (simp add: wt_inv_def wt_delay.in_range_def)
qed

text \<open>What disconnecting stops, and what it does not.  After the owner disconnected, until it
  connects again, the transport writes nothing, has no session, schedules nothing and reports
  nothing, except that a session that was still connecting is reported as an authentication
  failure when its \<open>ready\<close> promise rejects, as closing it makes it do.\<close>

theorem wt_disconnect_reports:
  assumes "wt_reachable s" and "\<forall>e \<in> set es. \<forall>m ok. e \<noteq> WtConnect m ok"
    and "s' = fold wt_step es (wt_step WtDisconnect s)"
  shows "wt_writes s' = wt_writes s \<and> \<not> wt_isOpen s' \<and> wt_session s' = None \<and> wt_reconnectTimer s' = None
    \<and> filter not_data (wt_calls s') =
        filter not_data (wt_calls s) @ replicate (rejections es) (OnAuthFailed 0)"
proof -
  have "wt_quiet (wt_disconnect s)" by (simp add: wt_quiet_def wt_disconnect_def)
  from wt_quiet_run [OF this assms(2)] show ?thesis
    by (simp add: assms(3) wt_quiet_def wt_isOpen_def wt_disconnect_def)
qed

definition sample_wt :: wt_state where
  "sample_wt = wt_step (WtAttached True) (wt_step (WtReady 0)
     (wt_step (WtConnect \<lparr>wm_wtPort = 9, wm_token = ''t'', wm_certHash = []\<rparr> True) createWtTransport))"

lemma sample_wt_reachable: "wt_reachable sample_wt"
  unfolding sample_wt_def
  by (intro wt_reachable.stepped wt_reachable.created) (simp_all add: createWtTransport_def)

lemmas sample_wt_eval = sample_wt_def wt_connect_def wt_doConnect_def createWtTransport_def wt_ready_def
  wt_reset_def attachStream_def wt_call_def

theorem wt_stream_any_chunking_witness:
  "wt_calls (fold wt_step (map (WtChunk 0) [[2, 0], [0, 0, 7, 8, 0], [0, 0, 0]]) sample_wt)
   = [OnReady, OnBinary [7, 8], OnBinary []]"
proof -
  have w: "wt_streamWriter sample_wt = Some 0" "wt_open sample_wt" "wt_session sample_wt \<noteq> None"
    "wt_writes sample_wt = []" "map_get (wt_readers sample_wt) 0 = Some []" "wt_calls sample_wt = [OnReady]"
    by (simp_all add: sample_wt_eval)
  have bytes: "concat [[2, 0], [0, 0, 7, 8, 0], [0, 0, 0]] = concat (map snd (drop (length (wt_writes sample_wt))
      (wt_writes (fold wt_step (map WtSend [[7, 8], []]) sample_wt))))"
    unfolding wt_sends [OF w(3,2,1)] by (simp add: w le32_def)
  have "wt_calls (fold wt_step (map (WtChunk 0) [[2, 0], [0, 0, 7, 8, 0], [0, 0, 0]]) sample_wt)
     = wt_calls sample_wt @ map OnBinary [[7, 8], []]"
    by (rule wt_stream_any_chunking [OF sample_wt_reachable _ _ bytes]) (simp_all add: w wt_isOpen_def)
  then show ?thesis by (simp add: w)
qed

theorem wt_failure_reported_once_witness:
  "wt_calls (fold wt_step [WtWriteError, WtClosed 0, WtEnd 0] (wt_step WtWriteError sample_wt))
   = [OnReady, OnClosed (Some True)]"
  using wt_failure_reported_once [OF sample_wt_reachable _ _ refl, of "[WtWriteError, WtClosed 0, WtEnd 0]"]
  by (simp add: wt_failure_def sample_wt_eval)

theorem wt_disconnect_reports_witness:
  "filter not_data (wt_calls (fold wt_step [WtReadyRejected 0] (wt_step WtDisconnect sample_wt)))
   = [OnReady, OnAuthFailed 0]"
  using wt_disconnect_reports [OF sample_wt_reachable _ refl, of "[WtReadyRejected 0]"]
  by (simp add: rejections_def not_data_def sample_wt_eval)

end
