(* ===== verification/Spec2Isabelle.thy ===== *)
theory Spec2Isabelle
  imports Base64 Bootstrap_Gate Bridge_Channel Bridge_Safety Data_Planes Data_Requests Device_Allowance Csp Data_Worker Descriptor_Tlv Framing Js_Bytes Js_Store Js_String Message_Safety Meta_Csp Page_Action Page_Device Settings
    Native_Messaging Permissions_Policy Plane_Spawn Requests Revocation State_Ops Storage Tlv_Encoder Wire_Format
    Ws_Transport Wt_Transport
begin

text \<open>
  \<^bold>\<open>Firefox WebHID: the extension's JavaScript, modelled and verified.\<close>

  The extension gives web pages \<open>navigator.hid\<close> in Firefox. A page calls the API of
  \<open>content/main/index.js\<close>; its messages go over a \<open>MessagePort\<close> to the bridge of the tab
  (\<open>content/isolated/bridge.js\<close>, one per tab, in the top frame), from there over a control port to the
  background page (\<open>background/*.js\<close>), and over Native Messaging to the daemon that owns the devices.
  Reports take one of three data planes: a worker or the page itself talks to the daemon over a
  WebSocket or WebTransport, or the bridge relays them over Native Messaging. The paths below are under
  \<open>src/addon/js/\<close> unless they say otherwise.

  \<^bold>\<open>How the code is read.\<close> Data is what the code has: objects are records, tagged objects and enums are
  datatypes, \<open>Map\<close> and \<open>Set\<close> are lists in insertion order (\<open>Js_Prelude\<close>), \<open>Uint8Array\<close> is a list of 8-bit
  words, absent values are \<open>None\<close>, and the falsy values the code lumps together (empty strings, device id
  0) are kept. Exceptions and rejections are values. A function that awaits is cut at its awaits: what
  runs to its end is one step, what is left is a task of the state, and an event resumes it; steps of
  different tasks interleave freely, so that a property of all runs is a property of all interleavings
  at the granularity of the event loop. What a browser, a database, a port or the daemon does (throws,
  refuses, answers, closes) is an argument of the step or an event. Messages sent are a log of the state.

  \<^bold>\<open>Prelude and interfaces.\<close>
  \<^item> \<open>Js_Prelude\<close>, \<open>Js_Bytes\<close>, \<open>Js_String\<close>: errors as values, \<open>Map\<close> and \<open>Set\<close>, bytes and \<open>DataView\<close>,
    \<open>trim\<close>, \<open>split\<close>, \<open>join\<close>, \<open>includes\<close>, and the keys made of numbers and colons, with the collections
    \<open>js_map_simps\<close> and \<open>js_wf_intros\<close> that carry the proofs about maps.
  \<^item> \<open>Js_Store\<close>: the locale \<open>store\<close> (what a lookup returns after an insert or a removal), interpreted by
    the \<open>Map\<close> and by the map of maps of the background page.
  \<^item> \<open>Requests\<close>: the locale \<open>requests\<close>, the contract of a promise (issued means waiting or settled, settled
    once, for good), interpreted by the native client, the data worker, the control port, the device
    allowance cache and the reports over Native Messaging; and the locale \<open>backoff\<close> of the three
    reconnection delays.
  \<^item> \<open>Framing\<close>: the locale \<open>framing\<close> of length-delimited streams (draining a concatenation returns the
    frames, in whatever chunks it comes), interpreted by the input-report batches, the packed reports of
    Native Messaging and the frames of the WebTransport stream.

  \<^bold>\<open>Codecs.\<close>
  \<^item> \<open>Wire_Format\<close>: \<open>utils/wire-format.js\<close>, \<open>background/packed.js\<close>, the report loop of \<open>background/nm.js\<close> and
    the daemon's end of the same frames (\<open>src/crates/webhid-daemon/src/batching.rs\<close>,
    \<open>src/crates/webhid/src/types.rs\<close>): round trips between the two ends, and what truncated input gives.
  \<^item> \<open>Base64\<close>: \<open>utils/base64.js\<close>: encoder and decoder with every alphabet, padding and last-chunk mode,
    the locale \<open>base64_alphabet\<close> of both alphabets, and the round trip.
  \<^item> \<open>Descriptor_Tlv\<close>, \<open>Tlv_Encoder\<close>: \<open>utils/descriptor-tlv.js\<close> and the daemon's encoder
    (\<open>src/crates/webhid/src/collections_tlv.rs\<close>): the decoder ends on every input and inverts the encoder.
  \<^item> \<open>Csp\<close>: \<open>background/csp.js\<close>: reading and rewriting a Content-Security-Policy. \<open>Meta_Csp\<close>: the part of
    \<open>background/webrequest.js\<close> that rewrites the \<open>meta\<close> tags of a document as it streams by and records
    policies in the session storage.

  \<^bold>\<open>The background page.\<close>
  \<^item> \<open>State_Ops\<close>: \<open>background/state.js\<close> and \<open>background/state_ops.js\<close>: which tab may use which device, who owns
    which session, which documents live, which sessions are still to be closed; every operation, the
    invariant of all runs, isolation of sessions, conservation of tokens.
  \<^item> \<open>Storage\<close>: \<open>background/storage.js\<close>: device records, grants and grant groups.
  \<^item> \<open>Permissions_Policy\<close>: \<open>parseHidPolicy\<close> to \<open>clearPolicyTab\<close> of \<open>background/webrequest.js\<close> and the decision
    of \<open>background/messages.js\<close>: who may use \<open>hid\<close>, exactly.
  \<^item> \<open>Native_Messaging\<close>: \<open>background/nm.js\<close>, \<open>content-ports.js\<close>, \<open>packed.js\<close>: the native client, its requests
    and deadlines, reconnection, delivery of input reports.
  \<^item> \<open>Messages\<close>: the handlers of \<open>background/messages.js\<close> that open, close, use, list and revoke devices;
    \<open>Message_Moves\<close>: what each of them can add to the state; \<open>Message_Safety\<close> and \<open>Revocation\<close>: what whole
    runs of the background guarantee.
  \<^item> \<open>Page_Action\<close>: the page action of Firefox and the pickers.
  \<^item> \<open>Settings\<close>: \<open>utils/settings.js\<close>, the live settings of the bridge, and the migration and settings of
    \<open>background/index.js\<close>.

  \<^bold>\<open>The bridge and the page.\<close>
  \<^item> \<open>Bootstrap_Gate\<close>: \<open>content/isolated/bootstrap-lifetime.js\<close>: which port becomes the channel of a document.
  \<^item> \<open>Bridge_Channel\<close>: the control port to the background. \<open>Device_Allowance\<close>: the cache of devices an
    origin may use. \<open>Bridge_Requests\<close>: frame contexts, clients, sessions and the requests of pages, with
    the invariant of identities in \<open>Bridge_Identity\<close> and the guarantees in \<open>Bridge_Safety\<close>.
  \<^item> \<open>Plane_Keys\<close>, \<open>Data_Planes\<close>: keys, generations and readiness of data planes. \<open>Plane_Spawn\<close>: how a plane
    is brought up and down (\<open>spawnDataPlane\<close>, the workers and in-page planes, the fallback to Native
    Messaging, recovery and the switch of settings), which refines \<open>Data_Planes\<close>. \<open>Data_Requests\<close>:
    reports over Native Messaging.
  \<^item> \<open>Page_Device\<close>: the device objects of \<open>content/main/index.js\<close>.
  \<^item> \<open>Data_Worker\<close>: \<open>content/isolated/worker/index.js\<close>. \<open>Ws_Transport\<close>, \<open>Wt_Transport\<close>:
    \<open>utils/websocket.js\<close> and \<open>utils/webtransport.js\<close>.

  \<^bold>\<open>What the lemmas show.\<close> Each component that keeps state has an invariant of its reachable states
  (\<open>bg_wf\<close>, \<open>bk_inv\<close>, \<open>planes_inv\<close>, \<open>spawner_inv\<close>, \<open>meta_inv\<close> and the like), one preservation lemma per operation and one for
  runs; the properties are read off it. Provenance properties (\<open>sessions_only_for_granted_opens\<close>,
  \<open>bootstrap_promotes_proven\<close>, \<open>page_requests_stamped\<close>) follow a value back through a run to the event that
  justifies it. Promises are counted: every one handed out is waiting or settled, once. Codecs are
  proved by round trips between the extension and the daemon. Where the model shows the code do
  something it does not mean to, a lemma with a concrete run says so (\<open>cached_connect_saves_raw\<close>,
  \<open>overwritten_wait\<close>, \<open>stale_picker_shown\<close>, \<open>sample_body_lost\<close> and others).

  \<^bold>\<open>Bounds and fuel.\<close> The recursions that are not structural have measures: the rest of the buffer for
  the decoders (every reader advances, even where a nested length lies), the rest of the string for the
  splits and tag scans. \<open>allocateDataReqId\<close> probes ids with a fuel of one more than the number of pending
  requests, and \<open>allocateDataReqId_ends\<close> proves that this suffices. \<open>page_action_converges\<close> bounds the
  reconciliations of a tab by two calls of the browser each. JavaScript numbers that count (ids,
  generations, promises) are natural numbers: reaching \<open>Number.MAX_SAFE_INTEGER\<close> is out of reach of
  memory, and \<open>allocateDataReqId\<close>, which wraps there, is modelled with the wrap. Machine words are words.

  \<^bold>\<open>What is not modelled.\<close> Code that draws or reads a user interface (popup, settings, device and picker
  pages, popovers, icons, themes, translations), registration of modules and capture of browser
  intrinsics (\<open>utils/bootstrap.js\<close>), logging, fetching of bundled resources, and the build scripts: they
  keep no state the properties are about. Of the bridge: the handlers that answer the page's questions
  about policy and settings. Of the page: the caches of \<open>getDevices\<close>, the checks of the options of
  \<open>requestDevice\<close>, Trusted Types sharing and the patched \<open>Worker\<close>. Of the daemon: everything but the
  encoders on the other end of a wire. Strings are of Latin-1 code units, the URL parser, the UTF-8
  codec and SHA-256 are parameters. The manifest lists every part with its reason.
\<close>

end
